(* ===== verification/Prelude.thy ===== *)
theory Prelude
  imports Main "HOL-Library.Word" "HOL-Library.Char_ord" "HOL-Library.List_Lexorder"
    "HOL-Library.Product_Lexorder" "HOL-Library.Multiset"
begin

text \<open>
  Shared vocabulary of the development: Rust's fixed-width unsigned arithmetic on
  \<^typ>\<open>nat\<close>, the string operations of Rust's standard library that the program uses, and
  the collections of facts the component theories share.

  A Rust \<^verbatim>\<open>String\<close> is a byte list (\<^typ>\<open>string\<close>, one \<^typ>\<open>char\<close> per UTF-8 byte), so
  \<^const>\<open>length\<close> is Rust's \<^verbatim>\<open>len()\<close> and the order is Rust's byte-wise \<^verbatim>\<open>Ord\<close>. Operations
  that Rust defines on characters (\<^verbatim>\<open>trim\<close>, \<^verbatim>\<open>chars().take(n)\<close>) are written on the bytes of
  the UTF-8 encoding.
\<close>

named_theorems arith_defs "unfolding rules of the fixed-width arithmetic helpers"
named_theorems str_simps "simplification rules of the string helpers"

subsection \<open>Fixed-width unsigned arithmetic\<close>

abbreviation u16_max :: nat where "u16_max \<equiv> 65535"
abbreviation u32_max :: nat where "u32_max \<equiv> 4294967295"
abbreviation u64_max :: nat where "u64_max \<equiv> 18446744073709551615"

text \<open>\<^verbatim>\<open>x as u32\<close> on a wider unsigned value keeps the low 32 bits.\<close>

definition as_u32 :: "nat \<Rightarrow> nat" where
  [arith_defs]: "as_u32 n = n mod (u32_max + 1)"

definition as_u64 :: "nat \<Rightarrow> nat" where
  [arith_defs]: "as_u64 n = n mod (u64_max + 1)"

definition sat_add_u32 :: "nat \<Rightarrow> nat \<Rightarrow> nat" where
  [arith_defs]: "sat_add_u32 a b = min (a + b) u32_max"

definition wrapping_add_u32 :: "nat \<Rightarrow> nat \<Rightarrow> nat" where
  [arith_defs]: "wrapping_add_u32 a b = (a + b) mod (u32_max + 1)"

text \<open>\<^verbatim>\<open>u32::div_ceil\<close>.\<close>

definition div_ceil :: "nat \<Rightarrow> nat \<Rightarrow> nat" where
  "div_ceil a b = (let d = a div b in if a mod b > 0 then d + 1 else d)"

lemma as_u32_id [simp]: "n \<le> u32_max \<Longrightarrow> as_u32 n = n"
  by (simp add: as_u32_def)

lemma as_u32_le: "as_u32 n \<le> u32_max"
  by (simp add: as_u32_def less_Suc_eq_le [symmetric])

lemma sat_add_u32_exact: "a + b \<le> u32_max \<Longrightarrow> sat_add_u32 a b = a + b"
  by (simp add: sat_add_u32_def)

lemma div_ceil_mult_ge: "0 < b \<Longrightarrow> a \<le> div_ceil a b * b"
proof -
  assume b: "0 < b"
  have split: "a = a div b * b + a mod b" by simp
  show ?thesis
  proof (cases "a mod b = 0")
    case True
    then show ?thesis using split by (simp add: div_ceil_def)
  next
    case False
    have "a mod b \<le> b" using b by (simp add: less_imp_le)
    with split have "a \<le> a div b * b + b" by linarith
    then show ?thesis using False by (simp add: div_ceil_def)
  qed
qed

lemma div_ceil_least: "0 < b \<Longrightarrow> a \<le> k * b \<Longrightarrow> div_ceil a b \<le> k"
proof -
  assume b: "0 < b" and le: "a \<le> k * b"
  have d: "a div b \<le> k" using le b by (metis div_le_mono nonzero_mult_div_cancel_right not_gr_zero)
  show ?thesis
  proof (cases "a mod b = 0")
    case True
    then show ?thesis using d by (simp add: div_ceil_def)
  next
    case False
    then have "a div b * b < a"
      by (metis div_mult_mod_eq less_add_same_cancel1 neq0_conv)
    then have "a div b * b < k * b" using le by linarith
    then have "a div b < k" by simp
    then show ?thesis by (simp add: div_ceil_def Let_def)
  qed
qed

subsection \<open>Sums over lists\<close>

lemma sum_list_upt: "sum_list (map f [0..<n]) = (\<Sum>i<n. f i)"
  by (simp add: interv_sum_list_conv_sum_set_nat atLeast0LessThan)

lemma sum_list_update_nat:
  "i < length (xs :: nat list) \<Longrightarrow> sum_list (xs[i := xs ! i + d]) = sum_list xs + d"
proof (induction xs arbitrary: i)
  case Nil
  then show ?case by simp
next
  case (Cons x xs)
  then show ?case by (cases i) auto
qed

subsection \<open>Strings\<close>

fun starts_with :: "string \<Rightarrow> string \<Rightarrow> bool" where
  "starts_with [] s = True"
| "starts_with (p # ps) [] = False"
| "starts_with (p # ps) (c # s) = (p = c \<and> starts_with ps s)"

definition strip_prefix :: "string \<Rightarrow> string \<Rightarrow> string option" where
  "strip_prefix p s = (if starts_with p s then Some (drop (length p) s) else None)"

definition strip_suffix :: "string \<Rightarrow> string \<Rightarrow> string option" where
  "strip_suffix p s =
     (if starts_with (rev p) (rev s) then Some (take (length s - length p) s) else None)"

text \<open>\<^verbatim>\<open>str::find\<close> with a string pattern: the byte offset of the first occurrence.\<close>

fun find_sub :: "string \<Rightarrow> string \<Rightarrow> nat option" where
  "find_sub p [] = (if p = [] then Some 0 else None)"
| "find_sub p (c # s) =
     (if starts_with p (c # s) then Some 0 else map_option Suc (find_sub p s))"

definition contains_sub :: "string \<Rightarrow> string \<Rightarrow> bool" where
  "contains_sub p s = (find_sub p s \<noteq> None)"

text \<open>\<^verbatim>\<open>split_once\<close> / \<^verbatim>\<open>rsplit_once\<close> / \<^verbatim>\<open>split\<close> with a character pattern.\<close>

fun split_once :: "char \<Rightarrow> string \<Rightarrow> (string \<times> string) option" where
  "split_once x [] = None"
| "split_once x (c # s) =
     (if c = x then Some ([], s)
      else case split_once x s of None \<Rightarrow> None | Some (a, b) \<Rightarrow> Some (c # a, b))"

definition rsplit_once :: "char \<Rightarrow> string \<Rightarrow> (string \<times> string) option" where
  "rsplit_once x s =
     (case split_once x (rev s) of None \<Rightarrow> None | Some (a, b) \<Rightarrow> Some (rev b, rev a))"

fun split_on :: "char \<Rightarrow> string \<Rightarrow> string list" where
  "split_on x [] = [[]]"
| "split_on x (c # s) =
     (if c = x then [] # split_on x s
      else case split_on x s of [] \<Rightarrow> [[c]] | h # t \<Rightarrow> (c # h) # t)"

lemma starts_with_append: "starts_with p s \<longleftrightarrow> (\<exists>r. s = p @ r)"
  by (induction p s rule: starts_with.induct) auto

lemma find_sub_Some:
  "find_sub p s = Some k \<Longrightarrow> k + length p \<le> length s \<and> starts_with p (drop k s)"
proof (induction p s arbitrary: k rule: find_sub.induct)
  case (1 p)
  then show ?case by (auto split: if_splits)
next
  case (2 p c s)
  show ?case
  proof (cases "starts_with p (c # s)")
    case True
    then obtain r where "c # s = p @ r" by (auto simp: starts_with_append)
    then have "length p \<le> length (c # s)" by simp
    with True "2.prems" show ?thesis by auto
  next
    case False
    with "2.prems" obtain j where "find_sub p s = Some j" "k = Suc j" by auto
    with "2.IH" False show ?thesis by auto
  qed
qed

lemma strip_prefix_Some: "strip_prefix p s = Some t \<longleftrightarrow> s = p @ t"
  by (auto simp: strip_prefix_def starts_with_append)

lemma strip_suffix_Some: "strip_suffix p s = Some t \<longleftrightarrow> s = t @ p"
proof -
  have "starts_with (rev p) (rev s) \<longleftrightarrow> (\<exists>r. s = r @ p)"
    unfolding starts_with_append by (metis rev_append rev_rev_ident)
  then show ?thesis by (auto simp: strip_suffix_def)
qed

lemma contains_sub_iff: "contains_sub p s \<longleftrightarrow> (\<exists>a b. s = a @ p @ b)"
proof (induction p s rule: find_sub.induct)
  case (1 p)
  then show ?case by (simp add: contains_sub_def)
next
  case (2 p c s)
  have "(\<exists>a b. c # s = a @ p @ b) \<longleftrightarrow> starts_with p (c # s) \<or> (\<exists>a b. s = a @ p @ b)"
    unfolding starts_with_append by (metis append_Cons append_Nil neq_Nil_conv list.inject)
  then show ?case using 2 by (auto simp: contains_sub_def)
qed

lemma split_once_None: "split_once x s = None \<longleftrightarrow> x \<notin> set s"
  by (induction x s rule: split_once.induct) (auto split: option.splits)

lemma split_once_Some:
  "split_once x s = Some (a, b) \<longleftrightarrow> s = a @ x # b \<and> x \<notin> set a"
proof (induction x s arbitrary: a b rule: split_once.induct)
  case (1 x)
  then show ?case by simp
next
  case (2 x c s)
  show ?case
  proof (cases "c = x")
    case True
    then show ?thesis by (cases a) auto
  next
    case False
    show ?thesis
    proof (cases a)
      case Nil
      then show ?thesis using False by (auto split: option.splits)
    next
      case (Cons d l)
      have "split_once x (c # s) = Some (a, b) \<longleftrightarrow> c = d \<and> split_once x s = Some (l, b)"
        using False Cons by (auto split: option.splits)
      with "2.IH" [OF False, of l b] False Cons show ?thesis by auto
    qed
  qed
qed

lemma rsplit_once_Some:
  "rsplit_once x s = Some (a, b) \<longleftrightarrow> s = a @ x # b \<and> x \<notin> set b"
proof -
  have "rsplit_once x s = Some (a, b) \<longleftrightarrow> split_once x (rev s) = Some (rev b, rev a)"
    by (auto simp: rsplit_once_def split: option.splits)
  also have "\<dots> \<longleftrightarrow> rev s = rev b @ x # rev a \<and> x \<notin> set b"
    by (simp add: split_once_Some)
  also have "\<dots> \<longleftrightarrow> s = a @ x # b \<and> x \<notin> set b"
    by (metis append.assoc append_Cons append_Nil rev.simps(2) rev_append rev_rev_ident)
  finally show ?thesis .
qed

lemma split_on_nonempty [simp]: "split_on x s \<noteq> []"
  by (induction x s rule: split_on.induct) (auto split: list.splits)

subsection \<open>Unicode white space and characters on UTF-8 bytes\<close>

text \<open>
  The \<^verbatim>\<open>White_Space\<close> code points by the length of their encoding: U+0009..U+000D and U+0020;
  U+0085 and U+00A0; U+1680, U+2000..U+200A, U+2028, U+2029, U+202F, U+205F and U+3000.
\<close>

abbreviation byte :: "char \<Rightarrow> nat" where "byte c \<equiv> of_char c"

definition ws1 :: "char \<Rightarrow> bool" where
  "ws1 a = (let n = byte a in (9 \<le> n \<and> n \<le> 13) \<or> n = 32)"

definition ws2 :: "char \<Rightarrow> char \<Rightarrow> bool" where
  "ws2 a b = (byte a = 0xC2 \<and> (byte b = 0x85 \<or> byte b = 0xA0))"

definition ws3 :: "char \<Rightarrow> char \<Rightarrow> char \<Rightarrow> bool" where
  "ws3 a b c =
     (let x = byte a; y = byte b; z = byte c in
       (x = 0xE1 \<and> y = 0x9A \<and> z = 0x80) \<or>
       (x = 0xE2 \<and> y = 0x80 \<and> ((0x80 \<le> z \<and> z \<le> 0x8A) \<or> z = 0xA8 \<or> z = 0xA9 \<or> z = 0xAF)) \<or>
       (x = 0xE2 \<and> y = 0x81 \<and> z = 0x9F) \<or>
       (x = 0xE3 \<and> y = 0x80 \<and> z = 0x80))"

fun trim_start :: "string \<Rightarrow> string" where
  "trim_start [] = []"
| "trim_start [a] = (if ws1 a then [] else [a])"
| "trim_start [a, b] =
     (if ws1 a then trim_start [b] else if ws2 a b then [] else [a, b])"
| "trim_start (a # b # c # s) =
     (if ws1 a then trim_start (b # c # s)
      else if ws2 a b then trim_start (c # s)
      else if ws3 a b c then trim_start s else a # b # c # s)"

fun trim_end_rev :: "string \<Rightarrow> string" where
  "trim_end_rev [] = []"
| "trim_end_rev [a] = (if ws1 a then [] else [a])"
| "trim_end_rev [b, a] =
     (if ws1 b then trim_end_rev [a] else if ws2 a b then [] else [b, a])"
| "trim_end_rev (c # b # a # s) =
     (if ws1 c then trim_end_rev (b # a # s)
      else if ws2 b c then trim_end_rev (a # s)
      else if ws3 a b c then trim_end_rev s else c # b # a # s)"

definition trim_end :: "string \<Rightarrow> string" where
  "trim_end s = rev (trim_end_rev (rev s))"

definition trim :: "string \<Rightarrow> string" where
  "trim s = trim_end (trim_start s)"

text \<open>A character starts at every byte that is not a continuation byte.\<close>

definition cont_byte :: "char \<Rightarrow> bool" where
  "cont_byte c = (let n = byte c in 0x80 \<le> n \<and> n < 0xC0)"

definition char_count :: "string \<Rightarrow> nat" where
  "char_count s = length (filter (\<lambda>c. \<not> cont_byte c) s)"

text \<open>\<^verbatim>\<open>s.chars().take(n).collect()\<close>.\<close>

fun take_chars :: "nat \<Rightarrow> string \<Rightarrow> string" where
  "take_chars n [] = []"
| "take_chars n (c # s) =
     (if cont_byte c then c # take_chars n s
      else case n of 0 \<Rightarrow> [] | Suc m \<Rightarrow> c # take_chars m s)"

text \<open>
  \<^verbatim>\<open>str::from_utf8(..).is_ok()\<close>: well-formed UTF-8 (no overlong forms, no surrogates, at most
  U+10FFFF).
\<close>

fun is_utf8 :: "string \<Rightarrow> bool" where
  "is_utf8 [] = True"
| "is_utf8 (a # s) =
     (let x = byte a in
      if x < 0x80 then is_utf8 s
      else case s of
        [] \<Rightarrow> False
      | b # s2 \<Rightarrow>
        (if 0xC2 \<le> x \<and> x \<le> 0xDF then cont_byte b \<and> is_utf8 s2
         else case s2 of
           [] \<Rightarrow> False
         | c # s3 \<Rightarrow>
           (if 0xE0 \<le> x \<and> x \<le> 0xEF then
              cont_byte b \<and> cont_byte c \<and> (x = 0xE0 \<longrightarrow> 0xA0 \<le> byte b) \<and>
              (x = 0xED \<longrightarrow> byte b < 0xA0) \<and> is_utf8 s3
            else case s3 of
              [] \<Rightarrow> False
            | d # s4 \<Rightarrow>
              0xF0 \<le> x \<and> x \<le> 0xF4 \<and> cont_byte b \<and> cont_byte c \<and> cont_byte d \<and>
              (x = 0xF0 \<longrightarrow> 0x90 \<le> byte b) \<and> (x = 0xF4 \<longrightarrow> byte b < 0x90) \<and> is_utf8 s4)))"

lemma ends_Cons: "\<exists>a. s = a @ t \<Longrightarrow> \<exists>a. c # s = a @ t"
  by (metis append_Cons)

lemma trim_start_suffix: "\<exists>a. s = a @ trim_start s"
  by (induction s rule: trim_start.induct) (auto simp: ends_Cons)

lemma trim_end_rev_suffix: "\<exists>a. s = a @ trim_end_rev s"
  by (induction s rule: trim_end_rev.induct) (auto simp: ends_Cons)

lemma trim_infix: "\<exists>a b. s = a @ trim s @ b"
proof -
  obtain a where a: "s = a @ trim_start s" using trim_start_suffix by blast
  obtain b where "rev (trim_start s) = b @ trim_end_rev (rev (trim_start s))" using trim_end_rev_suffix by blast
  from arg_cong [OF this, of rev] have "trim_start s = trim s @ rev b" by (simp add: trim_def trim_end_def)
  with a show ?thesis by metis
qed

lemma length_trim_start: "length (trim_start s) \<le> length s"
  by (induction s rule: trim_start.induct) auto

lemma trim_start_nows: "s = [] \<or> \<not> ws1 (hd s) \<and> byte (hd s) < 0x80 \<Longrightarrow> trim_start s = s"
  by (cases s rule: trim_start.cases) (auto simp: ws2_def ws3_def Let_def)

subsection \<open>Decimal rendering\<close>

definition digit_char :: "nat \<Rightarrow> char" where
  "digit_char d = char_of (48 + d)"

fun nat_str :: "nat \<Rightarrow> string" where
  "nat_str n = (if n < 10 then [digit_char n] else nat_str (n div 10) @ [digit_char (n mod 10)])"

declare nat_str.simps [simp del]

definition int_str :: "int \<Rightarrow> string" where
  "int_str i = (if i < 0 then CHR ''-'' # nat_str (nat (- i)) else nat_str (nat i))"

definition is_digit :: "char \<Rightarrow> bool" where
  "is_digit c = (48 \<le> byte c \<and> byte c \<le> 57)"

text \<open>Value of a run of decimal digits; the inverse of \<^const>\<open>nat_str\<close>.\<close>

definition digits_val :: "string \<Rightarrow> nat" where
  "digits_val s = foldl (\<lambda>n c. 10 * n + (byte c - 48)) 0 s"

lemma byte_digit_char: "d < 10 \<Longrightarrow> byte (digit_char d) = 48 + d"
  by (simp add: digit_char_def)

lemma is_digit_digit_char: "d < 10 \<Longrightarrow> is_digit (digit_char d)"
  by (simp add: is_digit_def byte_digit_char)

lemma digits_val_snoc: "digits_val (s @ [c]) = 10 * digits_val s + (byte c - 48)"
  by (simp add: digits_val_def)

lemma digits_val_nat_str [str_simps]: "digits_val (nat_str n) = n"
proof (induction n rule: nat_str.induct)
  case (1 n)
  show ?case
  proof (cases "n < 10")
    case True
    then show ?thesis by (simp add: nat_str.simps [of n] digits_val_def byte_digit_char)
  next
    case False
    with 1 show ?thesis
      by (simp add: nat_str.simps [of n] digits_val_snoc byte_digit_char)
  qed
qed

lemma nat_str_inject [str_simps]: "nat_str m = nat_str n \<longleftrightarrow> m = n"
  by (metis digits_val_nat_str)

lemma nat_str_digits: "\<forall>c \<in> set (nat_str n). is_digit c"
proof (induction n rule: nat_str.induct)
  case (1 n)
  then show ?case
    by (cases "n < 10") (auto simp: nat_str.simps [of n] is_digit_digit_char)
qed

lemma nat_str_nonempty [simp]: "nat_str n \<noteq> []"
  by (simp add: nat_str.simps [of n])

end
