(* ===== verification/Std_Map.thy ===== *)
theory Std_Map
  imports Prelude
begin

text \<open>
  The two standard maps the program uses. A \<^verbatim>\<open>BTreeMap\<close> is the list of its entries in
  ascending key order, which is also its iteration order. A \<^verbatim>\<open>HashMap\<close> is an entry list in
  some order with distinct keys: the program never relies on that order, and the lemmas that
  read a hash map do so through its lookup function or for an arbitrary order of the entries.

  The locale \<^verbatim>\<open>kv_map\<close> is the contract the clients use (lookup after insert); it is interpreted
  on both representations, and extended with removal by \<^verbatim>\<open>kv_map_del\<close>.
\<close>

subsection \<open>The contract\<close>

locale kv_map =
  fixes get :: "'m \<Rightarrow> 'k \<Rightarrow> 'v option"
    and put :: "'k \<Rightarrow> 'v \<Rightarrow> 'm \<Rightarrow> 'm"
    and ok :: "'m \<Rightarrow> bool"
  assumes ok_put: "ok m \<Longrightarrow> ok (put k v m)"
    and get_put: "ok m \<Longrightarrow> get (put k v m) k' = (if k' = k then Some v else get m k')"
begin

text \<open>Inserting a list of entries one after the other: the last one of a key wins.\<close>

lemma ok_puts: "ok m \<Longrightarrow> ok (fold (\<lambda>(k, v). put k v) kvs m)"
  by (induction kvs arbitrary: m) (auto simp: ok_put)

lemma get_puts:
  "ok m \<Longrightarrow> get (fold (\<lambda>(k, v). put k v) kvs m) k =
     (case map_of (rev kvs) k of None \<Rightarrow> get m k | Some v \<Rightarrow> Some v)"
proof (induction kvs arbitrary: m)
  case Nil
  then show ?case by simp
next
  case (Cons kv kvs)
  obtain a v where kv: "kv = (a, v)" by (cases kv)
  have "ok (put a v m)" using Cons.prems by (rule ok_put)
  from Cons.IH [OF this] show ?case
    using Cons.prems by (auto simp: kv get_put map_add_def split: option.splits)
qed

lemma get_puts_other:
  "ok m \<Longrightarrow> k \<notin> fst ` set kvs \<Longrightarrow> get (fold (\<lambda>(k, v). put k v) kvs m) k = get m k"
  by (simp add: get_puts map_of_eq_None_iff [THEN iffD2] split: option.splits)

lemma put_twice: "ok m \<Longrightarrow> get (put k v (put k w m)) = get (put k v m)"
  by (rule ext) (simp add: get_put ok_put)

end

locale kv_map_del = kv_map get put ok
  for get :: "'m \<Rightarrow> 'k \<Rightarrow> 'v option" and put and ok +
  fixes del :: "'k \<Rightarrow> 'm \<Rightarrow> 'm"
  assumes ok_del: "ok m \<Longrightarrow> ok (del k m)"
    and get_del: "ok m \<Longrightarrow> get (del k m) k' = (if k' = k then None else get m k')"
begin

lemma del_put: "ok m \<Longrightarrow> get m k = None \<Longrightarrow> get (del k (put k v m)) = get m"
  by (rule ext) (simp add: get_put get_del ok_put)

end

subsection \<open>\<^verbatim>\<open>BTreeMap\<close>\<close>

type_synonym ('k, 'v) btree_map = "('k \<times> 'v) list"

fun bt_insert :: "'k :: linorder \<Rightarrow> 'v \<Rightarrow> ('k, 'v) btree_map \<Rightarrow> ('k, 'v) btree_map" where
  "bt_insert k v [] = [(k, v)]"
| "bt_insert k v ((a, b) # m) =
     (if k < a then (k, v) # (a, b) # m
      else if k = a then (k, v) # m
      else (a, b) # bt_insert k v m)"

definition bt_get :: "('k, 'v) btree_map \<Rightarrow> 'k \<Rightarrow> 'v option" where
  "bt_get m k = map_of m k"

definition bt_remove :: "'k \<Rightarrow> ('k, 'v) btree_map \<Rightarrow> ('k, 'v) btree_map" where
  "bt_remove k m = filter (\<lambda>(a, b). a \<noteq> k) m"

definition bt_ok :: "('k :: linorder, 'v) btree_map \<Rightarrow> bool" where
  "bt_ok m = sorted_wrt (<) (map fst m)"

text \<open>\<^verbatim>\<open>BTreeMap::extend\<close> and \<^verbatim>\<open>collect\<close>.\<close>

definition bt_extend :: "('k :: linorder \<times> 'v) list \<Rightarrow> ('k, 'v) btree_map \<Rightarrow> ('k, 'v) btree_map"
  where "bt_extend kvs m = fold (\<lambda>(k, v). bt_insert k v) kvs m"

lemma bt_insert_keys: "fst ` set (bt_insert k v m) = insert k (fst ` set m)"
  by (induction k v m rule: bt_insert.induct) auto

lemma bt_ok_Nil [simp]: "bt_ok []"
  by (simp add: bt_ok_def)

lemma bt_ok_Cons: "bt_ok ((a, b) # m) \<longleftrightarrow> (\<forall>x \<in> fst ` set m. a < x) \<and> bt_ok m"
  by (simp add: bt_ok_def)

lemma bt_ok_insert: "bt_ok m \<Longrightarrow> bt_ok (bt_insert k v m)"
proof (induction k v m rule: bt_insert.induct)
  case (1 k v)
  then show ?case by (simp add: bt_ok_def)
next
  case (2 k v a b m)
  then have hd: "\<forall>x \<in> fst ` set m. a < x" and tl: "bt_ok m" by (simp_all add: bt_ok_Cons)
  show ?case
    using 2 hd tl less_trans
    by (cases "k < a"; cases "k = a") (auto simp: bt_ok_Cons bt_insert_keys)
qed

lemma bt_get_insert: "bt_get (bt_insert k v m) k' = (if k' = k then Some v else bt_get m k')"
  by (induction k v m rule: bt_insert.induct) (auto simp: bt_get_def)

lemma bt_ok_remove: "bt_ok m \<Longrightarrow> bt_ok (bt_remove k m)"
  by (induction m) (auto simp: bt_ok_def bt_remove_def)

lemma bt_get_remove: "bt_get (bt_remove k m) k' = (if k' = k then None else bt_get m k')"
  by (induction m) (auto simp: bt_get_def bt_remove_def)

lemma bt_get_dom: "bt_get m k \<noteq> None \<longleftrightarrow> k \<in> fst ` set m"
  by (simp add: bt_get_def map_of_eq_None_iff)

interpretation bt: kv_map_del bt_get bt_insert bt_ok bt_remove
  by unfold_locales (auto simp: bt_ok_insert bt_get_insert bt_ok_remove bt_get_remove)

subsection \<open>\<^verbatim>\<open>HashMap\<close>\<close>

type_synonym ('k, 'v) hash_map = "('k \<times> 'v) list"

fun hm_put :: "'k \<Rightarrow> 'v \<Rightarrow> ('k, 'v) hash_map \<Rightarrow> ('k, 'v) hash_map" where
  "hm_put k v [] = [(k, v)]"
| "hm_put k v ((a, b) # m) = (if k = a then (k, v) # m else (a, b) # hm_put k v m)"

definition hm_get :: "('k, 'v) hash_map \<Rightarrow> 'k \<Rightarrow> 'v option" where
  "hm_get m k = map_of m k"

definition hm_remove :: "'k \<Rightarrow> ('k, 'v) hash_map \<Rightarrow> ('k, 'v) hash_map" where
  "hm_remove k m = filter (\<lambda>(a, b). a \<noteq> k) m"

definition hm_ok :: "('k, 'v) hash_map \<Rightarrow> bool" where
  "hm_ok m = distinct (map fst m)"

text \<open>\<^verbatim>\<open>get_mut\<close> / \<^verbatim>\<open>entry\<close>: update in place.\<close>

definition hm_update :: "'k \<Rightarrow> ('v \<Rightarrow> 'v) \<Rightarrow> ('k, 'v) hash_map \<Rightarrow> ('k, 'v) hash_map" where
  "hm_update k f m = map (\<lambda>(a, b). (a, if a = k then f b else b)) m"

lemma hm_put_keys: "fst ` set (hm_put k v m) = insert k (fst ` set m)"
  by (induction k v m rule: hm_put.induct) auto

lemma hm_ok_put: "hm_ok m \<Longrightarrow> hm_ok (hm_put k v m)"
  by (induction k v m rule: hm_put.induct) (auto simp: hm_ok_def hm_put_keys simp flip: image_set)

lemma hm_get_put: "hm_get (hm_put k v m) k' = (if k' = k then Some v else hm_get m k')"
  by (induction k v m rule: hm_put.induct) (auto simp: hm_get_def)

lemma hm_ok_remove: "hm_ok m \<Longrightarrow> hm_ok (hm_remove k m)"
  by (induction m) (auto simp: hm_ok_def hm_remove_def)

lemma hm_get_remove: "hm_get (hm_remove k m) k' = (if k' = k then None else hm_get m k')"
  by (induction m) (auto simp: hm_get_def hm_remove_def)

lemma hm_get_update: "hm_get (hm_update k f m) k' = (if k' = k then map_option f (hm_get m k') else hm_get m k')"
  by (induction m) (auto simp: hm_get_def hm_update_def)

lemma hm_update_keys [simp]: "map fst (hm_update k f m) = map fst m"
  by (induction m) (auto simp: hm_update_def)

lemma hm_ok_update: "hm_ok m \<Longrightarrow> hm_ok (hm_update k f m)"
  by (simp add: hm_ok_def)

interpretation hm: kv_map_del hm_get hm_put hm_ok hm_remove
  by unfold_locales (auto simp: hm_ok_put hm_get_put hm_ok_remove hm_get_remove)

lemmas map_gets [simp] =
  bt_get_insert bt_get_remove hm_get_put hm_get_remove hm_get_update

lemmas map_oks [simp, intro] =
  bt_ok_insert bt_ok_remove hm_ok_put hm_ok_remove hm_ok_update

text \<open>Iterating a map and looking up in it agree, whatever the order of the entries.\<close>

lemma hm_get_iff: "hm_ok m \<Longrightarrow> hm_get m k = Some v \<longleftrightarrow> (k, v) \<in> set m"
  by (simp add: hm_get_def hm_ok_def)

lemma hm_get_None: "hm_get m k = None \<longleftrightarrow> k \<notin> fst ` set m"
  by (simp add: hm_get_def map_of_eq_None_iff)

lemma hm_get_perm:
  "hm_ok m \<Longrightarrow> mset m' = mset m \<Longrightarrow> hm_get m' = hm_get m"
proof -
  assume ok: "hm_ok m" and ms: "mset m' = mset m"
  have ok': "hm_ok m'"
    using ok ms unfolding hm_ok_def by (metis mset_map mset_eq_imp_distinct_iff)
  have "set m' = set m" using ms by (rule mset_eq_setD)
  then show ?thesis
    using hm_get_iff [OF ok] hm_get_iff [OF ok'] by (metis not_Some_eq ext)
qed

end
