(* ===== verification/Shard.thy ===== *)
theory Shard
  imports Prelude
begin

text \<open>
  \<^verbatim>\<open>controller/src/grpc/shard.rs\<close>: how many workers a run needs and how a total (virtual
  users, requests per second, dataset rows) is split over them. Values are \<^verbatim>\<open>u32\<close> / \<^verbatim>\<open>u64\<close>
  in the code and \<^typ>\<open>nat\<close> here: every intermediate value is at most the total (or the product
  of two \<^verbatim>\<open>u32\<close> in a \<^verbatim>\<open>u64\<close>), so no operation wraps; \<open>shard_split_bound\<close> and
  \<open>capacity_alloc_sum\<close> state it where it is not obvious. \<^verbatim>\<open>achievable_capacity\<close> saturates.
\<close>

subsection \<open>The functions\<close>

definition worker_count :: "nat \<Rightarrow> nat \<Rightarrow> nat" where
  "worker_count total_vus capacity =
     (let cap = max capacity 1 in max (div_ceil total_vus cap) 1)"

definition shard_split :: "nat \<Rightarrow> nat \<Rightarrow> nat \<Rightarrow> nat \<times> nat" where
  "shard_split total_vus n i =
     (let base = total_vus div n;
          rem = total_vus mod n;
          extra = (if i < rem then 1 else 0);
          vu_count = base + extra;
          vu_offset = i * base + min i rem
      in (vu_offset, vu_count))"

definition dataset_slice :: "bool \<Rightarrow> nat \<Rightarrow> nat \<Rightarrow> nat \<Rightarrow> nat \<times> nat" where
  "dataset_slice is_unique tot shard_count shard_index =
     (if is_unique then shard_split (as_u32 tot) shard_count shard_index
      else (0, tot))"

definition achievable_capacity :: "nat list \<Rightarrow> nat" where
  "achievable_capacity caps = foldl (\<lambda>acc c. sat_add_u32 acc (max c 1)) 0 caps"

definition even_counts :: "nat \<Rightarrow> nat \<Rightarrow> nat list" where
  "even_counts tot n = map (\<lambda>i. snd (shard_split tot n i)) [0..<n]"

text \<open>The two passes of \<^verbatim>\<open>capacity_split\<close> over the zipped allocation and capacity lists.\<close>

fun reclaim :: "nat list \<Rightarrow> nat list \<Rightarrow> nat \<Rightarrow> nat list \<times> nat" where
  "reclaim (a # alloc) (c # caps) overflow =
     (let cap = max c 1;
          (a', overflow') = (if a > cap then (cap, overflow + (a - cap)) else (a, overflow));
          (rest, final) = reclaim alloc caps overflow'
      in (a' # rest, final))"
| "reclaim alloc caps overflow = (alloc, overflow)"

fun redistribute :: "nat list \<Rightarrow> nat list \<Rightarrow> nat \<Rightarrow> nat list" where
  "redistribute (a # alloc) (c # caps) overflow =
     (if overflow = 0 then a # alloc
      else let cap = max c 1;
               add = min (cap - a) overflow
           in (a + add) # redistribute alloc caps (overflow - add))"
| "redistribute alloc caps overflow = alloc"

definition capacity_split :: "nat \<Rightarrow> nat list \<Rightarrow> nat list" where
  "capacity_split total_vus caps =
     (let n = length caps in
      if n = 0 then []
      else let (alloc, overflow) = reclaim (even_counts total_vus n) caps 0
           in redistribute alloc caps overflow)"

text \<open>
  \<^verbatim>\<open>proportional_split\<close>: the quotas, the remainders with their indices, the sort by
  descending remainder and ascending index, and the units left over.
\<close>

definition rem_key :: "nat \<times> nat \<Rightarrow> int \<times> nat" where
  "rem_key p = (- int (fst p), snd p)"

fun give_units :: "(nat \<times> nat) list \<Rightarrow> nat \<Rightarrow> nat list \<Rightarrow> nat list" where
  "give_units [] rem_units alloc = alloc"
| "give_units ((_, i) # rems) rem_units alloc =
     (if rem_units = 0 then alloc
      else give_units rems (rem_units - 1) (alloc[i := alloc ! i + 1]))"

definition proportional_split :: "nat \<Rightarrow> nat list \<Rightarrow> nat list" where
  "proportional_split tot weights =
     (let n = length weights in
      if n = 0 then []
      else let sum_w = sum_list weights in
        if sum_w = 0 then even_counts tot n
        else
          let alloc = map (\<lambda>w. tot * w div sum_w) weights;
              rems = map (\<lambda>i. (tot * weights ! i mod sum_w, i)) [0..<n];
              rem_units = tot - sum_list alloc
          in give_units (sort_key rem_key rems) rem_units alloc)"

definition proportional_split_min1 :: "nat \<Rightarrow> nat list \<Rightarrow> nat list" where
  "proportional_split_min1 tot weights =
     (let n = length weights in
      if n = 0 then []
      else let sum_w = sum_list weights in
        if tot < n \<or> sum_w = 0 then proportional_split tot weights
        else map (\<lambda>e. e + 1) (proportional_split (tot - n) weights))"

subsection \<open>Contiguous splits\<close>

text \<open>
  The contract of a split of \<open>tot\<close> items into \<open>n\<close> contiguous shards: each shard starts
  where the previous one ends, the first at \<open>0\<close>, the last ends at \<open>tot\<close>.
\<close>

locale contiguous_split =
  fixes off :: "nat \<Rightarrow> nat" and cnt :: "nat \<Rightarrow> nat" and n :: nat and tot :: nat
  assumes off_0: "0 < n \<Longrightarrow> off 0 = 0"
    and off_Suc: "Suc i < n \<Longrightarrow> off (Suc i) = off i + cnt i"
    and off_end: "Suc i = n \<Longrightarrow> off i + cnt i = tot"
begin

definition shard :: "nat \<Rightarrow> nat set" where
  "shard i = {off i ..< off i + cnt i}"

lemma off_sum: "i < n \<Longrightarrow> off i = (\<Sum>j<i. cnt j)"
proof (induction i)
  case 0
  then show ?case by (simp add: off_0)
next
  case (Suc i)
  then show ?case by (simp add: off_Suc)
qed

lemma cnt_sum: "0 < n \<Longrightarrow> (\<Sum>j<n. cnt j) = tot"
proof -
  assume "0 < n"
  then obtain m where m: "n = Suc m" by (cases n) auto
  then have "off m = (\<Sum>j<m. cnt j)" by (simp add: off_sum)
  then show ?thesis using off_end [of m] m by simp
qed

lemma off_mono: "i < j \<Longrightarrow> j < n \<Longrightarrow> off i + cnt i \<le> off j"
proof (induction j)
  case 0
  then show ?case by simp
next
  case (Suc j)
  show ?case
  proof (cases "i = j")
    case True
    then show ?thesis using Suc.prems by (simp add: off_Suc)
  next
    case False
    then have "off i + cnt i \<le> off j" using Suc by simp
    then show ?thesis using Suc.prems by (simp add: off_Suc)
  qed
qed

lemma off_le_total: "i < n \<Longrightarrow> off i + cnt i \<le> tot"
proof -
  assume i: "i < n"
  then obtain m where m: "n = Suc m" by (cases n) auto
  show ?thesis
  proof (cases "i = m")
    case True
    then show ?thesis using off_end m by simp
  next
    case False
    then show ?thesis using off_mono [of i m] off_end [of m] i m by simp
  qed
qed

lemma shards_disjoint: "i < n \<Longrightarrow> j < n \<Longrightarrow> i \<noteq> j \<Longrightarrow> shard i \<inter> shard j = {}"
  using off_mono [of i j] off_mono [of j i] by (auto simp: shard_def neq_iff)

lemma shards_cover_upto: "k < n \<Longrightarrow> (\<Union>i<k. shard i) = {..< off k}"
proof (induction k)
  case 0
  then show ?case by (simp add: off_0)
next
  case (Suc k)
  then have "(\<Union>i<k. shard i) = {..< off k}" by simp
  then show ?case
    using Suc.prems by (auto simp: lessThan_Suc off_Suc shard_def)
qed

lemma shards_cover: "0 < n \<Longrightarrow> (\<Union>i<n. shard i) = {..< tot}"
proof -
  assume "0 < n"
  then obtain m where m: "n = Suc m" by (cases n) auto
  have "(\<Union>i<m. shard i) = {..< off m}" using m by (simp add: shards_cover_upto)
  moreover have "off m + cnt m = tot" using m by (simp add: off_end)
  ultimately show ?thesis by (auto simp: m lessThan_Suc shard_def)
qed

end

lemma contiguous_of_counts:
  assumes "sum_list cs = t"
  shows "contiguous_split (\<lambda>i. sum_list (take i cs)) (\<lambda>i. cs ! i) (length cs) t"
proof unfold_locales
  fix i
  show "Suc i < length cs \<Longrightarrow> sum_list (take (Suc i) cs) = sum_list (take i cs) + cs ! i"
    by (simp add: take_Suc_conv_app_nth)
  show "Suc i = length cs \<Longrightarrow> sum_list (take i cs) + cs ! i = t"
    using assms take_Suc_conv_app_nth [of i cs] by (metis lessI sum_list_append sum_list.Cons
      sum_list.Nil add.right_neutral take_all_iff order_refl)
qed simp

subsection \<open>\<^verbatim>\<open>shard_split\<close> is a contiguous split\<close>

lemma shard_split_offset: "fst (shard_split t n i) = i * (t div n) + min i (t mod n)"
  by (simp add: shard_split_def Let_def)

lemma shard_split_count: "snd (shard_split t n i) = t div n + (if i < t mod n then 1 else 0)"
  by (simp add: shard_split_def Let_def)

lemma shard_split_end:
  assumes "Suc i = n"
  shows "fst (shard_split t n i) + snd (shard_split t n i) = t"
proof -
  have "t mod Suc i < Suc i" by simp
  then have "t mod n \<le> i" using assms by (simp only: less_Suc_eq_le)
  moreover have "Suc i * (t div n) + t mod n = t" using assms by (metis mult_div_mod_eq)
  ultimately show ?thesis by (simp add: shard_split_offset shard_split_count)
qed

interpretation split: contiguous_split
  "\<lambda>i. fst (shard_split t n i)" "\<lambda>i. snd (shard_split t n i)" n t for t n
  by unfold_locales
    (simp_all add: shard_split_end, simp_all add: shard_split_offset shard_split_count)

text \<open>The VU numbers (or dataset rows) of shard \<open>i\<close>.\<close>

definition shard_range :: "nat \<Rightarrow> nat \<Rightarrow> nat \<Rightarrow> nat set" where
  "shard_range t n i =
     {fst (shard_split t n i) ..< fst (shard_split t n i) + snd (shard_split t n i)}"

lemma shard_range_split: "shard_range t n i = split.shard t n i"
  by (simp add: shard_range_def split.shard_def)

lemma shard_split_bound: "i < n \<Longrightarrow> fst (shard_split t n i) + snd (shard_split t n i) \<le> t"
  by (rule split.off_le_total)

lemma even_counts_sum: "0 < n \<Longrightarrow> sum_list (even_counts t n) = t"
  using split.cnt_sum [of n t] by (simp add: even_counts_def sum_list_upt)

lemma even_counts_length [simp]: "length (even_counts t n) = n"
  by (simp add: even_counts_def)

lemma even_counts_nth: "i < n \<Longrightarrow> even_counts t n ! i = t div n + (if i < t mod n then 1 else 0)"
  by (simp add: even_counts_def shard_split_count)

subsection \<open>Capacity-bounded split\<close>

abbreviation caps1 :: "nat list \<Rightarrow> nat list" where
  "caps1 caps \<equiv> map (\<lambda>c. max c 1) caps"

lemma reclaim_spec:
  assumes "length alloc = length caps" and "reclaim alloc caps ov = (alloc', ov')"
  shows "alloc' = map2 (\<lambda>a c. min a (max c 1)) alloc caps \<and>
         sum_list alloc' + ov' = sum_list alloc + ov"
  using assms
proof (induction alloc caps arbitrary: ov alloc' ov' rule: list_induct2)
  case Nil
  then show ?case by simp
next
  case (Cons a alloc c caps)
  define ov1 where "ov1 = (if a > max c 1 then ov + (a - max c 1) else ov)"
  obtain r f where rf: "reclaim alloc caps ov1 = (r, f)" by fastforce
  have "alloc' = min a (max c 1) # r" "ov' = f"
    using Cons.prems rf by (auto simp: Let_def ov1_def split: if_splits)
  moreover from Cons.IH [OF rf] have
    "r = map2 (\<lambda>a c. min a (max c 1)) alloc caps" "sum_list r + f = sum_list alloc + ov1"
    by auto
  moreover have "min a (max c 1) + ov1 = a + ov" by (auto simp: ov1_def)
  ultimately show ?case by simp
qed

lemma reclaim_unbound:
  assumes "length alloc = length caps" and "list_all2 (\<le>) alloc (caps1 caps)"
  shows "reclaim alloc caps ov = (alloc, ov)"
  using assms
  by (induction alloc caps arbitrary: ov rule: list_induct2) (auto simp: Let_def simp del: One_nat_def)

lemma redistribute_length [simp]: "length (redistribute alloc caps ov) = length alloc"
  by (induction alloc caps ov rule: redistribute.induct) (auto simp: Let_def)

lemma redistribute_0 [simp]: "redistribute alloc caps 0 = alloc"
  by (cases "(alloc, caps, 0::nat)" rule: redistribute.cases) auto

lemma sum_list_le_all2: "list_all2 (\<le>) xs ys \<Longrightarrow> sum_list xs \<le> sum_list (ys :: nat list)"
  by (induction xs ys rule: list_all2_induct) auto

lemma redistribute_spec:
  assumes "length alloc = length caps" and "list_all2 (\<le>) alloc (caps1 caps)"
  shows "list_all2 (\<le>) (redistribute alloc caps ov) (caps1 caps) \<and>
         sum_list (redistribute alloc caps ov) = min (sum_list alloc + ov) (sum_list (caps1 caps))"
  using assms
proof (induction alloc caps arbitrary: ov rule: list_induct2)
  case Nil
  then show ?case by simp
next
  case (Cons a alloc c caps)
  have le: "sum_list alloc \<le> sum_list (caps1 caps)"
    using Cons.prems Cons.hyps by (intro sum_list_le_all2) auto
  from Cons show ?case using le by (auto simp: Let_def min_def)
qed

lemma capacity_split_length [simp]: "length (capacity_split t caps) = length caps"
proof -
  obtain a ov where r: "reclaim (even_counts t (length caps)) caps 0 = (a, ov)" by fastforce
  then have "length a = length caps" using reclaim_spec [OF _ r] by simp
  then show ?thesis by (auto simp: capacity_split_def r Let_def)
qed

lemma capacity_split_spec:
  "list_all2 (\<le>) (capacity_split t caps) (caps1 caps) \<and>
   sum_list (capacity_split t caps) = min t (sum_list (caps1 caps))"
proof (cases "caps = []")
  case True
  then show ?thesis by (simp add: capacity_split_def)
next
  case False
  let ?e = "even_counts t (length caps)"
  obtain a ov where r: "reclaim ?e caps 0 = (a, ov)" by fastforce
  then have a: "a = map2 (\<lambda>a c. min a (max c 1)) ?e caps"
    and s: "sum_list a + ov = t"
    using reclaim_spec [OF _ r] even_counts_sum False by auto
  have "list_all2 (\<le>) a (caps1 caps)" and "length a = length caps"
    by (auto simp: a list_all2_conv_all_nth)
  with redistribute_spec [of a caps ov] s False show ?thesis
    by (simp add: capacity_split_def r Let_def)
qed

subsection \<open>Largest-remainder split\<close>

lemma give_units_length [simp]: "length (give_units rems k alloc) = length alloc"
  by (induction rems k alloc rule: give_units.induct) auto

lemma give_units_nth:
  assumes "distinct (map snd rems)" and "i < length alloc"
  shows "give_units rems k alloc ! i =
    alloc ! i + (if i \<in> snd ` set (take k rems) then 1 else 0)"
  using assms
proof (induction rems k alloc rule: give_units.induct)
  case (1 k alloc)
  then show ?case by simp
next
  case (2 r j rems k alloc)
  show ?case
  proof (cases k)
    case 0
    then show ?thesis by simp
  next
    case (Suc m)
    have "j \<notin> snd ` set (take m rems)"
      using "2.prems"(1) by (auto dest: in_set_takeD)
    moreover have "\<And>a. (a, i) \<in> set (take m rems) \<Longrightarrow> i \<noteq> j"
      using calculation by force
    ultimately show ?thesis using 2 Suc by (cases "i = j") auto
  qed
qed

lemma sum_list_add_indicator:
  "finite A \<Longrightarrow> A \<subseteq> {..< length (xs :: nat list)} \<Longrightarrow> length ys = length xs \<Longrightarrow>
   (\<And>i. i < length xs \<Longrightarrow> ys ! i = xs ! i + (if i \<in> A then 1 else 0)) \<Longrightarrow>
   sum_list ys = sum_list xs + card A"
proof -
  assume fin: "finite A" and sub: "A \<subseteq> {..< length xs}" and len: "length ys = length xs"
    and nth: "\<And>i. i < length xs \<Longrightarrow> ys ! i = xs ! i + (if i \<in> A then 1 else 0)"
  have "sum_list ys = (\<Sum>i<length xs. ys ! i)"
    using len by (simp add: sum_list_sum_nth atLeast0LessThan)
  also have "\<dots> = (\<Sum>i<length xs. xs ! i + (if i \<in> A then 1 else 0))"
    using nth by (intro sum.cong) auto
  also have "\<dots> = sum_list xs + (\<Sum>i<length xs. if i \<in> A then 1 else 0)"
    by (simp add: sum.distrib sum_list_sum_nth atLeast0LessThan)
  also have "(\<Sum>i<length xs. if i \<in> A then 1 else 0) = card A"
    using sub fin by (simp add: Int_absorb1 flip: sum.inter_restrict)
  finally show ?thesis .
qed

definition quotas :: "nat \<Rightarrow> nat list \<Rightarrow> nat list" where
  "quotas t ws = map (\<lambda>w. t * w div sum_list ws) ws"

definition remainders :: "nat \<Rightarrow> nat list \<Rightarrow> (nat \<times> nat) list" where
  "remainders t ws =
     sort_key rem_key (map (\<lambda>i. (t * ws ! i mod sum_list ws, i)) [0..<length ws])"

lemma remainders_idx:
  "distinct (map snd (remainders t ws))" "snd ` set (remainders t ws) = {..<length ws}"
  "length (remainders t ws) = length ws"
proof -
  let ?m = "map (\<lambda>i. (t * ws ! i mod sum_list ws, i)) [0..<length ws]"
  have "mset (map snd (remainders t ws)) = mset (map snd ?m)"
    by (simp only: remainders_def mset_map mset_sort)
  also have "map snd ?m = [0..<length ws]" by (simp add: comp_def)
  finally have ms: "mset (map snd (remainders t ws)) = mset [0..<length ws]" .
  show "distinct (map snd (remainders t ws))"
    using mset_eq_imp_distinct_iff [OF ms] by simp
  show "snd ` set (remainders t ws) = {..<length ws}"
    using mset_eq_setD [OF ms] by (simp add: atLeast0LessThan)
  show "length (remainders t ws) = length ws" by (simp add: remainders_def)
qed

lemma quota_deficit:
  assumes "0 < sum_list ws"
  shows "sum_list (quotas t ws) \<le> t \<and> t - sum_list (quotas t ws) < length ws"
proof -
  let ?s = "sum_list ws"
  have split: "\<And>w. t * w = ?s * (t * w div ?s) + t * w mod ?s" by simp
  have "t * ?s = sum_list (map (\<lambda>w. t * w) ws)" by (simp add: sum_list_const_mult)
  also have "\<dots> = sum_list (map (\<lambda>w. ?s * (t * w div ?s) + t * w mod ?s) ws)"
    by (simp only: split [symmetric])
  also have "\<dots> = ?s * sum_list (quotas t ws) + sum_list (map (\<lambda>w. t * w mod ?s) ws)"
    by (simp only: sum_list_addf quotas_def sum_list_const_mult)
  finally have eq: "t * ?s = ?s * sum_list (quotas t ws) + sum_list (map (\<lambda>w. t * w mod ?s) ws)" .
  have ne: "ws \<noteq> []" using assms by auto
  have "sum_list (map (\<lambda>w. t * w mod ?s) ws) < sum_list (map (\<lambda>w. ?s) ws)"
    using ne assms by (intro sum_list_strict_mono) auto
  then have lt: "sum_list (map (\<lambda>w. t * w mod ?s) ws) < length ws * ?s"
    by (simp add: sum_list_triv)
  have "?s * sum_list (quotas t ws) \<le> ?s * t" using eq by (metis le_add1 mult.commute)
  then have le: "sum_list (quotas t ws) \<le> t" using assms by simp
  have "?s * (t - sum_list (quotas t ws)) < ?s * length ws"
    using eq lt by (simp add: diff_mult_distrib2 mult.commute)
  with le assms show ?thesis by simp
qed

lemma proportional_split_nth:
  assumes "0 < sum_list ws" and "i < length ws"
  shows "proportional_split t ws ! i = t * ws ! i div sum_list ws +
    (if i \<in> snd ` set (take (t - sum_list (quotas t ws)) (remainders t ws)) then 1 else 0)"
proof -
  have "proportional_split t ws =
    give_units (remainders t ws) (t - sum_list (quotas t ws)) (quotas t ws)"
    using assms unfolding proportional_split_def remainders_def quotas_def Let_def
    by (auto simp del: sum_list_eq_0_iff)
  then show ?thesis
    using assms give_units_nth [OF remainders_idx(1), of i "quotas t ws"]
    by (simp add: quotas_def)
qed

lemma proportional_split_length [simp]: "length (proportional_split t ws) = length ws"
  by (simp add: proportional_split_def Let_def)

lemma proportional_split_sum:
  assumes "ws \<noteq> []"
  shows "sum_list (proportional_split t ws) = t"
proof (cases "sum_list ws = 0")
  case True
  then show ?thesis using assms by (simp add: proportional_split_def even_counts_sum)
next
  case False
  then have pos: "0 < sum_list ws" by (simp only: neq0_conv)
  define k where "k = t - sum_list (quotas t ws)"
  define A where "A = snd ` set (take k (remainders t ws))"
  have k: "k < length ws" "sum_list (quotas t ws) + k = t"
    using quota_deficit [OF pos, of t] by (auto simp: k_def)
  have "card A = length (map snd (take k (remainders t ws)))"
    unfolding A_def
    by (metis distinct_card distinct_take list.set_map remainders_idx(1) take_map)
  then have card: "card A = k" using k remainders_idx(3) [of t ws] by simp
  have "A \<subseteq> {..<length (quotas t ws)}"
    using remainders_idx(2) [of t ws] by (auto simp: A_def quotas_def dest: in_set_takeD)
  then have "sum_list (proportional_split t ws) = sum_list (quotas t ws) + card A"
    using proportional_split_nth [OF pos, of _ t]
    by (intro sum_list_add_indicator) (auto simp: A_def k_def quotas_def)
  then show ?thesis using card k by simp
qed

lemma sorted_equal_remainders: "sorted (map rem_key (map (\<lambda>i. (c, i)) [0..<n]))"
  by (simp add: sorted_map rem_key_def sorted_wrt_upt comp_def less_imp_le
      sorted_wrt_iff_nth_less)

text \<open>Equal weights reproduce \<^verbatim>\<open>shard_split\<close>'s counts.\<close>

lemma proportional_split_equal:
  assumes w: "0 < w"
  shows "proportional_split t (replicate n w) = even_counts t n"
proof (cases "n = 0")
  case True
  then show ?thesis by (simp add: proportional_split_def even_counts_def)
next
  case False
  let ?ws = "replicate n w"
  have s: "sum_list ?ws = n * w" by (simp add: sum_list_replicate)
  have pos: "0 < sum_list ?ws" using w False unfolding s by simp
  have "remainders t ?ws = sort_key rem_key (map (\<lambda>i. ((t mod n) * w, i)) [0..<n])"
    unfolding remainders_def s using w False
    by (intro arg_cong [where f = "sort_key rem_key"]) (auto simp: mod_mult_mult2)
  then have rems: "remainders t ?ws = map (\<lambda>i. ((t mod n) * w, i)) [0..<n]"
    by (simp only: sort_key_id_if_sorted [OF sorted_equal_remainders])
  have q: "quotas t ?ws = replicate n (t div n)"
    unfolding quotas_def s using w False by simp
  have k: "t - sum_list (quotas t ?ws) = t mod n"
    by (simp add: q sum_list_replicate minus_mult_div_eq_mod)
  show ?thesis
  proof (rule nth_equalityI)
    fix i assume "i < length (proportional_split t ?ws)"
    then have i: "i < n" by simp
    have "t mod n < n" using False by simp
    then have "snd ` set (take (t mod n) (remainders t ?ws)) = {..<t mod n}"
      by (simp add: rems take_map image_image atLeast0LessThan)
    then show "proportional_split t ?ws ! i = even_counts t n ! i"
      using proportional_split_nth [OF pos, of i t] i w
      unfolding k s by (simp add: even_counts_nth)
  qed simp
qed

text \<open>A unit goes to the larger remainder, and to the smaller index between equal ones.\<close>

lemma extra_unit_order:
  assumes "i \<in> snd ` set (take k (remainders t ws))"
    and "j \<notin> snd ` set (take k (remainders t ws))" and "j < length ws"
  shows "rem_key (t * ws ! i mod sum_list ws, i) \<le> rem_key (t * ws ! j mod sum_list ws, j)"
proof -
  let ?r = "remainders t ws"
  have mem: "\<And>p. p \<in> set ?r \<Longrightarrow> p = (t * ws ! snd p mod sum_list ws, snd p)"
    by (auto simp: remainders_def)
  obtain a where a: "a \<in> set (take k ?r)" "snd a = i" using assms(1) by blast
  have "j \<in> snd ` set ?r" using assms(3) by (simp add: remainders_idx(2))
  then obtain b where b: "b \<in> set ?r" "snd b = j" by blast
  have "b \<notin> set (take k ?r)" using b assms(2) by blast
  moreover have "set ?r = set (take k ?r) \<union> set (drop k ?r)"
    by (metis append_take_drop_id set_append)
  ultimately have "b \<in> set (drop k ?r)" using b by blast
  moreover have "sorted (map rem_key (take k ?r @ drop k ?r))" by (simp add: remainders_def)
  ultimately have "rem_key a \<le> rem_key b"
    using a(1) unfolding map_append sorted_append set_map by blast
  moreover have "a = (t * ws ! i mod sum_list ws, i)"
    using mem [OF in_set_takeD [OF a(1)]] unfolding a(2) .
  moreover have "b = (t * ws ! j mod sum_list ws, j)" using mem [OF b(1)] unfolding b(2) .
  ultimately show ?thesis by simp
qed

subsection \<open>Properties\<close>

text \<open>
  C1: the shards of \<^verbatim>\<open>shard_split\<close> partition the numbers below the total (every VU number
  belongs to exactly one worker), stay inside it and differ in size by at most one.
\<close>

theorem shard_split_partition:
  assumes "0 < n"
  shows "(\<Union>i<n. shard_range t n i) = {..<t}
    \<and> (\<forall>i j. i < n \<and> j < n \<and> i \<noteq> j \<longrightarrow> shard_range t n i \<inter> shard_range t n j = {})
    \<and> (\<forall>i j. snd (shard_split t n i) \<le> snd (shard_split t n j) + 1)"
  using assms split.shards_cover [of n t] split.shards_disjoint [of _ n _ t]
  by (auto simp: shard_range_split shard_split_count)

theorem shard_split_partition_witness:
  "(\<Union>i<(3::nat). shard_range 10 3 i) = {..<10} \<and> shard_split 10 3 2 = (7, 3)"
  using shard_split_partition [of 3 10] by (simp add: shard_split_def)

text \<open>
  \<^verbatim>\<open>capacity_split\<close> gives every worker at most its capacity (at least 1), allocates the
  whole total when the capacities allow it and every slot otherwise, and is the even split
  whenever no capacity binds.
\<close>

theorem capacity_split_correct:
  "length (capacity_split t caps) = length caps
   \<and> (\<forall>i < length caps. capacity_split t caps ! i \<le> max (caps ! i) 1)
   \<and> sum_list (capacity_split t caps) = min t (\<Sum>c\<leftarrow>caps. max c 1)
   \<and> ((\<forall>i < length caps. snd (shard_split t (length caps) i) \<le> max (caps ! i) 1)
       \<longrightarrow> capacity_split t caps = map (\<lambda>i. snd (shard_split t (length caps) i)) [0..<length caps])"
proof (intro conjI impI)
  show "\<forall>i < length caps. capacity_split t caps ! i \<le> max (caps ! i) 1"
    using capacity_split_spec [of t caps] by (simp add: list_all2_conv_all_nth)
  show "sum_list (capacity_split t caps) = min t (\<Sum>c\<leftarrow>caps. max c 1)"
    using capacity_split_spec [of t caps] by simp
  assume "\<forall>i < length caps. snd (shard_split t (length caps) i) \<le> max (caps ! i) 1"
  then have "list_all2 (\<le>) (even_counts t (length caps)) (caps1 caps)"
    by (simp add: list_all2_conv_all_nth even_counts_def)
  then have "reclaim (even_counts t (length caps)) caps 0 = (even_counts t (length caps), 0)"
    by (intro reclaim_unbound) simp
  then show "capacity_split t caps = map (\<lambda>i. snd (shard_split t (length caps) i)) [0..<length caps]"
    by (simp add: capacity_split_def Let_def even_counts_def)
qed simp

theorem capacity_split_correct_witness:
  "sum_list (capacity_split 10 [2, 0, 100]) = 10 \<and> capacity_split 9 [5, 4, 3] = [3, 3, 3]"
proof -
  have h: "\<forall>i < length [5, 4, 3 :: nat]. snd (shard_split 9 (length [5, 4, 3 :: nat]) i) \<le> max ([5, 4, 3] ! i) 1"
    by (auto simp: shard_split_def less_Suc_eq)
  then show ?thesis
    using capacity_split_correct [of 10 "[2, 0, 100]"] capacity_split_correct [of 9 "[5, 4, 3]"]
    by (simp add: shard_split_def upt_rec)
qed

text \<open>
  \<^verbatim>\<open>proportional_split\<close> distributes exactly the total; every share is its exact quota
  rounded down or up; the units that rounding leaves go to the largest fractional remainders
  (smaller index first); equal weights give \<^verbatim>\<open>shard_split\<close>'s counts.
\<close>

theorem proportional_split_correct:
  assumes "ws \<noteq> []" and "0 < sum_list ws"
  shows "sum_list (proportional_split t ws) = t
    \<and> (\<forall>i < length ws. proportional_split t ws ! i \<in>
         {t * ws ! i div sum_list ws, t * ws ! i div sum_list ws + 1})
    \<and> (\<forall>i < length ws. \<forall>j < length ws.
         proportional_split t ws ! i = t * ws ! i div sum_list ws + 1
         \<and> proportional_split t ws ! j = t * ws ! j div sum_list ws
         \<longrightarrow> rem_key (t * ws ! i mod sum_list ws, i) \<le> rem_key (t * ws ! j mod sum_list ws, j))
    \<and> (\<forall>w > 0. proportional_split t (replicate n w) = even_counts t n)"
proof (intro conjI allI impI)
  show "sum_list (proportional_split t ws) = t" using assms by (simp add: proportional_split_sum)
  show "proportional_split t ws ! i \<in>
    {t * ws ! i div sum_list ws, t * ws ! i div sum_list ws + 1}" if "i < length ws" for i
    using that assms by (simp add: proportional_split_nth)
  fix i j assume "i < length ws" "j < length ws"
    and "proportional_split t ws ! i = t * ws ! i div sum_list ws + 1
         \<and> proportional_split t ws ! j = t * ws ! j div sum_list ws"
  then show "rem_key (t * ws ! i mod sum_list ws, i) \<le> rem_key (t * ws ! j mod sum_list ws, j)"
    using assms by (intro extra_unit_order) (auto simp: proportional_split_nth split: if_splits)
qed (rule proportional_split_equal)

theorem proportional_split_correct_witness:
  "sum_list (proportional_split 10 [3, 0, 7]) = 10 \<and> proportional_split 10 [1, 2, 4] = [1, 3, 6]
   \<and> proportional_split 8 [5, 5, 5] = even_counts 8 3"
proof -
  have "proportional_split 10 [1, 2, 4] = [1, 3, 6]" by code_simp
  then show ?thesis
    using proportional_split_correct [of "[3, 0, 7]" 10 3]
      proportional_split_correct [of "[3, 0, 7]" 8 3]
    by (auto simp: numeral_3_eq_3)
qed

text \<open>
  \<^verbatim>\<open>proportional_split_min1\<close> leaves no worker without a share, still distributes exactly
  the total, and agrees with \<^verbatim>\<open>shard_split\<close> for equal weights.
\<close>

theorem proportional_split_min1_correct:
  assumes "ws \<noteq> []" and "length ws \<le> t" and "0 < sum_list ws"
  shows "length (proportional_split_min1 t ws) = length ws
    \<and> (\<forall>a \<in> set (proportional_split_min1 t ws). 1 \<le> a)
    \<and> sum_list (proportional_split_min1 t ws) = t
    \<and> ((\<forall>w \<in> set ws. w = hd ws) \<longrightarrow> proportional_split_min1 t ws = even_counts t (length ws))"
proof -
  have eq: "proportional_split_min1 t ws = map (\<lambda>e. e + 1) (proportional_split (t - length ws) ws)"
    using assms unfolding proportional_split_min1_def Let_def
    by (simp del: sum_list_eq_0_iff)
  have "sum_list (proportional_split_min1 t ws) = t"
    using assms proportional_split_sum [of ws "t - length ws"]
      sum_list_addf [of "\<lambda>e. e" "\<lambda>e. 1" "proportional_split (t - length ws) ws"]
    by (simp add: eq sum_list_triv)
  moreover have "proportional_split_min1 t ws = even_counts t (length ws)" if "\<forall>w \<in> set ws. w = hd ws"
  proof -
    have ws: "ws = replicate (length ws) (hd ws)" using that by (simp add: list_eq_iff_nth_eq)
    have "0 < hd ws" using assms(3) ws by (metis sum_list_replicate mult_0_right neq0_conv)
    then have "proportional_split (t - length ws) ws = even_counts (t - length ws) (length ws)"
      using ws proportional_split_equal by metis
    moreover have "t mod length ws = (t - length ws) mod length ws"
      "t div length ws = Suc ((t - length ws) div length ws)"
      using assms by (simp_all add: le_mod_geq le_div_geq)
    ultimately show ?thesis unfolding eq by (simp add: list_eq_iff_nth_eq even_counts_nth)
  qed
  ultimately show ?thesis by (auto simp: eq)
qed

theorem proportional_split_min1_correct_witness:
  "sum_list (proportional_split_min1 5 [1, 100]) = 5 \<and> proportional_split_min1 5 [1, 100] = [1, 4]"
proof -
  have "proportional_split_min1 5 [1, 100] = [1, 4]" by code_simp
  then show ?thesis using proportional_split_min1_correct [of "[1, 100]" 5] by simp
qed

text \<open>
  \<^verbatim>\<open>worker_count\<close> is the least positive number of workers of the given capacity (0 counts
  as 1) that can hold all virtual users.
\<close>

theorem worker_count_least:
  "1 \<le> worker_count t cap
   \<and> t \<le> worker_count t cap * max cap 1
   \<and> (\<forall>k \<ge> 1. t \<le> k * max cap 1 \<longrightarrow> worker_count t cap \<le> k)"
  using div_ceil_mult_ge [of "max cap 1" t] div_ceil_least [of "max cap 1" t]
  by (auto simp: worker_count_def Let_def max_def not_le intro: le_trans)

theorem worker_count_least_witness:
  "worker_count 10 4 = 3 \<and> worker_count 10 4 \<le> 3 \<and> worker_count 0 0 \<le> 1"
  using worker_count_least [of 10 4] worker_count_least [of 0 0]
  by (auto simp: worker_count_def div_ceil_def)

text \<open>
  the dataset slices of a unique binding are disjoint and together are all rows (for the
  row counts the validation admits), so no two workers serve the same row; every other policy
  gives each worker the whole dataset.
\<close>

theorem dataset_slice_unique_partition:
  assumes "0 < n" and "rows \<le> u32_max" and "row < rows"
  shows "(\<exists>!i. i < n \<and> fst (dataset_slice True rows n i) \<le> row
            \<and> row < fst (dataset_slice True rows n i) + snd (dataset_slice True rows n i))
    \<and> dataset_slice False rows n k = (0, rows)"
proof
  have eq: "dataset_slice True rows n i = shard_split rows n i" for i
    using assms by (simp add: dataset_slice_def)
  have "row \<in> (\<Union>i<n. split.shard rows n i)"
    using split.shards_cover [of n rows] assms by simp
  then obtain i where i: "i < n" "row \<in> split.shard rows n i" by auto
  moreover have "j = i" if "j < n" "row \<in> split.shard rows n j" for j
    using split.shards_disjoint [of i n j rows] i that by auto
  ultimately have "\<exists>!i. i < n \<and> row \<in> split.shard rows n i" by blast
  then show "\<exists>!i. i < n \<and> fst (dataset_slice True rows n i) \<le> row
      \<and> row < fst (dataset_slice True rows n i) + snd (dataset_slice True rows n i)"
    by (simp add: eq split.shard_def)
  show "dataset_slice False rows n k = (0, rows)" by (simp add: dataset_slice_def)
qed

theorem dataset_slice_unique_partition_witness:
  "(\<exists>!i. i < 2 \<and> fst (dataset_slice True 5 2 i) \<le> 3
       \<and> 3 < fst (dataset_slice True 5 2 i) + snd (dataset_slice True 5 2 i))
   \<and> dataset_slice True 5 2 1 = (3, 2)"
  using dataset_slice_unique_partition [of 2 5 3] by (simp add: dataset_slice_def shard_split_def)

end
