(* ===== verification/Engine_Error.thy ===== *)
theory Engine_Error
  imports Prelude
begin

text \<open>
  \<^verbatim>\<open>engine/src/error.rs\<close> and \<^verbatim>\<open>engine/src/error_kind.rs\<close>: the engine's error type, its
  rendering, the value-free rendering that is persisted with a run, and the classification of
  a failed send. The payload of a wrapped third-party error is its rendering; \<open>dbg\<close> is Rust's
  \<^verbatim>\<open>{:?}\<close> of a string.
\<close>

subsection \<open>Engine errors\<close>

datatype engine_error =
    ScenarioParse string
  | UnknownVar string
  | MalformedTemplate string
  | HttpError string
  | AllVusFailed nat nat "string option"
  | HistogramError string
  | IoError string
  | ExtractFailed string
  | CastFailed string string string
  | Aborted

type_synonym 'a res = "engine_error + 'a"

definition display_error :: "(string \<Rightarrow> string) \<Rightarrow> engine_error \<Rightarrow> string" where
  "display_error dbg e = (case e of
     ScenarioParse m \<Rightarrow> ''scenario parse: '' @ m
   | UnknownVar v \<Rightarrow> ''template: unknown variable '' @ v
   | MalformedTemplate m \<Rightarrow> ''template: malformed expression near '' @ [CHR 0x27] @ m @ [CHR 0x27]
   | HttpError m \<Rightarrow> ''http: '' @ m
   | AllVusFailed failed tot cause \<Rightarrow>
       ''all VUs failed ('' @ nat_str failed @ ''/'' @ nat_str tot @ '')''
       @ (case cause of None \<Rightarrow> [] | Some c \<Rightarrow> '': '' @ c)
   | HistogramError m \<Rightarrow> ''histogram: '' @ m
   | IoError m \<Rightarrow> ''io: '' @ m
   | ExtractFailed m \<Rightarrow> ''extract failed: '' @ m
   | CastFailed var cast val \<Rightarrow>
       ''template: cannot cast '' @ var @ '' value '' @ dbg val @ '' to '' @ cast
   | Aborted \<Rightarrow> ''aborted'')"

definition safe_cause :: "(string \<Rightarrow> string) \<Rightarrow> engine_error \<Rightarrow> string option" where
  "safe_cause dbg e = (case e of
     ScenarioParse _ \<Rightarrow> Some (display_error dbg e)
   | UnknownVar _ \<Rightarrow> Some (display_error dbg e)
   | MalformedTemplate _ \<Rightarrow> Some (display_error dbg e)
   | HistogramError _ \<Rightarrow> Some (display_error dbg e)
   | CastFailed var cast _ \<Rightarrow> Some (''template: cannot cast '' @ var @ '' to '' @ cast)
   | HttpError _ \<Rightarrow> None
   | IoError _ \<Rightarrow> None
   | ExtractFailed _ \<Rightarrow> None
   | AllVusFailed _ _ _ \<Rightarrow> None
   | Aborted \<Rightarrow> None)"

subsection \<open>Send error classification\<close>

datatype error_kind =
    ConnectRefused | ConnectionReset | ConnectTimeout | Timeout | Dns | Tls
  | LocalPortExhaustion | OtherKind

definition error_kind_as_str :: "error_kind \<Rightarrow> string" where
  "error_kind_as_str k = (case k of
     ConnectRefused \<Rightarrow> ''connect_refused''
   | ConnectionReset \<Rightarrow> ''connection_reset''
   | ConnectTimeout \<Rightarrow> ''connect_timeout''
   | Timeout \<Rightarrow> ''timeout''
   | Dns \<Rightarrow> ''dns''
   | Tls \<Rightarrow> ''tls''
   | LocalPortExhaustion \<Rightarrow> ''local_port_exhaustion''
   | OtherKind \<Rightarrow> ''other'')"

text \<open>The derived \<^verbatim>\<open>Ord\<close> is the order of declaration.\<close>

definition error_kind_rank :: "error_kind \<Rightarrow> nat" where
  "error_kind_rank k = (case k of
     ConnectRefused \<Rightarrow> 0 | ConnectionReset \<Rightarrow> 1 | ConnectTimeout \<Rightarrow> 2 | Timeout \<Rightarrow> 3
   | Dns \<Rightarrow> 4 | Tls \<Rightarrow> 5 | LocalPortExhaustion \<Rightarrow> 6 | OtherKind \<Rightarrow> 7)"

lemma error_kind_rank_inject [simp]: "error_kind_rank a = error_kind_rank b \<longleftrightarrow> a = b"
  by (cases a; cases b) (simp_all add: error_kind_rank_def)

lemma error_kind_as_str_inject: "error_kind_as_str a = error_kind_as_str b \<longleftrightarrow> a = b"
  by (cases a; cases b) (simp_all add: error_kind_as_str_def)

instantiation error_kind :: linorder
begin

definition less_eq_error_kind :: "error_kind \<Rightarrow> error_kind \<Rightarrow> bool" where
  "less_eq_error_kind a b = (error_kind_rank a \<le> error_kind_rank b)"

definition less_error_kind :: "error_kind \<Rightarrow> error_kind \<Rightarrow> bool" where
  "less_error_kind a b = (error_kind_rank a < error_kind_rank b)"

instance
  by standard (auto simp: less_eq_error_kind_def less_error_kind_def)

end

text \<open>
  One link of an error's \<^verbatim>\<open>source()\<close> chain: the \<^verbatim>\<open>io::ErrorKind\<close> when the link is an
  \<^verbatim>\<open>io::Error\<close>, and its own rendering. Only the kinds the classification distinguishes are named.
\<close>

datatype io_kind = AddrNotAvailable | ConnectionRefusedIo | ConnectionResetIo | BrokenPipe | OtherIo

record err_link =
  link_io :: "io_kind option"
  link_msg :: string

text \<open>A send error: its own flags and the chain from \<^verbatim>\<open>e.source()\<close> on (empty without a source).\<close>

record send_error =
  se_is_timeout :: bool
  se_is_connect :: bool
  se_sources :: "err_link list"

fun io_kind_class :: "err_link list \<Rightarrow> error_kind option" where
  "io_kind_class [] = None"
| "io_kind_class (l # ls) =
     (case link_io l of
        Some AddrNotAvailable \<Rightarrow> Some LocalPortExhaustion
      | Some ConnectionRefusedIo \<Rightarrow> Some ConnectRefused
      | Some ConnectionResetIo \<Rightarrow> Some ConnectionReset
      | Some BrokenPipe \<Rightarrow> Some ConnectionReset
      | _ \<Rightarrow> io_kind_class ls)"

fun chain_messages :: "err_link list \<Rightarrow> string list" where
  "chain_messages [] = []"
| "chain_messages (l # ls) = link_msg l # chain_messages ls"

text \<open>
  \<^verbatim>\<open>to_lowercase\<close>, as far as a search for an ASCII word can see it: ASCII letters and the
  Kelvin sign (U+212A), the one other character whose lower case is an ASCII letter alone.
\<close>

fun to_lower :: "string \<Rightarrow> string" where
  "to_lower [] = []"
| "to_lower (a # s) =
     (if 65 \<le> byte a \<and> byte a \<le> 90 then char_of (byte a + 32) # to_lower s
      else case s of
        b # c # s' \<Rightarrow>
          if byte a = 0xE2 \<and> byte b = 0x84 \<and> byte c = 0xAA then CHR ''k'' # to_lower s'
          else a # to_lower s
      | _ \<Rightarrow> a # to_lower s)"

definition classify_send_error :: "send_error \<Rightarrow> error_kind" where
  "classify_send_error e =
     (case io_kind_class (se_sources e) of
        Some k \<Rightarrow> k
      | None \<Rightarrow>
        if se_is_timeout e then (if se_is_connect e then ConnectTimeout else Timeout)
        else let msgs = chain_messages (se_sources e) in
          if se_is_connect e \<and> list_ex (contains_sub ''dns error'') msgs then Dns
          else if list_ex (contains_sub ''connection closed before message completed'') msgs
            then ConnectionReset
          else if list_ex (\<lambda>m. let l = to_lower m in
              contains_sub ''tls'' l \<or> contains_sub ''certificate'' l \<or> contains_sub ''handshake'' l) msgs
            then Tls
          else OtherKind)"

lemma io_kind_class_None:
  "io_kind_class ls = None \<longleftrightarrow>
   (\<forall>l \<in> set ls. link_io l = None \<or> link_io l = Some OtherIo)"
  by (induction ls) (auto split: option.splits io_kind.splits)

subsection \<open>Properties\<close>

text \<open>
  what is persisted as the cause of a failed run never depends on a resolved value and
  never carries an HTTP, IO or extraction error: two cast failures that differ only in the
  value have the same cause, and every error that does have one is either a cast failure or
  shows exactly its own authoring-time text.
\<close>

theorem safe_cause_value_free:
  "safe_cause dbg (CastFailed var cast v1) = safe_cause dbg (CastFailed var cast v2)
   \<and> (\<forall>c. safe_cause dbg e = Some c \<longrightarrow>
        (\<exists>var cast v. e = CastFailed var cast v \<and> c = ''template: cannot cast '' @ var @ '' to '' @ cast)
        \<or> (\<exists>m. (e = ScenarioParse m \<or> e = UnknownVar m \<or> e = MalformedTemplate m \<or> e = HistogramError m)
             \<and> c = display_error dbg e))
   \<and> (safe_cause dbg e = safe_cause dbg' e)"
  by (cases e) (auto simp: safe_cause_def display_error_def)

theorem safe_cause_value_free_witness:
  "safe_cause id (CastFailed ''age'' ''num'' ''secret'') = Some ''template: cannot cast age to num''
   \<and> safe_cause id (CastFailed ''age'' ''num'' ''secret'') = safe_cause id (CastFailed ''age'' ''num'' [])
   \<and> safe_cause id (HttpError ''https://u:p@h/'') = None"
  using safe_cause_value_free [of id "''age''" "''num''" "''secret''" "[]"]
  by (simp add: safe_cause_def)

text \<open>
  the classification of a send error. A selected IO error kind anywhere in the source
  chain decides alone, the first one winning; only without one do the timeout flags and then
  the message rules apply, and \<^verbatim>\<open>Timeout\<close> / \<^verbatim>\<open>ConnectTimeout\<close> are reported only for a
  timeout, \<^verbatim>\<open>Dns\<close> only while connecting.
\<close>

theorem classify_send_error_rules:
  "(\<forall>k. io_kind_class (se_sources e) = Some k \<longrightarrow> classify_send_error e = k)
   \<and> (classify_send_error e \<in> {Timeout, ConnectTimeout} \<longrightarrow> se_is_timeout e)
   \<and> (classify_send_error e \<in> {Dns, ConnectTimeout} \<longrightarrow> se_is_connect e)
   \<and> (classify_send_error e \<in> {ConnectRefused, LocalPortExhaustion} \<longrightarrow>
        io_kind_class (se_sources e) = Some (classify_send_error e))
   \<and> (se_sources e = [] \<and> \<not> se_is_timeout e \<longrightarrow> classify_send_error e = OtherKind)"
proof -
  have io: "io_kind_class ls = Some k \<Longrightarrow> k \<in> {LocalPortExhaustion, ConnectRefused, ConnectionReset}"
    for ls k
    by (induction ls) (auto split: option.splits io_kind.splits)
  show ?thesis
    using io [of "se_sources e"]
    by (auto simp: classify_send_error_def Let_def split: option.splits if_splits)
qed

theorem classify_send_error_rules_witness:
  "classify_send_error \<lparr>se_is_timeout = True, se_is_connect = True,
     se_sources = [\<lparr>link_io = None, link_msg = ''dns error''\<rparr>,
                   \<lparr>link_io = Some BrokenPipe, link_msg = ''pipe''\<rparr>]\<rparr> = ConnectionReset"
  using classify_send_error_rules [of "\<lparr>se_is_timeout = True, se_is_connect = True,
     se_sources = [\<lparr>link_io = None, link_msg = ''dns error''\<rparr>,
                   \<lparr>link_io = Some BrokenPipe, link_msg = ''pipe''\<rparr>]\<rparr>"]
  by simp

end
