(* ===== verification/Template.thy ===== *)
theory Template
  imports Engine_Error Std_Map
begin

text \<open>
  \<^verbatim>\<open>engine/src/template.rs\<close>: substitution of \<^verbatim>\<open>{{var}}\<close> and \<^verbatim>\<open>${NAME}\<close> in strict, lenient and
  collecting form. The scanner works on byte positions as the code does; \<open>segments\<close> is its
  declarative reading (a template is a list of literals and tokens), and the scanner is proved
  to evaluate exactly that list.
\<close>

subsection \<open>The renderer\<close>

record tctx =
  vars :: "(string, string) btree_map"
  env :: "(string, string) btree_map"
  vu_id :: nat
  iter_id :: nat
  loop_index :: "nat option"

abbreviation brace_o :: char where "brace_o \<equiv> CHR ''{''"
abbreviation brace_c :: char where "brace_c \<equiv> CHR ''}''"
abbreviation dollar :: char where "dollar \<equiv> CHR ''$''"

text \<open>The scan from \<open>start\<close> for a needle or a byte; both return an absolute position.\<close>

function find_pair_from :: "string \<Rightarrow> nat \<Rightarrow> string \<Rightarrow> nat option" where
  "find_pair_from b i needle =
     (if i + length needle \<le> length b \<and> needle \<noteq> [] then
        if take (length needle) (drop i b) = needle then Some i
        else find_pair_from b (i + 1) needle
      else None)"
  by auto
termination by (relation "measure (\<lambda>(b, i, needle). length b - i)") (auto simp: neq_Nil_conv)

definition find_pair :: "string \<Rightarrow> nat \<Rightarrow> string \<Rightarrow> nat option" where
  "find_pair b start needle =
     (if needle = [] \<or> start \<ge> length b then None else find_pair_from b start needle)"

fun position :: "('a \<Rightarrow> bool) \<Rightarrow> 'a list \<Rightarrow> nat option" where
  "position p [] = None"
| "position p (x # xs) = (if p x then Some 0 else map_option Suc (position p xs))"

definition find_byte :: "string \<Rightarrow> nat \<Rightarrow> char \<Rightarrow> nat option" where
  "find_byte b start needle = map_option (\<lambda>p. p + start) (position (\<lambda>c. c = needle) (drop start b))"

declare find_pair_from.simps [simp del]

lemma find_pair_from_bounds:
  "find_pair_from b i needle = Some e \<Longrightarrow> i \<le> e \<and> e + length needle \<le> length b"
proof (induction b i needle rule: find_pair_from.induct)
  case (1 b i needle)
  then show ?case
    by (subst (asm) (2) find_pair_from.simps) (auto split: if_splits)
qed

lemma find_pair_bounds:
  "find_pair b i needle = Some e \<Longrightarrow> i \<le> e \<and> e + length needle \<le> length b"
  by (auto simp: find_pair_def dest: find_pair_from_bounds split: if_splits)

lemma position_Some:
  "position p xs = Some k \<Longrightarrow> k < length xs \<and> p (xs ! k) \<and> (\<forall>j < k. \<not> p (xs ! j))"
proof (induction xs arbitrary: k)
  case Nil
  then show ?case by simp
next
  case (Cons x xs)
  then show ?case by (cases k) (auto split: if_splits simp: less_Suc_eq_0_disj)
qed

lemma find_byte_bounds: "find_byte b i x = Some e \<Longrightarrow> i \<le> e \<and> e < length b"
  by (auto simp: find_byte_def dest!: position_Some)

definition slice :: "nat \<Rightarrow> nat \<Rightarrow> 'a list \<Rightarrow> 'a list" where
  "slice a b xs = take (b - a) (drop a xs)"

text \<open>The value of \<^verbatim>\<open>${name}\<close> / \<^verbatim>\<open>${name:-default}\<close>.\<close>

definition sys_parts :: "string \<Rightarrow> string \<times> string option" where
  "sys_parts inner = (case find_sub '':-'' inner of
     Some p \<Rightarrow> (trim (take p inner), Some (drop (p + 2) inner))
   | None \<Rightarrow> (trim inner, None))"

definition sys_value :: "tctx \<Rightarrow> string \<Rightarrow> string option \<Rightarrow> string option" where
  "sys_value ctx name deflt =
     (if name = ''vu_id'' then Some (nat_str (vu_id ctx))
      else if name = ''iter_id'' then Some (nat_str (iter_id ctx))
      else if name = ''loop_index'' then map_option nat_str (loop_index ctx)
      else case bt_get (env ctx) name of Some v \<Rightarrow> Some v | None \<Rightarrow> deflt)"

text \<open>
  The loop of \<^verbatim>\<open>render_inner\<close> from position \<open>i\<close> with the pending literal starting at
  \<open>lit_start\<close>. The result carries the names pushed to the sink; the sink is only written in
  lenient mode.
\<close>

function render_loop ::
  "bool \<Rightarrow> tctx \<Rightarrow> string \<Rightarrow> nat \<Rightarrow> nat \<Rightarrow> string \<Rightarrow> string list \<Rightarrow> (string \<times> string list) res" where
  "render_loop lenient ctx s i lit_start out unbound =
     (if i < length s then
        if i + 1 < length s \<and> s ! i = brace_o \<and> s ! (i + 1) = brace_o then
          let out = out @ slice lit_start i s in
          case find_pair s (i + 2) ''}}'' of
            None \<Rightarrow> if lenient then Inr (out @ drop i s, unbound)
                    else Inl (MalformedTemplate (''unclosed {{ at byte '' @ nat_str i))
          | Some e \<Rightarrow>
              if \<not> is_utf8 (slice (i + 2) e s) then
                if lenient then Inr (out @ drop i s, unbound)
                else Inl (MalformedTemplate ''non-utf8 in {{ }}'')
              else
                let name = trim (slice (i + 2) e s) in
                case bt_get (vars ctx) name of
                  Some v \<Rightarrow> render_loop lenient ctx s (e + 2) (e + 2) (out @ v) unbound
                | None \<Rightarrow>
                    if lenient then
                      render_loop lenient ctx s (e + 2) (e + 2) out (unbound @ [name])
                    else Inl (UnknownVar name)
        else if i + 1 < length s \<and> s ! i = dollar \<and> s ! (i + 1) = brace_o then
          let out = out @ slice lit_start i s in
          case find_byte s (i + 2) brace_c of
            None \<Rightarrow> if lenient then Inr (out @ drop i s, unbound)
                    else Inl (MalformedTemplate (''unclosed ${ at byte '' @ nat_str i))
          | Some e \<Rightarrow>
              if \<not> is_utf8 (slice (i + 2) e s) then
                if lenient then Inr (out @ drop i s, unbound)
                else Inl (MalformedTemplate ''non-utf8 in ${ }'')
              else
                let (name, deflt) = sys_parts (slice (i + 2) e s) in
                case sys_value ctx name deflt of
                  Some v \<Rightarrow> render_loop lenient ctx s (e + 1) (e + 1) (out @ v) unbound
                | None \<Rightarrow>
                    if lenient then
                      render_loop lenient ctx s (e + 1) (e + 1) out (unbound @ [name])
                    else Inl (UnknownVar name)
        else render_loop lenient ctx s (i + 1) lit_start out unbound
      else Inr (out @ drop lit_start s, unbound))"
  by pat_completeness auto
termination
  by (relation "measure (\<lambda>(l, c, s, i, st, ot, u). length s - i)")
    (auto dest!: find_pair_bounds find_byte_bounds)

declare render_loop.simps [simp del]

definition render_inner :: "bool \<Rightarrow> tctx \<Rightarrow> string \<Rightarrow> (string \<times> string list) res" where
  "render_inner lenient ctx s = render_loop lenient ctx s 0 0 [] []"

definition render :: "string \<Rightarrow> tctx \<Rightarrow> string res" where
  "render s ctx = (case render_inner False ctx s of Inl e \<Rightarrow> Inl e | Inr (v, _) \<Rightarrow> Inr v)"

text \<open>\<^verbatim>\<open>unwrap_or_default\<close> of the lenient pass.\<close>

definition render_lenient :: "string \<Rightarrow> tctx \<Rightarrow> string" where
  "render_lenient s ctx = (case render_inner True ctx s of Inl _ \<Rightarrow> [] | Inr (v, _) \<Rightarrow> v)"

definition render_collecting :: "string \<Rightarrow> tctx \<Rightarrow> string list \<Rightarrow> string \<times> string list" where
  "render_collecting s ctx sink =
     (case render_inner True ctx s of Inl _ \<Rightarrow> ([], sink) | Inr (v, u) \<Rightarrow> (v, sink @ u))"


subsection \<open>Templates as segment lists\<close>

text \<open>
  The declarative reading. Segments depend on the template text only, never on the values, so
  a substituted value is never scanned again.
\<close>

datatype seg =
    SLit char
  | SVar string
  | SSys string "string option"
  | SBad string string

function segs :: "nat \<Rightarrow> string \<Rightarrow> seg list" where
  "segs i s = (case s of
     [] \<Rightarrow> []
   | [c] \<Rightarrow> [SLit c]
   | c # d # r \<Rightarrow>
       if c = brace_o \<and> d = brace_o then
         (case find_sub ''}}'' r of
            None \<Rightarrow> [SBad (''unclosed {{ at byte '' @ nat_str i) s]
          | Some p \<Rightarrow>
              if is_utf8 (take p r) then SVar (trim (take p r)) # segs (i + p + 4) (drop (p + 2) r)
              else [SBad ''non-utf8 in {{ }}'' s])
       else if c = dollar \<and> d = brace_o then
         (case position (\<lambda>x. x = brace_c) r of
            None \<Rightarrow> [SBad (''unclosed ${ at byte '' @ nat_str i) s]
          | Some p \<Rightarrow>
              if is_utf8 (take p r) then
                (case sys_parts (take p r) of (name, deflt) \<Rightarrow>
                  SSys name deflt # segs (i + p + 3) (drop (p + 1) r))
              else [SBad ''non-utf8 in ${ }'' s])
       else SLit c # segs (i + 1) (d # r))"
  by pat_completeness auto
termination by (relation "measure (\<lambda>(i, s). length s)") auto

declare segs.simps [simp del]

definition add_out :: "string \<Rightarrow> string list \<Rightarrow> (string \<times> string list) res \<Rightarrow> (string \<times> string list) res"
  where "add_out v u r = (case r of Inl e \<Rightarrow> Inl e | Inr (v', u') \<Rightarrow> Inr (v @ v', u @ u'))"

fun eval_segs :: "bool \<Rightarrow> tctx \<Rightarrow> seg list \<Rightarrow> (string \<times> string list) res" where
  "eval_segs lenient ctx [] = Inr ([], [])"
| "eval_segs lenient ctx (SLit c # r) = add_out [c] [] (eval_segs lenient ctx r)"
| "eval_segs lenient ctx (SVar n # r) =
     (case bt_get (vars ctx) n of
        Some v \<Rightarrow> add_out v [] (eval_segs lenient ctx r)
      | None \<Rightarrow> if lenient then add_out [] [n] (eval_segs lenient ctx r) else Inl (UnknownVar n))"
| "eval_segs lenient ctx (SSys n d # r) =
     (case sys_value ctx n d of
        Some v \<Rightarrow> add_out v [] (eval_segs lenient ctx r)
      | None \<Rightarrow> if lenient then add_out [] [n] (eval_segs lenient ctx r) else Inl (UnknownVar n))"
| "eval_segs lenient ctx (SBad msg rest # r) =
     (if lenient then Inr (rest, []) else Inl (MalformedTemplate msg))"

lemma add_out_simps [simp]:
  "add_out v u (Inl e) = Inl e"
  "add_out v u (Inr (v', u')) = Inr (v @ v', u @ u')"
  "add_out [] [] r = r"
  "add_out v u (add_out v' u' r) = add_out (v @ v') (u @ u') r"
  by (auto simp: add_out_def split: sum.splits)

subsection \<open>Positions and suffixes\<close>

lemma find_pair_from_sub:
  "needle \<noteq> [] \<Longrightarrow> i \<le> length b \<Longrightarrow>
   find_pair_from b i needle = map_option (\<lambda>p. p + i) (find_sub needle (drop i b))"
proof (induction b i needle rule: find_pair_from.induct)
  case (1 b i needle)
  have sw: "starts_with needle (drop i b) \<longleftrightarrow>
      i + length needle \<le> length b \<and> take (length needle) (drop i b) = needle"
  proof
    assume "starts_with needle (drop i b)"
    then obtain r where r: "drop i b = needle @ r" by (auto simp: starts_with_append)
    then have "length b - i = length needle + length r" by (metis length_append length_drop)
    then show "i + length needle \<le> length b \<and> take (length needle) (drop i b) = needle"
      using r "1.prems" by auto
  next
    assume "i + length needle \<le> length b \<and> take (length needle) (drop i b) = needle"
    then show "starts_with needle (drop i b)"
      by (metis append_take_drop_id starts_with_append)
  qed
  show ?case
  proof (cases "i < length b")
    case False
    then have "i = length b" using "1.prems" by simp
    with "1.prems" show ?thesis
      by (cases needle) (simp_all add: find_pair_from.simps [of b "length b"])
  next
    case True
    then have d: "drop i b = b ! i # drop (Suc i) b" by (simp add: Cons_nth_drop_Suc)
    show ?thesis
    proof (cases "starts_with needle (drop i b)")
      case True
      then show ?thesis
        using sw "1.prems" d by (simp add: find_pair_from.simps [of b i])
    next
      case no: False
      have "find_sub needle (drop i b) = map_option Suc (find_sub needle (drop (Suc i) b))"
        using no d by simp
      show ?thesis
      proof (cases "i + length needle \<le> length b")
        case le: True
        then have "take (length needle) (drop i b) \<noteq> needle" using no sw by auto
        then show ?thesis
          using "1.IH" le "1.prems" True \<open>find_sub needle (drop i b) = _\<close>
          by (simp add: find_pair_from.simps [of b i] option.map_comp comp_def)
      next
        case gt: False
        have "find_sub needle (drop i b) = None"
        proof (rule ccontr)
          assume "find_sub needle (drop i b) \<noteq> None"
          then obtain k where "find_sub needle (drop i b) = Some k" by auto
          from find_sub_Some [OF this] gt True show False by auto
        qed
        then show ?thesis using gt by (simp add: find_pair_from.simps [of b i])
      qed
    qed
  qed
qed

lemma find_pair_sub:
  "needle \<noteq> [] \<Longrightarrow> i \<le> length b \<Longrightarrow>
   find_pair b i needle = map_option (\<lambda>p. p + i) (find_sub needle (drop i b))"
  by (auto simp: find_pair_def find_pair_from_sub)


subsection \<open>Well-formed UTF-8 between ASCII delimiters\<close>

lemma cont_byte_ascii [simp]: "byte c < 128 \<Longrightarrow> \<not> cont_byte c"
  by (simp add: cont_byte_def)

lemma is_utf8_split_ascii:
  "byte c < 128 \<Longrightarrow> is_utf8 (x @ c # y) \<longleftrightarrow> is_utf8 x \<and> is_utf8 y"
proof (induction x rule: is_utf8.induct)
  case 1
  then show ?case by simp
next
  case (2 a s)
  then show ?case
    by (cases "byte a < 128"; cases s rule: remdups_adj.cases)
      (auto simp: Let_def split: list.splits if_splits)
qed


lemma slice_snoc: "a \<le> i \<Longrightarrow> i < length s \<Longrightarrow> slice a (Suc i) s = slice a i s @ [s ! i]"
  by (simp add: slice_def Suc_diff_le take_Suc_conv_app_nth)

lemma slice_to_end [simp]: "length s \<le> b \<Longrightarrow> slice a b s = drop a s"
  by (simp add: slice_def)

lemma slice_self [simp]: "slice a a s = []"
  by (simp add: slice_def)

lemma slice_add: "slice a (p + a) s = take p (drop a s)"
  by (simp add: slice_def)

lemma is_utf8_slice:
  assumes "is_utf8 s" and "j < e" and "e < length s" and "byte (s ! j) < 128" and "byte (s ! e) < 128"
  shows "is_utf8 (slice (Suc j) e s)"
proof -
  have "s = take j s @ s ! j # drop (Suc j) s" using assms by (simp add: id_take_nth_drop)
  then have u: "is_utf8 (drop (Suc j) s)"
    using assms is_utf8_split_ascii [of "s ! j" "take j s" "drop (Suc j) s"] by simp
  have "drop (Suc j) s ! (e - Suc j) = s ! e" using assms by simp
  then have "drop (Suc j) s = slice (Suc j) e s @ s ! e # drop (Suc e) s"
    using assms id_take_nth_drop [of "e - Suc j" "drop (Suc j) s"] by (simp add: slice_def)
  then show ?thesis
    using u assms is_utf8_split_ascii [of "s ! e" "slice (Suc j) e s" "drop (Suc e) s"] by simp
qed

lemma marker_ascii [simp]:
  "byte brace_o < 128" "byte brace_c < 128" "byte dollar < 128"
  by simp_all

subsection \<open>The scanner evaluates the segments\<close>

lemma find_pair_close:
  assumes "find_pair s i ''}}'' = Some e" and "i \<le> length s"
  shows "i \<le> e \<and> e < length s \<and> s ! e = brace_c \<and> find_sub ''}}'' (drop i s) = Some (e - i)"
proof -
  from assms obtain p where p: "find_sub ''}}'' (drop i s) = Some p" "e = p + i"
    by (auto simp: find_pair_sub)
  from find_sub_Some [OF p(1)] assms(2)
  have "p + i + 2 \<le> length s" "starts_with ''}}'' (drop (p + i) s)"
    by (auto simp: add.commute)
  then have "s ! (p + i) = brace_c" by (cases "drop (p + i) s") (auto simp: nth_via_drop)
  with p \<open>p + i + 2 \<le> length s\<close> show ?thesis by simp
qed

lemma find_byte_close:
  assumes "find_byte s i x = Some e"
  shows "i \<le> e \<and> e < length s \<and> s ! e = x \<and> position (\<lambda>c. c = x) (drop i s) = Some (e - i)"
proof -
  from assms obtain p where p: "position (\<lambda>c. c = x) (drop i s) = Some p" "e = p + i"
    by (auto simp: find_byte_def)
  with position_Some [OF p(1)] show ?thesis by (auto simp: add.commute)
qed

lemma render_loop_segs:
  assumes "ls \<le> i" and "i \<le> length s"
  shows "render_loop l ctx s i ls out u =
    add_out (out @ slice ls i s) u (eval_segs l ctx (segs i (drop i s)))"
  using assms
proof (induction "length s - i" arbitrary: i ls out u rule: less_induct)
  case less
  have IH: "render_loop l ctx s j ls' out' u' =
      add_out (out' @ slice ls' j s) u' (eval_segs l ctx (segs j (drop j s)))"
    if "i < j" "j \<le> length s" "ls' \<le> j" for j ls' out' u'
    using less.hyps [of j] less.prems that by simp
  show ?case
  proof (cases "i + 1 < length s")
    case False
    then consider "i = length s" | "Suc i = length s" using less.prems by linarith
    then show ?thesis
    proof cases
      case 1
      then show ?thesis
        by (simp add: render_loop.simps [of l ctx s "length s"] segs.simps [of "length s"])
    next
      case 2
      then have d: "drop i s = [s ! i]"
        by (metis Cons_nth_drop_Suc drop_all lessI order_refl)
      have end': "render_loop l ctx s (Suc i) ls out u = Inr (out @ drop ls s, u)"
        using 2 by (simp add: render_loop.simps [of l ctx s "length s"])
      have "drop ls s = slice ls i s @ [s ! i]"
        using slice_snoc [of ls i s] less.prems 2 by simp
      then show ?thesis using 2 d end'
        by (simp add: render_loop.simps [of l ctx s i] segs.simps [of i])
    qed
  next
    case True
    then have d: "drop i s = s ! i # s ! (i + 1) # drop (i + 2) s"
      by (simp add: Cons_nth_drop_Suc)
    note unf = render_loop.simps [of l ctx s i] segs.simps [of i]
    consider (flow) "s ! i = brace_o" "s ! (i + 1) = brace_o"
      | (sys) "s ! i = dollar" "s ! (i + 1) = brace_o"
      | (lit) "\<not> (s ! i = brace_o \<and> s ! (i + 1) = brace_o)"
        "\<not> (s ! i = dollar \<and> s ! (i + 1) = brace_o)"
      by auto
    then show ?thesis
    proof cases
      case flow
      show ?thesis
      proof (cases "find_pair s (i + 2) ''}}''")
        case None
        then have "find_sub ''}}'' (drop (i + 2) s) = None"
          using True by (simp add: find_pair_sub)
        then show ?thesis using True flow None d by (simp add: unf)
      next
        case (Some e)
        have e: "i + 2 \<le> e" "e + 2 \<le> length s" using find_pair_bounds [OF Some] by auto
        have cl: "e < length s" "s ! e = brace_c"
          "find_sub ''}}'' (drop (i + 2) s) = Some (e - (i + 2))"
          using find_pair_close [OF Some] True by auto
        have sl: "slice (i + 2) e s = take (e - (i + 2)) (drop (i + 2) s)"
          by (simp add: slice_def)
        obtain p where p: "e = i + 2 + p" using e by (metis le_iff_add)
        have S: "segs i (drop i s) = (if is_utf8 (slice (i + 2) e s)
            then SVar (trim (slice (i + 2) e s)) # segs (e + 2) (drop (e + 2) s)
            else [SBad ''non-utf8 in {{ }}'' (drop i s)])"
          unfolding d unf sl using flow cl(3) by (simp add: p eval_nat_numeral add.commute)
        have B: "render_loop l ctx s i ls out u =
            (if l then Inr ((out @ slice ls i s) @ drop i s, u)
             else Inl (MalformedTemplate ''non-utf8 in {{ }}''))" if "\<not> is_utf8 (slice (i + 2) e s)"
          unfolding unf(1) Let_def Some option.case using True flow that by simp
        have L: "render_loop l ctx s i ls out u =
          (case bt_get (vars ctx) (trim (slice (i + 2) e s)) of
             Some v \<Rightarrow> render_loop l ctx s (e + 2) (e + 2) ((out @ slice ls i s) @ v) u
           | None \<Rightarrow> if l then render_loop l ctx s (e + 2) (e + 2) (out @ slice ls i s)
               (u @ [trim (slice (i + 2) e s)]) else Inl (UnknownVar (trim (slice (i + 2) e s))))"
          if "is_utf8 (slice (i + 2) e s)"
          unfolding unf(1) Let_def Some option.case using True flow that by simp
        show ?thesis
        proof (cases "is_utf8 (slice (i + 2) e s)")
          case u8: True
          show ?thesis
            unfolding S L [OF u8] using u8 e IH [of "e + 2" "e + 2"]
            by (cases "bt_get (vars ctx) (trim (slice (i + 2) e s))") auto
        next
          case False
          then show ?thesis unfolding S B [OF False] by simp
        qed
      qed
    next
      case sys
      show ?thesis
      proof (cases "find_byte s (i + 2) brace_c")
        case None
        then have "position (\<lambda>x. x = brace_c) (drop (i + 2) s) = None"
          by (simp add: find_byte_def)
        then show ?thesis using True sys None d by (simp add: unf)
      next
        case (Some e)
        have cl: "i + 2 \<le> e" "e < length s" "s ! e = brace_c"
          "position (\<lambda>c. c = brace_c) (drop (i + 2) s) = Some (e - (i + 2))"
          using find_byte_close [OF Some] by auto
        have sl: "slice (i + 2) e s = take (e - (i + 2)) (drop (i + 2) s)"
          by (simp add: slice_def)
        obtain p where p: "e = i + 2 + p" using cl by (metis le_iff_add)
        obtain name deflt where nd: "sys_parts (slice (i + 2) e s) = (name, deflt)" by fastforce
        then have nd': "sys_parts (take p (drop (i + 2) s)) = (name, deflt)" unfolding sl by (simp add: p)
        have S: "segs i (drop i s) = (if is_utf8 (slice (i + 2) e s)
            then SSys name deflt # segs (e + 1) (drop (e + 1) s)
            else [SBad ''non-utf8 in ${ }'' (drop i s)])"
          unfolding d unf sl using sys cl(4) nd' by (simp add: p eval_nat_numeral add.commute)
        have B: "render_loop l ctx s i ls out u =
            (if l then Inr ((out @ slice ls i s) @ drop i s, u)
             else Inl (MalformedTemplate ''non-utf8 in ${ }''))" if "\<not> is_utf8 (slice (i + 2) e s)"
          unfolding unf(1) Let_def Some option.case using True sys that by simp
        have L: "render_loop l ctx s i ls out u =
          (case sys_value ctx name deflt of
             Some v \<Rightarrow> render_loop l ctx s (e + 1) (e + 1) ((out @ slice ls i s) @ v) u
           | None \<Rightarrow> if l then render_loop l ctx s (e + 1) (e + 1) (out @ slice ls i s)
               (u @ [name]) else Inl (UnknownVar name))"
          if "is_utf8 (slice (i + 2) e s)"
          unfolding unf(1) Let_def Some option.case using True sys that nd by simp
        show ?thesis
        proof (cases "is_utf8 (slice (i + 2) e s)")
          case u8: True
          show ?thesis
            unfolding S L [OF u8] using u8 cl IH [of "e + 1" "e + 1"]
            by (cases "sys_value ctx name deflt") auto
        next
          case False
          then show ?thesis unfolding S B [OF False] by simp
        qed
      qed
    next
      case lit
      have d1: "drop (Suc i) s = s ! (i + 1) # drop (i + 2) s"
        using True by (simp add: Cons_nth_drop_Suc)
      show ?thesis
        using True lit d d1 IH [of "i + 1" ls out u] less.prems
        by (auto simp: unf slice_snoc)
    qed
  qed
qed


lemma render_inner_segs:
  "render_inner l ctx s = eval_segs l ctx (segs 0 s)"
  by (simp add: render_inner_def render_loop_segs)

lemma eval_lenient_total: "\<exists>v u. eval_segs True ctx xs = Inr (v, u)"
  by (induction True ctx xs rule: eval_segs.induct) (auto split: option.splits)

lemma eval_strict_lenient:
  "eval_segs False ctx xs = Inr (v, u) \<Longrightarrow> u = [] \<and> eval_segs True ctx xs = Inr (v, [])"
proof (induction xs arbitrary: v u)
  case Nil
  then show ?case by simp
next
  case (Cons x xs)
  show ?case
  proof (cases "eval_segs False ctx xs")
    case (Inl e)
    with Cons.prems show ?thesis by (cases x) (auto split: option.splits)
  next
    case (Inr r)
    then obtain w where w: "eval_segs False ctx xs = Inr (w, [])" "eval_segs True ctx xs = Inr (w, [])"
      using Cons.IH by (cases r) auto
    with Cons.prems show ?thesis by (cases x) (auto split: option.splits)
  qed
qed

definition closed_seg :: "seg \<Rightarrow> bool" where
  "closed_seg x = (case x of SBad _ _ \<Rightarrow> False | _ \<Rightarrow> True)"

lemma eval_lenient_strict:
  "eval_segs True ctx xs = Inr (v, []) \<Longrightarrow> list_all closed_seg xs \<Longrightarrow> eval_segs False ctx xs = Inr (v, [])"
proof (induction xs arbitrary: v)
  case Nil
  then show ?case by simp
next
  case (Cons x xs)
  obtain w u where w: "eval_segs True ctx xs = Inr (w, u)" using eval_lenient_total by blast
  with Cons.prems have "u = []" by (cases x) (auto simp: closed_seg_def split: option.splits)
  with w Cons have "eval_segs False ctx xs = Inr (w, [])" by simp
  with Cons.prems w \<open>u = []\<close> show ?case
    by (cases x) (auto simp: closed_seg_def split: option.splits)
qed

lemma segs_literal:
  "find_sub ''{{'' s = None \<Longrightarrow> find_sub ''${'' s = None \<Longrightarrow> segs i s = map SLit s"
proof (induction i s rule: segs.induct)
  case (1 i s)
  show ?case
  proof (cases s rule: remdups_adj.cases)
    case (3 c d r)
    with 1 show ?thesis by (auto simp: segs.simps [of i] split: if_splits)
  qed (simp_all add: segs.simps [of i])
qed

text \<open>\<open>pre @ s\<close> is the whole string: literal steps may stand inside a character.\<close>

lemma utf8_after_ascii:
  assumes "byte c < 128" and "is_utf8 (x @ c # y)"
  shows "is_utf8 x" "is_utf8 y"
  using assms is_utf8_split_ascii by blast+

lemma utf8_token:
  assumes "is_utf8 (pre @ c # brace_o # r)" and "r = n @ brace_c # t"
  shows "is_utf8 n" "is_utf8 t"
proof -
  have "is_utf8 ((pre @ [c]) @ brace_o # n @ brace_c # t)" using assms by simp
  then have "is_utf8 (n @ brace_c # t)" by (rule utf8_after_ascii(2) [rotated]) simp
  then show "is_utf8 n" "is_utf8 t" using utf8_after_ascii [of brace_c n t] by simp_all
qed

definition non_utf8_seg :: "seg \<Rightarrow> bool" where
  "non_utf8_seg x = (case x of SBad m _ \<Rightarrow> m = ''non-utf8 in {{ }}'' \<or> m = ''non-utf8 in ${ }'' | _ \<Rightarrow> False)"

lemma segs_valid: "is_utf8 (pre @ s) \<Longrightarrow> list_all (\<lambda>x. \<not> non_utf8_seg x) (segs i s)"
proof (induction "length s" arbitrary: i s pre rule: less_induct)
  case less
  show ?case
  proof (cases s rule: remdups_adj.cases)
    case (3 c d r)
    consider (flow) "c = brace_o" "d = brace_o" | (sys) "c = dollar" "d = brace_o"
      | (lit) "\<not> (c = brace_o \<and> d = brace_o)" "\<not> (c = dollar \<and> d = brace_o)" by auto
    then show ?thesis
    proof cases
      case flow
      show ?thesis
      proof (cases "find_sub ''}}'' r")
        case None
        then show ?thesis using 3 flow by (simp add: segs.simps [of i] non_utf8_seg_def)
      next
        case (Some p)
        from find_sub_Some [OF Some] have "starts_with ''}}'' (drop p r)" by simp
        then obtain t where t: "drop p r = brace_c # brace_c # t" by (auto simp: starts_with_append)
        then have r: "r = take p r @ brace_c # brace_c # t" by (metis append_take_drop_id)
        have "is_utf8 (pre @ c # brace_o # r)" using less.prems 3 flow by simp
        note u = utf8_token [OF this r]
        have "drop (p + 2) r = drop 2 (drop p r)" by (simp add: add.commute)
        then have "drop (p + 2) r = t" using t by simp
        then have "is_utf8 ([] @ drop (p + 2) r)" using utf8_after_ascii(2) [of brace_c "[]" t] u by simp
        from less.hyps [OF _ this] have "list_all (\<lambda>x. \<not> non_utf8_seg x) (segs (i + p + 4) (drop (p + 2) r))"
          using 3 by simp
        then show ?thesis using 3 flow Some u by (simp add: segs.simps [of i] non_utf8_seg_def)
      qed
    next
      case sys
      show ?thesis
      proof (cases "position (\<lambda>x. x = brace_c) r")
        case None
        then show ?thesis using 3 sys by (simp add: segs.simps [of i] non_utf8_seg_def)
      next
        case (Some p)
        from position_Some [OF Some] have r: "r = take p r @ brace_c # drop (Suc p) r"
          using id_take_nth_drop [of p r] by simp
        have "is_utf8 (pre @ c # brace_o # r)" using less.prems 3 sys by simp
        note u = utf8_token [OF this r]
        then have "is_utf8 ([] @ drop (p + 1) r)" by simp
        from less.hyps [OF _ this] have "list_all (\<lambda>x. \<not> non_utf8_seg x) (segs (i + p + 3) (drop (p + 1) r))"
          using 3 by simp
        then show ?thesis using 3 sys Some u
          by (simp add: segs.simps [of i] non_utf8_seg_def split: prod.splits)
      qed
    next
      case lit
      have "is_utf8 ((pre @ [c]) @ d # r)" using less.prems 3 by simp
      from less.hyps [OF _ this] have "list_all (\<lambda>x. \<not> non_utf8_seg x) (segs (i + 1) (d # r))"
        using 3 by simp
      then show ?thesis using 3 lit by (auto simp: segs.simps [of i] non_utf8_seg_def)
    qed
  qed (simp_all add: segs.simps [of i] non_utf8_seg_def)
qed

lemma eval_literal: "eval_segs l ctx (map SLit s) = Inr (s, [])"
  by (induction s) auto

subsection \<open>Properties\<close>

text \<open>
  C2: the byte-position scanner of \<^verbatim>\<open>render_inner\<close> evaluates the declarative segment list of
  the template from left to right, in both modes: literals are copied, every token is replaced
  by its value exactly once (values are never scanned again), and the first unresolved token or
  unclosed marker is the strict error. On a valid string the code's non-UTF-8 branches are
  never taken.
\<close>

theorem render_inner_refines_segments:
  "render_inner lenient ctx s = eval_segs lenient ctx (segs 0 s)
   \<and> (is_utf8 s \<longrightarrow> list_all (\<lambda>x. \<not> non_utf8_seg x) (segs 0 s))"
  using segs_valid [of "[]" s 0] by (simp add: render_inner_segs)

theorem render_inner_refines_segments_witness:
  "render_inner False \<lparr>vars = [(''a'', ''{{b}}'')], env = [], vu_id = 7, iter_id = 0, loop_index = None\<rparr>
     ''x{{ a }}${vu_id}${E:-d}'' = Inr (''x{{b}}7d'', [])"
proof -
  have "segs 0 ''x{{ a }}${vu_id}${E:-d}'' =
      [SLit CHR ''x'', SVar ''a'', SSys ''vu_id'' None, SSys ''E'' (Some ''d'')]"
    by code_simp
  moreover have "nat_str 7 = ''7''" by code_simp
  moreover have "is_utf8 ''x{{ a }}${vu_id}${E:-d}''" by code_simp
  ultimately show ?thesis
    using render_inner_refines_segments [where s = "''x{{ a }}${vu_id}${E:-d}''" and lenient = False
      and ctx = "\<lparr>vars = [(''a'', ''{{b}}'')], env = [], vu_id = 7, iter_id = 0, loop_index = None\<rparr>"]
    by (simp add: bt_get_def sys_value_def)
qed

text \<open>
  lenient rendering never fails, and it is the strict rendering wherever that one
  succeeds, with nothing reported as unbound; conversely a template all of whose markers are
  closed and that reports nothing unbound renders strictly to the same text. A text without
  markers renders to itself.
\<close>

theorem render_lenient_agrees_strict:
  "(\<exists>v u. render_inner True ctx s = Inr (v, u) \<and> render_lenient s ctx = v
              \<and> render_collecting s ctx sink = (v, sink @ u))
    \<and> (\<forall>v. render s ctx = Inr v \<longrightarrow>
          render_lenient s ctx = v \<and> render_collecting s ctx sink = (v, sink))
    \<and> (list_all closed_seg (segs 0 s) \<and> render_collecting s ctx [] = (v', []) \<longrightarrow> render s ctx = Inr v')
    \<and> (find_sub ''{{'' s = None \<and> find_sub ''${'' s = None \<longrightarrow> render s ctx = Inr s)"
proof -
  obtain v u where vu: "eval_segs True ctx (segs 0 s) = Inr (v, u)"
    using eval_lenient_total by blast
  have strict: "render s ctx = Inr w \<longleftrightarrow> eval_segs False ctx (segs 0 s) = Inr (w, [])" for w
    using eval_strict_lenient [of ctx "segs 0 s"]
    by (auto simp: render_def render_inner_segs split: sum.splits)
  have len: "render_lenient s ctx = v" "render_collecting s ctx sk = (v, sk @ u)" for sk
    using vu by (simp_all add: render_lenient_def render_collecting_def render_inner_segs)
  show ?thesis
  proof (intro conjI allI impI)
    show "\<exists>v u. render_inner True ctx s = Inr (v, u) \<and> render_lenient s ctx = v
              \<and> render_collecting s ctx sink = (v, sink @ u)"
      using vu len by (simp add: render_inner_segs)
    fix w assume "render s ctx = Inr w"
    then have "v = w \<and> u = []"
      using strict eval_strict_lenient [of ctx "segs 0 s" w "[]"] vu by simp
    then show "render_lenient s ctx = w" "render_collecting s ctx sink = (w, sink)"
      by (simp_all add: len)
  next
    assume "list_all closed_seg (segs 0 s) \<and> render_collecting s ctx [] = (v', [])"
    then show "render s ctx = Inr v'"
      using strict eval_lenient_strict [of ctx "segs 0 s" v'] vu len by simp
  next
    assume "find_sub ''{{'' s = None \<and> find_sub ''${'' s = None"
    then show "render s ctx = Inr s" by (simp add: strict segs_literal eval_literal)
  qed
qed

theorem render_lenient_agrees_strict_witness:
  "render_lenient ''a{{x}}b'' \<lparr>vars = [], env = [], vu_id = 0, iter_id = 0, loop_index = None\<rparr> = ''ab''
   \<and> render ''plain'' \<lparr>vars = [], env = [], vu_id = 0, iter_id = 0, loop_index = None\<rparr> = Inr ''plain''"
proof -
  have "find_sub ''{{'' ''plain'' = None" "find_sub ''${'' ''plain'' = None"
    by code_simp+
  moreover have "render_lenient ''a{{x}}b''
      \<lparr>vars = [], env = [], vu_id = 0, iter_id = 0, loop_index = None\<rparr> = ''ab''"
    by code_simp
  ultimately show ?thesis using render_lenient_agrees_strict [where s = "''plain''"] by simp
qed

end
