(* ===== verification/F64.thy ===== *)
theory F64
  imports Prelude
begin

text \<open>
  Rust's \<^verbatim>\<open>f64\<close> as its 64 bits: the comparisons (IEEE 754: nothing compares with a NaN, the
  two zeros are equal) and \<^verbatim>\<open>str::parse::<f64>\<close>, the exact decimal value rounded to the nearest
  double, ties to even.
\<close>

type_synonym f64 = "64 word"

definition f64_neg :: "f64 \<Rightarrow> bool" where "f64_neg x = bit x 63"
definition f64_mag :: "f64 \<Rightarrow> nat" where "f64_mag x = unat (take_bit 63 x)"
definition f64_inf_mag :: nat where "f64_inf_mag = 0x7FF0000000000000"
definition f64_is_nan :: "f64 \<Rightarrow> bool" where "f64_is_nan x = (f64_mag x > f64_inf_mag)"

text \<open>Sign and magnitude read as an integer order the doubles.\<close>

definition f64_key :: "f64 \<Rightarrow> int" where
  "f64_key x = (if f64_neg x then - int (f64_mag x) else int (f64_mag x))"

definition f64_lt :: "f64 \<Rightarrow> f64 \<Rightarrow> bool" where
  "f64_lt a b = (\<not> f64_is_nan a \<and> \<not> f64_is_nan b \<and> f64_key a < f64_key b)"

definition f64_le :: "f64 \<Rightarrow> f64 \<Rightarrow> bool" where
  "f64_le a b = (\<not> f64_is_nan a \<and> \<not> f64_is_nan b \<and> f64_key a \<le> f64_key b)"

definition f64_of_mag :: "bool \<Rightarrow> nat \<Rightarrow> f64" where
  "f64_of_mag neg m = (if neg then of_nat (2 ^ 63 + m) else of_nat m)"

subsection \<open>Rounding a positive fraction\<close>

fun bitlen :: "nat \<Rightarrow> nat" where
  "bitlen n = (if n = 0 then 0 else Suc (bitlen (n div 2)))"

declare bitlen.simps [simp del]

text \<open>The binary exponent of \<open>n / d\<close>: \<open>2 ^ e \<le> n / d < 2 ^ (e + 1)\<close>.\<close>

definition frac_exp :: "nat \<Rightarrow> nat \<Rightarrow> int" where
  "frac_exp n d =
     (let e = int (bitlen n) - int (bitlen d) in
      if d * 2 ^ nat e \<le> n * 2 ^ nat (- e) then e else e - 1)"

definition div_half_even :: "nat \<Rightarrow> nat \<Rightarrow> nat" where
  "div_half_even n d =
     (let q = n div d; r = n mod d in
      if 2 * r > d \<or> (2 * r = d \<and> odd q) then q + 1 else q)"

definition round_mag :: "nat \<Rightarrow> nat \<Rightarrow> nat" where
  "round_mag n d =
     (if n = 0 then 0
      else let k = max (frac_exp n d - 52) (- 1074);
               q = div_half_even (n * 2 ^ nat (- k)) (d * 2 ^ nat k)
           in min (nat (k + 1074) * 2 ^ 52 + q) f64_inf_mag)"

subsection \<open>Parsing\<close>

definition ascii_lower :: "string \<Rightarrow> string" where
  "ascii_lower s = map (\<lambda>c. if 65 \<le> byte c \<and> byte c \<le> 90 then char_of (byte c + 32) else c) s"

definition take_sign :: "string \<Rightarrow> bool \<times> string" where
  "take_sign s = (case s of
     c # r \<Rightarrow> if c = CHR ''-'' then (True, r) else if c = CHR ''+'' then (False, r) else (False, s)
   | [] \<Rightarrow> (False, s))"

text \<open>The optional exponent: \<open>None\<close> for a malformed rest.\<close>

definition parse_exp :: "string \<Rightarrow> int option" where
  "parse_exp s = (case s of
     [] \<Rightarrow> Some 0
   | c # r \<Rightarrow>
     if c = CHR ''e'' \<or> c = CHR ''E'' then
       (case take_sign r of (neg, ds) \<Rightarrow>
          if ds \<noteq> [] \<and> list_all is_digit ds
          then Some (if neg then - int (digits_val ds) else int (digits_val ds)) else None)
     else None)"

definition parse_f64 :: "string \<Rightarrow> f64 option" where
  "parse_f64 s =
     (case take_sign s of (neg, u) \<Rightarrow>
        let low = ascii_lower u in
        if low = ''inf'' \<or> low = ''infinity'' then Some (f64_of_mag neg f64_inf_mag)
        else if low = ''nan'' then Some (f64_of_mag neg 0x7FF8000000000000)
        else
          let ip = takeWhile is_digit u; r = dropWhile is_digit u;
              (fp, r2) = (case r of
                 c # r1 \<Rightarrow> if c = CHR ''.'' then (takeWhile is_digit r1, dropWhile is_digit r1) else ([], r)
               | [] \<Rightarrow> ([], []))
          in if ip = [] \<and> fp = [] then None
             else case parse_exp r2 of
               None \<Rightarrow> None
             | Some ex \<Rightarrow>
                 let e10 = ex - int (length fp) in
                 Some (f64_of_mag neg
                   (round_mag (digits_val (ip @ fp) * 10 ^ nat e10) (10 ^ nat (- e10)))))"

subsection \<open>Integers below 2^53 are exact\<close>

lemma bitlen_bounds: "0 < n \<Longrightarrow> 2 ^ (bitlen n - 1) \<le> n \<and> n < 2 ^ bitlen n \<and> 0 < bitlen n"
proof (induction n rule: bitlen.induct)
  case (1 n)
  show ?case
  proof (cases "n div 2 = 0")
    case True
    then have "n = 1" using "1.prems" by linarith
    then show ?thesis by (simp add: bitlen.simps)
  next
    case False
    then have IH: "2 ^ (bitlen (n div 2) - 1) \<le> n div 2" "n div 2 < 2 ^ bitlen (n div 2)"
      "0 < bitlen (n div 2)" using 1 by auto
    obtain m where m: "bitlen (n div 2) = Suc m" using IH(3) by (cases "bitlen (n div 2)") auto
    have "2 ^ Suc m \<le> n" using IH(1) m by simp
    moreover have "n < 2 ^ Suc (Suc m)" using IH(2) m by simp
    ultimately show ?thesis using "1.prems" m by (simp add: bitlen.simps [of n])
  qed
qed

lemma frac_exp_nat: "0 < n \<Longrightarrow> frac_exp n 1 = int (bitlen n) - 1"
proof -
  assume n: "0 < n"
  have b1: "bitlen 1 = 1" by (simp add: bitlen.simps)
  have lt: "n < 2 ^ bitlen n" and le: "2 ^ (bitlen n - 1) \<le> n" and pos: "0 < bitlen n"
    using bitlen_bounds [OF n] by auto
  have "nat (int (bitlen n) - 1) = bitlen n - 1" "nat (1 - int (bitlen n)) = 0" using pos by auto
  then show ?thesis using le unfolding frac_exp_def b1 Let_def by simp
qed

lemma round_mag_small:
  assumes "0 < n" and "n < 2 ^ 53"
  shows "round_mag n 1 = (bitlen n + 1021) * 2 ^ 52 + n * 2 ^ (53 - bitlen n)"
    and "bitlen n \<le> 53" and "n * 2 ^ (53 - bitlen n) < 2 ^ 53"
proof -
  have b: "2 ^ (bitlen n - 1) \<le> n" "n < 2 ^ bitlen n" "0 < bitlen n"
    using bitlen_bounds [OF assms(1)] by auto
  have "(2::nat) ^ (bitlen n - 1) < 2 ^ 53" using b assms by linarith
  then have "bitlen n - 1 < 53" by (rule power_less_imp_less_exp [rotated]) simp
  then show le: "bitlen n \<le> 53" using b by linarith
  have k: "max (frac_exp n 1 - 52) (- 1074) = int (bitlen n) - 53"
    using frac_exp_nat [OF assms(1)] by simp
  have "n * 2 ^ (53 - bitlen n) < 2 ^ bitlen n * 2 ^ (53 - bitlen n)" using b by simp
  also have "\<dots> = 2 ^ 53" using le by (simp flip: power_add)
  finally show q: "n * 2 ^ (53 - bitlen n) < 2 ^ 53" .
  have "(bitlen n + 1021) * 2 ^ 52 + n * 2 ^ (53 - bitlen n) \<le> f64_inf_mag"
  proof -
    have "(bitlen n + 1021) * 2 ^ 52 \<le> 1074 * 2 ^ (52 :: nat)" using le by simp
    with q show ?thesis by (simp add: f64_inf_mag_def)
  qed
  moreover have "nat (int (bitlen n) - 53 + 1074) = bitlen n + 1021" by simp
  moreover have "nat (- (int (bitlen n) - 53)) = 53 - bitlen n" "nat (int (bitlen n) - 53) = 0"
    using le by auto
  ultimately show "round_mag n 1 = (bitlen n + 1021) * 2 ^ 52 + n * 2 ^ (53 - bitlen n)"
    unfolding round_mag_def k Let_def using assms by (simp add: div_half_even_def)
qed

lemma round_mag_mono:
  assumes "m < n" and "n < 2 ^ 53"
  shows "round_mag m 1 < round_mag n 1"
proof (cases "m = 0")
  case True
  have "0 < round_mag n 1" using assms round_mag_small(1) [of n] by simp
  then show ?thesis using True by (simp add: round_mag_def)
next
  case False
  then have m: "0 < m" "m < 2 ^ 53" using assms by auto
  have n: "0 < n" using assms by simp
  note bm = bitlen_bounds [OF m(1)] and bn = bitlen_bounds [OF n]
  show ?thesis
  proof (cases "bitlen m = bitlen n")
    case True
    then show ?thesis
      unfolding round_mag_small(1) [OF m] round_mag_small(1) [OF n assms(2)] using assms by simp
  next
    case False
    have "bitlen m < bitlen n"
    proof (rule ccontr)
      assume "\<not> bitlen m < bitlen n"
      then have "bitlen n \<le> bitlen m - 1" using False by simp
      then have "(2::nat) ^ bitlen n \<le> 2 ^ (bitlen m - 1)" by (simp add: power_increasing)
      then show False using bm bn assms by linarith
    qed
    have le: "bitlen n \<le> 53" using round_mag_small(2) [OF n assms(2)] .
    have "m * 2 ^ (53 - bitlen m) < 2 ^ bitlen m * 2 ^ (53 - bitlen m)" using bm by simp
    also have "\<dots> = 2 ^ 53" using \<open>bitlen m < bitlen n\<close> le by (simp flip: power_add)
    finally have qm: "m * 2 ^ (53 - bitlen m) < 2 ^ 53" .
    have "2 ^ (bitlen n - 1) * 2 ^ (53 - bitlen n) \<le> n * 2 ^ (53 - bitlen n)"
      using bn by (intro mult_le_mono1) simp
    moreover have "(2::nat) ^ (bitlen n - 1) * 2 ^ (53 - bitlen n) = 2 ^ 52"
      using bn le by (simp flip: power_add)
    ultimately have qn: "2 ^ 52 \<le> n * 2 ^ (53 - bitlen n)" by (simp only:)
    have "(bitlen m + 1021 + 1) * 2 ^ 52 \<le> (bitlen n + 1021) * 2 ^ (52::nat)"
      using \<open>bitlen m < bitlen n\<close> by (intro mult_right_mono) auto
    then show ?thesis
      unfolding round_mag_small(1) [OF m] round_mag_small(1) [OF n assms(2)]
      using qm qn by simp
  qed
qed

lemma round_mag_small_bound: "n < 2 ^ 53 \<Longrightarrow> round_mag n 1 < f64_inf_mag"
proof -
  assume "n < 2 ^ 53"
  show ?thesis
  proof (cases "n = 0")
    case True
    then show ?thesis by (simp add: round_mag_def f64_inf_mag_def)
  next
    case False
    then have n: "0 < n" by simp
    note r = round_mag_small [OF n \<open>n < 2 ^ 53\<close>]
    have "(bitlen n + 1021) * 2 ^ 52 \<le> 1074 * 2 ^ (52 :: nat)" using r(2) by simp
    with r(3) show ?thesis unfolding r(1) by (simp add: f64_inf_mag_def)
  qed
qed


lemma parse_f64_nat_str: "parse_f64 (nat_str n) = Some (f64_of_mag False (round_mag n 1))"
proof -
  obtain c r where cr: "nat_str n = c # r" by (cases "nat_str n") auto
  have dig: "\<forall>x \<in> set (nat_str n). is_digit x" by (rule nat_str_digits)
  then have c: "is_digit c" using cr by simp
  have ns: "take_sign (nat_str n) = (False, nat_str n)"
    using c unfolding cr take_sign_def by (auto simp: is_digit_def)
  have "\<exists>t. ascii_lower (nat_str n) = c # t"
    using c unfolding cr ascii_lower_def by (auto simp: is_digit_def)
  then have low: "ascii_lower (nat_str n) \<noteq> ''inf''" "ascii_lower (nat_str n) \<noteq> ''infinity''"
    "ascii_lower (nat_str n) \<noteq> ''nan''"
    using c by (auto simp: is_digit_def)
  have tw: "takeWhile is_digit (nat_str n) = nat_str n" and dw: "dropWhile is_digit (nat_str n) = []"
    using dig by (auto simp: takeWhile_eq_all_conv dropWhile_eq_Nil_conv)
  show ?thesis
    unfolding parse_f64_def ns prod.case Let_def tw dw list.case
    using low by (simp add: parse_exp_def digits_val_nat_str)
qed

lemma f64_mag_of_mag: "m < 2 ^ 63 \<Longrightarrow> f64_mag (f64_of_mag False m) = m"
  by (simp add: f64_mag_def f64_of_mag_def unsigned_take_bit_eq unat_of_nat take_bit_nat_eq_self)

lemma f64_neg_of_mag: "m < 2 ^ 63 \<Longrightarrow> \<not> f64_neg (f64_of_mag False m)"
proof -
  assume "m < 2 ^ 63"
  then have "\<not> bit m 63" by (simp add: bit_iff_odd)
  then show ?thesis by (simp add: f64_neg_def f64_of_mag_def bit_of_nat_iff)
qed

lemma f64_lt_nat:
  assumes "m < 2 ^ 53" and "n < 2 ^ 53"
  shows "f64_lt (f64_of_mag False (round_mag m 1)) (f64_of_mag False (round_mag n 1)) \<longleftrightarrow> m < n"
proof -
  have b: "round_mag k 1 < f64_inf_mag" "round_mag k 1 < 2 ^ 63" if "k < 2 ^ 53" for k
    using round_mag_small_bound [OF that] by (auto simp: f64_inf_mag_def)
  have "round_mag m 1 < round_mag n 1 \<longleftrightarrow> m < n"
    using round_mag_mono [of m n] round_mag_mono [of n m] assms by (metis not_less_iff_gr_or_eq)
  then show ?thesis
    using b [OF assms(1)] b [OF assms(2)]
    by (simp add: f64_lt_def f64_is_nan_def f64_key_def f64_mag_of_mag f64_neg_of_mag)
qed

end
