(* ===== verification/Values.thy ===== *)
theory Values
  imports F64 Std_Map
begin

text \<open>
  Data of the libraries the program exchanges values with: \<^verbatim>\<open>serde_json::Value\<close> (whose object
  is a \<^verbatim>\<open>BTreeMap\<close>), the value tree a serde deserializer reads (\<^verbatim>\<open>content\<close>: what serde buffers
  for a tagged enum, with the type each scalar has there), and the operations of the random
  number generator, which are a parameter of every definition that draws.
\<close>

subsection \<open>JSON\<close>

datatype jnum = NPos nat | NNeg int | NFloat f64

datatype json =
    JNull
  | JBool bool
  | JNum jnum
  | JStr string
  | JArr "json list"
  | JObj "(string \<times> json) list"

text \<open>\<^verbatim>\<open>Value::from(i64)\<close>: non-negative integers are stored as \<^verbatim>\<open>u64\<close>.\<close>

definition json_of_int :: "int \<Rightarrow> json" where
  "json_of_int i = (if i < 0 then JNum (NNeg i) else JNum (NPos (nat i)))"

subsection \<open>Deserializer input\<close>

datatype content =
    CNull
  | CBool bool
  | CInt int
  | CFloat f64
  | CStr string
  | CSeq "content list"
  | CMap "(string \<times> content) list"

text \<open>A JSON value as a serializer writes it.\<close>

fun content_of_json :: "json \<Rightarrow> content" where
  "content_of_json JNull = CNull"
| "content_of_json (JBool b) = CBool b"
| "content_of_json (JStr s) = CStr s"
| "content_of_json (JNum (NPos n)) = CInt (int n)"
| "content_of_json (JNum (NNeg i)) = CInt i"
| "content_of_json (JNum (NFloat f)) = CFloat f"
| "content_of_json (JArr xs) = CSeq (map content_of_json xs)"
| "content_of_json (JObj kvs) = CMap (map (\<lambda>(k, v). (k, content_of_json v)) kvs)"

definition bind_res :: "'e + 'a \<Rightarrow> ('a \<Rightarrow> 'e + 'b) \<Rightarrow> 'e + 'b" where
  "bind_res r f = (case r of Inl e \<Rightarrow> Inl e | Inr a \<Rightarrow> f a)"

lemma bind_res_Inr: "bind_res r f = Inr b \<longleftrightarrow> (\<exists>a. r = Inr a \<and> f a = Inr b)"
  by (cases r) (auto simp: bind_res_def)

lemma bind_res_simps [simp]: "bind_res (Inr a) f = f a" "bind_res (Inl e) f = Inl e"
  by (simp_all add: bind_res_def)

definition f64_finite :: "f64 \<Rightarrow> bool" where
  "f64_finite x = (f64_mag x < f64_inf_mag)"

subsection \<open>Random numbers\<close>

text \<open>
  The three uses of \<^verbatim>\<open>rand\<close>: a uniform draw from an inclusive range, filling a byte array, and
  a sample of distinct indices. \<open>rng_ok\<close> is their documented contract.
\<close>

record 'r rng_ops =
  gen_range :: "nat \<Rightarrow> nat \<Rightarrow> 'r \<Rightarrow> nat \<times> 'r"
  fill_bytes :: "nat \<Rightarrow> 'r \<Rightarrow> nat list \<times> 'r"
  sample_idx :: "nat \<Rightarrow> nat \<Rightarrow> 'r \<Rightarrow> nat list \<times> 'r"

definition rng_ok :: "'r rng_ops \<Rightarrow> bool" where
  "rng_ok R \<longleftrightarrow>
     (\<forall>a b r. a \<le> b \<longrightarrow> a \<le> fst (gen_range R a b r) \<and> fst (gen_range R a b r) \<le> b)
   \<and> (\<forall>n r. length (fst (fill_bytes R n r)) = n \<and> (\<forall>x \<in> set (fst (fill_bytes R n r)). x < 256))
   \<and> (\<forall>c k r. k \<le> c \<longrightarrow> distinct (fst (sample_idx R c k r))
        \<and> length (fst (sample_idx R c k r)) = k \<and> (\<forall>i \<in> set (fst (sample_idx R c k r)). i < c))"

lemma gen_range_in:
  "rng_ok R \<Longrightarrow> a \<le> b \<Longrightarrow> gen_range R a b r = (x, r') \<Longrightarrow> a \<le> x \<and> x \<le> b"
  unfolding rng_ok_def by (metis fst_conv)

lemma sample_idx_props:
  "rng_ok R \<Longrightarrow> k \<le> c \<Longrightarrow> sample_idx R c k r = (xs, r') \<Longrightarrow>
   distinct xs \<and> length xs = k \<and> (\<forall>i \<in> set xs. i < c)"
  unfolding rng_ok_def by (metis fst_conv)

lemma fill_bytes_props:
  "rng_ok R \<Longrightarrow> fill_bytes R n r = (xs, r') \<Longrightarrow> length xs = n \<and> (\<forall>x \<in> set xs. x < 256)"
  unfolding rng_ok_def by (metis fst_conv)

text \<open>A concrete generator that meets the contract: a counter.\<close>

definition counter_rng :: "nat rng_ops" where
  "counter_rng = \<lparr>
     gen_range = (\<lambda>a b r. (a + r mod (b + 1 - a), r + 1)),
     fill_bytes = (\<lambda>n r. (map (\<lambda>i. (r + i) mod 256) [0..<n], r + n)),
     sample_idx = (\<lambda>c k r. ([0..<k], r))\<rparr>"

lemma counter_rng_ok: "rng_ok counter_rng"
proof -
  have "a + r mod (b + 1 - a) \<le> b" if "a \<le> b" for a b r :: nat
  proof -
    have "r mod (b + 1 - a) < b + 1 - a" using that by (intro mod_less_divisor) simp
    then show ?thesis using that by linarith
  qed
  then show ?thesis by (auto simp: rng_ok_def counter_rng_def)
qed

end
