(* ===== verification/Genvars.thy ===== *)
theory Genvars
  imports Values
begin

text \<open>
  \<^verbatim>\<open>engine/src/genvars.rs\<close>: declared variables, static or generated per iteration or per
  request. The wire form is validated once by \<open>try_from\<close>; evaluation afterwards must not fail.
  Error messages are the constructors of \<open>gen_err\<close>. Date arithmetic, time zones and
  \<^verbatim>\<open>strftime\<close> (chrono, chrono-tz), random numbers and JSON printing are parameters.
\<close>

subsection \<open>Data\<close>

datatype refresh = IterationR | RequestR

record 'tz date_gen =
  dg_format :: string
  dg_offset :: "string option"
  dg_tz :: "string option"
  dg_offset_secs :: int
  dg_tz_parsed :: "'tz option"

record random_int_gen =
  ri_min :: int
  ri_max :: int
  ri_step :: nat

record random_string_gen =
  rs_length :: nat

record pick_array_gen =
  pa_length :: nat
  pa_min :: nat
  pa_max :: nat
  pa_positions :: "string option"
  pa_pick :: "json option"
  pa_rest :: "json option"
  pa_candidates :: "nat list"

datatype 'tz gen_spec =
    GDate "'tz date_gen"
  | GRandomInt random_int_gen
  | GUuid
  | GRandomString random_string_gen
  | GPickArray pick_array_gen

datatype 'tz var_decl = VStatic string | VGen "'tz gen_spec" refresh

definition pick_array_max_len :: nat where "pick_array_max_len = 1000"
definition positions_max_chars :: nat where "positions_max_chars = 4096"
definition pick_value_max_chars :: nat where "pick_value_max_chars = 64"

record gen_spec_wire =
  w_gen :: string
  w_format :: "string option"
  w_offset :: "string option"
  w_tz :: "string option"
  w_min :: "int option"
  w_max :: "int option"
  w_step :: "nat option"
  w_length :: "nat option"
  w_positions :: "string option"
  w_pick :: "json option"
  w_rest :: "json option"
  w_refresh :: "refresh option"

datatype gen_err =
    UnexpectedField string
  | BadDateFormat string
  | BadOffset string
  | UnknownTz string
  | MinMaxRequired
  | MinGtMax int int
  | StepZero
  | LengthRequired
  | LengthRange nat
  | MinNegative int
  | MaxGtLength int nat
  | PositionsTooLong
  | PositionsUnreadable nat
  | PositionsOrder nat
  | PositionsRange nat nat
  | NoCandidates
  | MinGtCandidates int nat
  | UnknownGen string
  | NotScalar
  | ValueTooLong
  | NotFinite
  | BadPositionsValue
  | BadRefresh
  | BadType

subsection \<open>Field readers of the wire form\<close>

definition present_refresh :: "content \<Rightarrow> gen_err + refresh option" where
  "present_refresh c = (case c of
     CStr s \<Rightarrow> if s = ''request'' then Inr (Some RequestR)
               else if s = ''iteration'' then Inr (Some IterationR) else Inl BadRefresh
   | _ \<Rightarrow> Inl BadRefresh)"

definition present_value :: "content \<Rightarrow> gen_err + json option" where
  "present_value c = (case c of
     CNull \<Rightarrow> Inr (Some JNull)
   | CBool b \<Rightarrow> Inr (Some (JBool b))
   | CStr s \<Rightarrow> if char_count s > pick_value_max_chars then Inl ValueTooLong
               else Inr (Some (JStr s))
   | CInt i \<Rightarrow> Inr (Some (json_of_int i))
   | CFloat f \<Rightarrow> if f64_finite f then Inr (Some (JNum (NFloat f))) else Inl NotFinite
   | _ \<Rightarrow> Inl NotScalar)"

definition present_positions :: "content \<Rightarrow> gen_err + string option" where
  "present_positions c = (case c of
     CStr s \<Rightarrow> Inr (Some s)
   | CInt i \<Rightarrow> if 0 \<le> i then Inr (Some (int_str i)) else Inl BadPositionsValue
   | _ \<Rightarrow> Inl BadPositionsValue)"

subsection \<open>Positions\<close>

definition ascii_ws :: "char \<Rightarrow> bool" where
  "ascii_ws c = (byte c \<in> {9, 10, 12, 13, 32})"

definition trim_ascii_ws :: "string \<Rightarrow> string" where
  "trim_ascii_ws s = rev (dropWhile ascii_ws (rev (dropWhile ascii_ws s)))"

definition pos_num :: "string \<Rightarrow> nat option" where
  "pos_num s =
     (let s = trim_ascii_ws s in
      if s = [] \<or> length s > 4 \<or> \<not> list_all is_digit s then None else Some (digits_val s))"

definition pos_item :: "string \<Rightarrow> nat option \<times> nat option" where
  "pos_item raw =
     (let item = trim_ascii_ws raw in
      case split_once CHR ''-'' item of
        Some (x, y) \<Rightarrow> (pos_num x, pos_num y)
      | None \<Rightarrow> (pos_num item, pos_num item))"

text \<open>The loop over the items; \<open>i\<close> counts from 1 and \<open>mark\<close> is the position table.\<close>

fun mark_range :: "nat \<Rightarrow> nat \<Rightarrow> bool list \<Rightarrow> bool list" where
  "mark_range a k mark = (case k of 0 \<Rightarrow> mark | Suc j \<Rightarrow> mark_range (a + 1) j (mark[a - 1 := True]))"

declare mark_range.simps [simp del]

fun mark_items :: "nat \<Rightarrow> nat \<Rightarrow> string list \<Rightarrow> bool list \<Rightarrow> gen_err + bool list" where
  "mark_items len i [] mark = Inr mark"
| "mark_items len i (raw # rest) mark =
     (case pos_item raw of
        (Some a, Some b) \<Rightarrow>
          if a > b then Inl (PositionsOrder i)
          else if a < 1 \<or> b > len then Inl (PositionsRange i len)
          else mark_items len (i + 1) rest (mark_range a (b + 1 - a) mark)
      | _ \<Rightarrow> Inl (PositionsUnreadable i))"

definition parse_positions :: "string \<Rightarrow> nat \<Rightarrow> gen_err + nat list" where
  "parse_positions text len =
     (if \<not> (1 \<le> len \<and> len \<le> pick_array_max_len) then Inl (LengthRange len)
      else if length text > positions_max_chars then Inl PositionsTooLong
      else if trim_ascii_ws text = [] then Inr []
      else case mark_items len 1 (split_on CHR '','' text) (replicate len False) of
        Inl e \<Rightarrow> Inl e
      | Inr mark \<Rightarrow> Inr (filter (\<lambda>p. mark ! (p - 1)) [1..<len + 1]))"

subsection \<open>Offsets\<close>

definition parse_offset_secs :: "string \<Rightarrow> int option" where
  "parse_offset_secs s = (case s of
     [] \<Rightarrow> None
   | c # rest \<Rightarrow>
     if c \<noteq> CHR ''+'' \<and> c \<noteq> CHR ''-'' then None
     else if \<not> list_all (\<lambda>x. byte x < 128) rest then None
     else if length rest < 2 then None
     else
       let digits = butlast rest; unit = last rest in
       if digits = [] \<or> length digits > 9 \<or> \<not> list_all is_digit digits then None
       else
         let n = int (digits_val digits); sign = (if c = CHR ''+'' then 1 else - 1) in
         if unit = CHR ''s'' then Some (sign * n * 1)
         else if unit = CHR ''m'' then Some (sign * n * 60)
         else if unit = CHR ''h'' then Some (sign * n * 3600)
         else if unit = CHR ''d'' then Some (sign * n * 86400)
         else None)"


subsection \<open>Validation\<close>

record ('tz, 'now) chrono_ops =
  strftime_valid :: "string \<Rightarrow> bool"
  tz_from_str :: "string \<Rightarrow> 'tz option"
  add_secs :: "'now \<Rightarrow> int \<Rightarrow> 'now option"
  max_utc :: 'now
  min_utc :: 'now
  timestamp :: "'now \<Rightarrow> int"
  timestamp_millis :: "'now \<Rightarrow> int"
  format_tz :: "'tz \<Rightarrow> 'now \<Rightarrow> string \<Rightarrow> string"
  format_local :: "'now \<Rightarrow> string \<Rightarrow> string"

definition date_from_wire ::
  "('tz, 'now) chrono_ops \<Rightarrow> gen_spec_wire \<Rightarrow> gen_err + 'tz gen_spec" where
  "date_from_wire C w =
     (if w_min w \<noteq> None \<or> w_max w \<noteq> None \<or> w_step w \<noteq> None \<or> w_length w \<noteq> None
         \<or> w_positions w \<noteq> None \<or> w_pick w \<noteq> None \<or> w_rest w \<noteq> None
      then Inl (UnexpectedField ''date'')
      else
        let format = (case w_format w of Some f \<Rightarrow> f | None \<Rightarrow> ''%Y-%m-%d'') in
        if format \<noteq> ''unix'' \<and> format \<noteq> ''unix_ms'' \<and> \<not> strftime_valid C format
        then Inl (BadDateFormat format)
        else case (case w_offset w of None \<Rightarrow> Some 0 | Some ofs \<Rightarrow> parse_offset_secs ofs) of
          None \<Rightarrow> Inl (BadOffset (case w_offset w of Some ofs \<Rightarrow> ofs | None \<Rightarrow> []))
        | Some secs \<Rightarrow>
            (case w_tz w of
               None \<Rightarrow> Inr (GDate \<lparr>dg_format = format, dg_offset = w_offset w, dg_tz = None,
                          dg_offset_secs = secs, dg_tz_parsed = None\<rparr>)
             | Some t \<Rightarrow>
               (case tz_from_str C t of
                  None \<Rightarrow> Inl (UnknownTz t)
                | Some tz \<Rightarrow> Inr (GDate \<lparr>dg_format = format, dg_offset = w_offset w, dg_tz = Some t,
                          dg_offset_secs = secs, dg_tz_parsed = Some tz\<rparr>))))"

definition random_int_from_wire :: "gen_spec_wire \<Rightarrow> gen_err + 'tz gen_spec" where
  "random_int_from_wire w =
     (if w_format w \<noteq> None \<or> w_offset w \<noteq> None \<or> w_tz w \<noteq> None \<or> w_length w \<noteq> None
         \<or> w_positions w \<noteq> None \<or> w_pick w \<noteq> None \<or> w_rest w \<noteq> None
      then Inl (UnexpectedField ''random_int'')
      else case (w_min w, w_max w) of
        (Some a, Some b) \<Rightarrow>
          if a > b then Inl (MinGtMax a b)
          else let step = (case w_step w of Some x \<Rightarrow> x | None \<Rightarrow> 1) in
            if step = 0 then Inl StepZero
            else Inr (GRandomInt \<lparr>ri_min = a, ri_max = b, ri_step = step\<rparr>)
      | _ \<Rightarrow> Inl MinMaxRequired)"

definition uuid_from_wire :: "gen_spec_wire \<Rightarrow> gen_err + 'tz gen_spec" where
  "uuid_from_wire w =
     (if w_format w \<noteq> None \<or> w_offset w \<noteq> None \<or> w_tz w \<noteq> None \<or> w_min w \<noteq> None
         \<or> w_max w \<noteq> None \<or> w_step w \<noteq> None \<or> w_length w \<noteq> None
         \<or> w_positions w \<noteq> None \<or> w_pick w \<noteq> None \<or> w_rest w \<noteq> None
      then Inl (UnexpectedField ''uuid'') else Inr GUuid)"

definition random_string_from_wire :: "gen_spec_wire \<Rightarrow> gen_err + 'tz gen_spec" where
  "random_string_from_wire w =
     (if w_format w \<noteq> None \<or> w_offset w \<noteq> None \<or> w_tz w \<noteq> None \<or> w_min w \<noteq> None
         \<or> w_max w \<noteq> None \<or> w_step w \<noteq> None
         \<or> w_positions w \<noteq> None \<or> w_pick w \<noteq> None \<or> w_rest w \<noteq> None
      then Inl (UnexpectedField ''random_string'')
      else let len = (case w_length w of Some n \<Rightarrow> n | None \<Rightarrow> 8) in
        if \<not> (1 \<le> len \<and> len \<le> 64) then Inl (LengthRange len)
        else Inr (GRandomString \<lparr>rs_length = len\<rparr>))"

definition pick_array_from_wire :: "gen_spec_wire \<Rightarrow> gen_err + 'tz gen_spec" where
  "pick_array_from_wire w =
     (if w_format w \<noteq> None \<or> w_offset w \<noteq> None \<or> w_tz w \<noteq> None \<or> w_step w \<noteq> None
      then Inl (UnexpectedField ''pick_array'')
      else case w_length w of
        None \<Rightarrow> Inl LengthRequired
      | Some len \<Rightarrow>
        if \<not> (1 \<le> len \<and> len \<le> pick_array_max_len) then Inl (LengthRange len)
        else case (w_min w, w_max w) of
          (Some mn, Some mx) \<Rightarrow>
            if mn < 0 then Inl (MinNegative mn)
            else if mn > mx then Inl (MinGtMax mn mx)
            else if mx > int len then Inl (MaxGtLength mx len)
            else
              (case (case w_positions w of Some p \<Rightarrow> parse_positions p len | None \<Rightarrow> Inr [1..<len + 1]) of
                 Inl e \<Rightarrow> Inl e
               | Inr cand \<Rightarrow>
                   if cand = [] then Inl NoCandidates
                   else if nat mn > length cand then Inl (MinGtCandidates mn (length cand))
                   else Inr (GPickArray \<lparr>pa_length = len, pa_min = nat mn, pa_max = nat mx,
                     pa_positions = w_positions w, pa_pick = w_pick w, pa_rest = w_rest w,
                     pa_candidates = cand\<rparr>))
        | _ \<Rightarrow> Inl MinMaxRequired)"

definition try_from ::
  "('tz, 'now) chrono_ops \<Rightarrow> gen_spec_wire \<Rightarrow> gen_err + 'tz gen_spec" where
  "try_from C w =
     (if w_gen w = ''date'' then date_from_wire C w
      else if w_gen w = ''random_int'' then random_int_from_wire w
      else if w_gen w = ''uuid'' then uuid_from_wire w
      else if w_gen w = ''random_string'' then random_string_from_wire w
      else if w_gen w = ''pick_array'' then pick_array_from_wire w
      else Inl (UnknownGen (w_gen w)))"

subsection \<open>Reading and writing a declaration\<close>

text \<open>
  The derived reader of the wire struct: every key at most once, unknown keys refused, an
  explicit null of an ordinary optional field is \<open>None\<close>.
\<close>

definition opt_str :: "content \<Rightarrow> gen_err + string option" where
  "opt_str c = (case c of CNull \<Rightarrow> Inr None | CStr s \<Rightarrow> Inr (Some s) | _ \<Rightarrow> Inl BadType)"

definition opt_i64 :: "content \<Rightarrow> gen_err + int option" where
  "opt_i64 c = (case c of CNull \<Rightarrow> Inr None
    | CInt i \<Rightarrow> if - (2 ^ 63) \<le> i \<and> i < 2 ^ 63 then Inr (Some i) else Inl BadType
    | _ \<Rightarrow> Inl BadType)"

definition opt_u32 :: "content \<Rightarrow> gen_err + nat option" where
  "opt_u32 c = (case c of CNull \<Rightarrow> Inr None
    | CInt i \<Rightarrow> if 0 \<le> i \<and> i < 2 ^ 32 then Inr (Some (nat i)) else Inl BadType
    | _ \<Rightarrow> Inl BadType)"

definition empty_wire :: gen_spec_wire where
  "empty_wire = \<lparr>w_gen = [], w_format = None, w_offset = None, w_tz = None, w_min = None,
     w_max = None, w_step = None, w_length = None, w_positions = None, w_pick = None,
     w_rest = None, w_refresh = None\<rparr>"

definition wire_field :: "string \<Rightarrow> content \<Rightarrow> gen_spec_wire \<Rightarrow> gen_err + gen_spec_wire" where
  "wire_field k c w =
     (if k = ''gen'' then (case c of CStr s \<Rightarrow> Inr (w\<lparr>w_gen := s\<rparr>) | _ \<Rightarrow> Inl BadType)
      else if k = ''format'' then bind_res (opt_str c) (\<lambda>v. Inr (w\<lparr>w_format := v\<rparr>))
      else if k = ''offset'' then bind_res (opt_str c) (\<lambda>v. Inr (w\<lparr>w_offset := v\<rparr>))
      else if k = ''tz'' then bind_res (opt_str c) (\<lambda>v. Inr (w\<lparr>w_tz := v\<rparr>))
      else if k = ''min'' then bind_res (opt_i64 c) (\<lambda>v. Inr (w\<lparr>w_min := v\<rparr>))
      else if k = ''max'' then bind_res (opt_i64 c) (\<lambda>v. Inr (w\<lparr>w_max := v\<rparr>))
      else if k = ''step'' then bind_res (opt_u32 c) (\<lambda>v. Inr (w\<lparr>w_step := v\<rparr>))
      else if k = ''length'' then bind_res (opt_u32 c) (\<lambda>v. Inr (w\<lparr>w_length := v\<rparr>))
      else if k = ''positions'' then bind_res (present_positions c) (\<lambda>v. Inr (w\<lparr>w_positions := v\<rparr>))
      else if k = ''pick'' then bind_res (present_value c) (\<lambda>v. Inr (w\<lparr>w_pick := v\<rparr>))
      else if k = ''rest'' then bind_res (present_value c) (\<lambda>v. Inr (w\<lparr>w_rest := v\<rparr>))
      else if k = ''refresh'' then bind_res (present_refresh c) (\<lambda>v. Inr (w\<lparr>w_refresh := v\<rparr>))
      else Inl (UnexpectedField k))"

fun wire_fields ::
  "(string \<times> content) list \<Rightarrow> string list \<Rightarrow> gen_spec_wire \<Rightarrow> gen_err + gen_spec_wire" where
  "wire_fields [] seen w = (if ''gen'' \<in> set seen then Inr w else Inl (UnexpectedField ''gen''))"
| "wire_fields ((k, c) # rest) seen w =
     (if k \<in> set seen then Inl (UnexpectedField k)
      else bind_res (wire_field k c w) (\<lambda>w'. wire_fields rest (k # seen) w'))"

definition deserialize_var ::
  "('tz, 'now) chrono_ops \<Rightarrow> content \<Rightarrow> gen_err + 'tz var_decl" where
  "deserialize_var C c = (case c of
     CStr s \<Rightarrow> Inr (VStatic s)
   | CMap kvs \<Rightarrow>
       bind_res (wire_fields kvs [] empty_wire) (\<lambda>wire.
         let refresh = (case w_refresh wire of Some r \<Rightarrow> r | None \<Rightarrow> IterationR) in
         bind_res (try_from C (wire\<lparr>w_refresh := None\<rparr>)) (\<lambda>spec. Inr (VGen spec refresh)))
   | _ \<Rightarrow> Inl BadType)"

definition opt_entry :: "string \<Rightarrow> ('a \<Rightarrow> content) \<Rightarrow> 'a option \<Rightarrow> (string \<times> content) list" where
  "opt_entry k f ov = (case ov of None \<Rightarrow> [] | Some v \<Rightarrow> [(k, f v)])"

definition serialize_entries :: "'tz gen_spec \<Rightarrow> (string \<times> content) list" where
  "serialize_entries sp = (case sp of
     GDate g \<Rightarrow> [(''gen'', CStr ''date''), (''format'', CStr (dg_format g))]
       @ opt_entry ''offset'' CStr (dg_offset g) @ opt_entry ''tz'' CStr (dg_tz g)
   | GRandomInt g \<Rightarrow> [(''gen'', CStr ''random_int''), (''min'', CInt (ri_min g)), (''max'', CInt (ri_max g))]
       @ (if ri_step g \<noteq> 1 then [(''step'', CInt (int (ri_step g)))] else [])
   | GUuid \<Rightarrow> [(''gen'', CStr ''uuid'')]
   | GRandomString g \<Rightarrow> [(''gen'', CStr ''random_string''), (''length'', CInt (int (rs_length g)))]
   | GPickArray g \<Rightarrow> [(''gen'', CStr ''pick_array''), (''length'', CInt (int (pa_length g))),
         (''min'', CInt (int (pa_min g))), (''max'', CInt (int (pa_max g)))]
       @ opt_entry ''positions'' CStr (pa_positions g)
       @ opt_entry ''pick'' content_of_json (pa_pick g)
       @ opt_entry ''rest'' content_of_json (pa_rest g))"

definition entry_count :: "'tz gen_spec \<Rightarrow> nat" where
  "entry_count sp = (case sp of
     GDate g \<Rightarrow> 2 + of_bool (dg_offset g \<noteq> None) + of_bool (dg_tz g \<noteq> None)
   | GRandomInt g \<Rightarrow> 3 + of_bool (ri_step g \<noteq> 1)
   | GUuid \<Rightarrow> 1
   | GRandomString g \<Rightarrow> 2
   | GPickArray g \<Rightarrow> 4 + of_bool (pa_positions g \<noteq> None) + of_bool (pa_pick g \<noteq> None)
       + of_bool (pa_rest g \<noteq> None))"

definition serialize_var :: "'tz var_decl \<Rightarrow> content" where
  "serialize_var d = (case d of
     VStatic v \<Rightarrow> CStr v
   | VGen spec refresh \<Rightarrow>
       CMap (serialize_entries spec
         @ (if refresh = RequestR then [(''refresh'', CStr ''request'')] else [])))"

subsection \<open>Evaluation\<close>

definition eval_date :: "('tz, 'now) chrono_ops \<Rightarrow> 'tz date_gen \<Rightarrow> 'now \<Rightarrow> string" where
  "eval_date C g now =
     (let t = (case add_secs C now (dg_offset_secs g) of
                 Some t \<Rightarrow> t
               | None \<Rightarrow> if dg_offset_secs g \<ge> 0 then max_utc C else min_utc C)
      in if dg_format g = ''unix'' then int_str (timestamp C t)
         else if dg_format g = ''unix_ms'' then int_str (timestamp_millis C t)
         else case dg_tz_parsed g of
           Some tz \<Rightarrow> format_tz C tz t (dg_format g)
         | None \<Rightarrow> format_local C t (dg_format g))"

text \<open>The arithmetic is 128 bits wide in the code, so it is exact; the final cast is to \<^verbatim>\<open>i64\<close>.\<close>

definition as_i64 :: "int \<Rightarrow> int" where
  "as_i64 i = (i + 2 ^ 63) mod 2 ^ 64 - 2 ^ 63"

definition random_int_value :: "random_int_gen \<Rightarrow> nat \<Rightarrow> int" where
  "random_int_value g k = as_i64 (ri_min g + int k * int (ri_step g))"

definition eval_random_int :: "'r rng_ops \<Rightarrow> random_int_gen \<Rightarrow> 'r \<Rightarrow> string \<times> 'r" where
  "eval_random_int R g r =
     (let span = as_u64 (nat (ri_max g - ri_min g));
          (k, r') = gen_range R 0 (span div ri_step g) r
      in (int_str (random_int_value g k), r'))"

definition hex_digit :: "nat \<Rightarrow> char" where
  "hex_digit n = char_of (if n < 10 then 48 + n else 87 + n)"

definition hex2 :: "nat \<Rightarrow> string" where
  "hex2 b = [hex_digit (b div 16), hex_digit (b mod 16)]"

definition uuid_bytes :: "nat list \<Rightarrow> nat list" where
  "uuid_bytes b = b[6 := 64 + b ! 6 mod 16, 8 := 128 + b ! 8 mod 64]"

definition eval_uuid :: "'r rng_ops \<Rightarrow> 'r \<Rightarrow> string \<times> 'r" where
  "eval_uuid R r =
     (let (b0, r') = fill_bytes R 16 r; b = uuid_bytes b0;
          h = (\<lambda>i j. concat (map hex2 (take (j - i) (drop i b))))
      in (h 0 4 @ ''-'' @ h 4 6 @ ''-'' @ h 6 8 @ ''-'' @ h 8 10 @ ''-'' @ h 10 16, r'))"

definition rs_chars :: string where
  "rs_chars = ''abcdefghijklmnopqrstuvwxyz0123456789''"

fun random_chars :: "'r rng_ops \<Rightarrow> nat \<Rightarrow> 'r \<Rightarrow> string \<times> 'r" where
  "random_chars R 0 r = ([], r)"
| "random_chars R (Suc n) r =
     (let (k, r1) = gen_range R 0 (length rs_chars - 1) r;
          (cs, r2) = random_chars R n r1
      in (rs_chars ! k # cs, r2))"

definition eval_random_string :: "'r rng_ops \<Rightarrow> random_string_gen \<Rightarrow> 'r \<Rightarrow> string \<times> 'r" where
  "eval_random_string R g r = random_chars R (rs_length g) r"

text \<open>The array of \<^verbatim>\<open>eval_pick_array\<close> for the sampled candidate indices.\<close>

definition pick_array_values :: "pick_array_gen \<Rightarrow> nat list \<Rightarrow> json list" where
  "pick_array_values g idxs =
     (let pick = (case pa_pick g of Some v \<Rightarrow> v | None \<Rightarrow> JBool True);
          rest = (case pa_rest g of Some v \<Rightarrow> v | None \<Rightarrow> JBool False)
      in fold (\<lambda>idx out. out[pa_candidates g ! idx - 1 := pick]) idxs (replicate (pa_length g) rest))"

definition pick_array_draw :: "'r rng_ops \<Rightarrow> pick_array_gen \<Rightarrow> 'r \<Rightarrow> nat list \<times> 'r" where
  "pick_array_draw R g r =
     (let c = length (pa_candidates g); hi = min (pa_max g) c; lo = min (pa_min g) hi;
          (k, r1) = gen_range R lo hi r
      in sample_idx R c k r1)"

definition eval_pick_array ::
  "'r rng_ops \<Rightarrow> (json \<Rightarrow> string) \<Rightarrow> pick_array_gen \<Rightarrow> 'r \<Rightarrow> string \<times> 'r" where
  "eval_pick_array R json_show g r =
     (let (idxs, r') = pick_array_draw R g r
      in (json_show (JArr (pick_array_values g idxs)), r'))"

definition eval_gen ::
  "('tz, 'now) chrono_ops \<Rightarrow> 'r rng_ops \<Rightarrow> (json \<Rightarrow> string) \<Rightarrow> 'tz gen_spec \<Rightarrow> 'now \<Rightarrow> 'r \<Rightarrow> string \<times> 'r"
where
  "eval_gen C R json_show sp now r = (case sp of
     GDate g \<Rightarrow> (eval_date C g now, r)
   | GRandomInt g \<Rightarrow> eval_random_int R g r
   | GUuid \<Rightarrow> eval_uuid R r
   | GRandomString g \<Rightarrow> eval_random_string R g r
   | GPickArray g \<Rightarrow> eval_pick_array R json_show g r)"

fun seed_iter_vars ::
  "('tz, 'now) chrono_ops \<Rightarrow> 'r rng_ops \<Rightarrow> (json \<Rightarrow> string) \<Rightarrow> 'now
    \<Rightarrow> (string, 'tz var_decl) btree_map \<Rightarrow> 'r \<Rightarrow> (string, string) btree_map \<times> 'r" where
  "seed_iter_vars C R json_show now [] r = ([], r)"
| "seed_iter_vars C R json_show now ((k, d) # rest) r =
     (let (v, r1) = (case d of VStatic s \<Rightarrow> (s, r) | VGen spec _ \<Rightarrow> eval_gen C R json_show spec now r);
          (m, r2) = seed_iter_vars C R json_show now rest r1
      in ((k, v) # m, r2))"

subsection \<open>Positions: the parsed set\<close>

lemma mark_range_length [simp]: "length (mark_range a k mark) = length mark"
  by (induction k arbitrary: a mark) (simp_all add: mark_range.simps)

lemma mark_range_nth:
  "1 \<le> a \<Longrightarrow> i < length mark \<Longrightarrow>
   mark_range a k mark ! i = (mark ! i \<or> a \<le> i + 1 \<and> i + 1 < a + k)"
proof (induction k arbitrary: a mark)
  case 0
  then show ?case by (auto simp: mark_range.simps)
next
  case (Suc k)
  from Suc.IH [of "a + 1" "mark[a - 1 := True]"] Suc.prems show ?case
    by (cases "i = a - 1") (auto simp: mark_range.simps)
qed

definition item_covers :: "string \<Rightarrow> nat \<Rightarrow> bool" where
  "item_covers raw p = (case pos_item raw of (Some a, Some b) \<Rightarrow> a \<le> p \<and> p \<le> b | _ \<Rightarrow> False)"

lemma mark_items_spec:
  "mark_items len i items mark = Inr mark' \<Longrightarrow> length mark = len \<Longrightarrow>
   length mark' = len
   \<and> (\<forall>raw \<in> set items. \<exists>a b. pos_item raw = (Some a, Some b) \<and> 1 \<le> a \<and> a \<le> b \<and> b \<le> len)
   \<and> (\<forall>j < len. mark' ! j = (mark ! j \<or> (\<exists>raw \<in> set items. item_covers raw (j + 1))))"
proof (induction items arbitrary: i mark)
  case Nil
  then show ?case by simp
next
  case (Cons raw items)
  from Cons.prems(1) obtain a b where ab: "pos_item raw = (Some a, Some b)" "a \<le> b" "1 \<le> a" "b \<le> len"
    and rec: "mark_items len (i + 1) items (mark_range a (b + 1 - a) mark) = Inr mark'"
    by (auto split: prod.splits option.splits if_splits)
  from Cons.IH [OF rec] Cons.prems(2) have IH: "length mark' = len"
    "\<forall>raw \<in> set items. \<exists>a b. pos_item raw = (Some a, Some b) \<and> 1 \<le> a \<and> a \<le> b \<and> b \<le> len"
    "\<forall>j < len. mark' ! j = (mark_range a (b + 1 - a) mark ! j \<or> (\<exists>raw \<in> set items. item_covers raw (j + 1)))"
    by auto
  have "mark_range a (b + 1 - a) mark ! j = (mark ! j \<or> item_covers raw (j + 1))" if "j < len" for j
    using ab that Cons.prems(2) by (auto simp: mark_range_nth item_covers_def)
  with IH ab show ?case by auto
qed

definition positions_ok :: "nat \<Rightarrow> nat list \<Rightarrow> bool" where
  "positions_ok len ps = (sorted_wrt (<) ps \<and> set ps \<subseteq> {1..len})"

lemma filter_upt_ok: "positions_ok len (filter f [1..<len + 1])"
proof -
  have "sorted_wrt (<) (filter f [1..<len + 1])"
    by (rule sorted_wrt_filter) (simp del: upt_Suc)
  then show ?thesis by (auto simp: positions_ok_def simp del: upt_Suc)
qed

lemma parse_positions_ok:
  assumes "parse_positions text len = Inr ps"
  shows "positions_ok len ps \<and> 1 \<le> len \<and> len \<le> pick_array_max_len
    \<and> (\<forall>p. p \<in> set ps \<longleftrightarrow> trim_ascii_ws text \<noteq> [] \<and> (\<exists>raw \<in> set (split_on CHR '','' text). item_covers raw p))"
proof -
  have len: "1 \<le> len" "len \<le> pick_array_max_len"
    using assms by (auto simp: parse_positions_def split: if_splits)
  show ?thesis
  proof (cases "trim_ascii_ws text = []")
    case True
    then show ?thesis using assms len by (auto simp: parse_positions_def positions_ok_def split: if_splits)
  next
    case False
    let ?items = "split_on CHR '','' text"
    obtain mark where m: "mark_items len 1 ?items (replicate len False) = Inr mark"
      and ps: "ps = filter (\<lambda>p. mark ! (p - 1)) [1..<len + 1]"
      using assms False by (auto simp: parse_positions_def split: if_splits sum.splits)
    from mark_items_spec [OF m] have spec:
      "\<forall>raw \<in> set ?items. \<exists>a b. pos_item raw = (Some a, Some b) \<and> 1 \<le> a \<and> a \<le> b \<and> b \<le> len"
      "\<forall>j < len. mark ! j = (\<exists>raw \<in> set ?items. item_covers raw (j + 1))"
      by auto
    have "p \<in> set ps \<longleftrightarrow> (\<exists>raw \<in> set ?items. item_covers raw p)" for p
    proof
      assume "p \<in> set ps"
      then show "\<exists>raw \<in> set ?items. item_covers raw p"
        using spec(2) by (force simp: ps simp del: upt_Suc)
    next
      assume "\<exists>raw \<in> set ?items. item_covers raw p"
      then obtain raw where raw: "raw \<in> set ?items" "item_covers raw p" by auto
      from spec(1) raw obtain a b where "pos_item raw = (Some a, Some b)" "1 \<le> a" "b \<le> len" by blast
      then have "1 \<le> p" "p \<le> len" using raw by (auto simp: item_covers_def)
      then show "p \<in> set ps"
        using spec(2) raw by (auto simp: ps simp del: upt_Suc)
    qed
    then show ?thesis using len False filter_upt_ok ps by blast
  qed
qed

subsection \<open>What validation guarantees\<close>

definition in_i64 :: "int \<Rightarrow> bool" where
  "in_i64 i = (- (2 ^ 63) \<le> i \<and> i < 2 ^ 63)"

definition scalar_value :: "json \<Rightarrow> bool" where
  "scalar_value v = (present_value (content_of_json v) = Inr (Some v))"

definition wire_ok :: "gen_spec_wire \<Rightarrow> bool" where
  "wire_ok w = (pred_option in_i64 (w_min w) \<and> pred_option in_i64 (w_max w)
     \<and> pred_option (\<lambda>n. n < 2 ^ 32) (w_step w) \<and> pred_option (\<lambda>n. n < 2 ^ 32) (w_length w)
     \<and> pred_option scalar_value (w_pick w) \<and> pred_option scalar_value (w_rest w))"

lemma present_value_scalar: "present_value c = Inr v \<Longrightarrow> pred_option scalar_value v"
  by (cases c) (auto simp: present_value_def scalar_value_def json_of_int_def split: if_splits)

lemma wire_field_ok: "wire_field k c w = Inr w' \<Longrightarrow> wire_ok w \<Longrightarrow> wire_ok w'"
  unfolding wire_field_def
  by (auto simp: bind_res_Inr wire_ok_def opt_i64_def opt_u32_def in_i64_def
      dest: present_value_scalar split: if_splits content.splits)

lemma wire_fields_ok: "wire_fields kvs seen w = Inr w' \<Longrightarrow> wire_ok w \<Longrightarrow> wire_ok w'"
  by (induction kvs seen w rule: wire_fields.induct)
    (auto simp: bind_res_Inr dest: wire_field_ok split: if_splits)

definition spec_ok :: "('tz, 'now) chrono_ops \<Rightarrow> 'tz gen_spec \<Rightarrow> bool" where
  "spec_ok C sp = (case sp of
     GDate g \<Rightarrow>
       (dg_format g = ''unix'' \<or> dg_format g = ''unix_ms'' \<or> strftime_valid C (dg_format g))
       \<and> (case dg_offset g of None \<Rightarrow> dg_offset_secs g = 0
          | Some ofs \<Rightarrow> parse_offset_secs ofs = Some (dg_offset_secs g))
       \<and> (case dg_tz g of None \<Rightarrow> dg_tz_parsed g = None
          | Some t \<Rightarrow> dg_tz_parsed g \<noteq> None \<and> tz_from_str C t = dg_tz_parsed g)
   | GRandomInt g \<Rightarrow> in_i64 (ri_min g) \<and> in_i64 (ri_max g) \<and> ri_min g \<le> ri_max g
       \<and> 0 < ri_step g \<and> ri_step g < 2 ^ 32
   | GUuid \<Rightarrow> True
   | GRandomString g \<Rightarrow> 1 \<le> rs_length g \<and> rs_length g \<le> 64
   | GPickArray g \<Rightarrow> 1 \<le> pa_length g \<and> pa_length g \<le> pick_array_max_len
       \<and> pa_min g \<le> pa_max g \<and> pa_max g \<le> pa_length g
       \<and> pa_candidates g \<noteq> [] \<and> pa_min g \<le> length (pa_candidates g)
       \<and> positions_ok (pa_length g) (pa_candidates g)
       \<and> (case pa_positions g of None \<Rightarrow> pa_candidates g = [1..<pa_length g + 1]
          | Some p \<Rightarrow> parse_positions p (pa_length g) = Inr (pa_candidates g))
       \<and> pred_option scalar_value (pa_pick g) \<and> pred_option scalar_value (pa_rest g))"

lemma date_from_wire_ok: "date_from_wire C w = Inr sp \<Longrightarrow> spec_ok C sp"
  by (auto simp: date_from_wire_def spec_ok_def Let_def split: if_splits option.splits)

lemma random_int_from_wire_ok: "random_int_from_wire w = Inr sp \<Longrightarrow> wire_ok w \<Longrightarrow> spec_ok C sp"
  by (auto simp: random_int_from_wire_def spec_ok_def wire_ok_def Let_def
      split: if_splits option.splits prod.splits)

lemma random_string_from_wire_ok: "random_string_from_wire w = Inr sp \<Longrightarrow> spec_ok C sp"
  by (auto simp: random_string_from_wire_def spec_ok_def Let_def split: if_splits)

lemma pick_array_from_wire_ok:
  assumes "pick_array_from_wire w = Inr sp" and "wire_ok w"
  shows "spec_ok C sp"
proof -
  obtain len mn mx cand where w: "w_length w = Some len" "w_min w = Some mn" "w_max w = Some mx"
    and len: "1 \<le> len" "len \<le> pick_array_max_len"
    and mm: "0 \<le> mn" "mn \<le> mx" "mx \<le> int len"
    and cand: "(case w_positions w of Some p \<Rightarrow> parse_positions p len | None \<Rightarrow> Inr [1..<len + 1]) = Inr cand"
      "cand \<noteq> []" "nat mn \<le> length cand"
    and sp: "sp = GPickArray \<lparr>pa_length = len, pa_min = nat mn, pa_max = nat mx,
                     pa_positions = w_positions w, pa_pick = w_pick w, pa_rest = w_rest w,
                     pa_candidates = cand\<rparr>"
    using assms(1) unfolding pick_array_from_wire_def
    by (auto split: if_splits option.splits sum.splits simp del: upt_Suc)
  have "positions_ok len cand"
    using cand(1) parse_positions_ok [of _ len cand] filter_upt_ok [of len "\<lambda>_. True"]
    by (auto split: option.splits simp del: upt_Suc)
  moreover have "case w_positions w of None \<Rightarrow> cand = [1..<len + 1] | Some p \<Rightarrow> parse_positions p len = Inr cand"
    using cand(1) by (auto split: option.splits simp del: upt_Suc)
  ultimately show ?thesis
    using len mm cand(2,3) assms(2)
    by (cases "w_positions w") (auto simp: spec_ok_def sp wire_ok_def simp del: upt_Suc)
qed

lemma try_from_ok: "try_from C w = Inr sp \<Longrightarrow> wire_ok w \<Longrightarrow> spec_ok C sp"
  by (auto simp: try_from_def uuid_from_wire_def
      dest: date_from_wire_ok random_int_from_wire_ok random_string_from_wire_ok pick_array_from_wire_ok
      split: if_splits) (simp add: spec_ok_def)

lemma empty_wire_ok: "wire_ok empty_wire"
  by (simp add: wire_ok_def empty_wire_def)

lemma deserialize_var_ok: "deserialize_var C c = Inr (VGen sp rf) \<Longrightarrow> spec_ok C sp"
proof -
  assume "deserialize_var C c = Inr (VGen sp rf)"
  then obtain kvs wire where k: "wire_fields kvs [] empty_wire = Inr wire"
    and t: "try_from C (wire\<lparr>w_refresh := None\<rparr>) = Inr sp"
    by (auto simp: deserialize_var_def bind_res_Inr Let_def split: content.splits)
  have "wire_ok (wire\<lparr>w_refresh := None\<rparr>)"
    using wire_fields_ok [OF k empty_wire_ok] by (simp add: wire_ok_def)
  with t show ?thesis by (rule try_from_ok)
qed

subsection \<open>Evaluation of validated specifications\<close>

lemma as_i64_id [simp]: "in_i64 i \<Longrightarrow> as_i64 i = i"
  by (simp add: as_i64_def in_i64_def)

lemma random_int_value_range:
  assumes "in_i64 (ri_min g)" "in_i64 (ri_max g)" "ri_min g \<le> ri_max g" "0 < ri_step g"
    and "k \<le> as_u64 (nat (ri_max g - ri_min g)) div ri_step g"
  shows "random_int_value g k = ri_min g + int k * int (ri_step g)"
    and "random_int_value g k \<le> ri_max g"
proof -
  have "nat (ri_max g - ri_min g) \<le> u64_max"
    using assms(1,2) by (simp add: in_i64_def nat_le_iff)
  then have "as_u64 (nat (ri_max g - ri_min g)) = nat (ri_max g - ri_min g)"
    by (simp add: as_u64_def)
  then have "k * ri_step g \<le> nat (ri_max g - ri_min g)"
    using assms(4,5) by (simp add: less_eq_div_iff_mult_less_eq)
  then have "int (k * ri_step g) \<le> ri_max g - ri_min g" using assms(3) by linarith
  then have le: "ri_min g + int k * int (ri_step g) \<le> ri_max g" by simp
  have "0 \<le> int k * int (ri_step g)" by simp
  then have "in_i64 (ri_min g + int k * int (ri_step g))"
    using le assms(1,2) unfolding in_i64_def by linarith
  then show eq: "random_int_value g k = ri_min g + int k * int (ri_step g)"
    by (simp add: random_int_value_def)
  show "random_int_value g k \<le> ri_max g" using le by (simp add: eq)
qed

lemma fold_update_length [simp]: "length (fold (\<lambda>i out. out[f i := v]) is xs) = length xs"
  by (induction "is" arbitrary: xs) auto

lemma fold_update_nth:
  "j < length xs \<Longrightarrow>
   fold (\<lambda>i out. out[f i := v]) is xs ! j = (if j \<in> f ` set is then v else xs ! j)"
  by (induction "is" arbitrary: xs) (auto simp: nth_list_update)

text \<open>The chosen positions (from 1) for the sampled candidate indices.\<close>

definition picked :: "pick_array_gen \<Rightarrow> nat list \<Rightarrow> nat set" where
  "picked g idxs = (\<lambda>i. pa_candidates g ! i) ` set idxs"

lemma positions_ok_distinct: "positions_ok n ps \<Longrightarrow> distinct ps"
  by (auto simp: positions_ok_def dest: strict_sorted_iff [THEN iffD1])

lemma picked_card:
  assumes "positions_ok n (pa_candidates g)" "distinct idxs" "\<forall>i \<in> set idxs. i < length (pa_candidates g)"
  shows "card (picked g idxs) = length idxs \<and> picked g idxs \<subseteq> set (pa_candidates g)"
proof -
  have "inj_on (\<lambda>i. pa_candidates g ! i) (set idxs)"
    using positions_ok_distinct [OF assms(1)] assms(3) by (auto simp: inj_on_def nth_eq_iff_index_eq)
  then show ?thesis
    using assms by (auto simp: picked_def card_image distinct_card)
qed

lemma pick_array_values_nth:
  assumes "positions_ok (pa_length g) (pa_candidates g)"
    and "\<forall>i \<in> set idxs. i < length (pa_candidates g)" and "1 \<le> p" and "p \<le> pa_length g"
  shows "pick_array_values g idxs ! (p - 1) =
    (if p \<in> picked g idxs then (case pa_pick g of Some v \<Rightarrow> v | None \<Rightarrow> JBool True)
     else (case pa_rest g of Some v \<Rightarrow> v | None \<Rightarrow> JBool False))"
proof -
  have pos: "1 \<le> pa_candidates g ! i" if "i \<in> set idxs" for i
  proof -
    have "pa_candidates g ! i \<in> set (pa_candidates g)" using assms(2) that by simp
    then show ?thesis using assms(1) by (auto simp: positions_ok_def)
  qed
  have "p - 1 \<in> (\<lambda>i. pa_candidates g ! i - 1) ` set idxs \<longleftrightarrow> p \<in> picked g idxs"
  proof
    assume "p - 1 \<in> (\<lambda>i. pa_candidates g ! i - 1) ` set idxs"
    then obtain i where "i \<in> set idxs" "p - 1 = pa_candidates g ! i - 1" by auto
    then show "p \<in> picked g idxs"
      using pos [of i] assms(3) by (auto simp: picked_def image_iff intro!: bexI [of _ i])
  qed (auto simp: picked_def)
  then show ?thesis
    using assms by (simp add: pick_array_values_def fold_update_nth Let_def)
qed

lemma pick_array_draw_props:
  assumes "spec_ok C (GPickArray g)" and "rng_ok R" and "pick_array_draw R g r = (idxs, r')"
  shows "distinct idxs \<and> (\<forall>i \<in> set idxs. i < length (pa_candidates g))
    \<and> pa_min g \<le> length idxs \<and> length idxs \<le> pa_max g"
proof -
  let ?c = "length (pa_candidates g)"
  have ok: "pa_min g \<le> pa_max g" "pa_min g \<le> ?c" using assms(1) by (auto simp: spec_ok_def)
  obtain k r1 where k: "gen_range R (min (pa_min g) (min (pa_max g) ?c)) (min (pa_max g) ?c) r = (k, r1)"
    and s: "sample_idx R ?c k r1 = (idxs, r')"
    using assms(3) by (auto simp: pick_array_draw_def Let_def split: prod.splits)
  have "pa_min g \<le> k" "k \<le> pa_max g" "k \<le> ?c"
    using gen_range_in [OF assms(2) _ k] ok by auto
  then show ?thesis using sample_idx_props [OF assms(2) _ s] by auto
qed

lemma random_chars_props:
  "rng_ok R \<Longrightarrow> random_chars R n r = (s, r') \<Longrightarrow> length s = n \<and> set s \<subseteq> set rs_chars"
proof (induction n arbitrary: r s r')
  case 0
  then show ?case by simp
next
  case (Suc n)
  obtain k r1 where k: "gen_range R 0 (length rs_chars - 1) r = (k, r1)" by fastforce
  obtain cs r2 where cs: "random_chars R n r1 = (cs, r2)" by fastforce
  have "k < length rs_chars" using gen_range_in [OF Suc.prems(1) _ k] by (simp add: rs_chars_def)
  then have "rs_chars ! k \<in> set rs_chars" by (rule nth_mem)
  with Suc.IH [OF Suc.prems(1) cs] Suc.prems(2) k cs show ?case by auto
qed

subsection \<open>Reading back a written declaration\<close>

lemma opt_readers [simp]:
  "opt_str (CStr s) = Inr (Some s)"
  "in_i64 i \<Longrightarrow> opt_i64 (CInt i) = Inr (Some i)"
  "n < 2 ^ 32 \<Longrightarrow> opt_u32 (CInt (int n)) = Inr (Some n)"
  "scalar_value v \<Longrightarrow> present_value (content_of_json v) = Inr (Some v)"
  "present_positions (CStr s) = Inr (Some s)"
  "present_refresh (CStr ''request'') = Inr (Some RequestR)"
  by (simp_all add: opt_str_def opt_i64_def opt_u32_def in_i64_def scalar_value_def
      present_positions_def present_refresh_def)

lemma deserialize_serialize_var:
  assumes "spec_ok C sp"
  shows "deserialize_var C (serialize_var (VGen sp rf)) = Inr (VGen sp rf)"
proof (cases sp)
  case (GDate g)
  then show ?thesis
    using assms
    by (cases g; cases "dg_offset g"; cases "dg_tz g"; cases rf)
      (auto simp: serialize_var_def serialize_entries_def deserialize_var_def opt_entry_def
        wire_field_def empty_wire_def try_from_def date_from_wire_def spec_ok_def)
next
  case (GRandomInt g)
  then show ?thesis
    using assms
    by (cases g; cases rf)
      (auto simp: serialize_var_def serialize_entries_def deserialize_var_def
        wire_field_def empty_wire_def try_from_def random_int_from_wire_def spec_ok_def)
next
  case GUuid
  then show ?thesis
    by (cases rf)
      (auto simp: serialize_var_def serialize_entries_def deserialize_var_def
        wire_field_def empty_wire_def try_from_def uuid_from_wire_def)
next
  case (GRandomString g)
  then show ?thesis
    using assms
    by (cases g; cases rf)
      (auto simp: serialize_var_def serialize_entries_def deserialize_var_def
        wire_field_def empty_wire_def try_from_def random_string_from_wire_def spec_ok_def)
next
  case (GPickArray g)
  have b: "in_i64 (int (pa_min g))" "in_i64 (int (pa_max g))" "pa_length g < 2 ^ 32"
    using assms by (auto simp: GPickArray spec_ok_def in_i64_def pick_array_max_len_def)
  show ?thesis
    using assms b
    by (cases g; cases "pa_positions g"; cases "pa_pick g"; cases "pa_rest g"; cases rf)
      (auto simp: GPickArray serialize_var_def serialize_entries_def deserialize_var_def opt_entry_def
        wire_field_def empty_wire_def try_from_def pick_array_from_wire_def spec_ok_def
        simp del: upt_Suc)
qed

lemma entry_count_length: "entry_count sp = length (serialize_entries sp)"
  by (auto simp: entry_count_def serialize_entries_def opt_entry_def
      split: gen_spec.splits option.splits)

lemma seed_iter_vars_keys: "map fst (fst (seed_iter_vars C R sh now vs r)) = map fst vs"
  by (induction C R sh now vs r rule: seed_iter_vars.induct) (auto split: prod.splits)


subsection \<open>Properties\<close>

text \<open>
  the position grammar. A successful parse is strictly ascending, stays within 1..length
  and contains exactly the positions that some comma-separated item covers; a blank text gives
  the empty list.
\<close>

theorem parse_positions_correct:
  assumes "parse_positions text len = Inr ps"
  shows "sorted_wrt (<) ps \<and> set ps \<subseteq> {1..len}
    \<and> set ps = {p. trim_ascii_ws text \<noteq> [] \<and> (\<exists>raw \<in> set (split_on CHR '','' text). item_covers raw p)}"
  using parse_positions_ok [OF assms] by (auto simp: positions_ok_def)

theorem parse_positions_correct_witness:
  "parse_positions ''1-3, 8,2'' 10 = Inr [1, 2, 3, 8] \<and> sorted_wrt (<) [1, 2, 3, 8 :: nat]"
proof -
  have "parse_positions ''1-3, 8,2'' 10 = Inr [1, 2, 3, 8]" by code_simp
  then show ?thesis using parse_positions_correct [of "''1-3, 8,2''" 10] by blast
qed

text \<open>
  a declaration that was accepted never produces an integer outside its bounds, and the
  draw never wraps: the printed value is min + k * step with min <= value <= max, for the whole
  \<^verbatim>\<open>i64\<close> range of bounds.
\<close>

theorem random_int_in_range:
  assumes "deserialize_var C c = Inr (VGen (GRandomInt g) rf)" and "rng_ok R"
  shows "\<exists>k r'. eval_random_int R g r = (int_str (ri_min g + int k * int (ri_step g)), r')
    \<and> ri_min g + int k * int (ri_step g) \<le> ri_max g"
proof -
  have ok: "in_i64 (ri_min g)" "in_i64 (ri_max g)" "ri_min g \<le> ri_max g" "0 < ri_step g"
    using deserialize_var_ok [OF assms(1)] by (simp_all add: spec_ok_def)
  obtain k r' where k: "gen_range R 0 (as_u64 (nat (ri_max g - ri_min g)) div ri_step g) r = (k, r')"
    by fastforce
  then have "k \<le> as_u64 (nat (ri_max g - ri_min g)) div ri_step g"
    using gen_range_in [OF assms(2) _ k] by simp
  from random_int_value_range [OF ok this] k show ?thesis
    by (intro exI [of _ k] exI [of _ r']) (simp add: eval_random_int_def)
qed

definition demo_chrono :: "(unit, int) chrono_ops" where
  "demo_chrono = \<lparr>strftime_valid = (\<lambda>_. True), tz_from_str = (\<lambda>_. Some ()),
     add_secs = (\<lambda>t d. Some (t + d)), max_utc = 10, min_utc = 0, timestamp = (\<lambda>t. t),
     timestamp_millis = (\<lambda>t. 1000 * t), format_tz = (\<lambda>_ _ f. f), format_local = (\<lambda>_ f. f)\<rparr>"

theorem random_int_in_range_witness:
  "\<exists>k r'. eval_random_int counter_rng \<lparr>ri_min = - (2 ^ 63), ri_max = 2 ^ 63 - 1, ri_step = 7\<rparr> (5 :: nat)
      = (int_str (- (2 ^ 63) + int k * 7), r') \<and> - (2 ^ 63) + int k * 7 \<le> 2 ^ 63 - 1"
proof -
  have "deserialize_var demo_chrono
      (CMap [(''gen'', CStr ''random_int''), (''min'', CInt (- (2 ^ 63))), (''max'', CInt (2 ^ 63 - 1)),
             (''step'', CInt 7)])
    = Inr (VGen (GRandomInt \<lparr>ri_min = - (2 ^ 63), ri_max = 2 ^ 63 - 1, ri_step = 7\<rparr>) IterationR)"
    by (simp add: deserialize_var_def wire_field_def opt_i64_def opt_u32_def empty_wire_def
        try_from_def random_int_from_wire_def)
  from random_int_in_range [OF this counter_rng_ok, of 5] show ?thesis by simp
qed

text \<open>
  an accepted \<^verbatim>\<open>pick_array\<close> never panics and honours its contract: between min and max
  distinct candidate positions are chosen, all within the array, and the array of the declared
  length holds the pick value exactly there and the rest value everywhere else.
\<close>

theorem pick_array_correct:
  assumes "deserialize_var C c = Inr (VGen (GPickArray g) rf)" and "rng_ok R"
    and "pick_array_draw R g r = (idxs, r')"
  shows "eval_pick_array R json_show g r = (json_show (JArr (pick_array_values g idxs)), r')
    \<and> length (pick_array_values g idxs) = pa_length g
    \<and> pa_min g \<le> card (picked g idxs) \<and> card (picked g idxs) \<le> pa_max g
    \<and> picked g idxs \<subseteq> set (pa_candidates g) \<and> picked g idxs \<subseteq> {1..pa_length g}
    \<and> (\<forall>p \<in> {1..pa_length g}. pick_array_values g idxs ! (p - 1) =
         (if p \<in> picked g idxs then (case pa_pick g of Some v \<Rightarrow> v | None \<Rightarrow> JBool True)
          else (case pa_rest g of Some v \<Rightarrow> v | None \<Rightarrow> JBool False)))"
proof -
  have ok: "spec_ok C (GPickArray g)" by (rule deserialize_var_ok [OF assms(1)])
  then have pos: "positions_ok (pa_length g) (pa_candidates g)" by (simp add: spec_ok_def)
  note d = pick_array_draw_props [OF ok assms(2,3)]
  note card = picked_card [OF pos, of idxs]
  have "picked g idxs \<subseteq> {1..pa_length g}" using card d pos by (auto simp: positions_ok_def)
  moreover have "eval_pick_array R json_show g r = (json_show (JArr (pick_array_values g idxs)), r')"
    by (simp add: eval_pick_array_def assms(3))
  moreover have "length (pick_array_values g idxs) = pa_length g"
    by (simp add: pick_array_values_def Let_def)
  ultimately show ?thesis
    using card d pick_array_values_nth [OF pos] by auto
qed

theorem pick_array_correct_witness:
  "card (picked \<lparr>pa_length = 4, pa_min = 1, pa_max = 3, pa_positions = Some ''2-3'', pa_pick = None,
     pa_rest = Some JNull, pa_candidates = [2, 3]\<rparr> [0]) \<le> 3
   \<and> pick_array_values \<lparr>pa_length = 4, pa_min = 1, pa_max = 3, pa_positions = Some ''2-3'', pa_pick = None,
     pa_rest = Some JNull, pa_candidates = [2, 3]\<rparr> [0] = [JNull, JBool True, JNull, JNull]"
proof -
  let ?g = "\<lparr>pa_length = 4, pa_min = 1, pa_max = 3, pa_positions = Some ''2-3'', pa_pick = None,
     pa_rest = Some JNull, pa_candidates = [2, 3]\<rparr>"
  have p: "parse_positions ''2-3'' 4 = Inr [2, 3]" by code_simp
  have d: "deserialize_var demo_chrono
      (CMap [(''gen'', CStr ''pick_array''), (''length'', CInt 4), (''min'', CInt 1), (''max'', CInt 3),
             (''positions'', CStr ''2-3''), (''rest'', CNull)]) = Inr (VGen (GPickArray ?g) IterationR)"
    by (simp add: deserialize_var_def wire_field_def opt_i64_def opt_u32_def empty_wire_def
        try_from_def pick_array_from_wire_def present_positions_def present_value_def p
        pick_array_max_len_def)
  have r: "pick_array_draw counter_rng ?g (0 :: nat) = ([0], 1)"
    by (simp add: pick_array_draw_def counter_rng_def)
  have "pick_array_values ?g [0] = [JNull, JBool True, JNull, JNull]"
    by (simp add: pick_array_values_def eval_nat_numeral)
  then show ?thesis using pick_array_correct [OF d counter_rng_ok r, of "\<lambda>_. []"] by simp
qed

text \<open>
  C3: writing a declaration and reading it back is the identity on every declaration that was
  accepted once (defaults that are not written included), and the announced number of map
  entries is the number written.
\<close>

theorem var_decl_roundtrip:
  assumes "deserialize_var C c = Inr d"
  shows "deserialize_var C (serialize_var d) = Inr d
    \<and> (\<forall>sp rf. d = VGen sp rf \<longrightarrow> (\<exists>kvs. serialize_var d = CMap kvs
          \<and> length kvs = entry_count sp + of_bool (rf = RequestR)))"
proof (cases d)
  case (VStatic s)
  then show ?thesis by (simp add: serialize_var_def deserialize_var_def)
next
  case (VGen sp rf)
  then have "spec_ok C sp" using assms deserialize_var_ok by blast
  then show ?thesis
    unfolding VGen
    by (intro conjI deserialize_serialize_var) (auto simp: serialize_var_def entry_count_length)
qed

theorem var_decl_roundtrip_witness:
  "deserialize_var demo_chrono
     (serialize_var (VGen (GRandomInt \<lparr>ri_min = 1, ri_max = 6, ri_step = 1\<rparr>) RequestR :: unit var_decl))
   = Inr (VGen (GRandomInt \<lparr>ri_min = 1, ri_max = 6, ri_step = 1\<rparr>) RequestR)"
proof -
  have "deserialize_var demo_chrono
      (CMap [(''refresh'', CStr ''request''), (''max'', CInt 6), (''gen'', CStr ''random_int''), (''min'', CInt 1)])
    = Inr (VGen (GRandomInt \<lparr>ri_min = 1, ri_max = 6, ri_step = 1\<rparr>) RequestR)"
    by (simp add: deserialize_var_def wire_field_def opt_i64_def opt_u32_def empty_wire_def
        try_from_def random_int_from_wire_def present_refresh_def)
  from var_decl_roundtrip [OF this] show ?thesis by simp
qed

end
