(* ===== verification/Scenario.thy ===== *)
theory Scenario
  imports Genvars
begin

text \<open>
  \<^verbatim>\<open>engine/src/scenario.rs\<close> and the think time of \<^verbatim>\<open>engine/src/pacing.rs\<close>: the scenario data
  model, the output names of a parallel branch, and the hand-written (de)serializers of
  bodies, assertions and conditions over serde's value tree.
\<close>

subsection \<open>Data\<close>

record think_time =
  min_ms :: nat
  max_ms :: nat

datatype cookie_jar_mode = JarAuto | JarOff

datatype http_method = GET | POST | PUT | PATCH | DELETE | HEAD | OPTIONS

datatype body =
    BodyJson json
  | BodyForm "(string, string) btree_map"
  | BodyRaw string

record disabled_rows =
  dr_headers :: "(string, string) btree_map"
  dr_form :: "(string, string) btree_map"

record request =
  rq_method :: http_method
  rq_url :: string
  rq_headers :: "(string, string) btree_map"
  rq_body :: "body option"
  rq_disabled :: disabled_rows

datatype assertion = AStatus nat

datatype decode = Base64 | Jwt

datatype extract_spec =
    ExBody string string "decode option" "string option"
  | ExHeader string string "decode option" "string option"
  | ExCookie string string "decode option" "string option"
  | ExStatus string

definition extract_var :: "extract_spec \<Rightarrow> string" where
  "extract_var e = (case e of
     ExBody v _ _ _ \<Rightarrow> v | ExHeader v _ _ _ \<Rightarrow> v | ExCookie v _ _ _ \<Rightarrow> v | ExStatus v \<Rightarrow> v)"

datatype compare_op =
  OpEq | OpNe | OpContains | OpMatches | OpLt | OpGt | OpLte | OpGte | OpExists | OpEmpty

datatype condition =
    Compare string compare_op "string option"
  | All "condition list"
  | Any "condition list"

record http_step =
  hs_id :: string
  hs_name :: string
  hs_request :: request
  hs_assert :: "assertion list"
  hs_extract :: "extract_spec list"
  hs_timeout :: "nat option"
  hs_think :: "think_time option"

text \<open>
  \<^verbatim>\<open>Step\<close>: a loop has an id, a name, \<^verbatim>\<open>repeat\<close> and its steps; an \<^verbatim>\<open>if\<close> has an id, a name, the
  condition, \<^verbatim>\<open>then\<close>, the \<^verbatim>\<open>elif\<close> branches and \<^verbatim>\<open>else\<close>; a parallel node has named branches.
\<close>

datatype step =
    StHttp http_step
  | StLoop string string nat "step list"
  | StIf string string condition "step list" "elif_branch list" "step list"
  | StParallel string string "branch list"
and elif_branch = ElifBranch (elif_cond: condition) (elif_then: "step list")
and branch = Branch (br_name: string) (br_steps: "step list")

record 'tz scenario =
  sc_version :: nat
  sc_name :: string
  sc_variables :: "(string, 'tz var_decl) btree_map"
  sc_cookie_jar :: cookie_jar_mode
  sc_default_think :: "think_time option"
  sc_notes :: "string option"
  sc_steps :: "step list"

definition step_id :: "step \<Rightarrow> string" where
  "step_id s = (case s of
     StHttp h \<Rightarrow> hs_id h | StLoop i _ _ _ \<Rightarrow> i | StIf i _ _ _ _ _ \<Rightarrow> i | StParallel i _ _ \<Rightarrow> i)"

definition step_name :: "step \<Rightarrow> string" where
  "step_name s = (case s of
     StHttp h \<Rightarrow> hs_name h | StLoop _ n _ _ \<Rightarrow> n | StIf _ n _ _ _ _ \<Rightarrow> n | StParallel _ n _ \<Rightarrow> n)"

text \<open>The walker behind \<^verbatim>\<open>Branch::output_var_names\<close>, pushing to \<open>out\<close>.\<close>

fun collect_output_var_names :: "step list \<Rightarrow> string list \<Rightarrow> string list"
  and collect_step :: "step \<Rightarrow> string list \<Rightarrow> string list"
  and collect_elifs :: "elif_branch list \<Rightarrow> string list \<Rightarrow> string list" where
  "collect_output_var_names [] out = out"
| "collect_output_var_names (s # steps) out = collect_output_var_names steps (collect_step s out)"
| "collect_step (StHttp h) out = out @ map extract_var (hs_extract h)"
| "collect_step (StLoop _ _ _ body) out = collect_output_var_names body out"
| "collect_step (StIf _ _ _ t els e) out =
     collect_output_var_names e (collect_elifs els (collect_output_var_names t out))"
| "collect_step (StParallel _ _ _) out = out"
| "collect_elifs [] out = out"
| "collect_elifs (ElifBranch _ t # els) out = collect_elifs els (collect_output_var_names t out)"

definition output_var_names :: "branch \<Rightarrow> string list" where
  "output_var_names b = collect_output_var_names (br_steps b) []"

text \<open>
  \<^verbatim>\<open>ThinkTime::sample\<close> in milliseconds.
\<close>

definition think_sample :: "'r rng_ops \<Rightarrow> think_time \<Rightarrow> 'r \<Rightarrow> nat \<times> 'r" where
  "think_sample R t r =
     (let mx = max (max_ms t) (min_ms t) in
      if mx = min_ms t then (min_ms t, r) else gen_range R (min_ms t) mx r)"

datatype pace_outcome = Slept | PaceCancelled | DeadlineReached

text \<open>
  \<^verbatim>\<open>pace\<close> in whole milliseconds: \<open>cancelled\<close> tells whether the cancellation wins the race with
  the sleep.
\<close>

definition pace :: "nat \<Rightarrow> nat \<Rightarrow> nat \<Rightarrow> bool \<Rightarrow> pace_outcome" where
  "pace dur now deadline cancelled =
     (if now \<ge> deadline then DeadlineReached
      else
        let remaining = deadline - now; capped = min dur remaining in
        if capped = 0 then Slept
        else if cancelled then PaceCancelled
        else if dur > remaining then DeadlineReached else Slept)"

subsection \<open>Serde of bodies, assertions and conditions\<close>

datatype serde_err = SEmptyMap | SUnknownField string | SDuplicateField string
  | SMissingField string | SExtraKey | SInvalidType | SMixedGroup string | SNoShape | SManyShapes

text \<open>\<^verbatim>\<open>serde_json::Value\<close> read from a value tree: a non-finite float becomes null, the last of
  equal keys wins.\<close>

fun json_of_content :: "content \<Rightarrow> serde_err + json"
  and json_of_seq :: "content list \<Rightarrow> serde_err + json list"
  and json_of_map :: "(string \<times> content) list \<Rightarrow> serde_err + (string \<times> json) list" where
  "json_of_content CNull = Inr JNull"
| "json_of_content (CBool b) = Inr (JBool b)"
| "json_of_content (CInt i) =
     (if - (2 ^ 63) \<le> i \<and> i < 2 ^ 64 then Inr (json_of_int i) else Inl SInvalidType)"
| "json_of_content (CFloat f) = Inr (if f64_finite f then JNum (NFloat f) else JNull)"
| "json_of_content (CStr s) = Inr (JStr s)"
| "json_of_content (CSeq xs) = bind_res (json_of_seq xs) (\<lambda>ys. Inr (JArr ys))"
| "json_of_content (CMap kvs) = bind_res (json_of_map kvs) (\<lambda>m. Inr (JObj (bt_extend m [])))"
| "json_of_seq [] = Inr []"
| "json_of_seq (c # cs) = bind_res (json_of_content c) (\<lambda>y. bind_res (json_of_seq cs) (\<lambda>ys. Inr (y # ys)))"
| "json_of_map [] = Inr []"
| "json_of_map ((k, c) # kvs) =
     bind_res (json_of_content c) (\<lambda>y. bind_res (json_of_map kvs) (\<lambda>m. Inr ((k, y) # m)))"

fun strings_of_map :: "(string \<times> content) list \<Rightarrow> serde_err + (string \<times> string) list" where
  "strings_of_map [] = Inr []"
| "strings_of_map ((k, c) # kvs) =
     (case c of CStr s \<Rightarrow> bind_res (strings_of_map kvs) (\<lambda>m. Inr ((k, s) # m)) | _ \<Rightarrow> Inl SInvalidType)"

definition serialize_body :: "body \<Rightarrow> content" where
  "serialize_body b = (case b of
     BodyJson v \<Rightarrow> CMap [(''json'', content_of_json v)]
   | BodyForm m \<Rightarrow> CMap [(''form'', CMap (map (\<lambda>(k, v). (k, CStr v)) m))]
   | BodyRaw t \<Rightarrow> CMap [(''raw'', CStr t)])"

definition deserialize_body :: "content \<Rightarrow> serde_err + body" where
  "deserialize_body c = (case c of
     CMap [] \<Rightarrow> Inl SEmptyMap
   | CMap ((key, v) # rest) \<Rightarrow>
       bind_res
         (if key = ''json'' then bind_res (json_of_content v) (\<lambda>j. Inr (BodyJson j))
          else if key = ''form'' then
            (case v of CMap kvs \<Rightarrow> bind_res (strings_of_map kvs) (\<lambda>m. Inr (BodyForm (bt_extend m [])))
             | _ \<Rightarrow> Inl SInvalidType)
          else if key = ''raw'' then (case v of CStr s \<Rightarrow> Inr (BodyRaw s) | _ \<Rightarrow> Inl SInvalidType)
          else Inl (SUnknownField key))
         (\<lambda>b. if rest \<noteq> [] then Inl SExtraKey else Inr b)
   | _ \<Rightarrow> Inl SInvalidType)"

definition serialize_assertion :: "assertion \<Rightarrow> content" where
  "serialize_assertion a = (case a of AStatus code \<Rightarrow> CMap [(''status'', CInt (int code))])"

definition deserialize_assertion :: "content \<Rightarrow> serde_err + assertion" where
  "deserialize_assertion c = (case c of
     CMap [] \<Rightarrow> Inl SEmptyMap
   | CMap ((key, v) # rest) \<Rightarrow>
       if key = ''status'' then
         (case v of
            CInt i \<Rightarrow> if 0 \<le> i \<and> i \<le> int u16_max
                      then if rest \<noteq> [] then Inl SExtraKey else Inr (AStatus (nat i))
                      else Inl SInvalidType
          | _ \<Rightarrow> Inl SInvalidType)
       else Inl (SUnknownField key)
   | _ \<Rightarrow> Inl SInvalidType)"

definition compare_op_str :: "compare_op \<Rightarrow> string" where
  "compare_op_str p = (case p of
     OpEq \<Rightarrow> ''eq'' | OpNe \<Rightarrow> ''ne'' | OpContains \<Rightarrow> ''contains'' | OpMatches \<Rightarrow> ''matches''
   | OpLt \<Rightarrow> ''lt'' | OpGt \<Rightarrow> ''gt'' | OpLte \<Rightarrow> ''lte'' | OpGte \<Rightarrow> ''gte''
   | OpExists \<Rightarrow> ''exists'' | OpEmpty \<Rightarrow> ''empty'')"

definition all_ops :: "compare_op list" where
  "all_ops = [OpEq, OpNe, OpContains, OpMatches, OpLt, OpGt, OpLte, OpGte, OpExists, OpEmpty]"

definition deserialize_op :: "content \<Rightarrow> serde_err + compare_op" where
  "deserialize_op c =
     (let named = (\<lambda>s. case find (\<lambda>p. compare_op_str p = s) all_ops of
                     Some p \<Rightarrow> Inr p | None \<Rightarrow> Inl (SUnknownField s))
      in case c of
        CStr s \<Rightarrow> named s
      | CMap [(s, CNull)] \<Rightarrow> named s
      | CMap [(s, CMap [])] \<Rightarrow> named s
      | _ \<Rightarrow> Inl SInvalidType)"

fun serialize_condition :: "condition \<Rightarrow> content" where
  "serialize_condition (All v) = CMap [(''all'', CSeq (map serialize_condition v))]"
| "serialize_condition (Any v) = CMap [(''any'', CSeq (map serialize_condition v))]"
| "serialize_condition (Compare left p right) =
     CMap ([(''left'', CStr left), (''op'', CStr (compare_op_str p))]
       @ (case right of Some r \<Rightarrow> [(''right'', CStr r)] | None \<Rightarrow> []))"

record cond_fields =
  cf_left :: "string option"
  cf_op :: "compare_op option"
  cf_right :: "string option"
  cf_all :: "condition list option"
  cf_any :: "condition list option"

definition no_fields :: cond_fields where
  "no_fields = \<lparr>cf_left = None, cf_op = None, cf_right = None, cf_all = None, cf_any = None\<rparr>"

text \<open>The final match of \<^verbatim>\<open>visit_map\<close>.\<close>

definition finish_condition :: "cond_fields \<Rightarrow> serde_err + condition" where
  "finish_condition f = (case (cf_all f, cf_any f, cf_left f) of
     (Some v, None, None) \<Rightarrow>
       if cf_op f \<noteq> None \<or> cf_right f \<noteq> None then Inl (SMixedGroup ''all'') else Inr (All v)
   | (None, Some v, None) \<Rightarrow>
       if cf_op f \<noteq> None \<or> cf_right f \<noteq> None then Inl (SMixedGroup ''any'') else Inr (Any v)
   | (None, None, Some l) \<Rightarrow>
       (case cf_op f of None \<Rightarrow> Inl (SMissingField ''op'') | Some p \<Rightarrow> Inr (Compare l p (cf_right f)))
   | (None, None, None) \<Rightarrow> Inl SNoShape
   | _ \<Rightarrow> Inl SManyShapes)"

fun deserialize_condition :: "content \<Rightarrow> serde_err + condition"
  and deserialize_conditions :: "content list \<Rightarrow> serde_err + condition list"
  and condition_entries :: "(string \<times> content) list \<Rightarrow> cond_fields \<Rightarrow> serde_err + cond_fields" where
  "deserialize_condition (CMap kvs) = bind_res (condition_entries kvs no_fields) finish_condition"
| "deserialize_condition _ = Inl SInvalidType"
| "deserialize_conditions [] = Inr []"
| "deserialize_conditions (c # cs) =
     bind_res (deserialize_condition c) (\<lambda>x. bind_res (deserialize_conditions cs) (\<lambda>xs. Inr (x # xs)))"
| "condition_entries [] f = Inr f"
| "condition_entries ((k, c) # kvs) f =
     (if k = ''all'' then
        if cf_all f \<noteq> None then Inl (SDuplicateField k)
        else (case c of CSeq xs \<Rightarrow>
                bind_res (deserialize_conditions xs) (\<lambda>v. condition_entries kvs (f\<lparr>cf_all := Some v\<rparr>))
              | _ \<Rightarrow> Inl SInvalidType)
      else if k = ''any'' then
        if cf_any f \<noteq> None then Inl (SDuplicateField k)
        else (case c of CSeq xs \<Rightarrow>
                bind_res (deserialize_conditions xs) (\<lambda>v. condition_entries kvs (f\<lparr>cf_any := Some v\<rparr>))
              | _ \<Rightarrow> Inl SInvalidType)
      else if k = ''left'' then
        if cf_left f \<noteq> None then Inl (SDuplicateField k)
        else (case c of CStr s \<Rightarrow> condition_entries kvs (f\<lparr>cf_left := Some s\<rparr>) | _ \<Rightarrow> Inl SInvalidType)
      else if k = ''op'' then
        if cf_op f \<noteq> None then Inl (SDuplicateField k)
        else bind_res (deserialize_op c) (\<lambda>p. condition_entries kvs (f\<lparr>cf_op := Some p\<rparr>))
      else if k = ''right'' then
        if cf_right f \<noteq> None then Inl (SDuplicateField k)
        else (case c of CStr s \<Rightarrow> condition_entries kvs (f\<lparr>cf_right := Some s\<rparr>) | _ \<Rightarrow> Inl SInvalidType)
      else Inl (SUnknownField k))"


subsection \<open>Round trips\<close>

lemma find_op [simp]: "find (\<lambda>p. compare_op_str p = compare_op_str q) all_ops = Some q"
  by (cases q) (simp_all add: all_ops_def compare_op_str_def)

lemma deserialize_op_str [simp]: "deserialize_op (CStr (compare_op_str q)) = Inr q"
  by (simp add: deserialize_op_def)

lemma deserialize_conditions_map:
  "(\<And>c. c \<in> set cs \<Longrightarrow> deserialize_condition (serialize_condition c) = Inr c) \<Longrightarrow>
   deserialize_conditions (map serialize_condition cs) = Inr cs"
  by (induction cs) auto

lemma deserialize_serialize_condition: "deserialize_condition (serialize_condition c) = Inr c"
proof (induction c)
  case (Compare l p r)
  then show ?case by (cases r) (simp_all add: no_fields_def finish_condition_def)
next
  case (All v)
  then show ?case by (simp add: deserialize_conditions_map no_fields_def finish_condition_def)
next
  case (Any v)
  then show ?case by (simp add: deserialize_conditions_map no_fields_def finish_condition_def)
qed

definition fields_of :: "cond_fields \<Rightarrow> string set" where
  "fields_of f = (if cf_all f \<noteq> None then {''all''} else {}) \<union> (if cf_any f \<noteq> None then {''any''} else {})
     \<union> (if cf_left f \<noteq> None then {''left''} else {}) \<union> (if cf_op f \<noteq> None then {''op''} else {})
     \<union> (if cf_right f \<noteq> None then {''right''} else {})"

lemma fields_of_updates:
  "fields_of (f\<lparr>cf_all := Some v\<rparr>) = insert ''all'' (fields_of f)"
  "fields_of (f\<lparr>cf_any := Some v\<rparr>) = insert ''any'' (fields_of f)"
  "fields_of (f\<lparr>cf_left := Some l\<rparr>) = insert ''left'' (fields_of f)"
  "fields_of (f\<lparr>cf_op := Some p\<rparr>) = insert ''op'' (fields_of f)"
  "fields_of (f\<lparr>cf_right := Some l\<rparr>) = insert ''right'' (fields_of f)"
  by (auto simp: fields_of_def)

lemma fields_of_mem:
  "''all'' \<in> fields_of f \<longleftrightarrow> cf_all f \<noteq> None" "''any'' \<in> fields_of f \<longleftrightarrow> cf_any f \<noteq> None"
  "''left'' \<in> fields_of f \<longleftrightarrow> cf_left f \<noteq> None" "''op'' \<in> fields_of f \<longleftrightarrow> cf_op f \<noteq> None"
  "''right'' \<in> fields_of f \<longleftrightarrow> cf_right f \<noteq> None"
  by (auto simp: fields_of_def)

text \<open>One key read: a fresh key, added to the fields.\<close>

lemma condition_entries_Cons:
  assumes "condition_entries ((k, c) # kvs) f = Inr f'"
  shows "\<exists>g. condition_entries kvs g = Inr f' \<and> k \<notin> fields_of f \<and> fields_of g = insert k (fields_of f)"
  using assms
  by (auto simp: bind_res_Inr split: if_splits content.splits)
    (force simp: fields_of_updates fields_of_mem)+

lemma condition_entries_keys:
  "condition_entries kvs f = Inr f' \<Longrightarrow>
   distinct (map fst kvs) \<and> set (map fst kvs) \<inter> fields_of f = {}
   \<and> fields_of f' = fields_of f \<union> set (map fst kvs)"
proof (induction kvs arbitrary: f)
  case Nil
  then show ?case by simp
next
  case (Cons kc kvs)
  obtain k c where kc: "kc = (k, c)" by (cases kc)
  from condition_entries_Cons [OF Cons.prems [unfolded kc]] obtain g where
    g: "condition_entries kvs g = Inr f'" "k \<notin> fields_of f" "fields_of g = insert k (fields_of f)"
    by blast
  from Cons.IH [OF g(1)] g(2,3) show ?case by (auto simp: kc)
qed

definition condition_shapes :: "string set set" where
  "condition_shapes = {{''all''}, {''any''}, {''left'', ''op''}, {''left'', ''op'', ''right''}}"

lemma finish_condition_shape: "finish_condition f = Inr c \<Longrightarrow> fields_of f \<in> condition_shapes"
  by (auto simp: finish_condition_def fields_of_def condition_shapes_def
      split: option.splits if_splits)

text \<open>JSON values that serde can hold: integers in range, finite floats, sorted object keys.\<close>

fun json_ok :: "json \<Rightarrow> bool" where
  "json_ok (JNum (NPos n)) = (n < 2 ^ 64)"
| "json_ok (JNum (NNeg i)) = (- (2 ^ 63) \<le> i \<and> i < 0)"
| "json_ok (JNum (NFloat f)) = f64_finite f"
| "json_ok (JArr xs) = list_all json_ok xs"
| "json_ok (JObj kvs) = (bt_ok kvs \<and> list_all (\<lambda>(k, v). json_ok v) kvs)"
| "json_ok _ = True"

lemma bt_insert_last: "\<forall>x \<in> fst ` set m. x < k \<Longrightarrow> bt_insert k v m = m @ [(k, v)]"
  by (induction k v m rule: bt_insert.induct) auto

lemma bt_extend_sorted: "bt_ok (m @ kvs) \<Longrightarrow> bt_extend kvs m = m @ kvs"
proof (induction kvs arbitrary: m)
  case Nil
  then show ?case by (simp add: bt_extend_def)
next
  case (Cons kv kvs)
  obtain k v where kv: "kv = (k, v)" by (cases kv)
  have "\<forall>x \<in> fst ` set m. x < k"
    using Cons.prems by (auto simp: bt_ok_def kv sorted_wrt_append)
  then have "bt_insert k v m = m @ [kv]" by (simp add: bt_insert_last kv)
  with Cons.IH [of "m @ [kv]"] Cons.prems show ?case by (simp add: bt_extend_def kv)
qed

lemma json_seq_map:
  "(\<And>v. v \<in> set xs \<Longrightarrow> json_of_content (content_of_json v) = Inr v) \<Longrightarrow>
   json_of_seq (map content_of_json xs) = Inr xs"
  by (induction xs) auto

lemma json_map_map:
  "(\<And>k v. (k, v) \<in> set kvs \<Longrightarrow> json_of_content (content_of_json v) = Inr v) \<Longrightarrow>
   json_of_map (map (\<lambda>(k, v). (k, content_of_json v)) kvs) = Inr kvs"
proof (induction kvs)
  case Nil
  then show ?case by simp
next
  case (Cons kv kvs)
  obtain a b where kv: "kv = (a, b)" by (cases kv)
  have "json_of_content (content_of_json b) = Inr b" using Cons.prems [of a b] by (simp add: kv)
  moreover have "json_of_map (map (\<lambda>(k, v). (k, content_of_json v)) kvs) = Inr kvs"
  proof (rule Cons.IH)
    fix k v assume "(k, v) \<in> set kvs"
    then show "json_of_content (content_of_json v) = Inr v" using Cons.prems [of k v] by simp
  qed
  ultimately show ?case by (simp add: kv)
qed

lemma json_roundtrip: "json_ok v \<Longrightarrow> json_of_content (content_of_json v) = Inr v"
proof (induction v rule: json_ok.induct)
  case (4 xs)
  then show ?case by (simp add: json_seq_map list_all_iff)
next
  case (5 kvs)
  then have "json_of_map (map (\<lambda>(k, v). (k, content_of_json v)) kvs) = Inr kvs"
    by (intro json_map_map) (auto simp: list_all_iff)
  then show ?case using 5 bt_extend_sorted [of "[]" kvs] by simp
qed (auto simp: json_of_int_def)

lemma strings_of_map_map: "strings_of_map (map (\<lambda>(k, v). (k, CStr v)) m) = Inr m"
  by (induction m) auto

fun body_ok :: "body \<Rightarrow> bool" where
  "body_ok (BodyJson v) = json_ok v"
| "body_ok (BodyForm m) = bt_ok m"
| "body_ok (BodyRaw t) = True"

lemma deserialize_serialize_body: "body_ok b \<Longrightarrow> deserialize_body (serialize_body b) = Inr b"
  using bt_extend_sorted [of "[]"]
  by (cases b) (auto simp: serialize_body_def deserialize_body_def json_roundtrip strings_of_map_map)

lemma think_sample_range:
  "rng_ok R \<Longrightarrow> think_sample R t r = (d, r') \<Longrightarrow> min_ms t \<le> d \<and> d \<le> max (min_ms t) (max_ms t)"
  using gen_range_in [of R "min_ms t" "max (min_ms t) (max_ms t)" r d r']
  by (auto simp: think_sample_def Let_def max.commute split: if_splits)

subsection \<open>Properties\<close>

text \<open>
  writing a condition and reading it back is the identity for every condition tree, and
  whatever the reader accepts has exactly one of the documented shapes with no key repeated:
  an \<^verbatim>\<open>all\<close> group, an \<^verbatim>\<open>any\<close> group, or a comparison with or without a right side.
\<close>

theorem condition_serde_correct:
  "deserialize_condition (serialize_condition c) = Inr c
   \<and> (deserialize_condition (CMap kvs) = Inr c' \<longrightarrow>
        distinct (map fst kvs) \<and> set (map fst kvs) \<in> condition_shapes)"
proof (intro conjI impI)
  assume "deserialize_condition (CMap kvs) = Inr c'"
  then obtain f where f: "condition_entries kvs no_fields = Inr f" "finish_condition f = Inr c'"
    by (auto simp: bind_res_Inr)
  from condition_entries_keys [OF f(1)] have
    "distinct (map fst kvs)" "fields_of f = set (map fst kvs)"
    by (auto simp: fields_of_def no_fields_def)
  with finish_condition_shape [OF f(2)] show
    "distinct (map fst kvs)" "set (map fst kvs) \<in> condition_shapes" by auto
qed (rule deserialize_serialize_condition)

theorem condition_serde_correct_witness:
  "deserialize_condition (serialize_condition (All [Compare ''a'' OpEq (Some ''1''), Any []]))
     = Inr (All [Compare ''a'' OpEq (Some ''1''), Any []])
   \<and> deserialize_condition (CMap [(''any'', CSeq []), (''left'', CStr [])]) = Inl SManyShapes"
  using condition_serde_correct [of "All [Compare ''a'' OpEq (Some ''1''), Any []]"]
  by (simp add: no_fields_def finish_condition_def)

text \<open>
  a request body and a status assertion survive being written and read back (nested JSON
  with its number kinds and sorted objects, form maps, raw text; every 16-bit status), and a
  map with more than one key is never accepted as a body.
\<close>

theorem body_serde_correct:
  assumes "body_ok b" and "code \<le> u16_max"
  shows "deserialize_body (serialize_body b) = Inr b
    \<and> deserialize_assertion (serialize_assertion (AStatus code)) = Inr (AStatus code)
    \<and> (\<forall>kvs b'. deserialize_body (CMap kvs) = Inr b' \<longrightarrow> length kvs = 1)"
  using assms deserialize_serialize_body
  by (auto simp: serialize_assertion_def deserialize_assertion_def deserialize_body_def bind_res_Inr
      split: list.splits if_splits)

theorem body_serde_correct_witness:
  "deserialize_body (serialize_body (BodyJson (JObj [(''a'', JArr [JNum (NNeg (- 3)), JNull]), (''b'', JStr [])])))
   = Inr (BodyJson (JObj [(''a'', JArr [JNum (NNeg (- 3)), JNull]), (''b'', JStr [])]))"
proof -
  have "body_ok (BodyJson (JObj [(''a'', JArr [JNum (NNeg (- 3)), JNull]), (''b'', JStr [])]))"
    by (simp add: bt_ok_def)
  from body_serde_correct [OF this, of 200] show ?thesis by simp
qed

end
