(* ===== verification/Condition.thy ===== *)
theory Condition
  imports Scenario Template
begin

text \<open>
  \<^verbatim>\<open>engine/src/condition.rs\<close> and \<^verbatim>\<open>select_branch\<close> of \<^verbatim>\<open>engine/src/runner.rs\<close>: evaluation of
  conditions, the choice of a branch, and the explanation a trace records. Regular expressions
  are a parameter: \<open>rx pattern text\<close> is \<open>None\<close> for an invalid pattern.
\<close>

type_synonym regex = "string \<Rightarrow> string \<Rightarrow> bool option"

subsection \<open>Evaluation\<close>

definition compare_f64 :: "compare_op \<Rightarrow> f64 \<Rightarrow> f64 \<Rightarrow> bool" where
  "compare_f64 p a b = (case p of
     OpLt \<Rightarrow> f64_lt a b | OpGt \<Rightarrow> f64_lt b a | OpLte \<Rightarrow> f64_le a b | OpGte \<Rightarrow> f64_le b a
   | _ \<Rightarrow> False)"

definition eval_compare :: "regex \<Rightarrow> string \<Rightarrow> compare_op \<Rightarrow> string option \<Rightarrow> tctx \<Rightarrow> bool" where
  "eval_compare rx left p right ctx =
     (let l = render_lenient left ctx in
      case p of
        OpExists \<Rightarrow> l \<noteq> []
      | OpEmpty \<Rightarrow> l = []
      | _ \<Rightarrow>
        (let r = (case right of Some t \<Rightarrow> render_lenient t ctx | None \<Rightarrow> []) in
         case p of
           OpEq \<Rightarrow> l = r
         | OpNe \<Rightarrow> l \<noteq> r
         | OpContains \<Rightarrow> contains_sub r l
         | OpMatches \<Rightarrow> (case rx r l of Some b \<Rightarrow> b | None \<Rightarrow> False)
         | _ \<Rightarrow> (case (parse_f64 l, parse_f64 r) of
                 (Some a, Some b) \<Rightarrow> compare_f64 p a b
               | _ \<Rightarrow> False)))"

fun eval_condition :: "regex \<Rightarrow> condition \<Rightarrow> tctx \<Rightarrow> bool" where
  "eval_condition rx (All v) ctx = list_all (\<lambda>c. eval_condition rx c ctx) v"
| "eval_condition rx (Any v) ctx = list_ex (\<lambda>c. eval_condition rx c ctx) v"
| "eval_condition rx (Compare left p right) ctx = eval_compare rx left p right ctx"

subsection \<open>Branch selection\<close>

definition elif_label :: "nat \<Rightarrow> string" where
  "elif_label j = ''elif_'' @ nat_str j"

fun select_elif :: "regex \<Rightarrow> tctx \<Rightarrow> nat \<Rightarrow> elif_branch list \<Rightarrow> (step list \<times> string) option" where
  "select_elif rx ctx j [] = None"
| "select_elif rx ctx j (e # es) =
     (if eval_condition rx (elif_cond e) ctx then Some (elif_then e, elif_label j)
      else select_elif rx ctx (j + 1) es)"

definition select_branch ::
  "regex \<Rightarrow> condition \<Rightarrow> step list \<Rightarrow> elif_branch list \<Rightarrow> step list \<Rightarrow> tctx \<Rightarrow> step list \<times> string" where
  "select_branch rx cond thens elifs elses ctx =
     (if eval_condition rx cond ctx then (thens, ''then'')
      else case select_elif rx ctx 0 elifs of
        Some sel \<Rightarrow> sel
      | None \<Rightarrow> if elses = [] then (elses, ''none'') else (elses, ''else''))"

subsection \<open>Explanation\<close>

record leaf_eval =
  le_left :: string
  le_op :: compare_op
  le_right :: "string option"
  le_left_value :: "string option"
  le_right_value :: "string option"
  le_left_unbound :: bool

record branch_eval =
  be_branch :: string
  be_passed :: bool
  be_leaf :: "leaf_eval option"

definition eval_value_cap :: nat where "eval_value_cap = 200"

definition captured :: "string \<Rightarrow> tctx \<Rightarrow> string option" where
  "captured raw ctx =
     (if contains_sub ''${'' raw then None
      else Some (take_chars eval_value_cap (render_lenient raw ctx)))"

definition leaf_eval_of :: "string \<Rightarrow> compare_op \<Rightarrow> string option \<Rightarrow> tctx \<Rightarrow> leaf_eval" where
  "leaf_eval_of left p right ctx =
     (let unbound = snd (render_collecting left ctx []);
          uses_right = (p \<noteq> OpExists \<and> p \<noteq> OpEmpty)
      in \<lparr>le_left = left, le_op = p, le_right = right,
          le_left_value = captured left ctx,
          le_right_value = (if uses_right then Option.bind right (\<lambda>r. captured r ctx) else None),
          le_left_unbound = (unbound \<noteq> [])\<rparr>)"

text \<open>\<^verbatim>\<open>v.iter().find(p).or(v.first())\<close>.\<close>

definition find_or_first :: "('a \<Rightarrow> bool) \<Rightarrow> 'a list \<Rightarrow> 'a option" where
  "find_or_first p v = (case find p v of Some c \<Rightarrow> Some c
     | None \<Rightarrow> (case v of [] \<Rightarrow> None | c # _ \<Rightarrow> Some c))"

lemma find_or_first_mem: "find_or_first p v = Some c \<Longrightarrow> c \<in> set v"
  by (auto simp: find_or_first_def find_Some_iff split: option.splits list.splits)

function deciding_leaf :: "regex \<Rightarrow> tctx \<Rightarrow> condition \<Rightarrow> leaf_eval option" where
  "deciding_leaf rx ctx (Compare left p right) = Some (leaf_eval_of left p right ctx)"
| "deciding_leaf rx ctx (All v) =
     (case find_or_first (\<lambda>c. \<not> eval_condition rx c ctx) v of
        None \<Rightarrow> None | Some c \<Rightarrow> deciding_leaf rx ctx c)"
| "deciding_leaf rx ctx (Any v) =
     (case find_or_first (\<lambda>c. eval_condition rx c ctx) v of
        None \<Rightarrow> None | Some c \<Rightarrow> deciding_leaf rx ctx c)"
  by pat_completeness auto
termination
  by (relation "measure (\<lambda>(rx, ctx, c). size c)")
    (auto dest!: find_or_first_mem simp: less_Suc_eq_le intro: size_list_estimation')

text \<open>The loop of \<^verbatim>\<open>explain_branches\<close> over the labelled conditions.\<close>

fun explain_conds :: "regex \<Rightarrow> tctx \<Rightarrow> (string \<times> condition) list \<Rightarrow> branch_eval list" where
  "explain_conds rx ctx [] = []"
| "explain_conds rx ctx ((branch, cond) # rest) =
     (let passed = eval_condition rx cond ctx;
          entry = \<lparr>be_branch = branch, be_passed = passed, be_leaf = deciding_leaf rx ctx cond\<rparr>
      in if passed then [entry] else entry # explain_conds rx ctx rest)"

fun elif_conds :: "nat \<Rightarrow> elif_branch list \<Rightarrow> (string \<times> condition) list" where
  "elif_conds j [] = []"
| "elif_conds j (e # es) = (elif_label j, elif_cond e) # elif_conds (j + 1) es"

definition explain_branches ::
  "regex \<Rightarrow> condition \<Rightarrow> elif_branch list \<Rightarrow> tctx \<Rightarrow> branch_eval list" where
  "explain_branches rx cond elifs ctx = explain_conds rx ctx ((''then'', cond) # elif_conds 0 elifs)"

subsection \<open>Lemmas\<close>

lemma explain_elifs_selected:
  "select_elif rx ctx j es = Some (steps, label) \<Longrightarrow>
   \<exists>pre e. explain_conds rx ctx (elif_conds j es) = pre @ [e] \<and> be_branch e = label \<and> be_passed e
     \<and> (\<forall>x \<in> set pre. \<not> be_passed x)"
proof (induction es arbitrary: j)
  case Nil
  then show ?case by simp
next
  case (Cons e es)
  show ?case
  proof (cases "eval_condition rx (elif_cond e) ctx")
    case True
    with Cons.prems show ?thesis by (auto simp: Let_def)
  next
    case False
    with Cons.prems Cons.IH [of "j + 1"] obtain pre x where
      "explain_conds rx ctx (elif_conds (j + 1) es) = pre @ [x]" "be_branch x = label" "be_passed x"
      "\<forall>x \<in> set pre. \<not> be_passed x" by auto
    with False show ?thesis
      by (intro exI [of _ "\<lparr>be_branch = elif_label j, be_passed = False,
            be_leaf = deciding_leaf rx ctx (elif_cond e)\<rparr> # pre"] exI [of _ x]) (simp add: Let_def)
  qed
qed

lemma explain_elifs_none:
  "select_elif rx ctx j es = None \<Longrightarrow>
   length (explain_conds rx ctx (elif_conds j es)) = length es
   \<and> (\<forall>x \<in> set (explain_conds rx ctx (elif_conds j es)). \<not> be_passed x)"
  by (induction es arbitrary: j) (auto simp: Let_def split: if_splits)

text \<open>The comparisons of a condition tree.\<close>

fun leaves :: "condition \<Rightarrow> condition list" where
  "leaves (Compare l p r) = [Compare l p r]"
| "leaves (All v) = concat (map leaves v)"
| "leaves (Any v) = concat (map leaves v)"

lemma find_or_first_eval:
  "find_or_first p v = Some c \<Longrightarrow> p c \<longleftrightarrow> list_ex p v"
  by (auto simp: find_or_first_def find_Some_iff find_None_iff list_ex_iff
      split: option.splits list.splits)

lemma deciding_leaf_truth:
  "deciding_leaf rx ctx c = Some l \<Longrightarrow>
   \<exists>left p right. Compare left p right \<in> set (leaves c) \<and> l = leaf_eval_of left p right ctx
     \<and> eval_condition rx (Compare left p right) ctx = eval_condition rx c ctx"
proof (induction rx ctx c rule: deciding_leaf.induct)
  case (1 rx ctx left p right)
  then show ?case by auto
next
  case (2 rx ctx v)
  from "2.prems" obtain c where c: "find_or_first (\<lambda>c. \<not> eval_condition rx c ctx) v = Some c"
    and d: "deciding_leaf rx ctx c = Some l" by (auto split: option.splits)
  have "eval_condition rx c ctx = eval_condition rx (All v) ctx"
    using find_or_first_eval [OF c] by (auto simp: list_ex_iff list_all_iff)
  with "2.IH" [OF c d] find_or_first_mem [OF c] show ?case by fastforce
next
  case (3 rx ctx v)
  from "3.prems" obtain c where c: "find_or_first (\<lambda>c. eval_condition rx c ctx) v = Some c"
    and d: "deciding_leaf rx ctx c = Some l" by (auto split: option.splits)
  have "eval_condition rx c ctx = eval_condition rx (Any v) ctx"
    using find_or_first_eval [OF c] by (auto simp: list_ex_iff)
  with "3.IH" [OF c d] find_or_first_mem [OF c] show ?case by fastforce
qed

text \<open>A template without \<^verbatim>\<open>${\<close> has no environment or system token.\<close>

definition sys_seg :: "seg \<Rightarrow> bool" where
  "sys_seg x = (case x of SSys _ _ \<Rightarrow> True | _ \<Rightarrow> False)"

lemma find_sub_None_drop: "find_sub p s = None \<Longrightarrow> find_sub p (drop n s) = None"
proof (induction s arbitrary: n)
  case Nil
  then show ?case by simp
next
  case (Cons c s)
  then show ?case by (cases n) (auto split: if_splits)
qed

lemma segs_no_sys: "find_sub ''${'' s = None \<Longrightarrow> list_all (\<lambda>x. \<not> sys_seg x) (segs i s)"
proof (induction i s rule: segs.induct)
  case (1 i s)
  show ?case
  proof (cases s rule: remdups_adj.cases)
    case (3 c d r)
    have "find_sub ''${'' (drop n r) = None" "find_sub ''${'' (d # r) = None" for n
      using find_sub_None_drop [OF "1.prems", of "Suc (Suc n)"]
        find_sub_None_drop [OF "1.prems", of 1] by (simp_all add: 3)
    with 1 3 show ?thesis
      by (subst segs.simps) (auto simp: sys_seg_def split: option.splits)
  qed (simp_all add: segs.simps [of i] sys_seg_def)
qed

lemma eval_no_sys:
  "list_all (\<lambda>x. \<not> sys_seg x) xs \<Longrightarrow> vars ctx = vars ctx' \<Longrightarrow>
   eval_segs l ctx xs = eval_segs l ctx' xs"
proof (induction xs)
  case Nil
  then show ?case by simp
next
  case (Cons x xs)
  then show ?case by (cases x) (auto simp: sys_seg_def split: option.splits)
qed

lemma compare_f64_nat:
  assumes "m < 2 ^ 53" and "n < 2 ^ 53"
  defines "a \<equiv> f64_of_mag False (round_mag m 1)" and "b \<equiv> f64_of_mag False (round_mag n 1)"
  shows "f64_lt a b \<longleftrightarrow> m < n" "f64_lt b a \<longleftrightarrow> n < m" "f64_le a b \<longleftrightarrow> m \<le> n" "f64_le b a \<longleftrightarrow> n \<le> m"
proof -
  show lt: "f64_lt a b \<longleftrightarrow> m < n" and gt: "f64_lt b a \<longleftrightarrow> n < m"
    using f64_lt_nat assms by auto
  have nn: "\<not> f64_is_nan (f64_of_mag False (round_mag k 1))" if "k < 2 ^ 53" for k
    using round_mag_small_bound [OF that]
    by (simp add: f64_is_nan_def f64_mag_of_mag f64_inf_mag_def)
  have "f64_le a b \<longleftrightarrow> \<not> f64_lt b a" "f64_le b a \<longleftrightarrow> \<not> f64_lt a b"
    using nn assms by (auto simp: f64_le_def f64_lt_def)
  then show "f64_le a b \<longleftrightarrow> m \<le> n" "f64_le b a \<longleftrightarrow> n \<le> m" using lt gt by auto
qed


lemma explain_branches_selected:
  "case select_branch rx cond thens elifs elses ctx of (steps, label) \<Rightarrow>
     if label \<in> {''none'', ''else''} \<and> \<not> eval_condition rx cond ctx \<and> select_elif rx ctx 0 elifs = None
     then length (explain_branches rx cond elifs ctx) = 1 + length elifs
       \<and> (\<forall>x \<in> set (explain_branches rx cond elifs ctx). \<not> be_passed x)
     else \<exists>pre e. explain_branches rx cond elifs ctx = pre @ [e] \<and> be_branch e = label
       \<and> be_passed e \<and> (\<forall>x \<in> set pre. \<not> be_passed x)"
proof (cases "eval_condition rx cond ctx")
  case True
  then show ?thesis by (simp add: select_branch_def explain_branches_def Let_def)
next
  case False
  show ?thesis
  proof (cases "select_elif rx ctx 0 elifs")
    case None
    with False explain_elifs_none [OF None] show ?thesis
      by (auto simp: select_branch_def explain_branches_def Let_def)
  next
    case (Some sel)
    obtain steps label where sl: "sel = (steps, label)" by (cases sel)
    from explain_elifs_selected [OF Some [unfolded sl]] obtain pre e where
      "explain_conds rx ctx (elif_conds 0 elifs) = pre @ [e]" "be_branch e = label" "be_passed e"
      "\<forall>x \<in> set pre. \<not> be_passed x" by blast
    with False Some sl show ?thesis
      by (auto simp: select_branch_def explain_branches_def Let_def
          intro!: exI [of _ "\<lparr>be_branch = ''then'', be_passed = False, be_leaf = deciding_leaf rx ctx cond\<rparr> # pre"]
            exI [of _ e])
  qed
qed

lemma elif_label_other: "elif_label j \<noteq> ''then''" "elif_label j \<noteq> ''else''" "elif_label j \<noteq> ''none''"
  by (simp_all add: elif_label_def)

lemma select_elif_label: "select_elif rx ctx j es = Some (steps, label) \<Longrightarrow> \<exists>k. label = elif_label k"
  by (induction rx ctx j es rule: select_elif.induct) (auto split: if_splits)

subsection \<open>Properties\<close>

text \<open>
  C4: the trace's explanation of an \<^verbatim>\<open>if\<close> step agrees with the branch the load interpreter
  takes: when a condition decides, the last recorded entry carries the taken label and is the
  only one that passed; when the default is taken (else, or none), every condition is recorded
  and none passed.
\<close>

theorem explain_agrees_with_select:
  "let label = snd (select_branch rx cond thens elifs elses ctx); ex = explain_branches rx cond elifs ctx in
   if label = ''else'' \<or> label = ''none''
   then length ex = 1 + length elifs \<and> filter be_passed ex = []
   else map be_branch (filter be_passed ex) = [label] \<and> be_passed (last ex)"
proof -
  obtain steps label where sb: "select_branch rx cond thens elifs elses ctx = (steps, label)" by fastforce
  have iff: "label \<in> {''none'', ''else''} \<longleftrightarrow>
      \<not> eval_condition rx cond ctx \<and> select_elif rx ctx 0 elifs = None"
    using sb select_elif_label [of rx ctx 0 elifs] elif_label_other
    by (auto simp: select_branch_def split: if_splits option.splits)
  show ?thesis
    using explain_branches_selected [where rx = rx and cond = cond and thens = thens and elifs = elifs
      and elses = elses and ctx = ctx] iff
    by (auto simp: sb Let_def filter_empty_conv split: if_splits)
qed

theorem explain_agrees_with_select_witness:
  "map be_branch (filter be_passed (explain_branches (\<lambda>_ _. None) (Any [])
      [ElifBranch (All []) []] \<lparr>vars = [], env = [], vu_id = 0, iter_id = 0, loop_index = None\<rparr>)) = [''elif_0'']"
proof -
  have "nat_str 0 = ''0''" by code_simp
  then show ?thesis
    using explain_agrees_with_select [of "\<lambda>_ _. None" "Any []" "[]" "[ElifBranch (All []) []]" "[]"
      "\<lparr>vars = [], env = [], vu_id = 0, iter_id = 0, loop_index = None\<rparr>"]
    by (simp add: select_branch_def elif_label_def Let_def)
qed

text \<open>
  the deciding comparison shown for a condition is one of its own comparisons and has the
  same truth value as the whole condition, so it really explains the outcome; and no operand
  containing \<^verbatim>\<open>${\<close> is ever recorded, so what is recorded does not depend on the environment.
\<close>

theorem deciding_leaf_explains:
  "(deciding_leaf rx ctx c = Some l \<longrightarrow>
      (\<exists>left p right. Compare left p right \<in> set (leaves c) \<and> le_left l = left \<and> le_op l = p
        \<and> le_right l = right \<and> eval_compare rx left p right ctx = eval_condition rx c ctx))
   \<and> (captured raw ctx = Some v \<longrightarrow>
        captured raw (ctx\<lparr>env := e', vu_id := u', iter_id := n', loop_index := li'\<rparr>) = Some v)"
proof (intro conjI impI)
  assume "deciding_leaf rx ctx c = Some l"
  from deciding_leaf_truth [OF this] show
    "\<exists>left p right. Compare left p right \<in> set (leaves c) \<and> le_left l = left \<and> le_op l = p
        \<and> le_right l = right \<and> eval_compare rx left p right ctx = eval_condition rx c ctx"
    by (auto simp: leaf_eval_of_def Let_def)
next
  assume a: "captured raw ctx = Some v"
  then have none: "find_sub ''${'' raw = None"
    by (auto simp: captured_def contains_sub_def split: if_splits)
  let ?ctx' = "ctx\<lparr>env := e', vu_id := u', iter_id := n', loop_index := li'\<rparr>"
  have "eval_segs True ctx (segs 0 raw) = eval_segs True ?ctx' (segs 0 raw)"
    using segs_no_sys [OF none] by (intro eval_no_sys) auto
  then have "render_lenient raw ?ctx' = render_lenient raw ctx"
    using a by (simp add: render_lenient_def render_inner_segs)
  then show "captured raw ?ctx' = Some v" using a by (simp add: captured_def split: if_splits)
qed

theorem deciding_leaf_explains_witness:
  "captured ''${TOKEN}'' \<lparr>vars = [], env = [], vu_id = 0, iter_id = 0, loop_index = None\<rparr> = None
   \<and> (\<exists>left p right. Compare left p right \<in> set (leaves (Any [Compare ''x'' OpExists None]))
        \<and> eval_compare (\<lambda>_ _. None) left p right \<lparr>vars = [], env = [], vu_id = 0, iter_id = 0, loop_index = None\<rparr>)"
proof -
  let ?ctx = "\<lparr>vars = [], env = [], vu_id = 0, iter_id = 0, loop_index = None\<rparr>"
  let ?rx = "\<lambda>_ _. None"
  have x: "eval_condition ?rx (Any [Compare ''x'' OpExists None]) ?ctx" by code_simp
  have f: "find_or_first (\<lambda>c. eval_condition ?rx c ?ctx) [Compare ''x'' OpExists None]
      = Some (Compare ''x'' OpExists None)"
    by (auto simp: find_or_first_def split: option.splits)
  have "captured ''${TOKEN}'' ?ctx = None" by (simp add: captured_def contains_sub_def)
  then show ?thesis
    using deciding_leaf_explains [of ?rx ?ctx "Any [Compare ''x'' OpExists None]"
      "leaf_eval_of ''x'' OpExists None ?ctx" "[]" "[]"] f x
    by auto
qed

text \<open>
  numeric comparison is numeric. When both operands render to decimal integers below
  2^53 the four order operators compare the numbers (not the strings), and an operand that
  does not parse makes all four false.
\<close>

theorem numeric_compare_correct:
  assumes "render_lenient left ctx = nat_str m" and "m < 2 ^ 53"
    and "(case right of Some t \<Rightarrow> render_lenient t ctx | None \<Rightarrow> []) = nat_str n" and "n < 2 ^ 53"
  shows "(eval_compare rx left OpLt right ctx \<longleftrightarrow> m < n)
    \<and> (eval_compare rx left OpGt right ctx \<longleftrightarrow> n < m)
    \<and> (eval_compare rx left OpLte right ctx \<longleftrightarrow> m \<le> n)
    \<and> (eval_compare rx left OpGte right ctx \<longleftrightarrow> n \<le> m)
    \<and> (parse_f64 (render_lenient other ctx) = None \<and> p \<in> {OpLt, OpGt, OpLte, OpGte} \<longrightarrow>
         \<not> eval_compare rx other p right ctx)"
  using compare_f64_nat [OF assms(2,4)] assms(1,3)
  by (auto simp: eval_compare_def Let_def parse_f64_nat_str compare_f64_def)

theorem numeric_compare_correct_witness:
  "\<not> eval_compare (\<lambda>_ _. None) ''200'' OpLt (Some ''30'')
     \<lparr>vars = [], env = [], vu_id = 0, iter_id = 0, loop_index = None\<rparr>"
proof -
  let ?c = "\<lparr>vars = [], env = [], vu_id = 0, iter_id = 0, loop_index = None\<rparr>"
  have "render_lenient ''200'' ?c = nat_str 200" "render_lenient ''30'' ?c = nat_str 30" by code_simp+
  then show ?thesis
    using numeric_compare_correct [of "''200''" ?c 200 "Some ''30''" 30 "\<lambda>_ _. None"] by simp
qed

end
