(* ===== verification/Cast.thy ===== *)
theory Cast
  imports Condition
begin

text \<open>
  \<^verbatim>\<open>engine/src/cast.rs\<close>: the typed leaves of a JSON body (\<^verbatim>\<open>{{var:num}}\<close>, \<^verbatim>\<open>${VAR:json}\<close>).
  \<open>from_json\<close> is \<^verbatim>\<open>serde_json::from_str\<close>.
\<close>

datatype cast = CastStr | CastNum | CastBool | CastJson

definition cast_guard_flow :: "string \<Rightarrow> bool" where
  "cast_guard_flow i = (\<not> contains_sub ''{{'' i \<and> \<not> contains_sub ''}}'' i)"

definition cast_guard_env :: "string \<Rightarrow> bool" where
  "cast_guard_env i = (brace_o \<notin> set i \<and> brace_c \<notin> set i \<and> dollar \<notin> set i)"

definition cast_parts :: "string \<Rightarrow> (string \<times> string \<times> string) option" where
  "cast_parts s =
     (let t = trim s in
      case Option.bind (strip_prefix ''{{'' t) (strip_suffix ''}}'') of
        Some i \<Rightarrow> if cast_guard_flow i then Some (''{{'', ''}}'', i) else None
      | None \<Rightarrow>
        (case Option.bind (strip_prefix ''${'' t) (strip_suffix ''}'') of
           Some i \<Rightarrow> if cast_guard_env i then Some (''${'', ''}'', i) else None
         | None \<Rightarrow> None))"

definition cast_keyword :: "string \<Rightarrow> cast option" where
  "cast_keyword kw =
     (let k = trim kw in
      if k = ''str'' then Some CastStr else if k = ''num'' then Some CastNum
      else if k = ''bool'' then Some CastBool else if k = ''json'' then Some CastJson else None)"

definition parse_cast_leaf :: "string \<Rightarrow> (string \<times> cast) option" where
  "parse_cast_leaf s = (case cast_parts s of
     None \<Rightarrow> None
   | Some (op, cl, inner) \<Rightarrow>
     (case rsplit_once CHR '':'' inner of
        None \<Rightarrow> None
      | Some (name, kw) \<Rightarrow>
        (case cast_keyword kw of
           None \<Rightarrow> None
         | Some c \<Rightarrow> Some (op @ trim name @ cl, c))))"

type_synonym json_reader = "string \<Rightarrow> json option"

definition coerce_num :: "json_reader \<Rightarrow> string \<Rightarrow> json option" where
  "coerce_num from_json v = (case from_json v of Some (JNum n) \<Rightarrow> Some (JNum n) | _ \<Rightarrow> None)"

definition coerce_bool :: "string \<Rightarrow> json option" where
  "coerce_bool v = (if v = ''true'' then Some (JBool True)
     else if v = ''false'' then Some (JBool False) else None)"

definition coerce_json :: "json_reader \<Rightarrow> string \<Rightarrow> json option" where
  "coerce_json from_json v = from_json v"

definition coerce :: "json_reader \<Rightarrow> cast \<Rightarrow> string \<Rightarrow> json option" where
  "coerce from_json c v = (case c of
     CastStr \<Rightarrow> Some (JStr v) | CastNum \<Rightarrow> coerce_num from_json v
   | CastBool \<Rightarrow> coerce_bool v | CastJson \<Rightarrow> coerce_json from_json v)"

definition cast_name :: "cast \<Rightarrow> string" where
  "cast_name c = (case c of CastStr \<Rightarrow> ''str'' | CastNum \<Rightarrow> ''num''
     | CastBool \<Rightarrow> ''bool'' | CastJson \<Rightarrow> ''json'')"

subsection \<open>A bare token is one token\<close>

lemma trim_start_subset: "set (trim_start s) \<subseteq> set s"
  by (induction s rule: trim_start.induct) auto

lemma trim_end_rev_subset: "set (trim_end_rev s) \<subseteq> set s"
  by (induction s rule: trim_end_rev.induct) auto

lemma trim_subset: "set (trim s) \<subseteq> set s"
  using trim_start_subset [of s] trim_end_rev_subset [of "rev (trim_start s)"]
  by (auto simp: trim_def trim_end_def)

lemma position_append: "x \<notin> set n \<Longrightarrow> position (\<lambda>c. c = x) (n @ [x]) = Some (length n)"
  by (induction n) auto

lemma segs_env_token:
  "brace_c \<notin> set n \<Longrightarrow> is_utf8 n \<Longrightarrow> segs 0 (''${'' @ n @ ''}'') = [SSys (fst (sys_parts n)) (snd (sys_parts n))]"
  using position_append [of brace_c n]
  by (cases n) (simp_all add: segs.simps [of 0] segs.simps [of _ "[]"] del: is_utf8.simps(2) split: prod.splits)

lemma strip_both: "Option.bind (strip_prefix p t) (strip_suffix q) = Some x \<longleftrightarrow> t = p @ x @ q"
  by (auto simp: bind_eq_Some_conv strip_prefix_Some strip_suffix_Some)

lemma cast_parts_Some:
  "cast_parts s = Some (op, cl, i) \<longleftrightarrow>
     op = ''{{'' \<and> cl = ''}}'' \<and> trim s = ''{{'' @ i @ ''}}'' \<and> cast_guard_flow i
   \<or> op = ''${'' \<and> cl = ''}'' \<and> trim s = ''${'' @ i @ ''}'' \<and> cast_guard_env i"
proof (cases "Option.bind (strip_prefix ''{{'' (trim s)) (strip_suffix ''}}'')")
  case (Some x)
  then have "trim s = ''{{'' @ x @ ''}}''" by (simp only: strip_both)
  with Some show ?thesis by (auto simp: cast_parts_def Let_def)
next
  case None
  then have flow: "trim s \<noteq> ''{{'' @ x @ ''}}''" for x by (metis strip_both option.distinct(1))
  show ?thesis
  proof (cases "Option.bind (strip_prefix ''${'' (trim s)) (strip_suffix ''}'')")
    case (Some x)
    then have "trim s = ''${'' @ x @ ''}''" by (simp only: strip_both)
    with None Some show ?thesis by (auto simp: cast_parts_def Let_def)
  next
    case none: None
    then have "trim s \<noteq> ''${'' @ x @ ''}''" for x by (metis strip_both option.distinct(1))
    with None none flow show ?thesis by (simp add: cast_parts_def Let_def)
  qed
qed

lemma cast_keyword_Some:
  "cast_keyword kw = Some c \<longleftrightarrow>
     (trim kw, c) \<in> {(''str'', CastStr), (''num'', CastNum), (''bool'', CastBool), (''json'', CastJson)}"
  by (auto simp: cast_keyword_def Let_def)

lemma parse_cast_leaf_Some:
  "parse_cast_leaf s = Some (bare, c) \<longleftrightarrow>
     (\<exists>op cl name kw. cast_parts s = Some (op, cl, name @ CHR '':'' # kw) \<and> CHR '':'' \<notin> set kw
        \<and> bare = op @ trim name @ cl \<and> cast_keyword kw = Some c)"
proof
  assume "parse_cast_leaf s = Some (bare, c)"
  then show "\<exists>op cl name kw. cast_parts s = Some (op, cl, name @ CHR '':'' # kw) \<and> CHR '':'' \<notin> set kw
        \<and> bare = op @ trim name @ cl \<and> cast_keyword kw = Some c"
    by (auto simp: parse_cast_leaf_def rsplit_once_Some split: option.splits) blast
next
  assume "\<exists>op cl name kw. cast_parts s = Some (op, cl, name @ CHR '':'' # kw) \<and> CHR '':'' \<notin> set kw
        \<and> bare = op @ trim name @ cl \<and> cast_keyword kw = Some c"
  then obtain op cl name kw where p: "cast_parts s = Some (op, cl, name @ CHR '':'' # kw)" "CHR '':'' \<notin> set kw"
    "bare = op @ trim name @ cl" "cast_keyword kw = Some c"
    by blast
  have "rsplit_once CHR '':'' (name @ CHR '':'' # kw) = Some (name, kw)" using p(2) by (simp add: rsplit_once_Some)
  then show "parse_cast_leaf s = Some (bare, c)" using p by (simp add: parse_cast_leaf_def)
qed

lemma find_pair_end:
  "find_sub ''}}'' n = None \<Longrightarrow> \<forall>p. n \<noteq> p @ [brace_c] \<Longrightarrow> find_sub ''}}'' (n @ brace_c # brace_c # r) = Some (length n)"
proof (induction n)
  case Nil
  then show ?case by simp
next
  case (Cons c n)
  then have "find_sub ''}}'' n = None" by (auto split: if_splits)
  moreover have "\<forall>p. n \<noteq> p @ [brace_c]" using Cons.prems(2) by (metis append_Cons)
  moreover have "\<not> (c = brace_c \<and> (\<exists>t. n = brace_c # t))"
    using Cons.prems(1) by (auto split: if_splits)
  moreover have "c = brace_c \<Longrightarrow> n \<noteq> []" using Cons.prems(2) by auto
  ultimately show ?case using Cons.IH by (cases n) auto
qed

lemma segs_flow_odd:
  "find_sub ''}}'' m = None \<Longrightarrow> \<forall>p. m \<noteq> p @ [brace_c] \<Longrightarrow>
   \<not> (\<exists>tok. segs 0 (''{{'' @ m @ ''}}}'') = [tok] \<and> closed_seg tok)"
  using find_pair_end [of m "[brace_c]"]
  by (cases m) (simp_all add: segs.simps [of 0] segs.simps [of _ "[brace_c]"] closed_seg_def del: is_utf8.simps(2))

lemma segs_flow_token:
  "find_sub ''}}'' n = None \<Longrightarrow> \<forall>p. n \<noteq> p @ [brace_c] \<Longrightarrow> is_utf8 n \<Longrightarrow>
   segs 0 (''{{'' @ n @ ''}}'') = [SVar (trim n)]"
  using find_pair_end [of n "[]"]
  by (cases n) (simp_all add: segs.simps [of 0] segs.simps [of _ "[]"] del: is_utf8.simps(2))

lemma find_pair_snoc:
  assumes "find_sub ''}}'' (m @ [brace_c]) = None"
  shows "find_sub ''}}'' m = None" "\<forall>q. m \<noteq> q @ [brace_c]"
proof -
  have k: "m @ [brace_c] \<noteq> x @ ''}}'' @ y" for x y
    using assms by (metis contains_sub_def contains_sub_iff)
  have "\<not> contains_sub ''}}'' m"
  proof
    assume "contains_sub ''}}'' m"
    then obtain x y where "m = x @ ''}}'' @ y" by (auto simp: contains_sub_iff)
    then show False using k [of x "y @ [brace_c]"] by simp
  qed
  then show "find_sub ''}}'' m = None" by (simp add: contains_sub_def)
  show "\<forall>q. m \<noteq> q @ [brace_c]" using k [of _ "[]"] by fastforce
qed

lemma find_pair_trim: "cast_guard_flow (n @ r) \<Longrightarrow> find_sub ''}}'' (trim n) = None"
proof (rule ccontr)
  assume g: "cast_guard_flow (n @ r)" and "find_sub ''}}'' (trim n) \<noteq> None"
  then obtain x y where xy: "trim n = x @ ''}}'' @ y"
    using contains_sub_iff by (metis contains_sub_def)
  obtain a b where inf: "n = a @ trim n @ b" using trim_infix by blast
  have "n @ r = (a @ x) @ ''}}'' @ y @ b @ r" by (subst inf, subst xy) simp
  then show False using g unfolding cast_guard_flow_def contains_sub_iff by blast
qed

lemma no_odd_end:
  assumes "\<forall>q. n \<noteq> q @ [brace_c]" and "cl = ''}}'' \<or> cl = ''}''"
  shows "strip_suffix ''}}}'' (c # brace_o # n @ cl) = None"
proof -
  have "strip_suffix ''}}}'' (c # brace_o # n @ cl) \<noteq> Some t" for t
  proof
    assume "strip_suffix ''}}}'' (c # brace_o # n @ cl) = Some t"
    then have "c # brace_o # n @ cl = t @ ''}}}''" by (simp only: strip_suffix_Some)
    from arg_cong [OF this, of rev] show False using assms
      by (cases n rule: rev_cases) auto
  qed
  then show ?thesis by (cases "strip_suffix ''}}}'' (c # brace_o # n @ cl)") auto
qed

lemma bare_token:
  assumes "parse_cast_leaf s = Some (bare, c)" and "is_utf8 bare"
  shows "(\<exists>tok. segs 0 bare = [tok] \<and> closed_seg tok) \<longleftrightarrow> strip_suffix ''}}}'' bare = None"
proof -
  obtain op cl name kw where p: "cast_parts s = Some (op, cl, name @ CHR '':'' # kw)" "bare = op @ trim name @ cl"
    using assms(1) by (auto simp: parse_cast_leaf_Some)
  consider "op = ''{{''" "cl = ''}}''" "cast_guard_flow (name @ CHR '':'' # kw)"
    | "op = ''${''" "cl = ''}''" "cast_guard_env (name @ CHR '':'' # kw)"
    using p(1) by (auto simp: cast_parts_Some)
  then show ?thesis
  proof cases
    case 1
    have n: "find_sub ''}}'' (trim name) = None" by (rule find_pair_trim [OF 1(3)])
    have u: "is_utf8 (trim name)"
      using utf8_token(1) [of "[]" brace_o _ "trim name" "[brace_c]"] assms(2) p(2) 1(1,2) by simp
    show ?thesis
    proof (cases "\<exists>m. trim name = m @ [brace_c]")
      case True
      then obtain m where m: "trim name = m @ [brace_c]" by blast
      note nm = find_pair_snoc [OF n [unfolded m]]
      have "bare = ''{{'' @ m @ ''}}}''" using p(2) 1 m by simp
      moreover have "strip_suffix ''}}}'' (''{{'' @ m @ ''}}}'') = Some (''{{'' @ m)"
        by (simp add: strip_suffix_Some)
      ultimately show ?thesis using segs_flow_odd [OF nm] by simp
    next
      case False
      then have nm: "\<forall>q. trim name \<noteq> q @ [brace_c]" by blast
      then have "strip_suffix ''}}}'' bare = None" using no_odd_end [of "trim name" cl brace_o] p(2) 1(1,2) by simp
      then show ?thesis using segs_flow_token [OF n nm u] p(2) 1 by (simp add: closed_seg_def)
    qed
  next
    case 2
    then have nb: "brace_c \<notin> set (trim name)" using trim_subset [of name] by (auto simp: cast_guard_env_def)
    have u: "is_utf8 (trim name)"
      using utf8_token(1) [of "[]" dollar _ "trim name" "[]"] assms(2) p(2) 2(1,2) by simp
    have "\<forall>q. trim name \<noteq> q @ [brace_c]" using nb by auto
    then have "strip_suffix ''}}}'' bare = None" using no_odd_end [of "trim name" cl dollar] p(2) 2(1,2) by simp
    then show ?thesis using segs_env_token [OF nb u] p(2) 2 by (simp add: closed_seg_def)
  qed
qed

lemma cast_leaf_iff:
  "parse_cast_leaf s = Some (bare, c) \<longleftrightarrow>
      (\<exists>name kw inner. inner = name @ '':'' @ kw \<and> CHR '':'' \<notin> set kw
        \<and> (trim kw, c) \<in> {(''str'', CastStr), (''num'', CastNum), (''bool'', CastBool), (''json'', CastJson)}
        \<and> (trim s = ''{{'' @ inner @ ''}}'' \<and> \<not> contains_sub ''{{'' inner \<and> \<not> contains_sub ''}}'' inner
             \<and> bare = ''{{'' @ trim name @ ''}}''
           \<or> trim s = ''${'' @ inner @ ''}'' \<and> set inner \<inter> {brace_o, brace_c, dollar} = {}
             \<and> bare = ''${'' @ trim name @ ''}''))"
proof
  assume "parse_cast_leaf s = Some (bare, c)"
  then obtain op cl name kw where p: "cast_parts s = Some (op, cl, name @ CHR '':'' # kw)" "CHR '':'' \<notin> set kw"
    "bare = op @ trim name @ cl" "cast_keyword kw = Some c"
    by (auto simp: parse_cast_leaf_Some)
  then show "(\<exists>name kw inner. inner = name @ '':'' @ kw \<and> CHR '':'' \<notin> set kw
        \<and> (trim kw, c) \<in> {(''str'', CastStr), (''num'', CastNum), (''bool'', CastBool), (''json'', CastJson)}
        \<and> (trim s = ''{{'' @ inner @ ''}}'' \<and> \<not> contains_sub ''{{'' inner \<and> \<not> contains_sub ''}}'' inner
             \<and> bare = ''{{'' @ trim name @ ''}}''
           \<or> trim s = ''${'' @ inner @ ''}'' \<and> set inner \<inter> {brace_o, brace_c, dollar} = {}
             \<and> bare = ''${'' @ trim name @ ''}''))"
  proof (intro exI conjI)
    show "name @ CHR '':'' # kw = name @ '':'' @ kw" by simp
    show "CHR '':'' \<notin> set kw" by (rule p(2))
    show "(trim kw, c) \<in> {(''str'', CastStr), (''num'', CastNum), (''bool'', CastBool), (''json'', CastJson)}"
      using p(4) by (simp only: cast_keyword_Some)
    let ?i = "name @ CHR '':'' # kw"
    show "trim s = ''{{'' @ ?i @ ''}}'' \<and> \<not> contains_sub ''{{'' ?i \<and> \<not> contains_sub ''}}'' ?i
             \<and> bare = ''{{'' @ trim name @ ''}}''
           \<or> trim s = ''${'' @ ?i @ ''}'' \<and> set ?i \<inter> {brace_o, brace_c, dollar} = {}
             \<and> bare = ''${'' @ trim name @ ''}''"
      using p(1) unfolding p(3) cast_parts_Some cast_guard_flow_def cast_guard_env_def by auto
  qed
next
  assume "(\<exists>name kw inner. inner = name @ '':'' @ kw \<and> CHR '':'' \<notin> set kw
        \<and> (trim kw, c) \<in> {(''str'', CastStr), (''num'', CastNum), (''bool'', CastBool), (''json'', CastJson)}
        \<and> (trim s = ''{{'' @ inner @ ''}}'' \<and> \<not> contains_sub ''{{'' inner \<and> \<not> contains_sub ''}}'' inner
             \<and> bare = ''{{'' @ trim name @ ''}}''
           \<or> trim s = ''${'' @ inner @ ''}'' \<and> set inner \<inter> {brace_o, brace_c, dollar} = {}
             \<and> bare = ''${'' @ trim name @ ''}''))"
  then obtain name kw inner where p: "inner = name @ '':'' @ kw" "CHR '':'' \<notin> set kw" "cast_keyword kw = Some c"
    and f: "trim s = ''{{'' @ inner @ ''}}'' \<and> \<not> contains_sub ''{{'' inner \<and> \<not> contains_sub ''}}'' inner
             \<and> bare = ''{{'' @ trim name @ ''}}''
           \<or> trim s = ''${'' @ inner @ ''}'' \<and> set inner \<inter> {brace_o, brace_c, dollar} = {}
             \<and> bare = ''${'' @ trim name @ ''}''"
    unfolding cast_keyword_Some by blast
  from f have "\<exists>op cl. cast_parts s = Some (op, cl, inner) \<and> bare = op @ trim name @ cl"
    by (auto simp: cast_parts_Some cast_guard_flow_def cast_guard_env_def)
  then show "parse_cast_leaf s = Some (bare, c)" using p by (auto simp: parse_cast_leaf_Some)
qed

text \<open>
  C5: which leaves are casts, what they are rewritten to and what they yield. A leaf is a cast
  exactly when, without surrounding white space, it is \<^verbatim>\<open>{{name:kw}}\<close> without a doubled brace
  inside, or \<^verbatim>\<open>${name:kw}\<close> without a brace or dollar inside, where \<open>kw\<close> follows the last colon and
  is one of \<^verbatim>\<open>str\<close>, \<^verbatim>\<open>num\<close>, \<^verbatim>\<open>bool\<close>, \<^verbatim>\<open>json\<close>, which stand for the four casts; it is rewritten to
  the token of the trimmed name. The rewritten text is a single complete template token exactly
  when it does not end in three closing braces: the flow guard lets \<^verbatim>\<open>{{a}:num}}\<close> through, which
  becomes a token followed by a literal. A string cast keeps the text, a numeric one gives the JSON
  number the text parses to and nothing for any other value, a boolean one accepts exactly
  \<^verbatim>\<open>true\<close> and \<^verbatim>\<open>false\<close>, and a JSON one gives whatever the text parses to.
\<close>

theorem cast_leaf_single_token:
  "(parse_cast_leaf s = Some (bare, c) \<longleftrightarrow>
      (\<exists>name kw inner. inner = name @ '':'' @ kw \<and> CHR '':'' \<notin> set kw
        \<and> (trim kw, c) \<in> {(''str'', CastStr), (''num'', CastNum), (''bool'', CastBool), (''json'', CastJson)}
        \<and> (trim s = ''{{'' @ inner @ ''}}'' \<and> \<not> contains_sub ''{{'' inner \<and> \<not> contains_sub ''}}'' inner
             \<and> bare = ''{{'' @ trim name @ ''}}''
           \<or> trim s = ''${'' @ inner @ ''}'' \<and> set inner \<inter> {brace_o, brace_c, dollar} = {}
             \<and> bare = ''${'' @ trim name @ ''}'')))
    \<and> (parse_cast_leaf s = Some (bare, c) \<and> is_utf8 bare \<longrightarrow>
         ((\<exists>tok. segs 0 bare = [tok] \<and> closed_seg tok) \<longleftrightarrow> strip_suffix ''}}}'' bare = None))
    \<and> parse_cast_leaf ''{{a}:num}}'' = Some (''{{a}}}'', CastNum)
    \<and> coerce from_json CastStr v = Some (JStr v)
    \<and> (coerce from_json CastNum v = Some j \<longleftrightarrow> from_json v = Some j \<and> (\<exists>n. j = JNum n))
    \<and> (coerce from_json CastBool v = Some j \<longleftrightarrow> (v, j) \<in> {(''true'', JBool True), (''false'', JBool False)})
    \<and> coerce from_json CastJson v = from_json v"
proof (intro conjI impI cast_leaf_iff)
  show "(\<exists>tok. segs 0 bare = [tok] \<and> closed_seg tok) \<longleftrightarrow> strip_suffix ''}}}'' bare = None"
    if "parse_cast_leaf s = Some (bare, c) \<and> is_utf8 bare" using that by (elim conjE) (rule bare_token)
  show "parse_cast_leaf ''{{a}:num}}'' = Some (''{{a}}}'', CastNum)" by code_simp
qed (auto simp: coerce_def coerce_num_def coerce_bool_def coerce_json_def split: option.splits json.splits)

theorem cast_leaf_single_token_witness:
  "parse_cast_leaf '' {{ n :num}} '' = Some (''{{n}}'', CastNum)
   \<and> (\<exists>tok. segs 0 ''{{n}}'' = [tok] \<and> closed_seg tok)"
proof -
  have p: "parse_cast_leaf '' {{ n :num}} '' = Some (''{{n}}'', CastNum)" "is_utf8 ''{{n}}''"
    "strip_suffix ''}}}'' ''{{n}}'' = None"
    by code_simp+
  show ?thesis using cast_leaf_single_token [of "'' {{ n :num}} ''" "''{{n}}''" CastNum] p by blast
qed

end
