(* ===== verification/Extract.thy ===== *)
theory Extract
  imports Scenario Engine_Error
begin

text \<open>
  \<^verbatim>\<open>engine/src/extract.rs\<close>: extraction of variables from a response, with the optional base64
  or JWT decoding, and the allow-list of cheap JSONPaths. JSON parsing, JSONPath, base64 and
  JSON printing are the fields of \<open>extract_ops\<close>.
\<close>

subsection \<open>Library operations\<close>

text \<open>
  \<open>xo_parse_json\<close> returns the parser's rendering of its error; \<open>xo_jsonpath\<close> is \<open>None\<close> for a
  path that does not parse, else the query; the decoders are unpadded.
\<close>

record extract_ops =
  xo_parse_json :: "string \<Rightarrow> string + json"
  xo_jsonpath :: "string \<Rightarrow> (json \<Rightarrow> json list) option"
  xo_json_show :: "json \<Rightarrow> string"
  xo_base64_std :: "string \<Rightarrow> string option"
  xo_base64_url :: "string \<Rightarrow> string option"

record response_facts =
  rf_status :: nat
  rf_headers :: "(string \<times> string) list"
  rf_set_cookies :: "string list"
  rf_body :: string

definition first :: "'a list \<Rightarrow> 'a option" where
  "first xs = (case xs of [] \<Rightarrow> None | x # _ \<Rightarrow> Some x)"

definition jsonpath_first :: "extract_ops \<Rightarrow> json \<Rightarrow> string \<Rightarrow> json option" where
  "jsonpath_first X j path = (case xo_jsonpath X path of None \<Rightarrow> None | Some q \<Rightarrow> first (q j))"

definition jsonpath_is_valid :: "extract_ops \<Rightarrow> string \<Rightarrow> bool" where
  "jsonpath_is_valid X path = (xo_jsonpath X path \<noteq> None)"

definition stringify :: "extract_ops \<Rightarrow> json \<Rightarrow> string" where
  "stringify X v = (case v of
     JStr s \<Rightarrow> s
   | JNull \<Rightarrow> []
   | JNum (NPos n) \<Rightarrow> nat_str n
   | JNum (NNeg i) \<Rightarrow> int_str i
   | JBool b \<Rightarrow> if b then ''true'' else ''false''
   | other \<Rightarrow> xo_json_show X other)"

definition eq_ignore_ascii_case :: "string \<Rightarrow> string \<Rightarrow> bool" where
  "eq_ignore_ascii_case a b = (ascii_lower a = ascii_lower b)"

definition parse_cookie_value :: "string \<Rightarrow> string \<Rightarrow> string option" where
  "parse_cookie_value set_cookie name =
     (let fst_part = trim (hd (split_on CHR '';'' set_cookie)) in
      case split_once CHR ''='' fst_part of
        None \<Rightarrow> None
      | Some (k, v) \<Rightarrow> if trim k = name then Some (trim v) else None)"

subsection \<open>Decoding\<close>

datatype base64_text_error = NotBase64 | NotUtf8

definition trim_end_eq :: "string \<Rightarrow> string" where
  "trim_end_eq s = rev (dropWhile (\<lambda>c. c = CHR ''='') (rev s))"

definition decode_base64_text :: "extract_ops \<Rightarrow> string \<Rightarrow> base64_text_error + string" where
  "decode_base64_text X s =
     (let t = trim_end_eq (trim s);
          url_safe = (CHR ''-'' \<in> set t \<or> CHR ''_'' \<in> set t);
          standard = (CHR ''+'' \<in> set t \<or> CHR ''/'' \<in> set t)
      in if url_safe \<and> standard then Inl NotBase64
         else case (if url_safe then xo_base64_url X t else xo_base64_std X t) of
           None \<Rightarrow> Inl NotBase64
         | Some bytes \<Rightarrow> if is_utf8 bytes then Inr bytes else Inl NotUtf8)"

text \<open>\<^verbatim>\<open>t.get(..7)\<close> is \<open>None\<close> when 7 is past the end or inside a character.\<close>

definition get_prefix :: "nat \<Rightarrow> string \<Rightarrow> string option" where
  "get_prefix n t = (if n \<le> length t \<and> (n < length t \<longrightarrow> \<not> cont_byte (t ! n))
     then Some (take n t) else None)"

definition jwt_payload :: "string \<Rightarrow> string option" where
  "jwt_payload s =
     (let t0 = trim s;
          t = (case get_prefix 7 t0 of
                 Some p \<Rightarrow> if eq_ignore_ascii_case p ''bearer '' then trim_start (drop 7 t0) else t0
               | None \<Rightarrow> t0)
      in case split_on CHR ''.'' t of [_, payload, _] \<Rightarrow> Some payload | _ \<Rightarrow> None)"

definition post_process ::
  "extract_ops \<Rightarrow> string \<Rightarrow> string \<Rightarrow> decode option \<Rightarrow> string option \<Rightarrow> string res" where
  "post_process X var raw decode claim =
     (let fail = (\<lambda>reason. Inl (ExtractFailed (var @ '': '' @ reason))) in
      case decode of
        None \<Rightarrow> (case claim of Some _ \<Rightarrow> fail ''claim requires decode'' | None \<Rightarrow> Inr raw)
      | Some d \<Rightarrow>
        (case (case d of Base64 \<Rightarrow> Some raw | Jwt \<Rightarrow> jwt_payload raw) of
           None \<Rightarrow> fail ''not a JWT (expected 3 segments)''
         | Some segment \<Rightarrow>
           (case decode_base64_text X segment of
              Inl NotBase64 \<Rightarrow> fail ''not base64''
            | Inl NotUtf8 \<Rightarrow> fail ''not UTF-8 text''
            | Inr text \<Rightarrow>
              if d = Base64 \<and> claim = None then Inr text
              else case xo_parse_json X text of
                Inl _ \<Rightarrow> fail ''decoded value is not JSON''
              | Inr j \<Rightarrow>
                (case claim of
                   None \<Rightarrow> Inr text
                 | Some cl \<Rightarrow>
                   (case xo_jsonpath X cl of
                      None \<Rightarrow> fail (''invalid claim path: '' @ cl)
                    | Some q \<Rightarrow>
                      (case first (q j) of
                         None \<Rightarrow> fail (''claim not found: '' @ cl)
                       | Some v \<Rightarrow> Inr (stringify X v)))))))"

subsection \<open>Evaluation of the extract list\<close>

fun find_cookie :: "string list \<Rightarrow> string \<Rightarrow> string option" where
  "find_cookie [] name = None"
| "find_cookie (sc # scs) name =
     (case parse_cookie_value sc name of Some v \<Rightarrow> Some v | None \<Rightarrow> find_cookie scs name)"

definition find_header :: "(string \<times> string) list \<Rightarrow> string \<Rightarrow> string option" where
  "find_header hs name =
     map_option snd (find (\<lambda>(k, _). eq_ignore_ascii_case k name) hs)"

text \<open>One extract; \<open>cache\<close> is the body parsed by an earlier one.\<close>

definition body_json_of ::
  "extract_ops \<Rightarrow> response_facts \<Rightarrow> json option \<Rightarrow> json res" where
  "body_json_of X facts cache = (case cache of
     Some j \<Rightarrow> Inr j
   | None \<Rightarrow> (case xo_parse_json X (rf_body facts) of
       Inl e \<Rightarrow> Inl (ExtractFailed (''body not JSON: '' @ e)) | Inr j \<Rightarrow> Inr j))"

definition extract_one ::
  "extract_ops \<Rightarrow> response_facts \<Rightarrow> json option \<Rightarrow> extract_spec \<Rightarrow> (string \<times> json option) res" where
  "extract_one X facts cache e = (case e of
     ExBody var path decode claim \<Rightarrow>
       bind_res (body_json_of X facts cache) (\<lambda>j.
         case jsonpath_first X j path of
           None \<Rightarrow> Inl (ExtractFailed (''no match: '' @ path))
         | Some v \<Rightarrow> bind_res (post_process X var (stringify X v) decode claim) (\<lambda>s. Inr (s, Some j)))
   | ExHeader var name decode claim \<Rightarrow>
       (case find_header (rf_headers facts) name of
          None \<Rightarrow> Inl (ExtractFailed (''no header: '' @ name))
        | Some v \<Rightarrow> bind_res (post_process X var v decode claim) (\<lambda>s. Inr (s, cache)))
   | ExCookie var name decode claim \<Rightarrow>
       (case find_cookie (rf_set_cookies facts) name of
          None \<Rightarrow> Inl (ExtractFailed (''no cookie: '' @ name))
        | Some v \<Rightarrow> bind_res (post_process X var v decode claim) (\<lambda>s. Inr (s, cache)))
   | ExStatus var \<Rightarrow> Inr (nat_str (rf_status facts), cache))"

fun evaluate_loop ::
  "extract_ops \<Rightarrow> response_facts \<Rightarrow> json option \<Rightarrow> extract_spec list
    \<Rightarrow> (string, string) btree_map \<Rightarrow> (string, string) btree_map res" where
  "evaluate_loop X facts cache [] out = Inr out"
| "evaluate_loop X facts cache (e # es) out =
     bind_res (extract_one X facts cache e) (\<lambda>(v, cache').
       evaluate_loop X facts cache' es (bt_insert (extract_var e) v out))"

definition evaluate :: "extract_ops \<Rightarrow> extract_spec list \<Rightarrow> response_facts \<Rightarrow> (string, string) btree_map res" where
  "evaluate X es facts = evaluate_loop X facts None es []"

subsection \<open>Cheap JSONPaths\<close>

text \<open>
  The lexer works on characters; every character from U+0080 on is a name character, and so is
  each of its bytes here.
\<close>

definition is_name_first :: "char \<Rightarrow> bool" where
  "is_name_first c = (let n = byte c in
     (65 \<le> n \<and> n \<le> 90) \<or> (97 \<le> n \<and> n \<le> 122) \<or> n = 95 \<or> 128 \<le> n)"

text \<open>The sub-lexers return the rest of the input, \<open>None\<close> on failure.\<close>

definition simple_name :: "char \<Rightarrow> string \<Rightarrow> string option" where
  "simple_name fst_char it =
     (if \<not> is_name_first fst_char then None
      else Some (dropWhile (\<lambda>c. is_name_first c \<or> is_digit c) it))"

fun quoted_rest :: "char \<Rightarrow> string \<Rightarrow> string option" where
  "quoted_rest q [] = None"
| "quoted_rest q (c # it) =
     (if c = CHR 0x5C then (case it of [] \<Rightarrow> None | _ # it' \<Rightarrow> quoted_rest q it')
      else if c = q then Some it
      else quoted_rest q it)"

definition expect_close :: "string \<Rightarrow> string option" where
  "expect_close it = (case it of c # r \<Rightarrow> if c = CHR '']'' then Some r else None | [] \<Rightarrow> None)"

definition simple_bracket :: "string \<Rightarrow> string option" where
  "simple_bracket it = (case it of
     [] \<Rightarrow> None
   | c # r \<Rightarrow>
     if c = CHR ''*'' then expect_close r
     else if c = CHR 0x27 \<or> c = CHR 0x22 then Option.bind (quoted_rest c r) expect_close
     else if c = CHR ''-'' \<or> is_digit c then
       (let ds = takeWhile is_digit r; digits = (if c = CHR ''-'' then 0 else 1) + length ds in
        if digits = 0 then None else expect_close (dropWhile is_digit r))
     else None)"

text \<open>One segment of the path: the rest and whether it was a descent.\<close>

definition simple_segment :: "bool \<Rightarrow> string \<Rightarrow> (string \<times> bool) option" where
  "simple_segment descended s = (case s of
     [] \<Rightarrow> None
   | c # it \<Rightarrow>
     if c = CHR ''.'' \<and> it \<noteq> [] \<and> hd it = CHR ''.'' then
       if descended then None
       else (case tl it of
           [] \<Rightarrow> None
         | d # r \<Rightarrow>
           if d = CHR ''*'' then Some (r, True)
           else if d = CHR ''['' then map_option (\<lambda>x. (x, True)) (simple_bracket r)
           else map_option (\<lambda>x. (x, True)) (simple_name d r))
     else if c = CHR ''.'' then
       (case it of
          [] \<Rightarrow> None
        | d # r \<Rightarrow> if d = CHR ''*'' then Some (r, descended)
                   else map_option (\<lambda>x. (x, descended)) (simple_name d r))
     else if c = CHR ''['' then map_option (\<lambda>x. (x, descended)) (simple_bracket it)
     else None)"

lemma quoted_rest_shorter: "quoted_rest q it = Some r \<Longrightarrow> length r < length it"
  by (induction q it rule: quoted_rest.induct) (auto split: if_splits list.splits)

lemma expect_close_shorter: "expect_close it = Some r \<Longrightarrow> length r < length it"
  by (cases it) (auto simp: expect_close_def split: if_splits)

lemma simple_bracket_shorter: "simple_bracket it = Some r \<Longrightarrow> length r < length it"
proof (cases it)
  case Nil
  assume "simple_bracket it = Some r"
  then show ?thesis by (simp add: simple_bracket_def Nil)
next
  case (Cons c t)
  assume r: "simple_bracket it = Some r"
  consider (star) "expect_close t = Some r"
    | (quote) u where "quoted_rest c t = Some u" "expect_close u = Some r"
    | (num) "expect_close (dropWhile is_digit t) = Some r"
    using r unfolding simple_bracket_def Cons list.case Let_def
    by (cases "c = CHR ''*''"; cases "c = CHR 0x27 \<or> c = CHR 0x22"; cases "c = CHR ''-'' \<or> is_digit c")
      (simp_all add: bind_eq_Some_conv del: One_nat_def split: if_split_asm, blast+)
  then show ?thesis
  proof cases
    case star
    then show ?thesis using expect_close_shorter Cons by fastforce
  next
    case quote
    then show ?thesis using expect_close_shorter [of u r] quoted_rest_shorter [of c t u] Cons by simp
  next
    case num
    then show ?thesis
      using expect_close_shorter [of "dropWhile is_digit t" r] length_dropWhile_le [of is_digit t] Cons
      by simp
  qed
qed

lemma simple_segment_shorter: "simple_segment d s = Some (r, d') \<Longrightarrow> length r < length s"
proof -
  have n: "simple_name c it = Some x \<Longrightarrow> length x \<le> length it" for c it x
    by (auto simp: simple_name_def length_dropWhile_le split: if_splits)
  assume "simple_segment d s = Some (r, d')"
  then show ?thesis
    by (auto simp: simple_segment_def split: list.splits if_splits
        dest!: simple_bracket_shorter n)
qed

function simple_segments :: "bool \<Rightarrow> string \<Rightarrow> bool" where
  "simple_segments descended s =
     (if s = [] then True
      else case simple_segment descended s of
        None \<Rightarrow> False
      | Some (r, descended') \<Rightarrow> simple_segments descended' r)"
  by pat_completeness auto
termination
  by (relation "measure (\<lambda>(d, s). length s)") (auto dest: simple_segment_shorter)

declare simple_segments.simps [simp del]

definition jsonpath_is_simple :: "string \<Rightarrow> bool" where
  "jsonpath_is_simple path = (case path of
     [] \<Rightarrow> False
   | c # it \<Rightarrow> if c = CHR ''$'' then simple_segments False it else False)"


subsection \<open>Lemmas\<close>

lemma evaluate_loop_keys:
  "evaluate_loop X facts cache es out = Inr m \<Longrightarrow> bt_ok out \<Longrightarrow>
   bt_ok m \<and> fst ` set m = fst ` set out \<union> extract_var ` set es"
proof (induction es arbitrary: cache out)
  case Nil
  then show ?case by simp
next
  case (Cons e es)
  from Cons.prems(1) obtain v cache' where
    "evaluate_loop X facts cache' es (bt_insert (extract_var e) v out) = Inr m"
    by (auto simp: bind_res_Inr)
  from Cons.IH [OF this] Cons.prems(2) show ?case by (auto simp: bt_ok_insert bt_insert_keys)
qed

definition post_reasons :: "string option \<Rightarrow> string set" where
  "post_reasons claim = {''claim requires decode'', ''not a JWT (expected 3 segments)'', ''not base64'',
     ''not UTF-8 text'', ''decoded value is not JSON''}
     \<union> (case claim of None \<Rightarrow> {} | Some cl \<Rightarrow> {''invalid claim path: '' @ cl, ''claim not found: '' @ cl})"

lemma post_process_reason:
  "post_process X var raw decode claim = Inl e \<Longrightarrow>
   \<exists>reason \<in> post_reasons claim. e = ExtractFailed (var @ '': '' @ reason)"
  unfolding post_process_def Let_def post_reasons_def
  by (auto split: option.splits decode.splits sum.splits base64_text_error.splits if_splits)

lemma evaluate_loop_status_last:
  "evaluate_loop X facts cache (es @ [ExStatus v]) out = Inr m \<Longrightarrow>
   bt_get m v = Some (nat_str (rf_status facts))"
  by (induction es arbitrary: cache out)
    (auto simp: bind_res_Inr extract_one_def extract_var_def)

subsection \<open>Properties\<close>

text \<open>
  extraction is all or nothing: when it succeeds, exactly the variables declared by the
  extract list are set (no more, no less); when decoding fails, the message names the variable
  and one of a fixed list of reasons, so it never shows the extracted value nor a library's
  error text.
\<close>

theorem extract_correct:
  "(evaluate X es facts = Inr m \<longrightarrow> bt_ok m \<and> fst ` set m = extract_var ` set es)
   \<and> (post_process X var raw decode claim = Inl e \<longrightarrow>
        (\<exists>reason \<in> post_reasons claim. e = ExtractFailed (var @ '': '' @ reason)))"
  using evaluate_loop_keys [of X facts None es "[]" m] post_process_reason [of X var raw decode claim e]
  by (auto simp: evaluate_def)

definition demo_extract :: extract_ops where
  "demo_extract = \<lparr>xo_parse_json = (\<lambda>_. Inl ''bad''), xo_jsonpath = (\<lambda>_. None),
     xo_json_show = (\<lambda>_. []), xo_base64_std = (\<lambda>_. None), xo_base64_url = (\<lambda>_. None)\<rparr>"

theorem extract_correct_witness:
  "post_process demo_extract ''tok'' ''s3cret'' (Some Base64) None = Inl (ExtractFailed ''tok: not base64'')
   \<and> evaluate demo_extract [ExStatus ''st'', ExHeader ''h'' ''X-Id'' None None]
       \<lparr>rf_status = 204, rf_headers = [(''x-id'', ''7'')], rf_set_cookies = [], rf_body = []\<rparr>
     = Inr [(''h'', ''7''), (''st'', ''204'')]
   \<and> fst ` set [(''h'', ''7''), (''st'', ''204'')] = {''st'', ''h''}"
proof -
  have e: "evaluate demo_extract [ExStatus ''st'', ExHeader ''h'' ''X-Id'' None None]
       \<lparr>rf_status = 204, rf_headers = [(''x-id'', ''7'')], rf_set_cookies = [], rf_body = []\<rparr>
     = Inr [(''h'', ''7''), (''st'', ''204'')]"
    by code_simp
  have p: "post_process demo_extract ''tok'' ''s3cret'' (Some Base64) None = Inl (ExtractFailed ''tok: not base64'')"
    by code_simp
  show ?thesis
    using e p extract_correct [of demo_extract "[ExStatus ''st'', ExHeader ''h'' ''X-Id'' None None]"
      "\<lparr>rf_status = 204, rf_headers = [(''x-id'', ''7'')], rf_set_cookies = [], rf_body = []\<rparr>"
      "[(''h'', ''7''), (''st'', ''204'')]" "''tok''" "''s3cret''" "Some Base64" None
      "ExtractFailed ''tok: not base64''"]
    by (simp add: extract_var_def)
qed

text \<open>
  the cheap-path check always terminates with an answer, demands the root \<^verbatim>\<open>$\<close> and admits
  at most one descent: once a path has descended, a further \<^verbatim>\<open>..\<close> at a segment boundary is
  refused, whatever follows; filters are refused at every bracket.
\<close>

theorem jsonpath_simple_safe:
  "(jsonpath_is_simple path \<longrightarrow> path \<noteq> [] \<and> hd path = CHR ''$'')
   \<and> \<not> simple_segments True (''..'' @ rest)
   \<and> \<not> simple_segments d (''[?'' @ rest)
   \<and> (simple_segments True s \<longrightarrow> simple_segments False s)"
proof (intro conjI impI)
  show "jsonpath_is_simple path \<Longrightarrow> path \<noteq> []" by (cases path) (auto simp: jsonpath_is_simple_def)
  show "jsonpath_is_simple path \<Longrightarrow> hd path = CHR ''$''"
    by (cases path) (auto simp: jsonpath_is_simple_def split: if_splits)
  show "\<not> simple_segments True (''..'' @ rest)"
    by (simp add: simple_segments.simps [of True] simple_segment_def)
  show "\<not> simple_segments d (''[?'' @ rest)"
    by (simp add: simple_segments.simps [of d] simple_segment_def simple_bracket_def is_digit_def)
  have seg: "simple_segment True t = Some (r, d') \<Longrightarrow> d' \<and> (\<exists>d''. simple_segment False t = Some (r, d'') \<and> \<not> d'')" for t r d'
    by (auto simp: simple_segment_def split: list.splits if_splits)
  show "simple_segments True s \<Longrightarrow> simple_segments False s"
  proof (induction s rule: length_induct)
    case (1 s)
    show ?case
    proof (cases "s = []")
      case True
      then show ?thesis by (simp add: simple_segments.simps)
    next
      case False
      with "1.prems" obtain r d' where r: "simple_segment True s = Some (r, d')" "simple_segments d' r"
        by (auto simp: simple_segments.simps [of True s] split: option.splits)
      with seg [OF r(1)] have "simple_segment False s = Some (r, False)" "simple_segments True r" by auto
      moreover have "length r < length s" by (rule simple_segment_shorter [OF r(1)])
      ultimately show ?thesis
        using "1.IH" by (simp add: simple_segments.simps [of False s])
    qed
  qed
qed

theorem jsonpath_simple_safe_witness:
  "jsonpath_is_simple ''$.a[0]..b[*]'' \<and> \<not> jsonpath_is_simple ''$..a..b''
   \<and> hd ''$.a[0]..b[*]'' = CHR ''$''"
proof -
  have "jsonpath_is_simple ''$.a[0]..b[*]''" "\<not> jsonpath_is_simple ''$..a..b''" by code_simp+
  then show ?thesis using jsonpath_simple_safe [of "''$.a[0]..b[*]''"] by simp
qed

end
