(* ===== verification/Executor.thy ===== *)
theory Executor
  imports Cast Extract
begin

text \<open>
  \<^verbatim>\<open>engine/src/executor.rs\<close>: rendering an HTTP step into a request, sending it and turning the
  answer into an outcome, and the static computation of the variables a request refers to.
  The HTTP client is the parameter \<open>http_ops\<close> over a world state \<open>'w\<close>; times are in
  microseconds. The two JSON renderers, the header loop and the assertion and extraction order
  are the code's.
\<close>

subsection \<open>The HTTP client\<close>

datatype sent_body = SentJson json | SentForm "(string, string) btree_map" | SentRaw string

record built_request =
  bq_method :: http_method
  bq_url :: string
  bq_headers :: "(string, string) hash_map"
  bq_timeout :: "nat option"
  bq_body :: "sent_body option"

record http_response =
  hr_status :: nat
  hr_headers :: "(string \<times> string option) list"
  hr_body :: "string + string"

record timing =
  tm_latency :: nat
  tm_connect_total :: nat
  tm_dns :: nat
  tm_download :: nat

text \<open>
  \<open>ho_send\<close> returns the failed send with its rendering without the URL, or the response; header
  values that are not text are \<open>None\<close>.
\<close>

record 'w http_ops =
  ho_header_name_err :: "string \<Rightarrow> string option"
  ho_header_value_err :: "string \<Rightarrow> string option"
  ho_send :: "built_request \<Rightarrow> 'w \<Rightarrow> ((send_error \<times> string) + http_response) \<times> timing \<times> 'w"

record exec_outcome =
  eo_step_id :: string
  eo_status :: nat
  eo_latency :: nat
  eo_download :: "nat option"
  eo_dns :: "nat option"
  eo_connect :: "nat option"
  eo_wait :: "nat option"
  eo_error :: "string option"
  eo_error_kind :: "error_kind option"
  eo_extracted :: "(string, string) btree_map"

subsection \<open>Rendering\<close>

definition render_leaf :: "json_reader \<Rightarrow> tctx \<Rightarrow> string \<Rightarrow> json res" where
  "render_leaf from_json ctx s = (case parse_cast_leaf s of
     None \<Rightarrow> bind_res (render s ctx) (\<lambda>r. Inr (JStr r))
   | Some (bare, c) \<Rightarrow> bind_res (render bare ctx) (\<lambda>r.
       case coerce from_json c r of
         Some v \<Rightarrow> Inr v
       | None \<Rightarrow> Inl (CastFailed bare (cast_name c) r)))"

fun render_json_value :: "json_reader \<Rightarrow> tctx \<Rightarrow> json \<Rightarrow> json res"
  and render_json_items :: "json_reader \<Rightarrow> tctx \<Rightarrow> json list \<Rightarrow> json list res"
  and render_json_fields :: "json_reader \<Rightarrow> tctx \<Rightarrow> (string \<times> json) list \<Rightarrow> (string \<times> json) list res" where
  "render_json_value fj ctx (JStr s) = render_leaf fj ctx s"
| "render_json_value fj ctx (JArr items) = bind_res (render_json_items fj ctx items) (\<lambda>xs. Inr (JArr xs))"
| "render_json_value fj ctx (JObj kvs) = bind_res (render_json_fields fj ctx kvs) (\<lambda>m. Inr (JObj m))"
| "render_json_value fj ctx JNull = Inr JNull"
| "render_json_value fj ctx (JBool b) = Inr (JBool b)"
| "render_json_value fj ctx (JNum n) = Inr (JNum n)"
| "render_json_items fj ctx [] = Inr []"
| "render_json_items fj ctx (v # vs) =
     bind_res (render_json_value fj ctx v) (\<lambda>x. bind_res (render_json_items fj ctx vs) (\<lambda>xs. Inr (x # xs)))"
| "render_json_fields fj ctx [] = Inr []"
| "render_json_fields fj ctx ((k, v) # kvs) =
     bind_res (render_json_value fj ctx v) (\<lambda>x. bind_res (render_json_fields fj ctx kvs) (\<lambda>m. Inr ((k, x) # m)))"

fun render_form :: "tctx \<Rightarrow> (string \<times> string) list \<Rightarrow> (string \<times> string) list res" where
  "render_form ctx [] = Inr []"
| "render_form ctx ((k, v) # kvs) =
     bind_res (render v ctx) (\<lambda>r. bind_res (render_form ctx kvs) (\<lambda>m. Inr ((k, r) # m)))"

fun build_headers ::
  "'w http_ops \<Rightarrow> tctx \<Rightarrow> (string \<times> string) list \<Rightarrow> (string, string) hash_map
    \<Rightarrow> (string, string) hash_map res" where
  "build_headers H ctx [] hs = Inr hs"
| "build_headers H ctx ((k, v) # kvs) hs =
     bind_res (render v ctx) (\<lambda>r.
       case ho_header_name_err H k of
         Some e \<Rightarrow> Inl (MalformedTemplate (''header name '' @ k @ '': '' @ e))
       | None \<Rightarrow> (case ho_header_value_err H r of
           Some e \<Rightarrow> Inl (MalformedTemplate (''header value '' @ k @ '': '' @ e))
         | None \<Rightarrow> build_headers H ctx kvs (hm_put (ascii_lower k) r hs)))"

definition build_body :: "json_reader \<Rightarrow> tctx \<Rightarrow> body option \<Rightarrow> sent_body option res" where
  "build_body fj ctx b = (case b of
     None \<Rightarrow> Inr None
   | Some (BodyJson v) \<Rightarrow> bind_res (render_json_value fj ctx v) (\<lambda>x. Inr (Some (SentJson x)))
   | Some (BodyForm m) \<Rightarrow> bind_res (render_form ctx m) (\<lambda>x. Inr (Some (SentForm x)))
   | Some (BodyRaw s) \<Rightarrow> bind_res (render s ctx) (\<lambda>x. Inr (Some (SentRaw x))))"

definition build_request :: "json_reader \<Rightarrow> 'w http_ops \<Rightarrow> http_step \<Rightarrow> tctx \<Rightarrow> built_request res" where
  "build_request fj H st ctx =
     bind_res (render (rq_url (hs_request st)) ctx) (\<lambda>url.
     bind_res (build_headers H ctx (rq_headers (hs_request st)) []) (\<lambda>headers.
     bind_res (build_body fj ctx (rq_body (hs_request st))) (\<lambda>body.
       Inr \<lparr>bq_method = rq_method (hs_request st), bq_url = url, bq_headers = headers,
            bq_timeout = (case hs_timeout st of Some secs \<Rightarrow> if secs > 0 then Some secs else None | None \<Rightarrow> None),
            bq_body = body\<rparr>)))"

subsection \<open>Executing a step\<close>

definition phases :: "bool \<Rightarrow> timing \<Rightarrow> nat option \<times> nat option \<times> nat option" where
  "phases measuring tm =
     (if measuring then
        let wait = Some (tm_latency tm - tm_connect_total tm) in
        if tm_connect_total tm > 0
        then (Some (tm_dns tm), Some (tm_connect_total tm - tm_dns tm), wait)
        else (None, None, wait)
      else (None, None, None))"

fun check_asserts :: "nat \<Rightarrow> assertion list \<Rightarrow> string option" where
  "check_asserts status [] = None"
| "check_asserts status (AStatus want # rest) =
     (if want \<noteq> status then Some (''status '' @ nat_str status @ '' != '' @ nat_str want)
      else check_asserts status rest)"

definition text_headers :: "http_response \<Rightarrow> (string \<times> string) list" where
  "text_headers resp = List.map_filter (\<lambda>(k, v). map_option (\<lambda>s. (k, s)) v) (hr_headers resp)"

definition set_cookies_of :: "http_response \<Rightarrow> string list" where
  "set_cookies_of resp =
     List.map_filter (\<lambda>(k, v). if ascii_lower k = ''set-cookie'' then v else None) (hr_headers resp)"

text \<open>Assertions first; extraction only when they hold. The error is rendered by \<open>display_error\<close>.\<close>

definition judge_response ::
  "extract_ops \<Rightarrow> (string \<Rightarrow> string) \<Rightarrow> http_step \<Rightarrow> http_response \<Rightarrow> string
    \<Rightarrow> string option \<times> (string, string) btree_map" where
  "judge_response X dbg st resp body =
     (case check_asserts (hr_status resp) (hs_assert st) of
        Some e \<Rightarrow> (Some e, [])
      | None \<Rightarrow>
        if hs_extract st = [] then (None, [])
        else case evaluate X (hs_extract st)
               \<lparr>rf_status = hr_status resp, rf_headers = text_headers resp,
                rf_set_cookies = set_cookies_of resp, rf_body = body\<rparr> of
          Inr m \<Rightarrow> (None, m)
        | Inl e \<Rightarrow> (Some (display_error dbg e), []))"

definition execute_step ::
  "json_reader \<Rightarrow> extract_ops \<Rightarrow> (string \<Rightarrow> string) \<Rightarrow> 'w http_ops \<Rightarrow> bool \<Rightarrow> http_step \<Rightarrow> tctx \<Rightarrow> 'w
    \<Rightarrow> exec_outcome res \<times> 'w" where
  "execute_step fj X dbg H measuring st ctx w =
     (case build_request fj H st ctx of
        Inl e \<Rightarrow> (Inl e, w)
      | Inr req \<Rightarrow>
        (case ho_send H req w of (outcome, tm, w') \<Rightarrow>
          (case outcome of
             Inl (e, msg) \<Rightarrow>
               (Inr \<lparr>eo_step_id = hs_id st, eo_status = 0, eo_latency = tm_latency tm, eo_download = None,
                     eo_dns = None, eo_connect = None, eo_wait = None, eo_error = Some msg,
                     eo_error_kind = Some (classify_send_error e), eo_extracted = []\<rparr>, w')
           | Inr resp \<Rightarrow>
               (case phases measuring tm of (dns, connect, wait) \<Rightarrow>
                 (case hr_body resp of
                    Inl e \<Rightarrow>
                      (Inr \<lparr>eo_step_id = hs_id st, eo_status = hr_status resp, eo_latency = tm_latency tm,
                            eo_download = None, eo_dns = dns, eo_connect = connect, eo_wait = wait,
                            eo_error = Some (''read body: '' @ e), eo_error_kind = None, eo_extracted = []\<rparr>, w')
                  | Inr body \<Rightarrow>
                      (case judge_response X dbg st resp body of (error, extracted) \<Rightarrow>
                        (Inr \<lparr>eo_step_id = hs_id st, eo_status = hr_status resp, eo_latency = tm_latency tm,
                              eo_download = Some (tm_download tm), eo_dns = dns, eo_connect = connect,
                              eo_wait = wait, eo_error = error, eo_error_kind = None,
                              eo_extracted = extracted\<rparr>, w')))))))"

subsection \<open>Collecting render and the references of a request\<close>

definition collect_leaf :: "json_reader \<Rightarrow> tctx \<Rightarrow> string \<Rightarrow> string list \<Rightarrow> json \<times> string list" where
  "collect_leaf fj ctx s unbound = (case parse_cast_leaf s of
     None \<Rightarrow> (case render_collecting s ctx unbound of (r, u) \<Rightarrow> (JStr r, u))
   | Some (bare, c) \<Rightarrow>
       (case render_collecting bare ctx unbound of (r, u) \<Rightarrow>
         ((case coerce fj c r of Some v \<Rightarrow> v | None \<Rightarrow> JStr r), u)))"

fun render_json_collecting :: "json_reader \<Rightarrow> tctx \<Rightarrow> json \<Rightarrow> string list \<Rightarrow> json \<times> string list"
  and collect_items :: "json_reader \<Rightarrow> tctx \<Rightarrow> json list \<Rightarrow> string list \<Rightarrow> json list \<times> string list"
  and collect_fields ::
    "json_reader \<Rightarrow> tctx \<Rightarrow> (string \<times> json) list \<Rightarrow> string list \<Rightarrow> (string \<times> json) list \<times> string list" where
  "render_json_collecting fj ctx (JStr s) u = collect_leaf fj ctx s u"
| "render_json_collecting fj ctx (JArr items) u =
     (case collect_items fj ctx items u of (xs, u') \<Rightarrow> (JArr xs, u'))"
| "render_json_collecting fj ctx (JObj kvs) u =
     (case collect_fields fj ctx kvs u of (m, u') \<Rightarrow> (JObj m, u'))"
| "render_json_collecting fj ctx JNull u = (JNull, u)"
| "render_json_collecting fj ctx (JBool b) u = (JBool b, u)"
| "render_json_collecting fj ctx (JNum n) u = (JNum n, u)"
| "collect_items fj ctx [] u = ([], u)"
| "collect_items fj ctx (v # vs) u =
     (case render_json_collecting fj ctx v u of (x, u1) \<Rightarrow>
       (case collect_items fj ctx vs u1 of (xs, u2) \<Rightarrow> (x # xs, u2)))"
| "collect_fields fj ctx [] u = ([], u)"
| "collect_fields fj ctx ((k, v) # kvs) u =
     (case render_json_collecting fj ctx v u of (x, u1) \<Rightarrow>
       (case collect_fields fj ctx kvs u1 of (m, u2) \<Rightarrow> ((k, x) # m, u2)))"

fun collect_values :: "tctx \<Rightarrow> (string \<times> string) list \<Rightarrow> string list \<Rightarrow> string list" where
  "collect_values ctx [] u = u"
| "collect_values ctx ((k, v) # kvs) u = collect_values ctx kvs (snd (render_collecting v ctx u))"

definition refs_ctx :: "(string, string) btree_map \<Rightarrow> tctx" where
  "refs_ctx dummy_env = \<lparr>vars = [], env = dummy_env, vu_id = 0, iter_id = 0, loop_index = Some 0\<rparr>"

definition collect_request :: "json_reader \<Rightarrow> request \<Rightarrow> (string, string) btree_map \<Rightarrow> string list" where
  "collect_request fj req dummy_env =
     (let ctx = refs_ctx dummy_env;
          u1 = snd (render_collecting (rq_url req) ctx []);
          u2 = collect_values ctx (rq_headers req) u1
      in case rq_body req of
           Some (BodyJson v) \<Rightarrow> snd (render_json_collecting fj ctx v u2)
         | Some (BodyForm m) \<Rightarrow> collect_values ctx m u2
         | Some (BodyRaw s) \<Rightarrow> snd (render_collecting s ctx u2)
         | None \<Rightarrow> u2)"

definition request_flow_refs ::
  "json_reader \<Rightarrow> request \<Rightarrow> (string, string) btree_map \<Rightarrow> (string, nat) hash_map \<Rightarrow> nat list" where
  "request_flow_refs fj req dummy_env index =
     remdups (sort (List.map_filter (hm_get index) (collect_request fj req dummy_env)))"


subsection \<open>What a request refers to\<close>

abbreviation set_var :: "string \<Rightarrow> string \<Rightarrow> tctx \<Rightarrow> tctx" where
  "set_var n x ctx \<equiv> ctx\<lparr>vars := bt_insert n x (vars ctx)\<rparr>"

definition seg_vars :: "seg list \<Rightarrow> string set" where
  "seg_vars xs = {n. SVar n \<in> set xs}"

text \<open>A name no segment reads has no influence; a collecting pass over empty variables reports
  every name read.\<close>

lemma eval_segs_set_var:
  "n \<notin> seg_vars xs \<Longrightarrow> eval_segs l (set_var n x ctx) xs = eval_segs l ctx xs"
proof (induction xs)
  case Nil
  then show ?case by simp
next
  case (Cons y ys)
  then show ?case
    by (cases y) (auto simp: seg_vars_def bt_get_insert sys_value_def split: option.splits)
qed

lemma segs_bad_last: "segs i s = xs @ SBad m r # ys \<Longrightarrow> ys = []"
proof (induction i s arbitrary: xs rule: segs.induct)
  case (1 i s)
  show ?case
  proof (cases s rule: remdups_adj.cases)
    case (3 c d t)
    with 1 show ?thesis
      by (cases xs)
        (auto simp: segs.simps [of i] split: if_splits option.splits prod.splits)
  qed (use 1 in \<open>auto simp: segs.simps [of i] Cons_eq_append_conv\<close>)
qed

definition bad_only_last :: "seg list \<Rightarrow> bool" where
  "bad_only_last xs = (\<forall>pre m r ys. xs = pre @ SBad m r # ys \<longrightarrow> ys = [])"

lemma bad_only_last_Cons: "bad_only_last (y # ys) \<Longrightarrow> bad_only_last ys"
  by (auto simp: bad_only_last_def)

lemma eval_lenient_reports:
  "bad_only_last xs \<Longrightarrow> vars ctx = [] \<Longrightarrow> eval_segs True ctx xs = Inr (v, u) \<Longrightarrow> seg_vars xs \<subseteq> set u"
proof (induction xs arbitrary: v u)
  case Nil
  then show ?case by (simp add: seg_vars_def)
next
  case (Cons y ys)
  obtain v' u' where r: "eval_segs True ctx ys = Inr (v', u')" using eval_lenient_total by blast
  have IH: "seg_vars ys \<subseteq> set u'"
    using Cons.IH [OF bad_only_last_Cons [OF Cons.prems(1)] Cons.prems(2) r] .
  show ?case
  proof (cases y)
    case (SBad m x)
    then have "ys = []" using Cons.prems(1) by (auto simp: bad_only_last_def)
    then show ?thesis using SBad by (simp add: seg_vars_def)
  qed (use Cons.prems r IH in \<open>auto simp: seg_vars_def bt_get_def split: option.splits\<close>)
qed

lemma render_collecting_eq:
  "render_collecting s ctx u = (render_lenient s ctx, u @ snd (render_collecting s ctx []))"
  by (simp add: render_collecting_def render_lenient_def split: sum.splits prod.splits)

definition string_refs :: "(string, string) btree_map \<Rightarrow> string \<Rightarrow> string set" where
  "string_refs denv s = set (snd (render_collecting s (refs_ctx denv) []))"

lemma render_set_var: "n \<notin> string_refs denv s \<Longrightarrow> render s (set_var n x ctx) = render s ctx"
proof -
  assume n: "n \<notin> string_refs denv s"
  obtain v u where vu: "eval_segs True (refs_ctx denv) (segs 0 s) = Inr (v, u)"
    using eval_lenient_total by blast
  then have "seg_vars (segs 0 s) \<subseteq> string_refs denv s"
    using eval_lenient_reports [OF _ _ vu] segs_bad_last [of 0 s]
    by (auto simp: string_refs_def render_collecting_def render_inner_segs bad_only_last_def refs_ctx_def)
  then have "n \<notin> seg_vars (segs 0 s)" using n by blast
  then show ?thesis by (simp add: render_def render_inner_segs eval_segs_set_var)
qed

text \<open>The strings of a JSON value as they are rendered.\<close>

definition leaf_text :: "string \<Rightarrow> string" where
  "leaf_text s = (case parse_cast_leaf s of None \<Rightarrow> s | Some (bare, _) \<Rightarrow> bare)"

lemma collect_leaf_refs: "set (snd (collect_leaf fj (refs_ctx denv) s u)) = set u \<union> string_refs denv (leaf_text s)"
  using render_collecting_eq [of _ "refs_ctx denv" u]
  by (auto simp: collect_leaf_def leaf_text_def string_refs_def split: option.splits prod.splits)

fun json_refs :: "(string, string) btree_map \<Rightarrow> json \<Rightarrow> string set" where
  "json_refs denv (JStr s) = string_refs denv (leaf_text s)"
| "json_refs denv (JArr xs) = (\<Union>x \<in> set xs. json_refs denv x)"
| "json_refs denv (JObj kvs) = (\<Union>(k, v) \<in> set kvs. json_refs denv v)"
| "json_refs denv _ = {}"

lemma render_json_collecting_refs:
  "set (snd (render_json_collecting fj (refs_ctx denv) v u)) = set u \<union> json_refs denv v"
  "set (snd (collect_items fj (refs_ctx denv) vs u)) = set u \<union> (\<Union>x \<in> set vs. json_refs denv x)"
  "set (snd (collect_fields fj (refs_ctx denv) kvs u)) = set u \<union> (\<Union>(k, x) \<in> set kvs. json_refs denv x)"
proof (induction fj "refs_ctx denv" v u and fj "refs_ctx denv" vs u and fj "refs_ctx denv" kvs u
    rule: render_json_collecting_collect_items_collect_fields.induct)
qed (auto simp: collect_leaf_refs split: prod.splits)

lemma render_leaf_set_var:
  "n \<notin> string_refs denv (leaf_text s) \<Longrightarrow> render_leaf fj (set_var n x ctx) s = render_leaf fj ctx s"
  using render_set_var [of n denv "leaf_text s" x ctx]
  by (auto simp: render_leaf_def leaf_text_def split: option.splits)

lemma render_json_set_var:
  "n \<notin> json_refs denv v \<Longrightarrow> render_json_value fj (set_var n x ctx) v = render_json_value fj ctx v"
  "n \<notin> (\<Union>y \<in> set vs. json_refs denv y) \<Longrightarrow> render_json_items fj (set_var n x ctx) vs = render_json_items fj ctx vs"
  "n \<notin> (\<Union>(k, y) \<in> set kvs. json_refs denv y) \<Longrightarrow>
     render_json_fields fj (set_var n x ctx) kvs = render_json_fields fj ctx kvs"
proof (induction fj ctx v and fj ctx vs and fj ctx kvs
    rule: render_json_value_render_json_items_render_json_fields.induct)
qed (auto simp: render_leaf_set_var)

lemma collect_values_refs:
  "set (collect_values (refs_ctx denv) kvs u) = set u \<union> (\<Union>(k, v) \<in> set kvs. string_refs denv v)"
proof (induction kvs arbitrary: u)
  case Nil
  then show ?case by simp
next
  case (Cons kv kvs)
  obtain k v where kv: "kv = (k, v)" by (cases kv)
  have "snd (render_collecting v (refs_ctx denv) u) = u @ snd (render_collecting v (refs_ctx denv) [])"
    by (subst render_collecting_eq) simp
  with Cons.IH show ?case by (auto simp: kv string_refs_def)
qed

lemma render_form_set_var:
  "n \<notin> (\<Union>(k, v) \<in> set kvs. string_refs denv v) \<Longrightarrow> render_form (set_var n x ctx) kvs = render_form ctx kvs"
  by (induction kvs) (auto simp: render_set_var)

lemma build_headers_set_var:
  "n \<notin> (\<Union>(k, v) \<in> set kvs. string_refs denv v) \<Longrightarrow>
   build_headers H (set_var n x ctx) kvs hs = build_headers H ctx kvs hs"
proof (induction kvs arbitrary: hs)
  case Nil
  then show ?case by simp
next
  case (Cons kv kvs)
  obtain k v where kv: "kv = (k, v)" by (cases kv)
  have "render v (set_var n x ctx) = render v ctx"
    using Cons.prems by (intro render_set_var [of n denv]) (auto simp: kv)
  moreover have "n \<notin> (\<Union>(k, v) \<in> set kvs. string_refs denv v)" using Cons.prems by auto
  ultimately show ?case using Cons.IH by (simp add: kv bind_res_def split: sum.splits option.splits)
qed

lemma collect_raw_refs:
  "set (snd (render_collecting s (refs_ctx denv) u)) = set u \<union> string_refs denv s"
  by (subst render_collecting_eq) (simp add: string_refs_def)

definition body_refs :: "(string, string) btree_map \<Rightarrow> body option \<Rightarrow> string set" where
  "body_refs denv b = (case b of
     None \<Rightarrow> {}
   | Some (BodyJson v) \<Rightarrow> json_refs denv v
   | Some (BodyForm m) \<Rightarrow> (\<Union>(k, v) \<in> set m. string_refs denv v)
   | Some (BodyRaw s) \<Rightarrow> string_refs denv s)"

lemma collect_request_refs:
  "set (collect_request fj req denv) = string_refs denv (rq_url req)
     \<union> (\<Union>(k, v) \<in> set (rq_headers req). string_refs denv v) \<union> body_refs denv (rq_body req)"
  unfolding collect_request_def Let_def body_refs_def
  by (auto simp: collect_raw_refs collect_values_refs render_json_collecting_refs
      split: option.split body.split)

lemma build_body_set_var:
  "n \<notin> body_refs denv b \<Longrightarrow> build_body fj (set_var n x ctx) b = build_body fj ctx b"
  by (auto simp: body_refs_def build_body_def render_json_set_var render_form_set_var render_set_var
      split: option.splits body.splits)

lemma build_request_set_var:
  assumes "n \<notin> set (collect_request fj (hs_request st) denv)"
  shows "build_request fj' H st (set_var n x ctx) = build_request fj' H st ctx"
proof -
  let ?rq = "hs_request st"
  have u: "n \<notin> string_refs denv (rq_url ?rq)"
    "n \<notin> (\<Union>(k, v) \<in> set (rq_headers ?rq). string_refs denv v)" "n \<notin> body_refs denv (rq_body ?rq)"
    using assms by (simp_all add: collect_request_refs)
  show ?thesis
    unfolding build_request_def build_body_set_var [OF u(3)] render_set_var [OF u(1)]
      build_headers_set_var [OF u(2)] ..
qed


subsection \<open>Properties\<close>

lemma check_asserts_None: "check_asserts st as = None \<longleftrightarrow> (\<forall>a \<in> set as. a = AStatus st)"
proof (induction as)
  case Nil
  then show ?case by simp
next
  case (Cons a as)
  then show ?case by (cases a) auto
qed

definition response_facts_of :: "http_response \<Rightarrow> string \<Rightarrow> response_facts" where
  "response_facts_of resp b = \<lparr>rf_status = hr_status resp, rf_headers = text_headers resp,
     rf_set_cookies = set_cookies_of resp, rf_body = b\<rparr>"

lemma judge_response_ok:
  assumes "judge_response X dbg st resp b = (error, ex)"
  shows "error = None \<longleftrightarrow> (\<forall>a \<in> set (hs_assert st). a = AStatus (hr_status resp))
           \<and> (\<exists>m. evaluate X (hs_extract st) (response_facts_of resp b) = Inr m)"
    and "error = None \<Longrightarrow> evaluate X (hs_extract st) (response_facts_of resp b) = Inr ex
           \<and> fst ` set ex = extract_var ` set (hs_extract st)"
    and "error \<noteq> None \<Longrightarrow> ex = []"
  using assms evaluate_loop_keys [of X _ None "hs_extract st" "[]"]
  by (auto simp: judge_response_def evaluate_def check_asserts_None response_facts_of_def
      split: option.splits if_splits sum.splits)

text \<open>The class of a send error, stated on its flags and the links of its source chain.\<close>

definition io_class :: "(io_kind \<times> error_kind) set" where
  "io_class = {(AddrNotAvailable, LocalPortExhaustion), (ConnectionRefusedIo, ConnectRefused),
     (ConnectionResetIo, ConnectionReset), (BrokenPipe, ConnectionReset)}"

definition link_says :: "string \<Rightarrow> send_error \<Rightarrow> bool" where
  "link_says word e \<longleftrightarrow> (\<exists>l \<in> set (se_sources e). contains_sub word (link_msg l))"

definition link_says_tls :: "send_error \<Rightarrow> bool" where
  "link_says_tls e \<longleftrightarrow> (\<exists>l \<in> set (se_sources e). \<exists>word \<in> {''tls'', ''certificate'', ''handshake''}.
     contains_sub word (to_lower (link_msg l)))"

definition classified :: "send_error \<Rightarrow> error_kind \<Rightarrow> bool" where
  "classified e k \<longleftrightarrow> (case find (\<lambda>l. \<exists>io. link_io l = Some io \<and> io \<noteq> OtherIo) (se_sources e) of
     Some l \<Rightarrow> (the (link_io l), k) \<in> io_class
   | None \<Rightarrow>
       if se_is_timeout e then k = (if se_is_connect e then ConnectTimeout else Timeout)
       else if se_is_connect e \<and> link_says ''dns error'' e then k = Dns
       else if link_says ''connection closed before message completed'' e then k = ConnectionReset
       else if link_says_tls e then k = Tls
       else k = OtherKind)"

lemma io_kind_class_find:
  "(case find (\<lambda>l. \<exists>io. link_io l = Some io \<and> io \<noteq> OtherIo) ls of
     Some l \<Rightarrow> \<exists>k. io_kind_class ls = Some k \<and> (the (link_io l), k) \<in> io_class
   | None \<Rightarrow> io_kind_class ls = None)"
proof (induction ls)
  case (Cons l ls)
  show ?case
  proof (cases "link_io l = None \<or> link_io l = Some OtherIo")
    case True
    then have "io_kind_class (l # ls) = io_kind_class ls"
      "find (\<lambda>l. \<exists>io. link_io l = Some io \<and> io \<noteq> OtherIo) (l # ls) = find (\<lambda>l. \<exists>io. link_io l = Some io \<and> io \<noteq> OtherIo) ls"
      by auto
    then show ?thesis using Cons.IH by (simp only:)
  next
    case False
    then obtain io where "link_io l = Some io" "io \<noteq> OtherIo" by auto
    then show ?thesis by (cases io) (simp_all add: io_class_def)
  qed
qed simp

lemma classify_send_error_classified: "classified e (classify_send_error e)"
proof (cases "find (\<lambda>l. \<exists>io. link_io l = Some io \<and> io \<noteq> OtherIo) (se_sources e)")
  case (Some l)
  then show ?thesis
    using io_kind_class_find [of "se_sources e"] by (auto simp: classified_def classify_send_error_def)
next
  case None
  have none: "io_kind_class (se_sources e) = None" using io_kind_class_find [of "se_sources e"] None by simp
  have msgs: "set (chain_messages ls) = link_msg ` set ls" for ls by (induction ls) auto
  have says: "link_says word e \<longleftrightarrow> list_ex (contains_sub word) (chain_messages (se_sources e))" for word
    by (simp add: link_says_def list_ex_iff msgs)
  have tls: "link_says_tls e \<longleftrightarrow> list_ex (\<lambda>m. let l = to_lower m in
      contains_sub ''tls'' l \<or> contains_sub ''certificate'' l \<or> contains_sub ''handshake'' l) (chain_messages (se_sources e))"
    by (simp add: link_says_tls_def list_ex_iff msgs Let_def)
  show ?thesis unfolding classified_def None option.case classify_send_error_def none Let_def says tls by simp
qed

text \<open>
  C6: the outcome of a step. The step itself fails exactly while the request is being built, and
  then nothing is sent. A failed send is an outcome with status 0, the error text and a
  classification, never an error: the first link of the source chain with a telling IO error kind
  decides the class; otherwise a timeout is a connect timeout or a plain one by the connect flag,
  and then the messages of the chain tell a DNS failure while connecting, a closed connection and a
  TLS failure, in this order. A response
  is an outcome with its status and no classification; an unreadable body is an error. With a body,
  there is no error exactly when every assertion is the status received and the extracts evaluate,
  and the extracted variables are then exactly the declared ones. An outcome with an error extracts
  nothing.
\<close>

theorem execute_step_outcome:
  "(\<forall>e. build_request fj H st ctx = Inl e \<longrightarrow> execute_step fj X dbg H measuring st ctx w = (Inl e, w))
   \<and> (\<forall>req out tm w'. build_request fj H st ctx = Inr req \<and> ho_send H req w = (out, tm, w') \<longrightarrow>
       (\<exists>o'. execute_step fj X dbg H measuring st ctx w = (Inr o', w')
        \<and> eo_step_id o' = hs_id st \<and> eo_latency o' = tm_latency tm
        \<and> (eo_error o' \<noteq> None \<longrightarrow> eo_extracted o' = [])
        \<and> (\<forall>e msg. out = Inl (e, msg) \<longrightarrow> eo_status o' = 0 \<and> eo_error o' = Some msg \<and> eo_download o' = None
             \<and> (\<exists>k. eo_error_kind o' = Some k \<and> classified e k))
        \<and> (\<forall>resp. out = Inr resp \<longrightarrow> eo_status o' = hr_status resp \<and> eo_error_kind o' = None
             \<and> (\<forall>e. hr_body resp = Inl e \<longrightarrow> eo_error o' = Some (''read body: '' @ e) \<and> eo_download o' = None)
             \<and> (\<forall>b. hr_body resp = Inr b \<longrightarrow> eo_download o' = Some (tm_download tm)
                  \<and> (eo_error o' = None \<longleftrightarrow> (\<forall>a \<in> set (hs_assert st). a = AStatus (hr_status resp))
                       \<and> (\<exists>m. evaluate X (hs_extract st) (response_facts_of resp b) = Inr m))
                  \<and> (eo_error o' = None \<longrightarrow>
                       evaluate X (hs_extract st) (response_facts_of resp b) = Inr (eo_extracted o')
                       \<and> fst ` set (eo_extracted o') = extract_var ` set (hs_extract st))))))"
proof (intro conjI allI impI; (elim conjE)?)
  fix e assume "build_request fj H st ctx = Inl e"
  then show "execute_step fj X dbg H measuring st ctx w = (Inl e, w)" by (simp add: execute_step_def)
next
  fix req out tm w'
  assume b: "build_request fj H st ctx = Inr req" "ho_send H req w = (out, tm, w')"
  note cls = classify_send_error_classified
  show "(\<exists>o'. execute_step fj X dbg H measuring st ctx w = (Inr o', w')
        \<and> eo_step_id o' = hs_id st \<and> eo_latency o' = tm_latency tm
        \<and> (eo_error o' \<noteq> None \<longrightarrow> eo_extracted o' = [])
        \<and> (\<forall>e msg. out = Inl (e, msg) \<longrightarrow> eo_status o' = 0 \<and> eo_error o' = Some msg \<and> eo_download o' = None
             \<and> (\<exists>k. eo_error_kind o' = Some k \<and> classified e k))
        \<and> (\<forall>resp. out = Inr resp \<longrightarrow> eo_status o' = hr_status resp \<and> eo_error_kind o' = None
             \<and> (\<forall>e. hr_body resp = Inl e \<longrightarrow> eo_error o' = Some (''read body: '' @ e) \<and> eo_download o' = None)
             \<and> (\<forall>b. hr_body resp = Inr b \<longrightarrow> eo_download o' = Some (tm_download tm)
                  \<and> (eo_error o' = None \<longleftrightarrow> (\<forall>a \<in> set (hs_assert st). a = AStatus (hr_status resp))
                       \<and> (\<exists>m. evaluate X (hs_extract st) (response_facts_of resp b) = Inr m))
                  \<and> (eo_error o' = None \<longrightarrow>
                       evaluate X (hs_extract st) (response_facts_of resp b) = Inr (eo_extracted o')
                       \<and> fst ` set (eo_extracted o') = extract_var ` set (hs_extract st)))))"
  proof (cases out)
    case (Inl em)
    then show ?thesis using b cls by (cases em) (simp add: execute_step_def)
  next
    case resp: (Inr resp)
    obtain dns con wt where ph: "phases measuring tm = (dns, con, wt)" by (metis prod_cases3)
    show ?thesis
    proof (cases "hr_body resp")
      case (Inl e)
      then show ?thesis using b resp ph by (simp add: execute_step_def)
    next
      case body: (Inr x)
      obtain error ex where j: "judge_response X dbg st resp x = (error, ex)" by fastforce
      show ?thesis
        using b resp ph body j judge_response_ok [OF j] by (cases error) (simp_all add: execute_step_def)
    qed
  qed
qed

definition demo_http :: "nat http_ops" where
  "demo_http = \<lparr>ho_header_name_err = (\<lambda>_. None), ho_header_value_err = (\<lambda>_. None),
     ho_send = (\<lambda>_ n. (Inr \<lparr>hr_status = 200, hr_headers = [], hr_body = Inr []\<rparr>,
        \<lparr>tm_latency = 5, tm_connect_total = 0, tm_dns = 0, tm_download = 1\<rparr>, n + 1))\<rparr>"

definition demo_step :: http_step where
  "demo_step = \<lparr>hs_id = ''s1'', hs_name = ''n'', hs_request = \<lparr>rq_method = GET, rq_url = ''/'',
     rq_headers = [], rq_body = None, rq_disabled = \<lparr>dr_headers = [], dr_form = []\<rparr>\<rparr>,
     hs_assert = [AStatus 200], hs_extract = [ExStatus ''st''], hs_timeout = None, hs_think = None\<rparr>"

definition demo_ctx :: tctx where
  "demo_ctx = \<lparr>vars = [], env = [], vu_id = 0, iter_id = 0, loop_index = None\<rparr>"

theorem execute_step_outcome_witness:
  "\<exists>o'. execute_step (\<lambda>_. None) demo_extract (\<lambda>s. s) demo_http False demo_step demo_ctx 3 = (Inr o', 4)
     \<and> eo_error o' = None \<and> fst ` set (eo_extracted o') = {''st''}"
proof -
  have r: "render ''/'' demo_ctx = Inr ''/''" by code_simp
  obtain req where req: "build_request (\<lambda>_. None) demo_http demo_step demo_ctx = Inr req"
    using r by (simp add: build_request_def build_body_def demo_step_def demo_http_def)
  define tm where "tm = \<lparr>tm_latency = 5, tm_connect_total = 0, tm_dns = 0, tm_download = 1\<rparr>"
  define resp where "resp = \<lparr>hr_status = 200, hr_headers = [], hr_body = Inr []\<rparr>"
  have s: "ho_send demo_http req (3::nat) = (Inr resp, tm, 4)" by (simp add: demo_http_def tm_def resp_def)
  have ok: "\<exists>m. evaluate demo_extract (hs_extract demo_step) (response_facts_of resp []) = Inr m"
    by (simp add: demo_step_def evaluate_def extract_one_def)
  note out = execute_step_outcome [of "\<lambda>_. None" demo_http demo_step demo_ctx demo_extract "\<lambda>s. s" False 3,
      THEN conjunct2, rule_format, OF conjI [OF req s]]
  have body: "hr_body resp = Inr []" by (simp add: resp_def)
  from out show ?thesis
  proof (elim exE conjE, goal_cases)
    case (1 o')
    note b = 1(6) [rule_format, OF refl, THEN conjunct2, THEN conjunct2, THEN conjunct2, rule_format, OF body]
    from b ok have "eo_error o' = None" by (simp add: demo_step_def resp_def)
    with b have "fst ` set (eo_extracted o') = {''st''}" by (simp add: demo_step_def extract_var_def)
    with 1(1) \<open>eo_error o' = None\<close> show ?case by blast
  qed
qed

end
