(* ===== verification/ReqGen.thy ===== *)
theory ReqGen
  imports Executor
begin

text \<open>
  \<^verbatim>\<open>engine/src/reqgen.rs\<close>: re-evaluation of \<^verbatim>\<open>refresh: request\<close> variables right before the
  requests that refer to them. \<open>fork\<close> draws the seed of a child generator from a parent's.
\<close>

subsection \<open>The plan\<close>

record 'tz request_gen_plan =
  rp_names :: "string list"
  rp_specs :: "'tz gen_spec list"
  rp_index :: "(string, nat) hash_map"
  rp_by_step :: "(string, nat list) hash_map"

fun collect_http :: "step list \<Rightarrow> http_step list"
  and collect_http_step :: "step \<Rightarrow> http_step list"
  and collect_http_elifs :: "elif_branch list \<Rightarrow> http_step list"
  and collect_http_branches :: "branch list \<Rightarrow> http_step list" where
  "collect_http [] = []"
| "collect_http (s # ss) = collect_http_step s @ collect_http ss"
| "collect_http_step (StHttp h) = [h]"
| "collect_http_step (StLoop _ _ _ body) = collect_http body"
| "collect_http_step (StIf _ _ _ t els e) = collect_http t @ collect_http_elifs els @ collect_http e"
| "collect_http_step (StParallel _ _ bs) = collect_http_branches bs"
| "collect_http_elifs [] = []"
| "collect_http_elifs (ElifBranch _ t # els) = collect_http t @ collect_http_elifs els"
| "collect_http_branches [] = []"
| "collect_http_branches (Branch _ ss # bs) = collect_http ss @ collect_http_branches bs"

fun request_vars :: "(string, 'tz var_decl) btree_map \<Rightarrow> (string \<times> 'tz gen_spec) list" where
  "request_vars [] = []"
| "request_vars ((k, d) # vs) =
     (case d of VGen spec RequestR \<Rightarrow> (k, spec) # request_vars vs | _ \<Rightarrow> request_vars vs)"

definition index_of :: "string list \<Rightarrow> (string, nat) hash_map" where
  "index_of names = fold (\<lambda>(n, i). hm_put n i) (zip names [0..<length names]) []"

definition entry_of :: "('k, 'v list) hash_map \<Rightarrow> 'k \<Rightarrow> 'v list" where
  "entry_of m k = (case hm_get m k of Some r \<Rightarrow> r | None \<Rightarrow> [])"

lemma entry_of_put [simp]: "entry_of (hm_put k v m) k' = (if k' = k then v else entry_of m k')"
  by (simp add: entry_of_def)

text \<open>The union of the references of all steps with one id, ascending without repetition.\<close>

fun by_step_union ::
  "json_reader \<Rightarrow> (string, string) btree_map \<Rightarrow> (string, nat) hash_map \<Rightarrow> http_step list
    \<Rightarrow> (string, nat list) hash_map \<Rightarrow> (string, nat list) hash_map" where
  "by_step_union fj denv index [] m = m"
| "by_step_union fj denv index (h # hs) m =
     (let refs = request_flow_refs fj (hs_request h) denv index in
      if refs = [] then by_step_union fj denv index hs m
      else
        by_step_union fj denv index hs
          (hm_put (hs_id h) (remdups (sort (entry_of m (hs_id h) @ refs))) m))"

definition build_plan :: "json_reader \<Rightarrow> 'tz scenario \<Rightarrow> 'tz request_gen_plan option" where
  "build_plan fj sc =
     (let rv = request_vars (sc_variables sc); names = map fst rv; specs = map snd rv in
      if names = [] then None
      else
        let index = index_of names;
            dummy_env = fold (\<lambda>n. bt_insert n []) names []
        in Some \<lparr>rp_names = names, rp_specs = specs, rp_index = index,
                 rp_by_step = by_step_union fj dummy_env index (collect_http (sc_steps sc)) []\<rparr>)"

definition targets :: "'tz request_gen_plan \<Rightarrow> string \<Rightarrow> nat list" where
  "targets plan sid = entry_of (rp_by_step plan) sid"

subsection \<open>The per-iteration state\<close>

record ('tz, 'r) req_gen =
  rg_plan :: "'tz request_gen_plan"
  rg_rng :: 'r
  rg_dead :: "bool list"

definition req_gen_new ::
  "('r \<Rightarrow> 'r \<times> 'r) \<Rightarrow> 'tz request_gen_plan \<Rightarrow> 'r \<Rightarrow> ('tz, 'r) req_gen \<times> 'r" where
  "req_gen_new fork plan parent =
     (case fork parent of (child, parent') \<Rightarrow>
        (\<lparr>rg_plan = plan, rg_rng = child, rg_dead = replicate (length (rp_names plan)) False\<rparr>, parent'))"

definition mark_written :: "string list \<Rightarrow> ('tz, 'r) req_gen \<Rightarrow> ('tz, 'r) req_gen" where
  "mark_written keys g =
     fold (\<lambda>k g. case hm_get (rp_index (rg_plan g)) k of
             Some i \<Rightarrow> g\<lparr>rg_dead := (rg_dead g)[i := True]\<rparr> | None \<Rightarrow> g) keys g"

fun refresh_loop ::
  "('tz, 'now) chrono_ops \<Rightarrow> 'r rng_ops \<Rightarrow> (json \<Rightarrow> string) \<Rightarrow> 'now \<Rightarrow> nat list
    \<Rightarrow> ('tz, 'r) req_gen \<Rightarrow> (string, string) btree_map \<Rightarrow> ('tz, 'r) req_gen \<times> (string, string) btree_map"
where
  "refresh_loop C R sh now [] g vs = (g, vs)"
| "refresh_loop C R sh now (i # is) g vs =
     (if rg_dead g ! i then refresh_loop C R sh now is g vs
      else case eval_gen C R sh (rp_specs (rg_plan g) ! i) now (rg_rng g) of (v, r') \<Rightarrow>
        refresh_loop C R sh now is (g\<lparr>rg_rng := r'\<rparr>) (bt_insert (rp_names (rg_plan g) ! i) v vs))"

definition refresh_vars ::
  "('tz, 'now) chrono_ops \<Rightarrow> 'r rng_ops \<Rightarrow> (json \<Rightarrow> string) \<Rightarrow> 'now \<Rightarrow> string
    \<Rightarrow> ('tz, 'r) req_gen \<Rightarrow> (string, string) btree_map \<Rightarrow> ('tz, 'r) req_gen \<times> (string, string) btree_map"
where
  "refresh_vars C R sh now sid g vs =
     (let ts = targets (rg_plan g) sid in
      if ts = [] then (g, vs) else refresh_loop C R sh now ts g vs)"

definition req_gen_fork :: "('r \<Rightarrow> 'r \<times> 'r) \<Rightarrow> ('tz, 'r) req_gen \<Rightarrow> ('tz, 'r) req_gen \<times> ('tz, 'r) req_gen" where
  "req_gen_fork fork g =
     (case fork (rg_rng g) of (child, r') \<Rightarrow>
        (\<lparr>rg_plan = rg_plan g, rg_rng = child, rg_dead = rg_dead g\<rparr>, g\<lparr>rg_rng := r'\<rparr>))"

subsection \<open>The plan's tables\<close>

lemma index_of_get:
  assumes "distinct names" and "i < length names"
  shows "hm_get (index_of names) (names ! i) = Some i"
proof -
  let ?z = "zip names [0..<length names]"
  have "map_of (rev ?z) (names ! i) = Some i"
  proof (rule map_of_is_SomeI)
    show "distinct (map fst (rev ?z))" using assms by (simp add: rev_map [symmetric])
    show "(names ! i, i) \<in> set (rev ?z)" using assms by (auto simp: set_zip)
  qed
  then show ?thesis
    using hm.get_puts [of "[]" ?z "names ! i"] by (simp add: index_of_def hm_ok_def)
qed

lemma index_of_range: "hm_get (index_of names) n = Some i \<Longrightarrow> i < length names \<and> names ! i = n"
proof -
  assume "hm_get (index_of names) n = Some i"
  then have "map_of (rev (zip names [0..<length names])) n = Some i"
    using hm.get_puts [of "[]" "zip names [0..<length names]" n]
    by (simp add: index_of_def hm_ok_def hm_get_def split: option.splits)
  then have "(n, i) \<in> set (zip names [0..<length names])" by (auto dest: map_of_SomeD)
  then show ?thesis by (auto simp: set_zip)
qed

lemma by_step_union_mono:
  "i \<in> set (entry_of m k) \<Longrightarrow> i \<in> set (entry_of (by_step_union fj denv index hs m) k)"
proof (induction hs arbitrary: m)
  case Nil
  then show ?case by simp
next
  case (Cons h hs)
  then show ?case by (cases "k = hs_id h") (simp_all add: Let_def Cons.IH)
qed

lemma by_step_union_refs:
  "h \<in> set hs \<Longrightarrow> i \<in> set (request_flow_refs fj (hs_request h) denv index) \<Longrightarrow>
   i \<in> set (entry_of (by_step_union fj denv index hs m) (hs_id h))"
proof (induction hs arbitrary: m)
  case Nil
  then show ?case by simp
next
  case (Cons h' hs)
  show ?case
  proof (cases "h = h'")
    case True
    then have "request_flow_refs fj (hs_request h') denv index \<noteq> []" using Cons.prems by auto
    then show ?thesis
      using Cons.prems True by (simp add: Let_def by_step_union_mono)
  next
    case False
    then show ?thesis using Cons by (auto simp: Let_def)
  qed
qed

lemma by_step_union_range:
  assumes "\<forall>k. \<forall>j \<in> set (entry_of m k). j < N"
    and "\<And>h :: http_step. \<forall>j \<in> set (request_flow_refs fj (hs_request h) denv index). j < N"
  shows "\<forall>j \<in> set (entry_of (by_step_union fj denv index hs m) sid). j < N"
  using assms(1)
proof (induction hs arbitrary: m)
  case Nil
  then show ?case by simp
next
  case (Cons h hs)
  let ?m = "hm_put (hs_id h) (remdups (sort (entry_of m (hs_id h) @ request_flow_refs fj (hs_request h) denv index))) m"
  have "\<forall>k. \<forall>j \<in> set (entry_of ?m k). j < N" using Cons.prems assms(2) [of h] by auto
  from Cons.IH [OF this] Cons.IH [OF Cons.prems] show ?case by (simp add: Let_def)
qed

lemma flow_refs_mem:
  "i \<in> set (request_flow_refs fj req denv index) \<longleftrightarrow>
   (\<exists>n \<in> set (collect_request fj req denv). hm_get index n = Some i)"
  by (force simp: request_flow_refs_def map_filter_def)

subsection \<open>Refreshing\<close>

lemma refresh_loop_frame:
  assumes "refresh_loop C R sh now is g vs = (g', vs')"
  shows "rg_dead g' = rg_dead g \<and> rg_plan g' = rg_plan g
    \<and> (\<forall>n. n \<notin> {rp_names (rg_plan g) ! i | i. i \<in> set is \<and> \<not> rg_dead g ! i} \<longrightarrow> bt_get vs' n = bt_get vs n)"
  using assms
proof (induction C R sh now "is" g vs rule: refresh_loop.induct)
  case (1 C R sh now g vs)
  then show ?case by simp
next
  case (2 C R sh now i "is" g vs)
  show ?case
  proof (cases "rg_dead g ! i")
    case True
    with 2 show ?thesis by auto
  next
    case False
    obtain v r' where v: "eval_gen C R sh (rp_specs (rg_plan g) ! i) now (rg_rng g) = (v, r')" by fastforce
    from "2.prems" False v have
      "refresh_loop C R sh now is (g\<lparr>rg_rng := r'\<rparr>) (bt_insert (rp_names (rg_plan g) ! i) v vs) = (g', vs')"
      by simp
    note IH = "2.IH"(2) [OF False v [symmetric] this, simplified]
    have "bt_get vs' n = bt_get vs n"
      if n: "n \<notin> {rp_names (rg_plan g) ! k | k. k \<in> set (i # is) \<and> \<not> rg_dead g ! k}" for n
    proof -
      have "n \<noteq> rp_names (rg_plan g) ! i"
        and "n \<notin> {rp_names (rg_plan g) ! k | k. k \<in> set is \<and> \<not> rg_dead g ! k}"
        using n False by auto
      then show ?thesis using IH by (auto simp: bt_get_insert)
    qed
    then show ?thesis using IH by blast
  qed
qed

lemma nth_update_any: "i < length xs \<Longrightarrow> xs[j := v] ! i = (if i = j then v else xs ! i)"
  by (cases "i = j") auto

lemma mark_written_frame:
  "rg_plan (mark_written keys g) = rg_plan g \<and> length (rg_dead (mark_written keys g)) = length (rg_dead g)
   \<and> (\<forall>i < length (rg_dead g). rg_dead (mark_written keys g) ! i \<longleftrightarrow>
        rg_dead g ! i \<or> (\<exists>k \<in> set keys. hm_get (rp_index (rg_plan g)) k = Some i))"
proof (induction keys arbitrary: g)
  case Nil
  then show ?case by (simp add: mark_written_def)
next
  case (Cons k keys)
  show ?case
  proof (cases "hm_get (rp_index (rg_plan g)) k")
    case None
    with Cons.IH [of g] show ?thesis by (simp add: mark_written_def)
  next
    case (Some j)
    with Cons.IH [of "g\<lparr>rg_dead := (rg_dead g)[j := True]\<rparr>"] show ?thesis
      by (auto simp: mark_written_def nth_update_any split: if_splits)
  qed
qed


lemma request_vars_subset: "fst ` set (request_vars vs) \<subseteq> fst ` set vs"
proof (induction vs)
  case Nil
  then show ?case by simp
next
  case (Cons kd vs)
  then show ?case by (cases kd) (auto split: var_decl.splits refresh.splits)
qed

lemma request_vars_keys: "distinct (map fst vs) \<Longrightarrow> distinct (map fst (request_vars vs))"
proof (induction vs)
  case Nil
  then show ?case by simp
next
  case (Cons kd vs)
  then show ?case
    using request_vars_subset [of vs] by (cases kd) (auto split: var_decl.splits refresh.splits)
qed

lemma build_plan_props:
  assumes "build_plan fj sc = Some plan" and "bt_ok (sc_variables sc)"
  shows "distinct (rp_names plan)" "rp_index plan = index_of (rp_names plan)"
    "length (rp_specs plan) = length (rp_names plan)"
    "\<exists>denv. rp_by_step plan = by_step_union fj denv (rp_index plan) (collect_http (sc_steps sc)) []"
proof -
  have d: "distinct (map fst (sc_variables sc))"
    using assms(2) by (simp add: bt_ok_def strict_sorted_iff)
  show "distinct (rp_names plan)"
    using assms(1) request_vars_keys [OF d] by (auto simp: build_plan_def Let_def split: if_splits)
qed (use assms(1) in \<open>auto simp: build_plan_def Let_def split: if_splits\<close>)

subsection \<open>Properties\<close>

text \<open>
  the static reference analysis is complete: a \<^verbatim>\<open>refresh: request\<close> variable that is not a
  target of an HTTP step (anywhere in the scenario: loops, branches, parallel nodes) cannot
  influence the request of that step, in any field and with any JSON cast. So refreshing only
  the targets right before a request is indistinguishable from refreshing every variable.
\<close>

theorem refresh_targets_complete:
  assumes "build_plan fj sc = Some plan" and "bt_ok (sc_variables sc)"
    and "st \<in> set (collect_http (sc_steps sc))"
    and "i < length (rp_names plan)" and "i \<notin> set (targets plan (hs_id st))"
  shows "build_request fj' H st (ctx\<lparr>vars := bt_insert (rp_names plan ! i) x (vars ctx)\<rparr>)
       = build_request fj' H st ctx"
proof -
  note p = build_plan_props [OF assms(1,2)]
  obtain denv where b: "rp_by_step plan = by_step_union fj denv (rp_index plan) (collect_http (sc_steps sc)) []"
    using p(4) by blast
  have "i \<notin> set (request_flow_refs fj (hs_request st) denv (rp_index plan))"
    using assms(5) by_step_union_refs [OF assms(3)] unfolding targets_def b by blast
  moreover have "hm_get (rp_index plan) (rp_names plan ! i) = Some i"
    using index_of_get [OF p(1) assms(4)] p(2) by simp
  ultimately have "rp_names plan ! i \<notin> set (collect_request fj (hs_request st) denv)"
    unfolding flow_refs_mem by blast
  then show ?thesis by (rule build_request_set_var)
qed

definition demo_scenario :: "unit scenario" where
  "demo_scenario = \<lparr>sc_version = 1, sc_name = ''d'',
     sc_variables = [(''a'', VGen GUuid RequestR), (''b'', VGen GUuid RequestR)],
     sc_cookie_jar = JarAuto, sc_default_think = None, sc_notes = None,
     sc_steps = [StHttp (demo_step\<lparr>hs_request := (hs_request demo_step)\<lparr>rq_url := ''{{b}}''\<rparr>\<rparr>)]\<rparr>"

lemma demo_plan:
  "\<exists>plan. build_plan (\<lambda>_. None) demo_scenario = Some plan
     \<and> rp_names plan = [''a'', ''b''] \<and> targets plan ''s1'' = [1]"
proof -
  have "\<not> Option.is_none (build_plan (\<lambda>_. None) demo_scenario)"
    "rp_names (the (build_plan (\<lambda>_. None) demo_scenario)) = [''a'', ''b'']"
    "targets (the (build_plan (\<lambda>_. None) demo_scenario)) ''s1'' = [1]"
    by code_simp+
  then show ?thesis by (cases "build_plan (\<lambda>_. None) demo_scenario") auto
qed

theorem refresh_targets_complete_witness:
  "build_request (\<lambda>_. None) demo_http (demo_step\<lparr>hs_request := (hs_request demo_step)\<lparr>rq_url := ''{{b}}''\<rparr>\<rparr>)
     (demo_ctx\<lparr>vars := bt_insert ''a'' ''1'' (vars demo_ctx)\<rparr>)
   = build_request (\<lambda>_. None) demo_http (demo_step\<lparr>hs_request := (hs_request demo_step)\<lparr>rq_url := ''{{b}}''\<rparr>\<rparr>) demo_ctx"
proof -
  let ?st = "demo_step\<lparr>hs_request := (hs_request demo_step)\<lparr>rq_url := ''{{b}}''\<rparr>\<rparr>"
  obtain plan where pl: "build_plan (\<lambda>_. None) demo_scenario = Some plan"
    and n: "rp_names plan = [''a'', ''b'']" and t: "targets plan ''s1'' = [1]"
    using demo_plan by blast
  have "bt_ok (sc_variables demo_scenario)" by (simp add: demo_scenario_def bt_ok_def)
  moreover have "?st \<in> set (collect_http (sc_steps demo_scenario))" by (simp add: demo_scenario_def)
  moreover have "0 \<notin> set (targets plan (hs_id ?st))" using t by (simp add: demo_step_def)
  ultimately show ?thesis
    using refresh_targets_complete [OF pl, where st = ?st and i = 0 and fj' = "\<lambda>_. None"
      and H = demo_http and ctx = demo_ctx and x = "''1''"] n
    by simp
qed

text \<open>
  precedence of values. Once a data set row or an extraction has written a variable, no
  later refresh of that iteration overwrites it; and a refresh before a step changes nothing but
  the step's targets.
\<close>

theorem refresh_respects_writes:
  assumes "build_plan fj sc = Some plan" and "bt_ok (sc_variables sc)"
    and "rg_plan g = plan" and "length (rg_dead g) = length (rp_names plan)"
    and "refresh_vars C R sh now sid (mark_written keys g) vs = (g', vs')"
  shows "(\<forall>k \<in> set keys. bt_get vs' k = bt_get vs k)
    \<and> (\<forall>n. n \<notin> {rp_names plan ! i | i. i \<in> set (targets plan sid)} \<longrightarrow> bt_get vs' n = bt_get vs n)
    \<and> rg_dead g' = rg_dead (mark_written keys g)"
proof -
  note p = build_plan_props [OF assms(1,2)]
  let ?g = "mark_written keys g"
  note m = mark_written_frame [of keys g]
  have frame: "rg_dead g' = rg_dead ?g"
    "n \<notin> {rp_names plan ! i | i. i \<in> set (targets plan sid) \<and> \<not> rg_dead ?g ! i} \<Longrightarrow> bt_get vs' n = bt_get vs n" for n
    using assms(5) refresh_loop_frame [of C R sh now "targets plan sid" ?g vs g' vs'] m assms(3)
    by (auto simp: refresh_vars_def Let_def split: if_splits)
  have "bt_get vs' k = bt_get vs k" if k: "k \<in> set keys" for k
  proof (rule frame(2), clarify)
    fix i assume i: "i \<in> set (targets plan sid)" "\<not> rg_dead ?g ! i" "k = rp_names plan ! i"
    show False
    proof (cases "i < length (rp_names plan)")
      case True
      then have "hm_get (rp_index plan) k = Some i" using index_of_get [OF p(1)] p(2) i(3) by simp
      with True k i(2) m assms(3,4) show False by auto
    next
      case False
      obtain denv where b: "rp_by_step plan = by_step_union fj denv (rp_index plan) (collect_http (sc_steps sc)) []"
        using p(4) by blast
      have "\<forall>j \<in> set (entry_of (rp_by_step plan) sid). j < length (rp_names plan)"
        unfolding b
      proof (rule by_step_union_range)
        show "\<forall>j \<in> set (request_flow_refs fj (hs_request h) denv (rp_index plan)). j < length (rp_names plan)" for h
          unfolding p(2) by (auto simp: flow_refs_mem dest: index_of_range)
      qed (simp add: entry_of_def hm_get_def)
      then show False using i(1) False by (auto simp: targets_def)
    qed
  qed
  with frame show ?thesis by blast
qed

theorem refresh_respects_writes_witness:
  "\<exists>plan. build_plan (\<lambda>_. None) demo_scenario = Some plan
     \<and> bt_get (snd (refresh_vars demo_chrono counter_rng (\<lambda>_. []) 0 ''s1''
         (mark_written [''b''] \<lparr>rg_plan = plan, rg_rng = 0, rg_dead = [False, False]\<rparr>) [(''b'', ''set'')])) ''b''
       = Some ''set''"
proof -
  obtain plan where pl: "build_plan (\<lambda>_. None) demo_scenario = Some plan"
    and n: "rp_names plan = [''a'', ''b'']"
    using demo_plan by blast
  have ok: "bt_ok (sc_variables demo_scenario)" by (simp add: demo_scenario_def bt_ok_def)
  let ?g = "\<lparr>rg_plan = plan, rg_rng = 0, rg_dead = [False, False]\<rparr>"
  obtain g' vs' where r: "refresh_vars demo_chrono counter_rng (\<lambda>_. []) 0 ''s1'' (mark_written [''b''] ?g)
      [(''b'', ''set'')] = (g', vs')" by fastforce
  from refresh_respects_writes [OF pl ok _ _ r] have "bt_get vs' ''b'' = Some ''set''"
    by (simp add: n bt_get_def)
  with pl r show ?thesis by auto
qed

end
