(* ===== verification/Aggregator.thy ===== *)
theory Aggregator
  imports Std_Map Engine_Error
begin

text \<open>
  \<^verbatim>\<open>engine/src/aggregator.rs\<close>: the per-second step windows and the delta counters of a worker.
  Histograms (hdrhistogram) are a parameter type \<open>'h\<close> with its constructor and \<^verbatim>\<open>record\<close>; the
  wall clock second is an argument. Counters are \<^verbatim>\<open>u64\<close> in the code and \<^typ>\<open>nat\<close> here.

  The locale \<open>delta_counter\<close> is the contract every counter of the aggregator satisfies: what is
  recorded is drained exactly once, however recording and draining interleave.
\<close>

subsection \<open>The contract of a delta counter\<close>

definition sum_key :: "'k \<Rightarrow> ('k \<times> nat) list \<Rightarrow> nat" where
  "sum_key k d = (\<Sum>(k', n)\<leftarrow>d. if k' = k then n else 0)"

lemma sum_key_simps [simp]:
  "sum_key k [] = 0" "sum_key k ((k', n) # d) = (if k' = k then n else 0) + sum_key k d"
  "sum_key k (d @ d') = sum_key k d + sum_key k d'"
  by (simp_all add: sum_key_def)

lemma sum_key_notin: "k \<notin> fst ` set d \<Longrightarrow> sum_key k d = 0"
  by (induction d) (auto split: prod.splits)

text \<open>Draining a hash map, whatever the order of its entries.\<close>

lemma sum_key_map:
  "distinct (map fst m) \<Longrightarrow>
   sum_key k (map (\<lambda>(k', v). (k', f v)) m) = (case map_of m k of None \<Rightarrow> 0 | Some v \<Rightarrow> f v)"
proof (induction m)
  case Nil
  then show ?case by simp
next
  case (Cons kv m)
  obtain a v where kv: "kv = (a, v)" by (cases kv)
  show ?case
  proof (cases "a = k")
    case True
    then have "k \<notin> fst ` set m" using Cons.prems by (simp add: kv)
    then have "map_of m k = None" by (simp add: map_of_eq_None_iff)
    then show ?thesis using True Cons by (simp add: kv)
  next
    case False
    then show ?thesis using Cons by (simp add: kv)
  qed
qed

locale delta_counter =
  fixes step :: "'op \<Rightarrow> 's \<Rightarrow> ('k \<times> nat) list \<times> 's"
    and inc :: "'op \<Rightarrow> 'k \<Rightarrow> nat"
    and cnt :: "'s \<Rightarrow> 'k \<Rightarrow> nat"
    and ok :: "'s \<Rightarrow> bool"
  assumes ok_step: "ok s \<Longrightarrow> ok (snd (step x s))"
    and balance: "ok s \<Longrightarrow> sum_key k (fst (step x s)) + cnt (snd (step x s)) k = cnt s k + inc x k"
begin

primrec run :: "'op list \<Rightarrow> 's \<Rightarrow> ('k \<times> nat) list \<times> 's" where
  "run [] s = ([], s)"
| "run (x # xs) s = (let r1 = step x s; r2 = run xs (snd r1) in (fst r1 @ fst r2, snd r2))"

lemma run_ok: "ok s \<Longrightarrow> ok (snd (run xs s))"
  by (induction xs arbitrary: s) (simp_all add: Let_def ok_step)

lemma conservation:
  "ok s \<Longrightarrow> sum_key k (fst (run xs s)) + cnt (snd (run xs s)) k = cnt s k + (\<Sum>x\<leftarrow>xs. inc x k)"
proof (induction xs arbitrary: s)
  case Nil
  then show ?case by simp
next
  case (Cons x xs)
  from Cons.IH [OF ok_step [OF Cons.prems, of x]] balance [OF Cons.prems, of k x] show ?case
    by (simp add: Let_def)
qed

lemma drained_at_most: "ok s \<Longrightarrow> sum_key k (fst (run xs s)) \<le> cnt s k + (\<Sum>x\<leftarrow>xs. inc x k)"
  using conservation [of s k xs] by linarith

end

subsection \<open>Data\<close>

definition loop_overflow :: nat where "loop_overflow = u32_max"

record loop_stat =
  ls_step_id :: string
  ls_loop_index :: nat
  ls_count :: nat
  ls_error_count :: nat

record loop_count =
  lc_count :: nat
  lc_error_count :: nat

record branch_stat =
  bs_step_id :: string
  bs_branch :: string
  bs_count :: nat

record error_kind_stat =
  eks_step_id :: string
  eks_kind :: error_kind
  eks_count :: nat

record active_vu_sample =
  av_ts_second :: int
  av_desired :: nat
  av_actual :: nat

record 'h group_stat =
  gs_step_id :: string
  gs_branch :: string
  gs_histogram :: 'h
  gs_count :: nat

record 'h phase_stat =
  ps_step_id :: string
  ps_phase :: string
  ps_histogram :: 'h
  ps_count :: nat

record 'h step_window =
  sw_step_id :: string
  sw_ts_second :: int
  sw_count :: nat
  sw_error_count :: nat
  sw_status_counts :: "(nat, nat) hash_map"
  sw_histogram :: 'h

record 'h hist_ops =
  h_new :: 'h
  h_record :: "nat \<Rightarrow> 'h \<Rightarrow> 'h"

record 'h aggregator =
  ag_windows :: "(string \<times> int, 'h step_window) hash_map"
  ag_loop_counts :: "(string \<times> nat, loop_count) hash_map"
  ag_loop_cap :: nat
  ag_branch_counts :: "(string \<times> string, nat) hash_map"
  ag_error_kind_counts :: "(string \<times> error_kind, nat) hash_map"
  ag_group_hists :: "(string \<times> string, 'h \<times> nat) hash_map"
  ag_phase_hists :: "(string \<times> string, 'h \<times> nat) hash_map"
  ag_active_vu :: "(int, nat \<times> nat) btree_map"

subsection \<open>Operations\<close>

definition window_new :: "'h hist_ops \<Rightarrow> string \<Rightarrow> int \<Rightarrow> 'h step_window" where
  "window_new H sid ts = \<lparr>sw_step_id = sid, sw_ts_second = ts, sw_count = 0, sw_error_count = 0,
     sw_status_counts = [], sw_histogram = h_new H\<rparr>"

definition clamp_us :: "nat \<Rightarrow> nat" where
  "clamp_us v = max 1 (min v 60000000)"

definition get_or :: "'v \<Rightarrow> ('k, 'v) hash_map \<Rightarrow> 'k \<Rightarrow> 'v" where
  "get_or d m k = (case hm_get m k of Some v \<Rightarrow> v | None \<Rightarrow> d)"

definition window_record :: "'h hist_ops \<Rightarrow> nat \<Rightarrow> nat \<Rightarrow> bool \<Rightarrow> 'h step_window \<Rightarrow> 'h step_window" where
  "window_record H latency_us status is_error w =
     w\<lparr>sw_histogram := h_record H (clamp_us latency_us) (sw_histogram w),
       sw_count := sw_count w + 1,
       sw_error_count := (if is_error then sw_error_count w + 1 else sw_error_count w),
       sw_status_counts := hm_put status (get_or 0 (sw_status_counts w) status + 1) (sw_status_counts w)\<rparr>"

definition agg_new :: "nat \<Rightarrow> 'h aggregator" where
  "agg_new cap = \<lparr>ag_windows = [], ag_loop_counts = [], ag_loop_cap = cap, ag_branch_counts = [],
     ag_error_kind_counts = [], ag_group_hists = [], ag_phase_hists = [], ag_active_vu = []\<rparr>"

definition loop_bucket :: "nat \<Rightarrow> nat \<Rightarrow> nat" where
  "loop_bucket cap i = (if i < cap then i else loop_overflow)"

definition record_loop :: "string \<Rightarrow> bool \<Rightarrow> nat option \<Rightarrow> 'h aggregator \<Rightarrow> 'h aggregator" where
  "record_loop sid is_error loop_index a =
     (if ag_loop_cap a > 0 then
        (case loop_index of
           None \<Rightarrow> a
         | Some i \<Rightarrow>
             let key = (sid, loop_bucket (ag_loop_cap a) i);
                 c = get_or \<lparr>lc_count = 0, lc_error_count = 0\<rparr> (ag_loop_counts a) key
             in a\<lparr>ag_loop_counts := hm_put key
                  \<lparr>lc_count = lc_count c + 1,
                   lc_error_count = (if is_error then lc_error_count c + 1 else lc_error_count c)\<rparr>
                  (ag_loop_counts a)\<rparr>)
      else a)"

definition agg_record ::
  "'h hist_ops \<Rightarrow> int \<Rightarrow> string \<Rightarrow> nat \<Rightarrow> nat \<Rightarrow> bool \<Rightarrow> nat option \<Rightarrow> 'h aggregator \<Rightarrow> 'h aggregator" where
  "agg_record H ts sid latency_us status is_error loop_index a =
     (let key = (sid, ts); w = get_or (window_new H sid ts) (ag_windows a) key
      in record_loop sid is_error loop_index
           (a\<lparr>ag_windows := hm_put key (window_record H latency_us status is_error w) (ag_windows a)\<rparr>))"

definition drain_loop_deltas :: "'h aggregator \<Rightarrow> loop_stat list \<times> 'h aggregator" where
  "drain_loop_deltas a =
     (map (\<lambda>((sid, i), c). \<lparr>ls_step_id = sid, ls_loop_index = i, ls_count = lc_count c,
         ls_error_count = lc_error_count c\<rparr>) (ag_loop_counts a), a\<lparr>ag_loop_counts := []\<rparr>)"

definition bump :: "'k \<Rightarrow> ('k, nat) hash_map \<Rightarrow> ('k, nat) hash_map" where
  "bump k m = hm_put k (get_or 0 m k + 1) m"

definition record_branch :: "string \<Rightarrow> string \<Rightarrow> 'h aggregator \<Rightarrow> 'h aggregator" where
  "record_branch sid br a = a\<lparr>ag_branch_counts := bump (sid, br) (ag_branch_counts a)\<rparr>"

definition drain_branch_deltas :: "'h aggregator \<Rightarrow> branch_stat list \<times> 'h aggregator" where
  "drain_branch_deltas a =
     (map (\<lambda>((sid, br), n). \<lparr>bs_step_id = sid, bs_branch = br, bs_count = n\<rparr>) (ag_branch_counts a),
      a\<lparr>ag_branch_counts := []\<rparr>)"

definition record_error_kind :: "string \<Rightarrow> error_kind \<Rightarrow> 'h aggregator \<Rightarrow> 'h aggregator" where
  "record_error_kind sid kind a = a\<lparr>ag_error_kind_counts := bump (sid, kind) (ag_error_kind_counts a)\<rparr>"

definition drain_error_kind_deltas :: "'h aggregator \<Rightarrow> error_kind_stat list \<times> 'h aggregator" where
  "drain_error_kind_deltas a =
     (map (\<lambda>((sid, k), n). \<lparr>eks_step_id = sid, eks_kind = k, eks_count = n\<rparr>) (ag_error_kind_counts a),
      a\<lparr>ag_error_kind_counts := []\<rparr>)"

definition hist_bump :: "'h hist_ops \<Rightarrow> nat \<Rightarrow> 'k \<Rightarrow> ('k, 'h \<times> nat) hash_map \<Rightarrow> ('k, 'h \<times> nat) hash_map" where
  "hist_bump H latency_us k m =
     (case get_or (h_new H, 0) m k of (h, n) \<Rightarrow> hm_put k (h_record H (clamp_us latency_us) h, n + 1) m)"

definition record_group :: "'h hist_ops \<Rightarrow> string \<Rightarrow> string \<Rightarrow> nat \<Rightarrow> 'h aggregator \<Rightarrow> 'h aggregator" where
  "record_group H sid br latency_us a =
     a\<lparr>ag_group_hists := hist_bump H latency_us (sid, br) (ag_group_hists a)\<rparr>"

definition drain_group_deltas :: "'h aggregator \<Rightarrow> 'h group_stat list \<times> 'h aggregator" where
  "drain_group_deltas a =
     (map (\<lambda>((sid, br), (h, n)). \<lparr>gs_step_id = sid, gs_branch = br, gs_histogram = h, gs_count = n\<rparr>)
        (ag_group_hists a), a\<lparr>ag_group_hists := []\<rparr>)"

definition record_phase :: "'h hist_ops \<Rightarrow> string \<Rightarrow> string \<Rightarrow> nat \<Rightarrow> 'h aggregator \<Rightarrow> 'h aggregator" where
  "record_phase H sid ph latency_us a =
     a\<lparr>ag_phase_hists := hist_bump H latency_us (sid, ph) (ag_phase_hists a)\<rparr>"

definition drain_phase_deltas :: "'h aggregator \<Rightarrow> 'h phase_stat list \<times> 'h aggregator" where
  "drain_phase_deltas a =
     (map (\<lambda>((sid, ph), (h, n)). \<lparr>ps_step_id = sid, ps_phase = ph, ps_histogram = h, ps_count = n\<rparr>)
        (ag_phase_hists a), a\<lparr>ag_phase_hists := []\<rparr>)"

definition record_active_vu :: "int \<Rightarrow> nat \<Rightarrow> nat \<Rightarrow> 'h aggregator \<Rightarrow> 'h aggregator" where
  "record_active_vu ts desired actual a = a\<lparr>ag_active_vu := bt_insert ts (desired, actual) (ag_active_vu a)\<rparr>"

definition active_sample :: "int \<times> nat \<times> nat \<Rightarrow> active_vu_sample" where
  "active_sample p = (case p of (ts, d, n) \<Rightarrow> \<lparr>av_ts_second = ts, av_desired = d, av_actual = n\<rparr>)"

definition drain_active_vu_completed :: "int \<Rightarrow> 'h aggregator \<Rightarrow> active_vu_sample list \<times> 'h aggregator" where
  "drain_active_vu_completed up_to a =
     (map active_sample (filter (\<lambda>(ts, _). ts < up_to) (ag_active_vu a)),
      a\<lparr>ag_active_vu := filter (\<lambda>(ts, _). \<not> ts < up_to) (ag_active_vu a)\<rparr>)"

definition drain_active_vu :: "'h aggregator \<Rightarrow> active_vu_sample list \<times> 'h aggregator" where
  "drain_active_vu a = (map active_sample (ag_active_vu a), a\<lparr>ag_active_vu := []\<rparr>)"

definition drain_completed :: "int \<Rightarrow> 'h aggregator \<Rightarrow> 'h step_window list \<times> 'h aggregator" where
  "drain_completed up_to a =
     (map snd (filter (\<lambda>((_, ts), _). ts < up_to) (ag_windows a)),
      a\<lparr>ag_windows := filter (\<lambda>((_, ts), _). \<not> ts < up_to) (ag_windows a)\<rparr>)"

definition drain_all :: "'h aggregator \<Rightarrow> 'h step_window list \<times> 'h aggregator" where
  "drain_all a = (map snd (ag_windows a), a\<lparr>ag_windows := []\<rparr>)"


subsection \<open>Every counter meets the contract\<close>

definition agg_ok :: "'h aggregator \<Rightarrow> bool" where
  "agg_ok a = (hm_ok (ag_windows a) \<and> hm_ok (ag_loop_counts a) \<and> hm_ok (ag_branch_counts a)
     \<and> hm_ok (ag_error_kind_counts a) \<and> hm_ok (ag_group_hists a) \<and> hm_ok (ag_phase_hists a)
     \<and> bt_ok (ag_active_vu a)
     \<and> (\<forall>k w. hm_get (ag_windows a) k = Some w \<longrightarrow>
          (sw_step_id w, sw_ts_second w) = k \<and> hm_ok (sw_status_counts w)))"

lemma get_or_put [simp]: "get_or d (hm_put k v m) k' = (if k' = k then v else get_or d m k')"
  by (simp add: get_or_def)

lemma get_or_Nil: "get_or d [] k = d"
  by (simp add: get_or_def hm_get_def)

lemma hm_ok_Nil [simp]: "hm_ok []"
  by (simp add: hm_ok_def)

lemma get_or_bump: "get_or 0 (bump k m) k' = get_or 0 m k' + of_bool (k' = k)"
  by (simp add: bump_def)

lemma hm_ok_bump [simp]: "hm_ok m \<Longrightarrow> hm_ok (bump k m)"
  by (simp add: bump_def)

lemma hm_ok_hist_bump [simp]: "hm_ok m \<Longrightarrow> hm_ok (hist_bump H v k m)"
  by (simp add: hist_bump_def split: prod.split)

lemma get_or_hist_bump:
  "snd (get_or (h_new H, 0) (hist_bump H v k m) k') = snd (get_or (h_new H, 0) m k') + of_bool (k' = k)"
  by (auto simp: hist_bump_def split: prod.split)

lemma sum_key_get_or:
  "hm_ok m \<Longrightarrow> f d = 0 \<Longrightarrow> sum_key k (map (\<lambda>(k', v). (k', f v)) m) = f (get_or d m k)"
  by (simp add: hm_ok_def get_or_def hm_get_def sum_key_map split: option.split)

lemma sum_key_counts: "hm_ok m \<Longrightarrow> sum_key k m = get_or 0 m k"
  using sum_key_get_or [of m "\<lambda>v. v" 0 k] by (simp add: case_prod_beta)

subsubsection \<open>Operation sequences\<close>

text \<open>The operations of one aggregator as a worker issues them, with their output.\<close>

datatype agg_op =
    OpRecord int string nat nat bool "nat option"
  | OpBranch string string
  | OpKind string error_kind
  | OpGroup string string nat
  | OpPhase string string nat
  | OpActive int nat nat
  | OpDrainLoops | OpDrainBranches | OpDrainKinds | OpDrainGroups | OpDrainPhases
  | OpDrainActive int | OpDrainAllActive
  | OpDrainCompleted int | OpDrainAll

datatype 'h agg_out =
    OutNone
  | OutLoops "loop_stat list"
  | OutBranches "branch_stat list"
  | OutKinds "error_kind_stat list"
  | OutGroups "'h group_stat list"
  | OutPhases "'h phase_stat list"
  | OutActive "active_vu_sample list"
  | OutWindows "'h step_window list"

definition agg_step :: "'h hist_ops \<Rightarrow> agg_op \<Rightarrow> 'h aggregator \<Rightarrow> 'h agg_out \<times> 'h aggregator" where
  "agg_step H x a = (case x of
     OpRecord ts sid lat st err li \<Rightarrow> (OutNone, agg_record H ts sid lat st err li a)
   | OpBranch sid br \<Rightarrow> (OutNone, record_branch sid br a)
   | OpKind sid k \<Rightarrow> (OutNone, record_error_kind sid k a)
   | OpGroup sid br lat \<Rightarrow> (OutNone, record_group H sid br lat a)
   | OpPhase sid ph lat \<Rightarrow> (OutNone, record_phase H sid ph lat a)
   | OpActive ts d n \<Rightarrow> (OutNone, record_active_vu ts d n a)
   | OpDrainLoops \<Rightarrow> apfst OutLoops (drain_loop_deltas a)
   | OpDrainBranches \<Rightarrow> apfst OutBranches (drain_branch_deltas a)
   | OpDrainKinds \<Rightarrow> apfst OutKinds (drain_error_kind_deltas a)
   | OpDrainGroups \<Rightarrow> apfst OutGroups (drain_group_deltas a)
   | OpDrainPhases \<Rightarrow> apfst OutPhases (drain_phase_deltas a)
   | OpDrainActive ts \<Rightarrow> apfst OutActive (drain_active_vu_completed ts a)
   | OpDrainAllActive \<Rightarrow> apfst OutActive (drain_active_vu a)
   | OpDrainCompleted ts \<Rightarrow> apfst OutWindows (drain_completed ts a)
   | OpDrainAll \<Rightarrow> apfst OutWindows (drain_all a))"

primrec agg_run :: "'h hist_ops \<Rightarrow> agg_op list \<Rightarrow> 'h aggregator \<Rightarrow> 'h agg_out list \<times> 'h aggregator" where
  "agg_run H [] a = ([], a)"
| "agg_run H (x # xs) a =
     (let r1 = agg_step H x a; r2 = agg_run H xs (snd r1) in (fst r1 # fst r2, snd r2))"

text \<open>A counter that reads the outputs runs as the aggregator does.\<close>

lemma project_run:
  assumes "delta_counter (\<lambda>x a. apfst entries (agg_step H x a)) inc cnt ok"
  shows "delta_counter.run (\<lambda>x a. apfst entries (agg_step H x a)) xs a
       = apfst (\<lambda>outs. concat (map entries outs)) (agg_run H xs a)"
proof (induction xs arbitrary: a)
  case Nil
  then show ?case by (simp add: delta_counter.run.simps(1) [OF assms])
next
  case (Cons x xs)
  then show ?case
    by (simp add: delta_counter.run.simps(2) [OF assms] Let_def prod_eq_iff)
qed

lemmas agg_op_defs =
  agg_record_def record_loop_def record_branch_def record_error_kind_def record_group_def
  record_phase_def record_active_vu_def drain_loop_deltas_def drain_branch_deltas_def
  drain_error_kind_deltas_def drain_group_deltas_def drain_phase_deltas_def
  drain_active_vu_completed_def drain_active_vu_def drain_completed_def drain_all_def

subsubsection \<open>Counters kept in a hash map\<close>

fun branch_entries :: "'h agg_out \<Rightarrow> ((string \<times> string) \<times> nat) list" where
  "branch_entries (OutBranches bs) = map (\<lambda>b. ((bs_step_id b, bs_branch b), bs_count b)) bs"
| "branch_entries _ = []"

lemma branch_entries_conv [simp]:
  "branch_entries (OutBranches (map (\<lambda>((sid, br), n). \<lparr>bs_step_id = sid, bs_branch = br, bs_count = n\<rparr>) m)) = m"
  by (auto intro!: map_idI)

definition branch_inc :: "agg_op \<Rightarrow> string \<times> string \<Rightarrow> nat" where
  "branch_inc x k = (case x of OpBranch sid br \<Rightarrow> of_bool (k = (sid, br)) | _ \<Rightarrow> 0)"

interpretation branches: delta_counter "\<lambda>x a. apfst branch_entries (agg_step H x a)" branch_inc
  "\<lambda>a. get_or 0 (ag_branch_counts a)" "\<lambda>a. hm_ok (ag_branch_counts a)" for H :: "'h hist_ops"
proof unfold_locales
  fix a :: "'h aggregator" and x k
  assume ok: "hm_ok (ag_branch_counts a)"
  show "hm_ok (ag_branch_counts (snd (apfst branch_entries (agg_step H x a))))"
    using ok by (cases x) (simp_all add: agg_step_def agg_op_defs Let_def split: option.split)
  show "sum_key k (fst (apfst branch_entries (agg_step H x a)))
      + get_or 0 (ag_branch_counts (snd (apfst branch_entries (agg_step H x a)))) k
      = get_or 0 (ag_branch_counts a) k + branch_inc x k"
    using sum_key_counts [OF ok, of k]
    by (cases x) (simp_all add: agg_step_def agg_op_defs Let_def branch_inc_def get_or_bump
        get_or_Nil del: branch_entries.simps(1) split: option.split)
qed

fun kind_entries :: "'h agg_out \<Rightarrow> ((string \<times> error_kind) \<times> nat) list" where
  "kind_entries (OutKinds bs) = map (\<lambda>b. ((eks_step_id b, eks_kind b), eks_count b)) bs"
| "kind_entries _ = []"

lemma kind_entries_conv [simp]:
  "kind_entries (OutKinds (map (\<lambda>((sid, kd), n). \<lparr>eks_step_id = sid, eks_kind = kd, eks_count = n\<rparr>) m)) = m"
  by (auto intro!: map_idI)

definition kind_inc :: "agg_op \<Rightarrow> string \<times> error_kind \<Rightarrow> nat" where
  "kind_inc x k = (case x of OpKind sid kd \<Rightarrow> of_bool (k = (sid, kd)) | _ \<Rightarrow> 0)"

interpretation kinds: delta_counter "\<lambda>x a. apfst kind_entries (agg_step H x a)" kind_inc
  "\<lambda>a. get_or 0 (ag_error_kind_counts a)" "\<lambda>a. hm_ok (ag_error_kind_counts a)" for H :: "'h hist_ops"
proof unfold_locales
  fix a :: "'h aggregator" and x k
  assume ok: "hm_ok (ag_error_kind_counts a)"
  show "hm_ok (ag_error_kind_counts (snd (apfst kind_entries (agg_step H x a))))"
    using ok by (cases x) (simp_all add: agg_step_def agg_op_defs Let_def split: option.split)
  show "sum_key k (fst (apfst kind_entries (agg_step H x a)))
      + get_or 0 (ag_error_kind_counts (snd (apfst kind_entries (agg_step H x a)))) k
      = get_or 0 (ag_error_kind_counts a) k + kind_inc x k"
    using sum_key_counts [OF ok, of k]
    by (cases x) (simp_all add: agg_step_def agg_op_defs Let_def kind_inc_def get_or_bump
        get_or_Nil del: kind_entries.simps(1) split: option.split)
qed

text \<open>Group and phase sample counts.\<close>

fun group_entries :: "'h agg_out \<Rightarrow> ((string \<times> string) \<times> nat) list" where
  "group_entries (OutGroups bs) = map (\<lambda>b. ((gs_step_id b, gs_branch b), gs_count b)) bs"
| "group_entries _ = []"

lemma group_entries_conv [simp]:
  "group_entries (OutGroups (map (\<lambda>((sid, br), (h, n)).
     \<lparr>gs_step_id = sid, gs_branch = br, gs_histogram = h, gs_count = n\<rparr>) m)) = map (\<lambda>(k', v). (k', snd v)) m"
  by auto

definition group_inc :: "agg_op \<Rightarrow> string \<times> string \<Rightarrow> nat" where
  "group_inc x k = (case x of OpGroup sid br _ \<Rightarrow> of_bool (k = (sid, br)) | _ \<Rightarrow> 0)"

interpretation groups: delta_counter "\<lambda>x a. apfst group_entries (agg_step H x a)" group_inc
  "\<lambda>a k. snd (get_or (h_new H, 0) (ag_group_hists a) k)" "\<lambda>a. hm_ok (ag_group_hists a)" for H :: "'h hist_ops"
proof unfold_locales
  fix a :: "'h aggregator" and x k
  assume ok: "hm_ok (ag_group_hists a)"
  show "hm_ok (ag_group_hists (snd (apfst group_entries (agg_step H x a))))"
    using ok by (cases x) (simp_all add: agg_step_def agg_op_defs Let_def split: option.split)
  show "sum_key k (fst (apfst group_entries (agg_step H x a)))
      + snd (get_or (h_new H, 0) (ag_group_hists (snd (apfst group_entries (agg_step H x a)))) k)
      = snd (get_or (h_new H, 0) (ag_group_hists a) k) + group_inc x k"
    using sum_key_get_or [OF ok, of snd "(h_new H, 0)" k]
    by (cases x) (simp_all add: agg_step_def agg_op_defs Let_def group_inc_def get_or_hist_bump
        get_or_Nil del: group_entries.simps(1) split: option.split)
qed

fun phase_entries :: "'h agg_out \<Rightarrow> ((string \<times> string) \<times> nat) list" where
  "phase_entries (OutPhases bs) = map (\<lambda>b. ((ps_step_id b, ps_phase b), ps_count b)) bs"
| "phase_entries _ = []"

lemma phase_entries_conv [simp]:
  "phase_entries (OutPhases (map (\<lambda>((sid, ph), (h, n)).
     \<lparr>ps_step_id = sid, ps_phase = ph, ps_histogram = h, ps_count = n\<rparr>) m)) = map (\<lambda>(k', v). (k', snd v)) m"
  by auto

definition phase_inc :: "agg_op \<Rightarrow> string \<times> string \<Rightarrow> nat" where
  "phase_inc x k = (case x of OpPhase sid ph _ \<Rightarrow> of_bool (k = (sid, ph)) | _ \<Rightarrow> 0)"

interpretation phases: delta_counter "\<lambda>x a. apfst phase_entries (agg_step H x a)" phase_inc
  "\<lambda>a k. snd (get_or (h_new H, 0) (ag_phase_hists a) k)" "\<lambda>a. hm_ok (ag_phase_hists a)" for H :: "'h hist_ops"
proof unfold_locales
  fix a :: "'h aggregator" and x k
  assume ok: "hm_ok (ag_phase_hists a)"
  show "hm_ok (ag_phase_hists (snd (apfst phase_entries (agg_step H x a))))"
    using ok by (cases x) (simp_all add: agg_step_def agg_op_defs Let_def split: option.split)
  show "sum_key k (fst (apfst phase_entries (agg_step H x a)))
      + snd (get_or (h_new H, 0) (ag_phase_hists (snd (apfst phase_entries (agg_step H x a)))) k)
      = snd (get_or (h_new H, 0) (ag_phase_hists a) k) + phase_inc x k"
    using sum_key_get_or [OF ok, of snd "(h_new H, 0)" k]
    by (cases x) (simp_all add: agg_step_def agg_op_defs Let_def phase_inc_def get_or_hist_bump
        get_or_Nil del: phase_entries.simps(1) split: option.split)
qed


subsubsection \<open>Loop breakdown\<close>

fun loop_entries :: "(loop_stat \<Rightarrow> nat) \<Rightarrow> 'h agg_out \<Rightarrow> ((string \<times> nat) \<times> nat) list" where
  "loop_entries f (OutLoops bs) = map (\<lambda>b. ((ls_step_id b, ls_loop_index b), f b)) bs"
| "loop_entries f _ = []"

lemma loop_entries_conv:
  "loop_entries f (OutLoops (map (\<lambda>((sid, i), c). \<lparr>ls_step_id = sid, ls_loop_index = i,
      ls_count = lc_count c, ls_error_count = lc_error_count c\<rparr>) m))
   = map (\<lambda>(k', c). (k', f \<lparr>ls_step_id = fst k', ls_loop_index = snd k', ls_count = lc_count c,
       ls_error_count = lc_error_count c\<rparr>)) m"
  by auto

definition loop_inc :: "nat \<Rightarrow> (bool \<Rightarrow> nat) \<Rightarrow> agg_op \<Rightarrow> string \<times> nat \<Rightarrow> nat" where
  "loop_inc cap weight x k = (case x of
     OpRecord ts sid lat st err (Some i) \<Rightarrow>
       if 0 < cap \<and> k = (sid, loop_bucket cap i) then weight err else 0
   | _ \<Rightarrow> 0)"

abbreviation no_loop_count :: loop_count where
  "no_loop_count \<equiv> \<lparr>lc_count = 0, lc_error_count = 0\<rparr>"

definition loops_ok :: "nat \<Rightarrow> 'h aggregator \<Rightarrow> bool" where
  "loops_ok cap a = (hm_ok (ag_loop_counts a) \<and> ag_loop_cap a = cap)"

lemma loops_ok_step: "loops_ok cap a \<Longrightarrow> loops_ok cap (snd (agg_step H x a))"
  by (cases x) (auto simp: loops_ok_def agg_step_def agg_op_defs Let_def split: option.split)

interpretation loop_requests: delta_counter
  "\<lambda>x a. apfst (loop_entries ls_count) (agg_step H x a)" "loop_inc cap (\<lambda>_. 1)"
  "\<lambda>a k. lc_count (get_or no_loop_count (ag_loop_counts a) k)" "loops_ok cap"
  for H :: "'h hist_ops" and cap
proof unfold_locales
  fix a :: "'h aggregator" and x k
  assume ok: "loops_ok cap a"
  show "loops_ok cap (snd (apfst (loop_entries ls_count) (agg_step H x a)))"
    using loops_ok_step [OF ok] by simp
  show "sum_key k (fst (apfst (loop_entries ls_count) (agg_step H x a)))
      + lc_count (get_or no_loop_count (ag_loop_counts (snd (apfst (loop_entries ls_count) (agg_step H x a)))) k)
      = lc_count (get_or no_loop_count (ag_loop_counts a) k) + loop_inc cap (\<lambda>_. 1) x k"
    using sum_key_get_or [of "ag_loop_counts a" lc_count no_loop_count k] ok
    by (cases x) (auto simp: loops_ok_def agg_step_def agg_op_defs Let_def loop_inc_def
        get_or_Nil loop_entries_conv simp del: loop_entries.simps(1) split: option.split)
qed

interpretation loop_errors: delta_counter
  "\<lambda>x a. apfst (loop_entries ls_error_count) (agg_step H x a)" "loop_inc cap of_bool"
  "\<lambda>a k. lc_error_count (get_or no_loop_count (ag_loop_counts a) k)" "loops_ok cap"
  for H :: "'h hist_ops" and cap
proof unfold_locales
  fix a :: "'h aggregator" and x k
  assume ok: "loops_ok cap a"
  show "loops_ok cap (snd (apfst (loop_entries ls_error_count) (agg_step H x a)))"
    using loops_ok_step [OF ok] by simp
  show "sum_key k (fst (apfst (loop_entries ls_error_count) (agg_step H x a)))
      + lc_error_count (get_or no_loop_count (ag_loop_counts (snd (apfst (loop_entries ls_error_count) (agg_step H x a)))) k)
      = lc_error_count (get_or no_loop_count (ag_loop_counts a) k) + loop_inc cap of_bool x k"
    using sum_key_get_or [of "ag_loop_counts a" lc_error_count no_loop_count k] ok
    by (cases x) (auto simp: loops_ok_def agg_step_def agg_op_defs Let_def loop_inc_def
        get_or_Nil loop_entries_conv simp del: loop_entries.simps(1) split: option.split)
qed

subsubsection \<open>Step windows\<close>

fun window_entries :: "('h step_window \<Rightarrow> nat) \<Rightarrow> 'h agg_out \<Rightarrow> ((string \<times> int) \<times> nat) list" where
  "window_entries f (OutWindows ws) = map (\<lambda>w. ((sw_step_id w, sw_ts_second w), f w)) ws"
| "window_entries f _ = []"

definition window_inc :: "(nat \<Rightarrow> bool \<Rightarrow> nat) \<Rightarrow> agg_op \<Rightarrow> string \<times> int \<Rightarrow> nat" where
  "window_inc weight x k = (case x of
     OpRecord ts sid lat st err li \<Rightarrow> if k = (sid, ts) then weight st err else 0 | _ \<Rightarrow> 0)"

definition window_cnt :: "('h step_window \<Rightarrow> nat) \<Rightarrow> 'h aggregator \<Rightarrow> string \<times> int \<Rightarrow> nat" where
  "window_cnt f a k = (case hm_get (ag_windows a) k of None \<Rightarrow> 0 | Some w \<Rightarrow> f w)"

definition windows_ok :: "'h aggregator \<Rightarrow> bool" where
  "windows_ok a = (hm_ok (ag_windows a) \<and> (\<forall>(k, w) \<in> set (ag_windows a). (sw_step_id w, sw_ts_second w) = k))"

lemma hm_put_set: "hm_ok m \<Longrightarrow> set (hm_put k v m) = insert (k, v) {p \<in> set m. fst p \<noteq> k}"
  by (induction k v m rule: hm_put.induct) (auto simp: hm_ok_def image_iff)

lemma hm_ok_filter: "hm_ok m \<Longrightarrow> hm_ok (filter p m)"
  by (auto simp: hm_ok_def distinct_map intro: inj_on_subset)

lemma record_loop_windows [simp]: "ag_windows (record_loop sid e li a) = ag_windows a"
  by (auto simp: record_loop_def Let_def split: option.split)

lemma agg_record_windows:
  "ag_windows (agg_record H ts sid lat st err li a) =
   hm_put (sid, ts) (window_record H lat st err (get_or (window_new H sid ts) (ag_windows a) (sid, ts))) (ag_windows a)"
  by (simp add: agg_record_def Let_def)

lemma window_record_key [simp]:
  "sw_step_id (window_record H lat st err w) = sw_step_id w"
  "sw_ts_second (window_record H lat st err w) = sw_ts_second w"
  by (simp_all add: window_record_def)

lemma agg_step_windows:
  "ag_windows (snd (agg_step H x a)) = (case x of
     OpRecord ts sid lat st err li \<Rightarrow>
       hm_put (sid, ts) (window_record H lat st err (get_or (window_new H sid ts) (ag_windows a) (sid, ts))) (ag_windows a)
   | OpDrainCompleted u \<Rightarrow> filter (\<lambda>((_, ts), _). \<not> ts < u) (ag_windows a)
   | OpDrainAll \<Rightarrow> []
   | _ \<Rightarrow> ag_windows a)"
  by (cases x) (simp_all add: agg_step_def agg_record_windows record_branch_def record_error_kind_def
      record_group_def record_phase_def record_active_vu_def drain_loop_deltas_def drain_branch_deltas_def
      drain_error_kind_deltas_def drain_group_deltas_def drain_phase_deltas_def
      drain_active_vu_completed_def drain_active_vu_def drain_completed_def drain_all_def)

lemma windows_ok_step: "windows_ok a \<Longrightarrow> windows_ok (snd (agg_step H x a))"
proof -
  assume ok: "windows_ok a"
  show ?thesis
  proof (cases x)
    case (OpRecord ts sid lat st err li)
    have "get_or (window_new H sid ts) (ag_windows a) (sid, ts) = window_new H sid ts
        \<or> ((sid, ts), get_or (window_new H sid ts) (ag_windows a) (sid, ts)) \<in> set (ag_windows a)"
      by (auto simp: get_or_def hm_get_def dest: map_of_SomeD split: option.split)
    then have "sw_step_id (get_or (window_new H sid ts) (ag_windows a) (sid, ts)) = sid
        \<and> sw_ts_second (get_or (window_new H sid ts) (ag_windows a) (sid, ts)) = ts"
      using ok by (auto simp: windows_ok_def window_new_def)
    then show ?thesis
      using ok by (auto simp: windows_ok_def agg_step_windows OpRecord hm_put_set)
  qed (use ok in \<open>auto simp: windows_ok_def agg_step_windows hm_ok_filter\<close>)
qed

lemma window_entries_map:
  "windows_ok a \<Longrightarrow> set m \<subseteq> set (ag_windows a) \<Longrightarrow>
   window_entries f (OutWindows (map snd m)) = map (\<lambda>(k, w). (k, f w)) m"
  by (fastforce simp: windows_ok_def)

lemma hm_get_filter_ts:
  "hm_get (filter (\<lambda>((_, ts), _). ts < u) m) k = (if snd k < u then hm_get m k else None)"
  "hm_get (filter (\<lambda>((_, ts), _). \<not> ts < u) m) k = (if snd k < u then None else hm_get m k)"
  for m :: "(string \<times> int, 'w) hash_map"
  by (induction m) (auto simp: hm_get_def)

text \<open>A field of the windows that grows by a weight of the request is a delta counter.\<close>

lemma window_counter:
  fixes H :: "'h hist_ops" and f :: "'h step_window \<Rightarrow> nat"
  assumes new: "\<And>sid ts. f (window_new H sid ts) = 0"
    and rcd: "\<And>lat st err w. f (window_record H lat st err w) = f w + weight st err"
  shows "delta_counter (\<lambda>x a. apfst (window_entries f) (agg_step H x a)) (window_inc weight) (window_cnt f) windows_ok"
proof unfold_locales
  fix a :: "'h aggregator" and x and k :: "string \<times> int"
  assume ok: "windows_ok a"
  then have hm: "hm_ok (ag_windows a)" by (simp add: windows_ok_def)
  show "windows_ok (snd (apfst (window_entries f) (agg_step H x a)))" using windows_ok_step [OF ok] by simp
  have get: "window_cnt f a k' = f (get_or (window_new H sid ts) (ag_windows a) k')" for k' sid ts
    by (simp add: window_cnt_def get_or_def new split: option.split)
  have sum: "sum_key k (map (\<lambda>(k, w). (k, f w)) m) = (case hm_get m k of None \<Rightarrow> 0 | Some w \<Rightarrow> f w)"
    if "hm_ok m" for m :: "(string \<times> int, 'h step_window) hash_map"
    using that by (simp add: hm_ok_def hm_get_def sum_key_map)
  show "sum_key k (fst (apfst (window_entries f) (agg_step H x a)))
      + window_cnt f (snd (apfst (window_entries f) (agg_step H x a))) k = window_cnt f a k + window_inc weight x k"
  proof (cases x)
    case (OpRecord ts sid lat st err li)
    then show ?thesis
      using get [of "(sid, ts)" sid ts]
      by (simp add: agg_step_windows window_cnt_def window_inc_def rcd) (simp add: agg_step_def)
  next
    case (OpDrainCompleted u)
    let ?p = "\<lambda>((_ :: string, ts), _ :: 'h step_window). ts < u"
    have out: "fst (apfst (window_entries f) (agg_step H x a)) = map (\<lambda>(k, w). (k, f w)) (filter ?p (ag_windows a))"
      using window_entries_map [OF ok, of "filter ?p (ag_windows a)" f]
      by (simp add: OpDrainCompleted agg_step_def drain_completed_def del: window_entries.simps)
    show ?thesis
      unfolding out using sum [OF hm_ok_filter [OF hm], of ?p]
      by (simp add: OpDrainCompleted agg_step_windows window_cnt_def window_inc_def hm_get_filter_ts)
  next
    case OpDrainAll
    have "fst (apfst (window_entries f) (agg_step H x a)) = map (\<lambda>(k, w). (k, f w)) (ag_windows a)"
      using window_entries_map [OF ok, of "ag_windows a" f]
      by (simp add: OpDrainAll agg_step_def drain_all_def del: window_entries.simps)
    then show ?thesis
      using sum [OF hm] by (simp add: OpDrainAll agg_step_windows window_cnt_def window_inc_def hm_get_def)
  qed (simp_all add: agg_step_windows window_cnt_def window_inc_def,
       simp_all add: agg_step_def agg_op_defs)
qed

interpretation window_requests: delta_counter
  "\<lambda>x a. apfst (window_entries sw_count) (agg_step H x a)" "window_inc (\<lambda>_ _. 1)"
  "window_cnt sw_count" windows_ok for H :: "'h hist_ops"
  by (rule window_counter) (simp_all add: window_new_def window_record_def)

interpretation window_errors: delta_counter
  "\<lambda>x a. apfst (window_entries sw_error_count) (agg_step H x a)" "window_inc (\<lambda>_ err. of_bool err)"
  "window_cnt sw_error_count" windows_ok for H :: "'h hist_ops"
  by (rule window_counter) (simp_all add: window_new_def window_record_def)

interpretation window_status: delta_counter
  "\<lambda>x a. apfst (window_entries (\<lambda>w. get_or 0 (sw_status_counts w) code)) (agg_step H x a)"
  "window_inc (\<lambda>st _. of_bool (st = code))"
  "window_cnt (\<lambda>w. get_or 0 (sw_status_counts w) code)" windows_ok for H :: "'h hist_ops" and code
  by (rule window_counter) (simp_all add: window_new_def window_record_def get_or_Nil)


subsection \<open>Properties\<close>

lemma agg_new_ok [simp]:
  "windows_ok (agg_new cap)" "loops_ok cap (agg_new cap)" "hm_ok (ag_branch_counts (agg_new cap))"
  "hm_ok (ag_error_kind_counts (agg_new cap))" "hm_ok (ag_group_hists (agg_new cap))"
  "hm_ok (ag_phase_hists (agg_new cap))"
  by (simp_all add: windows_ok_def loops_ok_def agg_new_def)

lemma agg_new_empty [simp]:
  "window_cnt f (agg_new cap) k = 0" "ag_branch_counts (agg_new cap) = []"
  "ag_error_kind_counts (agg_new cap) = []" "ag_group_hists (agg_new cap) = []"
  "ag_phase_hists (agg_new cap) = []" "ag_loop_counts (agg_new cap) = []"
  by (simp_all add: window_cnt_def agg_new_def hm_get_def)

text \<open>
  C7: no request is lost or counted twice. Whatever a worker records and whenever it drains,
  the requests, errors and responses per status that were drained for a step and second, plus
  those still held, are exactly the ones recorded.
\<close>

theorem window_conservation:
  assumes "agg_run H ops (agg_new cap) = (outs, a)"
  shows "sum_key k (concat (map (window_entries sw_count) outs)) + window_cnt sw_count a k
           = (\<Sum>x\<leftarrow>ops. window_inc (\<lambda>_ _. 1) x k)
    \<and> sum_key k (concat (map (window_entries sw_error_count) outs)) + window_cnt sw_error_count a k
           = (\<Sum>x\<leftarrow>ops. window_inc (\<lambda>_ err. of_bool err) x k)
    \<and> sum_key k (concat (map (window_entries (\<lambda>w. get_or 0 (sw_status_counts w) code)) outs))
          + window_cnt (\<lambda>w. get_or 0 (sw_status_counts w) code) a k
           = (\<Sum>x\<leftarrow>ops. window_inc (\<lambda>st _. of_bool (st = code)) x k)"
proof (intro conjI)
  show "sum_key k (concat (map (window_entries sw_count) outs)) + window_cnt sw_count a k
           = (\<Sum>x\<leftarrow>ops. window_inc (\<lambda>_ _. 1) x k)"
    using window_requests.conservation [of "agg_new cap" k H ops]
    by (simp add: project_run [OF window_requests.delta_counter_axioms] assms)
  show "sum_key k (concat (map (window_entries sw_error_count) outs)) + window_cnt sw_error_count a k
           = (\<Sum>x\<leftarrow>ops. window_inc (\<lambda>_ err. of_bool err) x k)"
    using window_errors.conservation [of "agg_new cap" k H ops]
    by (simp add: project_run [OF window_errors.delta_counter_axioms] assms)
  show "sum_key k (concat (map (window_entries (\<lambda>w. get_or 0 (sw_status_counts w) code)) outs))
          + window_cnt (\<lambda>w. get_or 0 (sw_status_counts w) code) a k
           = (\<Sum>x\<leftarrow>ops. window_inc (\<lambda>st _. of_bool (st = code)) x k)"
    using window_status.conservation [where s = "agg_new cap" and code = code and k = k and H = H and xs = ops]
    by (simp add: project_run [OF window_status.delta_counter_axioms] assms)
qed

definition demo_hist :: "nat hist_ops" where
  "demo_hist = \<lparr>h_new = 0, h_record = (\<lambda>v h. h + v)\<rparr>"

theorem window_conservation_witness:
  "\<exists>outs a. agg_run demo_hist
       [OpRecord 7 ''s'' 10 200 False None, OpDrainCompleted 7, OpRecord 7 ''s'' 10 500 True None, OpDrainAll]
       (agg_new 0) = (outs, a)
     \<and> sum_key (''s'', 7) (concat (map (window_entries sw_count) outs)) + window_cnt sw_count a (''s'', 7) = 2"
proof -
  obtain outs a where r: "agg_run demo_hist
       [OpRecord 7 ''s'' 10 200 False None, OpDrainCompleted 7, OpRecord 7 ''s'' 10 500 True None, OpDrainAll]
       (agg_new 0) = (outs, a)" by fastforce
  from window_conservation [OF r, of "(''s'', 7)" 0] have
    "sum_key (''s'', 7) (concat (map (window_entries sw_count) outs)) + window_cnt sw_count a (''s'', 7) = 2"
    by (simp add: window_inc_def)
  with r show ?thesis by blast
qed

text \<open>
  the same conservation for every delta counter: branch decisions, transport error kinds,
  parallel group samples, latency phases and the per-iteration loop breakdown with its overflow
  bucket (requests and errors).
\<close>

theorem delta_conservation:
  assumes "agg_run H ops (agg_new cap) = (outs, a)"
  shows "sum_key b (concat (map branch_entries outs)) + get_or 0 (ag_branch_counts a) b
           = (\<Sum>x\<leftarrow>ops. branch_inc x b)
    \<and> sum_key kd (concat (map kind_entries outs)) + get_or 0 (ag_error_kind_counts a) kd
           = (\<Sum>x\<leftarrow>ops. kind_inc x kd)
    \<and> sum_key b (concat (map group_entries outs)) + snd (get_or (h_new H, 0) (ag_group_hists a) b)
           = (\<Sum>x\<leftarrow>ops. group_inc x b)
    \<and> sum_key b (concat (map phase_entries outs)) + snd (get_or (h_new H, 0) (ag_phase_hists a) b)
           = (\<Sum>x\<leftarrow>ops. phase_inc x b)
    \<and> sum_key l (concat (map (loop_entries ls_count) outs)) + lc_count (get_or no_loop_count (ag_loop_counts a) l)
           = (\<Sum>x\<leftarrow>ops. loop_inc cap (\<lambda>_. 1) x l)
    \<and> sum_key l (concat (map (loop_entries ls_error_count) outs))
          + lc_error_count (get_or no_loop_count (ag_loop_counts a) l)
           = (\<Sum>x\<leftarrow>ops. loop_inc cap of_bool x l)"
  using branches.conservation [of "agg_new cap" b H ops] kinds.conservation [of "agg_new cap" kd H ops]
    groups.conservation [where s = "agg_new cap" and H = H and k = b and xs = ops]
    phases.conservation [where s = "agg_new cap" and H = H and k = b and xs = ops]
    loop_requests.conservation [where cap = cap and s = "agg_new cap" and k = l and H = H and xs = ops]
    loop_errors.conservation [where cap = cap and s = "agg_new cap" and k = l and H = H and xs = ops]
  unfolding project_run [OF branches.delta_counter_axioms] project_run [OF kinds.delta_counter_axioms]
    project_run [OF groups.delta_counter_axioms] project_run [OF phases.delta_counter_axioms]
    project_run [OF loop_requests.delta_counter_axioms] project_run [OF loop_errors.delta_counter_axioms]
    assms
  by (simp add: get_or_Nil)

theorem delta_conservation_witness:
  "\<exists>outs a. agg_run demo_hist
       [OpBranch ''i'' ''then'', OpDrainBranches, OpBranch ''i'' ''then'', OpRecord 1 ''s'' 1 200 True (Some 9)] (agg_new 5)
       = (outs, a)
     \<and> sum_key (''i'', ''then'') (concat (map branch_entries outs)) + get_or 0 (ag_branch_counts a) (''i'', ''then'') = 2
     \<and> sum_key (''s'', loop_overflow) (concat (map (loop_entries ls_count) outs))
          + lc_count (get_or no_loop_count (ag_loop_counts a) (''s'', loop_overflow)) = 1"
proof -
  obtain outs a where r: "agg_run demo_hist
       [OpBranch ''i'' ''then'', OpDrainBranches, OpBranch ''i'' ''then'', OpRecord 1 ''s'' 1 200 True (Some 9)]
       (agg_new 5) = (outs, a)" by fastforce
  from delta_conservation [OF r, of "(''i'', ''then'')" "(''s'', Dns)" "(''s'', loop_overflow)"] have
    "sum_key (''i'', ''then'') (concat (map branch_entries outs)) + get_or 0 (ag_branch_counts a) (''i'', ''then'') = 2
     \<and> sum_key (''s'', loop_overflow) (concat (map (loop_entries ls_count) outs))
          + lc_count (get_or no_loop_count (ag_loop_counts a) (''s'', loop_overflow)) = 1"
    by (simp add: branch_inc_def loop_inc_def loop_bucket_def)
  with r show ?thesis by blast
qed

definition op_not_before :: "int \<Rightarrow> agg_op \<Rightarrow> bool" where
  "op_not_before u x = (case x of OpRecord ts _ _ _ _ _ \<Rightarrow> u \<le> ts | OpActive ts _ _ \<Rightarrow> u \<le> ts | _ \<Rightarrow> True)"

definition windows_from :: "int \<Rightarrow> 'h aggregator \<Rightarrow> bool" where
  "windows_from u a = (windows_ok a \<and> (\<forall>((_, ts), _) \<in> set (ag_windows a). u \<le> ts))"

fun out_windows :: "'h agg_out \<Rightarrow> 'h step_window list" where
  "out_windows (OutWindows ws) = ws"
| "out_windows _ = []"

lemma windows_fromD:
  "windows_from u a \<Longrightarrow> (k, w) \<in> set (ag_windows a) \<Longrightarrow> (sw_step_id w, sw_ts_second w) = k \<and> u \<le> snd k"
  by (cases k) (auto simp: windows_from_def windows_ok_def)

lemma agg_step_windows_subset:
  "p \<in> set (ag_windows (snd (agg_step H x a))) \<Longrightarrow> windows_ok a \<Longrightarrow>
   p \<in> set (ag_windows a) \<or> (\<exists>ts sid lat st err li. x = OpRecord ts sid lat st err li \<and> fst p = (sid, ts))"
  by (cases x) (auto simp: agg_step_windows hm_put_set windows_ok_def)

lemma agg_step_out_windows:
  "w \<in> set (out_windows (fst (agg_step H x a))) \<Longrightarrow> w \<in> snd ` set (ag_windows a)"
  by (cases x) (auto simp: agg_step_def drain_loop_deltas_def drain_branch_deltas_def
      drain_error_kind_deltas_def drain_group_deltas_def drain_phase_deltas_def drain_active_vu_completed_def
      drain_active_vu_def drain_completed_def drain_all_def)

lemma windows_from_step:
  assumes from_u: "windows_from u a" and "op_not_before u x"
  shows "windows_from u (snd (agg_step H x a))
    \<and> (\<forall>w \<in> set (out_windows (fst (agg_step H x a))). u \<le> sw_ts_second w)"
proof
  have ok: "windows_ok a" using from_u by (simp add: windows_from_def)
  have "u \<le> snd (fst p)" if "p \<in> set (ag_windows (snd (agg_step H x a)))" for p
    using agg_step_windows_subset [OF that ok] windows_fromD [OF from_u, of "fst p" "snd p"] assms(2)
    by (auto simp: op_not_before_def)
  then show "windows_from u (snd (agg_step H x a))"
    using windows_ok_step [OF ok] unfolding windows_from_def by (simp add: case_prod_beta)
  show "\<forall>w \<in> set (out_windows (fst (agg_step H x a))). u \<le> sw_ts_second w"
  proof
    fix w assume "w \<in> set (out_windows (fst (agg_step H x a)))"
    from agg_step_out_windows [OF this] obtain k where "(k, w) \<in> set (ag_windows a)" by auto
    from windows_fromD [OF from_u this] show "u \<le> sw_ts_second w" by auto
  qed
qed

lemma windows_from_run:
  "windows_from u a \<Longrightarrow> list_all (op_not_before u) ops \<Longrightarrow> agg_run H ops a = (outs, a') \<Longrightarrow>
   windows_from u a' \<and> (\<forall>x \<in> set outs. \<forall>w \<in> set (out_windows x). u \<le> sw_ts_second w)"
proof (induction ops arbitrary: a outs)
  case Nil
  then show ?case by auto
next
  case (Cons x ops)
  obtain o1 a1 where s: "agg_step H x a = (o1, a1)" by fastforce
  obtain os a2 where r: "agg_run H ops a1 = (os, a2)" by fastforce
  have "windows_from u a1" "\<forall>w \<in> set (out_windows o1). u \<le> sw_ts_second w"
    using windows_from_step [OF Cons.prems(1), of x H] Cons.prems(2) s by auto
  with Cons.IH [of a1 os] Cons.prems s r show ?case by (auto simp: Let_def)
qed

text \<open>
  with a clock that does not go back, a second is reported once: after the windows before
  \<open>u\<close> were drained, no later output nor the remaining state holds a
  window (a sample) of an earlier second, and what was drained is exactly of earlier seconds.
\<close>

theorem drained_seconds_final:
  assumes "windows_ok a" and "drain_completed u a = (ws, a1)"
    and "list_all (op_not_before u) ops" and "agg_run H ops a1 = (outs, a2)"
  shows "(\<forall>w \<in> set ws. sw_ts_second w < u)
    \<and> (\<forall>x \<in> set outs. \<forall>w \<in> set (out_windows x). u \<le> sw_ts_second w)
    \<and> (\<forall>((_, ts), _) \<in> set (ag_windows a2). u \<le> ts)"
proof -
  have "windows_from u a1"
    using assms(1,2) by (auto simp: drain_completed_def windows_from_def windows_ok_def hm_ok_filter)
  note run = windows_from_run [OF this assms(3,4)]
  have ws: "ws = map snd (filter (\<lambda>((_, ts), _). ts < u) (ag_windows a))"
    using assms(2) by (simp add: drain_completed_def)
  have "\<forall>w \<in> set ws. sw_ts_second w < u"
    using assms(1) unfolding ws windows_ok_def by fastforce
  with run show ?thesis by (simp add: windows_from_def)
qed

theorem drained_seconds_final_witness:
  "\<exists>ws a1 outs a2. drain_completed 8 (snd (agg_run demo_hist [OpRecord 7 ''s'' 1 200 False None,
         OpRecord 8 ''s'' 1 200 False None] (agg_new 0))) = (ws, a1) \<and> length ws = 1
     \<and> agg_run demo_hist [OpRecord 8 ''s'' 2 200 False None, OpDrainAll] a1 = (outs, a2)
     \<and> (\<forall>x \<in> set outs. \<forall>w \<in> set (out_windows x). 8 \<le> sw_ts_second w)"
proof -
  let ?a = "snd (agg_run demo_hist [OpRecord 7 ''s'' 1 200 False None,
         OpRecord 8 ''s'' 1 200 False None] (agg_new 0))"
  have "windows_ok (agg_new 0)" by simp
  then have ok: "windows_ok ?a"
    unfolding agg_run.simps Let_def snd_conv by (intro windows_ok_step)
  obtain ws a1 where d: "drain_completed 8 ?a = (ws, a1)" by fastforce
  obtain outs a2 where r: "agg_run demo_hist [OpRecord 8 ''s'' 2 200 False None, OpDrainAll] a1 = (outs, a2)"
    by fastforce
  have "length (fst (drain_completed 8 ?a)) = 1"
    by (simp add: drain_completed_def agg_step_windows Let_def agg_new_def get_or_Nil window_record_def)
  then have len: "length ws = 1" using d by simp
  have "list_all (op_not_before 8) [OpRecord 8 ''s'' 2 200 False None, OpDrainAll]"
    by (simp add: op_not_before_def)
  from drained_seconds_final [OF ok d this r]
  have "\<forall>x \<in> set outs. \<forall>w \<in> set (out_windows x). 8 \<le> sw_ts_second w" by simp
  with d r len show ?thesis by blast
qed

end
