(* ===== verification/Dataset.thy ===== *)
theory Dataset
  imports ReqGen Shard
begin

text \<open>
  Data-driven runs: \<^verbatim>\<open>engine/src/dataset.rs\<close> (which row a VU iteration sees),
  \<^verbatim>\<open>controller/src/binding.rs\<close> (mapping a source row to variables) and the part of the runner
  that injects the selected rows into the variables of an iteration. The shared cursor is the
  \<^verbatim>\<open>AtomicU64\<close> of the code, a 64-bit word; the seeded generator is a parameter. A Rust panic is
  \<^const>\<open>Inl\<close>. The \<^verbatim>\<open>debug_assert!\<close> of \<^verbatim>\<open>select_index\<close> is absent, as in a release build.
\<close>

unbundle bit_operations_syntax

subsection \<open>Row selection\<close>

datatype binding_policy = PerVu | IterSequential | IterRandom | Unique

record data_set =
  ds_policy :: binding_policy
  ds_seed :: "32 word"
  ds_rows :: "(string, string) btree_map list"

datatype data_panic = NoCounter | EmptyRows

definition splitmix64 :: "64 word \<Rightarrow> 64 word" where
  "splitmix64 x0 =
     (let x = x0 + 0x9E3779B97F4A7C15;
          z1 = (x XOR drop_bit 30 x) * 0xBF58476D1CE4E5B9;
          z2 = (z1 XOR drop_bit 27 z1) * 0x94D049BB133111EB
      in z2 XOR drop_bit 31 z2)"

definition mix :: "32 word \<Rightarrow> 32 word \<Rightarrow> 32 word \<Rightarrow> 64 word" where
  "mix seed vu it =
     (let z = splitmix64 (ucast seed + ucast vu) in splitmix64 (z + ucast it))"

definition select_index ::
  "'r rng_ops \<Rightarrow> (64 word \<Rightarrow> 'r) \<Rightarrow> data_set \<Rightarrow> 32 word \<Rightarrow> 32 word \<Rightarrow> 64 word option
    \<Rightarrow> data_panic + (nat option \<times> 64 word option)" where
  "select_index R seed_from ds vu it counter =
     (let len = length (ds_rows ds) in
      case ds_policy ds of
        PerVu \<Rightarrow> if len = 0 then Inl EmptyRows else Inr (Some (unat vu mod len), counter)
      | IterSequential \<Rightarrow>
          (case counter of
             None \<Rightarrow> Inl NoCounter
           | Some c \<Rightarrow> if len = 0 then Inl EmptyRows else Inr (Some (unat c mod len), Some (c + 1)))
      | IterRandom \<Rightarrow>
          if len = 0 then Inl EmptyRows
          else Inr (Some (fst (gen_range R 0 (len - 1) (seed_from (mix (ds_seed ds) vu it)))), counter)
      | Unique \<Rightarrow>
          (case counter of
             None \<Rightarrow> Inl NoCounter
           | Some c \<Rightarrow> let next = unat c in
               Inr (if next \<ge> len then None else Some next, Some (c + 1))))"

subsection \<open>Injecting the rows of an iteration\<close>

definition make_seq_counters :: "data_set list \<Rightarrow> 64 word option list" where
  "make_seq_counters dss =
     map (\<lambda>d. case ds_policy d of IterSequential \<Rightarrow> Some 0 | Unique \<Rightarrow> Some 0 | _ \<Rightarrow> None) dss"

definition inject_row ::
  "(string, string) btree_map \<Rightarrow> (string, string) btree_map \<Rightarrow> (string, string) btree_map" where
  "inject_row row vs = fold (\<lambda>(k, v). bt_insert k v) row vs"

fun inject_bindings ::
  "'r rng_ops \<Rightarrow> (64 word \<Rightarrow> 'r) \<Rightarrow> 32 word \<Rightarrow> 32 word \<Rightarrow> data_set list \<Rightarrow> 64 word option list
    \<Rightarrow> (string, string) btree_map \<Rightarrow> ('tz, 'g) req_gen option
    \<Rightarrow> data_panic + (((string, string) btree_map \<times> ('tz, 'g) req_gen option) option \<times> 64 word option list)"
where
  "inject_bindings R sf vu it (d # dss) (c # cs) vs req =
     (case select_index R sf d vu it c of
        Inl p \<Rightarrow> Inl p
      | Inr (None, c') \<Rightarrow> Inr (None, c' # cs)
      | Inr (Some i, c') \<Rightarrow>
          (let row = ds_rows d ! i in
           case inject_bindings R sf vu it dss cs (inject_row row vs)
                  (map_option (mark_written (map fst row)) req) of
             Inl p \<Rightarrow> Inl p
           | Inr (res, cs') \<Rightarrow> Inr (res, c' # cs')))"
| "inject_bindings R sf vu it dss cs vs req = Inr (Some (vs, req), cs)"

subsection \<open>Mappings\<close>

datatype mapping = MColumn string string | MLiteral string string

record data_binding =
  db_dataset_id :: string
  db_policy :: binding_policy
  db_mappings :: "mapping list"

definition mapping_var :: "mapping \<Rightarrow> string" where
  "mapping_var m = (case m of MColumn v _ \<Rightarrow> v | MLiteral v _ \<Rightarrow> v)"

definition collect_var_names :: "data_binding list \<Rightarrow> string list" where
  "collect_var_names bs = concat (map (\<lambda>b. map mapping_var (db_mappings b)) bs)"

definition mapping_value :: "(string, string) btree_map \<Rightarrow> mapping \<Rightarrow> string" where
  "mapping_value source m = (case m of
     MColumn _ column \<Rightarrow> (case bt_get source column of Some v \<Rightarrow> v | None \<Rightarrow> '''')
   | MLiteral _ value \<Rightarrow> value)"

definition apply_mappings :: "mapping list \<Rightarrow> (string, string) btree_map \<Rightarrow> (string, string) btree_map" where
  "apply_mappings ms source = fold (\<lambda>m out. bt_insert (mapping_var m) (mapping_value source m) out) ms []"

definition referenced_columns :: "data_binding \<Rightarrow> string list" where
  "referenced_columns b =
     concat (map (\<lambda>m. case m of MColumn _ c \<Rightarrow> [c] | MLiteral _ _ \<Rightarrow> []) (db_mappings b))"

definition apply_binding :: "data_binding \<Rightarrow> (string, string) btree_map \<Rightarrow> (string, string) btree_map" where
  "apply_binding b source = apply_mappings (db_mappings b) source"

subsection \<open>The mixer is a permutation\<close>

lemma xorshift_inverse:
  fixes z :: "64 word"
  assumes "64 \<le> 3 * k"
  shows "(let y = z XOR drop_bit k z in y XOR drop_bit k y XOR drop_bit (2 * k) y) = z"
proof (rule bit_word_eqI)
  fix n assume "n < LENGTH(64)"
  have e: "k + k + n = 2 * k + n" "k + (k + n) = 2 * k + n" "k + (2 * k + n) = 3 * k + n" "2 * k + (k + n) = 3 * k + n"
    by simp_all
  have "\<not> bit z (3 * k + n)" using assms by (auto dest: bit_imp_le_length)
  then show "bit (let y = z XOR drop_bit k z in y XOR drop_bit k y XOR drop_bit (2 * k) y) n = bit z n"
    by (auto simp: Let_def bit_xor_iff bit_drop_bit_eq e)
qed

lemma inj_xorshift: "64 \<le> 3 * k \<Longrightarrow> inj (\<lambda>z :: 64 word. z XOR drop_bit k z)"
  using xorshift_inverse [of k] by (metis (no_types, lifting) injI)

lemma inj_mult_unit: "a * b = 1 \<Longrightarrow> inj (\<lambda>z :: 64 word. z * a)"
  by (rule inj_on_inverseI [where g = "\<lambda>y. y * b"]) (simp add: mult.assoc)

lemma inj_splitmix64: "inj splitmix64"
proof -
  have eq: "splitmix64 = (\<lambda>z. z XOR drop_bit 31 z) \<circ> (\<lambda>z. z * 0x94D049BB133111EB) \<circ> (\<lambda>z. z XOR drop_bit 27 z)
      \<circ> (\<lambda>z. z * 0xBF58476D1CE4E5B9) \<circ> (\<lambda>z. z XOR drop_bit 30 z) \<circ> (\<lambda>z. z + 0x9E3779B97F4A7C15)"
    by (rule ext) (simp add: splitmix64_def Let_def)
  have m1: "inj (\<lambda>z :: 64 word. z * 0xBF58476D1CE4E5B9)"
    by (rule inj_mult_unit [of _ "0x96de1b173f119089"]) simp
  have m2: "inj (\<lambda>z :: 64 word. z * 0x94D049BB133111EB)"
    by (rule inj_mult_unit [of _ "0x319642b2d24d8ec3"]) simp
  show ?thesis
    unfolding eq by (intro inj_compose m1 m2 inj_xorshift) simp_all
qed

lemma ucast_inj_32_64: "(ucast (a :: 32 word) :: 64 word) = ucast b \<longleftrightarrow> a = b"
proof
  assume "(ucast a :: 64 word) = ucast b"
  then have eq: "bit (ucast a :: 64 word) n = bit (ucast b :: 64 word) n" for n by simp
  show "a = b"
  proof (rule bit_word_eqI)
    fix n assume "n < LENGTH(32)"
    then have "n < 64" by simp
    then show "bit a n = bit b n" using eq [of n] by (simp add: bit_ucast_iff)
  qed
qed simp

text \<open>
  the seed of an iteration's row draw does not collide within a VU (over its iterations)
  nor within an iteration number (over the VUs): for a fixed run seed, two different iterations
  of one VU, or the same iteration of two VUs, seed the generator differently.
\<close>

theorem mix_injective:
  "(mix seed vu i = mix seed vu j \<longleftrightarrow> i = j) \<and> (mix seed u i = mix seed v i \<longleftrightarrow> u = v)"
  by (simp add: mix_def Let_def inj_splitmix64 [THEN inj_eq] ucast_inj_32_64)


subsection \<open>Rows of a unique binding\<close>

text \<open>
  The selections of one worker's shared cursor, in the order in which its VUs ask; a panic ends
  the list.
\<close>

fun draws ::
  "'r rng_ops \<Rightarrow> (64 word \<Rightarrow> 'r) \<Rightarrow> data_set \<Rightarrow> (32 word \<times> 32 word) list \<Rightarrow> 64 word option \<Rightarrow> nat option list"
where
  "draws R sf d [] c = []"
| "draws R sf d ((vu, it) # calls) c =
     (case select_index R sf d vu it c of
        Inl _ \<Rightarrow> []
      | Inr (i, c') \<Rightarrow> i # draws R sf d calls c')"

lemma draws_unique:
  assumes "ds_policy d = Unique" and "n + length calls < 2 ^ 64"
  shows "draws R sf d calls (Some (of_nat n)) =
    map (\<lambda>k. if k < length (ds_rows d) then Some k else None) [n ..< n + length calls]"
  using assms(2)
proof (induction calls arbitrary: n)
  case Nil
  then show ?case by simp
next
  case (Cons p calls)
  obtain vu it where p: "p = (vu, it)" by (cases p)
  have "n < 2 ^ 64" using Cons.prems by simp
  then have n: "unat (of_nat n :: 64 word) = n" by (simp add: unat_of_nat)
  have "draws R sf d calls (Some (of_nat (Suc n)))
      = map (\<lambda>k. if k < length (ds_rows d) then Some k else None) [Suc n ..< Suc n + length calls]"
    by (rule Cons.IH) (use Cons.prems in simp)
  then show ?case
    using n by (simp add: p select_index_def assms(1) Let_def upt_conv_Cons add.commute [of 1] del: upt_Suc)
qed

text \<open>The slice of a unique dataset that the controller streams to shard \<open>i\<close> of \<open>n\<close>.\<close>

definition worker_rows :: "'row list \<Rightarrow> nat \<Rightarrow> nat \<Rightarrow> 'row list" where
  "worker_rows rows n i = (case dataset_slice True (length rows) n i of (off, cnt) \<Rightarrow> take cnt (drop off rows))"

lemma worker_rows_slice:
  assumes "i < n" and "length rows \<le> u32_max"
  shows "length (worker_rows rows n i) = snd (shard_split (length rows) n i)"
    and "k < length (worker_rows rows n i) \<Longrightarrow>
      worker_rows rows n i ! k = rows ! (fst (shard_split (length rows) n i) + k)"
proof -
  obtain off cnt where s: "shard_split (length rows) n i = (off, cnt)" by fastforce
  have "off + cnt \<le> length rows" using shard_split_bound [OF assms(1), of "length rows"] by (simp add: s)
  then show "length (worker_rows rows n i) = snd (shard_split (length rows) n i)"
    and "k < length (worker_rows rows n i) \<Longrightarrow>
      worker_rows rows n i ! k = rows ! (fst (shard_split (length rows) n i) + k)"
    using assms(2) by (simp_all add: worker_rows_def dataset_slice_def s)
qed

definition served_rows ::
  "'r rng_ops \<Rightarrow> (64 word \<Rightarrow> 'r) \<Rightarrow> (nat \<Rightarrow> data_set) \<Rightarrow> (nat \<Rightarrow> (32 word \<times> 32 word) list) \<Rightarrow> nat \<Rightarrow> nat \<Rightarrow> nat \<Rightarrow> nat list"
where
  "served_rows R sf d calls t n i =
     map (\<lambda>k. fst (shard_split t n i) + k) (map the (filter (\<lambda>x. x \<noteq> None) (draws R sf (d i) (calls i) (Some 0))))"

lemma filter_some_upt:
  "map the (filter (\<lambda>x. x \<noteq> None) (map (\<lambda>k. if k < m then Some k else None) [a ..< b])) = [a ..< min m b]"
proof (induction b)
  case (Suc b)
  then show ?case
    by (cases "b < m") (auto simp: min_absorb1 min_absorb2)
qed simp

lemma served_rows_unique:
  assumes "i < n" and "length rows \<le> u32_max" and "ds_policy (d i) = Unique"
    and "ds_rows (d i) = worker_rows rows n i" and "length (calls i) < 2 ^ 64"
  shows "served_rows R sf d calls (length rows) n i =
    [fst (shard_split (length rows) n i) ..<
       fst (shard_split (length rows) n i) + min (snd (shard_split (length rows) n i)) (length (calls i))]"
proof -
  have "draws R sf (d i) (calls i) (Some 0) =
      map (\<lambda>k. if k < snd (shard_split (length rows) n i) then Some k else None) [0 ..< length (calls i)]"
    using draws_unique [OF assms(3), of 0 "calls i" R sf] assms(4,5) worker_rows_slice(1) [OF assms(1,2)]
    by simp
  then show ?thesis
    unfolding served_rows_def by (simp only: filter_some_upt) (rule nth_equalityI, simp_all)
qed

text \<open>
  C8: a unique binding never serves a row twice in the whole run. The global row numbers served
  by all workers, whatever VUs ask in whatever order, are pairwise different; every row is served
  when each worker is asked often enough, and from then on a worker only answers that its slice
  is exhausted.
\<close>

theorem unique_rows_served_once:
  assumes "0 < n" and "length rows \<le> u32_max"
    and "\<forall>i < n. ds_policy (d i) = Unique \<and> ds_rows (d i) = worker_rows rows n i \<and> length (calls i) < 2 ^ 64"
  shows "distinct (concat (map (served_rows R sf d calls (length rows) n) [0..<n]))
    \<and> set (concat (map (served_rows R sf d calls (length rows) n) [0..<n])) \<subseteq> {..< length rows}
    \<and> ((\<forall>i < n. snd (shard_split (length rows) n i) \<le> length (calls i)) \<longrightarrow>
         set (concat (map (served_rows R sf d calls (length rows) n) [0..<n])) = {..< length rows})"
proof -
  let ?t = "length rows"
  let ?s = "served_rows R sf d calls ?t n"
  have s: "?s i = [fst (shard_split ?t n i) ..< fst (shard_split ?t n i) + min (snd (shard_split ?t n i)) (length (calls i))]"
    if "i < n" for i
    using assms(3) that by (intro served_rows_unique [OF that assms(2)]) auto
  have sub: "set (?s i) \<subseteq> split.shard ?t n i" if "i < n" for i
    using s [OF that] by (auto simp: split.shard_def)
  have cover: "(\<Union>i<n. split.shard ?t n i) = {..< ?t}" using split.shards_cover [OF assms(1)] by simp
  have "distinct (concat (map ?s ls))" if "distinct ls" "\<forall>i \<in> set ls. i < n" for ls
    using that
  proof (induction ls)
    case Nil
    then show ?case by simp
  next
    case (Cons i ls)
    have "set (?s i) \<inter> set (?s j) = {}" if "j \<in> set ls" for j
      using sub [of i] sub [of j] split.shards_disjoint [of i n j ?t] Cons.prems that by auto
    moreover have "distinct (?s i)" using s Cons.prems by simp
    ultimately show ?case using Cons by auto
  qed
  then have "distinct (concat (map ?s [0..<n]))" by simp
  moreover have "set (concat (map ?s [0..<n])) \<subseteq> {..< ?t}"
    using sub cover by fastforce
  moreover have "set (concat (map ?s [0..<n])) = {..< ?t}"
    if all: "\<forall>i < n. snd (shard_split ?t n i) \<le> length (calls i)"
  proof -
    have "set (?s i) = split.shard ?t n i" if i: "i < n" for i
      using s [OF i] all i by (simp add: split.shard_def min_absorb1)
    then have "(\<Union>i<n. set (?s i)) = {..< ?t}" using cover by simp
    then show ?thesis by (simp add: atLeast0LessThan)
  qed
  ultimately show ?thesis by blast
qed

theorem unique_rows_served_once_witness:
  "distinct (concat (map (served_rows counter_rng unat
        (\<lambda>i. \<lparr>ds_policy = Unique, ds_seed = 0, ds_rows = worker_rows [[], [], []] 2 i\<rparr>)
        (\<lambda>i. [(1, 0), (2, 0), (1, 1)]) (length [[], [], [] :: (string, string) btree_map]) 2) [0..<2]))"
  by (rule conjunct1 [OF unique_rows_served_once]) simp_all

subsection \<open>The rows of an iteration\<close>

definition exhausted :: "data_set \<Rightarrow> 64 word option \<Rightarrow> bool" where
  "exhausted d c \<longleftrightarrow> ds_policy d = Unique \<and> (\<exists>n. c = Some n \<and> length (ds_rows d) \<le> unat n)"

definition counters_ok :: "data_set list \<Rightarrow> 64 word option list \<Rightarrow> bool" where
  "counters_ok = list_all2 (\<lambda>d c. c \<noteq> None \<longleftrightarrow> ds_policy d \<in> {IterSequential, Unique})"

abbreviation advance :: "64 word option \<Rightarrow> 64 word option" where
  "advance \<equiv> map_option (\<lambda>c. c + 1)"

lemma make_seq_counters_ok: "counters_ok dss (make_seq_counters dss)"
  by (induction dss) (auto simp: counters_ok_def make_seq_counters_def split: binding_policy.split)

lemma select_index_total:
  assumes "rng_ok R" and "ds_rows d \<noteq> []" and "c \<noteq> None \<longleftrightarrow> ds_policy d \<in> {IterSequential, Unique}"
  shows "if exhausted d c then select_index R sf d vu it c = Inr (None, advance c)
    else \<exists>i < length (ds_rows d). select_index R sf d vu it c = Inr (Some i, advance c)"
proof -
  let ?g = "gen_range R 0 (length (ds_rows d) - 1) (sf (mix (ds_seed d) vu it))"
  have "fst ?g \<le> length (ds_rows d) - 1"
    using gen_range_in [OF assms(1), of 0 "length (ds_rows d) - 1" "sf (mix (ds_seed d) vu it)" "fst ?g" "snd ?g"]
    by simp
  then have "fst ?g < length (ds_rows d)" using assms(2) by (cases "ds_rows d") auto
  then show ?thesis
    using assms(2,3)
    by (cases "ds_policy d") (auto simp: exhausted_def select_index_def Let_def)
qed

definition injected ::
  "data_set list \<Rightarrow> 64 word option list \<Rightarrow> (string, string) btree_map \<Rightarrow> ('tz, 'g) req_gen option
    \<Rightarrow> ((string, string) btree_map \<times> ('tz, 'g) req_gen option) option \<Rightarrow> 64 word option list \<Rightarrow> bool"
where
  "injected dss cs vs req res cs' = (case res of
     None \<Rightarrow> \<exists>i < length dss. exhausted (dss ! i) (cs ! i) \<and> (\<forall>j < i. \<not> exhausted (dss ! j) (cs ! j))
       \<and> cs' = map advance (take (Suc i) cs) @ drop (Suc i) cs
   | Some (vs', req') \<Rightarrow> (\<forall>i < length dss. \<not> exhausted (dss ! i) (cs ! i)) \<and> cs' = map advance cs
       \<and> (\<exists>rows. list_all2 (\<lambda>d row. row \<in> set (ds_rows d)) dss rows
            \<and> (\<forall>k. bt_get vs' k = (case map_of (rev (concat rows)) k of None \<Rightarrow> bt_get vs k | Some v \<Rightarrow> Some v))
            \<and> req' = map_option (mark_written (map fst (concat rows))) req))"

lemma bt_ok_inject_row: "bt_ok vs \<Longrightarrow> bt_ok (inject_row row vs)"
  by (simp add: inject_row_def bt.ok_puts)

lemma mark_written_append: "mark_written (ks @ ks') g = mark_written ks' (mark_written ks g)"
  by (simp add: mark_written_def)

lemma injected_Cons:
  assumes "\<not> exhausted d c" and "row \<in> set (ds_rows d)" and "bt_ok vs"
    and "injected dss cs (inject_row row vs) (map_option (mark_written (map fst row)) req) res cs'"
  shows "injected (d # dss) (c # cs) vs req res (advance c # cs')"
proof (cases res)
  case None
  then obtain i where i: "i < length dss" "exhausted (dss ! i) (cs ! i)" "\<forall>j < i. \<not> exhausted (dss ! j) (cs ! j)"
      "cs' = map advance (take (Suc i) cs) @ drop (Suc i) cs"
    using assms(4) by (auto simp: injected_def)
  then have "\<forall>j < Suc i. \<not> exhausted ((d # dss) ! j) ((c # cs) ! j)"
    using assms(1) by (auto simp: nth_Cons split: nat.split)
  with i show ?thesis
    unfolding injected_def None option.case by (intro exI [of _ "Suc i"]) simp
next
  case (Some r)
  obtain vs' req' where r: "r = (vs', req')" by (cases r)
  obtain rows where rows: "list_all2 (\<lambda>d row. row \<in> set (ds_rows d)) dss rows"
      "\<And>k. bt_get vs' k = (case map_of (rev (concat rows)) k of None \<Rightarrow> bt_get (inject_row row vs) k | Some v \<Rightarrow> Some v)"
      "req' = map_option (mark_written (map fst (concat rows))) (map_option (mark_written (map fst row)) req)"
    and rest: "\<forall>i < length dss. \<not> exhausted (dss ! i) (cs ! i)" "cs' = map advance cs"
    using assms(4) by (auto simp: injected_def Some r)
  have "bt_get vs' k = (case map_of (rev (concat (row # rows))) k of None \<Rightarrow> bt_get vs k | Some v \<Rightarrow> Some v)" for k
    using bt.get_puts [OF assms(3), of row k]
    by (auto simp: rows(2) inject_row_def map_add_def split: option.split)
  moreover have "req' = map_option (mark_written (map fst (concat (row # rows)))) req"
    by (cases req) (simp_all add: rows(3) mark_written_append)
  moreover have "\<forall>i < length (d # dss). \<not> exhausted ((d # dss) ! i) ((c # cs) ! i)"
    using rest(1) assms(1) by (auto simp: nth_Cons split: nat.split)
  ultimately show ?thesis
    using rows(1) assms(2) rest(2)
    unfolding injected_def Some r option.case prod.case
    by (intro conjI exI [of _ "row # rows"]) simp_all
qed

text \<open>
  in a run whose datasets have rows, injecting never panics. Either the first exhausted
  unique binding stops the VU, with exactly the cursors up to it advanced; or every binding
  contributes one of its rows, written in declaration order (the last binding that has a key
  wins), every written name is marked so that no generator overwrites it, and each cursor
  advances once.
\<close>

theorem inject_bindings_correct:
  assumes "rng_ok R" and "\<forall>d \<in> set dss. ds_rows d \<noteq> []" and "counters_ok dss cs" and "bt_ok vs"
  shows "\<exists>res cs'. inject_bindings R sf vu it dss cs vs req = Inr (res, cs') \<and> injected dss cs vs req res cs'"
  using assms(2-4)
proof (induction dss arbitrary: cs vs req)
  case Nil
  then show ?case by (auto simp: counters_ok_def injected_def option.map_id0 option.case_eq_if
      mark_written_def map_option_idI [symmetric] simp flip: id_def split: option.split)
next
  case (Cons d dss)
  then obtain c cs1 where cs: "cs = c # cs1" by (cases cs) (auto simp: counters_ok_def)
  have c: "c \<noteq> None \<longleftrightarrow> ds_policy d \<in> {IterSequential, Unique}" and ok1: "counters_ok dss cs1"
    using Cons.prems(2) by (simp_all add: cs counters_ok_def)
  note sel = select_index_total [OF assms(1) _ c, of sf vu it]
  show ?case
  proof (cases "exhausted d c")
    case True
    then have "injected (d # dss) cs vs req None (advance c # cs1)"
      by (auto simp: injected_def cs intro!: exI [of _ 0])
    with True sel Cons.prems(1) show ?thesis by (auto simp: cs)
  next
    case False
    with sel Cons.prems(1) obtain i where i: "i < length (ds_rows d)"
      "select_index R sf d vu it c = Inr (Some i, advance c)" by auto
    let ?row = "ds_rows d ! i"
    obtain res cs2 where r: "inject_bindings R sf vu it dss cs1 (inject_row ?row vs)
          (map_option (mark_written (map fst ?row)) req) = Inr (res, cs2)"
        "injected dss cs1 (inject_row ?row vs) (map_option (mark_written (map fst ?row)) req) res cs2"
      using Cons.IH [OF _ ok1 bt_ok_inject_row [OF Cons.prems(3)]] Cons.prems(1) by fastforce
    have "injected (d # dss) cs vs req res (advance c # cs2)"
      using injected_Cons [OF False nth_mem [OF i(1)] Cons.prems(3) r(2)] by (simp add: cs)
    then show ?thesis using i(2) r(1) by (auto simp: cs Let_def)
  qed
qed

theorem inject_bindings_correct_witness:
  "\<exists>res cs'. inject_bindings counter_rng unat 3 0
       [\<lparr>ds_policy = PerVu, ds_seed = 0, ds_rows = [[(''u'', ''a'')], [(''u'', ''b'')]]\<rparr>,
        \<lparr>ds_policy = Unique, ds_seed = 0, ds_rows = [[(''u'', ''z'')]]\<rparr>]
       [None, Some 0] [(''u'', ''x'')] (None :: (unit, nat) req_gen option) = Inr (res, cs')
     \<and> injected
       [\<lparr>ds_policy = PerVu, ds_seed = 0, ds_rows = [[(''u'', ''a'')], [(''u'', ''b'')]]\<rparr>,
        \<lparr>ds_policy = Unique, ds_seed = 0, ds_rows = [[(''u'', ''z'')]]\<rparr>]
       [None, Some 0] [(''u'', ''x'')] None res cs'"
  by (rule inject_bindings_correct [OF counter_rng_ok]) (simp_all add: counters_ok_def bt_ok_def)

subsection \<open>Applying mappings\<close>

lemma bt_get_apply_mappings:
  "bt_get (apply_mappings ms source) v = map_of (rev (map (\<lambda>m. (mapping_var m, mapping_value source m)) ms)) v"
proof -
  have "apply_mappings ms source =
      fold (\<lambda>(k, v). bt_insert k v) (map (\<lambda>m. (mapping_var m, mapping_value source m)) ms) []"
    by (simp add: apply_mappings_def fold_map comp_def)
  then show ?thesis
    using bt.get_puts [of "[]" "map (\<lambda>m. (mapping_var m, mapping_value source m)) ms" v]
    by (simp add: bt_get_def split: option.splits)
qed

lemma mapping_value_cong:
  "\<forall>c \<in> set (referenced_columns b). bt_get src c = bt_get src' c \<Longrightarrow> m \<in> set (db_mappings b) \<Longrightarrow>
   mapping_value src m = mapping_value src' m"
  by (cases m) (force simp: mapping_value_def referenced_columns_def)+

text \<open>
  mapping a source row gives exactly the mapped variables, each with the value of its last
  mapping (a missing column is the empty string), and the result depends only on the columns
  that the validation gate checks.
\<close>

theorem apply_mappings_correct:
  "bt_get (apply_binding b source) v =
     map_of (rev (map (\<lambda>m. (mapping_var m, mapping_value source m)) (db_mappings b))) v
   \<and> (bt_get (apply_binding b source) v \<noteq> None \<longleftrightarrow> v \<in> set (collect_var_names [b]))
   \<and> ((\<forall>c \<in> set (referenced_columns b). bt_get source c = bt_get source' c) \<longrightarrow>
        apply_binding b source = apply_binding b source')"
proof (intro conjI impI)
  show "bt_get (apply_binding b source) v =
      map_of (rev (map (\<lambda>m. (mapping_var m, mapping_value source m)) (db_mappings b))) v"
    by (simp add: apply_binding_def bt_get_apply_mappings)
  show "bt_get (apply_binding b source) v \<noteq> None \<longleftrightarrow> v \<in> set (collect_var_names [b])"
    by (simp add: apply_binding_def bt_get_apply_mappings map_of_eq_None_iff collect_var_names_def image_image)
next
  assume "\<forall>c \<in> set (referenced_columns b). bt_get source c = bt_get source' c"
  then show "apply_binding b source = apply_binding b source'"
    unfolding apply_binding_def apply_mappings_def
    by (intro fold_cong refl) (simp add: mapping_value_cong)
qed

theorem apply_mappings_correct_witness:
  "apply_binding \<lparr>db_dataset_id = ''d'', db_policy = PerVu, db_mappings = [MColumn ''u'' ''c'', MLiteral ''u'' ''k'']\<rparr>
       [(''c'', ''1''), (''x'', ''2'')]
     = apply_binding \<lparr>db_dataset_id = ''d'', db_policy = PerVu, db_mappings = [MColumn ''u'' ''c'', MLiteral ''u'' ''k'']\<rparr>
       [(''c'', ''1'')]"
  using apply_mappings_correct [of "\<lparr>db_dataset_id = ''d'', db_policy = PerVu, db_mappings = [MColumn ''u'' ''c'', MLiteral ''u'' ''k'']\<rparr>"
      "[(''c'', ''1''), (''x'', ''2'')]" "''u''" "[(''c'', ''1'')]"]
  by (simp add: referenced_columns_def bt_get_def)

end
