(* ===== verification/Run_Config.thy ===== *)
theory Run_Config
  imports Dataset
begin

text \<open>
  The configuration of a run: \<^verbatim>\<open>Profile\<close> and \<^verbatim>\<open>Criteria\<close> of \<^verbatim>\<open>controller/src/store/runs.rs\<close>, the
  gate of \<^verbatim>\<open>controller/src/api/runs.rs\<close> that every created run passes, the worker count, and the
  mapping of the profile to the wire (\<^verbatim>\<open>controller/src/grpc/profile.rs\<close>). A rejected
  configuration is \<^const>\<open>Inl\<close> of an error with one constructor per message of the code. The
  dataset table is a parameter: a lookup that may fail.
\<close>

subsection \<open>Data\<close>

record stage =
  sg_target :: nat
  sg_duration :: nat

datatype ramp_down = Graceful | Immediate

record criterion =
  cr_metric :: string
  cr_op :: string
  cr_threshold :: f64
  cr_target :: string

record criteria =
  max_p50_ms :: "nat option"
  max_p95_ms :: "nat option"
  max_p99_ms :: "nat option"
  max_error_rate :: "f64 option"
  min_rps :: "f64 option"
  max_4xx_rate :: "f64 option"
  max_5xx_rate :: "f64 option"
  max_4xx_count :: "nat option"
  max_5xx_count :: "nat option"
  min_window_rps :: "f64 option"
  rps_warmup_seconds :: "nat option"
  step_criteria :: "criterion list"

definition has_any :: "criteria \<Rightarrow> bool" where
  "has_any c \<longleftrightarrow> max_p50_ms c \<noteq> None \<or> max_p95_ms c \<noteq> None \<or> max_p99_ms c \<noteq> None
     \<or> max_error_rate c \<noteq> None \<or> min_rps c \<noteq> None \<or> max_4xx_rate c \<noteq> None \<or> max_5xx_rate c \<noteq> None
     \<or> max_4xx_count c \<noteq> None \<or> max_5xx_count c \<noteq> None \<or> min_window_rps c \<noteq> None
     \<or> step_criteria c \<noteq> []"

record profile =
  pf_vus :: nat
  pf_ramp_up :: nat
  pf_duration :: nat
  pf_loop_cap :: nat
  pf_http_timeout :: nat
  pf_data_binding :: "data_binding option"
  pf_data_bindings :: "data_binding list"
  pf_criteria :: "criteria option"
  pf_think_time :: "think_time option"
  pf_think_seed :: "nat option"
  pf_target_rps :: "nat option"
  pf_max_in_flight :: "nat option"
  pf_stages :: "stage list option"
  pf_measure_phases :: bool
  pf_vu_stages :: "stage list option"
  pf_ramp_down :: "ramp_down option"
  pf_graceful :: "nat option"
  pf_connect_timeout :: "nat option"
  pf_worker_count :: "nat option"
  pf_apply_think :: bool

definition effective_bindings :: "profile \<Rightarrow> data_binding list" where
  "effective_bindings p =
     (if pf_data_bindings p \<noteq> [] then pf_data_bindings p
      else case pf_data_binding p of None \<Rightarrow> [] | Some b \<Rightarrow> [b])"

definition has_stages :: "stage list option \<Rightarrow> bool" where
  "has_stages s = (case s of None \<Rightarrow> False | Some l \<Rightarrow> l \<noteq> [])"

definition is_open_loop :: "profile \<Rightarrow> bool" where
  "is_open_loop p \<longleftrightarrow> pf_target_rps p \<noteq> None \<or> has_stages (pf_stages p)"

definition is_vu_curve :: "profile \<Rightarrow> bool" where
  "is_vu_curve p = has_stages (pf_vu_stages p)"

definition max_target :: "nat \<Rightarrow> stage list option \<Rightarrow> nat" where
  "max_target d s = (case map sg_target (case s of None \<Rightarrow> [] | Some l \<Rightarrow> l) of
     [] \<Rightarrow> d | t # ts \<Rightarrow> foldl max t ts)"

definition vu_curve_max :: "profile \<Rightarrow> nat" where
  "vu_curve_max p = max_target 0 (pf_vu_stages p)"

definition unwrap_or :: "'a \<Rightarrow> 'a option \<Rightarrow> 'a" where
  "unwrap_or d x = (case x of None \<Rightarrow> d | Some v \<Rightarrow> v)"

definition concurrency_demand :: "profile \<Rightarrow> nat" where
  "concurrency_demand p =
     (if is_vu_curve p then vu_curve_max p
      else if is_open_loop p then unwrap_or 1 (pf_max_in_flight p)
      else pf_vus p)"

definition pool_worker_cap :: "profile \<Rightarrow> nat" where
  "pool_worker_cap p =
     (if is_vu_curve p then vu_curve_max p
      else if is_open_loop p then
        (let rate_peak = (case pf_target_rps p of Some r \<Rightarrow> r | None \<Rightarrow> max_target 1 (pf_stages p))
         in min (unwrap_or 1 (pf_max_in_flight p)) rate_peak)
      else pf_vus p)"

definition fanout_worker_count :: "profile \<Rightarrow> nat \<Rightarrow> nat" where
  "fanout_worker_count p capacity =
     (if is_vu_curve p then worker_count (vu_curve_max p) capacity
      else if is_open_loop p then unwrap_or 1 (pf_worker_count p)
      else worker_count (pf_vus p) capacity)"

subsection \<open>The gate\<close>

record limits =
  li_max_open_loop_workers :: nat
  li_max_loop_cap :: nat
  li_max_bindings :: nat
  li_dataset_max_rows :: nat
  li_worker_capacity :: nat

record dataset_meta =
  dm_id :: string
  dm_name :: string
  dm_columns :: "string list"
  dm_row_count :: int
  dm_byte_size :: int
  dm_created_at :: int

datatype config_error =
    RampDownOnlyVuCurve | GracefulOnlyVuCurve | GracefulNeedsGraceful | GracefulZero
  | WorkerCountRange nat | WorkerCountOnlyOpenLoop
  | VuStagesAndTargetRps | VuStagesAndMaxInFlight | VuStagesAndStages | VuStagesAndRampUp
  | VuStagesAndDuration | VuStagesAndVus | StageDurationZero | StagesAllZero
  | StagesNeedMaxInFlight | TargetRpsNeedsMaxInFlight | MaxInFlightRange
  | OpenLoopRampUp | OpenLoopThink | StagesAndTargetRps | StagesAndDuration
  | StageTargetRange | TargetRpsRange | DurationZero | OpenLoopVus
  | WorkerSlots nat | WorkerRate nat | VusDurationZero
  | LoopCapRange nat | HttpTimeoutRange | ConnectTimeoutRange | ConnectTimeoutOrder | ThinkTimeRange
  | CriteriaRange string | StepMetric nat string | StepOp nat | StepThreshold nat
  | StepRateRange nat | StepNonNegative nat | StepTargetEmpty nat
  | TooManyBindings nat nat | DuplicateVar string | NoDataset string | EmptyDataset
  | MissingColumn string | UniqueRowsRange | UniqueRowsWorkers int nat | TooManyRows int nat
  | StoreError string | ScenarioParse string | CriteriaTarget string

text \<open>A chain of early returns: the first failing check decides.\<close>

fun first_err :: "(bool \<times> 'e) list \<Rightarrow> 'e option" where
  "first_err [] = None"
| "first_err ((c, e) # cs) = (if c then Some e else first_err cs)"

definition stage_err :: "(stage \<Rightarrow> 'e option) \<Rightarrow> stage list \<Rightarrow> 'e option" where
  "stage_err f ss = fold (\<lambda>s r. case r of Some e \<Rightarrow> Some e | None \<Rightarrow> f s) ss None"

definition f64_one :: f64 where "f64_one = 0x3FF0000000000000"

definition bad_rate :: "f64 \<Rightarrow> bool" where
  "bad_rate r \<longleftrightarrow> \<not> f64_finite r \<or> \<not> (f64_le 0 r \<and> f64_le r f64_one)"

definition bad_min :: "f64 \<Rightarrow> bool" where
  "bad_min r \<longleftrightarrow> \<not> f64_finite r \<or> f64_lt r 0"

definition opt_bad :: "(f64 \<Rightarrow> bool) \<Rightarrow> f64 option \<Rightarrow> bool" where
  "opt_bad bad x = (case x of None \<Rightarrow> False | Some r \<Rightarrow> bad r)"

definition step_metrics :: "string list" where
  "step_metrics = [''p50_ms'', ''p95_ms'', ''p99_ms'', ''error_rate'', ''4xx_rate'', ''5xx_rate'',
     ''4xx_count'', ''5xx_count'']"

definition is_rate_metric :: "string \<Rightarrow> bool" where
  "is_rate_metric m = (m \<in> set [''error_rate'', ''4xx_rate'', ''5xx_rate''])"

definition step_criterion_err :: "nat \<Rightarrow> criterion \<Rightarrow> config_error option" where
  "step_criterion_err i sc =
     first_err
       [(cr_metric sc \<notin> set step_metrics, StepMetric i (cr_metric sc)),
        (cr_op sc \<noteq> ''max'' \<and> cr_op sc \<noteq> ''min'', StepOp i),
        (\<not> f64_finite (cr_threshold sc), StepThreshold i),
        (is_rate_metric (cr_metric sc) \<and> \<not> (f64_le 0 (cr_threshold sc) \<and> f64_le (cr_threshold sc) f64_one),
         StepRateRange i),
        (\<not> is_rate_metric (cr_metric sc) \<and> f64_lt (cr_threshold sc) 0, StepNonNegative i),
        (trim (cr_target sc) = [], StepTargetEmpty i)]"

fun step_criteria_err :: "nat \<Rightarrow> criterion list \<Rightarrow> config_error option" where
  "step_criteria_err i [] = None"
| "step_criteria_err i (sc # scs) =
     (case step_criterion_err i sc of Some e \<Rightarrow> Some e | None \<Rightarrow> step_criteria_err (i + 1) scs)"

definition validate_criteria :: "criteria \<Rightarrow> config_error option" where
  "validate_criteria c =
     (case first_err
        [(opt_bad bad_rate (max_error_rate c), CriteriaRange ''max_error_rate''),
         (opt_bad bad_min (min_rps c), CriteriaRange ''min_rps''),
         (opt_bad bad_rate (max_4xx_rate c), CriteriaRange ''max_4xx_rate''),
         (opt_bad bad_rate (max_5xx_rate c), CriteriaRange ''max_5xx_rate''),
         (opt_bad bad_min (min_window_rps c), CriteriaRange ''min_window_rps'')] of
        Some e \<Rightarrow> Some e
      | None \<Rightarrow> step_criteria_err 0 (step_criteria c))"

definition validate_knobs :: "limits \<Rightarrow> profile \<Rightarrow> config_error option" where
  "validate_knobs L p =
     first_err
       [(\<not> is_vu_curve p \<and> pf_ramp_down p \<noteq> None, RampDownOnlyVuCurve),
        (pf_graceful p \<noteq> None \<and> \<not> is_vu_curve p, GracefulOnlyVuCurve),
        (pf_graceful p \<noteq> None \<and> pf_ramp_down p = Some Immediate, GracefulNeedsGraceful),
        (pf_graceful p = Some 0, GracefulZero),
        (case pf_worker_count p of None \<Rightarrow> False | Some w \<Rightarrow> w = 0 \<or> li_max_open_loop_workers L < w,
         WorkerCountRange (li_max_open_loop_workers L)),
        (case pf_worker_count p of None \<Rightarrow> False | Some w \<Rightarrow> 1 < w \<and> \<not> is_open_loop p, WorkerCountOnlyOpenLoop)]"

definition validate_vu_curve :: "profile \<Rightarrow> config_error option" where
  "validate_vu_curve p =
     (let stages = unwrap_or [] (pf_vu_stages p) in
      case first_err
        [(pf_target_rps p \<noteq> None, VuStagesAndTargetRps),
         (pf_max_in_flight p \<noteq> None, VuStagesAndMaxInFlight),
         (has_stages (pf_stages p), VuStagesAndStages),
         (0 < pf_ramp_up p, VuStagesAndRampUp),
         (0 < pf_duration p, VuStagesAndDuration),
         (0 < pf_vus p, VuStagesAndVus)] of
        Some e \<Rightarrow> Some e
      | None \<Rightarrow>
          (case stage_err (\<lambda>s. if sg_duration s = 0 then Some StageDurationZero else None) stages of
             Some e \<Rightarrow> Some e
           | None \<Rightarrow> if \<not> list_ex (\<lambda>s. 0 < sg_target s) stages then Some StagesAllZero else None))"

definition validate_rate_curve :: "profile \<Rightarrow> stage list \<Rightarrow> config_error option" where
  "validate_rate_curve p stages =
     (case first_err [(pf_target_rps p \<noteq> None, StagesAndTargetRps), (0 < pf_duration p, StagesAndDuration)] of
        Some e \<Rightarrow> Some e
      | None \<Rightarrow>
          (case stage_err (\<lambda>s. first_err [(1000000 < sg_target s, StageTargetRange),
                                          (sg_duration s = 0, StageDurationZero)]) stages of
             Some e \<Rightarrow> Some e
           | None \<Rightarrow> if \<not> list_ex (\<lambda>s. 0 < sg_target s) stages then Some StagesAllZero else None))"

definition validate_rate :: "profile \<Rightarrow> config_error option" where
  "validate_rate p =
     (if has_stages (pf_stages p) then validate_rate_curve p (unwrap_or [] (pf_stages p))
      else let rps = the (pf_target_rps p) in
        first_err [(rps = 0 \<or> 1000000 < rps, TargetRpsRange), (pf_duration p = 0, DurationZero)])"

definition validate_fanout :: "profile \<Rightarrow> config_error option" where
  "validate_fanout p =
     (case pf_worker_count p of
        None \<Rightarrow> None
      | Some w \<Rightarrow>
          first_err
            [(1 < w \<and> unwrap_or 0 (pf_max_in_flight p) < w, WorkerSlots w),
             (1 < w \<and> \<not> has_stages (pf_stages p) \<and> unwrap_or 0 (pf_target_rps p) < w, WorkerRate w)])"

definition validate_open_loop :: "profile \<Rightarrow> config_error option" where
  "validate_open_loop p =
     (case first_err
        [(pf_max_in_flight p = None \<and> has_stages (pf_stages p), StagesNeedMaxInFlight),
         (pf_max_in_flight p = None, TargetRpsNeedsMaxInFlight),
         (case pf_max_in_flight p of None \<Rightarrow> False | Some m \<Rightarrow> m = 0 \<or> 10000 < m, MaxInFlightRange),
         (0 < pf_ramp_up p, OpenLoopRampUp),
         (pf_think_time p \<noteq> None, OpenLoopThink)] of
        Some e \<Rightarrow> Some e
      | None \<Rightarrow>
          (case validate_rate p of
             Some e \<Rightarrow> Some e
           | None \<Rightarrow> if 0 < pf_vus p then Some OpenLoopVus else validate_fanout p))"

definition think_time_in_range :: "think_time \<Rightarrow> bool" where
  "think_time_in_range t \<longleftrightarrow> min_ms t \<le> max_ms t \<and> max_ms t \<le> 600000"

definition validate_common :: "limits \<Rightarrow> profile \<Rightarrow> config_error option" where
  "validate_common L p =
     (case first_err
        [(li_max_loop_cap L < pf_loop_cap p, LoopCapRange (li_max_loop_cap L)),
         (pf_http_timeout p = 0 \<or> 600 < pf_http_timeout p, HttpTimeoutRange),
         (case pf_connect_timeout p of None \<Rightarrow> False | Some ct \<Rightarrow> ct < 1 \<or> 600 < ct, ConnectTimeoutRange),
         (case pf_connect_timeout p of None \<Rightarrow> False | Some ct \<Rightarrow> pf_http_timeout p \<le> ct, ConnectTimeoutOrder),
         (case pf_think_time p of None \<Rightarrow> False | Some t \<Rightarrow> \<not> think_time_in_range t, ThinkTimeRange)] of
        Some e \<Rightarrow> Some e
      | None \<Rightarrow> (case pf_criteria p of None \<Rightarrow> None | Some c \<Rightarrow> validate_criteria c))"

definition validate_mode :: "profile \<Rightarrow> config_error option" where
  "validate_mode p =
     (if is_vu_curve p then validate_vu_curve p
      else if is_open_loop p then validate_open_loop p
      else if pf_vus p = 0 \<or> pf_duration p = 0 then Some VusDurationZero
      else None)"

fun first_dup :: "string list \<Rightarrow> string list \<Rightarrow> string option" where
  "first_dup seen [] = None"
| "first_dup seen (v # vs) = (if v \<in> set seen then Some v else first_dup (v # seen) vs)"

definition per_iteration :: "binding_policy \<Rightarrow> bool" where
  "per_iteration q = (q \<noteq> PerVu)"

definition i64_as_u64 :: "int \<Rightarrow> nat" where
  "i64_as_u64 i = nat (i mod 2 ^ 64)"

definition binding_err :: "limits \<Rightarrow> nat \<Rightarrow> data_binding \<Rightarrow> dataset_meta \<Rightarrow> config_error option" where
  "binding_err L n b meta =
     (if dm_row_count meta = 0 then Some EmptyDataset
      else case find (\<lambda>c. c \<notin> set (dm_columns meta)) (referenced_columns b) of
        Some col \<Rightarrow> Some (MissingColumn col)
      | None \<Rightarrow>
          first_err
            [(db_policy b = Unique \<and> int u32_max < dm_row_count meta, UniqueRowsRange),
             (db_policy b = Unique \<and> i64_as_u64 (dm_row_count meta) < n, UniqueRowsWorkers (dm_row_count meta) n),
             (per_iteration (db_policy b) \<and> li_dataset_max_rows L < i64_as_u64 (dm_row_count meta),
              TooManyRows (dm_row_count meta) (li_dataset_max_rows L))])"

fun validate_bindings ::
  "limits \<Rightarrow> (string \<Rightarrow> string + dataset_meta option) \<Rightarrow> nat \<Rightarrow> data_binding list \<Rightarrow> config_error + dataset_meta list"
where
  "validate_bindings L get_meta n [] = Inr []"
| "validate_bindings L get_meta n (b # bs) =
     (case get_meta (db_dataset_id b) of
        Inl e \<Rightarrow> Inl (StoreError e)
      | Inr None \<Rightarrow> Inl (NoDataset (db_dataset_id b))
      | Inr (Some meta) \<Rightarrow>
          (case binding_err L n b meta of
             Some e \<Rightarrow> Inl e
           | None \<Rightarrow>
               (case validate_bindings L get_meta n bs of
                  Inl e \<Rightarrow> Inl e
                | Inr metas \<Rightarrow> Inr (meta # metas))))"

definition validate_run_config ::
  "limits \<Rightarrow> (string \<Rightarrow> string + dataset_meta option) \<Rightarrow> profile \<Rightarrow> config_error + dataset_meta list"
where
  "validate_run_config L get_meta p =
     (case validate_knobs L p of Some e \<Rightarrow> Inl e | None \<Rightarrow>
      (case validate_mode p of Some e \<Rightarrow> Inl e | None \<Rightarrow>
       (case validate_common L p of Some e \<Rightarrow> Inl e | None \<Rightarrow>
        (let bindings = effective_bindings p in
         if bindings = [] then Inr []
         else if li_max_bindings L < length bindings then
           Inl (TooManyBindings (li_max_bindings L) (length bindings))
         else case first_dup [] (collect_var_names bindings) of
             Some v \<Rightarrow> Inl (DuplicateVar v)
           | None \<Rightarrow> validate_bindings L get_meta (fanout_worker_count p (li_worker_capacity L)) bindings))))"


subsection \<open>What a validated run guarantees\<close>

lemma first_err_None: "first_err cs = None \<longleftrightarrow> (\<forall>(c, e) \<in> set cs. \<not> c)"
  by (induction cs rule: first_err.induct) auto

declare first_err.simps [simp del]

lemma stage_err_None: "stage_err f ss = None \<longleftrightarrow> (\<forall>s \<in> set ss. f s = None)"
proof -
  have "fold (\<lambda>s r. case r of Some e \<Rightarrow> Some e | None \<Rightarrow> f s) ss r = None
      \<longleftrightarrow> r = None \<and> (\<forall>s \<in> set ss. f s = None)" for r
    by (induction ss arbitrary: r) (auto split: option.splits)
  then show ?thesis by (simp add: stage_err_def)
qed

lemma foldl_max: "foldl max (t :: nat) ts = Max (set (t # ts))"
proof (induction ts arbitrary: t)
  case (Cons u ts)
  have "foldl max t (u # ts) = foldl max (max t u) ts" by simp
  then show ?case unfolding Cons.IH by (cases "ts = []") (simp_all add: max.assoc Max_insert)
qed simp

lemma max_target_pos:
  "list_ex (\<lambda>s. 0 < sg_target s) (unwrap_or [] s) \<Longrightarrow> 0 < max_target d s"
proof -
  assume ex: "list_ex (\<lambda>s. 0 < sg_target s) (unwrap_or [] s)"
  then obtain l where s: "s = Some l" "l \<noteq> []" by (cases s; cases "the s = []") (auto simp: unwrap_or_def)
  then obtain x where "x \<in> set (map sg_target l)" "0 < x" using ex by (auto simp: unwrap_or_def list_ex_iff)
  moreover have "max_target d s = Max (set (map sg_target l))"
    using s by (cases l) (auto simp: max_target_def foldl_max)
  ultimately show ?thesis by (metis List.finite_set Max_ge less_le_trans)
qed

lemma worker_count_le: "0 < t \<Longrightarrow> worker_count t cap \<le> t"
proof -
  assume t: "0 < t"
  have "t \<le> t * max cap 1" by simp
  then have "div_ceil t (max cap 1) \<le> t" by (intro div_ceil_least) simp_all
  with t show ?thesis by (simp add: worker_count_def Let_def)
qed

lemma shard_share_pos: "0 < n \<Longrightarrow> n \<le> t \<Longrightarrow> 1 \<le> snd (shard_split t n i)"
  using div_greater_zero_iff [of t n] by (simp add: shard_split_count)

lemma first_dup_None: "first_dup seen vs = None \<longleftrightarrow> distinct vs \<and> set vs \<inter> set seen = {}"
  by (induction vs arbitrary: seen) auto

lemma validate_bindings_ok:
  "validate_bindings L get_meta n bs = Inr metas \<Longrightarrow>
   list_all2 (\<lambda>b meta. get_meta (db_dataset_id b) = Inr (Some meta) \<and> binding_err L n b meta = None) bs metas"
  by (induction L get_meta n bs arbitrary: metas rule: validate_bindings.induct)
    (auto split: sum.splits option.splits)

lemma validate_run_config_ok:
  "validate_run_config L get_meta p = Inr metas \<Longrightarrow>
   validate_knobs L p = None \<and> validate_mode p = None \<and> validate_common L p = None
   \<and> (effective_bindings p \<noteq> [] \<longrightarrow> distinct (collect_var_names (effective_bindings p)))
   \<and> list_all2 (\<lambda>b meta. get_meta (db_dataset_id b) = Inr (Some meta)
        \<and> binding_err L (fanout_worker_count p (li_worker_capacity L)) b meta = None) (effective_bindings p) metas"
  unfolding validate_run_config_def Let_def
  by (auto simp: first_dup_None dest: validate_bindings_ok split: option.splits if_splits)

lemma validated_workers:
  assumes "validate_knobs L p = None" and "validate_mode p = None"
  shows "0 < fanout_worker_count p cap \<and> fanout_worker_count p cap \<le> concurrency_demand p"
proof (cases "is_vu_curve p")
  case True
  then have "validate_vu_curve p = None" using assms by (simp add: validate_mode_def)
  then have "list_ex (\<lambda>s. 0 < sg_target s) (unwrap_or [] (pf_vu_stages p))"
    by (simp add: validate_vu_curve_def Let_def split: option.splits if_splits)
  then have "0 < vu_curve_max p" by (simp add: vu_curve_max_def max_target_pos)
  then show ?thesis
    using True worker_count_le by (simp add: fanout_worker_count_def concurrency_demand_def worker_count_def Let_def)
next
  case False
  show ?thesis
  proof (cases "is_open_loop p")
    case True
    then have v: "validate_open_loop p = None" using assms False by (simp add: validate_mode_def)
    then have mif: "case pf_max_in_flight p of None \<Rightarrow> False | Some m \<Rightarrow> 0 < m"
      and fan: "validate_fanout p = None"
      by (auto simp: validate_open_loop_def first_err_None split: option.splits if_splits)
    have "case pf_worker_count p of None \<Rightarrow> True | Some w \<Rightarrow> 0 < w"
      using assms(1) by (auto simp: validate_knobs_def first_err_None split: option.splits)
    then show ?thesis
      using mif fan True False
      by (auto simp: fanout_worker_count_def concurrency_demand_def validate_fanout_def first_err_None unwrap_or_def
          split: option.splits)
  next
    case closed: False
    then have "0 < pf_vus p" using assms False by (simp add: validate_mode_def split: if_splits)
    then show ?thesis
      using closed False worker_count_le
      by (simp add: fanout_worker_count_def concurrency_demand_def worker_count_def Let_def)
  qed
qed

lemma validated_fixed_rate:
  assumes "validate_knobs L p = None" and "validate_mode p = None" and "is_open_loop p"
    and "\<not> is_vu_curve p" and "\<not> has_stages (pf_stages p)"
  shows "\<exists>rps. pf_target_rps p = Some rps \<and> fanout_worker_count p cap \<le> rps"
proof -
  obtain rps where rps: "pf_target_rps p = Some rps" using assms(3,5) by (auto simp: is_open_loop_def)
  have v: "validate_open_loop p = None" using assms by (simp add: validate_mode_def)
  then have "validate_rate p = None" and fan: "validate_fanout p = None"
    by (auto simp: validate_open_loop_def split: option.splits if_splits)
  then have "0 < rps" using assms(5) rps by (simp add: validate_rate_def first_err_None Let_def)
  then show ?thesis
    using fan assms(3-5) rps
    by (auto simp: fanout_worker_count_def validate_fanout_def first_err_None unwrap_or_def split: option.splits)
qed

lemma validated_staged_rate:
  assumes "validate_mode p = None" and "is_open_loop p" and "\<not> is_vu_curve p" and "has_stages (pf_stages p)"
  shows "\<exists>st \<in> set (the (pf_stages p)). 0 < sg_target st"
proof -
  have "validate_open_loop p = None" using assms by (simp add: validate_mode_def)
  then have "validate_rate_curve p (unwrap_or [] (pf_stages p)) = None"
    using assms(4) by (auto simp: validate_open_loop_def validate_rate_def split: option.splits if_splits)
  then show ?thesis
    using assms(4)
    by (auto simp: validate_rate_curve_def has_stages_def unwrap_or_def list_ex_iff split: option.splits if_splits)
qed

lemma shard_share_pos_iff: "i < n \<Longrightarrow> 1 \<le> snd (shard_split t n i) \<longleftrightarrow> i < t"
proof (cases "n \<le> t")
  case True
  then show "i < n \<Longrightarrow> ?thesis" using shard_share_pos [of n t i] by simp
next
  case False
  then show "i < n \<Longrightarrow> ?thesis" by (simp add: shard_split_count)
qed

text \<open>
  C9: what a run that passes the gate promises each worker of its fan-out. In a closed loop, a
  virtual user curve and an open loop alike every worker has at least one virtual user (of the
  curve's peak, or one slot). At a fixed open-loop rate every worker also has at least one request
  per second. The gate exempts staged open-loop rates from that check: of a stage, exactly the
  workers below its target have a rate at all, so that the others idle in it (and some stage has a
  positive target). Every worker has at least one row of each unique binding; no variable is mapped
  twice and every mapped column exists.
\<close>

theorem validated_run_productive:
  assumes "validate_run_config L get_meta p = Inr metas" and "n = fanout_worker_count p (li_worker_capacity L)"
    and "i < n"
  shows "1 \<le> snd (shard_split (concurrency_demand p) n i)
    \<and> (\<forall>rps. pf_target_rps p = Some rps \<and> \<not> is_vu_curve p \<and> \<not> has_stages (pf_stages p)
         \<longrightarrow> 1 \<le> snd (shard_split rps n i))
    \<and> (is_open_loop p \<and> \<not> is_vu_curve p \<and> has_stages (pf_stages p) \<longrightarrow>
         (\<forall>st \<in> set (the (pf_stages p)). 1 \<le> snd (shard_split (sg_target st) n i) \<longleftrightarrow> i < sg_target st)
         \<and> (\<exists>st \<in> set (the (pf_stages p)). 0 < sg_target st))
    \<and> distinct (collect_var_names (effective_bindings p))
    \<and> list_all2 (\<lambda>b meta. set (referenced_columns b) \<subseteq> set (dm_columns meta) \<and> dm_row_count meta \<noteq> 0
         \<and> (db_policy b = Unique \<and> 0 \<le> dm_row_count meta \<longrightarrow>
              1 \<le> snd (dataset_slice True (nat (dm_row_count meta)) n i))) (effective_bindings p) metas"
proof (intro conjI allI impI)
  note ok = validate_run_config_ok [OF assms(1)]
  have w: "0 < n" "n \<le> concurrency_demand p"
    using validated_workers [of L p] ok assms(2) by auto
  show "1 \<le> snd (shard_split (concurrency_demand p) n i)" by (rule shard_share_pos [OF w])
  show "1 \<le> snd (shard_split rps n i)"
    if "pf_target_rps p = Some rps \<and> \<not> is_vu_curve p \<and> \<not> has_stages (pf_stages p)" for rps
    using validated_fixed_rate [of L p "li_worker_capacity L"] ok that w(1) assms(2)
    by (intro shard_share_pos) (auto simp: is_open_loop_def)
  show "\<forall>st \<in> set (the (pf_stages p)). 1 \<le> snd (shard_split (sg_target st) n i) \<longleftrightarrow> i < sg_target st"
    using shard_share_pos_iff [OF assms(3)] by blast
  show "\<exists>st \<in> set (the (pf_stages p)). 0 < sg_target st"
    if "is_open_loop p \<and> \<not> is_vu_curve p \<and> has_stages (pf_stages p)"
    using validated_staged_rate [of p, OF ok [THEN conjunct2, THEN conjunct1]] that by simp
  show "distinct (collect_var_names (effective_bindings p))"
    using ok by (cases "effective_bindings p = []") (auto simp: collect_var_names_def)
  show "list_all2 (\<lambda>b meta. set (referenced_columns b) \<subseteq> set (dm_columns meta) \<and> dm_row_count meta \<noteq> 0
         \<and> (db_policy b = Unique \<and> 0 \<le> dm_row_count meta \<longrightarrow>
              1 \<le> snd (dataset_slice True (nat (dm_row_count meta)) n i))) (effective_bindings p) metas"
  proof (rule list_all2_mono [OF ok [THEN conjunct2, THEN conjunct2, THEN conjunct2, THEN conjunct2]], intro conjI impI)
    fix b meta
    assume "get_meta (db_dataset_id b) = Inr (Some meta)
        \<and> binding_err L (fanout_worker_count p (li_worker_capacity L)) b meta = None"
    then have e: "binding_err L n b meta = None" using assms(2) by simp
    then show "set (referenced_columns b) \<subseteq> set (dm_columns meta)" "dm_row_count meta \<noteq> 0"
      by (auto simp: binding_err_def find_None_iff split: if_splits option.splits)
    assume u: "db_policy b = Unique \<and> 0 \<le> dm_row_count meta"
    then have "dm_row_count meta \<le> int u32_max" "n \<le> i64_as_u64 (dm_row_count meta)"
      using e by (auto simp: binding_err_def first_err_None split: if_splits option.splits)
    then have "nat (dm_row_count meta) \<le> u32_max" "n \<le> nat (dm_row_count meta)"
      using u by (simp_all add: i64_as_u64_def)
    then show "1 \<le> snd (dataset_slice True (nat (dm_row_count meta)) n i)"
      using shard_share_pos [OF w(1)] by (simp add: dataset_slice_def)
  qed
qed

definition demo_profile :: profile where
  "demo_profile = \<lparr>pf_vus = 0, pf_ramp_up = 0, pf_duration = 10, pf_loop_cap = 256, pf_http_timeout = 30,
     pf_data_binding = Some \<lparr>db_dataset_id = ''d'', db_policy = Unique, db_mappings = [MColumn ''u'' ''c'']\<rparr>,
     pf_data_bindings = [], pf_criteria = None, pf_think_time = None, pf_think_seed = None,
     pf_target_rps = Some 7, pf_max_in_flight = Some 5, pf_stages = None, pf_measure_phases = False,
     pf_vu_stages = None, pf_ramp_down = None, pf_graceful = None, pf_connect_timeout = None,
     pf_worker_count = Some 3, pf_apply_think = True\<rparr>"

definition demo_limits :: limits where
  "demo_limits = \<lparr>li_max_open_loop_workers = 64, li_max_loop_cap = 10000, li_max_bindings = 8,
     li_dataset_max_rows = 1000000, li_worker_capacity = 2000\<rparr>"

definition demo_meta :: "string \<Rightarrow> string + dataset_meta option" where
  "demo_meta d = Inr (Some \<lparr>dm_id = d, dm_name = ''n'', dm_columns = [''c''], dm_row_count = 4, dm_byte_size = 0,
     dm_created_at = 0\<rparr>)"

theorem validated_run_productive_witness:
  "1 \<le> snd (shard_split (concurrency_demand demo_profile) 3 2)
   \<and> distinct (collect_var_names (effective_bindings demo_profile))"
proof -
  have "validate_run_config demo_limits demo_meta demo_profile
      = Inr [\<lparr>dm_id = ''d'', dm_name = ''n'', dm_columns = [''c''], dm_row_count = 4, dm_byte_size = 0, dm_created_at = 0\<rparr>]"
    by (simp add: validate_run_config_def validate_knobs_def validate_mode_def validate_open_loop_def validate_rate_def
        validate_fanout_def validate_common_def binding_err_def effective_bindings_def is_vu_curve_def is_open_loop_def
        has_stages_def fanout_worker_count_def collect_var_names_def mapping_var_def referenced_columns_def
        per_iteration_def i64_as_u64_def unwrap_or_def demo_profile_def demo_limits_def demo_meta_def first_err.simps)
  moreover have "3 = fanout_worker_count demo_profile (li_worker_capacity demo_limits)"
    by (simp add: fanout_worker_count_def is_vu_curve_def is_open_loop_def has_stages_def unwrap_or_def demo_profile_def)
  ultimately show ?thesis
    using validated_run_productive [of demo_limits demo_meta demo_profile _ 3 2] by simp
qed

text \<open>The exemption is real: three workers, a stage with a target of two, and the third worker
  sends nothing.\<close>

definition demo_staged :: profile where
  "demo_staged = demo_profile\<lparr>pf_data_binding := None, pf_target_rps := None, pf_duration := 0,
     pf_stages := Some [\<lparr>sg_target = 2, sg_duration = 10\<rparr>]\<rparr>"

lemma staged_rate_exempt:
  "validate_run_config demo_limits demo_meta demo_staged = Inr []
   \<and> fanout_worker_count demo_staged (li_worker_capacity demo_limits) = 3
   \<and> snd (shard_split 2 3 2) = 0"
  by (simp add: validate_run_config_def validate_knobs_def validate_mode_def validate_open_loop_def validate_rate_def
      validate_rate_curve_def validate_fanout_def validate_common_def effective_bindings_def is_vu_curve_def
      is_open_loop_def has_stages_def fanout_worker_count_def unwrap_or_def demo_profile_def demo_staged_def
      demo_limits_def first_err.simps stage_err_def shard_split_def)

end
