(* ===== verification/Assignment.thy ===== *)
theory Assignment
  imports Run_Config
begin

text \<open>
  What the controller sends to a worker. The wire profile (\<^verbatim>\<open>grpc/profile.rs\<close>,
  \<^verbatim>\<open>proto/src/lib.rs\<close>), the liveness budgets and the worker YAML of \<^verbatim>\<open>api/runs.rs\<close>, the share of
  one shard (\<^verbatim>\<open>reduce_pool_profile\<close> of \<^verbatim>\<open>grpc/coordinator.rs\<close>), the dataset table of
  \<^verbatim>\<open>store/datasets.rs\<close> and the streaming of a dataset slice in batches.

  An out-of-range index of the code panics; here it is \<^const>\<open>None\<close>. A stored row is the map that
  its JSON text encodes. Whether a send on the worker's channel succeeds is an argument.
\<close>

subsection \<open>The wire profile\<close>

record pb_profile =
  pb_vus :: nat
  pb_ramp_up :: nat
  pb_duration :: nat
  pb_loop_cap :: nat
  pb_http_timeout :: nat
  pb_think_time :: "think_time option"
  pb_think_seed :: "nat option"
  pb_target_rps :: "nat option"
  pb_max_in_flight :: "nat option"
  pb_stages :: "stage list"
  pb_measure_phases :: bool
  pb_vu_stages :: "stage list"
  pb_ramp_down_immediate :: bool
  pb_graceful :: "nat option"
  pb_connect_timeout :: "nat option"

definition to_proto_profile :: "profile \<Rightarrow> pb_profile" where
  "to_proto_profile p = \<lparr>
     pb_vus = pf_vus p, pb_ramp_up = pf_ramp_up p, pb_duration = pf_duration p, pb_loop_cap = pf_loop_cap p,
     pb_http_timeout = pf_http_timeout p,
     pb_think_time = map_option (\<lambda>t. \<lparr>min_ms = min_ms t, max_ms = max_ms t\<rparr>) (pf_think_time p),
     pb_think_seed = pf_think_seed p, pb_target_rps = pf_target_rps p, pb_max_in_flight = pf_max_in_flight p,
     pb_stages = map (\<lambda>s. \<lparr>sg_target = sg_target s, sg_duration = sg_duration s\<rparr>) (unwrap_or [] (pf_stages p)),
     pb_measure_phases = pf_measure_phases p,
     pb_vu_stages = map (\<lambda>s. \<lparr>sg_target = sg_target s, sg_duration = sg_duration s\<rparr>) (unwrap_or [] (pf_vu_stages p)),
     pb_ramp_down_immediate = (pf_ramp_down p = Some Immediate),
     pb_graceful = pf_graceful p, pb_connect_timeout = pf_connect_timeout p\<rparr>"

definition run_duration_secs :: "pb_profile \<Rightarrow> nat" where
  "run_duration_secs p =
     (if pb_vu_stages p \<noteq> [] then \<Sum>s\<leftarrow>pb_vu_stages p. sg_duration s
      else if pb_stages p = [] then pb_duration p
      else \<Sum>s\<leftarrow>pb_stages p. sg_duration s)"

definition leading_idle_secs :: "pb_profile \<Rightarrow> nat" where
  "leading_idle_secs p =
     (let lead = (if pb_vu_stages p \<noteq> [] then pb_vu_stages p else pb_stages p)
      in \<Sum>s\<leftarrow>takeWhile (\<lambda>s. sg_target s = 0) lead. sg_duration s)"

text \<open>
  \<^verbatim>\<open>ceil(sqrt(n * d / t))\<close> in floating point is a parameter of the first-arrival bound; the
  result is capped by the stage length whatever it is.
\<close>

definition curve_first_arrival_secs :: "(nat \<Rightarrow> nat \<Rightarrow> nat \<Rightarrow> nat) \<Rightarrow> pb_profile \<Rightarrow> nat \<Rightarrow> nat" where
  "curve_first_arrival_secs sqrt_bound p n_workers =
     (if pb_vu_stages p \<noteq> [] then 0
      else case find (\<lambda>s. sg_target s \<noteq> 0) (pb_stages p) of
        None \<Rightarrow> 0
      | Some s \<Rightarrow>
          let d = sg_duration s in
          if d = 0 then 0 else min (sqrt_bound (max n_workers 1) d (sg_target s)) d)"

definition startup_margin :: nat where "startup_margin = 15"

definition startup_grace_eff :: "(nat \<Rightarrow> nat \<Rightarrow> nat \<Rightarrow> nat) \<Rightarrow> pb_profile \<Rightarrow> nat \<Rightarrow> nat \<Rightarrow> nat" where
  "startup_grace_eff sqrt_bound p startup_floor n_workers =
     (let http_to = (if pb_http_timeout p = 0 then 30 else pb_http_timeout p);
          floor = max startup_floor (http_to + startup_margin)
      in floor + leading_idle_secs p + curve_first_arrival_secs sqrt_bound p n_workers)"

subsection \<open>The scenario sent to the workers\<close>

fun strip_steps :: "step list \<Rightarrow> bool \<times> step list"
  and strip_step :: "step \<Rightarrow> bool \<times> step"
  and strip_elifs :: "elif_branch list \<Rightarrow> bool \<times> elif_branch list"
  and strip_branches :: "branch list \<Rightarrow> bool \<times> branch list" where
  "strip_steps [] = (False, [])"
| "strip_steps (s # ss) = (case strip_step s of (c1, s') \<Rightarrow> case strip_steps ss of (c2, ss') \<Rightarrow> (c1 \<or> c2, s' # ss'))"
| "strip_step (StHttp h) = (hs_think h \<noteq> None, StHttp (h\<lparr>hs_think := None\<rparr>))"
| "strip_step (StLoop i n r body) = (case strip_steps body of (c, b) \<Rightarrow> (c, StLoop i n r b))"
| "strip_step (StIf i n cond t els e) =
     (case strip_steps t of (c1, t') \<Rightarrow> case strip_elifs els of (c2, els') \<Rightarrow> case strip_steps e of (c3, e') \<Rightarrow>
        (c1 \<or> c2 \<or> c3, StIf i n cond t' els' e'))"
| "strip_step (StParallel i n bs) = (case strip_branches bs of (c, bs') \<Rightarrow> (c, StParallel i n bs'))"
| "strip_elifs [] = (False, [])"
| "strip_elifs (ElifBranch cond t # els) =
     (case strip_steps t of (c1, t') \<Rightarrow> case strip_elifs els of (c2, els') \<Rightarrow> (c1 \<or> c2, ElifBranch cond t' # els'))"
| "strip_branches [] = (False, [])"
| "strip_branches (Branch n ss # bs) =
     (case strip_steps ss of (c1, ss') \<Rightarrow> case strip_branches bs of (c2, bs') \<Rightarrow> (c1 \<or> c2, Branch n ss' # bs'))"

definition strip_scenario_think :: "'tz scenario \<Rightarrow> bool \<times> 'tz scenario" where
  "strip_scenario_think sc =
     (case strip_steps (sc_steps sc) of (c, ss) \<Rightarrow>
        (sc_default_think sc \<noteq> None \<or> c, sc\<lparr>sc_default_think := None, sc_steps := ss\<rparr>))"

definition maybe_strip_think ::
  "(string \<Rightarrow> 'tz scenario option) \<Rightarrow> ('tz scenario \<Rightarrow> string option) \<Rightarrow> string \<Rightarrow> profile \<Rightarrow> string"
where
  "maybe_strip_think from_yaml to_yaml yaml p =
     (if \<not> (is_open_loop p \<and> \<not> pf_apply_think p) then yaml
      else case from_yaml yaml of
        None \<Rightarrow> yaml
      | Some sc \<Rightarrow> (case strip_scenario_think sc of (changed, sc') \<Rightarrow>
          if changed then (case to_yaml sc' of Some y \<Rightarrow> y | None \<Rightarrow> yaml) else yaml))"

definition collect_http_step_ids :: "step list \<Rightarrow> string set" where
  "collect_http_step_ids steps = hs_id ` set (collect_http steps)"

definition validate_step_criteria_targets ::
  "(string \<Rightarrow> string + 'tz scenario) \<Rightarrow> profile \<Rightarrow> string \<Rightarrow> config_error option"
where
  "validate_step_criteria_targets from_yaml p yaml =
     (case pf_criteria p of
        None \<Rightarrow> None
      | Some c \<Rightarrow>
          if step_criteria c = [] then None
          else case from_yaml yaml of
            Inl e \<Rightarrow> Some (ScenarioParse e)
          | Inr sc \<Rightarrow>
              (case find (\<lambda>cr. cr_target cr \<notin> collect_http_step_ids (sc_steps sc)) (step_criteria c) of
                 None \<Rightarrow> None
               | Some cr \<Rightarrow> Some (CriteriaTarget (cr_target cr))))"

subsection \<open>The share of a shard\<close>

definition index_at :: "'a list \<Rightarrow> nat \<Rightarrow> 'a option" where
  "index_at xs i = (if i < length xs then Some (xs ! i) else None)"

definition rate_share :: "nat \<Rightarrow> nat \<Rightarrow> nat list option \<Rightarrow> nat \<Rightarrow> nat option" where
  "rate_share i n weights t = (case weights of
     Some w \<Rightarrow> index_at (proportional_split_min1 t w) i
   | None \<Rightarrow> Some (snd (shard_split t n i)))"

definition stage_share :: "nat \<Rightarrow> nat \<Rightarrow> nat list option \<Rightarrow> stage \<Rightarrow> stage option" where
  "stage_share i n weights s =
     map_option (\<lambda>t. s\<lparr>sg_target := t\<rparr>)
       (case weights of
          Some w \<Rightarrow> index_at (proportional_split (sg_target s) w) i
        | None \<Rightarrow> Some (snd (shard_split (sg_target s) n i)))"

definition opt_bind :: "'a option \<Rightarrow> ('a \<Rightarrow> 'b option) \<Rightarrow> 'b option" where
  "opt_bind x f = (case x of None \<Rightarrow> None | Some a \<Rightarrow> f a)"

definition reduce_pool_profile ::
  "pb_profile \<Rightarrow> nat \<Rightarrow> nat \<Rightarrow> nat \<Rightarrow> nat list option \<Rightarrow> pb_profile option"
where
  "reduce_pool_profile p i n vu_count weights =
     (let open_loop = (pb_target_rps p \<noteq> None \<or> pb_stages p \<noteq> []); curve = (pb_vu_stages p \<noteq> []) in
      if n \<le> 1 \<or> (\<not> open_loop \<and> \<not> curve) then Some p
      else if open_loop then
        opt_bind (case pb_target_rps p of None \<Rightarrow> Some None | Some t \<Rightarrow> map_option Some (rate_share i n weights t))
          (\<lambda>rps. opt_bind (those (map (stage_share i n weights) (pb_stages p)))
             (\<lambda>ss. Some (p\<lparr>pb_max_in_flight := Some vu_count, pb_target_rps := rps, pb_stages := ss\<rparr>)))
      else
        opt_bind (those (map (stage_share i n weights) (pb_vu_stages p))) (\<lambda>ss. Some (p\<lparr>pb_vu_stages := ss\<rparr>)))"

subsection \<open>The dataset table\<close>

record dataset_row =
  dr_dataset :: string
  dr_idx :: nat
  dr_values :: "(string, string) btree_map"

definition row_to_map :: "string list \<Rightarrow> string list \<Rightarrow> (string, string) btree_map" where
  "row_to_map columns cells =
     fold (\<lambda>(i, col). bt_insert col (unwrap_or '''' (index_at cells i))) (zip [0..<length columns] columns) []"

definition insert_dataset_rows :: "string \<Rightarrow> string list \<Rightarrow> string list list \<Rightarrow> dataset_row list \<Rightarrow> dataset_row list" where
  "insert_dataset_rows d columns rows tbl =
     tbl @ map (\<lambda>(i, cells). \<lparr>dr_dataset = d, dr_idx = i, dr_values = row_to_map columns cells\<rparr>)
                (zip [0..<length rows] rows)"

definition get_rows_range :: "dataset_row list \<Rightarrow> string \<Rightarrow> nat \<Rightarrow> nat \<Rightarrow> (string, string) btree_map list" where
  "get_rows_range tbl d start_idx limit =
     map dr_values (take limit (sort_key dr_idx (filter (\<lambda>r. dr_dataset r = d \<and> start_idx \<le> dr_idx r) tbl)))"

definition delete_dataset_rows :: "string \<Rightarrow> dataset_row list \<Rightarrow> dataset_row list" where
  "delete_dataset_rows d tbl = filter (\<lambda>r. dr_dataset r \<noteq> d) tbl"

subsection \<open>Streaming a slice\<close>

record worker_stream =
  ws_dataset :: string
  ws_mappings :: "mapping list"
  ws_offset :: nat
  ws_count :: nat
  ws_binding_index :: nat

datatype stream_msg =
    MsgBatch string nat "(string, string) btree_map list"
  | MsgStreamAbort string

definition dataset_batch_rows :: nat where "dataset_batch_rows = 1000"

text \<open>
  The loop of \<^verbatim>\<open>stream_dataset\<close>: \<open>fetch\<close> answers \<^const>\<open>None\<close> when the store fails, \<open>alive k\<close> tells
  whether the \<open>k\<close>-th send succeeds; the result is the batches sent and whether the slice came up
  incomplete.
\<close>

function (sequential) stream_loop ::
  "(string \<Rightarrow> nat \<Rightarrow> nat \<Rightarrow> (string, string) btree_map list option) \<Rightarrow> (nat \<Rightarrow> bool) \<Rightarrow> string \<Rightarrow> worker_stream
    \<Rightarrow> nat \<Rightarrow> nat \<Rightarrow> stream_msg list \<times> bool"
where
  "stream_loop fetch alive run ws k sent =
     (if sent < ws_count ws then
        (let limit = min dataset_batch_rows (ws_count ws - sent) in
         case fetch (ws_dataset ws) (ws_offset ws + sent) limit of
           None \<Rightarrow> ([], True)
         | Some src \<Rightarrow>
             if src = [] then ([], True)
             else if \<not> alive k then ([], True)
             else (case stream_loop fetch alive run ws (k + 1) (sent + length src) of
                     (msgs, inc) \<Rightarrow>
                       (MsgBatch run (ws_binding_index ws) (map (apply_mappings (ws_mappings ws)) src) # msgs, inc)))
      else ([], False))"
  by pat_completeness auto

termination
  by (relation "measure (\<lambda>(fetch, alive, run, ws, k, sent). ws_count ws - sent)") (auto simp: neq_Nil_conv)

declare stream_loop.simps [simp del]

definition stream_dataset ::
  "(string \<Rightarrow> nat \<Rightarrow> nat \<Rightarrow> (string, string) btree_map list option) \<Rightarrow> (nat \<Rightarrow> bool) \<Rightarrow> string \<Rightarrow> worker_stream
    \<Rightarrow> stream_msg list \<times> bool"
where
  "stream_dataset fetch alive run ws =
     (case stream_loop fetch alive run ws 0 0 of
        (msgs, inc) \<Rightarrow> if inc then (msgs @ [MsgStreamAbort run], False) else (msgs, True))"


subsection \<open>Streaming delivers the slice\<close>

fun msg_rows :: "stream_msg \<Rightarrow> (string, string) btree_map list" where
  "msg_rows (MsgBatch _ _ rows) = rows"
| "msg_rows (MsgStreamAbort _) = []"

definition delivered :: "stream_msg list \<Rightarrow> (string, string) btree_map list" where
  "delivered msgs = concat (map msg_rows msgs)"

lemma delivered_simps [simp]:
  "delivered [] = []" "delivered (m # ms) = msg_rows m @ delivered ms" "delivered (ms @ ms') = delivered ms @ delivered ms'"
  by (simp_all add: delivered_def)

lemma filter_zip_from:
  "filter (\<lambda>r. dr_dataset r = d \<and> s \<le> dr_idx r)
     (map (\<lambda>(i, cells). \<lparr>dr_dataset = d, dr_idx = i, dr_values = f cells\<rparr>) (zip [a..<a + length rows] rows))
   = map (\<lambda>(i, cells). \<lparr>dr_dataset = d, dr_idx = i, dr_values = f cells\<rparr>)
       (drop (s - a) (zip [a..<a + length rows] rows))"
proof (induction rows arbitrary: a)
  case Nil
  then show ?case by simp
next
  case (Cons r rows)
  have upt: "[a..<a + length (r # rows)] = a # [Suc a..<Suc a + length rows]"
    by (simp add: upt_rec [of a]) (simp add: Suc_le_eq)
  show ?case
  proof (cases "s \<le> a")
    case True
    with Cons.IH [of "Suc a"] show ?thesis unfolding upt by simp
  next
    case False
    then have "s - a = Suc (s - Suc a)" by simp
    with Cons.IH [of "Suc a"] False show ?thesis unfolding upt by simp
  qed
qed

lemma get_rows_range_inserted:
  assumes "\<forall>r \<in> set tbl. dr_dataset r \<noteq> d"
  shows "get_rows_range (insert_dataset_rows d columns rows tbl) d s limit
    = take limit (drop s (map (row_to_map columns) rows))"
proof -
  let ?mk = "\<lambda>(i, cells). \<lparr>dr_dataset = d, dr_idx = i, dr_values = row_to_map columns cells\<rparr>"
  have "filter (\<lambda>r. dr_dataset r = d \<and> s \<le> dr_idx r) tbl = []"
    using assms by (auto simp: filter_empty_conv)
  then have f: "filter (\<lambda>r. dr_dataset r = d \<and> s \<le> dr_idx r) (insert_dataset_rows d columns rows tbl)
      = map ?mk (drop s (zip [0..<length rows] rows))"
    using filter_zip_from [of d s "row_to_map columns" 0 rows] by (simp add: insert_dataset_rows_def)
  have idx: "map dr_idx (map ?mk z) = map fst z" for z by (simp add: comp_def case_prod_beta)
  have "sorted (map dr_idx (map ?mk (drop s (zip [0..<length rows] rows))))"
    unfolding idx by (simp flip: drop_map)
  then have "sort_key dr_idx (map ?mk (drop s (zip [0..<length rows] rows))) = map ?mk (drop s (zip [0..<length rows] rows))"
    by (simp add: sort_key_id_if_sorted)
  moreover have v: "map dr_values (map ?mk z) = map (row_to_map columns) (map snd z)" for z
    by (simp add: comp_def case_prod_beta)
  have "map snd (take limit (drop s (zip [0..<length rows] rows))) = take limit (drop s rows)"
    by (simp flip: take_map drop_map)
  then have "map dr_values (map ?mk (take limit (drop s (zip [0..<length rows] rows))))
      = map (row_to_map columns) (take limit (drop s rows))" unfolding v by simp
  ultimately show ?thesis
    unfolding get_rows_range_def f by (simp only: take_map drop_map)
qed

lemma take_split: "a \<le> c \<Longrightarrow> take c D = take a D @ take (c - a) (drop a D)"
  using take_add [of a "c - a" D] by simp

lemma stream_loop_slice:
  assumes fetch: "\<And>s l. fetch (ws_dataset ws) s l = Some (take l (drop s R))"
    and "stream_loop fetch alive run ws k sent = (msgs, inc)" and "sent \<le> ws_count ws"
    and "sent = 0 \<or> ws_offset ws + sent \<le> length R"
  shows "(\<exists>rest. map (apply_mappings (ws_mappings ws)) (take (ws_count ws - sent) (drop (ws_offset ws + sent) R))
            = delivered msgs @ rest \<and> (\<not> inc \<longrightarrow> rest = []))
    \<and> (\<not> inc \<longrightarrow> ws_count ws = 0 \<or> ws_offset ws + ws_count ws \<le> length R)
    \<and> ((\<forall>j. alive j) \<and> ws_offset ws + ws_count ws \<le> length R \<longrightarrow> \<not> inc)
    \<and> list_all (\<lambda>m. \<exists>rows. m = MsgBatch run (ws_binding_index ws) rows
           \<and> 0 < length rows \<and> length rows \<le> dataset_batch_rows) msgs"
  using assms(2-4)
proof (induction "ws_count ws - sent" arbitrary: k sent msgs inc rule: less_induct)
  case less
  let ?limit = "min dataset_batch_rows (ws_count ws - sent)"
  let ?src = "take ?limit (drop (ws_offset ws + sent) R)"
  let ?f = "apply_mappings (ws_mappings ws)"
  show ?case
  proof (cases "sent < ws_count ws")
    case False
    then have "sent = ws_count ws" using less.prems(2) by simp
    moreover have "msgs = [] \<and> \<not> inc"
      using less.prems(1) [unfolded stream_loop.simps [of fetch alive run ws k sent]] False by simp
    ultimately show ?thesis using less.prems(3) by auto
  next
    case True
    note unf = stream_loop.simps [of fetch alive run ws k sent]
    have lim: "0 < ?limit" using True by (simp add: dataset_batch_rows_def)
    show ?thesis
    proof (cases "?src = [] \<or> \<not> alive k")
      case stop: True
      then have "msgs = [] \<and> inc" using less.prems(1) True unf by (simp add: fetch Let_def split: if_splits)
      moreover have "\<not> (alive k \<and> ws_offset ws + ws_count ws \<le> length R)"
        using stop lim True by auto
      ultimately show ?thesis by auto
    next
      case go: False
      let ?sent = "sent + length ?src"
      obtain msgs' inc' where r': "stream_loop fetch alive run ws (k + 1) ?sent = (msgs', inc')"
        by fastforce
      have "fetch (ws_dataset ws) (ws_offset ws + sent) ?limit = Some ?src" by (rule fetch)
      moreover have "?src \<noteq> []" "alive k" using go by blast+
      ultimately have "(MsgBatch run (ws_binding_index ws) (map ?f ?src) # msgs', inc') = (msgs, inc)"
        using less.prems(1) [unfolded unf] True r' by (simp only: Let_def option.case if_True if_False prod.case simp_thms)
      then have r: "stream_loop fetch alive run ws (k + 1) ?sent = (msgs', inc)"
        and m: "msgs = MsgBatch run (ws_binding_index ws) (map ?f ?src) # msgs'"
        using r' by auto
      have len: "0 < length ?src" "length ?src \<le> ws_count ws - sent" "length ?src \<le> dataset_batch_rows"
        "ws_offset ws + ?sent \<le> length R"
        using go by (auto simp: min_def)
      have dec: "ws_count ws - ?sent < ws_count ws - sent" using len(1) True by linarith
      have le: "?sent \<le> ws_count ws" using len(2) True by linarith
      note IH = less.hyps [OF dec r le disjI2 [OF len(4)]]
      have te: "take (ws_count ws - sent) (drop (ws_offset ws + sent) R)
          = ?src @ take (ws_count ws - ?sent) (drop (ws_offset ws + ?sent) R)"
      proof -
        let ?D = "drop (ws_offset ws + sent) R"
        have "?src = take (length ?src) ?D" by (simp add: min_def)
        moreover have "ws_offset ws + ?sent = length ?src + (ws_offset ws + sent)" by linarith
        then have "drop (ws_offset ws + ?sent) R = drop (length ?src) ?D" by (simp only: drop_drop)
        moreover have "ws_count ws - ?sent = (ws_count ws - sent) - length ?src" by simp
        moreover have "take (ws_count ws - sent) ?D
            = take (length ?src) ?D @ take ((ws_count ws - sent) - length ?src) (drop (length ?src) ?D)"
          by (rule take_split [OF len(2)])
        ultimately show ?thesis by metis
      qed
      obtain rest where rest: "map ?f (take (ws_count ws - ?sent) (drop (ws_offset ws + ?sent) R)) = delivered msgs' @ rest"
          "\<not> inc \<longrightarrow> rest = []" using IH by blast
      have "map ?f (take (ws_count ws - sent) (drop (ws_offset ws + sent) R)) = delivered msgs @ rest"
        by (simp only: te map_append rest(1) m delivered_simps msg_rows.simps append_assoc)
      moreover have "list_all (\<lambda>m. \<exists>rows. m = MsgBatch run (ws_binding_index ws) rows
           \<and> 0 < length rows \<and> length rows \<le> dataset_batch_rows) msgs"
        unfolding m list.pred_inject length_map using IH len(1,3) by (metis length_map)
      ultimately show ?thesis using IH rest(2) by blast
    qed
  qed
qed

text \<open>
  streaming a slice of a stored dataset. What the worker gets is a prefix of the mapped rows
  of its slice, in order, in batches of 1 to 1000 rows tagged with the binding; the code answers
  true exactly when no abort was sent, and then the whole slice was delivered; it does so whenever
  every send succeeds and the dataset still has the promised rows.
\<close>

theorem stream_dataset_correct:
  assumes "\<forall>r \<in> set tbl0. dr_dataset r \<noteq> ws_dataset ws"
    and "tbl = insert_dataset_rows (ws_dataset ws) columns rows tbl0"
    and "stream_dataset (\<lambda>d s l. Some (get_rows_range tbl d s l)) alive run ws = (msgs, ok)"
    and "rs = map (apply_mappings (ws_mappings ws) \<circ> row_to_map columns)
                   (take (ws_count ws) (drop (ws_offset ws) rows))"
  shows "(\<exists>rest. rs = delivered msgs @ rest \<and> (ok \<longrightarrow> rest = []))
    \<and> (ok \<longleftrightarrow> MsgStreamAbort run \<notin> set msgs) \<and> (\<not> ok \<longrightarrow> last msgs = MsgStreamAbort run)
    \<and> ((\<forall>j. alive j) \<and> ws_offset ws + ws_count ws \<le> length rows \<longrightarrow> ok)
    \<and> (ok \<longrightarrow> ws_count ws = 0 \<or> ws_offset ws + ws_count ws \<le> length rows)
    \<and> (\<forall>m \<in> set msgs. m \<noteq> MsgStreamAbort run \<longrightarrow>
         (\<exists>b. m = MsgBatch run (ws_binding_index ws) b \<and> 0 < length b \<and> length b \<le> 1000))"
proof -
  let ?R = "map (row_to_map columns) rows"
  let ?fetch = "\<lambda>d s l. Some (get_rows_range tbl d s l)"
  obtain ms inc where l: "stream_loop ?fetch alive run ws 0 0 = (ms, inc)" by fastforce
  have fetch: "?fetch (ws_dataset ws) s l = Some (take l (drop s ?R))" for s l
    using get_rows_range_inserted [OF assms(1), of columns rows s l] by (simp add: assms(2))
  note L = stream_loop_slice [of ?fetch ws ?R, OF fetch l, simplified]
  have out: "msgs = (if inc then ms @ [MsgStreamAbort run] else ms)" "ok \<longleftrightarrow> \<not> inc"
    using assms(3) l by (auto simp: stream_dataset_def)
  have no: "MsgStreamAbort run \<notin> set ms"
    using L by (auto simp: list_all_iff)
  have rs: "rs = map (apply_mappings (ws_mappings ws)) (take (ws_count ws) (drop (ws_offset ws) ?R))"
    by (simp add: assms(4) take_map drop_map)
  have dl: "delivered msgs = delivered ms" by (simp add: out)
  have len: "length ?R = length rows" by simp
  show ?thesis
    unfolding rs dl using L no
    by (auto simp: out list_all_iff dataset_batch_rows_def)
qed

theorem stream_dataset_correct_witness:
  "snd (stream_dataset (\<lambda>d s l. Some (get_rows_range
       (insert_dataset_rows ''d'' [''c''] [[''1''], [''2''], [''3'']] []) d s l)) (\<lambda>_. True) ''r''
     \<lparr>ws_dataset = ''d'', ws_mappings = [MColumn ''u'' ''c''], ws_offset = 1, ws_count = 2, ws_binding_index = 0\<rparr>)"
proof -
  obtain msgs ok where r: "stream_dataset (\<lambda>d s l. Some (get_rows_range
       (insert_dataset_rows ''d'' [''c''] [[''1''], [''2''], [''3'']] []) d s l)) (\<lambda>_. True) ''r''
     \<lparr>ws_dataset = ''d'', ws_mappings = [MColumn ''u'' ''c''], ws_offset = 1, ws_count = 2, ws_binding_index = 0\<rparr>
     = (msgs, ok)" by fastforce
  from stream_dataset_correct [of "[]", OF _ _ r, of "[''c'']" "[[''1''], [''2''], [''3'']]", simplified]
  have ok by blast
  then show ?thesis using r by simp
qed

subsection \<open>The shares of a run add up\<close>

lemma those_map_Some: "(\<And>x. x \<in> set xs \<Longrightarrow> f x = Some (g x)) \<Longrightarrow> those (map f xs) = Some (map g xs)"
  by (induction xs) auto

definition scale_stage :: "nat \<Rightarrow> nat \<Rightarrow> nat list option \<Rightarrow> stage \<Rightarrow> stage" where
  "scale_stage i n w s = s\<lparr>sg_target := (case w of None \<Rightarrow> snd (shard_split (sg_target s) n i)
       | Some ws \<Rightarrow> proportional_split (sg_target s) ws ! i)\<rparr>"

definition scale_rate :: "nat \<Rightarrow> nat \<Rightarrow> nat list option \<Rightarrow> nat \<Rightarrow> nat" where
  "scale_rate i n w t = (case w of None \<Rightarrow> snd (shard_split t n i) | Some ws \<Rightarrow> proportional_split_min1 t ws ! i)"

definition weights_ok :: "nat \<Rightarrow> nat list option \<Rightarrow> bool" where
  "weights_ok n w = (case w of None \<Rightarrow> True | Some ws \<Rightarrow> length ws = n \<and> 0 < sum_list ws)"

lemma stage_share_scale: "i < n \<Longrightarrow> weights_ok n w \<Longrightarrow> stage_share i n w s = Some (scale_stage i n w s)"
  by (auto simp: stage_share_def scale_stage_def weights_ok_def index_at_def split: option.splits)

lemma proportional_split_min1_length [simp]: "length (proportional_split_min1 t ws) = length ws"
  by (simp add: proportional_split_min1_def Let_def)

lemma proportional_split_min1_sum:
  "ws \<noteq> [] \<Longrightarrow> 0 < sum_list ws \<Longrightarrow> sum_list (proportional_split_min1 t ws) = t"
  using proportional_split_sum [of ws t] proportional_split_sum [of ws "t - length ws"]
    sum_list_addf [of "\<lambda>e. e" "\<lambda>e. 1" "proportional_split (t - length ws) ws"]
  by (auto simp: proportional_split_min1_def Let_def sum_list_triv simp del: sum_list_eq_0_iff)

lemma rate_share_scale: "i < n \<Longrightarrow> weights_ok n w \<Longrightarrow> rate_share i n w t = Some (scale_rate i n w t)"
  by (auto simp: rate_share_def scale_rate_def weights_ok_def index_at_def split: option.splits)

lemma shard_split_sum: "0 < n \<Longrightarrow> (\<Sum>i<n. snd (shard_split t n i)) = t"
  using split.cnt_sum by simp

lemma sum_nth: "length xs = n \<Longrightarrow> (\<Sum>i<n. xs ! i) = sum_list xs" for xs :: "nat list"
  by (simp add: sum_list_sum_nth atLeast0LessThan)

lemma scale_stage_duration [simp]: "sg_duration (scale_stage i n w s) = sg_duration s"
  by (simp add: scale_stage_def)

lemma scale_stage_sum: "0 < n \<Longrightarrow> weights_ok n w \<Longrightarrow> (\<Sum>i<n. sg_target (scale_stage i n w s)) = sg_target s"
  by (cases w) (auto simp: scale_stage_def weights_ok_def shard_split_sum sum_nth proportional_split_sum)

lemma scale_rate_sum: "0 < n \<Longrightarrow> weights_ok n w \<Longrightarrow> (\<Sum>i<n. scale_rate i n w t) = t"
  by (cases w) (auto simp: scale_rate_def weights_ok_def shard_split_sum sum_nth proportional_split_min1_sum)


lemma those_map_eq: "those (map f xs) = Some ys \<Longrightarrow> (\<And>x. x \<in> set xs \<Longrightarrow> f x = Some (g x)) \<Longrightarrow> ys = map g xs"
  by (simp add: those_map_Some)

lemma reduce_open_loop:
  assumes "i < n" and "1 < n" and "weights_ok n w" and "pb_target_rps p \<noteq> None \<or> pb_stages p \<noteq> []"
  shows "reduce_pool_profile p i n c w = Some (p\<lparr>pb_max_in_flight := Some c,
    pb_target_rps := map_option (scale_rate i n w) (pb_target_rps p),
    pb_stages := map (scale_stage i n w) (pb_stages p)\<rparr>)"
proof -
  have "those (map (stage_share i n w) (pb_stages p)) = Some (map (scale_stage i n w) (pb_stages p))"
    by (rule those_map_Some) (simp add: stage_share_scale assms)
  then show ?thesis
    using assms by (auto simp: reduce_pool_profile_def opt_bind_def rate_share_scale split: option.split)
qed

lemma reduce_curve:
  assumes "i < n" and "1 < n" and "weights_ok n w" and "pb_target_rps p = None" and "pb_stages p = []"
    and "pb_vu_stages p \<noteq> []"
  shows "reduce_pool_profile p i n c w = Some (p\<lparr>pb_vu_stages := map (scale_stage i n w) (pb_vu_stages p)\<rparr>)"
proof -
  have "those (map (stage_share i n w) (pb_vu_stages p)) = Some (map (scale_stage i n w) (pb_vu_stages p))"
    by (rule those_map_Some) (simp add: stage_share_scale assms)
  then show ?thesis using assms by (simp add: reduce_pool_profile_def opt_bind_def)
qed

text \<open>
  splitting a run over its workers changes no load. For the shards of an open-loop run the
  target rates and every stage of the rate curve, and for a VU curve every stage, add up to the
  original; stage lengths and everything else are unchanged, and no index is out of range.
\<close>

theorem reduce_pool_profile_conserves:
  assumes "1 < n" and "weights_ok n w"
  shows "\<exists>q. (\<forall>i < n. reduce_pool_profile p i n (c i) w = Some (q i) \<and> run_duration_secs (q i) = run_duration_secs p)
    \<and> (\<forall>t. pb_target_rps p = Some t \<longrightarrow> (\<Sum>i<n. the (pb_target_rps (q i))) = t)
    \<and> (\<forall>k < length (pb_stages p). (\<Sum>i<n. sg_target (pb_stages (q i) ! k)) = sg_target (pb_stages p ! k))
    \<and> (pb_target_rps p = None \<and> pb_stages p = [] \<longrightarrow>
         (\<forall>k < length (pb_vu_stages p). (\<Sum>i<n. sg_target (pb_vu_stages (q i) ! k)) = sg_target (pb_vu_stages p ! k)))"
proof -
  have n: "0 < n" using assms(1) by simp
  note sums = scale_rate_sum [OF n assms(2)] scale_stage_sum [OF n assms(2)]
  consider (rate) "pb_target_rps p \<noteq> None \<or> pb_stages p \<noteq> []"
    | (curve) "pb_target_rps p = None" "pb_stages p = []" "pb_vu_stages p \<noteq> []"
    | (none) "pb_target_rps p = None" "pb_stages p = []" "pb_vu_stages p = []" by blast
  then show ?thesis
  proof cases
    case rate
    let ?q = "\<lambda>i. p\<lparr>pb_max_in_flight := Some (c i), pb_target_rps := map_option (scale_rate i n w) (pb_target_rps p),
        pb_stages := map (scale_stage i n w) (pb_stages p)\<rparr>"
    have "reduce_pool_profile p i n (c i) w = Some (?q i)" if "i < n" for i
      by (rule reduce_open_loop [OF that assms(1,2) rate])
    moreover have "run_duration_secs (?q i) = run_duration_secs p" for i
      by (simp add: run_duration_secs_def comp_def)
    ultimately show ?thesis
      using rate by (intro exI [of _ ?q]) (auto simp: sums)
  next
    case curve
    let ?q = "\<lambda>i. p\<lparr>pb_vu_stages := map (scale_stage i n w) (pb_vu_stages p)\<rparr>"
    have "reduce_pool_profile p i n (c i) w = Some (?q i)" if "i < n" for i
      by (rule reduce_curve [OF that assms(1,2) curve])
    moreover have "run_duration_secs (?q i) = run_duration_secs p" for i
      by (simp add: run_duration_secs_def comp_def)
    ultimately show ?thesis
      using curve by (intro exI [of _ ?q]) (auto simp: sums)
  next
    case none
    then have "reduce_pool_profile p i n (c i) w = Some p" for i
      by (simp add: reduce_pool_profile_def)
    then show ?thesis using none by (intro exI [of _ "\<lambda>_. p"]) auto
  qed
qed

theorem reduce_pool_profile_conserves_witness:
  "\<exists>q. (\<forall>i < 3. reduce_pool_profile (to_proto_profile demo_profile) i 3 5 (Some [5, 1, 2]) = Some (q i)
        \<and> run_duration_secs (q i) = 10)
     \<and> (\<Sum>i<3. the (pb_target_rps (q i))) = 7"
proof -
  have "1 < (3 :: nat)" "weights_ok 3 (Some [5, 1, 2])" by (simp_all add: weights_ok_def)
  from reduce_pool_profile_conserves [OF this, of "to_proto_profile demo_profile" "\<lambda>_. 5"]
  obtain q where q: "\<forall>i < 3. reduce_pool_profile (to_proto_profile demo_profile) i 3 5 (Some [5, 1, 2]) = Some (q i)
        \<and> run_duration_secs (q i) = run_duration_secs (to_proto_profile demo_profile)"
      "\<forall>t. pb_target_rps (to_proto_profile demo_profile) = Some t \<longrightarrow> (\<Sum>i<3. the (pb_target_rps (q i))) = t" by blast
  have "run_duration_secs (to_proto_profile demo_profile) = 10" "pb_target_rps (to_proto_profile demo_profile) = Some 7"
    by (simp_all add: to_proto_profile_def demo_profile_def run_duration_secs_def unwrap_or_def)
  with q show ?thesis by (intro exI [of _ q]) simp
qed

end
