(* ===== verification/Store_Runs.thy ===== *)
theory Store_Runs
  imports Assignment
begin

text \<open>
  The \<^verbatim>\<open>runs\<close> table of \<^verbatim>\<open>controller/src/store/runs.rs\<close>: its rows and the single SQL statements that
  change them. A table is the list of its rows; an \<^verbatim>\<open>UPDATE .. WHERE\<close> maps over it. New ids (ULID)
  and the clock are arguments. The stored profile is the value its JSON text encodes, the verdict
  is \<^verbatim>\<open>report.rs\<close>'s.

  The locale \<open>status_writer\<close> is the contract of a statement that changes the status: it touches one
  run only, and that one only when its guard holds of the present status.
\<close>

subsection \<open>Rows\<close>

datatype run_status = Pending | Running | Completed | Failed | Aborted

definition run_status_str :: "run_status \<Rightarrow> string" where
  "run_status_str s = (case s of Pending \<Rightarrow> ''pending'' | Running \<Rightarrow> ''running'' | Completed \<Rightarrow> ''completed''
     | Failed \<Rightarrow> ''failed'' | Aborted \<Rightarrow> ''aborted'')"

definition run_status_parse :: "string \<Rightarrow> run_status option" where
  "run_status_parse s =
     (if s = ''pending'' then Some Pending else if s = ''running'' then Some Running
      else if s = ''completed'' then Some Completed else if s = ''failed'' then Some Failed
      else if s = ''aborted'' then Some Aborted else None)"

record criterion_result =
  cres_metric :: string
  cres_direction :: string
  cres_threshold :: f64
  cres_actual :: f64
  cres_passed :: bool
  cres_target :: "string option"

record verdict =
  vd_passed :: bool
  vd_criteria :: "criterion_result list"

record run_row =
  rr_id :: string
  rr_scenario_id :: string
  rr_scenario_yaml :: string
  rr_profile :: profile
  rr_env :: json
  rr_status :: run_status
  rr_started_at :: "int option"
  rr_ended_at :: "int option"
  rr_created_at :: int
  rr_message :: "string option"
  rr_dropped :: int
  rr_verdict :: "verdict option"
  rr_label :: "string option"

subsection \<open>Statements\<close>

definition run_insert ::
  "string \<Rightarrow> int \<Rightarrow> string \<Rightarrow> string \<Rightarrow> profile \<Rightarrow> json \<Rightarrow> string option \<Rightarrow> run_row list \<Rightarrow> run_row \<times> run_row list"
where
  "run_insert ulid now scenario_id yaml p env_json label db =
     (let row = \<lparr>rr_id = ulid, rr_scenario_id = scenario_id, rr_scenario_yaml = yaml, rr_profile = p, rr_env = env_json,
            rr_status = Pending, rr_started_at = None, rr_ended_at = None, rr_created_at = now, rr_message = None,
            rr_dropped = 0, rr_verdict = None, rr_label = label\<rparr>
      in (row, db @ [row]))"

definition run_get :: "run_row list \<Rightarrow> string \<Rightarrow> run_row option" where
  "run_get db i = find (\<lambda>r. rr_id r = i) db"

definition list_by_scenario :: "run_row list \<Rightarrow> string \<Rightarrow> run_row list" where
  "list_by_scenario db sid = sort_key (\<lambda>r. - rr_created_at r) (filter (\<lambda>r. rr_scenario_id r = sid) db)"

definition update_where :: "(run_row \<Rightarrow> bool) \<Rightarrow> (run_row \<Rightarrow> run_row) \<Rightarrow> run_row list \<Rightarrow> nat \<times> run_row list" where
  "update_where c f db = (length (filter c db), map (\<lambda>r. if c r then f r else r) db)"

definition coalesce :: "'a option \<Rightarrow> 'a option \<Rightarrow> 'a option" where
  "coalesce a b = (case a of None \<Rightarrow> b | Some x \<Rightarrow> Some x)"

definition update_label :: "string \<Rightarrow> string option \<Rightarrow> run_row list \<Rightarrow> run_row option \<times> run_row list" where
  "update_label i label db =
     (case update_where (\<lambda>r. rr_id r = i) (\<lambda>r. r\<lparr>rr_label := label\<rparr>) db of
        (n, db') \<Rightarrow> (if n = 0 then None else run_get db' i, db'))"

definition set_status :: "run_status \<Rightarrow> int option \<Rightarrow> int option \<Rightarrow> string \<Rightarrow> run_row list \<Rightarrow> run_row list" where
  "set_status s started ended i db =
     snd (update_where (\<lambda>r. rr_id r = i \<and> rr_status r \<noteq> Aborted)
       (\<lambda>r. r\<lparr>rr_status := s, rr_started_at := coalesce started (rr_started_at r),
              rr_ended_at := coalesce ended (rr_ended_at r)\<rparr>) db)"

definition mark_aborted :: "int \<Rightarrow> string \<Rightarrow> run_row list \<Rightarrow> run_row list" where
  "mark_aborted now i db =
     snd (update_where (\<lambda>r. rr_id r = i) (\<lambda>r. r\<lparr>rr_status := Aborted, rr_ended_at := Some now\<rparr>) db)"

definition fail_row :: "int \<Rightarrow> string \<Rightarrow> run_row \<Rightarrow> run_row" where
  "fail_row now msg r = r\<lparr>rr_status := Failed, rr_ended_at := Some now, rr_message := Some msg\<rparr>"

definition mark_failed :: "int \<Rightarrow> string \<Rightarrow> string \<Rightarrow> run_row list \<Rightarrow> run_row list" where
  "mark_failed now msg i db = snd (update_where (\<lambda>r. rr_id r = i) (fail_row now msg) db)"

definition active :: "run_status \<Rightarrow> bool" where
  "active s = (s \<in> {Pending, Running})"

definition mark_failed_if_active :: "int \<Rightarrow> string \<Rightarrow> string \<Rightarrow> run_row list \<Rightarrow> bool \<times> run_row list" where
  "mark_failed_if_active now msg i db =
     (case update_where (\<lambda>r. rr_id r = i \<and> active (rr_status r)) (fail_row now msg) db of (n, db') \<Rightarrow> (n = 1, db'))"

definition dataset_in_use :: "run_row list \<Rightarrow> string \<Rightarrow> bool" where
  "dataset_in_use db d =
     list_ex (\<lambda>r. active (rr_status r) \<and> list_ex (\<lambda>b. db_dataset_id b = d) (effective_bindings (rr_profile r))) db"

definition set_verdict :: "string \<Rightarrow> verdict \<Rightarrow> run_row list \<Rightarrow> run_row list" where
  "set_verdict i v db = snd (update_where (\<lambda>r. rr_id r = i) (\<lambda>r. r\<lparr>rr_verdict := Some v\<rparr>) db)"

definition mark_orphans_failed :: "int \<Rightarrow> string \<Rightarrow> run_row list \<Rightarrow> nat \<times> run_row list" where
  "mark_orphans_failed now msg db = update_where (\<lambda>r. active (rr_status r)) (fail_row now msg) db"

definition count_by_scenario :: "run_row list \<Rightarrow> string \<Rightarrow> nat \<times> nat" where
  "count_by_scenario db sid =
     (length (filter (\<lambda>r. rr_scenario_id r = sid) db),
      length (filter (\<lambda>r. rr_scenario_id r = sid \<and> active (rr_status r)) db))"

subsection \<open>The contract of a status writer\<close>

definition status_of :: "run_row list \<Rightarrow> string \<Rightarrow> run_status option" where
  "status_of db i = map_option rr_status (run_get db i)"

locale status_writer =
  fixes upd :: "string \<Rightarrow> run_row list \<Rightarrow> run_row list"
    and guard :: "run_status \<Rightarrow> bool"
    and new :: run_status
  assumes status_write:
    "status_of (upd i db) j =
       (if j = i then map_option (\<lambda>s. if guard s then new else s) (status_of db i) else status_of db j)"
begin

lemma other_runs: "j \<noteq> i \<Longrightarrow> status_of (upd i db) j = status_of db j"
  by (simp add: status_write)

lemma absorbing: "status_of db j = Some s \<Longrightarrow> \<not> guard s \<Longrightarrow> status_of (upd i db) j = Some s"
  by (auto simp: status_write)

lemma written: "status_of db i = Some s \<Longrightarrow> guard s \<Longrightarrow> status_of (upd i db) i = Some new"
  by (simp add: status_write)

lemma still_there: "status_of (upd i db) j = None \<longleftrightarrow> status_of db j = None"
  by (simp add: status_write)

lemma only_new: "status_of (upd i db) j = Some s \<Longrightarrow> status_of db j = Some s \<or> (j = i \<and> s = new)"
  by (auto simp: status_write split: if_splits)

end

lemma status_of_simps [simp]:
  "status_of [] i = None"
  "status_of (r # db) i = (if rr_id r = i then Some (rr_status r) else status_of db i)"
  by (simp_all add: status_of_def run_get_def)

lemma status_of_update:
  assumes "\<And>r. c r \<Longrightarrow> rr_id r = i" and "\<And>r. c r \<Longrightarrow> rr_id (f r) = i \<and> rr_status (f r) = s'"
    and "\<And>r. rr_id r = i \<Longrightarrow> c r \<longleftrightarrow> g (rr_status r)"
  shows "status_of (snd (update_where c f db)) j =
    (if j = i then map_option (\<lambda>s. if g s then s' else s) (status_of db i) else status_of db j)"
proof (induction db)
  case Nil
  then show ?case by (simp add: update_where_def)
next
  case (Cons r db)
  show ?case
  proof (cases "rr_id r = i")
    case True
    then have "c r \<longleftrightarrow> g (rr_status r)" by (rule assms(3))
    then show ?thesis using Cons True assms(2) [of r] by (simp add: update_where_def)
  next
    case False
    then have "\<not> c r" using assms(1) by blast
    then show ?thesis using Cons False by (auto simp: update_where_def)
  qed
qed

interpretation set_status: status_writer "set_status s started ended" "\<lambda>s. s \<noteq> Aborted" s for s started ended
  by unfold_locales (unfold set_status_def, rule status_of_update, auto)

interpretation mark_aborted: status_writer "mark_aborted now" "\<lambda>_. True" Aborted for now
  by unfold_locales (unfold mark_aborted_def, rule status_of_update, auto)

interpretation mark_failed: status_writer "mark_failed now msg" "\<lambda>_. True" Failed for now msg
  by unfold_locales (unfold mark_failed_def, rule status_of_update, auto simp: fail_row_def)

interpretation fail_active: status_writer "\<lambda>i db. snd (mark_failed_if_active now msg i db)" active Failed for now msg
proof unfold_locales
  fix i db j
  have "snd (mark_failed_if_active now msg i db)
      = snd (update_where (\<lambda>r. rr_id r = i \<and> active (rr_status r)) (fail_row now msg) db)"
    by (simp add: mark_failed_if_active_def split: prod.split)
  then show "status_of (snd (mark_failed_if_active now msg i db)) j =
      (if j = i then map_option (\<lambda>s. if active s then Failed else s) (status_of db i) else status_of db j)"
    by (simp only:) (rule status_of_update, auto simp: fail_row_def)
qed

lemma status_set_verdict [simp]: "status_of (set_verdict i v db) j = status_of db j"
  by (induction db) (auto simp: set_verdict_def update_where_def)

lemma status_update_label: "status_of (snd (update_label i l db)) j = status_of db j"
  by (induction db) (auto simp: update_label_def update_where_def)

lemma run_status_roundtrip: "run_status_parse (run_status_str s) = Some s"
  by (cases s) (simp_all add: run_status_parse_def run_status_str_def)

end
