(* ===== verification/Coordinator.thy ===== *)
theory Coordinator
  imports Store_Runs
begin

text \<open>
  \<^verbatim>\<open>controller/src/grpc/coordinator.rs\<close>: the state the controller keeps per run and per pool worker,
  and the critical sections of its operations. Each definition is one section under the \<^verbatim>\<open>runs\<close> or
  the \<^verbatim>\<open>pool\<close> lock, which is what is atomic in the code; what an operation does after releasing
  the lock (database writes, messages, cleanup) is performed by \<^verbatim>\<open>Run_Machine\<close>.

  A worker's channel is a number, a cancellation token a handle into the set of cancelled handles
  (all clones of a token share it). Times are milliseconds of a monotonic clock. The iteration order of
  a hash map is the order of its entry list, which is arbitrary.
\<close>

subsection \<open>State\<close>

type_synonym tx = nat
type_synonym token = nat

record pending_data_binding =
  pdb_dataset_id :: string
  pdb_policy :: binding_policy
  pdb_seed :: "32 word"
  pdb_mappings :: "mapping list"
  pdb_row_count :: nat

record pending_assignment =
  pa_yaml :: string
  pa_profile :: pb_profile
  pa_env :: "(string, string) hash_map"
  pa_bindings :: "pending_data_binding list"

record pool_entry =
  pe_tx :: tx
  pe_capacity :: nat
  pe_hostname :: string
  pe_assigned :: "string option"
  pe_last_seen :: nat
  pe_drained :: bool
  pe_override :: "nat option"
  pe_label :: "string option"
  pe_stable :: bool

definition effective_capacity :: "pool_entry \<Rightarrow> nat" where
  "effective_capacity e = unwrap_or (pe_capacity e) (pe_override e)"

record pool_worker_info =
  pi_worker_id :: string
  pi_hostname :: string
  pi_capacity :: nat
  pi_assigned :: "string option"
  pi_secs_ago :: nat
  pi_drained :: bool
  pi_override :: "nat option"
  pi_label :: "string option"
  pi_stable :: bool

datatype phase = PhStarted | PhCompleted | PhFailed | PhAborted

record worker_entry =
  we_shard :: nat
  we_offset :: nat
  we_count :: nat
  we_tx :: tx
  we_phase :: phase

record run_workers =
  rw_base :: pending_assignment
  rw_expected :: nat
  rw_total_vus :: nat
  rw_next_shard :: nat
  rw_workers :: "(string, worker_entry) hash_map"
  rw_reg_deadline :: token
  rw_terminal :: bool
  rw_precomputed :: "(nat \<times> nat) list option"
  rw_first_load :: token
  rw_done :: token

record pool_override =
  po_drained :: bool
  po_capacity :: "nat option"
  po_label :: "string option"

record coord =
  co_runs :: "(string, run_workers) hash_map"
  co_pool :: "(string, pool_entry) hash_map"
  co_cancelled :: "token list"
  co_next_token :: token
  co_worker_token :: "string option"
  co_pool_mode :: bool

definition coord_new :: "string option \<Rightarrow> bool \<Rightarrow> coord" where
  "coord_new wt pm = \<lparr>co_runs = [], co_pool = [], co_cancelled = [], co_next_token = 0,
     co_worker_token = wt, co_pool_mode = pm\<rparr>"

definition cancel_token :: "token \<Rightarrow> coord \<Rightarrow> coord" where
  "cancel_token t c = c\<lparr>co_cancelled := t # co_cancelled c\<rparr>"

definition check_token :: "string \<Rightarrow> coord \<Rightarrow> bool" where
  "check_token presented c = (case co_worker_token c of None \<Rightarrow> True | Some expected \<Rightarrow> expected = presented)"

subsection \<open>The pool\<close>

definition pool_idle :: "pool_entry \<Rightarrow> bool" where
  "pool_idle e \<longleftrightarrow> pe_assigned e = None \<and> \<not> pe_drained e"

definition assign_all :: "string option \<Rightarrow> string list \<Rightarrow> (string, pool_entry) hash_map \<Rightarrow> (string, pool_entry) hash_map" where
  "assign_all r ids pool = fold (\<lambda>i. hm_update i (\<lambda>e. e\<lparr>pe_assigned := r\<rparr>)) ids pool"

definition txs_of :: "string list \<Rightarrow> (string, pool_entry) hash_map \<Rightarrow> (string \<times> tx) list" where
  "txs_of ids pool = concat (map (\<lambda>i. case hm_get pool i of None \<Rightarrow> [] | Some e \<Rightarrow> [(i, pe_tx e)]) ids)"

definition reserve_idle_pool :: "string \<Rightarrow> nat \<Rightarrow> coord \<Rightarrow> (string \<times> tx) list \<times> coord" where
  "reserve_idle_pool run_id cap c =
     (let ids = take cap (map fst (filter (\<lambda>(_, e). pool_idle e) (co_pool c)))
      in (txs_of ids (co_pool c), c\<lparr>co_pool := assign_all (Some run_id) ids (co_pool c)\<rparr>))"

definition pool_register_idle ::
  "string \<Rightarrow> tx \<Rightarrow> nat \<Rightarrow> string \<Rightarrow> bool \<Rightarrow> nat \<Rightarrow> pool_override option \<Rightarrow> coord \<Rightarrow> coord"
where
  "pool_register_idle worker_id t capacity hostname is_stable now persisted c =
     (let restored = (if is_stable then persisted else None) in
      case hm_get (co_pool c) worker_id of
        Some e \<Rightarrow> c\<lparr>co_pool := hm_put worker_id
            (e\<lparr>pe_tx := t, pe_capacity := capacity, pe_hostname := hostname, pe_assigned := None,
               pe_last_seen := now, pe_stable := is_stable\<rparr>) (co_pool c)\<rparr>
      | None \<Rightarrow>
          (let (drained, cap, label) = (case restored of
                 Some r \<Rightarrow> (po_drained r, po_capacity r, po_label r) | None \<Rightarrow> (False, None, None))
           in c\<lparr>co_pool := hm_put worker_id
                 \<lparr>pe_tx = t, pe_capacity = capacity, pe_hostname = hostname, pe_assigned = None, pe_last_seen = now,
                  pe_drained = drained, pe_override = cap, pe_label = label, pe_stable = is_stable\<rparr> (co_pool c)\<rparr>))"

definition pool_idle_count :: "coord \<Rightarrow> nat" where
  "pool_idle_count c = length (filter (\<lambda>(_, e). pe_assigned e = None) (co_pool c))"

definition pool_snapshot :: "nat \<Rightarrow> coord \<Rightarrow> pool_worker_info list" where
  "pool_snapshot now c =
     sort_key (\<lambda>i. (pi_hostname i, pi_worker_id i))
       (map (\<lambda>(wid, e). \<lparr>pi_worker_id = wid, pi_hostname = pe_hostname e, pi_capacity = pe_capacity e,
           pi_assigned = pe_assigned e, pi_secs_ago = (now - pe_last_seen e) div 1000, pi_drained = pe_drained e,
           pi_override = pe_override e, pi_label = pe_label e, pi_stable = pe_stable e\<rparr>) (co_pool c))"

definition pool_touch :: "string \<Rightarrow> nat \<Rightarrow> coord \<Rightarrow> coord" where
  "pool_touch worker_id now c =
     c\<lparr>co_pool := hm_update worker_id (\<lambda>e. e\<lparr>pe_last_seen := now\<rparr>) (co_pool c)\<rparr>"

definition heartbeat_snapshot :: "nat \<Rightarrow> nat \<Rightarrow> coord \<Rightarrow> (string \<times> tx \<times> bool) list" where
  "heartbeat_snapshot now stale c =
     map (\<lambda>(wid, e). (wid, pe_tx e, stale < now - pe_last_seen e)) (co_pool c)"

definition pool_remove :: "string \<Rightarrow> coord \<Rightarrow> pool_entry option \<times> coord" where
  "pool_remove worker_id c = (hm_get (co_pool c) worker_id, c\<lparr>co_pool := hm_remove worker_id (co_pool c)\<rparr>)"

definition apply_control ::
  "bool option \<Rightarrow> nat option option \<Rightarrow> string option option \<Rightarrow> pool_entry \<Rightarrow> pool_entry"
where
  "apply_control drained cap label e =
     e\<lparr>pe_drained := unwrap_or (pe_drained e) drained, pe_override := unwrap_or (pe_override e) cap,
       pe_label := unwrap_or (pe_label e) label\<rparr>"

text \<open>What is persisted after an operator change: nothing for an unstable worker.\<close>

datatype control_persist = NotInPool | NoPersist | DeleteOverride | UpsertOverride pool_override

definition pool_set_control ::
  "string \<Rightarrow> bool option \<Rightarrow> nat option option \<Rightarrow> string option option \<Rightarrow> coord \<Rightarrow> control_persist \<times> coord"
where
  "pool_set_control worker_id drained cap label c =
     (case hm_get (co_pool c) worker_id of
        None \<Rightarrow> (NotInPool, c)
      | Some e0 \<Rightarrow>
          (let e = apply_control drained cap label e0 in
           (if \<not> pe_stable e then NoPersist
            else if \<not> pe_drained e \<and> pe_override e = None \<and> pe_label e = None then DeleteOverride
            else UpsertOverride \<lparr>po_drained = pe_drained e, po_capacity = pe_override e, po_label = pe_label e\<rparr>,
            c\<lparr>co_pool := hm_put worker_id e (co_pool c)\<rparr>)))"

text \<open>The idle workers with their capacities, in the order of their ids.\<close>

definition sorted_idle :: "coord \<Rightarrow> (string \<times> nat) list" where
  "sorted_idle c =
     sort_key fst (map (\<lambda>(i, e). (i, effective_capacity e)) (filter (\<lambda>(_, e). pool_idle e) (co_pool c)))"

definition pool_achievable_capacity :: "nat \<Rightarrow> coord \<Rightarrow> nat \<times> nat" where
  "pool_achievable_capacity worker_cap c =
     (let idle = sorted_idle c; n = min (length idle) worker_cap
      in (length idle, achievable_capacity (take n (map snd idle))))"

datatype pool_reservation =
    Reserved "(string \<times> tx) list" "(nat \<times> nat) list"
  | Insufficient nat

fun with_offsets :: "nat \<Rightarrow> nat list \<Rightarrow> (nat \<times> nat) list" where
  "with_offsets off [] = []"
| "with_offsets off (n # ns) = (off, n) # with_offsets (off + n) ns"

definition reserve_idle_pool_capacity :: "string \<Rightarrow> nat \<Rightarrow> nat \<Rightarrow> coord \<Rightarrow> pool_reservation \<times> coord" where
  "reserve_idle_pool_capacity run_id worker_cap slot_total c =
     (let idle = sorted_idle c in
      if idle = [] then (Reserved [] [], c)
      else
        (let caps = map snd idle; n = min (length idle) worker_cap; achievable = achievable_capacity (take n caps) in
         if achievable < slot_total then (Insufficient achievable, c)
         else
           (let counts = with_offsets 0 (capacity_split slot_total (take n caps)); ids = take n (map fst idle)
            in (Reserved (txs_of ids (co_pool c)) counts,
                c\<lparr>co_pool := assign_all (Some run_id) ids (co_pool c)\<rparr>))))"

definition release_pool_reservation :: "(string \<times> tx) list \<Rightarrow> coord \<Rightarrow> coord" where
  "release_pool_reservation workers c = c\<lparr>co_pool := assign_all None (map fst workers) (co_pool c)\<rparr>"

subsection \<open>Runs\<close>

definition enqueue ::
  "string \<Rightarrow> pending_assignment \<Rightarrow> nat \<Rightarrow> nat \<Rightarrow> (nat \<times> nat) list option \<Rightarrow> coord \<Rightarrow> (token \<times> token \<times> token) \<times> coord"
where
  "enqueue run_id base expected total_vus precomputed c =
     (let t = co_next_token c in
      ((t, t + 1, t + 2),
       c\<lparr>co_next_token := t + 3,
         co_runs := hm_put run_id
           \<lparr>rw_base = base, rw_expected = expected, rw_total_vus = total_vus, rw_next_shard = 0, rw_workers = [],
            rw_reg_deadline = t, rw_terminal = False, rw_precomputed = precomputed, rw_first_load = t + 1,
            rw_done = t + 2\<rparr> (co_runs c)\<rparr>))"

datatype register_outcome =
    RoAssigned nat nat nat nat bool
  | RoResend nat nat nat nat
  | RoReject
  | RoNoRun
  | RoPanic

definition shard_counts :: "run_workers \<Rightarrow> nat \<Rightarrow> (nat \<times> nat) option" where
  "shard_counts rw i = (case rw_precomputed rw of
     Some counts \<Rightarrow> index_at counts i
   | None \<Rightarrow> Some (shard_split (rw_total_vus rw) (rw_expected rw) i))"

definition register :: "string \<Rightarrow> string \<Rightarrow> tx \<Rightarrow> coord \<Rightarrow> register_outcome \<times> coord" where
  "register run_id worker_id t c =
     (case hm_get (co_runs c) run_id of
        None \<Rightarrow> (RoNoRun, c)
      | Some rw \<Rightarrow>
          if rw_terminal rw then (RoReject, c)
          else (case hm_get (rw_workers rw) worker_id of
            Some e \<Rightarrow> (RoResend (we_shard e) (rw_expected rw) (we_offset e) (we_count e), c)
          | None \<Rightarrow>
              if rw_expected rw \<le> rw_next_shard rw then (RoReject, c)
              else (case shard_counts rw (rw_next_shard rw) of
                None \<Rightarrow> (RoPanic, c)
              | Some (vu_offset, vu_count) \<Rightarrow>
                  (let i = rw_next_shard rw; first = (rw_workers rw = []);
                       rw' = rw\<lparr>rw_next_shard := i + 1,
                         rw_workers := hm_put worker_id \<lparr>we_shard = i, we_offset = vu_offset, we_count = vu_count,
                           we_tx = t, we_phase = PhStarted\<rparr> (rw_workers rw)\<rparr>;
                       c' = c\<lparr>co_runs := hm_put run_id rw' (co_runs c)\<rparr>
                   in (RoAssigned i (rw_expected rw) vu_offset vu_count first,
                       if length (rw_workers rw') = rw_expected rw then cancel_token (rw_reg_deadline rw) c' else c')))))"

record run_assignment =
  ra_run_id :: string
  ra_yaml :: string
  ra_profile :: pb_profile
  ra_env :: "(string, string) hash_map"
  ra_shard_index :: nat
  ra_shard_count :: nat
  ra_vu_offset :: nat
  ra_vu_count :: nat
  ra_bindings :: "(binding_policy \<times> 32 word \<times> nat) list"

text \<open>What the controller sends to a worker.\<close>

datatype server_msg =
    SmAssignment run_assignment
  | SmAbort string string
  | SmPing
  | SmDataset stream_msg
  | SmDisconnect string

definition binding_slice :: "nat \<Rightarrow> nat \<Rightarrow> pending_data_binding \<Rightarrow> nat \<times> nat" where
  "binding_slice n i b = dataset_slice (pdb_policy b = Unique) (pdb_row_count b) n i"

definition worker_streams :: "nat \<Rightarrow> nat \<Rightarrow> pending_data_binding list \<Rightarrow> worker_stream list" where
  "worker_streams n i bs =
     map (\<lambda>(k, b). case binding_slice n i b of (off, cnt) \<Rightarrow>
            \<lparr>ws_dataset = pdb_dataset_id b, ws_mappings = pdb_mappings b, ws_offset = off, ws_count = cnt,
             ws_binding_index = k\<rparr>) (zip [0..<length bs] bs)"

definition assignment_for ::
  "string \<Rightarrow> nat \<Rightarrow> nat \<Rightarrow> nat \<Rightarrow> nat \<Rightarrow> coord \<Rightarrow> (run_assignment \<times> worker_stream list) option"
where
  "assignment_for run_id i n vu_offset vu_count c =
     opt_bind (hm_get (co_runs c) run_id) (\<lambda>rw.
       let a = rw_base rw in
       opt_bind (reduce_pool_profile (pa_profile a) i n vu_count (map_option (map snd) (rw_precomputed rw))) (\<lambda>p.
         Some (\<lparr>ra_run_id = run_id, ra_yaml = pa_yaml a, ra_profile = p, ra_env = pa_env a, ra_shard_index = i,
                ra_shard_count = n, ra_vu_offset = vu_offset, ra_vu_count = vu_count,
                ra_bindings = map (\<lambda>b. (pdb_policy b, pdb_seed b, snd (binding_slice n i b))) (pa_bindings a)\<rparr>,
               worker_streams n i (pa_bindings a))))"

datatype finalize = FinNone | FinCompleted | FinFailed "tx list" | FinAborted

definition phase_of :: "int \<Rightarrow> phase" where
  "phase_of p = (if p = 2 then PhCompleted else if p = 3 then PhFailed else if p = 4 then PhAborted else PhStarted)"

definition all_completed :: "run_workers \<Rightarrow> bool" where
  "all_completed rw \<longleftrightarrow>
     list_all (\<lambda>(_, e). we_phase e = PhCompleted) (rw_workers rw) \<and> length (rw_workers rw) = rw_expected rw"

definition finish_run :: "string \<Rightarrow> run_workers \<Rightarrow> coord \<Rightarrow> coord" where
  "finish_run run_id rw c =
     cancel_token (rw_done rw) (c\<lparr>co_runs := hm_put run_id (rw\<lparr>rw_terminal := True\<rparr>) (co_runs c)\<rparr>)"

definition record_worker_phase :: "string \<Rightarrow> string \<Rightarrow> int \<Rightarrow> coord \<Rightarrow> finalize \<times> coord" where
  "record_worker_phase run_id worker_id p c =
     (case hm_get (co_runs c) run_id of
        None \<Rightarrow> (FinNone, c)
      | Some rw0 \<Rightarrow>
          (let rw = rw0\<lparr>rw_workers := hm_update worker_id (\<lambda>e. e\<lparr>we_phase := phase_of p\<rparr>) (rw_workers rw0)\<rparr>;
               c1 = c\<lparr>co_runs := hm_put run_id rw (co_runs c)\<rparr> in
           if rw_terminal rw then (FinNone, c1)
           else if p = 3 then
             (FinFailed (map (\<lambda>(_, e). we_tx e) (filter (\<lambda>(wid, _). wid \<noteq> worker_id) (rw_workers rw))), finish_run run_id rw c)
           else if p = 4 then (FinAborted, finish_run run_id rw c)
           else if p = 2 \<and> all_completed rw then (FinCompleted, finish_run run_id rw c)
           else (FinNone, c1)))"

definition all_txs :: "run_workers \<Rightarrow> tx list" where
  "all_txs rw = map (\<lambda>(_, e). we_tx e) (rw_workers rw)"

definition worker_disconnected :: "string \<Rightarrow> string \<Rightarrow> coord \<Rightarrow> tx list option \<times> coord" where
  "worker_disconnected run_id worker_id c =
     (case hm_get (co_runs c) run_id of
        None \<Rightarrow> (None, c)
      | Some rw \<Rightarrow>
          (let was_terminal_phase = (case hm_get (rw_workers rw) worker_id of
                 Some e \<Rightarrow> we_phase e \<in> {PhCompleted, PhFailed, PhAborted} | None \<Rightarrow> True) in
           if rw_terminal rw \<or> was_terminal_phase then (None, c)
           else
             (let rw' = rw\<lparr>rw_workers := hm_remove worker_id (rw_workers rw)\<rparr>
              in (Some (all_txs rw'), finish_run run_id rw' c))))"

definition fail_run_hung :: "string \<Rightarrow> coord \<Rightarrow> tx list option \<times> coord" where
  "fail_run_hung run_id c =
     (case hm_get (co_runs c) run_id of
        None \<Rightarrow> (None, c)
      | Some rw \<Rightarrow> if rw_terminal rw then (None, c) else (Some (all_txs rw), finish_run run_id rw c))"

definition incomplete_registration :: "string \<Rightarrow> coord \<Rightarrow> (nat \<times> nat) option" where
  "incomplete_registration run_id c =
     (case hm_get (co_runs c) run_id of
        None \<Rightarrow> None
      | Some rw \<Rightarrow>
          if \<not> rw_terminal rw \<and> length (rw_workers rw) < rw_expected rw
          then Some (length (rw_workers rw), rw_expected rw) else None)"

definition cancel_dispatch_failed :: "string \<Rightarrow> coord \<Rightarrow> tx list option \<times> coord" where
  "cancel_dispatch_failed run_id c =
     (case hm_get (co_runs c) run_id of
        None \<Rightarrow> (None, c)
      | Some rw \<Rightarrow>
          (Some (all_txs rw), cancel_token (rw_done rw) (c\<lparr>co_runs := hm_remove run_id (co_runs c)\<rparr>)))"

definition abort_targets :: "string \<Rightarrow> coord \<Rightarrow> tx list option" where
  "abort_targets run_id c = map_option all_txs (hm_get (co_runs c) run_id)"

definition note_first_load :: "string \<Rightarrow> coord \<Rightarrow> coord" where
  "note_first_load run_id c =
     (case hm_get (co_runs c) run_id of None \<Rightarrow> c | Some rw \<Rightarrow> cancel_token (rw_first_load rw) c)"

end
