(* ===== verification/Coordinator_Inv.thy ===== *)
theory Coordinator_Inv
  imports Coordinator
begin

text \<open>
  The critical sections of the coordinator as the steps of one state machine over its in-memory
  state, the invariant of that state, and what follows for the shards of a run, its single
  finalization and its completion.

  The locale \<open>one_shot\<close> is the contract of an event that can happen once: it needs a door to be
  open and closes it, and no other step opens the door again.
\<close>

subsection \<open>An event that happens at most once\<close>

locale one_shot =
  fixes step :: "'op \<Rightarrow> 's \<Rightarrow> 'o \<times> 's"
    and fired :: "'op \<Rightarrow> 'o \<Rightarrow> bool"
    and shut :: "'s \<Rightarrow> bool"
    and allowed :: "'op \<Rightarrow> bool"
  assumes fires_open: "fired x (fst (step x s)) \<Longrightarrow> \<not> shut s \<and> shut (snd (step x s))"
    and stays_shut: "allowed x \<Longrightarrow> shut s \<Longrightarrow> shut (snd (step x s))"
begin

primrec count :: "'op list \<Rightarrow> 's \<Rightarrow> nat" where
  "count [] s = 0"
| "count (x # xs) s = of_bool (fired x (fst (step x s))) + count xs (snd (step x s))"

lemma count_bound: "list_all allowed xs \<Longrightarrow> count xs s \<le> of_bool (\<not> shut s)"
proof (induction xs arbitrary: s)
  case Nil
  then show ?case by simp
next
  case (Cons x xs)
  then have ih: "count xs (snd (step x s)) \<le> of_bool (\<not> shut (snd (step x s)))" by simp
  show ?case
  proof (cases "fired x (fst (step x s))")
    case True
    with fires_open [of x s] ih show ?thesis by simp
  next
    case False
    with stays_shut [of x s] Cons.prems ih show ?thesis by (cases "shut s"; cases "shut (snd (step x s))") auto
  qed
qed

lemma at_most_once: "list_all allowed xs \<Longrightarrow> count xs s \<le> 1"
  using count_bound [of xs s] by (cases "shut s") auto

end

subsection \<open>Steps\<close>

datatype coord_op =
    CoEnqueue string pending_assignment nat nat "(nat \<times> nat) list option"
  | CoRegister string string tx
  | CoPhase string string int
  | CoDisconnect string string
  | CoHung string
  | CoDispatchFailed string
  | CoFirstLoad string
  | CoPoolRegister string tx nat string bool nat "pool_override option"
  | CoPoolReserve string nat
  | CoPoolReserveCapacity string nat nat
  | CoPoolRelease "(string \<times> tx) list"
  | CoPoolTouch string nat
  | CoPoolRemove string
  | CoPoolControl string "bool option" "nat option option" "string option option"

datatype coord_out =
    OutNothing
  | OutRegister register_outcome
  | OutFinalize finalize
  | OutTorn "tx list option"
  | OutReservation pool_reservation
  | OutReserved "(string \<times> tx) list"
  | OutEntry "pool_entry option"
  | OutControl control_persist

definition coord_step :: "coord_op \<Rightarrow> coord \<Rightarrow> coord_out \<times> coord" where
  "coord_step x c = (case x of
     CoEnqueue r base expected tv pre \<Rightarrow> (OutNothing, snd (enqueue r base expected tv pre c))
   | CoRegister r w t \<Rightarrow> apfst OutRegister (register r w t c)
   | CoPhase r w p \<Rightarrow> apfst OutFinalize (record_worker_phase r w p c)
   | CoDisconnect r w \<Rightarrow> apfst OutTorn (worker_disconnected r w c)
   | CoHung r \<Rightarrow> apfst OutTorn (fail_run_hung r c)
   | CoDispatchFailed r \<Rightarrow> apfst OutTorn (cancel_dispatch_failed r c)
   | CoFirstLoad r \<Rightarrow> (OutNothing, note_first_load r c)
   | CoPoolRegister w t cap h st now o' \<Rightarrow> (OutNothing, pool_register_idle w t cap h st now o' c)
   | CoPoolReserve r cap \<Rightarrow> apfst OutReserved (reserve_idle_pool r cap c)
   | CoPoolReserveCapacity r cap tv \<Rightarrow> apfst OutReservation (reserve_idle_pool_capacity r cap tv c)
   | CoPoolRelease ws \<Rightarrow> (OutNothing, release_pool_reservation ws c)
   | CoPoolTouch w now \<Rightarrow> (OutNothing, pool_touch w now c)
   | CoPoolRemove w \<Rightarrow> apfst OutEntry (pool_remove w c)
   | CoPoolControl w d cap l \<Rightarrow> apfst OutControl (pool_set_control w d cap l c))"

primrec coord_run :: "coord_op list \<Rightarrow> coord \<Rightarrow> coord_out list \<times> coord" where
  "coord_run [] c = ([], c)"
| "coord_run (x # xs) c =
     (let r1 = coord_step x c; r2 = coord_run xs (snd r1) in (fst r1 # fst r2, snd r2))"

text \<open>What the callers guarantee of a new run: at least one worker, and the counts of the pool path.\<close>

definition pre_ok :: "nat \<Rightarrow> (nat \<times> nat) list option \<Rightarrow> bool" where
  "pre_ok expected pre = (case pre of None \<Rightarrow> True
     | Some counts \<Rightarrow> counts = with_offsets 0 (map snd counts) \<and> length counts = expected)"

fun op_wf :: "coord_op \<Rightarrow> bool" where
  "op_wf (CoEnqueue _ _ expected _ pre) = (0 < expected \<and> pre_ok expected pre)"
| "op_wf _ = True"

subsection \<open>The invariant\<close>

definition shards_ok :: "run_workers \<Rightarrow> bool" where
  "shards_ok rw \<longleftrightarrow>
     hm_ok (rw_workers rw)
   \<and> 0 < rw_expected rw \<and> pre_ok (rw_expected rw) (rw_precomputed rw)
   \<and> rw_next_shard rw \<le> rw_expected rw
   \<and> (\<forall>(w, e) \<in> set (rw_workers rw). we_shard e < rw_next_shard rw
        \<and> shard_counts rw (we_shard e) = Some (we_offset e, we_count e))
   \<and> distinct (map (\<lambda>(w, e). we_shard e) (rw_workers rw))"

definition run_ok :: "token list \<Rightarrow> run_workers \<Rightarrow> bool" where
  "run_ok cancelled rw \<longleftrightarrow>
     shards_ok rw
   \<and> (\<not> rw_terminal rw \<longrightarrow> length (rw_workers rw) = rw_next_shard rw)
   \<and> (rw_terminal rw \<longleftrightarrow> rw_done rw \<in> set cancelled)
   \<and> (length (rw_workers rw) = rw_expected rw \<longrightarrow> rw_reg_deadline rw \<in> set cancelled)"

definition tokens_ok :: "token \<Rightarrow> run_workers \<Rightarrow> bool" where
  "tokens_ok next_tok rw \<longleftrightarrow> 3 dvd rw_reg_deadline rw \<and> rw_first_load rw = rw_reg_deadline rw + 1
     \<and> rw_done rw = rw_reg_deadline rw + 2 \<and> rw_reg_deadline rw < next_tok"

definition coord_ok :: "coord \<Rightarrow> bool" where
  "coord_ok c \<longleftrightarrow>
     hm_ok (co_runs c) \<and> hm_ok (co_pool c)
   \<and> (\<forall>r rw. hm_get (co_runs c) r = Some rw \<longrightarrow> run_ok (co_cancelled c) rw \<and> tokens_ok (co_next_token c) rw)
   \<and> (\<forall>r r' rw rw'. hm_get (co_runs c) r = Some rw \<longrightarrow> hm_get (co_runs c) r' = Some rw' \<longrightarrow> r \<noteq> r' \<longrightarrow>
        rw_reg_deadline rw \<noteq> rw_reg_deadline rw')
   \<and> 3 dvd co_next_token c \<and> (\<forall>t \<in> set (co_cancelled c). t < co_next_token c)"

lemma coord_new_ok: "coord_ok (coord_new wt pm)"
  by (simp add: coord_ok_def coord_new_def hm_ok_def hm_get_def)

text \<open>Tokens of different runs, or of different kinds, are different.\<close>

lemma tokens_differ:
  assumes "tokens_ok n rw" and "tokens_ok n rw'" and "rw_reg_deadline rw \<noteq> rw_reg_deadline rw'"
  shows "rw_done rw \<notin> {rw_reg_deadline rw', rw_first_load rw', rw_done rw'}"
    and "rw_reg_deadline rw \<notin> {rw_reg_deadline rw', rw_first_load rw', rw_done rw'}"
proof -
  obtain a b where ab: "rw_reg_deadline rw = 3 * a" "rw_reg_deadline rw' = 3 * b"
    using assms by (auto simp: tokens_ok_def elim!: dvdE)
  then have "a \<noteq> b" using assms(3) by simp
  then have "3 * a + 2 \<noteq> 3 * b + 1" "3 * a + 2 \<noteq> 3 * b + 2" "3 * a + 2 \<noteq> 3 * b"
    "3 * a \<noteq> 3 * b + 1" "3 * a \<noteq> 3 * b + 2" "3 * a \<noteq> 3 * b" by presburger+
  then show "rw_done rw \<notin> {rw_reg_deadline rw', rw_first_load rw', rw_done rw'}"
    and "rw_reg_deadline rw \<notin> {rw_reg_deadline rw', rw_first_load rw', rw_done rw'}"
    using assms(1,2) ab by (auto simp: tokens_ok_def)
qed

lemma tokens_below:
  assumes "tokens_ok n rw" and "3 dvd n"
  shows "rw_done rw < n \<and> rw_first_load rw < n \<and> rw_reg_deadline rw < n"
proof -
  obtain a b where "rw_reg_deadline rw = 3 * a" "n = 3 * b"
    using assms by (auto simp: tokens_ok_def elim!: dvdE)
  then show ?thesis using assms(1) by (simp add: tokens_ok_def)
qed

lemma coord_okD:
  "coord_ok c \<Longrightarrow> hm_get (co_runs c) r = Some rw \<Longrightarrow> run_ok (co_cancelled c) rw \<and> tokens_ok (co_next_token c) rw"
  by (simp add: coord_ok_def)

lemma coord_ok_put_run:
  assumes ok: "coord_ok c" and get: "hm_get (co_runs c) r = Some rw"
    and same: "rw_reg_deadline rw' = rw_reg_deadline rw" "rw_first_load rw' = rw_first_load rw" "rw_done rw' = rw_done rw"
    and ts: "set ts \<subseteq> {rw_reg_deadline rw, rw_first_load rw, rw_done rw}"
    and new: "run_ok (ts @ co_cancelled c) rw'"
  shows "coord_ok (c\<lparr>co_runs := hm_put r rw' (co_runs c), co_cancelled := ts @ co_cancelled c\<rparr>)"
proof -
  have tok: "tokens_ok (co_next_token c) rw" using coord_okD [OF ok get] by simp
  have keep: "run_ok (ts @ co_cancelled c) rw2"
    if "hm_get (co_runs c) r2 = Some rw2" "r2 \<noteq> r" for r2 rw2
  proof -
    have "rw_reg_deadline rw2 \<noteq> rw_reg_deadline rw" using ok that get unfolding coord_ok_def by blast
    then have "rw_done rw2 \<notin> set ts"
      using tokens_differ(1) [of "co_next_token c" rw2 rw] coord_okD [OF ok that(1)] tok ts by auto
    then show ?thesis using coord_okD [OF ok that(1)] by (auto simp: run_ok_def)
  qed
  have "\<forall>t \<in> set ts. t < co_next_token c"
    using ts tokens_below [OF tok] ok by (auto simp: coord_ok_def)
  then show ?thesis
    using ok keep new same get tok
    by (auto simp: coord_ok_def tokens_ok_def split: if_splits)
qed

lemma hm_put_same: "hm_get m k = Some v \<Longrightarrow> hm_put k v m = m"
  by (induction k v m rule: hm_put.induct) (auto simp: hm_get_def split: if_splits)


subsection \<open>Every step keeps the invariant\<close>

lemma shards_length: "shards_ok rw \<Longrightarrow> length (rw_workers rw) \<le> rw_next_shard rw"
proof -
  assume ok: "shards_ok rw"
  let ?l = "map (\<lambda>(w, e). we_shard e) (rw_workers rw)"
  have "set ?l \<subseteq> {..< rw_next_shard rw}" using ok by (auto simp: shards_ok_def)
  then have "card (set ?l) \<le> rw_next_shard rw" using card_mono [of "{..< rw_next_shard rw}"] by fastforce
  then show ?thesis using ok distinct_card [of ?l] by (simp add: shards_ok_def)
qed

lemma shard_counts_update [simp]:
  "shard_counts (rw\<lparr>rw_workers := ws\<rparr>) = shard_counts rw"
  "shard_counts (rw\<lparr>rw_terminal := b\<rparr>) = shard_counts rw"
  "shard_counts (rw\<lparr>rw_next_shard := n\<rparr>) = shard_counts rw"
  by (auto simp: shard_counts_def fun_eq_iff split: option.split)

lemma shards_ok_remove: "shards_ok rw \<Longrightarrow> shards_ok (rw\<lparr>rw_workers := hm_remove w (rw_workers rw)\<rparr>)"
  by (auto simp: shards_ok_def) (auto simp: hm_remove_def distinct_map_filter)

lemma shards_ok_update:
  assumes "shards_ok rw" and "\<And>e. we_shard (f e) = we_shard e \<and> we_offset (f e) = we_offset e \<and> we_count (f e) = we_count e"
  shows "shards_ok (rw\<lparr>rw_workers := hm_update w f (rw_workers rw)\<rparr>)"
proof -
  have "map (\<lambda>(w, e). we_shard e) (hm_update w f m) = map (\<lambda>(w, e). we_shard e) m" for m
    using assms(2) by (auto simp: hm_update_def)
  moreover have "\<forall>(w, e) \<in> set (hm_update w f (rw_workers rw)). we_shard e < rw_next_shard rw
        \<and> shard_counts rw (we_shard e) = Some (we_offset e, we_count e)"
    using assms by (fastforce simp: shards_ok_def hm_update_def)
  ultimately show ?thesis
    using assms(1) by (simp add: shards_ok_def)
qed

lemma shards_ok_terminal [simp]: "shards_ok (rw\<lparr>rw_terminal := b\<rparr>) = shards_ok rw"
  by (simp add: shards_ok_def)

lemma finish_run_ok:
  assumes ok: "coord_ok c" and get: "hm_get (co_runs c) r = Some rw"
    and rw': "rw' = rw\<lparr>rw_workers := ws\<rparr>" and sh: "shards_ok rw'"
    and len: "length ws \<le> length (rw_workers rw)"
  shows "coord_ok (finish_run r rw' c)"
proof -
  have run: "run_ok (co_cancelled c) rw" using coord_okD [OF ok get] by simp
  have "length ws = rw_expected rw \<Longrightarrow> length (rw_workers rw) = rw_expected rw"
    using len shards_length [of rw] run by (auto simp: run_ok_def shards_ok_def)
  then have "run_ok ([rw_done rw] @ co_cancelled c) (rw'\<lparr>rw_terminal := True\<rparr>)"
    using run sh by (auto simp: run_ok_def rw')
  then have "coord_ok (c\<lparr>co_runs := hm_put r (rw'\<lparr>rw_terminal := True\<rparr>) (co_runs c),
      co_cancelled := [rw_done rw] @ co_cancelled c\<rparr>)"
    by (intro coord_ok_put_run [OF ok get]) (simp_all add: rw')
  then show ?thesis by (simp add: finish_run_def cancel_token_def rw')
qed

lemma hm_put_new: "hm_get m w = None \<Longrightarrow> hm_put w e m = m @ [(w, e)]"
  by (induction w e m rule: hm_put.induct) (auto simp: hm_get_def split: if_splits)

lemma shards_ok_add:
  assumes "shards_ok rw" and "w \<notin> fst ` set (rw_workers rw)" and "rw_next_shard rw < rw_expected rw"
    and "shard_counts rw (we_shard e) = Some (we_offset e, we_count e)" and "we_shard e = rw_next_shard rw"
  shows "shards_ok (rw\<lparr>rw_next_shard := rw_next_shard rw + 1, rw_workers := rw_workers rw @ [(w, e)]\<rparr>)"
proof -
  have "rw_next_shard rw \<notin> set (map (\<lambda>(w, e). we_shard e) (rw_workers rw))"
    using assms(1) by (force simp: shards_ok_def)
  then show ?thesis
    using assms by (auto simp: shards_ok_def hm_ok_def less_Suc_eq)
qed

lemma register_ok:
  assumes ok: "coord_ok c"
  shows "coord_ok (snd (register r w t c))"
proof (cases "hm_get (co_runs c) r")
  case None
  then show ?thesis using ok by (simp add: register_def)
next
  case (Some rw)
  note run = coord_okD [OF ok Some, THEN conjunct1]
  show ?thesis
  proof (cases "rw_terminal rw \<or> hm_get (rw_workers rw) w \<noteq> None \<or> rw_expected rw \<le> rw_next_shard rw
      \<or> shard_counts rw (rw_next_shard rw) = None")
    case True
    then show ?thesis using ok Some by (auto simp: register_def split: option.split)
  next
    case False
    then obtain off cnt where sc: "shard_counts rw (rw_next_shard rw) = Some (off, cnt)" by auto
    define e where "e = \<lparr>we_shard = rw_next_shard rw, we_offset = off, we_count = cnt, we_tx = t, we_phase = PhStarted\<rparr>"
    define rw' where "rw' = rw\<lparr>rw_next_shard := rw_next_shard rw + 1, rw_workers := hm_put w e (rw_workers rw)\<rparr>"
    define ts where "ts = (if length (rw_workers rw') = rw_expected rw then [rw_reg_deadline rw] else [])"
    have new: "hm_get (rw_workers rw) w = None" using False by auto
    have ws: "rw' = rw\<lparr>rw_next_shard := rw_next_shard rw + 1, rw_workers := rw_workers rw @ [(w, e)]\<rparr>"
      by (simp add: rw'_def hm_put_new [OF new])
    have "shards_ok rw'"
      unfolding ws using run False new sc
      by (intro shards_ok_add) (auto simp: run_ok_def hm_get_None e_def)
    moreover have "length (rw_workers rw') = rw_next_shard rw'"
      using run False by (simp add: ws run_ok_def rw'_def)
    moreover have "rw_done rw \<noteq> rw_reg_deadline rw"
      using coord_okD [OF ok Some] by (simp add: tokens_ok_def)
    ultimately have "run_ok (ts @ co_cancelled c) rw'"
      using run False by (auto simp: run_ok_def ts_def rw'_def)
    then have "coord_ok (c\<lparr>co_runs := hm_put r rw' (co_runs c), co_cancelled := ts @ co_cancelled c\<rparr>)"
      by (intro coord_ok_put_run [OF ok Some]) (auto simp: rw'_def ts_def)
    moreover have "snd (register r w t c) = c\<lparr>co_runs := hm_put r rw' (co_runs c), co_cancelled := ts @ co_cancelled c\<rparr>"
      using False Some sc by (auto simp: register_def Let_def rw'_def e_def ts_def cancel_token_def split: option.split)
    ultimately show ?thesis by simp
  qed
qed


lemma record_worker_phase_ok:
  assumes ok: "coord_ok c"
  shows "coord_ok (snd (record_worker_phase r w p c))"
proof (cases "hm_get (co_runs c) r")
  case None
  then show ?thesis using ok by (simp add: record_worker_phase_def)
next
  case (Some rw0)
  define ws where "ws = hm_update w (\<lambda>e. e\<lparr>we_phase := phase_of p\<rparr>) (rw_workers rw0)"
  let ?rw = "rw0\<lparr>rw_workers := ws\<rparr>"
  have run: "run_ok (co_cancelled c) rw0" using coord_okD [OF ok Some] by simp
  have sh: "shards_ok ?rw" unfolding ws_def using run by (intro shards_ok_update) (auto simp: run_ok_def)
  have len: "length ws = length (rw_workers rw0)" by (simp add: ws_def hm_update_def)
  have fin: "coord_ok (finish_run r ?rw c)" by (rule finish_run_ok [OF ok Some refl sh]) (simp add: len)
  have "run_ok ([] @ co_cancelled c) ?rw" using run sh len by (simp add: run_ok_def)
  then have "coord_ok (c\<lparr>co_runs := hm_put r ?rw (co_runs c), co_cancelled := [] @ co_cancelled c\<rparr>)"
    by (intro coord_ok_put_run [OF ok Some]) simp_all
  then have "coord_ok (c\<lparr>co_runs := hm_put r ?rw (co_runs c)\<rparr>)" by simp
  then show ?thesis using fin by (auto simp: record_worker_phase_def Some ws_def Let_def)
qed

lemma worker_disconnected_ok:
  assumes ok: "coord_ok c"
  shows "coord_ok (snd (worker_disconnected r w c))"
proof (cases "hm_get (co_runs c) r")
  case None
  then show ?thesis using ok by (simp add: worker_disconnected_def)
next
  case (Some rw)
  have "shards_ok rw" using coord_okD [OF ok Some] by (simp add: run_ok_def)
  then have "coord_ok (finish_run r (rw\<lparr>rw_workers := hm_remove w (rw_workers rw)\<rparr>) c)"
    by (intro finish_run_ok [OF ok Some refl] shards_ok_remove) (simp_all add: hm_remove_def)
  then show ?thesis using ok by (simp add: worker_disconnected_def Some Let_def)
qed

lemma fail_run_hung_ok:
  assumes ok: "coord_ok c"
  shows "coord_ok (snd (fail_run_hung r c))"
proof (cases "hm_get (co_runs c) r")
  case None
  then show ?thesis using ok by (simp add: fail_run_hung_def)
next
  case (Some rw)
  have "shards_ok rw" using coord_okD [OF ok Some] by (simp add: run_ok_def)
  then have "coord_ok (finish_run r rw c)"
    by (intro finish_run_ok [OF ok Some, of _ "rw_workers rw"]) simp_all
  then show ?thesis using ok by (simp add: fail_run_hung_def Some)
qed

lemma note_first_load_ok:
  assumes ok: "coord_ok c"
  shows "coord_ok (note_first_load r c)"
proof (cases "hm_get (co_runs c) r")
  case None
  then show ?thesis using ok by (simp add: note_first_load_def)
next
  case (Some rw)
  have "rw_done rw \<noteq> rw_first_load rw" using coord_okD [OF ok Some] by (simp add: tokens_ok_def)
  then have "run_ok ([rw_first_load rw] @ co_cancelled c) rw"
    using coord_okD [OF ok Some] by (auto simp: run_ok_def)
  then have "coord_ok (c\<lparr>co_runs := hm_put r rw (co_runs c), co_cancelled := [rw_first_load rw] @ co_cancelled c\<rparr>)"
    by (intro coord_ok_put_run [OF ok Some]) simp_all
  then show ?thesis by (simp add: note_first_load_def Some cancel_token_def hm_put_same)
qed

lemma cancel_dispatch_failed_ok:
  assumes ok: "coord_ok c"
  shows "coord_ok (snd (cancel_dispatch_failed r c))"
proof (cases "hm_get (co_runs c) r")
  case None
  then show ?thesis using ok by (simp add: cancel_dispatch_failed_def)
next
  case (Some rw)
  have tok: "tokens_ok (co_next_token c) rw" using coord_okD [OF ok Some] by simp
  have "run_ok (rw_done rw # co_cancelled c) rw2" if "hm_get (co_runs c) r2 = Some rw2" "r2 \<noteq> r" for r2 rw2
  proof -
    have "rw_reg_deadline rw2 \<noteq> rw_reg_deadline rw" using ok that Some unfolding coord_ok_def by blast
    then have "rw_done rw2 \<noteq> rw_done rw"
      using tokens_differ(1) [of "co_next_token c" rw2 rw] coord_okD [OF ok that(1)] tok by auto
    then show ?thesis using coord_okD [OF ok that(1)] by (auto simp: run_ok_def)
  qed
  then show ?thesis
    using ok tokens_below [OF tok]
    by (auto simp: cancel_dispatch_failed_def Some cancel_token_def coord_ok_def split: if_splits)
qed

lemma enqueue_ok:
  assumes ok: "coord_ok c" and "0 < expected" and "pre_ok expected pre"
  shows "coord_ok (snd (enqueue r base expected tv pre c))"
proof -
  let ?t = "co_next_token c"
  define rw where "rw = \<lparr>rw_base = base, rw_expected = expected, rw_total_vus = tv, rw_next_shard = 0, rw_workers = [],
            rw_reg_deadline = ?t, rw_terminal = False, rw_precomputed = pre, rw_first_load = ?t + 1,
            rw_done = ?t + 2\<rparr>"
  have "run_ok (co_cancelled c) rw"
    using assms by (auto simp: rw_def run_ok_def shards_ok_def hm_ok_def coord_ok_def)
  moreover have "tokens_ok (?t + 3) rw" using ok by (simp add: rw_def tokens_ok_def coord_ok_def)
  moreover have "tokens_ok (?t + 3) rw2 \<and> rw_reg_deadline rw2 \<noteq> ?t" if "tokens_ok ?t rw2" for rw2
    using that by (simp add: tokens_ok_def)
  ultimately have "coord_ok (c\<lparr>co_next_token := ?t + 3, co_runs := hm_put r rw (co_runs c)\<rparr>)"
    using ok by (fastforce simp: coord_ok_def rw_def split: if_splits)
  then show ?thesis by (simp add: enqueue_def Let_def rw_def)
qed

lemma coord_ok_pool:
  "coord_ok c \<Longrightarrow> hm_ok pool \<Longrightarrow> coord_ok (c\<lparr>co_pool := pool\<rparr>)"
  by (auto simp: coord_ok_def)

lemma hm_ok_assign_all: "hm_ok pool \<Longrightarrow> hm_ok (assign_all r ids pool)"
  unfolding assign_all_def by (induction ids arbitrary: pool) auto

lemma coord_pool_hm: "coord_ok c \<Longrightarrow> hm_ok (co_pool c)"
  by (simp add: coord_ok_def)

lemma coord_step_ok:
  assumes ok: "coord_ok c" and "op_wf x"
  shows "coord_ok (snd (coord_step x c))"
  using assms(2) register_ok [OF ok] record_worker_phase_ok [OF ok] worker_disconnected_ok [OF ok] fail_run_hung_ok [OF ok]
    note_first_load_ok [OF ok] cancel_dispatch_failed_ok [OF ok] enqueue_ok [OF ok]
    coord_ok_pool [OF ok] coord_pool_hm [OF ok]
  by (cases x) (auto simp: coord_step_def reserve_idle_pool_def reserve_idle_pool_capacity_def pool_register_idle_def
      release_pool_reservation_def pool_touch_def pool_remove_def pool_set_control_def Let_def hm_ok_assign_all
      ok split: option.split prod.split)

lemma coord_run_ok:
  "coord_ok c \<Longrightarrow> list_all op_wf xs \<Longrightarrow> coord_ok (snd (coord_run xs c))"
  by (induction xs arbitrary: c) (simp_all add: Let_def coord_step_ok)


subsection \<open>One finalization per run\<close>

definition finalizes :: "string \<Rightarrow> coord_op \<Rightarrow> coord_out \<Rightarrow> bool" where
  "finalizes r x out = (case x of
     CoPhase r' _ _ \<Rightarrow> r' = r \<and> (case out of OutFinalize f \<Rightarrow> f \<noteq> FinNone | _ \<Rightarrow> False)
   | CoDisconnect r' _ \<Rightarrow> r' = r \<and> (case out of OutTorn t \<Rightarrow> t \<noteq> None | _ \<Rightarrow> False)
   | CoHung r' \<Rightarrow> r' = r \<and> (case out of OutTorn t \<Rightarrow> t \<noteq> None | _ \<Rightarrow> False)
   | _ \<Rightarrow> False)"

definition assigns :: "string \<Rightarrow> coord_op \<Rightarrow> coord_out \<Rightarrow> bool" where
  "assigns r x out = (case x of
     CoRegister r' _ _ \<Rightarrow> r' = r \<and> (case out of OutRegister (RoAssigned _ _ _ _ _) \<Rightarrow> True | _ \<Rightarrow> False)
   | _ \<Rightarrow> False)"

definition shut :: "string \<Rightarrow> coord \<Rightarrow> bool" where
  "shut r c = (case hm_get (co_runs c) r of None \<Rightarrow> True | Some rw \<Rightarrow> rw_terminal rw)"

definition no_enqueue :: "string \<Rightarrow> coord_op \<Rightarrow> bool" where
  "no_enqueue r x = (case x of CoEnqueue r' _ _ _ _ \<Rightarrow> r' \<noteq> r | _ \<Rightarrow> True)"

lemma shut_simps [simp]:
  "shut r (cancel_token t c) = shut r c"
  "shut r (c\<lparr>co_pool := pool\<rparr>) = shut r c" "shut r (c\<lparr>co_next_token := t\<rparr>) = shut r c"
  "shut r (c\<lparr>co_runs := hm_put r' rw m\<rparr>) = (if r' = r then rw_terminal rw else shut r (c\<lparr>co_runs := m\<rparr>))"
  "shut r (c\<lparr>co_runs := co_runs c\<rparr>) = shut r c"
  by (auto simp: shut_def cancel_token_def split: option.split)

lemma shut_finish [simp]: "shut r (finish_run r' rw c) = (r' = r \<or> shut r c)"
  by (auto simp: finish_run_def)

lemma coord_step_fires:
  "finalizes r x (fst (coord_step x c)) \<Longrightarrow> \<not> shut r c \<and> shut r (snd (coord_step x c))"
  by (cases x) (auto simp: finalizes_def coord_step_def record_worker_phase_def worker_disconnected_def fail_run_hung_def
      Let_def shut_def [of r c] split: option.splits if_splits)

lemma shut_remove: "shut r (c\<lparr>co_runs := hm_remove r' (co_runs c)\<rparr>) = (r' = r \<or> shut r c)"
  by (auto simp: shut_def split: option.split)

lemma coord_step_stays_shut:
  "no_enqueue r x \<Longrightarrow> shut r c \<Longrightarrow> shut r (snd (coord_step x c))"
proof (cases x)
  case (CoRegister r' w t)
  assume "shut r c"
  then show ?thesis
    by (auto simp: CoRegister coord_step_def register_def Let_def shut_def [of r c] split: option.splits)
next
  case (CoPhase r' w p)
  assume "shut r c"
  then show ?thesis
    by (auto simp: CoPhase coord_step_def record_worker_phase_def Let_def shut_def [of r c] split: option.splits)
qed (auto simp: coord_step_def no_enqueue_def enqueue_def worker_disconnected_def fail_run_hung_def
      cancel_dispatch_failed_def note_first_load_def pool_register_idle_def reserve_idle_pool_def
      reserve_idle_pool_capacity_def release_pool_reservation_def pool_touch_def pool_remove_def
      pool_set_control_def shut_remove Let_def split: option.split prod.split)

interpretation final: one_shot coord_step "finalizes r" "shut r" "no_enqueue r" for r
  by unfold_locales (use coord_step_fires in blast, rule coord_step_stays_shut)

lemma final_count:
  "final.count r xs c = length (filter (\<lambda>(x, out). finalizes r x out) (zip xs (fst (coord_run xs c))))"
  by (induction xs arbitrary: c) (simp_all add: Let_def)

lemma shut_no_assign: "shut r c \<Longrightarrow> \<not> assigns r x (fst (coord_step x c))"
  by (cases x) (auto simp: assigns_def coord_step_def register_def shut_def Let_def split: option.splits)


lemma shut_run: "list_all (no_enqueue r) xs \<Longrightarrow> shut r c \<Longrightarrow>
    \<not> list_ex (\<lambda>(x, out). finalizes r x out \<or> assigns r x out) (zip xs (fst (coord_run xs c)))"
proof (induction xs arbitrary: c)
  case (Cons x xs)
  then have "shut r (snd (coord_step x c))" by (simp add: coord_step_stays_shut)
  with Cons shut_no_assign [of r c x] coord_step_fires [of r x c] show ?case by (auto simp: Let_def)
qed simp

text \<open>
  C10: a run is finalized at most once. Whatever registrations, phase reports, disconnects and
  watchdog timeouts arrive in whatever order, at most one of them decides the outcome of a run
  (completed, failed, aborted or hung), and once it is decided no later event decides again and
  no worker gets a shard any more.
\<close>

theorem finalized_at_most_once:
  assumes "list_all (no_enqueue r) xs" and "list_all (no_enqueue r) ys"
  shows "length (filter (\<lambda>(x, out). finalizes r x out) (zip xs (fst (coord_run xs c)))) \<le> 1
    \<and> (list_ex (\<lambda>(x, out). finalizes r x out) (zip xs (fst (coord_run xs c))) \<longrightarrow>
         \<not> list_ex (\<lambda>(y, out). finalizes r y out \<or> assigns r y out)
             (zip ys (fst (coord_run ys (snd (coord_run xs c))))))"
proof
  show "length (filter (\<lambda>(x, out). finalizes r x out) (zip xs (fst (coord_run xs c)))) \<le> 1"
    using final.at_most_once [OF assms(1), of c] by (simp only: final_count)
  have "list_ex (\<lambda>(x, out). finalizes r x out) (zip xs (fst (coord_run xs c))) \<Longrightarrow> shut r (snd (coord_run xs c))"
    using assms(1)
  proof (induction xs arbitrary: c)
    case (Cons x xs)
    show ?case
    proof (cases "list_ex (\<lambda>(x, out). finalizes r x out) (zip xs (fst (coord_run xs (snd (coord_step x c)))))")
      case True
      with Cons show ?thesis by (simp add: Let_def)
    next
      case False
      then have "shut r (snd (coord_step x c))" using Cons.prems(1) coord_step_fires [of r x c] by (auto simp: Let_def)
      moreover have "shut r d \<Longrightarrow> list_all (no_enqueue r) zs \<Longrightarrow> shut r (snd (coord_run zs d))" for d zs
        by (induction zs arbitrary: d) (auto simp: Let_def coord_step_stays_shut)
      ultimately show ?thesis using Cons.prems(2) by (simp add: Let_def)
    qed
  qed simp
  then show "list_ex (\<lambda>(x, out). finalizes r x out) (zip xs (fst (coord_run xs c))) \<longrightarrow>
         \<not> list_ex (\<lambda>(y, out). finalizes r y out \<or> assigns r y out)
             (zip ys (fst (coord_run ys (snd (coord_run xs c)))))"
    using shut_run [OF assms(2)] by blast
qed

definition demo_base :: pending_assignment where
  "demo_base = \<lparr>pa_yaml = ''y'', pa_profile = to_proto_profile demo_profile, pa_env = [], pa_bindings = []\<rparr>"

definition demo_coord :: coord where
  "demo_coord = snd (register ''r'' ''b'' 2 (snd (register ''r'' ''a'' 1
     (snd (enqueue ''r'' demo_base 2 5 None (coord_new None False))))))"

theorem finalized_at_most_once_witness:
  "length (filter (\<lambda>(x, out). finalizes ''r'' x out)
      (zip [CoPhase ''r'' ''a'' 2, CoPhase ''r'' ''b'' 3, CoDisconnect ''r'' ''a'']
        (fst (coord_run [CoPhase ''r'' ''a'' 2, CoPhase ''r'' ''b'' 3, CoDisconnect ''r'' ''a''] demo_coord)))) \<le> 1"
  by (rule conjunct1 [OF finalized_at_most_once [where ys = "[]"]]) (simp_all add: no_enqueue_def)

subsection \<open>The shards of a run\<close>

lemma with_offsets_nth:
  "i < length ns \<Longrightarrow> with_offsets off ns ! i = (off + sum_list (take i ns), ns ! i)"
  by (induction off ns arbitrary: i rule: with_offsets.induct) (auto simp: nth_Cons split: nat.split)

lemma with_offsets_length [simp]: "length (with_offsets off ns) = length ns"
  by (induction off ns rule: with_offsets.induct) auto

lemma with_offsets_snd [simp]: "map snd (with_offsets off ns) = ns"
  by (induction off ns rule: with_offsets.induct) auto

definition run_total :: "run_workers \<Rightarrow> nat" where
  "run_total rw = (case rw_precomputed rw of None \<Rightarrow> rw_total_vus rw | Some counts \<Rightarrow> sum_list (map snd counts))"

lemma run_contiguous:
  assumes "pre_ok (rw_expected rw) (rw_precomputed rw)"
  shows "\<exists>off cnt. contiguous_split off cnt (rw_expected rw) (run_total rw)
    \<and> (\<forall>i < rw_expected rw. shard_counts rw i = Some (off i, cnt i))"
proof (cases "rw_precomputed rw")
  case None
  then show ?thesis
    using split.contiguous_split_axioms
    by (intro exI [of _ "\<lambda>i. fst (shard_split (rw_total_vus rw) (rw_expected rw) i)"]
        exI [of _ "\<lambda>i. snd (shard_split (rw_total_vus rw) (rw_expected rw) i)"])
      (simp add: run_total_def shard_counts_def)
next
  case (Some counts)
  then have c: "counts = with_offsets 0 (map snd counts)" "length counts = rw_expected rw"
    using assms by (simp_all add: pre_ok_def)
  have "contiguous_split (\<lambda>i. sum_list (take i (map snd counts))) (\<lambda>i. map snd counts ! i) (rw_expected rw) (run_total rw)"
    using contiguous_of_counts [of "map snd counts" "run_total rw"] c(2) by (simp add: run_total_def Some)
  moreover have "shard_counts rw i = Some (sum_list (take i (map snd counts)), map snd counts ! i)"
    if "i < rw_expected rw" for i
    using with_offsets_nth [of i "map snd counts" 0] c that by (simp add: shard_counts_def Some index_at_def)
  ultimately show ?thesis by blast
qed

definition worker_vus :: "worker_entry \<Rightarrow> nat set" where
  "worker_vus e = {we_offset e ..< we_offset e + we_count e}"

text \<open>
  C11: in every reachable state of the coordinator, the workers of a run have pairwise disjoint
  ranges of virtual users inside the run's total, and when all expected workers are registered
  the ranges are exactly all virtual users (even split, or the capacity-aware counts of the pool).
\<close>

theorem shards_partition_run:
  assumes "list_all op_wf xs" and "coord_run xs (coord_new wt pm) = (outs, c)"
    and "hm_get (co_runs c) r = Some rw"
  shows "(\<forall>w e w' e'. hm_get (rw_workers rw) w = Some e \<longrightarrow> hm_get (rw_workers rw) w' = Some e' \<longrightarrow> w \<noteq> w' \<longrightarrow>
        worker_vus e \<inter> worker_vus e' = {})
    \<and> (\<forall>w e. hm_get (rw_workers rw) w = Some e \<longrightarrow> worker_vus e \<subseteq> {..< run_total rw})
    \<and> length (rw_workers rw) \<le> rw_expected rw
    \<and> (length (rw_workers rw) = rw_expected rw \<longrightarrow>
         (\<Union>(w, e) \<in> set (rw_workers rw). worker_vus e) = {..< run_total rw})"
proof -
  have ok: "coord_ok c" using coord_run_ok [OF coord_new_ok assms(1), of wt pm] assms(2) by simp
  have sh: "shards_ok rw" using coord_okD [OF ok assms(3)] by (simp add: run_ok_def)
  then have hm: "hm_ok (rw_workers rw)" and n: "0 < rw_expected rw" by (simp_all add: shards_ok_def)
  obtain off cnt where split: "contiguous_split off cnt (rw_expected rw) (run_total rw)"
    and counts: "\<And>i. i < rw_expected rw \<Longrightarrow> shard_counts rw i = Some (off i, cnt i)"
    using run_contiguous [of rw] sh by (auto simp: shards_ok_def)
  have vus: "we_shard e < rw_expected rw \<and> worker_vus e = contiguous_split.shard off cnt (we_shard e)"
    if "(w, e) \<in> set (rw_workers rw)" for w e
    using sh that counts [of "we_shard e"]
    by (fastforce simp: shards_ok_def worker_vus_def contiguous_split.shard_def [OF split])
  have inj: "we_shard e \<noteq> we_shard e'"
    if "(w, e) \<in> set (rw_workers rw)" "(w', e') \<in> set (rw_workers rw)" "w \<noteq> w'" for w e w' e'
    using sh that by (force simp: shards_ok_def distinct_map inj_on_def)
  have le: "length (rw_workers rw) \<le> rw_expected rw"
    using shards_length [OF sh] sh by (simp add: shards_ok_def)
  have cover: "(\<Union>(w, e) \<in> set (rw_workers rw). worker_vus e) = {..< run_total rw}"
    if full: "length (rw_workers rw) = rw_expected rw"
  proof -
    let ?s = "(\<lambda>(w, e). we_shard e) ` set (rw_workers rw)"
    have "?s = {..< rw_expected rw}"
    proof (rule card_subset_eq)
      show "?s \<subseteq> {..< rw_expected rw}" using vus by auto
      show "card ?s = card {..< rw_expected rw}"
        using sh full distinct_card [of "map (\<lambda>(w, e). we_shard e) (rw_workers rw)"] by (simp add: shards_ok_def)
    qed simp
    moreover have "(\<Union>(w, e) \<in> set (rw_workers rw). worker_vus e) = (\<Union>i \<in> ?s. contiguous_split.shard off cnt i)"
      using vus by force
    ultimately show ?thesis using contiguous_split.shards_cover [OF split n] by simp
  qed
  show ?thesis
  proof (intro conjI allI impI)
    fix w e assume e: "hm_get (rw_workers rw) w = Some e"
    then have m: "(w, e) \<in> set (rw_workers rw)" using hm_get_iff [OF hm] by simp
    show "worker_vus e \<subseteq> {..< run_total rw}"
      using vus [OF m] contiguous_split.shards_cover [OF split n] by auto
    fix w' e' assume e': "hm_get (rw_workers rw) w' = Some e'" and ne: "w \<noteq> w'"
    then have m': "(w', e') \<in> set (rw_workers rw)" using hm_get_iff [OF hm] by simp
    show "worker_vus e \<inter> worker_vus e' = {}"
      using vus [OF m] vus [OF m'] inj [OF m m' ne] contiguous_split.shards_disjoint [OF split] by auto
  qed (use le cover in auto)
qed


definition demo_ops :: "coord_op list" where
  "demo_ops = [CoEnqueue ''r'' demo_base 2 5 None, CoRegister ''r'' ''a'' 1, CoRegister ''r'' ''b'' 2]"

lemma demo_ops_run: "snd (coord_run demo_ops (coord_new None False)) = demo_coord"
  by (simp add: demo_ops_def demo_coord_def coord_step_def Let_def)

lemma demo_coord_eval:
  "map_option (\<lambda>rw. (map (\<lambda>(w, e). (w, we_phase e)) (rw_workers rw), rw_expected rw, run_total rw, rw_terminal rw))
     (hm_get (co_runs demo_coord) ''r'')
   = Some ([(''a'', PhStarted), (''b'', PhStarted)], 2, 5, False)"
  by code_simp

lemma demo_coord_run:
  "\<exists>rw. hm_get (co_runs (snd (coord_run demo_ops (coord_new None False)))) ''r'' = Some rw
     \<and> map (\<lambda>(w, e). (w, we_phase e)) (rw_workers rw) = [(''a'', PhStarted), (''b'', PhStarted)]
     \<and> rw_expected rw = 2 \<and> run_total rw = 5 \<and> \<not> rw_terminal rw"
  using demo_coord_eval unfolding demo_ops_run by auto

theorem shards_partition_run_witness:
  "\<exists>rw. hm_get (co_runs (snd (coord_run demo_ops (coord_new None False)))) ''r'' = Some rw
     \<and> (\<Union>(w, e) \<in> set (rw_workers rw). worker_vus e) = {..< 5}"
proof -
  obtain rw where rw: "hm_get (co_runs (snd (coord_run demo_ops (coord_new None False)))) ''r'' = Some rw"
    "map (\<lambda>(w, e). (w, we_phase e)) (rw_workers rw) = [(''a'', PhStarted), (''b'', PhStarted)]"
    "rw_expected rw = 2" "run_total rw = 5"
    using demo_coord_run by (elim exE conjE) (rule that; assumption)
  have "length (rw_workers rw) = rw_expected rw" using arg_cong [OF rw(2), of length] rw(3) by simp
  moreover have "list_all op_wf demo_ops" by (simp add: demo_ops_def pre_ok_def)
  ultimately show ?thesis
    using shards_partition_run [of demo_ops None False _ _ "''r''" rw, OF _ surjective_pairing rw(1)] rw(1,4) by auto
qed

subsection \<open>Completion\<close>

definition pending_workers :: "run_workers \<Rightarrow> string set" where
  "pending_workers rw = {w. \<exists>e. hm_get (rw_workers rw) w = Some e \<and> we_phase e \<noteq> PhCompleted}"

lemma pending_all_started:
  assumes "hm_ok (rw_workers rw)" and "\<And>p. p \<in> set (rw_workers rw) \<Longrightarrow> we_phase (snd p) = PhStarted"
  shows "pending_workers rw = set (map fst (rw_workers rw))"
proof -
  have "w \<in> pending_workers rw \<longleftrightarrow> w \<in> set (map fst (rw_workers rw))" for w
    using assms(2) hm_get_None [of "rw_workers rw" w] hm_get_iff [OF assms(1), of w]
    by (cases "hm_get (rw_workers rw) w") (force simp: pending_workers_def)+
  then show ?thesis by blast
qed

definition phases_completed :: "string \<Rightarrow> string list \<Rightarrow> coord_op list" where
  "phases_completed r ws = map (\<lambda>w. CoPhase r w 2) ws"

lemma all_completed_iff:
  "hm_ok (rw_workers rw) \<Longrightarrow> length (rw_workers rw) = rw_expected rw \<Longrightarrow> all_completed rw \<longleftrightarrow> pending_workers rw = {}"
  by (auto simp: all_completed_def pending_workers_def list_all_iff hm_get_iff)

lemma record_completed:
  assumes "hm_get (co_runs c) r = Some rw" and "\<not> rw_terminal rw" and "hm_ok (rw_workers rw)"
    and "length (rw_workers rw) = rw_expected rw"
  shows "if pending_workers rw - {w} = {} then fst (record_worker_phase r w 2 c) = FinCompleted
     else fst (record_worker_phase r w 2 c) = FinNone
       \<and> (\<exists>rw'. hm_get (co_runs (snd (record_worker_phase r w 2 c))) r = Some rw' \<and> \<not> rw_terminal rw'
            \<and> hm_ok (rw_workers rw') \<and> length (rw_workers rw') = rw_expected rw'
            \<and> pending_workers rw' = pending_workers rw - {w})"
proof -
  let ?rw = "rw\<lparr>rw_workers := hm_update w (\<lambda>e. e\<lparr>we_phase := PhCompleted\<rparr>) (rw_workers rw)\<rparr>"
  have hm: "hm_ok (rw_workers ?rw)" using assms(3) by simp
  have len: "length (rw_workers ?rw) = rw_expected ?rw" using assms(4) by (simp add: hm_update_def)
  have pend: "pending_workers ?rw = pending_workers rw - {w}"
    by (auto simp: pending_workers_def split: if_splits)
  have "record_worker_phase r w 2 c = (if pending_workers ?rw = {} then (FinCompleted, finish_run r ?rw c)
      else (FinNone, c\<lparr>co_runs := hm_put r ?rw (co_runs c)\<rparr>))"
    using assms(1,2) all_completed_iff [OF hm len] by (simp add: record_worker_phase_def phase_of_def Let_def)
  then show ?thesis using pend hm len assms(2) by auto
qed

lemma completed_reply_iff:
  assumes "coord_ok c"
  shows "fst (coord_step x c) = OutFinalize FinCompleted \<longleftrightarrow>
     (\<exists>r w rw. x = CoPhase r w 2 \<and> hm_get (co_runs c) r = Some rw \<and> \<not> rw_terminal rw
        \<and> length (rw_workers rw) = rw_expected rw \<and> pending_workers rw \<subseteq> {w})"
proof (cases x)
  case (CoPhase r w p)
  show ?thesis
  proof (cases "hm_get (co_runs c) r")
    case None
    then show ?thesis using CoPhase by (simp add: coord_step_def record_worker_phase_def)
  next
    case (Some rw)
    have hm: "hm_ok (rw_workers rw)" using coord_okD [OF assms Some] by (simp add: run_ok_def shards_ok_def)
    let ?rw = "rw\<lparr>rw_workers := hm_update w (\<lambda>e. e\<lparr>we_phase := PhCompleted\<rparr>) (rw_workers rw)\<rparr>"
    have "hm_ok (rw_workers ?rw)" using hm by simp
    then have "all_completed ?rw \<longleftrightarrow> length (rw_workers rw) = rw_expected rw \<and> pending_workers ?rw = {}"
      using all_completed_iff [of ?rw] by (auto simp: all_completed_def hm_update_def)
    moreover have "pending_workers ?rw = pending_workers rw - {w}"
      by (auto simp: pending_workers_def split: if_splits)
    ultimately have "all_completed ?rw \<longleftrightarrow> length (rw_workers rw) = rw_expected rw \<and> pending_workers rw \<subseteq> {w}"
      by blast
    then show ?thesis
      using CoPhase Some by (auto simp: coord_step_def record_worker_phase_def phase_of_def Let_def)
  qed
qed (auto simp: coord_step_def)

lemma completion_replies:
  assumes "hm_get (co_runs c) r = Some rw" and "\<not> rw_terminal rw" and "hm_ok (rw_workers rw)"
    and "length (rw_workers rw) = rw_expected rw"
    and "pending_workers rw \<subseteq> set (ws @ [w])" and "\<not> pending_workers rw \<subseteq> set ws"
  shows "fst (coord_run (phases_completed r (ws @ [w])) c)
    = replicate (length ws) (OutFinalize FinNone) @ [OutFinalize FinCompleted]"
  using assms
proof (induction ws arbitrary: c rw)
  case Nil
  then have "pending_workers rw - {w} = {}" by auto
  with record_completed [OF Nil.prems(1-4), of w] show ?case
    by (simp add: phases_completed_def coord_step_def Let_def)
next
  case (Cons v ws)
  have ne: "pending_workers rw - {v} \<noteq> {}" using Cons.prems(6) by auto
  then obtain rw' where rw': "fst (record_worker_phase r v 2 c) = FinNone"
    "hm_get (co_runs (snd (record_worker_phase r v 2 c))) r = Some rw'" "\<not> rw_terminal rw'" "hm_ok (rw_workers rw')"
    "length (rw_workers rw') = rw_expected rw'" "pending_workers rw' = pending_workers rw - {v}"
    using record_completed [OF Cons.prems(1-4), of v] by auto
  have "pending_workers rw' \<subseteq> set (ws @ [w])" "\<not> pending_workers rw' \<subseteq> set ws"
    using rw'(6) Cons.prems(5,6) by auto
  from Cons.IH [OF rw'(2-5) this] rw'(1) show ?case
    by (simp add: phases_completed_def coord_step_def Let_def)
qed

text \<open>
  C12: a run whose workers all finish does complete, and no run completes before. In any consistent
  state, an operation answers \<^const>\<open>FinCompleted\<close> exactly when it is a completion report for an
  undecided run of which as many workers are registered as expected and no worker but the reporting
  one is still to complete: while fewer workers are registered, no report completes the run. Once
  all expected workers are registered, completion reports from every worker, in any order and with
  repetitions, complete it: the last missing report answers \<^const>\<open>FinCompleted\<close> and no earlier one
  does.
\<close>

theorem completion_reached:
  assumes "coord_ok c"
  shows "(fst (coord_step x c) = OutFinalize FinCompleted \<longleftrightarrow>
       (\<exists>r w rw. x = CoPhase r w 2 \<and> hm_get (co_runs c) r = Some rw \<and> \<not> rw_terminal rw
          \<and> length (rw_workers rw) = rw_expected rw \<and> pending_workers rw \<subseteq> {w}))
    \<and> (\<forall>r rw ws w. hm_get (co_runs c) r = Some rw \<and> \<not> rw_terminal rw
         \<and> length (rw_workers rw) = rw_expected rw
         \<and> pending_workers rw \<subseteq> set (ws @ [w]) \<and> \<not> pending_workers rw \<subseteq> set ws
       \<longrightarrow> fst (coord_run (phases_completed r (ws @ [w])) c)
           = replicate (length ws) (OutFinalize FinNone) @ [OutFinalize FinCompleted])"
proof (intro conjI allI impI; (elim conjE)?)
  show "fst (coord_step x c) = OutFinalize FinCompleted \<longleftrightarrow>
       (\<exists>r w rw. x = CoPhase r w 2 \<and> hm_get (co_runs c) r = Some rw \<and> \<not> rw_terminal rw
          \<and> length (rw_workers rw) = rw_expected rw \<and> pending_workers rw \<subseteq> {w})"
    by (rule completed_reply_iff [OF assms])
next
  fix r rw ws w
  assume run: "hm_get (co_runs c) r = Some rw" "\<not> rw_terminal rw" "length (rw_workers rw) = rw_expected rw"
    "pending_workers rw \<subseteq> set (ws @ [w])" "\<not> pending_workers rw \<subseteq> set ws"
  have "hm_ok (rw_workers rw)" using coord_okD [OF assms run(1)] by (simp add: run_ok_def shards_ok_def)
  from completion_replies [OF run(1,2) this run(3-5)]
  show "fst (coord_run (phases_completed r (ws @ [w])) c)
      = replicate (length ws) (OutFinalize FinNone) @ [OutFinalize FinCompleted]" .
qed

theorem completion_reached_witness:
  "fst (coord_run (phases_completed ''r'' ([''b'', ''b''] @ [''a''])) (snd (coord_run demo_ops (coord_new None False))))
     = [OutFinalize FinNone, OutFinalize FinNone, OutFinalize FinCompleted]"
proof -
  let ?c = "snd (coord_run demo_ops (coord_new None False))"
  have "list_all op_wf demo_ops" by (simp add: demo_ops_def pre_ok_def)
  then have ok: "coord_ok ?c" by (rule coord_run_ok [OF coord_new_ok])
  obtain rw where rw: "hm_get (co_runs ?c) ''r'' = Some rw" "\<not> rw_terminal rw" "rw_expected rw = 2"
      "map (\<lambda>(w, e). (w, we_phase e)) (rw_workers rw) = [(''a'', PhStarted), (''b'', PhStarted)]"
    using demo_coord_run by (elim exE conjE) (rule that; assumption)
  have len: "length (rw_workers rw) = rw_expected rw" using arg_cong [OF rw(4), of length] rw(3) by simp
  have "map fst (rw_workers rw) = map fst (map (\<lambda>(w, e). (w, we_phase e)) (rw_workers rw))" by auto
  then have keys: "map fst (rw_workers rw) = [''a'', ''b'']" unfolding rw(4) by simp
  have pend: "pending_workers rw = {''a'', ''b''}"
  proof -
    have "map (\<lambda>p. we_phase (snd p)) (rw_workers rw) = map snd (map (\<lambda>(w, e). (w, we_phase e)) (rw_workers rw))"
      by auto
    then have "map (\<lambda>p. we_phase (snd p)) (rw_workers rw) = [PhStarted, PhStarted]" unfolding rw(4) by simp
    from arg_cong [OF this, of set] have st: "\<And>p. p \<in> set (rw_workers rw) \<Longrightarrow> we_phase (snd p) = PhStarted" by auto
    have hm: "hm_ok (rw_workers rw)" using keys by (simp add: hm_ok_def)
    show ?thesis using pending_all_started [of rw, OF hm] st keys by simp
  qed
  show ?thesis
    using completion_reached [OF ok, THEN conjunct2, rule_format, of "''r''" rw "[''b'', ''b'']" "''a''"]
      rw(1,2) len pend by simp
qed


subsection \<open>Reserving pool workers\<close>

lemma assign_all_get:
  "hm_get (assign_all r ids pool) i =
     (if i \<in> set ids then map_option (\<lambda>e. e\<lparr>pe_assigned := r\<rparr>) (hm_get pool i) else hm_get pool i)"
  unfolding assign_all_def
  by (induction ids arbitrary: pool) (auto simp: option.map_comp comp_def)

lemma sorted_idle_props:
  assumes "hm_ok (co_pool c)"
  shows "distinct (map fst (sorted_idle c)) \<and> sorted (map fst (sorted_idle c))"
    and "(i, cap) \<in> set (sorted_idle c) \<longleftrightarrow>
      (\<exists>e. hm_get (co_pool c) i = Some e \<and> pool_idle e \<and> cap = effective_capacity e)"
proof -
  let ?l = "map (\<lambda>(i, e). (i, effective_capacity e)) (filter (\<lambda>(_, e). pool_idle e) (co_pool c))"
  have eq: "map fst ?l = map fst (filter (\<lambda>(_, e). pool_idle e) (co_pool c))" by auto
  have dist: "distinct (map fst ?l)"
    unfolding eq using assms unfolding hm_ok_def by (rule distinct_map_filter)
  have "mset (map fst (sorted_idle c)) = mset (map fst ?l)"
    by (simp only: sorted_idle_def mset_map mset_sort)
  then have "distinct (map fst (sorted_idle c))"
    using dist mset_eq_imp_distinct_iff by blast
  then show "distinct (map fst (sorted_idle c)) \<and> sorted (map fst (sorted_idle c))"
    by (simp add: sorted_idle_def sorted_sort_key)
  show "(i, cap) \<in> set (sorted_idle c) \<longleftrightarrow>
      (\<exists>e. hm_get (co_pool c) i = Some e \<and> pool_idle e \<and> cap = effective_capacity e)"
    using hm_get_iff [OF assms] by (force simp: sorted_idle_def)
qed

lemma txs_of_total:
  "\<forall>i \<in> set ids. hm_get pool i \<noteq> None \<Longrightarrow> map fst (txs_of ids pool) = ids"
  by (induction ids) (auto simp: txs_of_def split: option.split)

lemma sat_sum_le: "foldl (\<lambda>acc c. sat_add_u32 acc (max c 1)) a caps \<le> a + (\<Sum>c\<leftarrow>caps. max c 1)"
proof (induction caps arbitrary: a)
  case (Cons c caps)
  have "sat_add_u32 a (max c 1) \<le> a + max c 1" by (simp add: sat_add_u32_def)
  with Cons.IH [of "sat_add_u32 a (max c 1)"] show ?case by simp
qed simp

lemma capacity_split_all:
  "t \<le> achievable_capacity caps \<Longrightarrow> sum_list (capacity_split t caps) = t"
  using sat_sum_le [of 0 caps] capacity_split_spec [of t caps] by (simp add: achievable_capacity_def)

text \<open>
  a capacity-aware reservation takes only idle, undrained workers, at most the cap and each
  at most once, gives each no more than its effective capacity (at least one), hands out exactly
  the demanded slots as contiguous ranges that fit \<^const>\<open>pre_ok\<close>, marks exactly the reserved
  workers, and changes nothing when it refuses.
\<close>

theorem reservation_correct:
  assumes "hm_ok (co_pool c)" and "reserve_idle_pool_capacity r cap total_vus c = (res, c')"
  shows "case res of
      Insufficient a \<Rightarrow> c' = c \<and> a < total_vus
    | Reserved ws counts \<Rightarrow>
        (let ids = map fst ws in
         distinct ids \<and> length ids \<le> cap \<and> length counts = length ids
         \<and> (\<forall>i \<in> set ids. \<exists>e. hm_get (co_pool c) i = Some e \<and> pe_assigned e = None \<and> \<not> pe_drained e)
         \<and> pre_ok (length ids) (Some counts)
         \<and> (ids \<noteq> [] \<longrightarrow> sum_list (map snd counts) = total_vus)
         \<and> (\<forall>k < length ids. \<exists>e. hm_get (co_pool c) (ids ! k) = Some e
              \<and> snd (counts ! k) \<le> max (effective_capacity e) 1)
         \<and> (\<forall>i. hm_get (co_pool c') i = (if i \<in> set ids
              then map_option (\<lambda>e. e\<lparr>pe_assigned := Some r\<rparr>) (hm_get (co_pool c) i)
              else hm_get (co_pool c) i))
         \<and> co_runs c' = co_runs c)"
proof -
  let ?idle = "sorted_idle c"
  let ?n = "min (length ?idle) cap"
  let ?caps = "take ?n (map snd ?idle)"
  let ?ids = "take ?n (map fst ?idle)"
  note idle = sorted_idle_props [OF assms(1)]
  show ?thesis
  proof (cases "?idle = [] \<or> achievable_capacity ?caps < total_vus")
    case True
    then show ?thesis
      using assms(2) by (auto simp: reserve_idle_pool_capacity_def Let_def pre_ok_def split: if_splits)
  next
    case False
    let ?split = "capacity_split total_vus ?caps"
    have res: "res = Reserved (txs_of ?ids (co_pool c)) (with_offsets 0 ?split)"
      "c' = c\<lparr>co_pool := assign_all (Some r) ?ids (co_pool c)\<rparr>"
      using assms(2) False by (simp_all add: reserve_idle_pool_capacity_def Let_def)
    have mem: "\<exists>e. hm_get (co_pool c) (fst (?idle ! k)) = Some e \<and> pool_idle e \<and> snd (?idle ! k) = effective_capacity e"
      if "k < length ?idle" for k
      using idle(2) [of "fst (?idle ! k)" "snd (?idle ! k)"] nth_mem [OF that] by simp
    have memi: "\<exists>e. hm_get (co_pool c) i = Some e \<and> pe_assigned e = None \<and> \<not> pe_drained e" if "i \<in> set ?ids" for i
      using mem that by (fastforce simp: in_set_conv_nth pool_idle_def)
    then have ids: "map fst (txs_of ?ids (co_pool c)) = ?ids"
      by (intro txs_of_total) fastforce
    have "length ?split = ?n" by simp
    moreover have "sum_list ?split = total_vus" using capacity_split_all False by simp
    moreover have "\<exists>e. hm_get (co_pool c) (?ids ! k) = Some e \<and> ?split ! k \<le> max (effective_capacity e) 1"
      if "k < length ?ids" for k
    proof -
      have "?split ! k \<le> max (?caps ! k) 1"
        using capacity_split_spec [of total_vus ?caps] that by (simp add: list_all2_conv_all_nth)
      then show ?thesis using mem [of k] that by auto
    qed
    ultimately show ?thesis
      unfolding res pool_reservation.case Let_def ids
      using idle(1) memi
      by (auto simp: pre_ok_def assign_all_get with_offsets_nth distinct_take simp flip: nth_map [of _ _ snd])
  qed
qed

definition demo_entry :: "tx \<Rightarrow> nat \<Rightarrow> bool \<Rightarrow> pool_entry" where
  "demo_entry t cap drained = \<lparr>pe_tx = t, pe_capacity = cap, pe_hostname = ''host'', pe_assigned = None,
     pe_last_seen = 0, pe_drained = drained, pe_override = None, pe_label = None, pe_stable = True\<rparr>"

definition demo_pool :: coord where
  "demo_pool = (coord_new None True)\<lparr>co_pool :=
     [(''b'', demo_entry 2 1 False), (''c'', demo_entry 3 9 True), (''a'', demo_entry 1 3 False)]\<rparr>"

lemma demo_pool_idle: "sorted_idle demo_pool = [(''a'', 3), (''b'', 1)]"
  by (simp add: sorted_idle_def demo_pool_def pool_idle_def demo_entry_def effective_capacity_def unwrap_or_def
      less_list_code less_char_def)

lemma demo_pool_reserved:
  "fst (reserve_idle_pool_capacity ''r'' 5 4 demo_pool) = Reserved [(''a'', 1), (''b'', 2)] [(0, 3), (3, 1)]"
proof -
  have "capacity_split 4 [3, 1] = [3, 1]" by code_simp
  moreover have "achievable_capacity [3, 1] = 4" by (simp add: achievable_capacity_def sat_add_u32_def)
  ultimately show ?thesis
    by (simp add: reserve_idle_pool_capacity_def demo_pool_idle Let_def txs_of_def)
      (simp add: demo_pool_def hm_get_def demo_entry_def)
qed

theorem reservation_correct_witness:
  "pre_ok 2 (Some [(0, 3), (3, 1)])
   \<and> hm_get (co_pool (snd (reserve_idle_pool_capacity ''r'' 5 4 demo_pool))) ''c'' = Some (demo_entry 3 9 True)"
proof -
  obtain c' where r: "reserve_idle_pool_capacity ''r'' 5 4 demo_pool = (Reserved [(''a'', 1), (''b'', 2)] [(0, 3), (3, 1)], c')"
    using demo_pool_reserved by (cases "reserve_idle_pool_capacity ''r'' 5 4 demo_pool") auto
  have "hm_ok (co_pool demo_pool)" by (simp add: demo_pool_def hm_ok_def)
  from reservation_correct [OF this r] have
    "pre_ok (length [''a'', ''b'']) (Some [(0, 3), (3, 1)])"
    "hm_get (co_pool c') ''c'' = hm_get (co_pool demo_pool) ''c''"
    by (auto simp: Let_def)
  then show ?thesis unfolding r by (simp add: numeral_2_eq_2) (simp add: demo_pool_def hm_get_def)
qed

end
