(* ===== verification/Run_Machine.thy ===== *)
theory Run_Machine
  imports Coordinator
begin

text \<open>
  The controller's handlers of a run as interleaved tasks: \<^verbatim>\<open>grpc/coordinator.rs\<close> (what each operation
  does after its critical section, the progress watchdog, the worker channel), \<^verbatim>\<open>api/runs.rs\<close>
  (\<^verbatim>\<open>spawn_run\<close>, \<^verbatim>\<open>abort_run\<close>) and the exit watcher of \<^verbatim>\<open>dispatcher/subprocess.rs\<close>.

  A task is a list of commands. A command is one piece of code without an \<^verbatim>\<open>await\<close> inside a lock: a
  critical section, one SQL statement or one send. Executing a command changes the world and
  answers the commands that follow it in its task, and the tasks it spawns; between two commands any
  other task may run. A command that cannot run yet (a \<^verbatim>\<open>select!\<close> with no arm ready) is \<^const>\<open>None\<close>.

  The outcome of a send, of the dispatcher and of a \<^verbatim>\<open>select!\<close> with several arms ready is an input of
  the step; the dataset store, the report builder, YAML and the square root are parameters. The
  decisions and the executed abort requests are logged, which no command reads.
\<close>

subsection \<open>Messages and small helpers\<close>

definition message_max_chars :: nat where "message_max_chars = 1000"

definition truncate_message :: "string \<Rightarrow> string" where
  "truncate_message s =
     (let t = take_chars message_max_chars s in if t = s then s else t @ [CHR 0xE2, CHR 0x80, CHR 0xA6])"

definition failure_message :: "string \<Rightarrow> string \<Rightarrow> string" where
  "failure_message worker_id raw =
     (if trim raw = [] then ''worker '' @ worker_id @ '' reported failure'' else truncate_message raw)"

definition fold_seed :: "string \<Rightarrow> 32 word" where
  "fold_seed run_id = fold (\<lambda>b h. xor h (of_nat (of_char b)) * 0x01000193) run_id 0x811C9DC5"

definition pool_unique_floor_violation :: "pending_assignment \<Rightarrow> nat \<Rightarrow> (nat \<times> nat) option" where
  "pool_unique_floor_violation a n_pool =
     map_option (\<lambda>b. (pdb_row_count b, n_pool))
       (find (\<lambda>b. pdb_policy b = Unique \<and> pdb_row_count b < n_pool) (pa_bindings a))"

definition slot_count :: "profile \<Rightarrow> nat" where
  "slot_count p =
     (if is_vu_curve p then vu_curve_max p
      else if is_open_loop p then unwrap_or 0 (pf_max_in_flight p) else pf_vus p)"

definition pending_binding :: "profile \<Rightarrow> 32 word \<Rightarrow> data_binding \<Rightarrow> dataset_meta \<Rightarrow> pending_data_binding" where
  "pending_binding p seed b meta =
     \<lparr>pdb_dataset_id = db_dataset_id b, pdb_policy = db_policy b, pdb_seed = seed, pdb_mappings = db_mappings b,
      pdb_row_count = (let rows = i64_as_u64 (dm_row_count meta) in
        if db_policy b = PerVu then min (slot_count p) rows else rows)\<rparr>"

definition run_total_vus :: "profile \<Rightarrow> nat" where
  "run_total_vus p =
     (if is_vu_curve p then vu_curve_max p
      else if is_open_loop p then unwrap_or 1 (pf_max_in_flight p) else pf_vus p)"

text \<open>The number of pool workers a forced run may take.\<close>

definition force_cap :: "profile \<Rightarrow> nat" where
  "force_cap p =
     (if is_vu_curve p then vu_curve_max p
      else if is_open_loop p then
        min (unwrap_or 1 (pf_max_in_flight p))
          (case pf_target_rps p of Some r \<Rightarrow> r | None \<Rightarrow> max_target 1 (pf_stages p))
      else pf_vus p)"

subsection \<open>Worlds and commands\<close>

record spawn_req =
  sp_id :: string
  sp_scenario_id :: string
  sp_yaml :: string
  sp_profile :: profile
  sp_metas :: "dataset_meta list"
  sp_env :: "(string, string) hash_map"
  sp_force :: bool
  sp_label :: "string option"

record register_msg =
  rg_token :: string
  rg_run :: string
  rg_worker :: string
  rg_capacity :: nat
  rg_hostname :: string
  rg_stable :: bool

datatype worker_msg =
    WmRegister register_msg
  | WmMetrics string
  | WmStatus string int string
  | WmPong
  | WmNone
  | WmError

record conn =
  cn_tx :: tx
  cn_run :: "string option"
  cn_worker :: "string option"
  cn_pool :: bool

datatype reply = ReCreated | ReOk | ReBadRequest | ReConflict | ReNotFound | ReInternal

datatype cmd =
    CRecordPhase string string int string
  | CDisconnected string string
  | CHung string string string
  | CIncomplete string
  | CCancelDispatch string
  | CAbort string
  | CPoolDisconnect string
  | CPoolExclude string string
  | CHeartbeat nat
  | CSweep string tx bool
  | CPoolRead register_msg tx
  | CPoolPut register_msg tx "pool_override option"
  | CPoolTouch string
  | CPoolControl string "bool option" "nat option option" "string option option"
  | CPersist string control_persist
  | CFirstLoad string
  | CChannel conn "worker_msg list"
  | CRegister conn string string "worker_msg list"
  | CAssignment conn string nat nat nat nat bool "worker_msg list"
  | CClose conn
  | CSend tx server_msg
  | CStream tx string "worker_stream list"
  | CRunning string
  | CEnded run_status string
  | CVerdict string
  | CFailActive string string
  | CMarkFailed string string
  | CMarkAborted string
  | CCleanup string
  | CSpawn spawn_req
  | CInsert spawn_req
  | CReserve spawn_req
  | CReserveForce spawn_req
  | CEnqueue spawn_req nat "(nat \<times> nat) list option"
  | CAssign string "(string \<times> tx) list"
  | CAssignPush string tx nat nat nat nat bool "(string \<times> tx) list"
  | CDispatch string nat
  | CRelease "(string \<times> tx) list"
  | CAbortRequest string
  | CReply string reply
  | CWatchReg string token token token nat nat nat
  | CWatchStart string token token nat nat nat
  | CWatchBackstop string token nat nat

record world =
  wo_coord :: coord
  wo_db :: "run_row list"
  wo_overrides :: "(string, pool_override) hash_map"
  wo_now :: nat
  wo_sent :: "(tx \<times> server_msg) list"
  wo_replies :: "(string \<times> reply) list"
  wo_cleaned :: "string list"
  wo_decided :: "(string \<times> run_status) list"
  wo_aborted :: "string list"

type_synonym outcome = "cmd list \<times> world"

record sys =
  sy_fetch :: "string \<Rightarrow> nat \<Rightarrow> nat \<Rightarrow> (string, string) btree_map list option"
  sy_report :: "run_row list \<Rightarrow> string \<Rightarrow> verdict option"
  sy_worker_yaml :: "string \<Rightarrow> profile \<Rightarrow> string"
  sy_sqrt :: "nat \<Rightarrow> nat \<Rightarrow> nat \<Rightarrow> nat"
  sy_startup_secs :: nat
  sy_backstop_secs :: nat
  sy_capacity :: nat

datatype send_result = SendOk | SendFull | SendClosed
datatype wake = WakeTimer | WakeToken | WakeDone

record inp =
  in_send :: send_result
  in_ok :: bool
  in_alive :: "nat \<Rightarrow> nat \<Rightarrow> bool"
  in_wake :: wake

definition now_ms :: "world \<Rightarrow> int" where "now_ms w = int (wo_now w)"

definition put_coord :: "coord \<Rightarrow> world \<Rightarrow> world" where "put_coord c w = w\<lparr>wo_coord := c\<rparr>"
definition put_db :: "run_row list \<Rightarrow> world \<Rightarrow> world" where "put_db d w = w\<lparr>wo_db := d\<rparr>"
definition sent :: "(tx \<times> server_msg) list \<Rightarrow> world \<Rightarrow> world" where "sent ms w = w\<lparr>wo_sent := wo_sent w @ ms\<rparr>"
definition decide :: "string \<Rightarrow> run_status \<Rightarrow> world \<Rightarrow> world" where
  "decide r s w = w\<lparr>wo_decided := (r, s) # wo_decided w\<rparr>"

definition fan_out_abort :: "string \<Rightarrow> tx list \<Rightarrow> string \<Rightarrow> cmd list" where
  "fan_out_abort r txs reason = map (\<lambda>t. CSend t (SmAbort r reason)) txs"

subsection \<open>Operations of the coordinator\<close>

definition record_phase_task :: "string \<Rightarrow> string \<Rightarrow> int \<Rightarrow> string \<Rightarrow> world \<Rightarrow> outcome" where
  "record_phase_task r wid p message w =
     (case record_worker_phase r wid p (wo_coord w) of (decision, c) \<Rightarrow>
        (case decision of
           FinNone \<Rightarrow> ([], put_coord c w)
         | FinCompleted \<Rightarrow> ([CEnded Completed r, CVerdict r, CCleanup r], decide r Completed (put_coord c w))
         | FinAborted \<Rightarrow> ([CEnded Aborted r, CCleanup r], decide r Aborted (put_coord c w))
         | FinFailed siblings \<Rightarrow>
             (CFailActive r (failure_message wid message)
                # fan_out_abort r siblings ''sibling worker failed - fail-fast'' @ [CCleanup r],
              decide r Failed (put_coord c w))))"

definition teardown :: "string \<Rightarrow> string \<Rightarrow> string \<Rightarrow> tx list option \<times> coord \<Rightarrow> world \<Rightarrow> outcome" where
  "teardown r reason abort_msg res w =
     (case res of (siblings, c) \<Rightarrow>
        (case siblings of
           None \<Rightarrow> ([], put_coord c w)
         | Some txs \<Rightarrow>
             (CFailActive r (truncate_message reason) # fan_out_abort r txs abort_msg @ [CCleanup r],
              decide r Failed (put_coord c w))))"

definition worker_disconnected_task :: "string \<Rightarrow> string \<Rightarrow> world \<Rightarrow> outcome" where
  "worker_disconnected_task r wid w =
     teardown r (''worker '' @ wid @ '' disconnected before completing the run'')
       ''worker disconnected before completing - fail-fast'' (worker_disconnected r wid (wo_coord w)) w"

definition fail_run_hung_task :: "string \<Rightarrow> string \<Rightarrow> string \<Rightarrow> world \<Rightarrow> outcome" where
  "fail_run_hung_task r reason abort_msg w = teardown r reason abort_msg (fail_run_hung r (wo_coord w)) w"

definition fail_incomplete_registration :: "string \<Rightarrow> world \<Rightarrow> outcome" where
  "fail_incomplete_registration r w =
     (case incomplete_registration r (wo_coord w) of
        None \<Rightarrow> ([], w)
      | Some (registered, expected) \<Rightarrow>
          ([CHung r (''only '' @ nat_str registered @ ''/'' @ nat_str expected
                @ '' workers registered before the registration deadline'')
              ''not all workers registered before deadline''], w))"

definition cancel_dispatch_task :: "string \<Rightarrow> world \<Rightarrow> outcome" where
  "cancel_dispatch_task r w =
     (case cancel_dispatch_failed r (wo_coord w) of (siblings, c) \<Rightarrow>
        (case siblings of
           None \<Rightarrow> ([], put_coord c w)
         | Some txs \<Rightarrow> (fan_out_abort r txs ''worker dispatch failed'' @ [CCleanup r], put_coord c w)))"

definition abort_task :: "string \<Rightarrow> world \<Rightarrow> outcome" where
  "abort_task r w =
     (case abort_targets r (wo_coord w) of None \<Rightarrow> ([], w)
      | Some txs \<Rightarrow> (fan_out_abort r txs ''user requested abort'', w))"

subsection \<open>The pool\<close>

definition pool_disconnect :: "string \<Rightarrow> world \<Rightarrow> outcome" where
  "pool_disconnect wid w =
     (case pool_remove wid (wo_coord w) of (e, c) \<Rightarrow>
        ((case Option.bind e pe_assigned of None \<Rightarrow> [] | Some r \<Rightarrow> [CDisconnected r wid]), put_coord c w))"

definition pool_exclude :: "string \<Rightarrow> string \<Rightarrow> world \<Rightarrow> outcome" where
  "pool_exclude wid reason w =
     (case pool_remove wid (wo_coord w) of (e, c) \<Rightarrow>
        (case e of
           None \<Rightarrow> ([CReply wid ReNotFound], put_coord c w)
         | Some e \<Rightarrow>
             ((case pe_assigned e of None \<Rightarrow> [] | Some r \<Rightarrow> [CDisconnected r wid])
                @ [CSend (pe_tx e) (SmDisconnect reason), CReply wid ReOk], put_coord c w)))"

definition pool_heartbeat_tick :: "nat \<Rightarrow> world \<Rightarrow> outcome" where
  "pool_heartbeat_tick stale w =
     (map (\<lambda>(wid, t, is_stale). CSweep wid t is_stale) (heartbeat_snapshot (wo_now w) stale (wo_coord w)), w)"

definition sweep_one :: "send_result \<Rightarrow> string \<Rightarrow> tx \<Rightarrow> bool \<Rightarrow> world \<Rightarrow> outcome" where
  "sweep_one res wid t is_stale w =
     (if is_stale then ([CPoolDisconnect wid], w)
      else (case res of
          SendOk \<Rightarrow> ([], sent [(t, SmPing)] w)
        | SendClosed \<Rightarrow> ([CPoolDisconnect wid], w)
        | SendFull \<Rightarrow> ([], w)))"

definition pool_read_override :: "bool \<Rightarrow> register_msg \<Rightarrow> tx \<Rightarrow> world \<Rightarrow> outcome" where
  "pool_read_override ok reg t w =
     ([CPoolPut reg t (if rg_stable reg \<and> ok then hm_get (wo_overrides w) (rg_worker reg) else None)], w)"

definition pool_put_idle :: "register_msg \<Rightarrow> tx \<Rightarrow> pool_override option \<Rightarrow> world \<Rightarrow> outcome" where
  "pool_put_idle reg t restored w =
     ([], put_coord (pool_register_idle (rg_worker reg) t (rg_capacity reg) (rg_hostname reg) (rg_stable reg)
            (wo_now w) restored (wo_coord w)) w)"

definition pool_control_task ::
  "string \<Rightarrow> bool option \<Rightarrow> nat option option \<Rightarrow> string option option \<Rightarrow> world \<Rightarrow> outcome"
where
  "pool_control_task wid drained cap label w =
     (case pool_set_control wid drained cap label (wo_coord w) of (p, c) \<Rightarrow> ([CPersist wid p], put_coord c w))"

definition persist_override :: "bool \<Rightarrow> string \<Rightarrow> control_persist \<Rightarrow> world \<Rightarrow> outcome" where
  "persist_override ok wid p w = (case p of
     NotInPool \<Rightarrow> ([CReply wid ReNotFound], w)
   | NoPersist \<Rightarrow> ([CReply wid ReOk], w)
   | DeleteOverride \<Rightarrow>
       if ok then ([CReply wid ReOk], w\<lparr>wo_overrides := hm_remove wid (wo_overrides w)\<rparr>) else ([CReply wid ReInternal], w)
   | UpsertOverride ov \<Rightarrow>
       if ok then ([CReply wid ReOk], w\<lparr>wo_overrides := hm_put wid ov (wo_overrides w)\<rparr>)
       else ([CReply wid ReInternal], w))"

subsection \<open>The worker channel\<close>

fun stream_all ::
  "(string \<Rightarrow> nat \<Rightarrow> nat \<Rightarrow> (string, string) btree_map list option) \<Rightarrow> (nat \<Rightarrow> nat \<Rightarrow> bool) \<Rightarrow> string \<Rightarrow> nat
    \<Rightarrow> worker_stream list \<Rightarrow> stream_msg list"
where
  "stream_all fetch alive r k [] = []"
| "stream_all fetch alive r k (ws # wss) =
     (if ws_count ws = 0 then stream_all fetch alive r (k + 1) wss
      else case stream_dataset fetch (alive k) r ws of
        (ms, delivered_all) \<Rightarrow> ms @ (if delivered_all then stream_all fetch alive r (k + 1) wss else []))"

definition stream_task :: "sys \<Rightarrow> (nat \<Rightarrow> nat \<Rightarrow> bool) \<Rightarrow> tx \<Rightarrow> string \<Rightarrow> worker_stream list \<Rightarrow> world \<Rightarrow> outcome" where
  "stream_task S alive t r wss w =
     ([], sent (map (\<lambda>m. (t, SmDataset m)) (stream_all (sy_fetch S) alive r 0 wss)) w)"

definition touch_conn :: "conn \<Rightarrow> cmd list" where
  "touch_conn cn = (if cn_pool cn then (case cn_worker cn of Some wid \<Rightarrow> [CPoolTouch wid] | None \<Rightarrow> []) else [])"

definition close_conn :: "conn \<Rightarrow> cmd list" where
  "close_conn cn =
     (if cn_pool cn then (case cn_worker cn of Some wid \<Rightarrow> [CPoolDisconnect wid] | None \<Rightarrow> [])
      else (case (cn_run cn, cn_worker cn) of (Some r, Some wid) \<Rightarrow> [CDisconnected r wid] | _ \<Rightarrow> []))"

definition channel_msg :: "conn \<Rightarrow> worker_msg list \<Rightarrow> world \<Rightarrow> outcome" where
  "channel_msg cn msgs w = (case msgs of
     [] \<Rightarrow> ([CClose cn], w)
   | m # ms \<Rightarrow>
       (let next = touch_conn cn @ [CChannel cn ms] in
        case m of
          WmError \<Rightarrow> ([CClose cn], w)
        | WmRegister reg \<Rightarrow>
            if \<not> check_token (rg_token reg) (wo_coord w) then
              ([CSend (cn_tx cn) (SmAbort (rg_run reg) ''authentication failed''), CClose cn], w)
            else
              (let cn1 = cn\<lparr>cn_worker := Some (rg_worker reg)\<rparr> in
               if rg_run reg = [] then ([CPoolRead reg (cn_tx cn), CChannel (cn1\<lparr>cn_pool := True\<rparr>) ms], w)
               else ([CRegister (cn1\<lparr>cn_run := Some (rg_run reg)\<rparr>) (rg_run reg) (rg_worker reg) ms], w))
        | WmMetrics r \<Rightarrow> (CFirstLoad r # next, w)
        | WmStatus r p message \<Rightarrow>
            ((case cn_worker cn of Some wid \<Rightarrow> [CRecordPhase r wid p message] | None \<Rightarrow> []) @ next, w)
        | WmPong \<Rightarrow> (next, w)
        | WmNone \<Rightarrow> (next, w)))"

definition channel_register :: "conn \<Rightarrow> string \<Rightarrow> string \<Rightarrow> worker_msg list \<Rightarrow> world \<Rightarrow> outcome" where
  "channel_register cn r wid ms w =
     (case register r wid (cn_tx cn) (wo_coord w) of (outcome, c) \<Rightarrow>
        ((case outcome of
            RoAssigned i n off cnt lead \<Rightarrow> [CAssignment cn r i n off cnt lead ms]
          | RoResend i n off cnt \<Rightarrow> [CAssignment cn r i n off cnt False ms]
          | RoReject \<Rightarrow> [CSend (cn_tx cn) (SmAbort r ''run already started or fully sharded''), CClose cn]
          | RoNoRun \<Rightarrow> [CClose cn]
          | RoPanic \<Rightarrow> []), put_coord c w))"

definition channel_assignment ::
  "conn \<Rightarrow> string \<Rightarrow> nat \<Rightarrow> nat \<Rightarrow> nat \<Rightarrow> nat \<Rightarrow> bool \<Rightarrow> worker_msg list \<Rightarrow> world \<Rightarrow> outcome"
where
  "channel_assignment cn r i n off cnt lead ms w =
     (case assignment_for r i n off cnt (wo_coord w) of
        None \<Rightarrow> (if hm_get (co_runs (wo_coord w)) r = None then [CClose cn] else [], w)
      | Some (a, streams) \<Rightarrow>
          (CSend (cn_tx cn) (SmAssignment a) # (if lead then [CRunning r] else [])
             @ [CStream (cn_tx cn) r streams] @ touch_conn cn @ [CChannel cn ms], w))"

subsection \<open>Starting and aborting a run\<close>

definition spawn_assignment :: "sys \<Rightarrow> spawn_req \<Rightarrow> pending_assignment" where
  "spawn_assignment S q =
     \<lparr>pa_yaml = sy_worker_yaml S (sp_yaml q) (sp_profile q), pa_profile = to_proto_profile (sp_profile q),
      pa_env = sp_env q,
      pa_bindings = map2 (pending_binding (sp_profile q) (fold_seed (sp_id q))) (effective_bindings (sp_profile q)) (sp_metas q)\<rparr>"

definition spawn_workers :: "sys \<Rightarrow> spawn_req \<Rightarrow> bool \<Rightarrow> nat" where
  "spawn_workers S q pool =
     (if pool then pool_worker_cap (sp_profile q) else fanout_worker_count (sp_profile q) (sy_capacity S))"

definition spawn_failed :: "string \<Rightarrow> string \<Rightarrow> reply \<Rightarrow> cmd list" where
  "spawn_failed r message re = [CCancelDispatch r, CMarkFailed r message, CReply r re]"

definition spawn_precheck :: "spawn_req \<Rightarrow> world \<Rightarrow> outcome" where
  "spawn_precheck q w =
     (if co_pool_mode (wo_coord w) \<and> \<not> sp_force q
         \<and> (case pool_achievable_capacity (pool_worker_cap (sp_profile q)) (wo_coord w) of
              (idle, achievable) \<Rightarrow> 0 < idle \<and> achievable < concurrency_demand (sp_profile q))
      then ([CReply (sp_id q) ReConflict], w) else ([CInsert q], w))"

definition spawn_insert :: "sys \<Rightarrow> spawn_req \<Rightarrow> world \<Rightarrow> outcome" where
  "spawn_insert S q w =
     (let (row, db) = run_insert (sp_id q) (now_ms w) (sp_scenario_id q) (sp_yaml q) (sp_profile q)
            (JObj (map (\<lambda>(k, v). (k, JStr v)) (sp_env q))) (sp_label q) (wo_db w);
          pool = co_pool_mode (wo_coord w)
      in (if pool \<and> \<not> sp_force q then [CReserve q]
          else if pool then [CReserveForce q]
          else [CEnqueue q (spawn_workers S q False) None, CDispatch (sp_id q) (spawn_workers S q False)],
          put_db db w))"

definition spawn_on_pool ::
  "sys \<Rightarrow> spawn_req \<Rightarrow> (string \<times> tx) list \<Rightarrow> (nat \<times> nat) list option \<Rightarrow> cmd list"
where
  "spawn_on_pool S q workers counts =
     (if workers = [] then spawn_failed (sp_id q) ''no LAN worker connected'' ReBadRequest
      else (case pool_unique_floor_violation (spawn_assignment S q) (length workers) of
          Some (rows, n) \<Rightarrow>
            CRelease workers # spawn_failed (sp_id q)
              (''fewer unique dataset rows than pool workers: rows='' @ nat_str rows @ '' < workers='' @ nat_str n) ReBadRequest
        | None \<Rightarrow> [CEnqueue q (length workers) counts, CAssign (sp_id q) workers]))"

definition spawn_reserve :: "sys \<Rightarrow> spawn_req \<Rightarrow> world \<Rightarrow> outcome" where
  "spawn_reserve S q w =
     (case reserve_idle_pool_capacity (sp_id q) (pool_worker_cap (sp_profile q)) (concurrency_demand (sp_profile q))
             (wo_coord w) of (res, c) \<Rightarrow>
        ((case res of
            Insufficient achievable \<Rightarrow>
              spawn_failed (sp_id q) (''pool capacity too small ('' @ nat_str achievable @ '' VU < ''
                @ nat_str (concurrency_demand (sp_profile q)) @ '' VU)'') ReInternal
          | Reserved workers counts \<Rightarrow> spawn_on_pool S q workers (Some counts)), put_coord c w))"

definition spawn_reserve_force :: "sys \<Rightarrow> spawn_req \<Rightarrow> world \<Rightarrow> outcome" where
  "spawn_reserve_force S q w =
     (case reserve_idle_pool (sp_id q) (force_cap (sp_profile q)) (wo_coord w) of (reserved, c) \<Rightarrow>
        (spawn_on_pool S q reserved None, put_coord c w))"

definition registration_deadline :: nat where "registration_deadline = 60000"

text \<open>The enqueued run and the watchdog task it spawns, with the deadline of its first phase.\<close>

definition spawn_enqueue ::
  "sys \<Rightarrow> spawn_req \<Rightarrow> nat \<Rightarrow> (nat \<times> nat) list option \<Rightarrow> world \<Rightarrow> cmd list list \<times> world"
where
  "spawn_enqueue S q n counts w =
     (let a = spawn_assignment S q; p = pa_profile a;
          grace = startup_grace_eff (sy_sqrt S) p (sy_startup_secs S) (spawn_workers S q (co_pool_mode (wo_coord w)));
          backstop = run_duration_secs p + sy_backstop_secs S
      in case enqueue (sp_id q) a n (run_total_vus (sp_profile q)) counts (wo_coord w) of
           ((reg, lead, done), c) \<Rightarrow>
             ([[CWatchReg (sp_id q) reg lead done (1000 * grace) (1000 * backstop) (wo_now w + registration_deadline)]],
              put_coord c w))"

definition assign_failed :: "string \<Rightarrow> cmd list" where
  "assign_failed r = spawn_failed r ''pool worker assignment failed (worker left) - retry'' ReInternal"

definition assign_next :: "string \<Rightarrow> (string \<times> tx) list \<Rightarrow> world \<Rightarrow> outcome" where
  "assign_next r workers w = (case workers of
     [] \<Rightarrow> ([CReply r ReCreated], w)
   | (wid, t) # rest \<Rightarrow>
       (case register r wid t (wo_coord w) of (outcome, c) \<Rightarrow>
          ((case outcome of
              RoAssigned i n off cnt lead \<Rightarrow> [CAssignPush r t i n off cnt lead rest]
            | RoPanic \<Rightarrow> []
            | _ \<Rightarrow> assign_failed r), put_coord c w)))"

definition assign_push ::
  "bool \<Rightarrow> string \<Rightarrow> tx \<Rightarrow> nat \<Rightarrow> nat \<Rightarrow> nat \<Rightarrow> nat \<Rightarrow> bool \<Rightarrow> (string \<times> tx) list \<Rightarrow> world \<Rightarrow> outcome"
where
  "assign_push ok r t i n off cnt lead rest w =
     (case assignment_for r i n off cnt (wo_coord w) of
        None \<Rightarrow> (if hm_get (co_runs (wo_coord w)) r = None then assign_failed r else [], w)
      | Some (a, streams) \<Rightarrow>
          if ok then
            ((if lead then [CRunning r] else []) @ [CStream t r streams, CAssign r rest], sent [(t, SmAssignment a)] w)
          else (assign_failed r, w))"

definition dispatch_workers :: "bool \<Rightarrow> string \<Rightarrow> nat \<Rightarrow> world \<Rightarrow> outcome" where
  "dispatch_workers ok r n w =
     (if ok then ([CReply r ReCreated], w) else (spawn_failed r ''failed to dispatch workers'' ReInternal, w))"

definition abort_run :: "string \<Rightarrow> world \<Rightarrow> outcome" where
  "abort_run r w =
     (case run_get (wo_db w) r of
        None \<Rightarrow> ([CReply r ReNotFound], w)
      | Some row \<Rightarrow>
          if rr_status row = Running \<or> rr_status row = Pending then ([CAbort r, CMarkAborted r, CReply r ReOk], w)
          else ([CReply r ReConflict], w))"

subsection \<open>The watchdog\<close>

definition cancelled :: "token \<Rightarrow> world \<Rightarrow> bool" where
  "cancelled t w \<longleftrightarrow> t \<in> set (co_cancelled (wo_coord w))"

definition watch_registration ::
  "wake \<Rightarrow> string \<Rightarrow> token \<Rightarrow> token \<Rightarrow> token \<Rightarrow> nat \<Rightarrow> nat \<Rightarrow> nat \<Rightarrow> world \<Rightarrow> outcome option"
where
  "watch_registration wk r reg lead done grace backstop deadline w = (case wk of
     WakeTimer \<Rightarrow> if deadline \<le> wo_now w then Some ([CIncomplete r], w) else None
   | WakeToken \<Rightarrow>
       if cancelled reg w then Some ([CWatchStart r lead done (wo_now w) (wo_now w + grace) backstop], w) else None
   | WakeDone \<Rightarrow> if cancelled done w then Some ([], w) else None)"

definition watch_startup ::
  "wake \<Rightarrow> string \<Rightarrow> token \<Rightarrow> token \<Rightarrow> nat \<Rightarrow> nat \<Rightarrow> nat \<Rightarrow> world \<Rightarrow> outcome option"
where
  "watch_startup wk r lead done started deadline backstop w = (case wk of
     WakeTimer \<Rightarrow>
       if deadline \<le> wo_now w then
         Some ([CHung r (''worker registered but produced no load within '' @ nat_str ((deadline - started) div 1000)
                  @ ''s - the run appears stuck (no metrics received)'') ''no load produced (startup liveness)''], w)
       else None
   | WakeToken \<Rightarrow>
       if cancelled lead w then
         Some ([CWatchBackstop r done (wo_now w + (backstop - (wo_now w - started))) backstop], w)
       else None
   | WakeDone \<Rightarrow> if cancelled done w then Some ([], w) else None)"

definition watch_backstop :: "wake \<Rightarrow> string \<Rightarrow> token \<Rightarrow> nat \<Rightarrow> nat \<Rightarrow> world \<Rightarrow> outcome option" where
  "watch_backstop wk r done deadline backstop w = (case wk of
     WakeTimer \<Rightarrow>
       if deadline \<le> wo_now w then
         Some ([CHung r (''run exceeded its expected-duration budget ('' @ nat_str (backstop div 1000)
                  @ ''s, incl. grace) without reaching a terminal state - the run appears stuck'')
               ''exceeded expected duration (backstop)''], w)
       else None
   | WakeToken \<Rightarrow> None
   | WakeDone \<Rightarrow> if cancelled done w then Some ([], w) else None)"

subsection \<open>Executing a command\<close>

definition pure :: "outcome \<Rightarrow> (cmd list \<times> cmd list list \<times> world) option" where
  "pure oc = Some (fst oc, [], snd oc)"

fun exec :: "sys \<Rightarrow> inp \<Rightarrow> cmd \<Rightarrow> world \<Rightarrow> (cmd list \<times> cmd list list \<times> world) option" where
  "exec S i (CRecordPhase r wid p message) w = pure (record_phase_task r wid p message w)"
| "exec S i (CDisconnected r wid) w = pure (worker_disconnected_task r wid w)"
| "exec S i (CHung r reason msg) w = pure (fail_run_hung_task r reason msg w)"
| "exec S i (CIncomplete r) w = pure (fail_incomplete_registration r w)"
| "exec S i (CCancelDispatch r) w = pure (cancel_dispatch_task r w)"
| "exec S i (CAbort r) w = pure (abort_task r w)"
| "exec S i (CPoolDisconnect wid) w = pure (pool_disconnect wid w)"
| "exec S i (CPoolExclude wid reason) w = pure (pool_exclude wid reason w)"
| "exec S i (CHeartbeat stale) w = pure (pool_heartbeat_tick stale w)"
| "exec S i (CSweep wid t is_stale) w = pure (sweep_one (in_send i) wid t is_stale w)"
| "exec S i (CPoolRead reg t) w = pure (pool_read_override (in_ok i) reg t w)"
| "exec S i (CPoolPut reg t ov) w = pure (pool_put_idle reg t ov w)"
| "exec S i (CPoolTouch wid) w = pure ([], put_coord (pool_touch wid (wo_now w) (wo_coord w)) w)"
| "exec S i (CPoolControl wid d cap l) w = pure (pool_control_task wid d cap l w)"
| "exec S i (CPersist wid p) w = pure (persist_override (in_ok i) wid p w)"
| "exec S i (CFirstLoad r) w = pure ([], put_coord (note_first_load r (wo_coord w)) w)"
| "exec S i (CChannel cn ms) w = pure (channel_msg cn ms w)"
| "exec S i (CRegister cn r wid ms) w = pure (channel_register cn r wid ms w)"
| "exec S i (CAssignment cn r k n off cnt lead ms) w = pure (channel_assignment cn r k n off cnt lead ms w)"
| "exec S i (CClose cn) w = pure (close_conn cn, w)"
| "exec S i (CSend t m) w = pure ([], if in_ok i then sent [(t, m)] w else w)"
| "exec S i (CStream t r wss) w = pure (stream_task S (in_alive i) t r wss w)"
| "exec S i (CRunning r) w = pure ([], put_db (set_status Running (Some (now_ms w)) None r (wo_db w)) w)"
| "exec S i (CEnded s r) w = pure ([], put_db (set_status s None (Some (now_ms w)) r (wo_db w)) w)"
| "exec S i (CVerdict r) w =
     pure ([], case sy_report S (wo_db w) r of None \<Rightarrow> w | Some v \<Rightarrow> put_db (set_verdict r v (wo_db w)) w)"
| "exec S i (CFailActive r message) w = pure ([], put_db (snd (mark_failed_if_active (now_ms w) message r (wo_db w))) w)"
| "exec S i (CMarkFailed r message) w = pure ([], put_db (mark_failed (now_ms w) message r (wo_db w)) w)"
| "exec S i (CMarkAborted r) w =
     pure ([], (put_db (mark_aborted (now_ms w) r (wo_db w)) w)\<lparr>wo_aborted := r # wo_aborted w\<rparr>)"
| "exec S i (CCleanup r) w = pure ([], w\<lparr>wo_cleaned := r # wo_cleaned w\<rparr>)"
| "exec S i (CSpawn q) w = pure (spawn_precheck q w)"
| "exec S i (CInsert q) w = pure (spawn_insert S q w)"
| "exec S i (CReserve q) w = pure (spawn_reserve S q w)"
| "exec S i (CReserveForce q) w = pure (spawn_reserve_force S q w)"
| "exec S i (CEnqueue q n counts) w = (case spawn_enqueue S q n counts w of (ts, w') \<Rightarrow> Some ([], ts, w'))"
| "exec S i (CAssign r workers) w = pure (assign_next r workers w)"
| "exec S i (CAssignPush r t k n off cnt lead rest) w = pure (assign_push (in_ok i) r t k n off cnt lead rest w)"
| "exec S i (CDispatch r n) w = pure (dispatch_workers (in_ok i) r n w)"
| "exec S i (CRelease ws) w = pure ([], put_coord (release_pool_reservation ws (wo_coord w)) w)"
| "exec S i (CAbortRequest r) w = pure (abort_run r w)"
| "exec S i (CReply r re) w = pure ([], w\<lparr>wo_replies := (r, re) # wo_replies w\<rparr>)"
| "exec S i (CWatchReg r reg lead done grace backstop deadline) w =
     Option.bind (watch_registration (in_wake i) r reg lead done grace backstop deadline w) pure"
| "exec S i (CWatchStart r lead done started deadline backstop) w =
     Option.bind (watch_startup (in_wake i) r lead done started deadline backstop w) pure"
| "exec S i (CWatchBackstop r done deadline backstop) w =
     Option.bind (watch_backstop (in_wake i) r done deadline backstop w) pure"

text \<open>What arrives from outside: requests, connections, timers and the exit of a worker process.\<close>

fun external :: "cmd \<Rightarrow> bool" where
  "external (CSpawn q) = True"
| "external (CAbortRequest r) = True"
| "external (CChannel cn ms) = (cn_run cn = None \<and> cn_worker cn = None \<and> \<not> cn_pool cn)"
| "external (CHeartbeat stale) = True"
| "external (CPoolExclude wid reason) = True"
| "external (CPoolControl wid d cap l) = True"
| "external (CFailActive r message) = True"
| "external _ = False"

inductive mstep :: "sys \<Rightarrow> world \<times> cmd list list \<Rightarrow> world \<times> cmd list list \<Rightarrow> bool" for S where
  mrun: "exec S i c w = Some (push, spawned, w') \<Longrightarrow>
    mstep S (w, pre @ (c # cs) # post) (w', pre @ (push @ cs) # post @ spawned)"
| marrive: "external c \<Longrightarrow> mstep S (w, ts) (w, ts @ [[c]])"
| mtick: "mstep S (w, ts) (w\<lparr>wo_now := wo_now w + d\<rparr>, ts)"

inductive_cases mstepE: "mstep S (w, ts) s'"

abbreviation msteps :: "sys \<Rightarrow> world \<times> cmd list list \<Rightarrow> world \<times> cmd list list \<Rightarrow> bool" where
  "msteps S \<equiv> (mstep S)\<^sup>*\<^sup>*"

end
