(* ===== verification/Run_Lifecycle.thy ===== *)
theory Run_Lifecycle
  imports Run_Machine Coordinator_Inv
begin

text \<open>
  What the interleaved tasks of \<^verbatim>\<open>Run_Machine\<close> guarantee of a run: the coordinator part of every
  command is a step of the state machine of \<^verbatim>\<open>Coordinator_Inv\<close>, a decided outcome reaches the store,
  and the two interleavings in which the code loses one.
\<close>

subsection \<open>Commands and critical sections\<close>

definition coord_op_of :: "sys \<Rightarrow> cmd \<Rightarrow> world \<Rightarrow> coord_op option" where
  "coord_op_of S c w = (case c of
     CRecordPhase r wid p _ \<Rightarrow> Some (CoPhase r wid p)
   | CDisconnected r wid \<Rightarrow> Some (CoDisconnect r wid)
   | CHung r _ _ \<Rightarrow> Some (CoHung r)
   | CCancelDispatch r \<Rightarrow> Some (CoDispatchFailed r)
   | CPoolDisconnect wid \<Rightarrow> Some (CoPoolRemove wid)
   | CPoolExclude wid _ \<Rightarrow> Some (CoPoolRemove wid)
   | CPoolPut reg t ov \<Rightarrow>
       Some (CoPoolRegister (rg_worker reg) t (rg_capacity reg) (rg_hostname reg) (rg_stable reg) (wo_now w) ov)
   | CPoolTouch wid \<Rightarrow> Some (CoPoolTouch wid (wo_now w))
   | CPoolControl wid d cap l \<Rightarrow> Some (CoPoolControl wid d cap l)
   | CFirstLoad r \<Rightarrow> Some (CoFirstLoad r)
   | CRegister cn r wid _ \<Rightarrow> Some (CoRegister r wid (cn_tx cn))
   | CAssign r ((wid, t) # _) \<Rightarrow> Some (CoRegister r wid t)
   | CReserve q \<Rightarrow>
       Some (CoPoolReserveCapacity (sp_id q) (pool_worker_cap (sp_profile q)) (concurrency_demand (sp_profile q)))
   | CReserveForce q \<Rightarrow> Some (CoPoolReserve (sp_id q) (force_cap (sp_profile q)))
   | CEnqueue q n counts \<Rightarrow> Some (CoEnqueue (sp_id q) (spawn_assignment S q) n (run_total_vus (sp_profile q)) counts)
   | CRelease ws \<Rightarrow> Some (CoPoolRelease ws)
   | _ \<Rightarrow> None)"

definition coord_after :: "coord_op option \<Rightarrow> coord \<Rightarrow> coord" where
  "coord_after x c = (case x of None \<Rightarrow> c | Some x \<Rightarrow> snd (coord_step x c))"

lemma coord_after_simps [simp]: "coord_after None c = c" "coord_after (Some x) c = snd (coord_step x c)"
  by (simp_all add: coord_after_def)

lemmas world_defs = pure_def put_coord_def put_db_def sent_def decide_def

lemmas task_defs = record_phase_task_def worker_disconnected_task_def fail_run_hung_task_def teardown_def
  fail_incomplete_registration_def cancel_dispatch_task_def abort_task_def pool_disconnect_def pool_exclude_def
  pool_heartbeat_tick_def sweep_one_def pool_read_override_def pool_put_idle_def pool_control_task_def
  persist_override_def stream_task_def channel_msg_def channel_register_def channel_assignment_def
  spawn_precheck_def spawn_insert_def spawn_reserve_def spawn_reserve_force_def spawn_enqueue_def
  assign_next_def assign_push_def dispatch_workers_def abort_run_def
  watch_registration_def watch_startup_def watch_backstop_def

lemma teardown_coord: "wo_coord (snd (teardown r reason m res w)) = snd res"
  by (simp add: teardown_def put_coord_def decide_def split: prod.split option.split)

lemma exec_coord:
  "exec S i c w = Some (push, spawned, w') \<Longrightarrow> wo_coord w' = coord_after (coord_op_of S c w) (wo_coord w)"
  by (cases c)
    (auto simp: coord_op_of_def coord_step_def world_defs task_defs run_insert_def Let_def
      split: prod.splits finalize.splits option.splits if_splits list.splits worker_msg.splits send_result.splits
        control_persist.splits wake.splits)

subsection \<open>The invariant of a started run\<close>

text \<open>A run is opened when no later registration can be its first one.\<close>

definition opened :: "string \<Rightarrow> coord \<Rightarrow> bool" where
  "opened r c = (case hm_get (co_runs c) r of None \<Rightarrow> True | Some rw \<Rightarrow> rw_terminal rw \<or> rw_workers rw \<noteq> [])"

lemma opened_simps [simp]:
  "opened r (cancel_token t c) = opened r c"
  "opened r (c\<lparr>co_pool := pool\<rparr>) = opened r c" "opened r (c\<lparr>co_next_token := t\<rparr>) = opened r c"
  "opened r (c\<lparr>co_runs := hm_put r' rw m\<rparr>) =
     (if r' = r then rw_terminal rw \<or> rw_workers rw \<noteq> [] else opened r (c\<lparr>co_runs := m\<rparr>))"
  "opened r (c\<lparr>co_runs := co_runs c\<rparr>) = opened r c"
  "opened r (finish_run r' rw c) = (r' = r \<or> opened r c)"
  "opened r (c\<lparr>co_runs := hm_remove r' (co_runs c)\<rparr>) = (r' = r \<or> opened r c)"
  by (auto simp: opened_def cancel_token_def finish_run_def split: option.split)

lemma hm_put_not_Nil [simp]: "hm_put k v m \<noteq> []"
  by (induction k v m rule: hm_put.induct) auto

lemma hm_update_Nil [simp]: "hm_update k f m = [] \<longleftrightarrow> m = []"
  by (simp add: hm_update_def)

lemma coord_step_stays_opened:
  "no_enqueue r x \<Longrightarrow> opened r c \<Longrightarrow> opened r (snd (coord_step x c))"
proof (cases x)
  case (CoRegister r' w t)
  assume "opened r c"
  then show ?thesis
    by (auto simp: CoRegister coord_step_def register_def Let_def split: option.splits)
next
  case (CoPhase r' w p)
  assume "opened r c"
  then show ?thesis
    by (auto simp: CoPhase coord_step_def record_worker_phase_def Let_def opened_def [of r c] split: option.splits)
qed (auto simp: coord_step_def no_enqueue_def enqueue_def worker_disconnected_def fail_run_hung_def
      cancel_dispatch_failed_def note_first_load_def pool_register_idle_def reserve_idle_pool_def
      reserve_idle_pool_capacity_def release_pool_reservation_def pool_touch_def pool_remove_def
      pool_set_control_def Let_def split: option.split prod.split)

text \<open>The commands that start a run, or write its status without a guard on behalf of its start.\<close>

fun hazard :: "string \<Rightarrow> cmd \<Rightarrow> bool" where
  "hazard r (CRunning r') = (r' = r)"
| "hazard r (CMarkFailed r' _) = (r' = r)"
| "hazard r (CSpawn q) = (sp_id q = r)"
| "hazard r (CInsert q) = (sp_id q = r)"
| "hazard r (CReserve q) = (sp_id q = r)"
| "hazard r (CReserveForce q) = (sp_id q = r)"
| "hazard r (CEnqueue q _ _) = (sp_id q = r)"
| "hazard r (CAssign r' _) = (r' = r)"
| "hazard r (CAssignPush r' _ _ _ _ _ _ _) = (r' = r)"
| "hazard r (CDispatch r' _) = (r' = r)"
| "hazard r (CAssignment _ r' _ _ _ _ lead _) = (lead \<and> r' = r)"
| "hazard r _ = False"

fun ended :: "string \<Rightarrow> cmd \<Rightarrow> run_status option" where
  "ended r (CEnded s r') = (if r' = r then Some s else None)"
| "ended r _ = None"

lemma fan_out_in: "c \<in> set (fan_out_abort r txs reason) \<Longrightarrow> \<exists>t m. c = CSend t m"
  by (auto simp: fan_out_abort_def)

lemma register_lead:
  "opened r c \<Longrightarrow> fst (register r w t c) = RoAssigned i n off cnt lead \<Longrightarrow> \<not> lead"
  by (auto simp: register_def opened_def Let_def split: option.splits if_splits)

lemma hazard_closed:
  assumes "exec S i c w = Some (push, spawned, w')" and "\<not> hazard r c" and "opened r (wo_coord w)"
    and "c' \<in> set (push @ concat spawned)"
  shows "\<not> hazard r c'"
proof (cases "\<exists>cn r' wid ms. c = CRegister cn r' wid ms")
  case True
  then obtain cn r' wid ms where c: "c = CRegister cn r' wid ms" by blast
  show ?thesis
    using assms(1,4) register_lead [OF assms(3), of wid "cn_tx cn"]
    by (auto simp: c world_defs channel_register_def split: prod.splits register_outcome.splits)
next
  case False
  have clean: "\<not> hazard r x" if "x \<in> set (fan_out_abort r' txs reason)" for x r' txs reason
    using fan_out_in [OF that] by auto
  show ?thesis
    using assms(1,2,4) False
    by (cases c)
      (auto simp: world_defs task_defs run_insert_def Let_def spawn_on_pool_def spawn_failed_def assign_failed_def
        touch_conn_def close_conn_def dest: clean
        split: prod.splits finalize.splits option.splits if_splits list.splits worker_msg.splits send_result.splits
          control_persist.splits wake.splits register_outcome.splits pool_reservation.splits)
qed

subsection \<open>Decisions and status writes\<close>

definition decided :: "string \<Rightarrow> world \<Rightarrow> run_status option" where
  "decided r w = map_of (wo_decided w) r"

fun settles :: "run_status \<Rightarrow> string \<Rightarrow> cmd \<Rightarrow> bool" where
  "settles s r (CEnded s' r') = (s' = s \<and> r' = r)"
| "settles s r (CFailActive r' _) = (s = Failed \<and> r' = r)"
| "settles s r _ = False"

text \<open>
  A command decides the outcome of a run only when the run is still open, and then the write of the
  outcome follows in the same task.
\<close>

lemma exec_decides:
  assumes "exec S i c w = Some (push, spawned, w')"
  shows "decided r w' = decided r w
    \<or> (\<exists>s. decided r w' = Some s \<and> s \<in> {Completed, Failed, Aborted}
         \<and> \<not> shut r (wo_coord w) \<and> shut r (wo_coord w') \<and> (\<exists>c' \<in> set push. settles s r c'))"
proof -
  have fires: "finalizes r x (fst (coord_step x (wo_coord w))) \<Longrightarrow> coord_op_of S c w = Some x \<Longrightarrow>
      \<not> shut r (wo_coord w) \<and> shut r (wo_coord w')" for x
    using coord_step_fires [of r x "wo_coord w"] exec_coord [OF assms] by simp
  show ?thesis
  proof (cases c)
    case (CRecordPhase r' wid p m)
    show ?thesis
      using assms fires [of "CoPhase r' wid p"]
      by (cases "record_worker_phase r' wid p (wo_coord w)"; cases "fst (record_worker_phase r' wid p (wo_coord w))")
        (auto simp: CRecordPhase world_defs record_phase_task_def decided_def finalizes_def coord_step_def
          coord_op_of_def)
  next
    case (CDisconnected r' wid)
    show ?thesis
      using assms fires [of "CoDisconnect r' wid"]
      by (cases "worker_disconnected r' wid (wo_coord w)"; cases "fst (worker_disconnected r' wid (wo_coord w))")
        (auto simp: CDisconnected world_defs worker_disconnected_task_def teardown_def decided_def finalizes_def coord_step_def
          coord_op_of_def)
  next
    case (CHung r' reason m)
    show ?thesis
      using assms fires [of "CoHung r'"]
      by (cases "fail_run_hung r' (wo_coord w)"; cases "fst (fail_run_hung r' (wo_coord w))")
        (auto simp: CHung world_defs fail_run_hung_task_def teardown_def decided_def finalizes_def coord_step_def
          coord_op_of_def)
  qed (use assms in \<open>auto simp: world_defs task_defs run_insert_def Let_def decided_def
        split: prod.splits option.splits if_splits list.splits worker_msg.splits send_result.splits
          control_persist.splits wake.splits\<close>)
qed

lemma exec_ended:
  assumes "exec S i c w = Some (push, spawned, w')" and "c' \<in> set (push @ concat spawned)"
  shows "ended r c' = None \<or> ended r c' = decided r w'"
proof (cases "\<exists>r' wid p m. c = CRecordPhase r' wid p m")
  case True
  then obtain r' wid p m where c: "c = CRecordPhase r' wid p m" by blast
  show ?thesis
    using assms
    by (cases "record_worker_phase r' wid p (wo_coord w)"; cases "fst (record_worker_phase r' wid p (wo_coord w))")
      (auto simp: c world_defs record_phase_task_def decided_def dest!: fan_out_in)
next
  case False
  then have "ended r c' = None"
    using assms
    by (cases c)
      (auto simp: world_defs task_defs run_insert_def Let_def spawn_on_pool_def spawn_failed_def assign_failed_def
        touch_conn_def close_conn_def dest!: fan_out_in
        split: prod.splits option.splits if_splits list.splits worker_msg.splits send_result.splits
          control_persist.splits wake.splits register_outcome.splits pool_reservation.splits)
  then show ?thesis by simp
qed

lemma status_insert: "status_of db r = Some s \<Longrightarrow> status_of (snd (run_insert q now sid y p e l db)) r = Some s"
  by (induction db) (auto simp: run_insert_def Let_def split: if_splits)

lemma exec_aborted:
  "exec S i c w = Some (push, spawned, w') \<Longrightarrow>
   wo_aborted w' = (case c of CMarkAborted r \<Rightarrow> r # wo_aborted w | _ \<Rightarrow> wo_aborted w)"
  by (cases c)
    (auto simp: world_defs task_defs run_insert_def Let_def
        split: prod.splits finalize.splits option.splits if_splits list.splits worker_msg.splits send_result.splits
          control_persist.splits wake.splits)

lemma exec_db:
  "exec S i c w = Some (push, spawned, w') \<Longrightarrow>
   wo_db w' = (case c of
       CRunning r \<Rightarrow> set_status Running (Some (now_ms w)) None r (wo_db w)
     | CEnded s r \<Rightarrow> set_status s None (Some (now_ms w)) r (wo_db w)
     | CVerdict r \<Rightarrow> (case sy_report S (wo_db w) r of None \<Rightarrow> wo_db w | Some v \<Rightarrow> set_verdict r v (wo_db w))
     | CFailActive r m \<Rightarrow> snd (mark_failed_if_active (now_ms w) m r (wo_db w))
     | CMarkFailed r m \<Rightarrow> mark_failed (now_ms w) m r (wo_db w)
     | CMarkAborted r \<Rightarrow> mark_aborted (now_ms w) r (wo_db w)
     | CInsert q \<Rightarrow> snd (run_insert (sp_id q) (now_ms w) (sp_scenario_id q) (sp_yaml q) (sp_profile q)
            (JObj (map (\<lambda>(k, v). (k, JStr v)) (sp_env q))) (sp_label q) (wo_db w))
     | _ \<Rightarrow> wo_db w)"
  by (cases c)
    (auto simp: world_defs task_defs Let_def
        split: prod.splits finalize.splits option.splits if_splits list.splits worker_msg.splits send_result.splits
          control_persist.splits wake.splits)

lemma exec_status:
  assumes "exec S i c w = Some (push, spawned, w')" and "\<not> hazard r c" and "status_of (wo_db w) r = Some s"
  shows "status_of (wo_db w') r = Some (case c of
      CEnded s' r' \<Rightarrow> if r' = r \<and> s \<noteq> Aborted then s' else s
    | CFailActive r' _ \<Rightarrow> if r' = r \<and> active s then Failed else s
    | CMarkAborted r' \<Rightarrow> if r' = r then Aborted else s
    | _ \<Rightarrow> s)"
  using assms(2,3) status_insert [OF assms(3)]
  by (cases c)
    (auto simp: exec_db [OF assms(1)] set_status.status_write mark_aborted.status_write mark_failed.status_write
      fail_active.status_write split: option.split)

subsection \<open>A decided outcome reaches the store\<close>

definition started :: "string \<Rightarrow> world \<times> cmd list list \<Rightarrow> bool" where
  "started r st = (case st of (w, ts) \<Rightarrow>
     status_of (wo_db w) r = Some Running \<and> decided r w = None \<and> r \<notin> set (wo_aborted w)
     \<and> opened r (wo_coord w) \<and> list_all (\<lambda>c. \<not> hazard r c \<and> ended r c = None) (concat ts))"

definition status_settled :: "string \<Rightarrow> world \<Rightarrow> run_status \<Rightarrow> bool" where
  "status_settled r w s =
     (if r \<in> set (wo_aborted w) then s = Aborted
      else case decided r w of None \<Rightarrow> s = Running \<or> s = Failed | Some d \<Rightarrow> s = d)"

definition status_pending :: "string \<Rightarrow> world \<times> cmd list list \<Rightarrow> run_status \<Rightarrow> bool" where
  "status_pending r st s = (case st of (w, ts) \<Rightarrow>
     r \<notin> set (wo_aborted w) \<and> (s = Running \<or> s = Failed)
     \<and> (\<exists>d. decided r w = Some d \<and> list_ex (settles d r) (concat ts)))"

definition lifecycle :: "string \<Rightarrow> world \<times> cmd list list \<Rightarrow> bool" where
  "lifecycle r st = (case st of (w, ts) \<Rightarrow>
     opened r (wo_coord w) \<and> (decided r w \<noteq> None \<longrightarrow> shut r (wo_coord w))
     \<and> decided r w \<in> {None, Some Completed, Some Failed, Some Aborted}
     \<and> list_all (\<lambda>c. \<not> hazard r c \<and> (ended r c = None \<or> ended r c = decided r w)) (concat ts)
     \<and> (\<exists>s. status_of (wo_db w) r = Some s \<and> (status_settled r w s \<or> status_pending r st s)))"

definition fresh :: "string \<Rightarrow> cmd list list \<Rightarrow> bool" where
  "fresh r ts = list_all (\<lambda>c. case c of CSpawn q \<Rightarrow> sp_id q \<noteq> r | _ \<Rightarrow> True) (concat ts)"

lemma started_lifecycle: "started r st \<Longrightarrow> lifecycle r st"
  by (cases st) (auto simp: started_def lifecycle_def status_settled_def list_all_iff)

lemma hazard_no_enqueue: "\<not> hazard r c \<Longrightarrow> coord_op_of S c w = Some x \<Longrightarrow> no_enqueue r x"
  by (cases c) (auto simp: coord_op_of_def no_enqueue_def split: list.splits)

lemma exec_opened_shut:
  assumes "exec S i c w = Some (push, spawned, w')" and "\<not> hazard r c"
  shows "opened r (wo_coord w) \<Longrightarrow> opened r (wo_coord w')" and "shut r (wo_coord w) \<Longrightarrow> shut r (wo_coord w')"
  using exec_coord [OF assms(1)] hazard_no_enqueue [OF assms(2)] coord_step_stays_opened coord_step_stays_shut
  by (auto simp: coord_after_def split: option.split)

lemma settles_ended: "settles d r c \<Longrightarrow> d = Failed \<or> ended r c = Some d"
  by (cases c) auto

lemma settled_relax:
  assumes "decided r w \<noteq> Some Running"
    and "status_settled r w Running \<or> status_pending r (w, ts) Running"
  shows "status_settled r w Failed \<or> status_pending r (w, ts) Failed"
  using assms(2)
proof
  assume "status_settled r w Running"
  then show ?thesis using assms(1) by (cases "decided r w") (simp_all add: status_settled_def split: if_splits)
next
  assume "status_pending r (w, ts) Running"
  then show ?thesis by (simp add: status_pending_def)
qed

lemma lifecycle_exec:
  assumes inv: "lifecycle r (w, pre @ (c # cs) # post)" and ex: "exec S i c w = Some (push, spawned, w')"
  shows "lifecycle r (w', pre @ (push @ cs) # post @ spawned)"
proof -
  let ?ts = "pre @ (c # cs) # post" and ?ts' = "pre @ (push @ cs) # post @ spawned"
  have op: "opened r (wo_coord w)" and sh: "decided r w \<noteq> None \<Longrightarrow> shut r (wo_coord w)"
    and dec: "decided r w \<in> {None, Some Completed, Some Failed, Some Aborted}"
    and safe: "\<And>x. x \<in> set (concat ?ts) \<Longrightarrow> \<not> hazard r x \<and> (ended r x = None \<or> ended r x = decided r w)"
    using inv by (auto simp: lifecycle_def list_all_iff)
  obtain s where s: "status_of (wo_db w) r = Some s" "status_settled r w s \<or> status_pending r (w, ?ts) s"
    using inv by (auto simp: lifecycle_def)
  have hz: "\<not> hazard r c" and en: "ended r c = None \<or> ended r c = decided r w" using safe [of c] by auto
  note sh' = exec_opened_shut [OF ex hz]
  have dcases: "decided r w' = decided r w \<or>
      (decided r w = None \<and> (\<exists>d. decided r w' = Some d \<and> d \<in> {Completed, Failed, Aborted}
         \<and> shut r (wo_coord w') \<and> list_ex (settles d r) (concat ?ts')))"
    using exec_decides [OF ex, of r] sh by (cases "decided r w") (auto simp: list_ex_iff)
  have new: "\<not> hazard r x \<and> (ended r x = None \<or> ended r x = decided r w')" if "x \<in> set (concat ?ts')" for x
  proof (cases "x \<in> set (push @ concat spawned)")
    case True
    then show ?thesis using hazard_closed [OF ex hz op] exec_ended [OF ex] by blast
  next
    case False
    then have "x \<in> set (concat ?ts)" using that by auto
    then show ?thesis using safe [of x] dcases by auto
  qed
  have keep: "list_ex (settles d r) (concat ?ts) \<Longrightarrow> \<not> settles d r c \<Longrightarrow> list_ex (settles d r) (concat ?ts')" for d
    by (auto simp: list_ex_iff)
  define s' where "s' = (case c of
      CEnded s' r' \<Rightarrow> if r' = r \<and> s \<noteq> Aborted then s' else s
    | CFailActive r' _ \<Rightarrow> if r' = r \<and> active s then Failed else s
    | CMarkAborted r' \<Rightarrow> if r' = r then Aborted else s
    | _ \<Rightarrow> s)"
  have st': "status_of (wo_db w') r = Some s'" unfolding s'_def by (rule exec_status [OF ex hz s(1)])
  have ab: "r \<in> set (wo_aborted w') \<longleftrightarrow> r \<in> set (wo_aborted w) \<or> c = CMarkAborted r"
    using exec_aborted [OF ex] by (cases c) auto
  have pend: "status_pending r (w', ?ts') s" if "decided r w' \<noteq> decided r w" "r \<notin> set (wo_aborted w')"
      "s = Running \<or> s = Failed"
    using dcases that by (auto simp: status_pending_def)
  have same: "status_settled r w' s \<or> status_pending r (w', ?ts') s"
    if "c \<noteq> CMarkAborted r" "\<And>d. decided r w = Some d \<Longrightarrow> \<not> settles d r c"
  proof (cases "decided r w' = decided r w")
    case True
    have abw: "r \<in> set (wo_aborted w') \<longleftrightarrow> r \<in> set (wo_aborted w)" using ab that(1) by simp
    show ?thesis
      using s(2)
    proof
      assume "status_settled r w s"
      then show ?thesis by (simp add: status_settled_def True abw)
    next
      assume "status_pending r (w, ?ts) s"
      then obtain d where d: "decided r w = Some d" "list_ex (settles d r) (concat ?ts)"
        "r \<notin> set (wo_aborted w)" "s = Running \<or> s = Failed"
        unfolding status_pending_def prod.case by blast
      have "list_ex (settles d r) (concat ?ts')" by (rule keep [OF d(2) that(2) [OF d(1)]])
      with d show ?thesis by (simp add: status_pending_def True abw)
    qed
  next
    case False
    then have none: "decided r w = None" using dcases by blast
    have abw: "r \<in> set (wo_aborted w') \<longleftrightarrow> r \<in> set (wo_aborted w)" using ab that(1) by simp
    have "status_settled r w s" using s(2) none by (auto simp: status_pending_def)
    then show ?thesis
      using pend [OF False] none by (cases "r \<in> set (wo_aborted w)") (auto simp: status_settled_def abw)
  qed
  consider (ended) s1 where "c = CEnded s1 r" | (fail) m where "c = CFailActive r m" | (abort) "c = CMarkAborted r"
    | (other) "s' = s" "c \<noteq> CMarkAborted r" "\<And>d. \<not> settles d r c"
    by (cases c) (auto simp: s'_def)
  then have "status_settled r w' s' \<or> status_pending r (w', ?ts') s'"
  proof cases
    case ended
    then have d: "decided r w = Some s1" using en by simp
    then have "decided r w' = Some s1" using dcases by auto
    moreover have "s' = (if s = Aborted then Aborted else s1)" by (simp add: s'_def ended)
    ultimately show ?thesis
      using s(2) d ab by (auto simp: status_settled_def status_pending_def ended split: if_splits)
  next
    case fail
    have abw: "r \<in> set (wo_aborted w') \<longleftrightarrow> r \<in> set (wo_aborted w)" using ab by (simp add: fail)
    have s': "s' = (if active s then Failed else s)" by (simp add: s'_def fail)
    show ?thesis
    proof (cases "decided r w = Some Failed")
      case True
      then show ?thesis
        using s(2) dcases by (auto simp: s' abw status_settled_def status_pending_def active_def split: if_splits)
    next
      case False
      then have "status_settled r w' s \<or> status_pending r (w', ?ts') s" by (intro same) (auto simp: fail)
      moreover have "s \<noteq> Pending"
        using s(2) dec by (auto simp: status_settled_def status_pending_def split: if_splits)
      then have "s' = s \<or> (s = Running \<and> s' = Failed)" by (auto simp: s' active_def)
      moreover have "decided r w' \<noteq> Some Running" using dcases dec by auto
      note relax = settled_relax [OF this]
      ultimately show ?thesis using relax by blast
    qed
  next
    case abort
    then show ?thesis using ab by (simp add: s'_def status_settled_def)
  next
    case other
    then show ?thesis using same by simp
  qed
  then have "\<exists>s. status_of (wo_db w') r = Some s \<and> (status_settled r w' s \<or> status_pending r (w', ?ts') s)"
    using st' by blast
  moreover have "opened r (wo_coord w')" by (rule sh'(1) [OF op])
  moreover have "decided r w' \<noteq> None \<longrightarrow> shut r (wo_coord w')"
    and "decided r w' \<in> {None, Some Completed, Some Failed, Some Aborted}"
    using dcases sh'(2) sh dec by auto
  ultimately show ?thesis
    unfolding lifecycle_def prod.case list_all_iff using new by blast
qed

lemma lifecycle_step:
  assumes "lifecycle r st" and "mstep S st st'" and "fresh r (snd st')"
  shows "lifecycle r st'"
  using assms(2)
proof cases
  case (mrun i c w push spawned w' pre cs post)
  then show ?thesis using lifecycle_exec assms(1) by simp
next
  case (marrive c w ts)
  then show ?thesis
    using assms(1,3)
    by (cases c)
      (auto simp: lifecycle_def fresh_def list_all_iff status_settled_def status_pending_def)
next
  case (mtick w d ts)
  then show ?thesis
    using assms(1) by (auto simp: lifecycle_def status_settled_def status_pending_def decided_def)
qed

lemma lifecycle_steps:
  assumes "(\<lambda>st st'. mstep S st st' \<and> fresh r (snd st'))\<^sup>*\<^sup>* st st'" and "lifecycle r st"
  shows "lifecycle r st'"
  using assms by (induction rule: rtranclp_induct) (blast intro: lifecycle_step)+

text \<open>
  C13: what the row of a started run says. Take any interleaving of the channel handlers, the
  watchdog, the pool, the exit of worker processes and abort requests, in which no run is created
  under the same id. When no status write of the run is pending any more, the row is aborted if an
  abort request was executed, which overrides whatever the coordinator decided; otherwise it is the
  decided outcome; and if nothing was decided it is running, or failed by the exit watcher. At any
  time, a status other than running and failed is aborted by a request or the decided outcome: while
  a write is pending the row may lag behind the decision, but shows no outcome that nobody decided.
\<close>

theorem run_outcome_recorded:
  assumes "started r st" and "(\<lambda>st st'. mstep S st st' \<and> fresh r (snd st'))\<^sup>*\<^sup>* st (w, ts)"
  shows "\<exists>s. status_of (wo_db w) r = Some s
    \<and> (list_all (\<lambda>c. ended r c = None \<and> \<not> settles Failed r c) (concat ts) \<longrightarrow>
         (if r \<in> set (wo_aborted w) then s = Aborted
          else case decided r w of None \<Rightarrow> s = Running \<or> s = Failed | Some d \<Rightarrow> s = d))
    \<and> (s \<notin> {Running, Failed} \<longrightarrow> r \<in> set (wo_aborted w) \<or> decided r w = Some s)"
proof -
  have "lifecycle r (w, ts)" by (rule lifecycle_steps [OF assms(2) started_lifecycle [OF assms(1)]])
  then obtain s where s: "status_of (wo_db w) r = Some s" "status_settled r w s \<or> status_pending r (w, ts) s"
    by (auto simp: lifecycle_def)
  have "status_pending r (w, ts) s \<Longrightarrow> \<not> list_all (\<lambda>c. ended r c = None \<and> \<not> settles Failed r c) (concat ts)"
    using settles_ended by (fastforce simp: status_pending_def list_all_iff list_ex_iff)
  then show ?thesis
    using s by (auto simp: status_settled_def status_pending_def split: if_splits option.splits)
qed

subsection \<open>Executions by a schedule\<close>

text \<open>A schedule names the task whose next command runs, and the input of the step.\<close>

definition step_at :: "sys \<Rightarrow> nat \<Rightarrow> inp \<Rightarrow> world \<times> cmd list list \<Rightarrow> (world \<times> cmd list list) option" where
  "step_at S k i st = (case st of (w, ts) \<Rightarrow>
     if k < length ts then
       (case ts ! k of
          [] \<Rightarrow> None
        | c # cs \<Rightarrow> map_option (\<lambda>(push, spawned, w'). (w', ts[k := push @ cs] @ spawned)) (exec S i c w))
     else None)"

fun play :: "sys \<Rightarrow> (nat \<times> inp) list \<Rightarrow> world \<times> cmd list list \<Rightarrow> (world \<times> cmd list list) option" where
  "play S [] st = Some st"
| "play S ((k, i) # xs) st = Option.bind (step_at S k i st) (play S xs)"

lemma step_at_mstep: "step_at S k i st = Some st' \<Longrightarrow> mstep S st st'"
proof -
  assume st: "step_at S k i st = Some st'"
  obtain w ts where wts: "st = (w, ts)" by (cases st)
  obtain c cs push spawned w' where k: "k < length ts" and c: "ts ! k = c # cs"
    and ex: "exec S i c w = Some (push, spawned, w')" and st': "st' = (w', ts[k := push @ cs] @ spawned)"
    using st by (auto simp: wts step_at_def split: if_splits list.splits)
  have "ts = take k ts @ (c # cs) # drop (Suc k) ts" using id_take_nth_drop [OF k] c by simp
  moreover have "ts[k := push @ cs] @ spawned = take k ts @ (push @ cs) # drop (Suc k) ts @ spawned"
    using upd_conv_take_nth_drop [OF k, of "push @ cs"] by simp
  ultimately show ?thesis using mrun [OF ex, of "take k ts" cs "drop (Suc k) ts"] unfolding wts st' by simp
qed

lemma play_msteps: "play S xs st = Some st' \<Longrightarrow> msteps S st st'"
proof (induction xs arbitrary: st)
  case (Cons x xs)
  then show ?case
    by (cases x) (auto simp: bind_eq_Some_conv intro: converse_rtranclp_into_rtranclp step_at_mstep)
qed simp

lemma arrive_msteps: "list_all external cs \<Longrightarrow> msteps S (w, ts) (w, ts @ map (\<lambda>c. [c]) cs)"
proof (induction cs arbitrary: ts)
  case (Cons c cs)
  then have "mstep S (w, ts) (w, ts @ [[c]])" by (simp add: marrive)
  moreover have "msteps S (w, ts @ [[c]]) (w, (ts @ [[c]]) @ map (\<lambda>c. [c]) cs)"
    using Cons.prems by (intro Cons.IH) simp
  ultimately show ?case by (simp add: converse_rtranclp_into_rtranclp)
qed simp

definition demo_closed :: profile where
  "demo_closed = demo_profile\<lparr>pf_vus := 2, pf_target_rps := None, pf_max_in_flight := None, pf_worker_count := None,
     pf_data_binding := None\<rparr>"

definition demo_req :: spawn_req where
  "demo_req = \<lparr>sp_id = ''r'', sp_scenario_id = ''s'', sp_yaml = ''y'', sp_profile = demo_closed, sp_metas = [], sp_env = [],
     sp_force = False, sp_label = None\<rparr>"

definition demo_sys :: sys where
  "demo_sys = \<lparr>sy_fetch = \<lambda>_ _ _. Some [], sy_report = \<lambda>_ _. None, sy_worker_yaml = \<lambda>y _. y, sy_sqrt = \<lambda>_ _ _. 0,
     sy_startup_secs = 90, sy_backstop_secs = 120, sy_capacity = 1\<rparr>"

definition demo_inp :: inp where
  "demo_inp = \<lparr>in_send = SendOk, in_ok = True, in_alive = \<lambda>_ _. True, in_wake = WakeDone\<rparr>"

definition demo_world :: world where
  "demo_world = \<lparr>wo_coord = coord_new None False, wo_db = [], wo_overrides = [], wo_now = 0, wo_sent = [],
     wo_replies = [], wo_cleaned = [], wo_decided = [], wo_aborted = []\<rparr>"

definition demo_reg :: "string \<Rightarrow> worker_msg" where
  "demo_reg wid = WmRegister \<lparr>rg_token = [], rg_run = ''r'', rg_worker = wid, rg_capacity = 1, rg_hostname = [],
     rg_stable = False\<rparr>"

definition demo_conn :: "tx \<Rightarrow> conn" where
  "demo_conn t = \<lparr>cn_tx = t, cn_run = None, cn_worker = None, cn_pool = False\<rparr>"

definition demo_tasks :: "cmd list" where
  "demo_tasks = [CSpawn demo_req, CChannel (demo_conn 1) [demo_reg ''a'', WmStatus ''r'' 4 []],
     CChannel (demo_conn 2) [demo_reg ''b'', WmStatus ''r'' 3 ''boom'']]"

lemmas demo_eval = step_at_def world_defs task_defs Let_def run_insert_def register_def enqueue_def shard_counts_def
  assignment_for_def opt_bind_def check_token_def touch_conn_def close_conn_def record_worker_phase_def
  worker_disconnected_def finish_run_def cancel_token_def cancelled_def hm_get_def hm_update_def phase_of_def
  fan_out_abort_def stream_all.simps worker_streams_def spawn_assignment_def effective_bindings_def
  demo_tasks_def demo_world_def demo_inp_def demo_reg_def demo_conn_def demo_req_def coord_new_def

lemma demo_workers: "spawn_workers demo_sys demo_req False = 2"
  by (simp add: spawn_workers_def demo_sys_def demo_req_def fanout_worker_count_def demo_closed_def demo_profile_def
      is_vu_curve_def is_open_loop_def has_stages_def worker_count_def div_ceil_def)

lemma demo_split: "shard_split 2 2 0 = (0, 1)" "shard_split 2 2 (Suc 0) = (1, 1)"
  by (simp_all add: shard_split_def)

lemma demo_reduce: "reduce_pool_profile (to_proto_profile demo_closed) k 2 c ws = Some (to_proto_profile demo_closed)"
  by (simp add: reduce_pool_profile_def to_proto_profile_def demo_closed_def demo_profile_def unwrap_or_def)

lemma demo_total: "run_total_vus demo_closed = 2"
  by (simp add: run_total_vus_def demo_closed_def demo_profile_def is_vu_curve_def is_open_loop_def has_stages_def)

lemma demo_yaml: "sy_worker_yaml demo_sys = (\<lambda>y _. y)" "sy_report demo_sys = (\<lambda>_ _. None)"
  by (simp_all add: demo_sys_def)

definition demo_schedule :: "nat list" where
  "demo_schedule = [0, 0, 0, 0, 0, 1, 1, 2, 2, 2, 2, 2, 2, 2, 2, 1, 1, 1, 1, 1, 1, 1, 1, 1, 2, 2, 2, 2, 2, 3]"

lemma demo_play:
  "\<exists>w ts. play demo_sys (map (\<lambda>k. (k, demo_inp)) demo_schedule) (demo_world, map (\<lambda>c. [c]) demo_tasks) = Some (w, ts)
     \<and> concat ts = [] \<and> status_of (wo_db w) ''r'' = Some Running \<and> decided ''r'' w = Some Failed
     \<and> shut ''r'' (wo_coord w)"
  using demo_workers
  by (simp add: demo_eval demo_schedule_def demo_split demo_reduce demo_yaml demo_total now_ms_def set_status_def
      mark_failed_if_active_def fail_row_def update_where_def active_def coalesce_def decided_def shut_def)

text \<open>A schedule every state of which satisfies a condition on the pending tasks.\<close>

fun play_in ::
  "(cmd list list \<Rightarrow> bool) \<Rightarrow> sys \<Rightarrow> (nat \<times> inp) list \<Rightarrow> world \<times> cmd list list \<Rightarrow> (world \<times> cmd list list) option"
where
  "play_in P S [] st = Some st"
| "play_in P S ((k, i) # xs) st =
     Option.bind (step_at S k i st) (\<lambda>st'. if P (snd st') then play_in P S xs st' else None)"

lemma play_in_steps:
  "play_in P S xs st = Some st' \<Longrightarrow> (\<lambda>st st'. mstep S st st' \<and> P (snd st'))\<^sup>*\<^sup>* st st'"
proof (induction xs arbitrary: st)
  case (Cons x xs)
  then show ?case
    by (cases x)
      (auto simp: bind_eq_Some_conv split: if_splits intro: converse_rtranclp_into_rtranclp step_at_mstep)
qed simp

definition demo_running :: "world \<times> cmd list list" where
  "demo_running = (demo_world\<lparr>wo_coord := demo_coord,
     wo_db := set_status Running (Some 0) None ''r''
       (snd (run_insert ''r'' 0 ''s'' ''y'' demo_closed JNull None []))\<rparr>, [[CAbortRequest ''r'']])"

lemma demo_coord_opened: "opened ''r'' demo_coord \<and> abort_targets ''r'' demo_coord = Some [1, 2]"
  by (simp add: demo_coord_def enqueue_def register_def coord_new_def Let_def shard_counts_def shard_split_def
      cancel_token_def opened_def abort_targets_def all_txs_def hm_get_def)

theorem run_outcome_recorded_witness:
  "\<exists>w ts. msteps demo_sys demo_running (w, ts) \<and> status_of (wo_db w) ''r'' = Some Aborted"
proof -
  obtain w ts where p: "play_in (fresh ''r'') demo_sys (replicate 5 (0, demo_inp)) demo_running = Some (w, ts)"
    and ab: "''r'' \<in> set (wo_aborted w)" and ts: "ts = [[CReply ''r'' ReOk]]"
    using demo_coord_opened
    by (simp add: numeral_eq_Suc demo_running_def step_at_def abort_run_def world_defs abort_task_def fan_out_abort_def
        demo_world_def run_insert_def set_status_def update_where_def run_get_def Let_def demo_inp_def fresh_def coalesce_def)
  have "started ''r'' demo_running"
    using demo_coord_opened
    by (simp add: started_def demo_running_def demo_world_def run_insert_def set_status_def update_where_def Let_def
        decided_def coalesce_def)
  from run_outcome_recorded [OF this play_in_steps [OF p]] have "status_of (wo_db w) ''r'' = Some Aborted"
    using ab ts by auto
  moreover have "msteps demo_sys demo_running (w, ts)"
    using play_in_steps [OF p] by (rule rtranclp_mono [THEN predicate2D, rotated]) blast
  ultimately show ?thesis by blast
qed

text \<open>
  C14: the status write of a run's first worker is not ordered with the decision. In the model of the
  code there is an execution (two workers; the second one reports failure while the handler of the
  first is between sending its assignment and marking the run as running) after which every task has
  ended, the coordinator has decided that the run failed, and the stored status is running.
\<close>

theorem failed_run_left_running:
  "\<exists>w ts. msteps demo_sys (demo_world, []) (w, ts) \<and> concat ts = []
     \<and> status_of (wo_db w) ''r'' = Some Running \<and> decided ''r'' w = Some Failed \<and> shut ''r'' (wo_coord w)"
proof -
  have "list_all external demo_tasks" by (simp add: demo_tasks_def demo_conn_def)
  from arrive_msteps [OF this, of demo_sys demo_world "[]"]
  have "msteps demo_sys (demo_world, []) (demo_world, map (\<lambda>c. [c]) demo_tasks)" by simp
  then show ?thesis using demo_play play_msteps by (blast intro: rtranclp_trans)
qed

end
