(* ===== verification/Run_Watch.thy ===== *)
theory Run_Watch
  imports Run_Lifecycle
begin

text \<open>
  The whole controller keeps the invariant of its coordinator state, and no undecided run is left
  without a watchdog while workers are missing.
\<close>

subsection \<open>Well-formed commands\<close>

definition validated :: "sys \<Rightarrow> spawn_req \<Rightarrow> bool" where
  "validated S q \<longleftrightarrow> (\<exists>L get_meta. validate_run_config L get_meta (sp_profile q) = Inr (sp_metas q)
     \<and> li_worker_capacity L = sy_capacity S)"

fun cmd_wf :: "sys \<Rightarrow> cmd \<Rightarrow> bool" where
  "cmd_wf S (CSpawn q) = (0 < fanout_worker_count (sp_profile q) (sy_capacity S))"
| "cmd_wf S (CInsert q) = (0 < fanout_worker_count (sp_profile q) (sy_capacity S))"
| "cmd_wf S (CEnqueue q n counts) = (0 < n \<and> pre_ok n counts)"
| "cmd_wf S _ = True"

lemma validated_wf: "validated S q \<Longrightarrow> cmd_wf S (CSpawn q)"
  using validate_run_config_ok validated_workers [of _ "sp_profile q"] by (fastforce simp: validated_def)

lemma pre_ok_None [simp]: "pre_ok n None"
  by (simp add: pre_ok_def)

lemma reserve_pre_ok:
  assumes "hm_ok (co_pool c)" and "fst (reserve_idle_pool_capacity r cap total_vus c) = Reserved ws counts" and "ws \<noteq> []"
  shows "pre_ok (length ws) (Some counts)"
proof -
  let ?idle = "sorted_idle c"
  let ?n = "min (length ?idle) cap"
  let ?ids = "take ?n (map fst ?idle)"
  have ws: "ws = txs_of ?ids (co_pool c)" and counts: "counts = with_offsets 0 (capacity_split total_vus (take ?n (map snd ?idle)))"
    using assms(2,3) by (auto simp: reserve_idle_pool_capacity_def Let_def split: if_splits)
  have "\<forall>i \<in> set ?ids. hm_get (co_pool c) i \<noteq> None"
  proof
    fix i
    assume "i \<in> set ?ids"
    then have "i \<in> fst ` set ?idle" using in_set_takeD by fastforce
    then obtain k where "(i, k) \<in> set ?idle" by auto
    then show "hm_get (co_pool c) i \<noteq> None" using sorted_idle_props(2) [OF assms(1)] by auto
  qed
  then have "map fst ws = ?ids" unfolding ws by (rule txs_of_total)
  then have "length (map fst ws) = length ?ids" by (simp only:)
  then have "length ws = ?n" by simp
  then show ?thesis by (simp add: pre_ok_def counts)
qed

lemma exec_wf:
  assumes "exec S i c w = Some (push, spawned, w')" and "cmd_wf S c" and "hm_ok (co_pool (wo_coord w))"
    and "c' \<in> set (push @ concat spawned)"
  shows "cmd_wf S c'"
proof (cases "\<exists>q. c = CReserve q")
  case True
  then obtain q where c: "c = CReserve q" by blast
  show ?thesis
    using assms(1,4) reserve_pre_ok [OF assms(3), of "sp_id q" "pool_worker_cap (sp_profile q)"
        "concurrency_demand (sp_profile q)"]
    by (cases "fst (reserve_idle_pool_capacity (sp_id q) (pool_worker_cap (sp_profile q))
          (concurrency_demand (sp_profile q)) (wo_coord w))")
      (auto simp: c world_defs spawn_reserve_def spawn_on_pool_def spawn_failed_def
        split: prod.splits if_splits option.splits)
next
  case False
  have clean: "cmd_wf S x" if "x \<in> set (fan_out_abort r' txs reason)" for x r' txs reason
    using fan_out_in [OF that] by auto
  show ?thesis
    using assms(1,2,4) False
    by (cases c)
      (auto simp: world_defs task_defs run_insert_def Let_def spawn_on_pool_def spawn_failed_def assign_failed_def
        touch_conn_def close_conn_def spawn_workers_def dest: clean
        split: prod.splits finalize.splits option.splits if_splits list.splits worker_msg.splits send_result.splits
          control_persist.splits wake.splits register_outcome.splits)
qed

lemma coord_op_wf: "cmd_wf S c \<Longrightarrow> coord_op_of S c w = Some x \<Longrightarrow> op_wf x"
  by (cases c) (auto simp: coord_op_of_def split: list.splits)

lemma exec_coord_ok:
  assumes "exec S i c w = Some (push, spawned, w')" and "cmd_wf S c" and "coord_ok (wo_coord w)"
  shows "coord_ok (wo_coord w')"
  using exec_coord [OF assms(1)] coord_op_wf [OF assms(2)] coord_step_ok [OF assms(3)] assms(3)
  by (auto simp: coord_after_def split: option.split)

subsection \<open>The watchdog of a run\<close>

fun watches :: "string \<Rightarrow> run_workers \<Rightarrow> cmd \<Rightarrow> bool" where
  "watches r rw (CWatchReg r' _ _ done _ _ _) = (r' = r \<and> done = rw_done rw)"
| "watches r rw (CWatchStart r' _ done _ _ _) = (r' = r \<and> done = rw_done rw)"
| "watches r rw (CWatchBackstop r' done _ _) = (r' = r \<and> done = rw_done rw)"
| "watches r rw (CIncomplete r') = (r' = r)"
| "watches r rw (CHung r' _ _) = (r' = r)"
| "watches r rw _ = False"

definition watched :: "string \<Rightarrow> world \<times> cmd list list \<Rightarrow> bool" where
  "watched r st = (case st of (w, ts) \<Rightarrow>
     (case hm_get (co_runs (wo_coord w)) r of None \<Rightarrow> True | Some rw \<Rightarrow>
        rw_terminal rw \<or> list_ex (watches r rw) (concat ts) \<or> rw_expected rw \<le> length (rw_workers rw)))"

lemma watches_done: "rw_done rw' = rw_done rw \<Longrightarrow> watches r rw' c = watches r rw c"
  by (cases c) auto

lemma hm_put_length: "length m \<le> length (hm_put k v m)"
  by (induction k v m rule: hm_put.induct) auto

lemma hm_put_lengthD: "length (hm_put k v m) = n \<Longrightarrow> length m \<le> n"
  using hm_put_length [of m k v] by simp

text \<open>A run that is undecided after a step was so before, with the same tokens and no more workers.\<close>

lemma coord_step_undecided:
  assumes "no_enqueue r x" and "hm_get (co_runs (snd (coord_step x c))) r = Some rw'" and "\<not> rw_terminal rw'"
  shows "\<exists>rw. hm_get (co_runs c) r = Some rw \<and> \<not> rw_terminal rw \<and> rw_done rw = rw_done rw'
    \<and> rw_expected rw = rw_expected rw' \<and> length (rw_workers rw) \<le> length (rw_workers rw')"
  using assms
  by (cases x)
    (auto simp: coord_step_def no_enqueue_def enqueue_def register_def record_worker_phase_def worker_disconnected_def
      fail_run_hung_def cancel_dispatch_failed_def note_first_load_def pool_register_idle_def reserve_idle_pool_def
      reserve_idle_pool_capacity_def release_pool_reservation_def pool_touch_def pool_remove_def pool_set_control_def
      finish_run_def cancel_token_def hm_put_length hm_update_def Let_def
      dest: hm_put_lengthD split: option.splits prod.splits if_splits)

lemma hung_decides:
  "exec S i (CHung r reason m) w = Some (push, spawned, w') \<Longrightarrow> hm_get (co_runs (wo_coord w')) r = Some rw' \<Longrightarrow>
   rw_terminal rw'"
  by (auto simp: world_defs fail_run_hung_task_def teardown_def fail_run_hung_def finish_run_def cancel_token_def
      split: option.splits if_splits)

lemma watched_exec:
  assumes wd: "watched r (w, pre @ (c # cs) # post)" and ok: "coord_ok (wo_coord w)"
    and ex: "exec S i c w = Some (push, spawned, w')"
  shows "watched r (w', pre @ (push @ cs) # post @ spawned)"
proof (cases "hm_get (co_runs (wo_coord w')) r")
  case None
  then show ?thesis by (simp add: watched_def)
next
  case (Some rw')
  let ?ts' = "pre @ (push @ cs) # post @ spawned"
  show ?thesis
  proof (cases "rw_terminal rw' \<or> (\<exists>q n counts. c = CEnqueue q n counts \<and> sp_id q = r)")
    case True
    then show ?thesis
    proof
      assume "\<exists>q n counts. c = CEnqueue q n counts \<and> sp_id q = r"
      then have "list_ex (watches r rw') (concat spawned)"
        using ex Some by (auto simp: world_defs spawn_enqueue_def enqueue_def Let_def)
      then show ?thesis by (auto simp: watched_def Some)
    qed (simp add: watched_def Some)
  next
    case False
    have ne: "\<And>x. coord_op_of S c w = Some x \<Longrightarrow> no_enqueue r x"
      using False by (cases c) (auto simp: coord_op_of_def no_enqueue_def split: list.splits)
    note before = coord_step_undecided [OF ne, of _ "wo_coord w" rw']
    obtain rw where rw: "hm_get (co_runs (wo_coord w)) r = Some rw" "\<not> rw_terminal rw" "rw_done rw = rw_done rw'"
      "rw_expected rw = rw_expected rw'" "length (rw_workers rw) \<le> length (rw_workers rw')"
      using exec_coord [OF ex] Some False before by (cases "coord_op_of S c w") auto
    have alive: "\<not> cancelled (rw_done rw) w"
      using coord_okD [OF ok rw(1)] rw(2) by (simp add: run_ok_def cancelled_def)
    have eq: "watches r rw' x = watches r rw x" for x by (rule watches_done) (simp add: rw)
    have "rw_expected rw \<le> length (rw_workers rw) \<or> list_ex (watches r rw) (concat ?ts')"
    proof (cases "list_ex (watches r rw) (concat (pre @ cs # post))")
      case True
      then show ?thesis by auto
    next
      case other: False
      then consider "rw_expected rw \<le> length (rw_workers rw)" | "watches r rw c"
        using wd rw(1,2) by (auto simp: watched_def)
      then show ?thesis
      proof cases
        case 2
        have "\<not> (\<exists>reason m. c = CHung r reason m)" using hung_decides [of S i r] ex Some False by blast
        with 2 have "list_ex (watches r rw) push \<or> rw_expected rw \<le> length (rw_workers rw)"
          using ex alive rw(1,2)
          by (cases c)
            (auto simp: world_defs watch_registration_def watch_startup_def watch_backstop_def
              fail_incomplete_registration_def incomplete_registration_def bind_eq_Some_conv
              split: wake.splits if_splits option.splits)
        then show ?thesis by auto
      qed simp
    qed
    then show ?thesis using rw by (auto simp: watched_def Some eq list_ex_iff)
  qed
qed

subsection \<open>Reachable states of the controller\<close>

definition spawns_ok :: "sys \<Rightarrow> cmd list list \<Rightarrow> bool" where
  "spawns_ok S ts = list_all (\<lambda>c. case c of CSpawn q \<Rightarrow> validated S q | _ \<Rightarrow> True) (concat ts)"

definition controller_ok :: "sys \<Rightarrow> string \<Rightarrow> world \<times> cmd list list \<Rightarrow> bool" where
  "controller_ok S r st = (case st of (w, ts) \<Rightarrow>
     coord_ok (wo_coord w) \<and> list_all (cmd_wf S) (concat ts) \<and> watched r (w, ts))"

lemma controller_step:
  assumes "controller_ok S r st" and "mstep S st st'" and "spawns_ok S (snd st')"
  shows "controller_ok S r st'"
  using assms(2)
proof cases
  case (mrun i c w push spawned w' pre cs post)
  have ok: "coord_ok (wo_coord w)" and wf: "cmd_wf S c" and wd: "watched r (w, pre @ (c # cs) # post)"
    using assms(1) mrun by (auto simp: controller_ok_def)
  have "hm_ok (co_pool (wo_coord w))" using ok by (simp add: coord_ok_def)
  from exec_wf [OF mrun(3) wf this] have "list_all (cmd_wf S) (push @ concat spawned)" by (simp only: list_all_iff) blast
  then show ?thesis
    using assms(1) exec_coord_ok [OF mrun(3) wf ok] watched_exec [OF wd ok mrun(3)]
    unfolding mrun(1,2) controller_ok_def prod.case by auto
next
  case (marrive c w ts)
  have "cmd_wf S c"
    using marrive(3) assms(3) validated_wf [of S] by (cases c) (auto simp: marrive(2) spawns_ok_def)
  then show ?thesis
    using assms(1) by (auto simp: marrive controller_ok_def watched_def split: option.splits)
next
  case (mtick w d ts)
  then show ?thesis using assms(1) by (auto simp: controller_ok_def watched_def split: option.splits)
qed

lemma controller_steps:
  assumes "(\<lambda>st st'. mstep S st st' \<and> spawns_ok S (snd st'))\<^sup>*\<^sup>* st st'" and "controller_ok S r st"
  shows "controller_ok S r st'"
  using assms by (induction rule: rtranclp_induct) (blast intro: controller_step)+

text \<open>
  C15: in every reachable state of the controller, whatever requests, connections and timers arrive, an
  undecided run either has a watchdog task pending that ends with a decision (a phase of the watchdog,
  or the teardown that its timeout started), or all its expected workers have registered. In
  particular a run with missing workers is never left alone.
\<close>

theorem runs_stay_watched:
  assumes "(\<lambda>st st'. mstep S st st' \<and> spawns_ok S (snd st'))\<^sup>*\<^sup>* (w0, []) (w, ts)"
    and "wo_coord w0 = coord_new wt pm"
    and "hm_get (co_runs (wo_coord w)) r = Some rw" and "\<not> rw_terminal rw"
  shows "list_ex (watches r rw) (concat ts) \<or> length (rw_workers rw) = rw_expected rw"
proof -
  have "controller_ok S r (w0, [])"
    using assms(2) by (simp add: controller_ok_def coord_new_ok watched_def) (simp add: coord_new_def hm_get_def)
  then have ok: "controller_ok S r (w, ts)" by (rule controller_steps [OF assms(1)])
  then have "run_ok (co_cancelled (wo_coord w)) rw"
    using coord_okD [OF _ assms(3)] by (simp add: controller_ok_def)
  then have "length (rw_workers rw) \<le> rw_expected rw"
    using assms(4) by (simp add: run_ok_def shards_ok_def)
  then show ?thesis using ok assms(3,4) by (auto simp: controller_ok_def watched_def)
qed

lemma demo_validated: "validated demo_sys demo_req"
  unfolding validated_def
  by (rule exI [of _ "demo_limits\<lparr>li_worker_capacity := 1\<rparr>"], rule exI [of _ demo_meta])
    (simp add: validate_run_config_def validate_knobs_def validate_mode_def validate_common_def effective_bindings_def
      demo_req_def demo_sys_def demo_closed_def demo_profile_def demo_limits_def is_vu_curve_def is_open_loop_def
      has_stages_def first_err.simps)

theorem runs_stay_watched_witness:
  "\<exists>w ts rw. msteps demo_sys (demo_world, []) (w, ts) \<and> hm_get (co_runs (wo_coord w)) ''r'' = Some rw
     \<and> rw_expected rw = 2 \<and> list_ex (watches ''r'' rw) (concat ts)"
proof -
  let ?R = "\<lambda>st st'. mstep demo_sys st st' \<and> spawns_ok demo_sys (snd st')"
  obtain w ts rw where p: "play_in (spawns_ok demo_sys) demo_sys (replicate 3 (0, demo_inp)) (demo_world, [[CSpawn demo_req]])
      = Some (w, ts)"
    and rw: "hm_get (co_runs (wo_coord w)) ''r'' = Some rw" "\<not> rw_terminal rw" "rw_workers rw = []" "rw_expected rw = 2"
    using demo_workers by (simp add: numeral_eq_Suc demo_eval demo_yaml spawns_ok_def)
  have "?R (demo_world, []) (demo_world, [] @ [[CSpawn demo_req]])"
    using demo_validated marrive [of "CSpawn demo_req" demo_sys demo_world "[]"] by (simp add: spawns_ok_def)
  then have steps: "?R\<^sup>*\<^sup>* (demo_world, []) (w, ts)"
    using converse_rtranclp_into_rtranclp [of ?R, OF _ play_in_steps [OF p]] by simp
  have "wo_coord demo_world = coord_new None False" by (simp add: demo_world_def)
  from runs_stay_watched [OF steps this rw(1,2)] rw have "list_ex (watches ''r'' rw) (concat ts)" by simp
  moreover have "msteps demo_sys (demo_world, []) (w, ts)"
    using steps by (rule rtranclp_mono [THEN predicate2D, rotated]) blast
  ultimately show ?thesis using rw by blast
qed

end
