(* ===== verification/Store_Metrics.thy ===== *)
theory Store_Metrics
  imports Store_Runs Aggregator
begin

text \<open>
  The metric tables of \<^verbatim>\<open>controller/src/store/metrics.rs\<close> and the ingestion of a worker's batch
  (\<^verbatim>\<open>ingest_metrics\<close> of \<^verbatim>\<open>grpc/coordinator.rs\<close>). A table is the list of its rows in insertion
  order, a query with \<^verbatim>\<open>ORDER BY\<close> sorts it. A status column is the map its JSON text encodes, a
  histogram column the bytes. Counters are non-negative \<^verbatim>\<open>i64\<close> in the store and \<^typ>\<open>nat\<close> here.

  The locale \<open>accumulating\<close> is the contract of an \<^verbatim>\<open>ON CONFLICT .. DO UPDATE SET count = count +
  excluded.count\<close> table: a key keeps one row, and its amount is the sum of what was inserted.
\<close>

subsection \<open>Tables\<close>

definition upsert :: "('r \<Rightarrow> 'k) \<Rightarrow> ('r \<Rightarrow> 'r \<Rightarrow> 'r) \<Rightarrow> 'r \<Rightarrow> 'r list \<Rightarrow> 'r list" where
  "upsert key mrg r t =
     (if list_ex (\<lambda>x. key x = key r) t then map (\<lambda>x. if key x = key r then mrg x r else x) t else t @ [r])"

definition amount :: "('r \<Rightarrow> 'k) \<Rightarrow> ('r \<Rightarrow> nat) \<Rightarrow> 'k \<Rightarrow> 'r list \<Rightarrow> nat" where
  "amount key amt k t = (\<Sum>x\<leftarrow>t. if key x = k then amt x else 0)"

lemma amount_simps [simp]:
  "amount key amt k [] = 0" "amount key amt k (x # t) = (if key x = k then amt x else 0) + amount key amt k t"
  "amount key amt k (t @ t') = amount key amt k t + amount key amt k t'"
  by (simp_all add: amount_def)

lemma amount_absent: "\<not> list_ex (\<lambda>x. key x = k) t \<Longrightarrow> amount key amt k t = 0"
  by (induction t) auto

locale accumulating =
  fixes key :: "'r \<Rightarrow> 'k" and amt :: "'r \<Rightarrow> nat" and mrg :: "'r \<Rightarrow> 'r \<Rightarrow> 'r"
  assumes merge_key: "key x = key r \<Longrightarrow> key (mrg x r) = key r"
    and merge_amt: "amt (mrg x r) = amt x + amt r"
begin

lemma keys_update: "map key (map (\<lambda>x. if key x = key r then mrg x r else x) t) = map key t"
  by (induction t) (auto simp: merge_key)

lemma upsert_distinct: "distinct (map key t) \<Longrightarrow> distinct (map key (upsert key mrg r t))"
  by (simp only: upsert_def keys_update if_distrib [of "map key"] if_distrib [of distinct])
    (auto simp: list_ex_iff image_iff)

lemma update_absent: "\<not> list_ex (\<lambda>x. key x = key r) t \<Longrightarrow> map (\<lambda>x. if key x = key r then mrg x r else x) t = t"
  by (induction t) auto

lemma upsert_amount:
  "distinct (map key t) \<Longrightarrow>
   amount key amt k (upsert key mrg r t) = amount key amt k t + (if key r = k then amt r else 0)"
proof (induction t)
  case (Cons x t)
  show ?case
  proof (cases "key x = key r")
    case True
    then have "\<not> list_ex (\<lambda>x. key x = key r) t" using Cons.prems by (auto simp: list_ex_iff image_iff)
    from update_absent [OF this] True show ?thesis by (simp add: upsert_def merge_key merge_amt)
  next
    case False
    then have "upsert key mrg r (x # t) = x # upsert key mrg r t" by (simp add: upsert_def)
    with Cons show ?thesis by simp
  qed
qed (simp add: upsert_def)

lemma batch_amount:
  "distinct (map key t) \<Longrightarrow>
   distinct (map key (fold (upsert key mrg) rs t))
   \<and> amount key amt k (fold (upsert key mrg) rs t) = amount key amt k t + amount key amt k rs"
  by (induction rs arbitrary: t) (simp_all add: upsert_distinct upsert_amount)

end

record metric_row =
  mr_run :: string
  mr_ts :: int
  mr_step :: string
  mr_worker :: string
  mr_count :: nat
  mr_errors :: nat
  mr_hdr :: string
  mr_status :: "(string, nat) btree_map"

record loop_row =
  lr_run :: string
  lr_step :: string
  lr_index :: nat
  lr_count :: nat
  lr_errors :: nat

record if_branch_row =
  ib_run :: string
  ib_step :: string
  ib_branch :: string
  ib_count :: nat

record error_kind_row =
  ek_run :: string
  ek_step :: string
  ek_kind :: string
  ek_count :: nat

record group_row =
  gr_run :: string
  gr_step :: string
  gr_branch :: string
  gr_hdr :: string
  gr_count :: nat

record phase_row =
  pr_run :: string
  pr_step :: string
  pr_phase :: string
  pr_hdr :: string
  pr_count :: nat

record active_vu_row =
  ar_run :: string
  ar_ts :: int
  ar_desired :: nat
  ar_actual :: nat
  ar_worker :: string

record metrics_db =
  md_windows :: "metric_row list"
  md_loops :: "loop_row list"
  md_branches :: "if_branch_row list"
  md_error_kinds :: "error_kind_row list"
  md_groups :: "group_row list"
  md_phases :: "phase_row list"
  md_active :: "active_vu_row list"

subsection \<open>Inserting\<close>

definition window_key :: "metric_row \<Rightarrow> string \<times> int \<times> string \<times> string" where
  "window_key r = (mr_run r, mr_ts r, mr_step r, mr_worker r)"

definition loop_key :: "loop_row \<Rightarrow> string \<times> string \<times> nat" where "loop_key r = (lr_run r, lr_step r, lr_index r)"
definition branch_key :: "if_branch_row \<Rightarrow> string \<times> string \<times> string" where
  "branch_key r = (ib_run r, ib_step r, ib_branch r)"
definition kind_key :: "error_kind_row \<Rightarrow> string \<times> string \<times> string" where "kind_key r = (ek_run r, ek_step r, ek_kind r)"
definition active_key :: "active_vu_row \<Rightarrow> string \<times> int \<times> string" where "active_key r = (ar_run r, ar_ts r, ar_worker r)"

definition insert_batch :: "metric_row list \<Rightarrow> metric_row list \<Rightarrow> metric_row list" where
  "insert_batch rows t = fold (upsert window_key (\<lambda>x r. x)) rows t"

definition loop_merge :: "loop_row \<Rightarrow> loop_row \<Rightarrow> loop_row" where
  "loop_merge x r = x\<lparr>lr_count := lr_count x + lr_count r, lr_errors := lr_errors x + lr_errors r\<rparr>"

definition insert_loop_batch :: "loop_row list \<Rightarrow> loop_row list \<Rightarrow> loop_row list" where
  "insert_loop_batch rows t = fold (upsert loop_key loop_merge) rows t"

definition branch_merge :: "if_branch_row \<Rightarrow> if_branch_row \<Rightarrow> if_branch_row" where
  "branch_merge x r = x\<lparr>ib_count := ib_count x + ib_count r\<rparr>"

definition insert_if_branch_batch :: "if_branch_row list \<Rightarrow> if_branch_row list \<Rightarrow> if_branch_row list" where
  "insert_if_branch_batch rows t = fold (upsert branch_key branch_merge) rows t"

definition kind_merge :: "error_kind_row \<Rightarrow> error_kind_row \<Rightarrow> error_kind_row" where
  "kind_merge x r = x\<lparr>ek_count := ek_count x + ek_count r\<rparr>"

definition insert_error_kind_batch :: "error_kind_row list \<Rightarrow> error_kind_row list \<Rightarrow> error_kind_row list" where
  "insert_error_kind_batch rows t = fold (upsert kind_key kind_merge) rows t"

definition insert_group_batch :: "group_row list \<Rightarrow> group_row list \<Rightarrow> group_row list" where
  "insert_group_batch rows t = t @ rows"

definition insert_phase_batch :: "phase_row list \<Rightarrow> phase_row list \<Rightarrow> phase_row list" where
  "insert_phase_batch rows t = t @ rows"

definition insert_active_vu_batch :: "active_vu_row list \<Rightarrow> active_vu_row list \<Rightarrow> active_vu_row list" where
  "insert_active_vu_batch rows t =
     fold (upsert active_key (\<lambda>x r. x\<lparr>ar_desired := ar_desired r, ar_actual := ar_actual r\<rparr>)) rows t"

interpretation loop_table: accumulating loop_key lr_count loop_merge
  by unfold_locales (auto simp: loop_key_def loop_merge_def)

interpretation loop_errors: accumulating loop_key lr_errors loop_merge
  by unfold_locales (auto simp: loop_key_def loop_merge_def)

interpretation branch_table: accumulating branch_key ib_count branch_merge
  by unfold_locales (auto simp: branch_key_def branch_merge_def)

interpretation kind_table: accumulating kind_key ek_count kind_merge
  by unfold_locales (auto simp: kind_key_def kind_merge_def)

subsection \<open>Queries\<close>

definition windows_with_hdr :: "metrics_db \<Rightarrow> string \<Rightarrow> metric_row list" where
  "windows_with_hdr md r =
     sort_key (\<lambda>x. (mr_ts x, mr_step x, mr_worker x)) (filter (\<lambda>x. mr_run x = r) (md_windows md))"

definition loop_breakdown :: "metrics_db \<Rightarrow> string \<Rightarrow> loop_row list" where
  "loop_breakdown md r = sort_key (\<lambda>x. (lr_step x, lr_index x)) (filter (\<lambda>x. lr_run x = r) (md_loops md))"

definition if_breakdown :: "metrics_db \<Rightarrow> string \<Rightarrow> if_branch_row list" where
  "if_breakdown md r = sort_key (\<lambda>x. (ib_step x, ib_branch x)) (filter (\<lambda>x. ib_run x = r) (md_branches md))"

definition error_kind_breakdown :: "metrics_db \<Rightarrow> string \<Rightarrow> error_kind_row list" where
  "error_kind_breakdown md r = sort_key (\<lambda>x. (ek_step x, ek_kind x)) (filter (\<lambda>x. ek_run x = r) (md_error_kinds md))"

definition group_breakdown :: "metrics_db \<Rightarrow> string \<Rightarrow> group_row list" where
  "group_breakdown md r = sort_key (\<lambda>x. (gr_step x, gr_branch x)) (filter (\<lambda>x. gr_run x = r) (md_groups md))"

definition phase_breakdown :: "metrics_db \<Rightarrow> string \<Rightarrow> phase_row list" where
  "phase_breakdown md r = sort_key (\<lambda>x. (pr_step x, pr_phase x)) (filter (\<lambda>x. pr_run x = r) (md_phases md))"

definition active_vu_by_worker :: "metrics_db \<Rightarrow> string \<Rightarrow> active_vu_row list" where
  "active_vu_by_worker md r =
     sort_key (\<lambda>x. (ar_worker x, ar_ts x)) (filter (\<lambda>x. ar_run x = r \<and> ar_worker x \<noteq> []) (md_active md))"

definition active_vu_series :: "metrics_db \<Rightarrow> string \<Rightarrow> active_vu_row list" where
  "active_vu_series md r =
     (let rows = filter (\<lambda>x. ar_run x = r) (md_active md) in
      map (\<lambda>ts. \<lparr>ar_run = r, ar_ts = ts,
                 ar_desired = (\<Sum>x\<leftarrow>rows. if ar_ts x = ts then ar_desired x else 0),
                 ar_actual = (\<Sum>x\<leftarrow>rows. if ar_ts x = ts then ar_actual x else 0), ar_worker = []\<rparr>)
        (sort (remdups (map ar_ts rows))))"

definition last_metric_ts_by_scenario :: "metrics_db \<Rightarrow> run_row list \<Rightarrow> string \<Rightarrow> (string \<times> int) list" where
  "last_metric_ts_by_scenario md db sid =
     (let ids = map rr_id (filter (\<lambda>r. rr_scenario_id r = sid \<and> rr_status r = Running) db);
          rows = filter (\<lambda>x. mr_run x \<in> set ids) (md_windows md)
      in map (\<lambda>i. (i, Max (set (map mr_ts (filter (\<lambda>x. mr_run x = i) rows))))) (remdups (map mr_run rows)))"

subsection \<open>A worker's batch\<close>

record pb_window =
  pw_ts :: int
  pw_step :: string
  pw_count :: nat
  pw_errors :: nat
  pw_hdr :: string
  pw_status :: "(string, nat) hash_map"

record pb_error_kind_stat =
  pe_step :: string
  pe_kind :: string
  pe_count :: nat

record metric_batch =
  mb_run :: string
  mb_worker :: string
  mb_windows :: "pb_window list"
  mb_loops :: "loop_stat list"
  mb_branches :: "branch_stat list"
  mb_error_kinds :: "pb_error_kind_stat list"
  mb_groups :: "string group_stat list"
  mb_phases :: "string phase_stat list"
  mb_active :: "active_vu_sample list"
  mb_dropped :: nat

definition window_rows :: "metric_batch \<Rightarrow> metric_row list" where
  "window_rows b = map (\<lambda>w. \<lparr>mr_run = mb_run b, mr_ts = pw_ts w, mr_step = pw_step w, mr_worker = mb_worker b,
     mr_count = pw_count w, mr_errors = pw_errors w, mr_hdr = pw_hdr w, mr_status = bt_extend (pw_status w) []\<rparr>)
     (mb_windows b)"

definition loop_rows :: "metric_batch \<Rightarrow> loop_row list" where
  "loop_rows b = map (\<lambda>s. \<lparr>lr_run = mb_run b, lr_step = ls_step_id s, lr_index = ls_loop_index s,
     lr_count = ls_count s, lr_errors = ls_error_count s\<rparr>) (mb_loops b)"

definition branch_rows :: "metric_batch \<Rightarrow> if_branch_row list" where
  "branch_rows b = map (\<lambda>s. \<lparr>ib_run = mb_run b, ib_step = bs_step_id s, ib_branch = bs_branch s,
     ib_count = bs_count s\<rparr>) (mb_branches b)"

definition kind_rows :: "metric_batch \<Rightarrow> error_kind_row list" where
  "kind_rows b = map (\<lambda>s. \<lparr>ek_run = mb_run b, ek_step = pe_step s, ek_kind = pe_kind s, ek_count = pe_count s\<rparr>)
     (mb_error_kinds b)"

definition group_rows :: "metric_batch \<Rightarrow> group_row list" where
  "group_rows b = map (\<lambda>s. \<lparr>gr_run = mb_run b, gr_step = gs_step_id s, gr_branch = gs_branch s,
     gr_hdr = gs_histogram s, gr_count = gs_count s\<rparr>) (mb_groups b)"

definition phase_rows :: "metric_batch \<Rightarrow> phase_row list" where
  "phase_rows b = map (\<lambda>s. \<lparr>pr_run = mb_run b, pr_step = ps_step_id s, pr_phase = ps_phase s,
     pr_hdr = ps_histogram s, pr_count = ps_count s\<rparr>) (mb_phases b)"

definition active_rows :: "metric_batch \<Rightarrow> active_vu_row list" where
  "active_rows b = map (\<lambda>s. \<lparr>ar_run = mb_run b, ar_ts = av_ts_second s, ar_desired = av_desired s,
     ar_actual = av_actual s, ar_worker = mb_worker b\<rparr>) (mb_active b)"

definition add_dropped :: "nat \<Rightarrow> string \<Rightarrow> run_row list \<Rightarrow> run_row list" where
  "add_dropped n r db = snd (update_where (\<lambda>x. rr_id x = r) (\<lambda>x. x\<lparr>rr_dropped := rr_dropped x + int n\<rparr>) db)"

text \<open>
  Every insert is its own transaction; one that fails is logged and skipped, \<open>ok k\<close> tells whether
  the \<open>k\<close>-th succeeds.
\<close>

definition ingest_metrics ::
  "(nat \<Rightarrow> bool) \<Rightarrow> metric_batch \<Rightarrow> metrics_db \<times> run_row list \<Rightarrow> metrics_db \<times> run_row list"
where
  "ingest_metrics ok b st = (case st of (md, db) \<Rightarrow>
     (\<lparr>md_windows = (if ok 0 then insert_batch (window_rows b) (md_windows md) else md_windows md),
       md_loops = (if ok 1 then insert_loop_batch (loop_rows b) (md_loops md) else md_loops md),
       md_branches = (if ok 2 then insert_if_branch_batch (branch_rows b) (md_branches md) else md_branches md),
       md_error_kinds = (if ok 3 then insert_error_kind_batch (kind_rows b) (md_error_kinds md) else md_error_kinds md),
       md_groups = (if ok 4 then insert_group_batch (group_rows b) (md_groups md) else md_groups md),
       md_phases = (if ok 5 then insert_phase_batch (phase_rows b) (md_phases md) else md_phases md),
       md_active = (if ok 6 then insert_active_vu_batch (active_rows b) (md_active md) else md_active md)\<rparr>,
      if ok 7 \<and> 0 < mb_dropped b then add_dropped (mb_dropped b) (mb_run b) db else db))"

definition metrics_empty :: metrics_db where
  "metrics_empty = \<lparr>md_windows = [], md_loops = [], md_branches = [], md_error_kinds = [], md_groups = [],
     md_phases = [], md_active = []\<rparr>"

subsection \<open>The window table\<close>

lemma insert_first_keep: "upsert key (\<lambda>x r. x) r t = (if list_ex (\<lambda>x. key x = key r) t then t else t @ [r])"
  by (simp add: upsert_def)

text \<open>The rows of the table are the first rows of every key.\<close>

fun firsts :: "('r \<Rightarrow> 'k) \<Rightarrow> 'k list \<Rightarrow> 'r list \<Rightarrow> 'r list" where
  "firsts key seen [] = []"
| "firsts key seen (r # rs) =
     (if key r \<in> set seen then firsts key seen rs else r # firsts key (key r # seen) rs)"

lemma firsts_cong: "set seen = set seen' \<Longrightarrow> firsts key seen rs = firsts key seen' rs"
proof (induction rs arbitrary: seen seen')
  case (Cons r rs)
  then have "set (key r # seen) = set (key r # seen')" by simp
  from Cons.IH [OF this] Cons.IH [OF Cons.prems] Cons.prems show ?case by simp
qed simp

lemma fold_insert_first: "fold (upsert key (\<lambda>x r. x)) rs t = t @ firsts key (map key t) rs"
proof (induction rs arbitrary: t)
  case (Cons r rs)
  show ?case
  proof (cases "list_ex (\<lambda>x. key x = key r) t")
    case True
    then have "key r \<in> set (map key t)" by (auto simp: list_ex_iff intro: rev_image_eqI)
    with True Cons show ?thesis by (simp add: insert_first_keep)
  next
    case False
    then have "key r \<notin> set (map key t)" by (auto simp: list_ex_iff)
    with False Cons [of "t @ [r]"] show ?thesis
      using firsts_cong [of "map key t @ [key r]" "key r # map key t" key rs] by (simp add: insert_first_keep)
  qed
qed simp

lemma firsts_distinct: "distinct (map key rs) \<Longrightarrow> set (map key rs) \<inter> set seen = {} \<Longrightarrow> firsts key seen rs = rs"
  by (induction rs arbitrary: seen) auto

text \<open>Sending rows again that were stored before changes nothing.\<close>

lemma firsts_resent: "set (map key rs) \<subseteq> set seen \<Longrightarrow> firsts key seen rs = []"
  by (induction rs arbitrary: seen) auto

lemma insert_batch_idempotent:
  "set (map window_key rows) \<subseteq> set (map window_key t) \<Longrightarrow> insert_batch rows t = t"
  by (simp add: insert_batch_def fold_insert_first firsts_resent)

lemma insert_batch_new:
  "distinct (map window_key rows) \<Longrightarrow> set (map window_key rows) \<inter> set (map window_key t) = {} \<Longrightarrow>
   insert_batch rows t = t @ rows"
  by (simp add: insert_batch_def fold_insert_first firsts_distinct)

end
