(* ===== verification/F64_Arith.thy ===== *)
theory F64_Arith
  imports F64
begin

text \<open>
  Rust's \<^verbatim>\<open>f64\<close> arithmetic on finite operands, as the exact result of the operation rounded to the
  nearest double (ties to even): conversion of unsigned integers, the four operations, rounding to
  an integer. The program guards every division, so a zero divisor does not occur.
\<close>

definition f64_parts :: "f64 \<Rightarrow> nat \<times> nat" where
  "f64_parts x =
     (let m = f64_mag x; e = m div 2 ^ 52; f = m mod 2 ^ 52 in
      if e = 0 then (f, 2 ^ 1074)
      else if 1075 \<le> e then ((2 ^ 52 + f) * 2 ^ (e - 1075), 1)
      else (2 ^ 52 + f, 2 ^ (1075 - e)))"

definition f64_num :: "f64 \<Rightarrow> int" where
  "f64_num x = (if f64_neg x then - int (fst (f64_parts x)) else int (fst (f64_parts x)))"

definition f64_den :: "f64 \<Rightarrow> nat" where "f64_den x = snd (f64_parts x)"

definition f64_of_frac :: "int \<Rightarrow> nat \<Rightarrow> f64" where
  "f64_of_frac n d = f64_of_mag (n < 0) (round_mag (nat \<bar>n\<bar>) d)"

text \<open>\<^verbatim>\<open>n as f64\<close>.\<close>

definition f64_of_nat :: "nat \<Rightarrow> f64" where
  "f64_of_nat n = f64_of_mag False (round_mag n 1)"

definition f64_add :: "f64 \<Rightarrow> f64 \<Rightarrow> f64" where
  "f64_add a b = f64_of_frac (f64_num a * int (f64_den b) + f64_num b * int (f64_den a)) (f64_den a * f64_den b)"

definition f64_sub :: "f64 \<Rightarrow> f64 \<Rightarrow> f64" where
  "f64_sub a b = f64_of_frac (f64_num a * int (f64_den b) - f64_num b * int (f64_den a)) (f64_den a * f64_den b)"

definition f64_mul :: "f64 \<Rightarrow> f64 \<Rightarrow> f64" where
  "f64_mul a b = f64_of_frac (f64_num a * f64_num b) (f64_den a * f64_den b)"

definition f64_div :: "f64 \<Rightarrow> f64 \<Rightarrow> f64" where
  "f64_div a b =
     f64_of_frac (sgn (f64_num b) * f64_num a * int (f64_den b)) (nat \<bar>f64_num b\<bar> * f64_den a)"

text \<open>\<^verbatim>\<open>x.round() as u64\<close> of a non-negative double: half away from zero.\<close>

definition f64_round_u64 :: "f64 \<Rightarrow> nat" where
  "f64_round_u64 x = min ((2 * fst (f64_parts x) + f64_den x) div (2 * f64_den x)) u64_max"

text \<open>\<^verbatim>\<open>x as u64\<close>: truncation, saturating.\<close>

definition f64_trunc_u64 :: "f64 \<Rightarrow> nat" where
  "f64_trunc_u64 x = (if f64_neg x then 0 else min (fst (f64_parts x) div f64_den x) u64_max)"

lemma f64_of_nat_lt: "m < 2 ^ 53 \<Longrightarrow> n < 2 ^ 53 \<Longrightarrow> f64_lt (f64_of_nat m) (f64_of_nat n) \<longleftrightarrow> m < n"
  unfolding f64_of_nat_def by (rule f64_lt_nat)

lemma f64_of_nat_not_nan: "n < 2 ^ 53 \<Longrightarrow> \<not> f64_is_nan (f64_of_nat n)"
proof -
  assume n: "n < 2 ^ 53"
  have b: "round_mag n 1 < f64_inf_mag" by (rule round_mag_small_bound [OF n])
  then have "round_mag n 1 < 2 ^ 63" by (simp add: f64_inf_mag_def)
  then show ?thesis using b by (simp add: f64_is_nan_def f64_of_nat_def f64_mag_of_mag)
qed

lemma f64_of_nat_le: "m < 2 ^ 53 \<Longrightarrow> n < 2 ^ 53 \<Longrightarrow> f64_le (f64_of_nat m) (f64_of_nat n) \<longleftrightarrow> m \<le> n"
proof -
  assume mn: "m < 2 ^ 53" "n < 2 ^ 53"
  have "f64_le (f64_of_nat m) (f64_of_nat n) \<longleftrightarrow> \<not> f64_lt (f64_of_nat n) (f64_of_nat m)"
    using f64_of_nat_not_nan [OF mn(1)] f64_of_nat_not_nan [OF mn(2)] by (auto simp: f64_le_def f64_lt_def)
  then show ?thesis using f64_of_nat_lt [OF mn(2,1)] by auto
qed

end
