(* ===== verification/Report.thy ===== *)
theory Report
  imports Store_Metrics F64_Arith
begin

text \<open>
  \<^verbatim>\<open>controller/src/report.rs\<close>: the evaluation of the SLO criteria and the aggregation of the metric
  rows of a run into its report, with \<^verbatim>\<open>engine/src/percentiles.rs\<close>.

  The HDR histogram is a parameter (record \<open>hist_api\<close>): decoding, merging, its quantiles, bounds and
  recorded values; so are the logarithmic bin functions. The insights, the validity and the narrative
  of a report are computed from it by other modules and are not part of the record here.
\<close>

subsection \<open>Percentiles\<close>

record 'h hist_api =
  hh_new :: 'h
  hh_decode :: "string \<Rightarrow> 'h option"
  hh_merge :: "'h \<Rightarrow> 'h \<Rightarrow> 'h"
  hh_value :: "'h \<Rightarrow> f64 \<Rightarrow> nat"
  hh_min :: "'h \<Rightarrow> nat"
  hh_max :: "'h \<Rightarrow> nat"
  hh_len :: "'h \<Rightarrow> nat"
  hh_mean :: "'h \<Rightarrow> f64"
  hh_recorded :: "'h \<Rightarrow> (nat \<times> nat) list"
  hh_bin :: "nat \<Rightarrow> nat \<Rightarrow> nat \<Rightarrow> nat \<Rightarrow> int"
  hh_edge :: "nat \<Rightarrow> nat \<Rightarrow> nat \<Rightarrow> nat \<Rightarrow> nat"

record percentiles =
  pc_p50 :: nat
  pc_p95 :: nat
  pc_p99 :: nat

definition percentiles_empty :: percentiles where "percentiles_empty = \<lparr>pc_p50 = 0, pc_p95 = 0, pc_p99 = 0\<rparr>"

definition decode_hdr :: "'h hist_api \<Rightarrow> string \<Rightarrow> 'h option" where
  "decode_hdr H bytes = (if bytes = [] then None else hh_decode H bytes)"

definition percentiles_of :: "'h hist_api \<Rightarrow> 'h \<Rightarrow> percentiles" where
  "percentiles_of H h =
     \<lparr>pc_p50 = hh_value H h (f64_of_frac 1 2) div 1000, pc_p95 = hh_value H h (f64_of_frac 19 20) div 1000,
      pc_p99 = hh_value H h (f64_of_frac 99 100) div 1000\<rparr>"

definition curve_quantiles :: "f64 list" where
  "curve_quantiles = map (\<lambda>n. f64_of_frac n 10000) [0, 1000, 2500, 5000, 7500, 9000, 9500, 9900, 9990, 9999, 10000]"

definition histogram_bins :: nat where "histogram_bins = 40"

definition percentile_curve :: "'h hist_api \<Rightarrow> 'h \<Rightarrow> f64 list \<Rightarrow> (f64 \<times> nat) list" where
  "percentile_curve H h qs = map (\<lambda>q. (q, hh_value H h q)) qs"

definition bin_index :: "nat \<Rightarrow> int \<Rightarrow> nat" where
  "bin_index bins j = nat (max 0 (min j (int bins - 1)))"

definition log_buckets :: "'h hist_api \<Rightarrow> 'h \<Rightarrow> nat \<Rightarrow> (nat \<times> nat \<times> nat) list" where
  "log_buckets H h bins =
     (if hh_len H h = 0 \<or> bins = 0 then []
      else let lo = max (hh_min H h) 1; hi = hh_max H h in
        if hi \<le> lo then [(lo, hi, hh_len H h)]
        else let counts = fold (\<lambda>(v, c) cs.
                   if c = 0 then cs
                   else let j = bin_index bins (hh_bin H lo hi bins (max v 1)) in cs[j := cs ! j + c])
                 (hh_recorded H h) (replicate bins 0)
             in map (\<lambda>i. (hh_edge H lo hi bins i, hh_edge H lo hi bins (i + 1), counts ! i)) [0..<bins])"

subsection \<open>The report\<close>

record report_summary =
  sm_count :: nat
  sm_errors :: nat
  sm_rps :: f64
  sm_duration_seconds :: int
  sm_mean_ms :: nat
  sm_p50 :: nat
  sm_p95 :: nat
  sm_p99 :: nat

record report_window =
  rw_ts :: int
  rw_step :: string
  rw_count :: nat
  rw_error_count :: nat
  rw_status :: "(string, nat) btree_map"
  rw_pct :: percentiles

record loop_bucket_row =
  lb_index :: "nat option"
  lb_count :: nat
  lb_errors :: nat

record phase_stats =
  pst_count :: nat
  pst_pct :: percentiles
  pst_max_ms :: nat

record report_step =
  rs_id :: string
  rs_count :: nat
  rs_errors :: nat
  rs_status :: "(string, nat) btree_map"
  rs_pct :: percentiles
  rs_loops :: "loop_bucket_row list"
  rs_download :: "phase_stats option"
  rs_wait :: "phase_stats option"

record connection_stats =
  cs_dns :: phase_stats
  cs_connect :: phase_stats
  cs_opened :: nat
  cs_requests :: nat
  cs_reuse :: f64

record group_latency =
  gl_id :: string
  gl_stats :: phase_stats
  gl_branches :: "(string \<times> phase_stats) list"

record worker_breakdown =
  wb_worker :: string
  wb_count :: nat
  wb_errors :: nat
  wb_pct :: percentiles

record report =
  rp_summary :: report_summary
  rp_windows :: "report_window list"
  rp_steps :: "report_step list"
  rp_status :: "(string, nat) btree_map"
  rp_if :: "(string \<times> (string \<times> nat) list) list"
  rp_kinds :: "(string \<times> nat) list"
  rp_verdict :: "verdict option"
  rp_dropped :: nat
  rp_latency :: "((f64 \<times> nat) list \<times> (nat \<times> nat \<times> nat) list) option"
  rp_groups :: "group_latency list"
  rp_active :: "(int \<times> nat \<times> nat) list"
  rp_active_workers :: "(string \<times> (int \<times> nat \<times> nat) list) list"
  rp_workers :: "worker_breakdown list"
  rp_connection :: "connection_stats option"

subsection \<open>Criteria\<close>

definition status_class_count :: "(string, nat) btree_map \<Rightarrow> char \<Rightarrow> nat" where
  "status_class_count d c = (\<Sum>(k, v)\<leftarrow>filter (\<lambda>(k, _). k \<noteq> [] \<and> hd k = c) d. v)"

definition http_response_total :: "(string, nat) btree_map \<Rightarrow> nat" where
  "http_response_total d = (\<Sum>(k, v)\<leftarrow>filter (\<lambda>(k, _). k \<noteq> [] \<and> CHR ''1'' \<le> hd k \<and> hd k \<le> CHR ''5'') d. v)"

definition bt_entry :: "'k :: linorder \<Rightarrow> 'v \<Rightarrow> ('v \<Rightarrow> 'v) \<Rightarrow> ('k, 'v) btree_map \<Rightarrow> ('k, 'v) btree_map" where
  "bt_entry k d f m = bt_insert k (f (unwrap_or d (bt_get m k))) m"

fun f64_min_by :: "f64 list \<Rightarrow> f64 option" where
  "f64_min_by [] = None"
| "f64_min_by (x # xs) = Some (foldl (\<lambda>a b. if f64_lt b a then b else a) x xs)"

definition min_window_rps_of :: "report_window list \<Rightarrow> nat \<Rightarrow> f64 option" where
  "min_window_rps_of windows warmup =
     (let by_sec = fold (\<lambda>w. bt_entry (rw_ts w) 0 (\<lambda>c. c + rw_count w)) windows [] in
      case by_sec of
        [] \<Rightarrow> None
      | (lead, _) # _ \<Rightarrow>
          (let final = fst (last by_sec); lo = lead + int warmup in
           f64_min_by (map (\<lambda>(_, c). f64_of_nat c)
             (filter (\<lambda>(ts, _). lead < ts \<and> ts < final \<and> lo \<le> ts) by_sec))))"

definition max_row :: "string \<Rightarrow> f64 \<Rightarrow> f64 \<Rightarrow> criterion_result" where
  "max_row m t actual = \<lparr>cres_metric = m, cres_direction = ''max'', cres_threshold = t, cres_actual = actual,
     cres_passed = f64_le actual t, cres_target = None\<rparr>"

definition min_row :: "string \<Rightarrow> f64 \<Rightarrow> f64 \<Rightarrow> criterion_result" where
  "min_row m t actual = \<lparr>cres_metric = m, cres_direction = ''min'', cres_threshold = t, cres_actual = actual,
     cres_passed = f64_le t actual, cres_target = None\<rparr>"

definition opt_row :: "('t \<Rightarrow> criterion_result) \<Rightarrow> 't option \<Rightarrow> criterion_result list" where
  "opt_row f t = (case t of None \<Rightarrow> [] | Some t \<Rightarrow> [f t])"

definition ratio :: "nat \<Rightarrow> nat \<Rightarrow> f64" where
  "ratio a b = (if b = 0 then 0 else f64_div (f64_of_nat a) (f64_of_nat b))"

definition fixed_rows ::
  "criteria \<Rightarrow> report_summary \<Rightarrow> (string, nat) btree_map \<Rightarrow> report_window list \<Rightarrow> criterion_result list"
where
  "fixed_rows c s d windows =
     opt_row (\<lambda>t. max_row ''p50_ms'' (f64_of_nat t) (f64_of_nat (sm_p50 s))) (max_p50_ms c)
   @ opt_row (\<lambda>t. max_row ''p95_ms'' (f64_of_nat t) (f64_of_nat (sm_p95 s))) (max_p95_ms c)
   @ opt_row (\<lambda>t. max_row ''p99_ms'' (f64_of_nat t) (f64_of_nat (sm_p99 s))) (max_p99_ms c)
   @ opt_row (\<lambda>t. max_row ''error_rate'' t (ratio (sm_errors s) (sm_count s))) (max_error_rate c)
   @ opt_row (\<lambda>t. max_row ''4xx_rate'' t (ratio (status_class_count d CHR ''4'') (http_response_total d))) (max_4xx_rate c)
   @ opt_row (\<lambda>t. max_row ''5xx_rate'' t (ratio (status_class_count d CHR ''5'') (http_response_total d))) (max_5xx_rate c)
   @ opt_row (\<lambda>t. max_row ''4xx_count'' (f64_of_nat t) (f64_of_nat (status_class_count d CHR ''4''))) (max_4xx_count c)
   @ opt_row (\<lambda>t. max_row ''5xx_count'' (f64_of_nat t) (f64_of_nat (status_class_count d CHR ''5''))) (max_5xx_count c)
   @ opt_row (\<lambda>t. min_row ''rps'' t (sm_rps s)) (min_rps c)
   @ (case min_window_rps c of None \<Rightarrow> []
      | Some t \<Rightarrow> opt_row (min_row ''min_window_rps'' t) (min_window_rps_of windows (unwrap_or 0 (rps_warmup_seconds c))))"

definition step_actual :: "report_step \<Rightarrow> string \<Rightarrow> f64 option" where
  "step_actual st m =
     (let total_responses = http_response_total (rs_status st) in
      if m = ''p50_ms'' then Some (f64_of_nat (pc_p50 (rs_pct st)))
      else if m = ''p95_ms'' then Some (f64_of_nat (pc_p95 (rs_pct st)))
      else if m = ''p99_ms'' then Some (f64_of_nat (pc_p99 (rs_pct st)))
      else if m = ''error_rate'' then Some (f64_div (f64_of_nat (rs_errors st)) (f64_of_nat (rs_count st)))
      else if m = ''4xx_rate'' \<or> m = ''5xx_rate'' then
        Some (ratio (status_class_count (rs_status st) (if starts_with ''4'' m then CHR ''4'' else CHR ''5'')) total_responses)
      else if m = ''4xx_count'' then Some (f64_of_nat (status_class_count (rs_status st) CHR ''4''))
      else if m = ''5xx_count'' then Some (f64_of_nat (status_class_count (rs_status st) CHR ''5''))
      else None)"

definition step_row :: "report_step list \<Rightarrow> criterion \<Rightarrow> criterion_result option" where
  "step_row steps sc =
     (case find (\<lambda>s. rs_id s = cr_target sc) steps of
        None \<Rightarrow> None
      | Some st \<Rightarrow>
          if rs_count st = 0 then None
          else map_option (\<lambda>actual.
            \<lparr>cres_metric = cr_metric sc, cres_direction = cr_op sc, cres_threshold = cr_threshold sc, cres_actual = actual,
             cres_passed = (if cr_op sc = ''min'' then f64_le (cr_threshold sc) actual else f64_le actual (cr_threshold sc)),
             cres_target = Some (cr_target sc)\<rparr>) (step_actual st (cr_metric sc)))"

definition evaluate_criteria ::
  "criteria \<Rightarrow> report_summary \<Rightarrow> (string, nat) btree_map \<Rightarrow> report_window list \<Rightarrow> report_step list \<Rightarrow> verdict"
where
  "evaluate_criteria c s d windows steps =
     (let rows = fixed_rows c s d windows @ List.map_filter (step_row steps) (step_criteria c)
      in \<lparr>vd_passed = list_all cres_passed rows, vd_criteria = rows\<rparr>)"

subsection \<open>Aggregating the metric rows\<close>

definition add_status :: "(string, nat) btree_map \<Rightarrow> (string, nat) btree_map \<Rightarrow> (string, nat) btree_map" where
  "add_status into src = fold (\<lambda>(k, v). bt_entry k 0 (\<lambda>c. c + v)) src into"

record 'h window_acc =
  wa_count :: nat
  wa_errors :: nat
  wa_status :: "(string, nat) btree_map"
  wa_hist :: "'h option"

record 'h worker_acc =
  wk_count :: nat
  wk_errors :: nat
  wk_hist :: "'h option"

record 'h report_acc =
  ra_windows :: "(int \<times> string, 'h window_acc) btree_map"
  ra_overall :: 'h
  ra_step_hist :: "(string, 'h) btree_map"
  ra_step_counts :: "(string, nat \<times> nat \<times> (string, nat) btree_map) btree_map"
  ra_status :: "(string, nat) btree_map"
  ra_count :: nat
  ra_errors :: nat
  ra_workers :: "(string, 'h worker_acc) btree_map"

definition acc_new :: "'h hist_api \<Rightarrow> 'h report_acc" where
  "acc_new H = \<lparr>ra_windows = [], ra_overall = hh_new H, ra_step_hist = [], ra_step_counts = [], ra_status = [],
     ra_count = 0, ra_errors = 0, ra_workers = []\<rparr>"

definition merge_opt :: "'h hist_api \<Rightarrow> 'h option \<Rightarrow> 'h option \<Rightarrow> 'h option" where
  "merge_opt H acc decoded = (case decoded of None \<Rightarrow> acc | Some h \<Rightarrow> Some (hh_merge H (unwrap_or (hh_new H) acc) h))"

definition add_row :: "'h hist_api \<Rightarrow> bool \<Rightarrow> metric_row \<Rightarrow> 'h report_acc \<Rightarrow> 'h report_acc" where
  "add_row H multi_worker r a =
     (let decoded = decode_hdr H (mr_hdr r) in
      \<lparr>ra_windows = bt_entry (mr_ts r, mr_step r) \<lparr>wa_count = 0, wa_errors = 0, wa_status = [], wa_hist = None\<rparr>
         (\<lambda>w. \<lparr>wa_count = wa_count w + mr_count r, wa_errors = wa_errors w + mr_errors r,
               wa_status = add_status (wa_status w) (mr_status r), wa_hist = merge_opt H (wa_hist w) decoded\<rparr>)
         (ra_windows a),
       ra_overall = (case decoded of None \<Rightarrow> ra_overall a | Some h \<Rightarrow> hh_merge H (ra_overall a) h),
       ra_step_hist = (case decoded of None \<Rightarrow> ra_step_hist a
          | Some h \<Rightarrow> bt_entry (mr_step r) (hh_new H) (\<lambda>x. hh_merge H x h) (ra_step_hist a)),
       ra_step_counts = bt_entry (mr_step r) (0, 0, [])
          (\<lambda>(n, e, d). (n + mr_count r, e + mr_errors r, add_status d (mr_status r))) (ra_step_counts a),
       ra_status = add_status (ra_status a) (mr_status r),
       ra_count = ra_count a + mr_count r,
       ra_errors = ra_errors a + mr_errors r,
       ra_workers = (if multi_worker \<and> mr_worker r \<noteq> [] then
            bt_entry (mr_worker r) \<lparr>wk_count = 0, wk_errors = 0, wk_hist = None\<rparr>
              (\<lambda>w. \<lparr>wk_count = wk_count w + mr_count r, wk_errors = wk_errors w + mr_errors r,
                    wk_hist = merge_opt H (wk_hist w) decoded\<rparr>) (ra_workers a)
          else ra_workers a)\<rparr>)"

definition multi_worker :: "metric_row list \<Rightarrow> bool" where
  "multi_worker rows = (2 \<le> length (remdups (filter (\<lambda>w. w \<noteq> []) (map mr_worker rows))))"

definition accumulate :: "'h hist_api \<Rightarrow> metric_row list \<Rightarrow> 'h report_acc" where
  "accumulate H rows = fold (add_row H (multi_worker rows)) rows (acc_new H)"

definition pct_opt :: "'h hist_api \<Rightarrow> 'h option \<Rightarrow> percentiles" where
  "pct_opt H h = (case h of None \<Rightarrow> percentiles_empty | Some h \<Rightarrow> percentiles_of H h)"

definition report_windows :: "'h hist_api \<Rightarrow> 'h report_acc \<Rightarrow> report_window list" where
  "report_windows H a = map (\<lambda>((ts, sid), w). \<lparr>rw_ts = ts, rw_step = sid, rw_count = wa_count w, rw_error_count = wa_errors w,
     rw_status = wa_status w, rw_pct = pct_opt H (wa_hist w)\<rparr>) (ra_windows a)"

definition loop_bucket_of :: "loop_row \<Rightarrow> loop_bucket_row" where
  "loop_bucket_of r = \<lparr>lb_index = (if lr_index r = u32_max then None else Some (lr_index r)), lb_count = lr_count r,
     lb_errors = lr_errors r\<rparr>"

definition loops_by_step :: "loop_row list \<Rightarrow> (string, loop_bucket_row list) btree_map" where
  "loops_by_step loops = fold (\<lambda>r. bt_entry (lr_step r) [] (\<lambda>bs. bs @ [loop_bucket_of r])) loops []"

definition if_breakdown_of :: "if_branch_row list \<Rightarrow> (string, (string \<times> nat) list) btree_map" where
  "if_breakdown_of branches = fold (\<lambda>r. bt_entry (ib_step r) [] (\<lambda>bs. bs @ [(ib_branch r, ib_count r)])) branches []"

definition kind_totals :: "error_kind_row list \<Rightarrow> (string, nat) btree_map" where
  "kind_totals kinds = fold (\<lambda>r. bt_entry (ek_kind r) 0 (\<lambda>c. c + ek_count r)) kinds []"

definition error_kinds_rolled :: "error_kind_row list \<Rightarrow> (string \<times> nat) list" where
  "error_kinds_rolled kinds = sort_key (\<lambda>(k, n). (- int n, k)) (kind_totals kinds)"

definition phase_stats_of :: "'h hist_api \<Rightarrow> 'h \<times> nat \<Rightarrow> phase_stats" where
  "phase_stats_of H = (\<lambda>(h, n). \<lparr>pst_count = n, pst_pct = percentiles_of H h, pst_max_ms = hh_max H h div 1000\<rparr>)"

definition add_hist :: "'h hist_api \<Rightarrow> string \<Rightarrow> nat \<Rightarrow> 'h \<times> nat \<Rightarrow> 'h \<times> nat" where
  "add_hist H bytes n = (\<lambda>(h, c). (case decode_hdr H bytes of None \<Rightarrow> h | Some d \<Rightarrow> hh_merge H h d, c + n))"

definition phase_by_step :: "'h hist_api \<Rightarrow> string \<Rightarrow> phase_row list \<Rightarrow> (string, 'h \<times> nat) btree_map" where
  "phase_by_step H name phase_list =
     fold (\<lambda>p. bt_entry (pr_step p) (hh_new H, 0) (add_hist H (pr_hdr p) (pr_count p)))
       (filter (\<lambda>p. pr_phase p = name) phase_list) []"

definition phase_overall :: "'h hist_api \<Rightarrow> string \<Rightarrow> phase_row list \<Rightarrow> 'h \<times> nat" where
  "phase_overall H name phase_list =
     fold (\<lambda>p. add_hist H (pr_hdr p) (pr_count p)) (filter (\<lambda>p. pr_phase p = name) phase_list) (hh_new H, 0)"

definition connection_of :: "'h hist_api \<Rightarrow> nat \<Rightarrow> phase_row list \<Rightarrow> connection_stats option" where
  "connection_of H requests phase_list =
     (let dns = phase_overall H ''dns'' phase_list; con = phase_overall H ''connect'' phase_list in
      if 0 < snd con \<or> 0 < snd dns then
        Some \<lparr>cs_dns = phase_stats_of H dns, cs_connect = phase_stats_of H con, cs_opened = snd con,
              cs_requests = requests,
              cs_reuse = (if requests = 0 then 0
                else f64_sub (f64_of_nat 1) (f64_div (f64_of_nat (snd con)) (f64_of_nat requests)))\<rparr>
      else None)"

definition report_steps ::
  "'h hist_api \<Rightarrow> 'h report_acc \<Rightarrow> loop_row list \<Rightarrow> phase_row list \<Rightarrow> report_step list"
where
  "report_steps H a loops phase_list =
     sort_key rs_id (map (\<lambda>(sid, n, e, d).
       \<lparr>rs_id = sid, rs_count = n, rs_errors = e, rs_status = d, rs_pct = pct_opt H (bt_get (ra_step_hist a) sid),
        rs_loops = unwrap_or [] (bt_get (loops_by_step loops) sid),
        rs_download = map_option (phase_stats_of H) (bt_get (phase_by_step H ''download'' phase_list) sid),
        rs_wait = map_option (phase_stats_of H) (bt_get (phase_by_step H ''wait'' phase_list) sid)\<rparr>) (ra_step_counts a))"

definition duration_ms :: "run_row \<Rightarrow> int" where
  "duration_ms run = unwrap_or 0 (rr_ended_at run) - unwrap_or 0 (rr_started_at run)"

definition summary_of :: "'h hist_api \<Rightarrow> run_row \<Rightarrow> 'h report_acc \<Rightarrow> report_summary" where
  "summary_of H run a =
     (let ms = duration_ms run; p = percentiles_of H (ra_overall a) in
      \<lparr>sm_count = ra_count a, sm_errors = ra_errors a,
       sm_rps = (if 0 < ms then f64_div (f64_mul (f64_of_nat (ra_count a)) (f64_of_nat 1000)) (f64_of_nat (nat ms)) else 0),
       sm_duration_seconds = (if ms < 0 then - (- ms div 1000) else ms div 1000),
       sm_mean_ms = f64_round_u64 (f64_div (hh_mean H (ra_overall a)) (f64_of_nat 1000)),
       sm_p50 = pc_p50 p, sm_p95 = pc_p95 p, sm_p99 = pc_p99 p\<rparr>)"

definition verdict_of ::
  "run_row \<Rightarrow> report_summary \<Rightarrow> (string, nat) btree_map \<Rightarrow> report_window list \<Rightarrow> report_step list \<Rightarrow> verdict option"
where
  "verdict_of run s d windows steps =
     (case (rr_status run, pf_criteria (rr_profile run)) of
        (Completed, Some c) \<Rightarrow>
          if has_any c then
            (let v = evaluate_criteria c s d windows steps in if vd_criteria v = [] then None else Some v)
          else None
      | _ \<Rightarrow> None)"

definition group_acc :: "'h hist_api \<Rightarrow> group_row list \<Rightarrow> (string \<times> string, 'h \<times> nat) btree_map" where
  "group_acc H groups =
     fold (\<lambda>g. bt_entry (gr_step g, gr_branch g) (hh_new H, 0) (add_hist H (gr_hdr g) (gr_count g))) groups []"

definition group_latency_of :: "'h hist_api \<Rightarrow> group_row list \<Rightarrow> group_latency list" where
  "group_latency_of H groups =
     (let acc = group_acc H groups in
      map (\<lambda>((sid, _), s). \<lparr>gl_id = sid, gl_stats = phase_stats_of H s,
             gl_branches = map (\<lambda>((_, b), s). (b, phase_stats_of H s)) (filter (\<lambda>((sid', b), _). sid' = sid \<and> b \<noteq> []) acc)\<rparr>)
        (filter (\<lambda>((_, b), _). b = []) acc))"

definition active_by_worker :: "active_vu_row list \<Rightarrow> (string \<times> (int \<times> nat \<times> nat) list) list" where
  "active_by_worker rows =
     (let by = fold (\<lambda>r. bt_entry (ar_worker r) [] (\<lambda>s. s @ [(ar_ts r, as_u32 (ar_desired r), as_u32 (ar_actual r))]))
            (filter (\<lambda>r. ar_worker r \<noteq> []) rows) []
      in if 2 \<le> length by then by else [])"

definition build_report ::
  "'h hist_api \<Rightarrow> run_row \<Rightarrow> metric_row list \<Rightarrow> loop_row list \<Rightarrow> if_branch_row list \<Rightarrow> group_row list \<Rightarrow> phase_row list
     \<Rightarrow> active_vu_row list \<Rightarrow> active_vu_row list \<Rightarrow> error_kind_row list \<Rightarrow> report"
where
  "build_report H run rows loops branches groups phase_list series active_workers kinds =
     (let a = accumulate H rows; windows = report_windows H a; steps = report_steps H a loops phase_list;
          s = summary_of H run a
      in \<lparr>rp_summary = s, rp_windows = windows, rp_steps = steps, rp_status = ra_status a,
          rp_if = if_breakdown_of branches, rp_kinds = error_kinds_rolled kinds,
          rp_verdict = verdict_of run s (ra_status a) windows steps,
          rp_dropped = i64_as_u64 (rr_dropped run),
          rp_latency = (if hh_len H (ra_overall a) = 0 then None
             else Some (percentile_curve H (ra_overall a) curve_quantiles, log_buckets H (ra_overall a) histogram_bins)),
          rp_groups = group_latency_of H groups,
          rp_active = map (\<lambda>r. (ar_ts r, as_u32 (ar_desired r), as_u32 (ar_actual r))) series,
          rp_active_workers = active_by_worker active_workers,
          rp_workers = map (\<lambda>(w, k). \<lparr>wb_worker = w, wb_count = wk_count k, wb_errors = wk_errors k,
             wb_pct = pct_opt H (wk_hist k)\<rparr>) (ra_workers a),
          rp_connection = connection_of H (ra_count a) phase_list\<rparr>)"

text \<open>The run's windows merged over the workers, without percentiles.\<close>

record window_summary =
  ws_ts :: int
  ws_step :: string
  ws_count :: nat
  ws_errors :: nat
  ws_status :: "(string, nat) hash_map"

definition metric_summary :: "metrics_db \<Rightarrow> string \<Rightarrow> window_summary list" where
  "metric_summary md r =
     map snd (fold (\<lambda>x. bt_entry (mr_ts x, mr_step x)
         \<lparr>ws_ts = mr_ts x, ws_step = mr_step x, ws_count = 0, ws_errors = 0, ws_status = []\<rparr>
         (\<lambda>w. w\<lparr>ws_count := ws_count w + mr_count x, ws_errors := ws_errors w + mr_errors x,
                ws_status := fold (\<lambda>(k, v) m. hm_put k (unwrap_or 0 (hm_get m k) + v) m) (mr_status x) (ws_status w)\<rparr>))
       (sort_key (\<lambda>x. (mr_ts x, mr_step x)) (filter (\<lambda>x. mr_run x = r) (md_windows md))) [])"

definition build_report_for_run :: "'h hist_api \<Rightarrow> metrics_db \<times> run_row list \<Rightarrow> string \<Rightarrow> report option" where
  "build_report_for_run H st r = (case st of (md, db) \<Rightarrow>
     map_option (\<lambda>run. build_report H run (windows_with_hdr md r) (loop_breakdown md r) (if_breakdown md r)
         (group_breakdown md r) (phase_breakdown md r) (active_vu_series md r)
         (if is_vu_curve (rr_profile run) then active_vu_by_worker md r else []) (error_kind_breakdown md r))
       (run_get db r))"

end
