(* ===== verification/Report_Props.thy ===== *)
theory Report_Props
  imports Report
begin

text \<open>
  What a report promises: its totals, windows, steps and workers account for every metric row once,
  and a verdict is the conjunction of the thresholds the criteria set.
\<close>

subsection \<open>Sums over an ordered map\<close>

lemma bt_ok_entry [simp, intro]: "bt_ok m \<Longrightarrow> bt_ok (bt_entry k d f m)"
  by (simp add: bt_entry_def)

lemma bt_get_entry [simp]:
  "bt_get (bt_entry k d f m) k' = (if k' = k then Some (f (unwrap_or d (bt_get m k))) else bt_get m k')"
  by (simp add: bt_entry_def)

lemma bt_sum_insert:
  "bt_ok m \<Longrightarrow>
   (\<Sum>p\<leftarrow>bt_insert k v m. g (snd p)) + (case bt_get m k of None \<Rightarrow> 0 | Some w \<Rightarrow> g w) = (\<Sum>p\<leftarrow>m. g (snd p)) + (g v :: nat)"
proof (induction k v m rule: bt_insert.induct)
  case (1 k v)
  then show ?case by (simp add: bt_get_def)
next
  case (2 k v a b m)
  have tl: "bt_ok m" and hd: "\<forall>x \<in> fst ` set m. a < x" using 2 by (simp_all add: bt_ok_Cons)
  show ?case
  proof (cases "k < a")
    case True
    have "\<forall>x \<in> fst ` set m. k < x" using hd True by (meson less_trans)
    then have "k \<notin> fst ` set m" by (meson less_irrefl)
    then have "k \<notin> fst ` set ((a, b) # m)" using less_imp_neq [OF True] by (simp only: list.set image_insert fst_conv insert_iff) simp
    then have none: "bt_get ((a, b) # m) k = None" by (rule contrapos_np) (simp only: bt_get_dom)
    show ?thesis by (simp only: none option.case bt_insert.simps True if_True) simp
  next
    case False
    with 2 tl show ?thesis by (cases "k = a") (auto simp: bt_get_def)
  qed
qed

lemma bt_sum_entry:
  assumes ok: "bt_ok m" and step: "\<And>v. g (f v) = g v + (n :: nat)" and zero: "g d = 0"
  shows "(\<Sum>p\<leftarrow>bt_entry k d f m. g (snd p)) = (\<Sum>p\<leftarrow>m. g (snd p)) + n"
  using bt_sum_insert [OF ok, of g k "f (unwrap_or d (bt_get m k))"] step zero
  by (auto simp: bt_entry_def unwrap_or_def split: option.splits)

definition tally :: "(string, nat) btree_map \<Rightarrow> string \<Rightarrow> nat" where
  "tally m k = unwrap_or 0 (bt_get m k)"

definition entries_sum :: "(string \<times> nat) list \<Rightarrow> string \<Rightarrow> nat" where
  "entries_sum kvs k = (\<Sum>p\<leftarrow>kvs. if fst p = k then snd p else 0)"

lemma tally_Nil [simp]: "tally [] k = 0"
  by (simp add: tally_def bt_get_def unwrap_or_def)

lemma tally_add_status: "tally (add_status into src) k = tally into k + entries_sum src k"
  unfolding add_status_def
  by (induction src arbitrary: into)
    (auto simp: tally_def entries_sum_def unwrap_or_def split: option.splits)

subsection \<open>The accumulator\<close>

definition rows_count :: "metric_row list \<Rightarrow> nat" where "rows_count rows = (\<Sum>r\<leftarrow>rows. mr_count r)"
definition rows_errors :: "metric_row list \<Rightarrow> nat" where "rows_errors rows = (\<Sum>r\<leftarrow>rows. mr_errors r)"
definition rows_status :: "metric_row list \<Rightarrow> string \<Rightarrow> nat" where
  "rows_status rows k = (\<Sum>r\<leftarrow>rows. entries_sum (mr_status r) k)"

abbreviation "wsum g a \<equiv> (\<Sum>p\<leftarrow>ra_windows a. g (snd p))"
abbreviation "ssum g a \<equiv> (\<Sum>p\<leftarrow>ra_step_counts a. g (snd p))"
abbreviation "ksum g a \<equiv> (\<Sum>p\<leftarrow>ra_workers a. g (snd p))"

definition acc_ok :: "'h report_acc \<Rightarrow> bool" where
  "acc_ok a \<longleftrightarrow> bt_ok (ra_windows a) \<and> bt_ok (ra_step_counts a) \<and> bt_ok (ra_workers a)"

lemma add_row_ok: "acc_ok a \<Longrightarrow> acc_ok (add_row H mw r a)"
  by (simp add: acc_ok_def add_row_def Let_def)

lemma add_row_windows:
  assumes "acc_ok a"
  shows "wsum wa_count (add_row H mw r a) = wsum wa_count a + mr_count r"
    "wsum wa_errors (add_row H mw r a) = wsum wa_errors a + mr_errors r"
    "wsum (\<lambda>w. tally (wa_status w) k) (add_row H mw r a)
       = wsum (\<lambda>w. tally (wa_status w) k) a + entries_sum (mr_status r) k"
  using assms by (auto simp: acc_ok_def add_row_def Let_def tally_add_status intro!: bt_sum_entry)

lemma add_row_steps:
  assumes "acc_ok a"
  shows "ssum fst (add_row H mw r a) = ssum fst a + mr_count r"
    "ssum (\<lambda>s. fst (snd s)) (add_row H mw r a) = ssum (\<lambda>s. fst (snd s)) a + mr_errors r"
    "ssum (\<lambda>s. tally (snd (snd s)) k) (add_row H mw r a)
       = ssum (\<lambda>s. tally (snd (snd s)) k) a + entries_sum (mr_status r) k"
  using assms by (auto simp: acc_ok_def add_row_def Let_def tally_add_status split: prod.splits intro!: bt_sum_entry)

lemma add_row_workers:
  assumes "acc_ok a"
  shows "ksum wk_count (add_row H mw r a) = ksum wk_count a + (if mw \<and> mr_worker r \<noteq> [] then mr_count r else 0)"
    "ksum wk_errors (add_row H mw r a) = ksum wk_errors a + (if mw \<and> mr_worker r \<noteq> [] then mr_errors r else 0)"
  using assms by (auto simp: acc_ok_def add_row_def Let_def intro!: bt_sum_entry)

lemma add_row_totals:
  "ra_count (add_row H mw r a) = ra_count a + mr_count r"
  "ra_errors (add_row H mw r a) = ra_errors a + mr_errors r"
  "tally (ra_status (add_row H mw r a)) k = tally (ra_status a) k + entries_sum (mr_status r) k"
  by (simp_all add: add_row_def Let_def tally_add_status)

lemmas add_row_facts = add_row_windows add_row_steps add_row_workers

lemma fold_sum:
  assumes "\<And>r a. P a \<Longrightarrow> P (f r a)" "\<And>r a. P a \<Longrightarrow> g (f r a) = g a + (n r :: nat)"
  shows "P a \<Longrightarrow> g (fold f rs a) = g a + (\<Sum>r\<leftarrow>rs. n r)"
  by (induction rs arbitrary: a) (simp_all add: assms)

lemma fold_inv: "(\<And>r a. P a \<Longrightarrow> P (f r a)) \<Longrightarrow> P a \<Longrightarrow> P (fold f rs a)"
  by (induction rs arbitrary: a) simp_all

lemma acc_new_ok: "acc_ok (acc_new H)"
  by (simp add: acc_ok_def acc_new_def)

lemma accumulate_ok: "acc_ok (accumulate H rows)"
  unfolding accumulate_def by (rule fold_inv [of acc_ok, OF add_row_ok acc_new_ok])

lemma accumulate_sum:
  assumes "\<And>r a. acc_ok a \<Longrightarrow> g (add_row H (multi_worker rows) r a) = g a + (n r :: nat)" "g (acc_new H) = 0"
  shows "g (accumulate H rows) = (\<Sum>r\<leftarrow>rows. n r)"
  unfolding accumulate_def
  using fold_sum [of acc_ok "add_row H (multi_worker rows)" g n, OF add_row_ok assms(1) acc_new_ok] assms(2)
  by simp

lemma accumulate_totals:
  "ra_count (accumulate H rows) = rows_count rows"
  "ra_errors (accumulate H rows) = rows_errors rows"
  "tally (ra_status (accumulate H rows)) k = rows_status rows k"
  unfolding rows_count_def rows_errors_def rows_status_def
  by (rule accumulate_sum; simp add: add_row_totals acc_new_def)+

lemma accumulate_windows:
  "wsum wa_count (accumulate H rows) = rows_count rows"
  "wsum wa_errors (accumulate H rows) = rows_errors rows"
  "wsum (\<lambda>w. tally (wa_status w) k) (accumulate H rows) = rows_status rows k"
  unfolding rows_count_def rows_errors_def rows_status_def
  by (rule accumulate_sum; simp add: add_row_facts; simp add: acc_new_def)+

lemma accumulate_steps:
  "ssum fst (accumulate H rows) = rows_count rows"
  "ssum (\<lambda>s. fst (snd s)) (accumulate H rows) = rows_errors rows"
  "ssum (\<lambda>s. tally (snd (snd s)) k) (accumulate H rows) = rows_status rows k"
  unfolding rows_count_def rows_errors_def rows_status_def
  by (rule accumulate_sum; simp add: add_row_facts; simp add: acc_new_def)+

lemma accumulate_workers:
  "ksum wk_count (accumulate H rows)
     = (if multi_worker rows then rows_count (filter (\<lambda>r. mr_worker r \<noteq> []) rows) else 0)"
  "ksum wk_errors (accumulate H rows)
     = (if multi_worker rows then rows_errors (filter (\<lambda>r. mr_worker r \<noteq> []) rows) else 0)"
proof -
  have flt: "(\<Sum>r\<leftarrow>rows. if b \<and> mr_worker r \<noteq> [] then n r else 0)
      = (if b then \<Sum>r\<leftarrow>filter (\<lambda>r. mr_worker r \<noteq> []) rows. n r else 0)" for b and n :: "metric_row \<Rightarrow> nat"
    by (induction rows) auto
  have "ksum wk_count (accumulate H rows) = (\<Sum>r\<leftarrow>rows. if multi_worker rows \<and> mr_worker r \<noteq> [] then mr_count r else 0)"
    by (rule accumulate_sum) (simp_all only: add_row_workers, simp add: acc_new_def)
  then show "ksum wk_count (accumulate H rows)
     = (if multi_worker rows then rows_count (filter (\<lambda>r. mr_worker r \<noteq> []) rows) else 0)"
    by (simp only: flt rows_count_def)
  have "ksum wk_errors (accumulate H rows) = (\<Sum>r\<leftarrow>rows. if multi_worker rows \<and> mr_worker r \<noteq> [] then mr_errors r else 0)"
    by (rule accumulate_sum) (simp_all only: add_row_workers, simp add: acc_new_def)
  then show "ksum wk_errors (accumulate H rows)
     = (if multi_worker rows then rows_errors (filter (\<lambda>r. mr_worker r \<noteq> []) rows) else 0)"
    by (simp only: flt rows_errors_def)
qed

subsection \<open>The report\<close>

lemma rp_fields:
  "rp_summary (build_report H run rows l b g p av aw k) = summary_of H run (accumulate H rows)"
  "rp_windows (build_report H run rows l b g p av aw k) = report_windows H (accumulate H rows)"
  "rp_steps (build_report H run rows l b g p av aw k) = report_steps H (accumulate H rows) l p"
  "rp_status (build_report H run rows l b g p av aw k) = ra_status (accumulate H rows)"
  "rp_workers (build_report H run rows l b g p av aw k) = map (\<lambda>(w, x). \<lparr>wb_worker = w, wb_count = wk_count x,
     wb_errors = wk_errors x, wb_pct = pct_opt H (wk_hist x)\<rparr>) (ra_workers (accumulate H rows))"
  by (simp_all add: build_report_def Let_def)

lemma windows_sum:
  "(\<Sum>w\<leftarrow>report_windows H a. rw_count w) = wsum wa_count a"
  "(\<Sum>w\<leftarrow>report_windows H a. rw_error_count w) = wsum wa_errors a"
  "(\<Sum>w\<leftarrow>report_windows H a. tally (rw_status w) k) = wsum (\<lambda>w. tally (wa_status w) k) a"
  by (simp_all add: report_windows_def comp_def split_beta)

lemma sum_list_sort_key: "(\<Sum>x\<leftarrow>sort_key f xs. g x) = (\<Sum>x\<leftarrow>xs. g x :: nat)"
  by (metis mset_map mset_sort sum_mset_sum_list)

lemma steps_sum:
  "(\<Sum>s\<leftarrow>report_steps H a l p. rs_count s) = ssum fst a"
  "(\<Sum>s\<leftarrow>report_steps H a l p. rs_errors s) = ssum (\<lambda>s. fst (snd s)) a"
  "(\<Sum>s\<leftarrow>report_steps H a l p. tally (rs_status s) k) = ssum (\<lambda>s. tally (snd (snd s)) k) a"
  by (simp_all add: report_steps_def sum_list_sort_key comp_def split_beta)

lemma steps_sorted: "acc_ok a \<Longrightarrow> sorted_wrt (<) (map rs_id (report_steps H a l p))"
proof -
  assume "acc_ok a"
  then have strict: "sorted_wrt (<) (map fst (ra_step_counts a))" by (simp add: acc_ok_def bt_ok_def)
  define xs where "xs = map (\<lambda>(sid, n, e, d).
       \<lparr>rs_id = sid, rs_count = n, rs_errors = e, rs_status = d, rs_pct = pct_opt H (bt_get (ra_step_hist a) sid),
        rs_loops = unwrap_or [] (bt_get (loops_by_step l) sid),
        rs_download = map_option (phase_stats_of H) (bt_get (phase_by_step H ''download'' p) sid),
        rs_wait = map_option (phase_stats_of H) (bt_get (phase_by_step H ''wait'' p) sid)\<rparr>) (ra_step_counts a)"
  have ids: "map rs_id xs = map fst (ra_step_counts a)" by (simp add: xs_def split_beta comp_def)
  then have "sorted (map rs_id xs)" using strict by (simp add: strict_sorted_imp_sorted)
  then have "report_steps H a l p = xs" by (simp add: report_steps_def xs_def sort_key_id_if_sorted)
  with ids strict show ?thesis by simp
qed

lemma windows_sorted: "acc_ok a \<Longrightarrow> sorted_wrt (<) (map (\<lambda>w. (rw_ts w, rw_step w)) (report_windows H a))"
proof -
  assume "acc_ok a"
  then have "sorted_wrt (<) (map fst (ra_windows a))" by (simp add: acc_ok_def bt_ok_def)
  moreover have "map (\<lambda>w. (rw_ts w, rw_step w)) (report_windows H a) = map fst (ra_windows a)"
    by (simp add: report_windows_def split_beta comp_def)
  ultimately show ?thesis by simp
qed

text \<open>
  C16: The report accounts for every metric row of the run exactly once, in each of its views: the
  request and error totals of the summary, of the windows and of the steps are the sums over the
  rows, so is every status count in the run's distribution, the windows and the steps; with two or
  more workers the per-worker table adds up to the rows that carry a worker id, otherwise it is
  empty. Windows come in strictly ascending (second, step) order, steps in ascending id order,
  neither with duplicates.
\<close>

theorem report_totals_correct:
  fixes H run rows l b g p av aw k
  defines "rp \<equiv> build_report H run rows l b g p av aw k"
  shows "sm_count (rp_summary rp) = rows_count rows \<and> sm_errors (rp_summary rp) = rows_errors rows
    \<and> (\<Sum>w\<leftarrow>rp_windows rp. rw_count w) = rows_count rows \<and> (\<Sum>w\<leftarrow>rp_windows rp. rw_error_count w) = rows_errors rows
    \<and> (\<Sum>s\<leftarrow>rp_steps rp. rs_count s) = rows_count rows \<and> (\<Sum>s\<leftarrow>rp_steps rp. rs_errors s) = rows_errors rows
    \<and> (\<forall>c. tally (rp_status rp) c = rows_status rows c
         \<and> (\<Sum>w\<leftarrow>rp_windows rp. tally (rw_status w) c) = rows_status rows c
         \<and> (\<Sum>s\<leftarrow>rp_steps rp. tally (rs_status s) c) = rows_status rows c)
    \<and> (\<Sum>w\<leftarrow>rp_workers rp. wb_count w)
         = (if multi_worker rows then rows_count (filter (\<lambda>r. mr_worker r \<noteq> []) rows) else 0)
    \<and> (\<Sum>w\<leftarrow>rp_workers rp. wb_errors w)
         = (if multi_worker rows then rows_errors (filter (\<lambda>r. mr_worker r \<noteq> []) rows) else 0)
    \<and> sorted_wrt (<) (map (\<lambda>w. (rw_ts w, rw_step w)) (rp_windows rp))
    \<and> sorted_wrt (<) (map rs_id (rp_steps rp))"
proof -
  have w: "(\<Sum>w\<leftarrow>rp_workers rp. wb_count w) = ksum wk_count (accumulate H rows)"
    "(\<Sum>w\<leftarrow>rp_workers rp. wb_errors w) = ksum wk_errors (accumulate H rows)"
    by (simp_all add: rp_def rp_fields split_beta comp_def)
  show ?thesis
    by (intro conjI allI)
      (simp_all add: w accumulate_workers, simp_all add: rp_def rp_fields summary_of_def Let_def accumulate_totals
        windows_sum steps_sum accumulate_windows accumulate_steps windows_sorted steps_sorted accumulate_ok)
qed

subsection \<open>Redelivered batches\<close>

definition deliver :: "(nat \<Rightarrow> bool) \<Rightarrow> metric_batch list \<Rightarrow> metrics_db \<times> run_row list \<Rightarrow> metrics_db \<times> run_row list" where
  "deliver ok bs st = fold (ingest_metrics ok) bs st"

lemma deliver_windows:
  "ok 0 \<Longrightarrow> md_windows (fst (deliver ok bs st))
     = fold (upsert window_key (\<lambda>x r. x)) (concat (map window_rows bs)) (md_windows (fst st))"
proof (induction bs arbitrary: st)
  case (Cons b bs)
  have "md_windows (fst (ingest_metrics ok b st)) = fold (upsert window_key (\<lambda>x r. x)) (window_rows b) (md_windows (fst st))"
    using Cons.prems by (simp add: ingest_metrics_def insert_batch_def split_beta)
  with Cons.IH [OF Cons.prems, of "ingest_metrics ok b st"] show ?case by (simp add: deliver_def)
qed (simp add: deliver_def)

lemma firsts_subset: "set (firsts key seen rs) \<subseteq> set rs"
  by (induction rs arbitrary: seen) auto

lemma firsts_keys: "key ` set (firsts key seen rs) = key ` set rs - set seen"
  by (induction rs arbitrary: seen) auto

lemma firsts_distinct_keys: "distinct (map key (firsts key seen rs))"
proof (induction rs arbitrary: seen)
  case (Cons r rs)
  have "key r \<notin> key ` set (firsts key (key r # seen) rs)" by (simp add: firsts_keys)
  with Cons show ?case by (simp add: image_iff)
qed simp

text \<open>When a key determines its row, the table ends with exactly the rows sent.\<close>

lemma firsts_mset:
  assumes "distinct (map key rs)" "set rs' = set rs"
  shows "mset (firsts key [] rs') = mset rs"
proof -
  have inj: "inj_on key (set rs)" and d: "distinct rs" using assms(1) by (simp_all add: distinct_map)
  have d': "distinct (firsts key [] rs')" using firsts_distinct_keys [of key "[]" rs'] by (simp add: distinct_map)
  have "set (firsts key [] rs') = set rs"
  proof (rule inj_on_image_eq_iff [THEN iffD1, OF inj])
    show "set (firsts key [] rs') \<subseteq> set rs" using firsts_subset [of key "[]" rs'] assms(2) by simp
    show "key ` set (firsts key [] rs') = key ` set rs" using firsts_keys [of key "[]" rs'] assms(2) by simp
  qed simp
  with d d' show ?thesis by (simp add: set_eq_iff_mset_eq_distinct)
qed

lemma deliver_mset:
  assumes "distinct (map window_key (concat (map window_rows bs)))" "set bs' = set bs" "ok 0"
  shows "mset (md_windows (fst (deliver ok bs' (metrics_empty, db)))) = mset (concat (map window_rows bs))"
proof -
  have "set (concat (map window_rows bs')) = set (concat (map window_rows bs))" using assms(2) by simp
  from firsts_mset [OF assms(1) this] show ?thesis
    using assms(3) by (simp add: deliver_windows fold_insert_first metrics_empty_def)
qed

lemma windows_with_hdr_mset: "mset (windows_with_hdr md r) = filter_mset (\<lambda>x. mr_run x = r) (mset (md_windows md))"
  by (simp add: windows_with_hdr_def)

lemma rows_count_mset: "mset rows = mset rows' \<Longrightarrow> rows_count rows = rows_count rows'"
  unfolding rows_count_def by (metis mset_map sum_mset_sum_list)

lemma rows_errors_mset: "mset rows = mset rows' \<Longrightarrow> rows_errors rows = rows_errors rows'"
  unfolding rows_errors_def by (metis mset_map sum_mset_sum_list)

definition batch_requests :: "string \<Rightarrow> metric_batch list \<Rightarrow> nat" where
  "batch_requests r bs = (\<Sum>b\<leftarrow>bs. if mb_run b = r then (\<Sum>w\<leftarrow>mb_windows b. pw_count w) else 0)"

lemma batch_requests_rows: "batch_requests r bs = rows_count (filter (\<lambda>x. mr_run x = r) (concat (map window_rows bs)))"
proof (induction bs)
  case (Cons b bs)
  have "rows_count (filter (\<lambda>x. mr_run x = r) (window_rows b)) = (if mb_run b = r then (\<Sum>w\<leftarrow>mb_windows b. pw_count w) else 0)"
    by (induction "mb_windows b") (auto simp: window_rows_def rows_count_def comp_def filter_map)
  with Cons show ?case by (simp add: batch_requests_def rows_count_def)
qed (simp add: batch_requests_def rows_count_def)

lemma run_get_add_dropped: "run_get (add_dropped n i db) r = None \<longleftrightarrow> run_get db r = None"
  by (induction db) (auto simp: run_get_def add_dropped_def update_where_def)

lemma deliver_run: "run_get (snd (deliver ok bs st)) r = None \<longleftrightarrow> run_get (snd st) r = None"
  unfolding deliver_def
  by (induction bs arbitrary: st) (simp_all add: ingest_metrics_def split_beta run_get_add_dropped)

text \<open>
  C17: Request counts survive at-least-once delivery: when the batches of a run (with pairwise distinct
  window keys) reach the controller in any order and any of them any number of times, the run's
  report counts every request exactly once, in its summary and in its windows.
\<close>

theorem report_counts_once:
  assumes "distinct (map window_key (concat (map window_rows bs)))" "set bs' = set bs" "ok 0" "run_get db r \<noteq> None"
  shows "\<exists>rp. build_report_for_run H (deliver ok bs' (metrics_empty, db)) r = Some rp
    \<and> sm_count (rp_summary rp) = batch_requests r bs \<and> (\<Sum>w\<leftarrow>rp_windows rp. rw_count w) = batch_requests r bs"
proof -
  obtain md db' where st: "deliver ok bs' (metrics_empty, db) = (md, db')" by fastforce
  have "run_get db' r \<noteq> None" using deliver_run [of ok bs' "(metrics_empty, db)" r] assms(4) st by simp
  then obtain run where run: "run_get db' r = Some run" by blast
  have "mset (windows_with_hdr md r) = mset (filter (\<lambda>x. mr_run x = r) (concat (map window_rows bs)))"
    using deliver_mset [of bs bs' ok db, OF assms(1,2,3)] st by (simp add: windows_with_hdr_mset)
  from rows_count_mset [OF this] have "rows_count (windows_with_hdr md r) = batch_requests r bs"
    by (simp only: batch_requests_rows)
  then show ?thesis
    by (simp add: build_report_for_run_def st run rp_fields summary_of_def Let_def accumulate_totals
      windows_sum accumulate_windows)
qed

subsection \<open>Verdicts\<close>

lemma f64_of_nat_finite: "\<not> f64_is_nan (f64_of_nat n)"
proof -
  have "round_mag n 1 \<le> f64_inf_mag" by (simp add: round_mag_def Let_def f64_inf_mag_def)
  moreover have "f64_inf_mag < 2 ^ 63" by (simp add: f64_inf_mag_def)
  ultimately show ?thesis by (simp add: f64_is_nan_def f64_of_nat_def f64_mag_of_mag)
qed

lemma f64_le_min:
  "\<not> f64_is_nan a \<Longrightarrow> \<not> f64_is_nan b \<Longrightarrow>
   f64_le t (if f64_lt b a then b else a) \<longleftrightarrow> f64_le t a \<and> f64_le t b"
  by (auto simp: f64_le_def f64_lt_def)

lemma f64_le_fold_min:
  "\<not> f64_is_nan a \<Longrightarrow> \<forall>x \<in> set xs. \<not> f64_is_nan x \<Longrightarrow>
   f64_le t (foldl (\<lambda>a b. if f64_lt b a then b else a) a xs) \<longleftrightarrow> f64_le t a \<and> (\<forall>x \<in> set xs. f64_le t x)"
proof (induction xs arbitrary: a)
  case (Cons x xs)
  then have n: "\<not> f64_is_nan (if f64_lt x a then x else a)" and x: "\<not> f64_is_nan x" by auto
  from Cons.IH [OF n] Cons.prems f64_le_min [OF Cons.prems(1) x, of t] show ?case by auto
qed simp

lemma f64_min_by_le:
  "\<forall>x \<in> set xs. \<not> f64_is_nan x \<Longrightarrow> pred_option (f64_le t) (f64_min_by xs) \<longleftrightarrow> (\<forall>x \<in> set xs. f64_le t x)"
  by (cases xs) (auto simp: f64_le_fold_min)

definition second_total :: "report_window list \<Rightarrow> int \<Rightarrow> nat" where
  "second_total ws ts = (\<Sum>w\<leftarrow>ws. if rw_ts w = ts then rw_count w else 0)"

lemma by_sec:
  fixes m ws
  assumes "bt_ok m"
  defines "m' \<equiv> fold (\<lambda>w. bt_entry (rw_ts w) 0 (\<lambda>c. c + rw_count w)) ws m"
  shows "bt_ok m' \<and> fst ` set m' = fst ` set m \<union> rw_ts ` set ws
    \<and> unwrap_or 0 (bt_get m' ts) = unwrap_or 0 (bt_get m ts) + second_total ws ts"
  unfolding m'_def using assms(1)
proof (induction ws arbitrary: m)
  case (Cons w ws)
  have ok: "bt_ok (bt_entry (rw_ts w) 0 (\<lambda>c. c + rw_count w) m)" using Cons.prems by simp
  have keys: "fst ` set (bt_entry (rw_ts w) 0 (\<lambda>c. c + rw_count w) m) = insert (rw_ts w) (fst ` set m)"
    by (simp add: bt_entry_def bt_insert_keys)
  have get: "unwrap_or 0 (bt_get (bt_entry (rw_ts w) 0 (\<lambda>c. c + rw_count w) m) ts)
      = unwrap_or 0 (bt_get m ts) + (if rw_ts w = ts then rw_count w else 0)"
    by (simp add: unwrap_or_def)
  from Cons.IH [OF ok] show ?case by (simp only: fold.simps comp_def keys get) (simp add: second_total_def)
qed (simp add: second_total_def)

lemma sorted_ends:
  assumes "sorted_wrt (<) (map fst m)" "m = (a, b) # m'" "ts \<in> fst ` set m"
  shows "a \<le> ts \<and> ts \<le> (fst (last m) :: int)"
proof -
  have a: "a \<le> ts" using assms by auto
  have "sorted (map fst m)" using assms(1) by (rule strict_sorted_imp_sorted)
  moreover have "map fst m \<noteq> []" "ts \<in> set (map fst m)" using assms(2,3) by auto
  ultimately have "ts \<le> last (map fst m)"
    by (metis in_set_conv_nth last_conv_nth sorted_nth_mono diff_less length_greater_0_conv less_Suc_eq_le Suc_pred' zero_less_one)
  then show ?thesis using a assms(2) by (metis last_map list.distinct(1))
qed

definition steady :: "report_window list \<Rightarrow> nat \<Rightarrow> int \<Rightarrow> bool" where
  "steady ws warmup ts \<longleftrightarrow>
     list_ex (\<lambda>w. rw_ts w < ts) ws \<and> list_ex (\<lambda>w. ts < rw_ts w) ws \<and> list_ex (\<lambda>w. rw_ts w + int warmup \<le> ts) ws"

lemma min_window_rps_le:
  "pred_option (f64_le t) (min_window_rps_of ws warmup) \<longleftrightarrow>
   (\<forall>w \<in> set ws. steady ws warmup (rw_ts w) \<longrightarrow> f64_le t (f64_of_nat (second_total ws (rw_ts w))))"
proof -
  define m where "m = fold (\<lambda>w. bt_entry (rw_ts w) 0 (\<lambda>c. c + rw_count w)) ws []"
  have ok: "bt_ok m" and keys: "fst ` set m = rw_ts ` set ws"
    and tot: "unwrap_or 0 (bt_get m ts) = second_total ws ts" for ts
    using by_sec [of "[]" ws] by (simp_all add: m_def bt_get_def unwrap_or_def)
  show ?thesis
  proof (cases m)
    case Nil
    with keys have "ws = []" by simp
    then show ?thesis by (simp add: min_window_rps_of_def)
  next
    case (Cons e m')
    obtain a b where e: "e = (a, b)" by fastforce
    have srt: "sorted_wrt (<) (map fst m)" using ok by (simp add: bt_ok_def)
    have ends: "a \<le> rw_ts w \<and> rw_ts w \<le> fst (last m)" if "w \<in> set ws" for w
      using sorted_ends [OF srt, of a b m' "rw_ts w"] Cons e that keys by blast
    have a_in: "a \<in> rw_ts ` set ws" and z_in: "fst (last m) \<in> rw_ts ` set ws"
      using keys Cons e by (metis fst_conv image_eqI list.set_intros(1), metis image_eqI last_in_set list.distinct(1))
    have lt: "list_ex (\<lambda>w. rw_ts w < ts) ws \<longleftrightarrow> a < ts" for ts
      using ends a_in by (force simp: list_ex_iff)
    have gt: "list_ex (\<lambda>w. ts < rw_ts w) ws \<longleftrightarrow> ts < fst (last m)" for ts
      using ends z_in by (force simp: list_ex_iff)
    have warm: "list_ex (\<lambda>w. rw_ts w + int warmup \<le> ts) ws \<longleftrightarrow> a + int warmup \<le> ts" for ts
      using ends a_in by (force simp: list_ex_iff)
    have entry: "(ts, c) \<in> set m \<longleftrightarrow> ts \<in> rw_ts ` set ws \<and> c = second_total ws ts" for ts c
    proof -
      have d: "distinct (map fst m)" using srt by (simp add: strict_sorted_iff)
      show ?thesis
        using tot [of ts] keys map_of_eq_Some_iff [OF d, of ts c] map_of_eq_None_iff [of m ts]
        by (cases "map_of m ts") (auto simp: bt_get_def unwrap_or_def)
    qed
    have "min_window_rps_of ws warmup = f64_min_by (map (\<lambda>(_, c). f64_of_nat c)
        (filter (\<lambda>(ts, _). a < ts \<and> ts < fst (last m) \<and> a + int warmup \<le> ts) m))"
      using Cons e by (simp add: min_window_rps_of_def m_def Let_def)
    then have "pred_option (f64_le t) (min_window_rps_of ws warmup) \<longleftrightarrow>
        (\<forall>(ts, c) \<in> set m. a < ts \<and> ts < fst (last m) \<and> a + int warmup \<le> ts \<longrightarrow> f64_le t (f64_of_nat c))"
      using f64_min_by_le [of "map (\<lambda>(_, c). f64_of_nat c)
          (filter (\<lambda>(ts, _). a < ts \<and> ts < fst (last m) \<and> a + int warmup \<le> ts) m)" t]
      by (auto simp: f64_of_nat_finite)
    also have "\<dots> \<longleftrightarrow> (\<forall>w \<in> set ws. steady ws warmup (rw_ts w) \<longrightarrow> f64_le t (f64_of_nat (second_total ws (rw_ts w))))"
      by (force simp: entry steady_def lt gt warm)
    finally show ?thesis .
  qed
qed

text \<open>The criteria a run meets, on integers wherever the program compares integers.\<close>

abbreviation within :: "nat \<Rightarrow> nat option \<Rightarrow> bool" where "within n b \<equiv> pred_option (\<lambda>t. n \<le> t) b"
abbreviation at_most :: "f64 \<Rightarrow> f64 option \<Rightarrow> bool" where "at_most x b \<equiv> pred_option (f64_le x) b"

definition step_meets :: "report_step list \<Rightarrow> criterion \<Rightarrow> bool" where
  "step_meets steps sc =
     pred_option (\<lambda>st. rs_count st = 0 \<or> pred_option (\<lambda>x.
        if cr_op sc = ''min'' then f64_le (cr_threshold sc) x else f64_le x (cr_threshold sc))
        (step_actual st (cr_metric sc))) (find (\<lambda>s. rs_id s = cr_target sc) steps)"

definition meets :: "criteria \<Rightarrow> report \<Rightarrow> bool" where
  "meets c rp \<longleftrightarrow>
     within (sm_p50 (rp_summary rp)) (max_p50_ms c) \<and> within (sm_p95 (rp_summary rp)) (max_p95_ms c)
   \<and> within (sm_p99 (rp_summary rp)) (max_p99_ms c)
   \<and> within (status_class_count (rp_status rp) CHR ''4'') (max_4xx_count c)
   \<and> within (status_class_count (rp_status rp) CHR ''5'') (max_5xx_count c)
   \<and> at_most (ratio (sm_errors (rp_summary rp)) (sm_count (rp_summary rp))) (max_error_rate c)
   \<and> at_most (ratio (status_class_count (rp_status rp) CHR ''4'') (http_response_total (rp_status rp))) (max_4xx_rate c)
   \<and> at_most (ratio (status_class_count (rp_status rp) CHR ''5'') (http_response_total (rp_status rp))) (max_5xx_rate c)
   \<and> pred_option (\<lambda>t. f64_le t (sm_rps (rp_summary rp))) (min_rps c)
   \<and> pred_option (\<lambda>t. list_all (\<lambda>w. steady (rp_windows rp) (unwrap_or 0 (rps_warmup_seconds c)) (rw_ts w) \<longrightarrow>
        f64_le t (f64_of_nat (second_total (rp_windows rp) (rw_ts w)))) (rp_windows rp)) (min_window_rps c)
   \<and> list_all (step_meets (rp_steps rp)) (step_criteria c)"

definition exactly_compared :: "criteria \<Rightarrow> report \<Rightarrow> bool" where
  "exactly_compared c rp \<longleftrightarrow>
     list_all (\<lambda>n. n < 2 ^ 53) ([sm_p50 (rp_summary rp), sm_p95 (rp_summary rp), sm_p99 (rp_summary rp),
        status_class_count (rp_status rp) CHR ''4'', status_class_count (rp_status rp) CHR ''5'']
      @ List.map_filter id [max_p50_ms c, max_p95_ms c, max_p99_ms c, max_4xx_count c, max_5xx_count c])"

lemma opt_row_max_nat:
  "n < 2 ^ 53 \<Longrightarrow> pred_option (\<lambda>t. t < 2 ^ 53) b \<Longrightarrow>
   list_all cres_passed (opt_row (\<lambda>t. max_row m (f64_of_nat t) (f64_of_nat n)) b) \<longleftrightarrow> within n b"
  by (cases b) (auto simp: opt_row_def max_row_def f64_of_nat_le)

lemma opt_row_max: "list_all cres_passed (opt_row (\<lambda>t. max_row m t x) b) \<longleftrightarrow> at_most x b"
  by (cases b) (auto simp: opt_row_def max_row_def)

lemma opt_row_min: "list_all cres_passed (opt_row (\<lambda>t. min_row m t x) b) \<longleftrightarrow> pred_option (\<lambda>t. f64_le t x) b"
  by (cases b) (auto simp: opt_row_def min_row_def)

lemma opt_row_min': "list_all cres_passed (opt_row (min_row m t) b) \<longleftrightarrow> pred_option (f64_le t) b"
  by (cases b) (auto simp: opt_row_def min_row_def)

lemma step_rows_passed:
  "list_all cres_passed (List.map_filter (step_row steps) scs) \<longleftrightarrow> list_all (step_meets steps) scs"
proof (induction scs)
  case (Cons sc scs)
  have "pred_option cres_passed (step_row steps sc) \<longleftrightarrow> step_meets steps sc"
    by (auto simp: step_row_def step_meets_def option.pred_map comp_def split: option.splits)
  with Cons show ?case by (cases "step_row steps sc") (auto simp: List.map_filter_simps)
qed (simp add: List.map_filter_simps)

lemma pred_option_bound: "list_all P (List.map_filter id os) \<Longrightarrow> b \<in> set os \<Longrightarrow> pred_option P b"
  by (induction os) (auto simp: List.map_filter_simps split: option.splits)

lemma evaluate_meets:
  assumes "exactly_compared c rp"
  shows "vd_passed (evaluate_criteria c (rp_summary rp) (rp_status rp) (rp_windows rp) (rp_steps rp)) \<longleftrightarrow> meets c rp"
proof -
  have small: "list_all (\<lambda>t. t < 2 ^ 53) (List.map_filter id [max_p50_ms c, max_p95_ms c, max_p99_ms c, max_4xx_count c, max_5xx_count c])"
    using assms unfolding exactly_compared_def list_all_append by (rule conjunct2)
  have b: "pred_option (\<lambda>t. t < 2 ^ 53) x" if "x \<in> {max_p50_ms c, max_p95_ms c, max_p99_ms c, max_4xx_count c, max_5xx_count c}" for x
    by (rule pred_option_bound [OF small]) (use that in simp)
  have n: "sm_p50 (rp_summary rp) < 2 ^ 53" "sm_p95 (rp_summary rp) < 2 ^ 53" "sm_p99 (rp_summary rp) < 2 ^ 53"
    "status_class_count (rp_status rp) CHR ''4'' < 2 ^ 53" "status_class_count (rp_status rp) CHR ''5'' < 2 ^ 53"
    using assms by (simp_all add: exactly_compared_def)
  have w: "list_all cres_passed (case min_window_rps c of None \<Rightarrow> []
        | Some t \<Rightarrow> opt_row (min_row ''min_window_rps'' t) (min_window_rps_of (rp_windows rp) k))
      \<longleftrightarrow> pred_option (\<lambda>t. list_all (\<lambda>w. steady (rp_windows rp) k (rw_ts w) \<longrightarrow>
        f64_le t (f64_of_nat (second_total (rp_windows rp) (rw_ts w)))) (rp_windows rp)) (min_window_rps c)" for k
    by (cases "min_window_rps c") (simp_all add: opt_row_min' min_window_rps_le list_all_iff [of _ "rp_windows rp"])
  show ?thesis
    unfolding evaluate_criteria_def Let_def fixed_rows_def meets_def
    by (simp only: verdict.simps list_all_append opt_row_max opt_row_min w step_rows_passed
      opt_row_max_nat [OF n(1) b] opt_row_max_nat [OF n(2) b] opt_row_max_nat [OF n(3) b]
      opt_row_max_nat [OF n(4) b] opt_row_max_nat [OF n(5) b] insert_iff simp_thms) blast
qed

lemma rp_verdict_eq:
  "rp_verdict (build_report H run rows l b g p av aw k) =
   (let rp = build_report H run rows l b g p av aw k
    in verdict_of run (rp_summary rp) (rp_status rp) (rp_windows rp) (rp_steps rp))"
  by (simp add: build_report_def Let_def)

definition always_measured :: "criteria \<Rightarrow> bool" where
  "always_measured c \<longleftrightarrow> max_p50_ms c \<noteq> None \<or> max_p95_ms c \<noteq> None \<or> max_p99_ms c \<noteq> None
     \<or> max_error_rate c \<noteq> None \<or> min_rps c \<noteq> None \<or> max_4xx_rate c \<noteq> None \<or> max_5xx_rate c \<noteq> None
     \<or> max_4xx_count c \<noteq> None \<or> max_5xx_count c \<noteq> None"

lemma opt_row_Nil: "opt_row f b = [] \<longleftrightarrow> b = None"
  by (cases b) (simp_all add: opt_row_def)

lemma measured_rows: "always_measured c \<Longrightarrow> vd_criteria (evaluate_criteria c s d ws steps) \<noteq> []"
  by (auto simp: always_measured_def evaluate_criteria_def fixed_rows_def opt_row_Nil)

lemma no_rows_passed: "vd_criteria (evaluate_criteria c s d ws steps) = [] \<Longrightarrow> vd_passed (evaluate_criteria c s d ws steps)"
  by (simp add: evaluate_criteria_def Let_def)

lemma measured_any: "\<not> has_any c \<Longrightarrow> step_criteria c = [] \<and> min_window_rps c = None \<and> \<not> always_measured c"
  by (simp add: has_any_def always_measured_def)

text \<open>
  C18: The verdict of a report says exactly whether the run met its SLO criteria. Only a completed run
  has one. It passes iff every threshold holds: latency percentiles and status counts compared as
  integers (below 2^53), the error and status rates, the request rate, the per-second floor in every
  full second after the warm-up, and every step criterion whose step was executed. A completed run
  goes without a verdict only when no threshold could be measured, and then none is violated.
\<close>

theorem verdict_correct:
  fixes H run rows l b g p av aw k
  defines "rp \<equiv> build_report H run rows l b g p av aw k"
  assumes crit: "pf_criteria (rr_profile run) = Some c" and exact: "exactly_compared c rp"
  shows "if rr_status run \<noteq> Completed then rp_verdict rp = None
    else case rp_verdict rp of
        Some v \<Rightarrow> vd_criteria v \<noteq> [] \<and> (vd_passed v \<longleftrightarrow> meets c rp)
      | None \<Rightarrow> meets c rp \<and> \<not> always_measured c"
proof -
  let ?v = "evaluate_criteria c (rp_summary rp) (rp_status rp) (rp_windows rp) (rp_steps rp)"
  have v: "rp_verdict rp = (if rr_status run = Completed \<and> has_any c \<and> vd_criteria ?v \<noteq> [] then Some ?v else None)"
    using rp_verdict_eq [of H run rows l b g p av aw k] crit
    by (auto simp: rp_def [symmetric] verdict_of_def Let_def split: run_status.splits)
  have none: "meets c rp" if "\<not> has_any c"
    using measured_any [OF that] that by (simp add: meets_def has_any_def)
  show ?thesis
    using v none evaluate_meets [OF exact] measured_rows no_rows_passed measured_any
    by (auto split: if_splits)
qed

text \<open>A run that answered three of five requests with a 500 and tolerates two.\<close>

definition demo_hist :: "nat list hist_api" where
  "demo_hist = \<lparr>hh_new = [], hh_decode = (\<lambda>bs. Some (map of_char bs)), hh_merge = (@), hh_value = (\<lambda>h q. 0),
     hh_min = (\<lambda>h. 0), hh_max = (\<lambda>h. 0), hh_len = length, hh_mean = (\<lambda>h. 0),
     hh_recorded = (\<lambda>h. map (\<lambda>v. (v, 1)) h), hh_bin = (\<lambda>_ _ _ _. 0), hh_edge = (\<lambda>_ _ _ i. i)\<rparr>"

definition demo_criteria :: criteria where
  "demo_criteria = \<lparr>max_p50_ms = None, max_p95_ms = None, max_p99_ms = Some 10, max_error_rate = None, min_rps = None,
     max_4xx_rate = None, max_5xx_rate = None, max_4xx_count = None, max_5xx_count = Some 2, min_window_rps = None,
     rps_warmup_seconds = None, step_criteria = []\<rparr>"

definition demo_run :: run_row where
  "demo_run = \<lparr>rr_id = ''r'', rr_scenario_id = ''s'', rr_scenario_yaml = [], rr_profile = demo_profile\<lparr>pf_criteria := Some demo_criteria\<rparr>,
     rr_env = JNull, rr_status = Completed, rr_started_at = Some 0, rr_ended_at = Some 0, rr_created_at = 0,
     rr_message = None, rr_dropped = 0, rr_verdict = None, rr_label = None\<rparr>"

definition demo_rows :: "metric_row list" where
  "demo_rows = [\<lparr>mr_run = ''r'', mr_ts = 7, mr_step = ''a'', mr_worker = ''w'', mr_count = 5, mr_errors = 3, mr_hdr = ''x'',
     mr_status = [(''200'', 2), (''500'', 3)]\<rparr>]"

lemma demo_summary:
  "rp_status (build_report demo_hist demo_run demo_rows l b g p av aw k) = [(''200'', 2), (''500'', 3)]"
  "sm_p50 (rp_summary (build_report demo_hist demo_run demo_rows l b g p av aw k)) = 0"
  "sm_p95 (rp_summary (build_report demo_hist demo_run demo_rows l b g p av aw k)) = 0"
  "sm_p99 (rp_summary (build_report demo_hist demo_run demo_rows l b g p av aw k)) = 0"
  by (simp_all add: rp_fields summary_of_def Let_def percentiles_of_def demo_hist_def accumulate_def demo_rows_def
    add_row_def add_status_def bt_entry_def bt_get_def unwrap_or_def acc_new_def)

theorem verdict_correct_witness:
  "\<exists>v. rp_verdict (build_report demo_hist demo_run demo_rows [] [] [] [] [] [] []) = Some v \<and> \<not> vd_passed v"
proof -
  let ?rp = "build_report demo_hist demo_run demo_rows [] [] [] [] [] [] []"
  have c: "pf_criteria (rr_profile demo_run) = Some demo_criteria" and fin: "rr_status demo_run = Completed"
    by (simp_all add: demo_run_def)
  have e: "exactly_compared demo_criteria ?rp"
    by (simp add: exactly_compared_def demo_summary demo_criteria_def List.map_filter_simps status_class_count_def)
  have "\<not> meets demo_criteria ?rp"
    by (simp add: meets_def demo_summary demo_criteria_def status_class_count_def)
  with verdict_correct [OF c e] fin show ?thesis by (auto split: option.splits)
qed

text \<open>Two batches of a run, the second delivered first and then both again.\<close>

definition demo_batch :: "int \<Rightarrow> nat \<Rightarrow> metric_batch" where
  "demo_batch ts n = \<lparr>mb_run = ''r'', mb_worker = ''w'', mb_windows = [\<lparr>pw_ts = ts, pw_step = ''a'', pw_count = n, pw_errors = 0,
     pw_hdr = [], pw_status = []\<rparr>], mb_loops = [], mb_branches = [], mb_error_kinds = [], mb_groups = [], mb_phases = [],
     mb_active = [], mb_dropped = 0\<rparr>"

theorem report_counts_once_witness:
  "\<exists>rp. build_report_for_run demo_hist (deliver (\<lambda>_. True) [demo_batch 2 4, demo_batch 1 3, demo_batch 2 4]
      (metrics_empty, [demo_run])) ''r'' = Some rp \<and> sm_count (rp_summary rp) = 7"
  using report_counts_once [of "[demo_batch 1 3, demo_batch 2 4]" "[demo_batch 2 4, demo_batch 1 3, demo_batch 2 4]"
      "\<lambda>_. True" "[demo_run]" "''r''" demo_hist]
  by (simp add: demo_batch_def window_rows_def window_key_def insert_commute run_get_def demo_run_def batch_requests_def) blast

subsection \<open>The latency histogram\<close>

lemma bin_counts:
  fixes cs :: "nat list"
  shows "length cs = bins \<Longrightarrow> 0 < bins \<Longrightarrow>
   length (fold (\<lambda>(v, c) cs. if c = 0 then cs else let j = bin_index bins (f v) in cs[j := cs ! j + c]) vs cs) = bins
   \<and> sum_list (fold (\<lambda>(v, c) cs. if c = 0 then cs else let j = bin_index bins (f v) in cs[j := cs ! j + c]) vs cs)
     = sum_list cs + (\<Sum>p\<leftarrow>vs. snd p)"
proof (induction vs arbitrary: cs)
  case (Cons p vs)
  obtain v c where p: "p = (v, c)" by (cases p)
  let ?j = "bin_index bins (f v)"
  have j: "?j < length cs" using Cons.prems by (simp add: bin_index_def)
  have s: "sum_list (cs[?j := cs ! ?j + c]) = sum_list cs + c"
    using j member_le_sum_list [of "cs ! ?j" cs] by (simp add: sum_list_update)
  show ?case
    using Cons.IH [of "cs[?j := cs ! ?j + c]"] Cons.IH [of cs] Cons.prems s by (simp add: p Let_def)
qed simp

text \<open>
  The buckets of a report's latency histogram partition the recorded samples: their counts add up
  to the number of samples, and there are as many buckets as asked for (one when all samples are
  equal, none when there are no samples), whatever bin the logarithm assigns a value to.
\<close>

theorem log_buckets_partition:
  assumes "(\<Sum>p\<leftarrow>hh_recorded H h. snd p) = hh_len H h" "0 < bins"
  shows "(\<Sum>(lo, hi, n)\<leftarrow>log_buckets H h bins. n) = hh_len H h
    \<and> length (log_buckets H h bins) = (if hh_len H h = 0 then 0 else if hh_max H h \<le> max (hh_min H h) 1 then 1 else bins)"
proof -
  let ?lo = "max (hh_min H h) 1"
  let ?f = "\<lambda>v. hh_bin H ?lo (hh_max H h) bins (max v 1)"
  let ?cs = "fold (\<lambda>(v, c) cs. if c = 0 then cs else let j = bin_index bins (?f v) in cs[j := cs ! j + c])
      (hh_recorded H h) (replicate bins 0)"
  have len: "length ?cs = bins" and sum: "sum_list ?cs = hh_len H h"
    using bin_counts [of "replicate bins 0" bins ?f "hh_recorded H h"] assms by (simp_all add: sum_list_replicate)
  have "map ((!) ?cs) [0..<bins] = ?cs" using len map_nth [of ?cs] by simp
  then have "(\<Sum>i\<leftarrow>[0..<bins]. ?cs ! i) = hh_len H h" using sum by simp
  then show ?thesis using assms(2) by (simp add: log_buckets_def Let_def comp_def del: One_nat_def)
qed

theorem log_buckets_partition_witness:
  "(\<Sum>(lo, hi, n)\<leftarrow>log_buckets demo_hist [3, 5, 5] 4. n) = 3"
  using log_buckets_partition [of demo_hist "[3, 5, 5]" 4] by (simp add: demo_hist_def)

end
