(* ===== verification/Runner.thy ===== *)
theory Runner
  imports ReqGen Aggregator Dataset
begin

text \<open>
  The load interpreter of \<^verbatim>\<open>engine/src/runner.rs\<close>: the recursive execution of a scenario's steps by one
  virtual user (\<^verbatim>\<open>execute_steps\<close>), its iterations (\<^verbatim>\<open>run_vu\<close>, \<^verbatim>\<open>run_arrival\<close>) and the ramp-up and
  outcome of a closed-loop run (\<^verbatim>\<open>run_scenario\<close>).

  What the code reads from its surroundings goes through a world \<open>'w\<close>: the clock, the cancellation
  token, the HTTP exchange, the shared row counters of the data bindings. A parallel node gives every
  branch the world as that branch experiences it (\<open>rt_fork\<close>) and continues in \<open>rt_join\<close>. The calls to
  the shared aggregator are logged as the operations \<^typ>\<open>agg_op\<close>; those of parallel branches
  interleave as \<open>rt_shuffle\<close> says. Instants and durations are nanoseconds.
\<close>

subsection \<open>The surroundings\<close>

datatype step_flow = FlowContinue | FlowDeadline | FlowAborted

record ('w, 'now) rt_ops =
  rt_now :: "'w \<Rightarrow> nat \<times> 'w"
  rt_cancelled :: "'w \<Rightarrow> bool \<times> 'w"
  rt_sleep :: "'w \<Rightarrow> nat \<Rightarrow> bool \<times> 'w"
  rt_second :: "'w \<Rightarrow> int"
  rt_chrono :: "'w \<Rightarrow> 'now"
  rt_fork :: "'w \<Rightarrow> nat \<Rightarrow> 'w"
  rt_join :: "'w \<Rightarrow> 'w list \<Rightarrow> 'w"
  rt_shuffle :: "'w \<Rightarrow> agg_op list list \<Rightarrow> agg_op list"
  rt_counters :: "'w \<Rightarrow> 64 word option list"
  rt_set_counters :: "64 word option list \<Rightarrow> 'w \<Rightarrow> 'w"

record ('w, 'now, 'tz, 'r) engine =
  en_rt :: "('w, 'now) rt_ops"
  en_http :: "'w http_ops"
  en_json :: json_reader
  en_extract :: extract_ops
  en_dbg :: "string \<Rightarrow> string"
  en_regex :: regex
  en_tz :: "('tz, 'now) chrono_ops"
  en_show :: "json \<Rightarrow> string"
  en_rng :: "'r rng_ops"
  en_seed :: "64 word \<Rightarrow> 'r"
  en_next_u64 :: "'r \<Rightarrow> 64 word \<times> 'r"
  en_gen_fork :: "'r \<Rightarrow> 'r \<times> 'r"
  en_deadline :: nat
  en_env :: "(string, string) btree_map"
  en_vu :: nat
  en_measure :: bool

record ('w, 'tz, 'r) vu_state =
  vu_world :: 'w
  vu_vars :: "(string, string) btree_map"
  vu_rng :: 'r
  vu_req :: "('tz, 'r) req_gen option"
  vu_log :: "agg_op list"

definition log_ops :: "agg_op list \<Rightarrow> ('w, 'tz, 'r) vu_state \<Rightarrow> ('w, 'tz, 'r) vu_state" where
  "log_ops xs st = st\<lparr>vu_log := vu_log st @ xs\<rparr>"

definition as_micros :: "nat \<Rightarrow> nat" where "as_micros ns = ns div 1000"

subsection \<open>The boundary between two steps\<close>

definition boundary ::
  "('w, 'now, 'tz, 'r) engine \<Rightarrow> ('w, 'tz, 'r) vu_state \<Rightarrow> step_flow \<times> ('w, 'tz, 'r) vu_state"
where
  "boundary E st = (case rt_now (en_rt E) (vu_world st) of (t, w) \<Rightarrow>
     if en_deadline E \<le> t then (FlowDeadline, st\<lparr>vu_world := w\<rparr>)
     else case rt_cancelled (en_rt E) w of (c, w') \<Rightarrow>
       (if c then FlowAborted else FlowContinue, st\<lparr>vu_world := w'\<rparr>))"

definition step_ctx :: "('w, 'now, 'tz, 'r) engine \<Rightarrow> nat \<Rightarrow> nat option \<Rightarrow> (string, string) btree_map \<Rightarrow> tctx" where
  "step_ctx E it li vs = \<lparr>vars = vs, env = en_env E, vu_id = en_vu E, iter_id = it, loop_index = li\<rparr>"

subsection \<open>The HTTP arm\<close>

definition outcome_ops :: "bool \<Rightarrow> int \<Rightarrow> nat option \<Rightarrow> exec_outcome \<Rightarrow> agg_op list" where
  "outcome_ops measuring ts li out =
     OpRecord ts (eo_step_id out) (min (eo_latency out) u64_max) (eo_status out) (eo_error out \<noteq> None) li
     # (case eo_error_kind out of None \<Rightarrow> [] | Some k \<Rightarrow> [OpKind (eo_step_id out) k])
     @ (if measuring then
          List.map_filter (\<lambda>(name, d). map_option (\<lambda>us. OpPhase (eo_step_id out) name (min us u64_max)) d)
            [(''download'', eo_download out), (''wait'', eo_wait out), (''dns'', eo_dns out), (''connect'', eo_connect out)]
        else [])"

definition pace_step ::
  "('w, 'now, 'tz, 'r) engine \<Rightarrow> think_time \<Rightarrow> ('w, 'tz, 'r) vu_state \<Rightarrow> pace_outcome \<times> ('w, 'tz, 'r) vu_state"
where
  "pace_step E tt st =
     (case think_sample (en_rng E) tt (vu_rng st) of (ms, r) \<Rightarrow>
      case rt_now (en_rt E) (vu_world st) of (t, w) \<Rightarrow>
      case rt_sleep (en_rt E) w (min (ms * 1000000) (en_deadline E - t)) of (c, w') \<Rightarrow>
        (pace (ms * 1000000) t (en_deadline E) c,
         st\<lparr>vu_rng := r, vu_world := (if en_deadline E \<le> t \<or> min (ms * 1000000) (en_deadline E - t) = 0 then w else w')\<rparr>))"

definition http_arm ::
  "('w, 'now, 'tz, 'r) engine \<Rightarrow> nat \<Rightarrow> nat option \<Rightarrow> think_time option \<Rightarrow> http_step \<Rightarrow> ('w, 'tz, 'r) vu_state
     \<Rightarrow> step_flow res \<times> ('w, 'tz, 'r) vu_state"
where
  "http_arm E it li default_think h st =
     (let st1 = (case vu_req st of None \<Rightarrow> st
        | Some g \<Rightarrow> (case refresh_vars (en_tz E) (en_rng E) (en_show E) (rt_chrono (en_rt E) (vu_world st)) (hs_id h) g (vu_vars st) of
            (g', vs) \<Rightarrow> st\<lparr>vu_req := Some g', vu_vars := vs\<rparr>))
      in case execute_step (en_json E) (en_extract E) (en_dbg E) (en_http E) (en_measure E) h
                (step_ctx E it li (vu_vars st1)) (vu_world st1) of
           (Inl e, w) \<Rightarrow> (Inl e, st1\<lparr>vu_world := w\<rparr>)
         | (Inr out, w) \<Rightarrow>
             (let st2 = log_ops (outcome_ops (en_measure E) (rt_second (en_rt E) w) li out)
                   (st1\<lparr>vu_world := w,
                        vu_req := map_option (mark_written (map fst (eo_extracted out))) (vu_req st1),
                        vu_vars := bt_extend (eo_extracted out) (vu_vars st1)\<rparr>)
              in case (case hs_think h of None \<Rightarrow> default_think | Some tt \<Rightarrow> Some tt) of
                   None \<Rightarrow> (Inr FlowContinue, st2)
                 | Some tt \<Rightarrow> (case pace_step E tt st2 of
                     (Slept, st3) \<Rightarrow> (Inr FlowContinue, st3)
                   | (PaceCancelled, st3) \<Rightarrow> (Inr FlowAborted, st3)
                   | (DeadlineReached, st3) \<Rightarrow> (Inr FlowDeadline, st3))))"

subsection \<open>The loop and the parallel arm\<close>

primrec loop_arm ::
  "('w, 'now, 'tz, 'r) engine \<Rightarrow> (nat \<Rightarrow> ('w, 'tz, 'r) vu_state \<Rightarrow> step_flow res \<times> ('w, 'tz, 'r) vu_state)
     \<Rightarrow> nat \<Rightarrow> nat \<Rightarrow> ('w, 'tz, 'r) vu_state \<Rightarrow> step_flow res \<times> ('w, 'tz, 'r) vu_state"
where
  "loop_arm E body i 0 st = (Inr FlowContinue, st)"
| "loop_arm E body i (Suc n) st = (case boundary E st of
      (FlowContinue, st1) \<Rightarrow> (case body i st1 of
          (Inr FlowContinue, st2) \<Rightarrow> loop_arm E body (i + 1) n st2
        | other \<Rightarrow> other)
    | (f, st1) \<Rightarrow> (Inr f, st1))"

fun draw_seeds :: "('w, 'now, 'tz, 'r) engine \<Rightarrow> nat \<Rightarrow> 'r \<Rightarrow> 64 word list \<times> 'r" where
  "draw_seeds E 0 r = ([], r)"
| "draw_seeds E (Suc n) r = (case en_next_u64 E r of (s, r1) \<Rightarrow> apfst ((#) s) (draw_seeds E n r1))"

fun fork_reqs ::
  "('w, 'now, 'tz, 'r) engine \<Rightarrow> nat \<Rightarrow> ('tz, 'r) req_gen option \<Rightarrow> ('tz, 'r) req_gen option list \<times> ('tz, 'r) req_gen option"
where
  "fork_reqs E 0 g = ([], g)"
| "fork_reqs E (Suc n) None = apfst ((#) None) (fork_reqs E n None)"
| "fork_reqs E (Suc n) (Some g) = (case req_gen_fork (en_gen_fork E) g of
     (child, g') \<Rightarrow> apfst ((#) (Some child)) (fork_reqs E n (Some g')))"

definition fork_states ::
  "('w, 'now, 'tz, 'r) engine \<Rightarrow> nat \<Rightarrow> ('w, 'tz, 'r) vu_state \<Rightarrow> ('w, 'tz, 'r) vu_state list \<times> ('w, 'tz, 'r) vu_state"
where
  "fork_states E n st =
     (case draw_seeds E n (vu_rng st) of (seeds, r) \<Rightarrow>
      case fork_reqs E n (vu_req st) of (reqs, g) \<Rightarrow>
        (map (\<lambda>i. \<lparr>vu_world = rt_fork (en_rt E) (vu_world st) i, vu_vars = vu_vars st, vu_rng = en_seed E (seeds ! i),
                   vu_req = reqs ! i, vu_log = []\<rparr>) [0..<n],
         st\<lparr>vu_rng := r, vu_req := g\<rparr>))"

text \<open>One branch with its elapsed microseconds.\<close>

definition timed ::
  "('w, 'now, 'tz, 'r) engine \<Rightarrow> (('w, 'tz, 'r) vu_state \<Rightarrow> step_flow res \<times> ('w, 'tz, 'r) vu_state)
     \<Rightarrow> ('w, 'tz, 'r) vu_state \<Rightarrow> step_flow res \<times> ('w, 'tz, 'r) vu_state \<times> nat"
where
  "timed E f st =
     (case rt_now (en_rt E) (vu_world st) of (t0, w) \<Rightarrow>
      case f (st\<lparr>vu_world := w\<rparr>) of (flow, st1) \<Rightarrow>
      case rt_now (en_rt E) (vu_world st1) of (t1, w1) \<Rightarrow>
        (flow, st1\<lparr>vu_world := w1\<rparr>, as_u64 (as_micros (t1 - t0))))"

definition export_vars ::
  "branch \<Rightarrow> (string, string) btree_map \<Rightarrow> (string, string) btree_map \<times> ('tz, 'r) req_gen option
     \<Rightarrow> (string, string) btree_map \<times> ('tz, 'r) req_gen option"
where
  "export_vars b bvars =
     fold (\<lambda>k (vs, g). case bt_get bvars k of None \<Rightarrow> (vs, g)
         | Some v \<Rightarrow> (let key = br_name b @ ''.'' @ k in (bt_insert key v vs, map_option (mark_written [key]) g)))
       (output_var_names b)"

record branch_merge_acc =
  bm_aborted :: bool
  bm_deadline :: bool
  bm_samples :: "(string \<times> nat) list"

fun merge_branches ::
  "(branch \<times> step_flow res \<times> ('w, 'tz, 'r) vu_state \<times> nat) list
     \<Rightarrow> branch_merge_acc \<Rightarrow> (string, string) btree_map \<times> ('tz, 'r) req_gen option
     \<Rightarrow> branch_merge_acc res \<times> (string, string) btree_map \<times> ('tz, 'r) req_gen option"
where
  "merge_branches [] a vg = (Inr a, vg)"
| "merge_branches ((b, flow, bst, us) # rest) a vg = (case flow of
     Inl e \<Rightarrow> (Inl e, vg)
   | Inr f \<Rightarrow> merge_branches rest
       \<lparr>bm_aborted = bm_aborted a \<or> f = FlowAborted, bm_deadline = bm_deadline a \<or> f = FlowDeadline,
        bm_samples = bm_samples a @ [(br_name b, us)]\<rparr>
       (export_vars b (vu_vars bst) vg))"

definition parallel_arm ::
  "('w, 'now, 'tz, 'r) engine \<Rightarrow> string \<Rightarrow> branch list
     \<Rightarrow> (('w, 'tz, 'r) vu_state \<Rightarrow> step_flow res \<times> ('w, 'tz, 'r) vu_state) list
     \<Rightarrow> ('w, 'tz, 'r) vu_state \<Rightarrow> step_flow res \<times> ('w, 'tz, 'r) vu_state"
where
  "parallel_arm E pid bs runs st =
     (case fork_states E (length bs) st of (sts, st1) \<Rightarrow>
      case rt_now (en_rt E) (vu_world st1) of (t0, w0) \<Rightarrow>
      let results = map2 (timed E) runs sts;
          w1 = rt_join (en_rt E) w0 (map (\<lambda>r. vu_world (fst (snd r))) results)
      in case rt_now (en_rt E) w1 of (t1, w2) \<Rightarrow>
      let st2 = log_ops (rt_shuffle (en_rt E) w2 (map (\<lambda>r. vu_log (fst (snd r))) results)) (st1\<lparr>vu_world := w2\<rparr>);
          elapsed = as_u64 (as_micros (t1 - t0))
      in case merge_branches (zip bs results) \<lparr>bm_aborted = False, bm_deadline = False, bm_samples = []\<rparr> (vu_vars st2, vu_req st2) of
           (Inl e, vs, g) \<Rightarrow> (Inl e, st2\<lparr>vu_vars := vs, vu_req := g\<rparr>)
         | (Inr m, vs, g) \<Rightarrow>
             (let st3 = st2\<lparr>vu_vars := vs, vu_req := g\<rparr> in
              if bm_aborted m then (Inr FlowAborted, st3)
              else if bm_deadline m then (Inr FlowDeadline, st3)
              else (Inr FlowContinue, log_ops (OpGroup pid '''' elapsed # map (\<lambda>(n, us). OpGroup pid n us) (bm_samples m)) st3)))"

subsection \<open>Executing steps\<close>

lemma loop_arm_cong [fundef_cong]:
  "E = E' \<Longrightarrow> i = i' \<Longrightarrow> n = n' \<Longrightarrow> st = st' \<Longrightarrow> (\<And>i st. f i st = g i st) \<Longrightarrow> loop_arm E f i n st = loop_arm E' g i' n' st'"
proof -
  assume a: "E = E'" "i = i'" "n = n'" "st = st'" "\<And>i st. f i st = g i st"
  then have "f = g" by blast
  with a show ?thesis by simp
qed

lemma branch_size: "b \<in> set bs \<Longrightarrow> size_list size (br_steps b) < Suc (size_list size bs)"
proof (induction bs)
  case (Cons b' bs)
  then show ?case by (cases b') auto
qed simp

lemma elif_size: "select_elif rx ctx j els = Some (t, br) \<Longrightarrow> size_list size t < Suc (size_list size els)"
proof (induction rx ctx j els rule: select_elif.induct)
  case (2 rx ctx j e es)
  then show ?case by (cases e) (auto split: if_splits)
qed simp

lemma taken_size:
  "(t, br) = select_branch rx c th els e ctx \<Longrightarrow> size_list size t < size_list size th + size_list size els + size_list size e + 1"
  by (auto simp: select_branch_def dest: elif_size split: if_splits option.splits)

function run_steps ::
    "('w, 'now, 'tz, 'r) engine \<Rightarrow> nat \<Rightarrow> nat option \<Rightarrow> think_time option \<Rightarrow> step list \<Rightarrow> ('w, 'tz, 'r) vu_state
       \<Rightarrow> step_flow res \<times> ('w, 'tz, 'r) vu_state"
  and run_step ::
    "('w, 'now, 'tz, 'r) engine \<Rightarrow> nat \<Rightarrow> nat option \<Rightarrow> think_time option \<Rightarrow> step \<Rightarrow> ('w, 'tz, 'r) vu_state
       \<Rightarrow> step_flow res \<times> ('w, 'tz, 'r) vu_state"
where
  "run_steps E it li dt [] st = (Inr FlowContinue, st)"
| "run_steps E it li dt (s # ss) st = (case boundary E st of
      (FlowContinue, st1) \<Rightarrow> (case run_step E it li dt s st1 of
          (Inr FlowContinue, st2) \<Rightarrow> run_steps E it li dt ss st2
        | other \<Rightarrow> other)
    | (f, st1) \<Rightarrow> (Inr f, st1))"
| "run_step E it li dt (StHttp h) st = http_arm E it li dt h st"
| "run_step E it li dt (StLoop i nm n body) st = loop_arm E (\<lambda>k st. run_steps E it (Some k) dt body st) 0 n st"
| "run_step E it li dt (StIf i nm c th els e) st =
     (case select_branch (en_regex E) c th els e (step_ctx E it li (vu_vars st)) of (taken, br) \<Rightarrow>
        run_steps E it li dt taken (log_ops [OpBranch i br] st))"
| "run_step E it li dt (StParallel i nm bs) st =
     parallel_arm E i bs (map (\<lambda>b st. run_steps E it li None (br_steps b) st) bs) st"
  by pat_completeness auto

termination
  by (relation "measure (\<lambda>x. case x of Inl (E, it, li, dt, ss, st) \<Rightarrow> 2 * size_list size ss | Inr (E, it, li, dt, s, st) \<Rightarrow> 2 * size s + 1)")
    (auto dest!: branch_size taken_size)

subsection \<open>The iterations of a virtual user\<close>

record 'tz vu_plan =
  vp_scenario :: "'tz scenario"
  vp_reqgen :: "'tz request_gen_plan option"
  vp_data :: "data_set list"
  vp_think :: "think_time option"

text \<open>
  The variables of an iteration: the scenario's, freshly generated, then the rows of the bindings.
  \<^const>\<open>None\<close> is an exhausted unique binding.
\<close>

definition begin_iteration ::
  "('w, 'now, 'tz, 'r) engine \<Rightarrow> 'tz vu_plan \<Rightarrow> nat \<Rightarrow> 'r \<Rightarrow> ('w, 'tz, 'r) vu_state
     \<Rightarrow> data_panic + (bool \<times> 'r \<times> ('w, 'tz, 'r) vu_state)"
where
  "begin_iteration E P it gen st =
     (case seed_iter_vars (en_tz E) (en_rng E) (en_show E) (rt_chrono (en_rt E) (vu_world st))
             (sc_variables (vp_scenario P)) gen of (vs, gen1) \<Rightarrow>
      case (case vp_reqgen P of None \<Rightarrow> (None, gen1)
            | Some p \<Rightarrow> apfst Some (req_gen_new (en_gen_fork E) p gen1)) of (req, gen2) \<Rightarrow>
      case inject_bindings (en_rng E) (en_seed E) (of_nat (en_vu E)) (of_nat it) (vp_data P)
             (rt_counters (en_rt E) (vu_world st)) vs req of
        Inl p \<Rightarrow> Inl p
      | Inr (res, cs) \<Rightarrow>
          (let w = rt_set_counters (en_rt E) cs (vu_world st) in
           case res of None \<Rightarrow> Inr (False, gen2, st\<lparr>vu_world := w\<rparr>)
           | Some (vs', req') \<Rightarrow> Inr (True, gen2, st\<lparr>vu_world := w, vu_vars := vs', vu_req := req'\<rparr>)))"

datatype vu_end = VuOk | VuErr engine_error | VuPanic

definition vu_iteration ::
  "('w, 'now, 'tz, 'r) engine \<Rightarrow> 'tz vu_plan \<Rightarrow> nat \<Rightarrow> 'r \<Rightarrow> ('w, 'tz, 'r) vu_state
     \<Rightarrow> (vu_end \<times> ('w, 'tz, 'r) vu_state) + ('r \<times> ('w, 'tz, 'r) vu_state)"
where
  "vu_iteration E P it gen st = (case boundary E st of
      (FlowDeadline, st1) \<Rightarrow> Inl (VuOk, st1)
    | (FlowAborted, st1) \<Rightarrow> Inl (VuErr Aborted, st1)
    | (FlowContinue, st1) \<Rightarrow> (case begin_iteration E P it gen st1 of
        Inl p \<Rightarrow> Inl (VuPanic, st1)
      | Inr (False, gen', st2) \<Rightarrow> Inl (VuOk, st2)
      | Inr (True, gen', st2) \<Rightarrow>
          (case run_steps E it None (sc_default_think (vp_scenario P)) (sc_steps (vp_scenario P)) st2 of
             (Inl e, st3) \<Rightarrow> Inl (VuErr e, st3)
           | (Inr FlowDeadline, st3) \<Rightarrow> Inl (VuOk, st3)
           | (Inr FlowAborted, st3) \<Rightarrow> Inl (VuErr Aborted, st3)
           | (Inr FlowContinue, st3) \<Rightarrow> (case vp_think P of
               None \<Rightarrow> Inr (gen', st3)
             | Some tt \<Rightarrow> (case pace_step E tt st3 of
                 (PaceCancelled, st4) \<Rightarrow> Inl (VuErr Aborted, st4)
               | (_, st4) \<Rightarrow> Inr (gen', st4))))))"

partial_function (option) vu_loop ::
  "('w, 'now, 'tz, 'r) engine \<Rightarrow> 'tz vu_plan \<Rightarrow> nat \<Rightarrow> 'r \<Rightarrow> ('w, 'tz, 'r) vu_state
     \<Rightarrow> (vu_end \<times> ('w, 'tz, 'r) vu_state) option"
where
  "vu_loop E P it gen st = (case vu_iteration E P it gen st of
      Inl r \<Rightarrow> Some r
    | Inr (gen', st') \<Rightarrow> vu_loop E P (wrapping_add_u32 it 1) gen' st')"

text \<open>
  \<^verbatim>\<open>run_vu\<close>: \<open>client\<close> is the outcome of building the HTTP client, \<open>entropy\<close> two fresh generators.
\<close>

definition run_vu ::
  "('w, 'now, 'tz, 'r) engine \<Rightarrow> 'tz vu_plan \<Rightarrow> unit res \<Rightarrow> 32 word option \<Rightarrow> 'r \<times> 'r \<Rightarrow> 'w
     \<Rightarrow> (vu_end \<times> ('w, 'tz, 'r) vu_state) option"
where
  "run_vu E P client think_seed entropy w =
     (let rng = (case think_seed of Some s \<Rightarrow> en_seed E (mix s (of_nat (en_vu E)) 0) | None \<Rightarrow> fst entropy);
          st = \<lparr>vu_world = w, vu_vars = [], vu_rng = rng, vu_req = None, vu_log = []\<rparr>
      in case client of Inl e \<Rightarrow> Some (VuErr e, st) | Inr _ \<Rightarrow> vu_loop E P 0 (snd entropy) st)"

datatype arrival_end = ArrivalDone | ArrivalExhausted | ArrivalErr engine_error | ArrivalPanic

definition run_arrival ::
  "('w, 'now, 'tz, 'r) engine \<Rightarrow> 'tz vu_plan \<Rightarrow> nat \<Rightarrow> 'r \<Rightarrow> ('w, 'tz, 'r) vu_state
     \<Rightarrow> arrival_end \<times> ('w, 'tz, 'r) vu_state"
where
  "run_arrival E P it gen st = (case begin_iteration E P it gen st of
      Inl p \<Rightarrow> (ArrivalPanic, st)
    | Inr (False, gen', st1) \<Rightarrow> (ArrivalExhausted, st1)
    | Inr (True, gen', st1) \<Rightarrow>
        (case run_steps E it None (sc_default_think (vp_scenario P)) (sc_steps (vp_scenario P)) st1 of
           (Inl e, st2) \<Rightarrow> (ArrivalErr e, st2)
         | (Inr _, st2) \<Rightarrow> (ArrivalDone, st2)))"

subsection \<open>A closed-loop run\<close>

text \<open>The VUs started per second of the ramp-up, and the batches until all are started or the run is cancelled.\<close>

definition per_tick :: "nat \<Rightarrow> nat \<Rightarrow> nat" where
  "per_tick vus ramp_secs = (if ramp_secs = 0 \<or> vus = 0 then vus else max (div_ceil vus (as_u32 ramp_secs)) 1)"

function spawn_batches :: "(nat \<Rightarrow> bool) \<Rightarrow> nat \<Rightarrow> nat \<Rightarrow> nat \<Rightarrow> nat \<Rightarrow> nat list" where
  "spawn_batches cancelled per vus spawned tick =
     (if cancelled tick \<or> vus \<le> spawned \<or> per = 0 then []
      else let n = min per (vus - spawned) in n # spawn_batches cancelled per vus (spawned + n) (tick + 1))"
  by pat_completeness auto
termination by (relation "measure (\<lambda>(c, per, vus, spawned, tick). vus - spawned)") auto

declare spawn_batches.simps [simp del]

definition spawned_vus :: "nat \<Rightarrow> nat \<Rightarrow> nat list" where
  "spawned_vus vu_offset n = map (sat_add_u32 vu_offset) [0..<n]"

text \<open>The counters of failed VUs, updated in the order the VUs end.\<close>

definition note_end :: "(string \<Rightarrow> string) \<Rightarrow> vu_end \<Rightarrow> nat \<times> string option \<Rightarrow> nat \<times> string option" where
  "note_end dbg e fc = (case fc of (failed, cause) \<Rightarrow> (case e of
      VuOk \<Rightarrow> (failed, cause)
    | VuErr err \<Rightarrow> (wrapping_add_u32 failed 1,
        if err = Aborted then cause else case cause of None \<Rightarrow> safe_cause dbg err | Some c \<Rightarrow> Some c)
    | VuPanic \<Rightarrow> (wrapping_add_u32 failed 1, cause)))"

definition run_outcome :: "(string \<Rightarrow> string) \<Rightarrow> bool \<Rightarrow> nat \<Rightarrow> vu_end list \<Rightarrow> unit res" where
  "run_outcome dbg cancelled vus ends =
     (case fold (note_end dbg) ends (0, None) of (failed, cause) \<Rightarrow>
        if cancelled then Inl Aborted
        else if 0 < vus \<and> vus \<le> failed then Inl (AllVusFailed failed vus cause)
        else Inr ())"

subsection \<open>Flushing the metrics\<close>

record 'h metric_flush =
  mf_windows :: "'h step_window list"
  mf_loops :: "loop_stat list"
  mf_branches :: "branch_stat list"
  mf_groups :: "'h group_stat list"
  mf_dropped :: nat
  mf_phases :: "'h phase_stat list"
  mf_active :: "active_vu_sample list"
  mf_kinds :: "error_kind_stat list"

definition drain_deltas ::
  "'h step_window list \<times> 'h aggregator \<Rightarrow> active_vu_sample list \<Rightarrow> 'h metric_flush \<times> 'h aggregator"
where
  "drain_deltas wa samples =
     (case wa of (ws, a0) \<Rightarrow>
      case drain_loop_deltas a0 of (ls, a1) \<Rightarrow>
      case drain_branch_deltas a1 of (bs, a2) \<Rightarrow>
      case drain_group_deltas a2 of (gs, a3) \<Rightarrow>
      case drain_phase_deltas a3 of (ps, a4) \<Rightarrow>
      case drain_error_kind_deltas a4 of (ks, a5) \<Rightarrow>
        (\<lparr>mf_windows = ws, mf_loops = ls, mf_branches = bs, mf_groups = gs, mf_dropped = 0, mf_phases = ps,
          mf_active = samples, mf_kinds = ks\<rparr>, a5))"

definition flush_empty :: "'h metric_flush \<Rightarrow> bool" where
  "flush_empty f \<longleftrightarrow> mf_windows f = [] \<and> mf_loops f = [] \<and> mf_branches f = [] \<and> mf_groups f = [] \<and> mf_phases f = []
     \<and> mf_active f = [] \<and> mf_kinds f = []"

text \<open>One tick of the flusher and the final flush; an empty flush is not sent.\<close>

definition flush_tick :: "int \<Rightarrow> 'h aggregator \<Rightarrow> 'h metric_flush list \<times> 'h aggregator" where
  "flush_tick now_s a = (case drain_deltas (drain_completed now_s a) [] of (f, a') \<Rightarrow> (if flush_empty f then [] else [f], a'))"

definition flush_final :: "'h aggregator \<Rightarrow> 'h metric_flush list \<times> 'h aggregator" where
  "flush_final a = (case drain_deltas (drain_all a) [] of (f, a') \<Rightarrow> (if flush_empty f then [] else [f], a'))"

end
