(* ===== verification/Runner_Props.thy ===== *)
theory Runner_Props
  imports Runner
begin

text \<open>
  What one iteration of a virtual user does. The abstract specification \<open>complete\<close> / \<open>partial\<close> gives
  the requests, branch decisions and page-load samples of a finished and of a cut iteration as
  multisets; the interpreter refines it. Further: the isolation of parallel branches, the end of a
  virtual user, the ramp-up and the outcome of a run.
\<close>

subsection \<open>The abstract specification of an iteration\<close>

datatype visible = VReq string "nat option" | VBranch string string | VGroup string string

definition visible_of :: "agg_op \<Rightarrow> visible option" where
  "visible_of x = (case x of
     OpRecord _ sid _ _ _ li \<Rightarrow> Some (VReq sid li) | OpBranch i br \<Rightarrow> Some (VBranch i br)
   | OpGroup i br _ \<Rightarrow> Some (VGroup i br) | _ \<Rightarrow> None)"

definition visibles :: "agg_op list \<Rightarrow> visible multiset" where
  "visibles ops = mset (List.map_filter visible_of ops)"

definition if_choices :: "step list \<Rightarrow> elif_branch list \<Rightarrow> step list \<Rightarrow> (step list \<times> string) list" where
  "if_choices th els e =
     (th, ''then'') # map (\<lambda>j. (elif_then (els ! j), elif_label j)) [0..<length els]
     @ [(e, if e = [] then ''none'' else ''else'')]"

definition page_samples :: "string \<Rightarrow> branch list \<Rightarrow> visible multiset" where
  "page_samples i bs = mset (map (VGroup i) ('''' # map br_name bs))"

inductive complete :: "nat option \<Rightarrow> step list \<Rightarrow> visible multiset \<Rightarrow> bool"
  and complete1 :: "nat option \<Rightarrow> step \<Rightarrow> visible multiset \<Rightarrow> bool"
where
  complete_Nil: "complete li [] {#}"
| complete_Cons: "complete1 li s M \<Longrightarrow> complete li ss N \<Longrightarrow> complete li (s # ss) (M + N)"
| complete_Http: "complete1 li (StHttp h) {#VReq (hs_id h) li#}"
| complete_Loop: "length Ms = n \<Longrightarrow> (\<And>k. k < n \<Longrightarrow> complete (Some k) body (Ms ! k)) \<Longrightarrow>
    complete1 li (StLoop i nm n body) (sum_list Ms)"
| complete_If: "(taken, br) \<in> set (if_choices th els e) \<Longrightarrow> complete li taken M \<Longrightarrow>
    complete1 li (StIf i nm c th els e) (add_mset (VBranch i br) M)"
| complete_Parallel: "length Ms = length bs \<Longrightarrow> (\<And>k. k < length bs \<Longrightarrow> complete li (br_steps (bs ! k)) (Ms ! k)) \<Longrightarrow>
    complete1 li (StParallel i nm bs) (sum_list Ms + page_samples i bs)"

inductive partial :: "nat option \<Rightarrow> step list \<Rightarrow> visible multiset \<Rightarrow> bool"
  and partial1 :: "nat option \<Rightarrow> step \<Rightarrow> visible multiset \<Rightarrow> bool"
where
  partial_stop: "partial li ss {#}"
| partial_cut: "partial1 li s M \<Longrightarrow> partial li (s # ss) M"
| partial_Cons: "complete1 li s M \<Longrightarrow> partial li ss N \<Longrightarrow> partial li (s # ss) (M + N)"
| partial_none: "partial1 li s {#}"
| partial_whole: "complete1 li s M \<Longrightarrow> partial1 li s M"
| partial_Loop: "k < n \<Longrightarrow> length Ms = k \<Longrightarrow> (\<And>j. j < k \<Longrightarrow> complete (Some j) body (Ms ! j)) \<Longrightarrow> partial (Some k) body N \<Longrightarrow>
    partial1 li (StLoop i nm n body) (sum_list Ms + N)"
| partial_If: "(taken, br) \<in> set (if_choices th els e) \<Longrightarrow> partial li taken M \<Longrightarrow>
    partial1 li (StIf i nm c th els e) (add_mset (VBranch i br) M)"
| partial_Parallel: "length Ms = length bs \<Longrightarrow> (\<And>k. k < length bs \<Longrightarrow> partial li (br_steps (bs ! k)) (Ms ! k)) \<Longrightarrow>
    partial1 li (StParallel i nm bs) (sum_list Ms)"

lemma visibles_simps [simp]:
  "visibles [] = {#}" "visibles (xs @ ys) = visibles xs + visibles ys"
  by (simp_all add: visibles_def List.map_filter_def)

lemma visibles_Cons [simp]:
  "visibles (x # xs) = (case visible_of x of None \<Rightarrow> visibles xs | Some v \<Rightarrow> add_mset v (visibles xs))"
  by (simp add: visibles_def List.map_filter_simps split: option.split)

lemma visibles_concat: "visibles (concat xss) = (\<Sum>xs\<leftarrow>xss. visibles xs)"
  by (induction xss) simp_all

lemma visibles_mset: "mset xs = mset ys \<Longrightarrow> visibles xs = visibles ys"
  unfolding visibles_def List.map_filter_def by (metis mset_filter mset_map)

lemma visibles_outcome: "visibles (outcome_ops m ts li out) = {#VReq (eo_step_id out) li#}"
proof -
  have "visible_of (OpPhase a b c) = None" "visible_of (OpKind d k) = None" for a b c d k
    by (simp_all add: visible_of_def)
  then show ?thesis
    by (auto simp: outcome_ops_def visible_of_def List.map_filter_simps map_option_case split: option.splits)
qed

subsection \<open>The interpreter refines it\<close>

definition shuffle_ok :: "('w, 'now) rt_ops \<Rightarrow> bool" where
  "shuffle_ok T \<longleftrightarrow> (\<forall>w xss. mset (rt_shuffle T w xss) = mset (concat xss))"

definition logged :: "('w, 'tz, 'r) vu_state \<Rightarrow> ('w, 'tz, 'r) vu_state \<Rightarrow> (visible multiset \<Rightarrow> bool) \<Rightarrow> bool" where
  "logged st st' P \<longleftrightarrow> (\<exists>new. vu_log st' = vu_log st @ new \<and> P (visibles new))"

lemma boundary_log [simp]: "boundary E st = (f, st') \<Longrightarrow> vu_log st' = vu_log st"
  by (auto simp: boundary_def split: prod.splits if_splits)

lemma log_ops_log [simp]: "vu_log (log_ops xs st) = vu_log st @ xs"
  by (simp add: log_ops_def)

lemma pace_step_log [simp]: "pace_step E tt st = (p, st') \<Longrightarrow> vu_log st' = vu_log st"
  by (auto simp: pace_step_def split: prod.splits if_splits)

lemma execute_step_id: "execute_step fj X dbg H m h ctx w = (Inr out, w') \<Longrightarrow> eo_step_id out = hs_id h"
  by (auto simp: execute_step_def split: sum.splits prod.splits)

lemma http_arm_log:
  assumes "http_arm E it li dt h st = (r, st')"
  shows "case r of Inl e \<Rightarrow> vu_log st' = vu_log st
    | Inr _ \<Rightarrow> logged st st' (\<lambda>M. M = {#VReq (hs_id h) li#})"
proof -
  let ?st1 = "case vu_req st of None \<Rightarrow> st
        | Some g \<Rightarrow> (case refresh_vars (en_tz E) (en_rng E) (en_show E) (rt_chrono (en_rt E) (vu_world st)) (hs_id h) g (vu_vars st) of
            (g', vs) \<Rightarrow> st\<lparr>vu_req := Some g', vu_vars := vs\<rparr>)"
  have st1: "vu_log ?st1 = vu_log st" by (auto split: option.split prod.split)
  obtain res w where ex: "execute_step (en_json E) (en_extract E) (en_dbg E) (en_http E) (en_measure E) h
      (step_ctx E it li (vu_vars ?st1)) (vu_world ?st1) = (res, w)" by fastforce
  show ?thesis
  proof (cases res)
    case (Inl e)
    then show ?thesis using assms ex st1 by (auto simp: http_arm_def Let_def)
  next
    case (Inr out)
    let ?ops = "outcome_ops (en_measure E) (rt_second (en_rt E) w) li out"
    have id: "eo_step_id out = hs_id h" using ex Inr by (auto intro: execute_step_id)
    have "vu_log st' = vu_log st @ ?ops \<and> (\<exists>f. r = Inr f)"
      using assms ex Inr st1
      by (auto simp: http_arm_def Let_def split: option.splits prod.splits pace_outcome.splits)
    then show ?thesis by (auto simp: logged_def visibles_outcome id)
  qed
qed

text \<open>What running from \<open>st\<close> to \<open>st'\<close> logged, for a cut and for a finished run.\<close>

definition spec ::
  "('w, 'tz, 'r) vu_state \<Rightarrow> step_flow res \<times> ('w, 'tz, 'r) vu_state \<Rightarrow> (visible multiset \<Rightarrow> bool) \<Rightarrow> (visible multiset \<Rightarrow> bool) \<Rightarrow> bool"
where
  "spec st out P C \<longleftrightarrow> (\<exists>new. vu_log (snd out) = vu_log st @ new \<and> P (visibles new)
     \<and> (fst out = Inr FlowContinue \<longrightarrow> C (visibles new)))"

lemma spec_stop: "vu_log st' = vu_log st \<Longrightarrow> P {#} \<Longrightarrow> r \<noteq> Inr FlowContinue \<or> C {#} \<Longrightarrow> spec st (r, st') P C"
  by (auto simp: spec_def)

lemma spec_trans:
  assumes "spec st (Inr FlowContinue, st1) P1 C1" "spec st1 out P2 C2"
    and "\<And>M N. C1 M \<Longrightarrow> P2 N \<Longrightarrow> P (M + N)" "\<And>M N. C1 M \<Longrightarrow> C2 N \<Longrightarrow> C (M + N)"
  shows "spec st out P C"
proof -
  from assms(1) obtain a where a: "vu_log st1 = vu_log st @ a" "C1 (visibles a)" by (auto simp: spec_def)
  from assms(2) obtain b where b: "vu_log (snd out) = vu_log st1 @ b" "P2 (visibles b)"
    "fst out = Inr FlowContinue \<longrightarrow> C2 (visibles b)" by (auto simp: spec_def)
  show ?thesis
    unfolding spec_def using a b assms(3) [OF a(2) b(2)] assms(4) [OF a(2)] by (intro exI [of _ "a @ b"]) simp
qed

lemma spec_mono: "spec st out P C \<Longrightarrow> (\<And>M. P M \<Longrightarrow> P' M) \<Longrightarrow> (\<And>M. C M \<Longrightarrow> C' M) \<Longrightarrow> spec st out P' C'"
  unfolding spec_def by blast

lemma spec_pre: "vu_log st1 = vu_log st @ a \<Longrightarrow> spec st1 out (\<lambda>M. P (visibles a + M)) (\<lambda>M. C (visibles a + M)) \<Longrightarrow> spec st out P C"
  by (auto simp: spec_def)

lemma spec_http: "spec st (http_arm E it li dt h st) (partial1 li (StHttp h)) (complete1 li (StHttp h))"
proof -
  obtain r st' where out: "http_arm E it li dt h st = (r, st')" by fastforce
  show ?thesis
    using http_arm_log [OF out] complete_Http [of li h] partial_none partial_whole
    by (cases r) (auto simp: out spec_def logged_def intro: exI [of _ "[]"])
qed

lemma spec_loop:
  assumes body: "\<And>k st. spec st (f k st) (partial (Some k) body) (complete (Some k) body)"
    and Ms: "length Ms = i" "\<And>j. j < i \<Longrightarrow> complete (Some j) body (Ms ! j)" and n: "i + m = n"
  shows "spec st (loop_arm E f i m st) (\<lambda>M. partial1 li (StLoop a b n body) (sum_list Ms + M))
    (\<lambda>M. complete1 li (StLoop a b n body) (sum_list Ms + M))"
  using Ms n
proof (induction m arbitrary: i st Ms)
  case 0
  then have "complete1 li (StLoop a b n body) (sum_list Ms)" by (intro complete_Loop) auto
  then show ?case using partial_whole by (auto intro: spec_stop)
next
  case (Suc m)
  have cut: "partial1 li (StLoop a b n body) (sum_list Ms + N)" if "partial (Some i) body N" for N
    using Suc.prems that by (intro partial_Loop [of i]) auto
  obtain fl st1 where b: "boundary E st = (fl, st1)" by fastforce
  show ?case
  proof (cases fl)
    case FlowContinue
    obtain r st2 where f: "f i st1 = (r, st2)" by fastforce
    have s1: "spec st1 (r, st2) (partial (Some i) body) (complete (Some i) body)" using body [of st1 i] f by simp
    have log: "vu_log st1 = vu_log st @ []" using b by simp
    show ?thesis
    proof (cases "r = Inr FlowContinue")
      case True
      have rest: "spec st2 (loop_arm E f (i + 1) m st2)
          (\<lambda>M. partial1 li (StLoop a b n body) (sum_list (Ms @ [K]) + M))
          (\<lambda>M. complete1 li (StLoop a b n body) (sum_list (Ms @ [K]) + M))" if "complete (Some i) body K" for K
        using Suc.prems that by (intro Suc.IH) (auto simp: nth_append less_Suc_eq)
      from s1 True obtain K where K: "vu_log st2 = vu_log st1 @ K" "complete (Some i) body (visibles K)"
        by (auto simp: spec_def)
      have "spec st1 (loop_arm E f (i + 1) m st2)
          (\<lambda>M. partial1 li (StLoop a b n body) (sum_list Ms + M)) (\<lambda>M. complete1 li (StLoop a b n body) (sum_list Ms + M))"
        using rest [OF K(2)] by (intro spec_pre [OF K(1)]) (simp add: add.assoc)
      then show ?thesis using log True by (auto simp: b FlowContinue f intro!: spec_pre [of st1 st "[]"])
    next
      case False
      have "loop_arm E f i (Suc m) st = (r, st2)"
        using False by (auto simp: b FlowContinue f split: sum.splits step_flow.splits)
      moreover have "spec st1 (r, st2) (\<lambda>M. partial1 li (StLoop a b n body) (sum_list Ms + M))
          (\<lambda>M. complete1 li (StLoop a b n body) (sum_list Ms + M))"
        using s1 False cut unfolding spec_def by fastforce
      ultimately show ?thesis using log by (auto intro!: spec_pre [of st1 st "[]"])
    qed
  qed (use b cut [OF partial_stop] in \<open>auto intro!: spec_stop\<close>)
qed

lemma select_elif_choice: "select_elif rx ctx j0 els = Some (t, br) \<Longrightarrow>
   \<exists>j < length els. t = elif_then (els ! j) \<and> br = elif_label (j0 + j)"
proof (induction rx ctx j0 els rule: select_elif.induct)
  case (2 rx ctx j0 e es)
  show ?case
  proof (cases "eval_condition rx (elif_cond e) ctx")
    case False
    with 2 obtain j where "j < length es \<and> t = elif_then (es ! j) \<and> br = elif_label (j0 + 1 + j)" by auto
    then show ?thesis by (intro exI [of _ "Suc j"]) simp
  qed (use 2 in auto)
qed simp

lemma select_branch_choice: "select_branch rx c th els e ctx \<in> set (if_choices th els e)"
proof (cases "select_elif rx ctx 0 els")
  case (Some sel)
  then obtain t br where "sel = (t, br)" by (cases sel)
  with Some select_elif_choice [of rx ctx 0 els t br] show ?thesis by (auto simp: select_branch_def if_choices_def)
qed (auto simp: select_branch_def if_choices_def)

lemma fork_states_simps:
  assumes "fork_states E n st = (sts, st1)"
  shows "vu_log st1 = vu_log st" "vu_vars st1 = vu_vars st" "vu_world st1 = vu_world st" "length sts = n"
    "k < n \<Longrightarrow> vu_log (sts ! k) = []" "k < n \<Longrightarrow> vu_vars (sts ! k) = vu_vars st"
    "k < n \<Longrightarrow> vu_world (sts ! k) = rt_fork (en_rt E) (vu_world st) k"
  using assms by (auto simp: fork_states_def split: prod.splits)

lemma spec_timed:
  assumes "\<And>st. spec st (f st) P C" "vu_log st = []"
  shows "P (visibles (vu_log (fst (snd (timed E f st)))))
    \<and> (fst (timed E f st) = Inr FlowContinue \<longrightarrow> C (visibles (vu_log (fst (snd (timed E f st))))))"
proof -
  obtain t0 w where t0: "rt_now (en_rt E) (vu_world st) = (t0, w)" by fastforce
  obtain r st1 where f: "f (st\<lparr>vu_world := w\<rparr>) = (r, st1)" by fastforce
  show ?thesis using assms(1) [of "st\<lparr>vu_world := w\<rparr>"] assms(2) by (auto simp: timed_def t0 f spec_def split: prod.split)
qed

lemma list_ex_simp: "list_ex P (x # xs) \<longleftrightarrow> P x \<or> list_ex P xs"
  by simp

lemma merge_branches_clean:
  "merge_branches rs a vg = (Inr m, vg') \<Longrightarrow>
   (bm_aborted m \<longleftrightarrow> bm_aborted a \<or> list_ex (\<lambda>(b, fl, st, us). fl = Inr FlowAborted) rs)
   \<and> (bm_deadline m \<longleftrightarrow> bm_deadline a \<or> list_ex (\<lambda>(b, fl, st, us). fl = Inr FlowDeadline) rs)
   \<and> map fst (bm_samples m) = map fst (bm_samples a) @ map (\<lambda>r. br_name (fst r)) rs
   \<and> list_all (\<lambda>(b, fl, st, us). \<not> isl fl) rs"
proof (induction rs a vg arbitrary: m vg' rule: merge_branches.induct)
  case (2 b flow bst us rest a vg)
  obtain f where f: "flow = Inr f" using 2(2) by (cases flow) simp_all
  let ?a = "\<lparr>bm_aborted = bm_aborted a \<or> f = FlowAborted, bm_deadline = bm_deadline a \<or> f = FlowDeadline,
        bm_samples = bm_samples a @ [(br_name b, us)]\<rparr>"
  have "merge_branches rest ?a (export_vars b (vu_vars bst) vg) = (Inr m, vg')" using 2(2) f by simp
  note IH = 2(1) [OF f this]
  have hd: "(flow = Inr FlowAborted) = (f = FlowAborted)" "(flow = Inr FlowDeadline) = (f = FlowDeadline)" "\<not> isl flow"
    by (simp_all add: f)
  show ?case using IH hd by (simp only: list.pred_inject list_ex_simp prod.case list.map fst_conv branch_merge_acc.simps
    map_append append_assoc append.simps) blast
qed simp

lemma visibles_groups: "visibles (OpGroup i n us # map (\<lambda>(n, us). OpGroup i n us) xs) = mset (map (VGroup i) (n # map fst xs))"
  by (induction xs) (auto simp: visible_of_def)

lemma spec_parallel:
  assumes T: "shuffle_ok (en_rt E)"
    and body: "\<And>b st. b \<in> set bs \<Longrightarrow> spec st (f b st) (partial li (br_steps b)) (complete li (br_steps b))"
  shows "spec st (parallel_arm E i bs (map f bs) st) (partial1 li (StParallel i nm bs)) (complete1 li (StParallel i nm bs))"
proof -
  obtain sts st1 where fk: "fork_states E (length bs) st = (sts, st1)" by fastforce
  note fks = fork_states_simps [OF fk]
  obtain t0 w0 where t0: "rt_now (en_rt E) (vu_world st1) = (t0, w0)" by fastforce
  define results where "results = map2 (timed E) (map f bs) sts"
  obtain t1 w2 where t1: "rt_now (en_rt E) (rt_join (en_rt E) w0 (map (\<lambda>r. vu_world (fst (snd r))) results)) = (t1, w2)"
    by fastforce
  define new where "new = rt_shuffle (en_rt E) w2 (map (\<lambda>r. vu_log (fst (snd r))) results)"
  define Ms where "Ms = map (\<lambda>r. visibles (vu_log (fst (snd r)))) results"
  have len: "length results = length bs" using fks(4) by (simp add: results_def)
  have run: "partial li (br_steps (bs ! k)) (Ms ! k)
      \<and> (fst (results ! k) = Inr FlowContinue \<longrightarrow> complete li (br_steps (bs ! k)) (Ms ! k))" if "k < length bs" for k
  proof -
    have res: "results ! k = timed E (f (bs ! k)) (sts ! k)" using that fks(4) by (simp add: results_def)
    show ?thesis
      using spec_timed [where E = E, OF body [of "bs ! k"] fks(5) [OF that]] that len by (simp add: Ms_def res)
  qed
  have new: "visibles new = sum_list Ms"
    using T visibles_mset [of new "concat (map (\<lambda>r. vu_log (fst (snd r))) results)"]
    by (simp add: new_def shuffle_ok_def visibles_concat Ms_def comp_def)
  have part: "partial1 li (StParallel i nm bs) (sum_list Ms)"
    using len run by (intro partial_Parallel) (auto simp: Ms_def)
  let ?acc = "\<lparr>bm_aborted = False, bm_deadline = False, bm_samples = []\<rparr>"
  obtain res vs g where mg: "merge_branches (zip bs results) ?acc (vu_vars st1, vu_req st1) = (res, vs, g)"
    by (metis prod_cases3)
  let ?out = "parallel_arm E i bs (map f bs) st"
  define st2 where "st2 = log_ops new (st1\<lparr>vu_world := w2\<rparr>)"
  have st2: "vu_vars st2 = vu_vars st1" "vu_req st2 = vu_req st1" "vu_log st2 = vu_log st @ new"
    by (simp_all add: st2_def log_ops_def fks(1))
  let ?ops = "\<lambda>m. OpGroup i '''' (as_u64 (as_micros (t1 - t0))) # map (\<lambda>(n, us). OpGroup i n us) (bm_samples m)"
  have out: "?out = (case res of Inl e \<Rightarrow> (Inl e, st2\<lparr>vu_vars := vs, vu_req := g\<rparr>)
      | Inr m \<Rightarrow> if bm_aborted m then (Inr FlowAborted, st2\<lparr>vu_vars := vs, vu_req := g\<rparr>)
          else if bm_deadline m then (Inr FlowDeadline, st2\<lparr>vu_vars := vs, vu_req := g\<rparr>)
          else (Inr FlowContinue, log_ops (?ops m) (st2\<lparr>vu_vars := vs, vu_req := g\<rparr>)))"
    by (cases res) (simp_all only: parallel_arm_def fk prod.case Let_def t0 results_def [symmetric] t1 new_def [symmetric]
      st2_def [symmetric] st2(1,2) mg sum.case)
  show ?thesis
  proof (cases res)
    case (Inl e)
    then show ?thesis using part st2 new by (auto simp: out spec_def)
  next
    case (Inr m)
    note cl = merge_branches_clean [OF mg [unfolded Inr]]
    show ?thesis
    proof (cases "bm_aborted m \<or> bm_deadline m")
      case True
      then show ?thesis using part st2 new by (auto simp: out Inr spec_def)
    next
      case False
      have all: "fst (results ! k) = Inr FlowContinue" if "k < length bs" for k
      proof -
        have "(bs ! k, results ! k) \<in> set (zip bs results)" using that len by (auto simp: set_zip)
        moreover obtain fl st' us where r: "results ! k = (fl, st', us)" by (metis prod_cases3)
        ultimately have "\<not> isl fl" "fl \<noteq> Inr FlowAborted" "fl \<noteq> Inr FlowDeadline"
          using cl False by (auto simp: list_ex_iff list_all_iff)
        then show ?thesis unfolding r by (cases fl; cases "projr fl") auto
      qed
      have comp: "complete1 li (StParallel i nm bs) (sum_list Ms + page_samples i bs)"
        using len run all by (intro complete_Parallel) (auto simp: Ms_def)
      have names: "map fst (bm_samples m) = map br_name bs"
        using cl len by (simp add: map_fst_zip flip: map_map [of br_name fst, unfolded comp_def])
      have "visibles (new @ ?ops m) = sum_list Ms + page_samples i bs"
        by (simp only: visibles_simps visibles_groups new names page_samples_def)
      then show ?thesis
        unfolding spec_def using False comp partial_whole [OF comp] st2
        by (intro exI [of _ "new @ ?ops m"]) (simp add: out Inr del: visibles_Cons)
    qed
  qed
qed

lemma spec_run:
  assumes T: "shuffle_ok (en_rt E)"
  shows "spec st (run_steps E it li dt ss st) (partial li ss) (complete li ss)"
    and "spec st (run_step E it li dt s st) (partial1 li s) (complete1 li s)"
  using T
proof (induction E it li dt ss st and E it li dt s st rule: run_steps_run_step.induct)
  case (1 E it li dt st)
  then show ?case using complete_Nil partial_stop by (simp add: spec_stop)
next
  case (2 E it li dt s ss st)
  obtain fl st1 where b: "boundary E st = (fl, st1)" by fastforce
  show ?case
  proof (cases fl)
    case FlowContinue
    obtain r st2 where r: "run_step E it li dt s st1 = (r, st2)" by fastforce
    have s1: "spec st1 (r, st2) (partial1 li s) (complete1 li s)" using 2(1) [OF b [symmetric] FlowContinue 2(3)] r by simp
    have s1': "spec st (r, st2) (partial1 li s) (complete1 li s)"
      using s1 b by (intro spec_pre [of st1 st "[]"]) simp_all
    show ?thesis
    proof (cases "r = Inr FlowContinue")
      case True
      have s2: "spec st2 (run_steps E it li dt ss st2) (partial li ss) (complete li ss)"
        using 2(2) [OF b [symmetric] FlowContinue r [symmetric]] True 2(3) by simp
      have "spec st (run_steps E it li dt ss st2) (partial li (s # ss)) (complete li (s # ss))"
        using s1' [unfolded True] s2 by (rule spec_trans) (auto intro: partial_Cons complete_Cons)
      then show ?thesis by (simp add: b FlowContinue r True)
    next
      case False
      then have "run_steps E it li dt (s # ss) st = (r, st2)"
        by (auto simp: b FlowContinue r split: sum.splits step_flow.splits)
      then show ?thesis using s1' False partial_cut by (auto simp: spec_def)
    qed
  qed (use b partial_stop in \<open>auto intro!: spec_stop\<close>)
next
  case (3 E it li dt h st)
  then show ?case using spec_http by simp
next
  case (4 E it li dt i nm n body st)
  show ?case
    using spec_loop [of "\<lambda>k. run_steps E it (Some k) dt body" body "[]" 0 n n st E li i nm] 4 by simp
next
  case (5 E it li dt i nm c th els e st)
  obtain taken br where sb: "select_branch (en_regex E) c th els e (step_ctx E it li (vu_vars st)) = (taken, br)" by fastforce
  have ch: "(taken, br) \<in> set (if_choices th els e)" using select_branch_choice sb by metis
  have "spec (log_ops [OpBranch i br] st) (run_steps E it li dt taken (log_ops [OpBranch i br] st)) (partial li taken) (complete li taken)"
    using 5(1) [OF sb [symmetric] 5(2)] by simp
  then have "spec (log_ops [OpBranch i br] st) (run_steps E it li dt taken (log_ops [OpBranch i br] st))
      (\<lambda>M. partial1 li (StIf i nm c th els e) (visibles [OpBranch i br] + M))
      (\<lambda>M. complete1 li (StIf i nm c th els e) (visibles [OpBranch i br] + M))"
    by (rule spec_mono) (simp_all add: visible_of_def partial_If [OF ch] complete_If [OF ch])
  from spec_pre [OF log_ops_log this] show ?case by (simp add: sb)
next
  case (6 E it li dt i nm bs st)
  show ?case
    using spec_parallel [OF 6(2), of bs "\<lambda>b. run_steps E it li None (br_steps b)" li st i nm] 6 by simp
qed

text \<open>
  C19: What a virtual user does in an iteration is what the scenario says, whatever the clock, the
  cancellation and the server do: its log is that of a partial execution, and of a complete one when it
  runs to the end: every step once per pass, a loop's body \<open>repeat\<close> times with its index, exactly one
  branch of an \<open>if\<close>, all branches of a parallel node, and the page-load samples of that node (the page
  and each branch once) only after a clean pass.
\<close>

theorem run_steps_refines:
  assumes "shuffle_ok (en_rt E)" "run_steps E it li dt ss st = (r, st')"
  shows "\<exists>new. vu_log st' = vu_log st @ new \<and> partial li ss (visibles new)
    \<and> (r = Inr FlowContinue \<longrightarrow> complete li ss (visibles new))"
  using spec_run(1) [OF assms(1), of st it li dt ss] assms(2) by (simp add: spec_def)

text \<open>A loop of two passes over one request, on a server that answers 200.\<close>

definition demo_rt :: "(nat, int) rt_ops" where
  "demo_rt = \<lparr>rt_now = (\<lambda>w. (w, w)), rt_cancelled = (\<lambda>w. (False, w)), rt_sleep = (\<lambda>w d. (False, w)), rt_second = (\<lambda>w. int w),
     rt_chrono = (\<lambda>w. 0), rt_fork = (\<lambda>w i. w), rt_join = (\<lambda>w ws. w), rt_shuffle = (\<lambda>w. concat), rt_counters = (\<lambda>w. []),
     rt_set_counters = (\<lambda>cs w. w)\<rparr>"

definition demo_rng :: "nat rng_ops" where
  "demo_rng = \<lparr>gen_range = (\<lambda>a b r. (a, r)), fill_bytes = (\<lambda>n r. (replicate n 0, r)), sample_idx = (\<lambda>c k r. ([0..<k], r))\<rparr>"

definition demo_engine :: "(nat, int, unit, nat) engine" where
  "demo_engine = \<lparr>en_rt = demo_rt, en_http = demo_http, en_json = (\<lambda>_. None), en_extract = demo_extract, en_dbg = (\<lambda>s. s),
     en_regex = (\<lambda>_ _. None), en_tz = demo_chrono, en_show = (\<lambda>_. []), en_rng = demo_rng, en_seed = (\<lambda>_. 0),
     en_next_u64 = (\<lambda>r. (0, r)), en_gen_fork = (\<lambda>r. (r, r)), en_deadline = 9, en_env = [], en_vu = 0, en_measure = False\<rparr>"

definition demo_state :: "(nat, unit, nat) vu_state" where
  "demo_state = \<lparr>vu_world = 3, vu_vars = [], vu_rng = 0, vu_req = None, vu_log = []\<rparr>"

lemma demo_shuffle: "shuffle_ok (en_rt demo_engine)"
  by (simp add: shuffle_ok_def demo_engine_def demo_rt_def)

lemma demo_request:
  "\<exists>out. execute_step (\<lambda>_. None) demo_extract (\<lambda>s. s) demo_http False demo_step (step_ctx demo_engine it li vs) w = (Inr out, w + 1)
     \<and> eo_step_id out = ''s1'' \<and> eo_error_kind out = None"
proof -
  have r: "render ''/'' ctx = Inr ''/''" for ctx by code_simp
  show ?thesis
    using r by (simp add: execute_step_def build_request_def build_body_def demo_step_def demo_http_def
        phases_def judge_response_def evaluate_def extract_one_def)
qed

lemma demo_arm: "vu_req st = None \<Longrightarrow> \<exists>st' ops. http_arm demo_engine it li None demo_step st = (Inr FlowContinue, st')
   \<and> vu_world st' = vu_world st + 1 \<and> vu_req st' = None \<and> vu_log st' = vu_log st @ ops \<and> visibles ops = {#VReq ''s1'' li#}"
proof -
  assume req: "vu_req st = None"
  obtain out where out: "execute_step (\<lambda>_. None) demo_extract (\<lambda>s. s) demo_http False demo_step (step_ctx demo_engine it li (vu_vars st))
      (vu_world st) = (Inr out, vu_world st + 1)" "eo_step_id out = ''s1''" using demo_request by blast
  then show ?thesis
    by (intro exI [of _ "snd (http_arm demo_engine it li None demo_step st)"]
        exI [of _ "outcome_ops False (int (vu_world st + 1)) li out"])
      (simp add: http_arm_def req visibles_outcome, simp add: req demo_engine_def demo_rt_def demo_step_def log_ops_def)
qed

theorem run_steps_refines_witness:
  "\<exists>st' new. run_steps demo_engine 0 None None [StLoop ''l'' ''n'' 2 [StHttp demo_step]] demo_state = (Inr FlowContinue, st')
     \<and> vu_log st' = new \<and> complete None [StLoop ''l'' ''n'' 2 [StHttp demo_step]] (visibles new)"
proof -
  have b: "vu_world st < 9 \<Longrightarrow> boundary demo_engine st = (FlowContinue, st)" for st
    by (simp add: boundary_def demo_engine_def demo_rt_def)
  have log: "vu_log demo_state = []" and st0: "vu_world demo_state = 3" "vu_req demo_state = None" by (simp_all add: demo_state_def)
  obtain s1 where s1: "http_arm demo_engine 0 (Some 0) None demo_step demo_state = (Inr FlowContinue, s1)" "vu_world s1 = 4" "vu_req s1 = None"
    using demo_arm [of demo_state 0 "Some 0"] st0 by auto
  obtain s2 where s2: "http_arm demo_engine 0 (Some 1) None demo_step s1 = (Inr FlowContinue, s2)" "vu_world s2 = 5"
    using demo_arm [of s1 0 "Some 1"] s1 by auto
  have "run_steps demo_engine 0 None None [StLoop ''l'' ''n'' 2 [StHttp demo_step]] demo_state = (Inr FlowContinue, s2)"
    using s1 s2 st0 by (simp add: b numeral_2_eq_2)
  with run_steps_refines [OF demo_shuffle this] log show ?thesis by auto
qed

subsection \<open>Parallel branches\<close>

definition exports :: "branch list \<Rightarrow> string \<Rightarrow> bool" where
  "exports bs k \<longleftrightarrow> list_ex (\<lambda>b. list_ex (\<lambda>v. k = br_name b @ ''.'' @ v) (output_var_names b)) bs"

lemma export_fold_other:
  "\<forall>v \<in> set ns. k \<noteq> p @ ''.'' @ v \<Longrightarrow>
   bt_get (fst (fold (\<lambda>v (vs, g). case bt_get bv v of None \<Rightarrow> (vs, g)
       | Some x \<Rightarrow> (let key = p @ ''.'' @ v in (bt_insert key x vs, map_option (mark_written [key]) g))) ns vg)) k
   = bt_get (fst vg) k"
  by (induction ns arbitrary: vg) (auto simp: Let_def split: option.splits prod.splits)

lemma merge_branches_other:
  "merge_branches rs a vg = (res, vs', g') \<Longrightarrow> \<not> exports (map fst rs) k \<Longrightarrow> bt_get vs' k = bt_get (fst vg) k"
proof (induction rs a vg arbitrary: res vs' g' rule: merge_branches.induct)
  case (2 b flow bst us rest a vg)
  show ?case
  proof (cases flow)
    case (Inl e)
    with 2(2) show ?thesis by simp
  next
    case (Inr f)
    have other: "\<forall>v \<in> set (output_var_names b). k \<noteq> br_name b @ ''.'' @ v" and rest: "\<not> exports (map fst rest) k"
      using 2(3) by (simp_all add: exports_def list_ex_iff)
    have "bt_get vs' k = bt_get (fst (export_vars b (vu_vars bst) vg)) k"
      using 2(1) [OF Inr _ rest] 2(2) Inr by simp
    then show ?thesis unfolding export_vars_def by (simp only: export_fold_other [OF other])
  qed
qed simp

text \<open>
  C20: Parallel branches do not see each other's variables and leave none of their own behind except
  the declared outputs: every branch starts from the variables at the node, and after the node a
  variable can differ from its value before only if it is \<open>branch.var\<close> for a branch of the node and a
  variable this branch declares as output. In particular nothing a branch extracts overwrites a flow
  variable without a dot in its name.
\<close>

theorem parallel_isolated:
  assumes "run_step E it li dt (StParallel i nm bs) st = (r, st')"
    and "bt_get (vu_vars st') k \<noteq> bt_get (vu_vars st) k"
  shows "exports bs k \<and> CHR ''.'' \<in> set k"
proof -
  have "exports bs k"
  proof (rule ccontr)
    assume no: "\<not> exports bs k"
    let ?f = "\<lambda>b. run_steps E it li None (br_steps b)"
    obtain sts st1 where fk: "fork_states E (length bs) st = (sts, st1)" by fastforce
    note fks = fork_states_simps [OF fk]
    obtain t0 w0 where t0: "rt_now (en_rt E) (vu_world st1) = (t0, w0)" by fastforce
    define results where "results = map2 (timed E) (map ?f bs) sts"
    obtain t1 w2 where t1: "rt_now (en_rt E) (rt_join (en_rt E) w0 (map (\<lambda>r. vu_world (fst (snd r))) results)) = (t1, w2)"
      by fastforce
    define st2 where "st2 = log_ops (rt_shuffle (en_rt E) w2 (map (\<lambda>r. vu_log (fst (snd r))) results)) (st1\<lparr>vu_world := w2\<rparr>)"
    let ?acc = "\<lparr>bm_aborted = False, bm_deadline = False, bm_samples = []\<rparr>"
    obtain res vs g where mg: "merge_branches (zip bs results) ?acc (vu_vars st2, vu_req st2) = (res, vs, g)"
      by (metis prod_cases3)
    have out: "vu_vars (snd (parallel_arm E i bs (map ?f bs) st)) = vs"
      unfolding parallel_arm_def fk prod.case Let_def t0 results_def [symmetric] t1 st2_def [symmetric] mg
      by (auto simp: log_ops_def split: sum.split)
    have "vu_vars st2 = vu_vars st" using fks(2) by (simp add: st2_def log_ops_def)
    moreover have "length results = length bs" using fks(4) by (simp add: results_def)
    ultimately have "bt_get vs k = bt_get (vu_vars st) k"
      using merge_branches_other [OF mg] no by (simp add: map_fst_zip)
    moreover have "vu_vars st' = vs" using assms(1) out by simp
    ultimately show False using assms(2) by simp
  qed
  then show ?thesis by (auto simp: exports_def list_ex_iff)
qed

lemma demo_vars:
  "\<exists>st'. http_arm demo_engine it li None demo_step st = (Inr FlowContinue, st') \<and> (vu_req st = None \<longrightarrow>
     vu_vars st' = bt_insert ''st'' ''200'' (vu_vars st))"
proof -
  have r: "render ''/'' ctx = Inr ''/''" for ctx by code_simp
  have n: "nat_str 200 = ''200''" by code_simp
  show ?thesis
    using r n by (cases "vu_req st") (simp_all add: http_arm_def execute_step_def build_request_def build_body_def demo_step_def
        demo_http_def phases_def judge_response_def evaluate_def extract_one_def demo_engine_def demo_rt_def log_ops_def bt_extend_def
        extract_var_def split: prod.split)
qed

theorem parallel_isolated_witness:
  "\<exists>r st'. run_step demo_engine 0 None None (StParallel ''p'' ''n'' [Branch ''b'' [StHttp demo_step]]) demo_state = (r, st')
     \<and> bt_get (vu_vars st') ''b.st'' = Some ''200'' \<and> exports [Branch ''b'' [StHttp demo_step]] ''b.st''"
proof -
  have b: "vu_world st < 9 \<Longrightarrow> boundary demo_engine st = (FlowContinue, st)" for st
    by (simp add: boundary_def demo_engine_def demo_rt_def)
  have st: "vu_world demo_state = 3" "vu_req demo_state = None" "vu_vars demo_state = []" "vu_rng demo_state = 0" by (simp_all add: demo_state_def)
  let ?s = "demo_state"
  obtain s1 where s1: "http_arm demo_engine 0 None None demo_step ?s = (Inr FlowContinue, s1)"
    "vu_vars s1 = [(''st'', ''200'')]"
    using demo_vars [of 0 None ?s] st by auto
  have fk: "fork_states demo_engine (Suc 0) ?s = ([?s], ?s)"
    by (simp add: fork_states_def demo_state_def demo_engine_def demo_rt_def)
  have now: "rt_now (en_rt demo_engine) w = (w, w)" for w by (simp add: demo_engine_def demo_rt_def)
  have run: "run_steps demo_engine 0 None None [StHttp demo_step] ?s = (Inr FlowContinue, s1)" using s1 st b by simp
  have names: "output_var_names (Branch ''b'' [StHttp demo_step]) = [''st'']"
    by (simp add: output_var_names_def demo_step_def extract_var_def)
  obtain r st' where out: "run_step demo_engine 0 None None (StParallel ''p'' ''n'' [Branch ''b'' [StHttp demo_step]]) ?s = (r, st')"
    by fastforce
  have "vu_vars st' = [(''b.st'', ''200'')]"
    using out s1(2) st(3)
    by (simp add: parallel_arm_def fk now timed_def Let_def export_vars_def names bt_get_def log_ops_def run
        del: run_steps.simps) auto
  with out parallel_isolated [OF out, of "''b.st''"] st show ?thesis by (simp add: bt_get_def)
qed

subsection \<open>The end of a virtual user\<close>

text \<open>
  \<open>left\<close> bounds how often the clock can still be read before the deadline; no other operation turns
  the clock back.
\<close>

definition clock_runs :: "('w, 'now, 'tz, 'r) engine \<Rightarrow> ('w \<Rightarrow> nat) \<Rightarrow> bool" where
  "clock_runs E left \<longleftrightarrow>
     (\<forall>w. left (snd (rt_now (en_rt E) w)) \<le> left w
        \<and> (fst (rt_now (en_rt E) w) < en_deadline E \<longrightarrow> left (snd (rt_now (en_rt E) w)) < left w)
        \<and> left (snd (rt_cancelled (en_rt E) w)) \<le> left w
        \<and> (\<forall>d. left (snd (rt_sleep (en_rt E) w d)) \<le> left w)
        \<and> (\<forall>req. left (snd (snd (ho_send (en_http E) req w))) \<le> left w)
        \<and> (\<forall>ws. left (rt_join (en_rt E) w ws) \<le> left w)
        \<and> (\<forall>cs. left (rt_set_counters (en_rt E) cs w) \<le> left w))"

abbreviation not_later :: "('w \<Rightarrow> nat) \<Rightarrow> ('w, 'tz, 'r) vu_state \<Rightarrow> ('w, 'tz, 'r) vu_state \<Rightarrow> bool" where
  "not_later left st st' \<equiv> left (vu_world st') \<le> left (vu_world st)"

lemma clock_now:
  "clock_runs E left \<Longrightarrow> rt_now (en_rt E) w = (t, w') \<Longrightarrow> left w' \<le> left w \<and> (t < en_deadline E \<longrightarrow> left w' < left w)"
  unfolding clock_runs_def by (metis fst_conv snd_conv)

lemma clock_other:
  assumes "clock_runs E left"
  shows "rt_cancelled (en_rt E) w = (c, w') \<Longrightarrow> left w' \<le> left w"
    "rt_sleep (en_rt E) w d = (c, w') \<Longrightarrow> left w' \<le> left w"
    "ho_send (en_http E) req w = (x, tm, w') \<Longrightarrow> left w' \<le> left w"
    "left (rt_join (en_rt E) w ws) \<le> left w" "left (rt_set_counters (en_rt E) cs w) \<le> left w"
  using assms unfolding clock_runs_def by (metis snd_conv)+

lemma boundary_left:
  assumes "clock_runs E left" "boundary E st = (f, st')"
  shows "not_later left st st' \<and> (f \<noteq> FlowDeadline \<longrightarrow> left (vu_world st') < left (vu_world st))"
proof -
  obtain t w where t: "rt_now (en_rt E) (vu_world st) = (t, w)" by fastforce
  obtain c w' where c: "rt_cancelled (en_rt E) w = (c, w')" by fastforce
  show ?thesis
    using assms(2) clock_now [OF assms(1) t] clock_other(1) [OF assms(1) c] by (auto simp: boundary_def t c split: if_splits)
qed

lemma pace_step_left:
  assumes "clock_runs E left" "pace_step E tt st = (p, st')"
  shows "not_later left st st'"
proof -
  obtain ms r where s: "think_sample (en_rng E) tt (vu_rng st) = (ms, r)" by fastforce
  obtain t w where t: "rt_now (en_rt E) (vu_world st) = (t, w)" by fastforce
  obtain c w' where c: "rt_sleep (en_rt E) w (min (ms * 1000000) (en_deadline E - t)) = (c, w')" by fastforce
  show ?thesis
    using assms(2) clock_now [OF assms(1) t] clock_other(2) [OF assms(1) c] by (auto simp: pace_step_def s t c split: if_splits)
qed

lemma execute_step_left:
  assumes "clock_runs E left" "execute_step fj X dbg (en_http E) m h ctx w = (r, w')"
  shows "left w' \<le> left w"
proof (cases "build_request fj (en_http E) h ctx")
  case (Inr req)
  obtain x tm w1 where s: "ho_send (en_http E) req w = (x, tm, w1)" by (metis prod_cases3)
  have "w' = w1"
    using assms(2) by (auto simp: execute_step_def Inr s split: sum.splits prod.splits)
  then show ?thesis using clock_other(3) [OF assms(1) s] by simp
qed (use assms(2) in \<open>simp add: execute_step_def\<close>)

lemma http_arm_left:
  assumes "clock_runs E left" "http_arm E it li dt h st = (r, st')"
  shows "not_later left st st'"
proof -
  let ?st1 = "case vu_req st of None \<Rightarrow> st
        | Some g \<Rightarrow> (case refresh_vars (en_tz E) (en_rng E) (en_show E) (rt_chrono (en_rt E) (vu_world st)) (hs_id h) g (vu_vars st) of
            (g', vs) \<Rightarrow> st\<lparr>vu_req := Some g', vu_vars := vs\<rparr>)"
  have st1: "vu_world ?st1 = vu_world st" by (auto split: option.split prod.split)
  obtain res w where ex: "execute_step (en_json E) (en_extract E) (en_dbg E) (en_http E) (en_measure E) h
      (step_ctx E it li (vu_vars ?st1)) (vu_world ?st1) = (res, w)" by fastforce
  note le = execute_step_left [OF assms(1) ex, unfolded st1]
  show ?thesis
  proof (cases res)
    case (Inl e)
    then show ?thesis using assms(2) ex le by (auto simp: http_arm_def Let_def)
  next
    case (Inr out)
    show ?thesis
      using assms(2) ex Inr le pace_step_left [OF assms(1)]
      by (fastforce simp: http_arm_def Let_def log_ops_def split: option.splits prod.splits pace_outcome.splits)
  qed
qed

lemma loop_arm_left:
  assumes "clock_runs E left" "\<And>k st. not_later left st (snd (f k st))"
  shows "not_later left st (snd (loop_arm E f i m st))"
proof (induction m arbitrary: i st)
  case (Suc m)
  obtain fl st1 where b: "boundary E st = (fl, st1)" by fastforce
  obtain r st2 where f: "f i st1 = (r, st2)" by fastforce
  have 1: "not_later left st st1" using boundary_left [OF assms(1) b] by simp
  have 2: "not_later left st1 st2" using assms(2) [where st = st1 and k = i] f by simp
  show ?case using 1 2 Suc.IH [of "i + 1" st2] by (auto simp: b f split: step_flow.splits sum.splits)
qed simp

lemma parallel_arm_left:
  assumes "clock_runs E left"
  shows "not_later left st (snd (parallel_arm E i bs fs st))"
proof -
  obtain sts st1 where fk: "fork_states E (length bs) st = (sts, st1)" by fastforce
  note fks = fork_states_simps [OF fk]
  obtain t0 w0 where t0: "rt_now (en_rt E) (vu_world st1) = (t0, w0)" by fastforce
  define results where "results = map2 (timed E) fs sts"
  define w1 where "w1 = rt_join (en_rt E) w0 (map (\<lambda>r. vu_world (fst (snd r))) results)"
  obtain t1 w2 where t1: "rt_now (en_rt E) w1 = (t1, w2)" by fastforce
  define st2 where "st2 = log_ops (rt_shuffle (en_rt E) w2 (map (\<lambda>r. vu_log (fst (snd r))) results)) (st1\<lparr>vu_world := w2\<rparr>)"
  let ?acc = "\<lparr>bm_aborted = False, bm_deadline = False, bm_samples = []\<rparr>"
  obtain res vs g where mg: "merge_branches (zip bs results) ?acc (vu_vars st2, vu_req st2) = (res, vs, g)"
    by (metis prod_cases3)
  have out: "vu_world (snd (parallel_arm E i bs fs st)) = w2"
    unfolding parallel_arm_def fk prod.case Let_def t0 results_def [symmetric] w1_def [symmetric] t1 st2_def [symmetric] mg
    by (auto simp: log_ops_def st2_def split: sum.split)
  have "left w0 \<le> left (vu_world st)" using clock_now [OF assms t0] fks(3) by simp
  moreover have "left w1 \<le> left w0" unfolding w1_def by (rule clock_other(4) [OF assms])
  moreover have "left w2 \<le> left w1" using clock_now [OF assms t1] by simp
  ultimately show ?thesis using out by simp
qed

lemma run_left:
  assumes "clock_runs E left"
  shows "not_later left st (snd (run_steps E it li dt ss st))" and "not_later left st (snd (run_step E it li dt s st))"
  using assms
proof (induction E it li dt ss st and E it li dt s st rule: run_steps_run_step.induct)
  case (2 E it li dt s ss st)
  obtain fl st1 where b: "boundary E st = (fl, st1)" by fastforce
  obtain r st2 where r: "run_step E it li dt s st1 = (r, st2)" by fastforce
  have 1: "not_later left st st1" using boundary_left [OF 2(3) b] by simp
  show ?case
  proof (cases "fl = FlowContinue \<and> r = Inr FlowContinue")
    case True
    have "not_later left st1 st2" using 2(1) [OF b [symmetric]] True 2(3) r by simp
    moreover have "not_later left st2 (snd (run_steps E it li dt ss st2))"
      using 2(2) [OF b [symmetric] _ r [symmetric]] True 2(3) by simp
    ultimately show ?thesis using 1 True by (simp add: b r)
  next
    case False
    have "fl = FlowContinue \<Longrightarrow> not_later left st1 st2" using 2(1) [OF b [symmetric]] 2(3) r by simp
    then show ?thesis using 1 False by (auto simp: b r split: step_flow.splits sum.splits)
  qed
next
  case (3 E it li dt h st)
  obtain r st' where out: "http_arm E it li dt h st = (r, st')" by fastforce
  then show ?case using http_arm_left [OF 3 out] by simp
next
  case (4 E it li dt i nm n body st)
  then show ?case using loop_arm_left [OF 4(2)] by simp
next
  case (5 E it li dt i nm c th els e st)
  obtain taken br where sb: "select_branch (en_regex E) c th els e (step_ctx E it li (vu_vars st)) = (taken, br)" by fastforce
  show ?case using 5(1) [OF sb [symmetric] 5(2)] by (simp add: sb log_ops_def)
next
  case (6 E it li dt i nm bs st)
  then show ?case using parallel_arm_left by simp
qed simp

lemma begin_left: "clock_runs E left \<Longrightarrow> begin_iteration E P it gen st = Inr (b, gen', st') \<Longrightarrow> not_later left st st'"
  using clock_other(5) [of E left]
  by (auto simp: begin_iteration_def Let_def split: prod.splits sum.splits option.splits)

lemma iteration_left:
  assumes c: "clock_runs E left" and it: "vu_iteration E P it gen st = Inr (gen', st')"
  shows "left (vu_world st') < left (vu_world st)"
proof -
  obtain fl st1 where b: "boundary E st = (fl, st1)" by fastforce
  have fl: "fl = FlowContinue" using it b by (auto simp: vu_iteration_def split: step_flow.splits)
  obtain gen2 st2 where bg: "begin_iteration E P it gen st1 = Inr (True, gen2, st2)"
    using it b fl by (auto simp: vu_iteration_def split: sum.splits bool.splits)
  obtain r st3 where r: "run_steps E it None (sc_default_think (vp_scenario P)) (sc_steps (vp_scenario P)) st2 = (r, st3)"
    by fastforce
  have 1: "left (vu_world st1) < left (vu_world st)" using boundary_left [OF c b] fl by simp
  have 2: "not_later left st1 st2" by (rule begin_left [OF c bg])
  have 3: "not_later left st2 st3"
    using run_left(1) [OF c, where st = st2 and it = it and li = None and dt = "sc_default_think (vp_scenario P)" and ss = "sc_steps (vp_scenario P)"] r by simp
  have "not_later left st3 st'"
    using it pace_step_left [OF c] unfolding vu_iteration_def b fl step_flow.case prod.case bg sum.case r bool.case
    by (auto split: sum.splits step_flow.splits option.splits prod.splits pace_outcome.splits)
  with 1 2 3 show ?thesis by simp
qed

lemma vu_loop_ends: "clock_runs E left \<Longrightarrow> \<exists>r. vu_loop E P it gen st = Some r"
proof (induction "left (vu_world st)" arbitrary: it gen st rule: less_induct)
  case less
  show ?case
  proof (cases "vu_iteration E P it gen st")
    case (Inl r)
    then show ?thesis by (subst vu_loop.simps) simp
  next
    case (Inr gs)
    obtain gen' st' where gs: "gs = (gen', st')" by (cases gs)
    have "left (vu_world st') < left (vu_world st)" using iteration_left [OF less(2)] Inr gs by simp
    from less(1) [OF this less(2)] show ?thesis by (subst vu_loop.simps) (simp add: Inr gs)
  qed
qed

text \<open>
  C21: Every virtual user ends. Its loop has no bound of its own, but as long as the clock advances
  (it can be read only finitely often before the deadline) \<open>run_vu\<close> returns, whatever the scenario, the
  think times, the server, the data bindings and the cancellation do: an iteration without any
  request, an empty scenario and a nest of loops included.
\<close>

theorem run_vu_returns:
  assumes "clock_runs E left"
  shows "\<exists>r. run_vu E P client think_seed entropy w = Some r"
  using vu_loop_ends [OF assms] by (cases client) (auto simp: run_vu_def Let_def)

definition ticking_engine :: "(nat, int, unit, nat) engine" where
  "ticking_engine = demo_engine\<lparr>en_rt := demo_rt\<lparr>rt_now := \<lambda>w. (w, w + 1)\<rparr>\<rparr>"

definition idle_plan :: "unit vu_plan" where
  "idle_plan = \<lparr>vp_scenario = demo_scenario, vp_reqgen = None, vp_data = [], vp_think = None\<rparr>"

theorem run_vu_returns_witness: "\<exists>r. run_vu ticking_engine idle_plan (Inr ()) (Some 5) (0, 0) 2 = Some r"
proof -
  have "clock_runs ticking_engine (\<lambda>w. 9 - w)"
    by (auto simp: clock_runs_def ticking_engine_def demo_engine_def demo_rt_def demo_http_def)
  then show ?thesis by (rule run_vu_returns)
qed

subsection \<open>The outcome of a closed-loop run\<close>

fun failing :: "vu_end \<Rightarrow> bool" where
  "failing VuOk = False"
| "failing _ = True"

definition vu_cause :: "(string \<Rightarrow> string) \<Rightarrow> vu_end \<Rightarrow> string option" where
  "vu_cause dbg e = (case e of VuErr err \<Rightarrow> (if err = Aborted then None else safe_cause dbg err) | _ \<Rightarrow> None)"

fun head_opt :: "'a list \<Rightarrow> 'a option" where
  "head_opt [] = None"
| "head_opt (x # xs) = Some x"

lemma note_ends:
  "f + length ends \<le> u32_max \<Longrightarrow>
   fold (note_end dbg) ends (f, c) =
     (f + length (filter failing ends), case c of Some x \<Rightarrow> Some x | None \<Rightarrow> head_opt (List.map_filter (vu_cause dbg) ends))"
proof (induction ends arbitrary: f c)
  case (Cons e ends)
  have w: "wrapping_add_u32 f 1 = f + 1" using Cons.prems by (simp add: wrapping_add_u32_def)
  have step: "note_end dbg e (f, c) = (f + (if failing e then 1 else 0), case c of Some x \<Rightarrow> Some x | None \<Rightarrow> vu_cause dbg e)"
    using w by (cases e) (auto simp: note_end_def vu_cause_def split: option.splits)
  show ?case
    using Cons.IH [of "f + (if failing e then 1 else 0)"] Cons.prems
    by (auto simp: step List.map_filter_simps split: option.splits)
qed (auto split: option.split simp: List.map_filter_simps)

lemma filter_all_length: "length (filter P xs) = length xs \<longleftrightarrow> list_all P xs"
proof (induction xs)
  case (Cons x xs)
  have "length (filter P xs) \<noteq> Suc (length xs)" using le_imp_less_Suc [OF length_filter_le [of P xs]] by (metis less_irrefl)
  with Cons show ?case by simp
qed simp

text \<open>
  A closed-loop run is reported failed exactly when every one of its virtual users failed: with one
  outcome per virtual user, in any order of ending, an uncancelled run ends in \<open>AllVusFailed\<close> iff there
  are virtual users and none ended well; it then carries the number of all of them and, as cause, that
  of the first to fail with a cause that is safe to persist. A cancelled run is always \<open>Aborted\<close>.
\<close>

theorem run_outcome_correct:
  assumes "length ends = vus" "vus \<le> u32_max"
  shows "run_outcome dbg cancelled vus ends =
    (if cancelled then Inl Aborted
     else if 0 < vus \<and> list_all failing ends
       then Inl (AllVusFailed vus vus (head_opt (List.map_filter (vu_cause dbg) ends)))
     else Inr ())"
proof -
  have n: "fold (note_end dbg) ends (0, None) = (length (filter failing ends), head_opt (List.map_filter (vu_cause dbg) ends))"
    using note_ends [of 0 ends dbg None] assms by simp
  have "length (filter failing ends) \<le> vus" using length_filter_le [of failing ends] assms(1) by simp
  then have "vus \<le> length (filter failing ends) \<longleftrightarrow> list_all failing ends"
    using filter_all_length [of failing ends] assms(1) by linarith
  moreover have "list_all failing ends \<Longrightarrow> length (filter failing ends) = vus" using filter_all_length [of failing ends] assms(1) by simp
  ultimately show ?thesis by (auto simp: run_outcome_def n)
qed

theorem run_outcome_correct_witness:
  "run_outcome (\<lambda>s. s) False 2 [VuPanic, VuErr (UnknownVar ''tok'')] =
     Inl (AllVusFailed 2 2 (safe_cause (\<lambda>s. s) (UnknownVar ''tok'')))"
  using run_outcome_correct [of "[VuPanic, VuErr (UnknownVar ''tok'')]" 2 "\<lambda>s. s" False]
  by (simp add: vu_cause_def safe_cause_def List.map_filter_simps)

subsection \<open>The ramp-up\<close>

lemma batches:
  assumes "0 < per" "spawned \<le> vus"
  shows "sum_list (spawn_batches (\<lambda>_. False) per vus spawned k) = vus - spawned
    \<and> (\<forall>m. vus - spawned \<le> m * per \<longrightarrow> length (spawn_batches (\<lambda>_. False) per vus spawned k) \<le> m)
    \<and> (\<forall>j. sum_list (take j (spawn_batches (\<lambda>_. False) per vus spawned k)) = min (vus - spawned) (j * per))"
  using assms
proof (induction "vus - spawned" arbitrary: spawned k rule: less_induct)
  case less
  show ?case
  proof (cases "vus \<le> spawned")
    case True
    then have "spawn_batches (\<lambda>_. False) per vus spawned k = []" by (subst spawn_batches.simps) simp
    then show ?thesis using True by simp
  next
    case False
    let ?n = "min per (vus - spawned)"
    have eq: "spawn_batches (\<lambda>_. False) per vus spawned k = ?n # spawn_batches (\<lambda>_. False) per vus (spawned + ?n) (k + 1)"
      using False less(2) by (subst spawn_batches.simps) (simp add: Let_def)
    have lt: "vus - (spawned + ?n) < vus - spawned" "spawned + ?n \<le> vus" using False less(2) by auto
    note IH = less(1) [OF lt(1) less(2) lt(2), of "k + 1"]
    have len: "length (?n # spawn_batches (\<lambda>_. False) per vus (spawned + ?n) (k + 1)) \<le> m" if "vus - spawned \<le> m * per" for m
    proof (cases m)
      case (Suc m')
      then have "vus - (spawned + ?n) \<le> m' * per" using that by auto
      with IH Suc show ?thesis by simp
    qed (use that False in simp)
    have tk: "sum_list (take j (?n # spawn_batches (\<lambda>_. False) per vus (spawned + ?n) (k + 1))) = min (vus - spawned) (j * per)" for j
      using IH by (cases j) (auto simp: min_def)
    show ?thesis unfolding eq using IH len tk False by auto
  qed
qed

text \<open>
  The ramp-up is linear and complete: an uncancelled run starts all its virtual users, with distinct
  ids, within the ramp-up seconds (at once without a ramp), and after \<open>j\<close> ticks it has started at least
  the proportional share \<open>vus * j / ramp\<close> and no more than one tick's batch above it.
\<close>

theorem ramp_up_correct:
  assumes "0 < ramp" "ramp \<le> u32_max" "0 < vus" "off + vus \<le> u32_max"
  shows "let bs = spawn_batches (\<lambda>_. False) (per_tick vus ramp) vus 0 0 in
      sum_list bs = vus \<and> length bs \<le> ramp
    \<and> (\<forall>j. vus * min j ramp \<le> ramp * sum_list (take j bs) \<and> sum_list (take j bs) \<le> j * per_tick vus ramp)
    \<and> distinct (spawned_vus off (sum_list bs)) \<and> set (spawned_vus off (sum_list bs)) = {off..<off + vus}"
proof -
  let ?per = "per_tick vus ramp"
  let ?bs = "spawn_batches (\<lambda>_. False) ?per vus 0 0"
  have per: "0 < ?per" "vus \<le> ramp * ?per"
  proof -
    have p: "?per = max (div_ceil vus ramp) 1" using assms by (simp add: per_tick_def as_u32_def)
    then show "0 < ?per" by simp
    have "vus \<le> ramp * div_ceil vus ramp" using div_ceil_mult_ge [of ramp vus] assms(1) by (simp add: mult.commute)
    also have "\<dots> \<le> ramp * ?per" unfolding p by (rule mult_le_mono2) simp
    finally show "vus \<le> ramp * ?per" .
  qed
  have b: "sum_list ?bs = vus" "length ?bs \<le> ramp" "sum_list (take j ?bs) = min vus (j * ?per)" for j
    using batches [OF per(1), of 0 vus 0] per(2) by auto
  have "vus * min j ramp \<le> ramp * min vus (j * ?per)" for j
  proof (cases "vus \<le> j * ?per")
    case True
    then show ?thesis by (simp add: min_absorb1 mult.commute)
  next
    case False
    have "vus * min j ramp \<le> (ramp * ?per) * j" using per(2) by (intro mult_le_mono) simp_all
    then show ?thesis using False by (simp add: min_def mult.commute mult.left_commute)
  qed
  moreover have "spawned_vus off vus = [off..<off + vus]"
    using assms(4) by (auto simp: spawned_vus_def sat_add_u32_def intro!: nth_equalityI)
  ultimately show ?thesis using b by (simp add: Let_def)
qed

theorem ramp_up_correct_witness:
  "sum_list (spawn_batches (\<lambda>_. False) (per_tick 7 3) 7 0 0) = 7 \<and> distinct (spawned_vus 20 7)"
proof -
  note r = ramp_up_correct [of 3 7 20]
  have "sum_list (spawn_batches (\<lambda>_. False) (per_tick 7 3) 7 0 0) = 7" using r by (simp add: Let_def)
  then show ?thesis using r by (simp add: Let_def)
qed

end
