(* ===== verification/Arrivals.thy ===== *)
theory Arrivals
  imports Runner Run_Config F64_Arith Complex_Main
begin

text \<open>
  The open-loop scheduler of \<^verbatim>\<open>engine/src/runner.rs\<close>: the arrival-rate curve (\<^verbatim>\<open>rate_at\<close>), the inverse of
  its integral (\<^verbatim>\<open>ArrivalSchedule\<close>) and the scheduling loop of \<^verbatim>\<open>run_scenario_open_loop\<close> with its
  pool of reusable slots.

  The curve arithmetic is written over a record of operations: \<open>f64_ops\<close> is the program's (the square
  root is a parameter), \<open>real_ops\<close> the exact one in which the inverse is proved correct.
\<close>

subsection \<open>The arithmetic\<close>

record 'a num_ops =
  nu_nat :: "nat \<Rightarrow> 'a"
  nu_add :: "'a \<Rightarrow> 'a \<Rightarrow> 'a"
  nu_sub :: "'a \<Rightarrow> 'a \<Rightarrow> 'a"
  nu_mul :: "'a \<Rightarrow> 'a \<Rightarrow> 'a"
  nu_div :: "'a \<Rightarrow> 'a \<Rightarrow> 'a"
  nu_le :: "'a \<Rightarrow> 'a \<Rightarrow> bool"
  nu_lt :: "'a \<Rightarrow> 'a \<Rightarrow> bool"
  nu_sqrt :: "'a \<Rightarrow> 'a"

definition f64_ops :: "(f64 \<Rightarrow> f64) \<Rightarrow> f64 num_ops" where
  "f64_ops sq = \<lparr>nu_nat = f64_of_nat, nu_add = f64_add, nu_sub = f64_sub, nu_mul = f64_mul, nu_div = f64_div,
     nu_le = f64_le, nu_lt = f64_lt, nu_sqrt = sq\<rparr>"

definition real_ops :: "real num_ops" where
  "real_ops = \<lparr>nu_nat = real, nu_add = (+), nu_sub = (-), nu_mul = (*), nu_div = (/), nu_le = (\<le>), nu_lt = (<), nu_sqrt = sqrt\<rparr>"

definition nu_max :: "'a num_ops \<Rightarrow> 'a \<Rightarrow> 'a \<Rightarrow> 'a" where "nu_max N a b = (if nu_lt N a b then b else a)"
definition nu_min :: "'a num_ops \<Rightarrow> 'a \<Rightarrow> 'a \<Rightarrow> 'a" where "nu_min N a b = (if nu_lt N b a then b else a)"

subsection \<open>The curve\<close>

fun rate_from :: "'a num_ops \<Rightarrow> 'a \<Rightarrow> 'a \<Rightarrow> stage list \<Rightarrow> 'a \<Rightarrow> 'a" where
  "rate_from N seg_start prev [] t = prev"
| "rate_from N seg_start prev (s # ss) t =
     (let seg_end = nu_add N seg_start (nu_nat N (sg_duration s)); target = nu_nat N (sg_target s) in
      if nu_le N t seg_end then
        (let span = nu_sub N seg_end seg_start in
         if nu_le N span (nu_nat N 0) then target
         else nu_add N prev (nu_mul N (nu_div N (nu_sub N t seg_start) span) (nu_sub N target prev)))
      else rate_from N seg_end target ss t)"

definition rate_at :: "'a num_ops \<Rightarrow> stage list \<Rightarrow> 'a \<Rightarrow> 'a" where
  "rate_at N stages t = rate_from N (nu_nat N 0) (nu_nat N 0) stages t"

record 'a rate_seg =
  se_t0 :: 'a
  se_dur :: 'a
  se_r0 :: 'a
  se_slope :: 'a
  se_cum0 :: 'a
  se_area :: 'a

record 'a arrival_schedule =
  as_segs :: "'a rate_seg list"
  as_cursor :: nat
  as_end_t :: 'a
  as_end_cum :: 'a
  as_tail_rate :: 'a

definition seg_of :: "'a num_ops \<Rightarrow> 'a \<Rightarrow> 'a \<Rightarrow> 'a \<Rightarrow> stage \<Rightarrow> 'a rate_seg" where
  "seg_of N t0 cum0 r0 s =
     (let dur = nu_nat N (sg_duration s); target = nu_nat N (sg_target s);
          (slope, area) = (if nu_lt N (nu_nat N 0) dur
             then (nu_div N (nu_sub N target r0) dur, nu_mul N (nu_div N (nu_add N r0 target) (nu_nat N 2)) dur)
             else (nu_nat N 0, nu_nat N 0))
      in \<lparr>se_t0 = t0, se_dur = dur, se_r0 = r0, se_slope = slope, se_cum0 = cum0, se_area = area\<rparr>)"

fun build_segs :: "'a num_ops \<Rightarrow> 'a \<Rightarrow> 'a \<Rightarrow> 'a \<Rightarrow> stage list \<Rightarrow> 'a rate_seg list \<times> 'a \<times> 'a \<times> 'a" where
  "build_segs N t0 cum0 r0 [] = ([], t0, cum0, r0)"
| "build_segs N t0 cum0 r0 (s # ss) =
     (let g = seg_of N t0 cum0 r0 s in
      apfst ((#) g) (build_segs N (nu_add N t0 (se_dur g)) (nu_add N cum0 (se_area g)) (nu_nat N (sg_target s)) ss))"

definition schedule_new :: "'a num_ops \<Rightarrow> stage list \<Rightarrow> 'a arrival_schedule" where
  "schedule_new N stages =
     (case build_segs N (nu_nat N 0) (nu_nat N 0) (nu_nat N 0) stages of (pieces, t, cum, r) \<Rightarrow>
        \<lparr>as_segs = pieces, as_cursor = 0, as_end_t = t, as_end_cum = cum, as_tail_rate = r\<rparr>)"

definition seg_holds :: "'a num_ops \<Rightarrow> 'a rate_seg \<Rightarrow> 'a \<Rightarrow> bool" where
  "seg_holds N g m \<longleftrightarrow> nu_lt N (nu_nat N 0) (se_area g) \<and> nu_le N m (nu_add N (se_cum0 g) (se_area g))"

definition seg_time :: "'a num_ops \<Rightarrow> 'a rate_seg \<Rightarrow> 'a \<Rightarrow> 'a" where
  "seg_time N g m =
     (let zero = nu_nat N 0; two = nu_nat N 2; delta = nu_max N (nu_sub N m (se_cum0 g)) zero in
      if nu_le N delta zero \<and> nu_le N zero delta then se_t0 g
      else
        let disc = nu_max N (nu_add N (nu_mul N (se_r0 g) (se_r0 g)) (nu_mul N (nu_mul N two (se_slope g)) delta)) zero;
            tau = nu_div N (nu_mul N two delta) (nu_add N (se_r0 g) (nu_sqrt N disc))
        in nu_add N (se_t0 g) (nu_min N tau (se_dur g)))"

text \<open>The cursor only moves forward.\<close>

function seek :: "'a num_ops \<Rightarrow> 'a rate_seg list \<Rightarrow> nat \<Rightarrow> 'a \<Rightarrow> nat" where
  "seek N pieces c m = (if length pieces \<le> c then c else if seg_holds N (pieces ! c) m then c else seek N pieces (c + 1) m)"
  by pat_completeness auto
termination by (relation "measure (\<lambda>(N, pieces, c, m). length pieces - c)") auto

declare seek.simps [simp del]

definition time_at :: "'a num_ops \<Rightarrow> 'a \<Rightarrow> 'a arrival_schedule \<Rightarrow> 'a option \<times> 'a arrival_schedule" where
  "time_at N m s =
     (let c = seek N (as_segs s) (as_cursor s) m; s' = s\<lparr>as_cursor := c\<rparr> in
      if c < length (as_segs s) then (Some (seg_time N (as_segs s ! c) m), s')
      else if nu_lt N (nu_nat N 0) (as_tail_rate s)
      then (Some (nu_add N (as_end_t s)
              (nu_div N (nu_max N (nu_sub N m (as_end_cum s)) (nu_nat N 0)) (as_tail_rate s))), s')
      else (None, s'))"

subsection \<open>The scheduling loop\<close>

text \<open>
  \<open>sd_pace\<close> is the fixed interval or the curve's schedule. The curve is asked in the arithmetic \<open>N\<close>;
  \<open>secs\<close> turns a time in seconds into nanoseconds since the start, or \<^const>\<open>None\<close> when it is not before
  the end of the run.
\<close>

datatype 'a pace_plan = FixedPace nat | CurvePace "'a arrival_schedule"

record 'a sched =
  sd_free :: "nat list"
  sd_flying :: "(nat \<times> nat) list"
  sd_dropped :: nat
  sd_arrivals :: nat
  sd_tick :: nat
  sd_next :: nat
  sd_exhausted :: bool
  sd_pace :: "'a pace_plan"

record 'a open_loop =
  ol_num :: "'a num_ops"
  ol_half :: 'a
  ol_secs :: "'a \<Rightarrow> nat option"
  ol_start :: nat
  ol_deadline :: nat
  ol_slots :: nat
  ol_vu_offset :: nat

definition fixed_interval :: "nat \<Rightarrow> nat" where
  "fixed_interval target_rps = max (1000000000 div target_rps) 1"

definition curve_time :: "'a open_loop \<Rightarrow> nat \<Rightarrow> 'a arrival_schedule \<Rightarrow> nat \<times> 'a arrival_schedule" where
  "curve_time L k s = (case time_at (ol_num L) (nu_add (ol_num L) (nu_nat (ol_num L) k) (ol_half L)) s of
      (Some t, s') \<Rightarrow> (case ol_secs L t of Some ns \<Rightarrow> (ol_start L + ns, s') | None \<Rightarrow> (ol_deadline L, s'))
    | (None, s') \<Rightarrow> (ol_deadline L, s'))"

definition sched_start :: "'a open_loop \<Rightarrow> nat option \<Rightarrow> stage list option \<Rightarrow> 'a sched" where
  "sched_start L target_rps stages =
     (let (nx, pc) = (case stages of
        None \<Rightarrow> (ol_start L, FixedPace (fixed_interval (max (unwrap_or 1 target_rps) 1)))
      | Some ss \<Rightarrow> apsnd CurvePace (curve_time L 0 (schedule_new (ol_num L) ss)))
      in \<lparr>sd_free = [0..<ol_slots L], sd_flying = [], sd_dropped = 0, sd_arrivals = 0, sd_tick = 0,
          sd_next = nx, sd_exhausted = False, sd_pace = pc\<rparr>)"

definition advance_next :: "'a open_loop \<Rightarrow> 'a sched \<Rightarrow> 'a sched" where
  "advance_next L s = (case sd_pace s of
      FixedPace d \<Rightarrow> s\<lparr>sd_next := sd_next s + d\<rparr>
    | CurvePace c \<Rightarrow> (case curve_time L (sd_tick s + 1) c of (nx, c') \<Rightarrow>
        s\<lparr>sd_tick := sd_tick s + 1, sd_next := nx, sd_pace := CurvePace c'\<rparr>))"

text \<open>What one turn of the loop does: stop, wait, drop an arrival or start one (slot, VU id, iteration id).\<close>

datatype turn = TurnStop | TurnWait nat | TurnDrop | TurnStart nat nat nat

definition sched_turn :: "'a open_loop \<Rightarrow> bool \<Rightarrow> nat \<Rightarrow> 'a sched \<Rightarrow> turn \<times> 'a sched" where
  "sched_turn L cancelled now s =
     (if cancelled \<or> sd_exhausted s \<or> ol_deadline L \<le> now then (TurnStop, s)
      else if now < sd_next s then (TurnWait (min (sd_next s) (ol_deadline L) - now), s)
      else case sd_free s of
        [] \<Rightarrow> (TurnDrop, advance_next L (s\<lparr>sd_dropped := sd_dropped s + 1\<rparr>))
      | slot # free \<Rightarrow>
          (TurnStart slot (sat_add_u32 (ol_vu_offset L) slot) (as_u32 (sd_arrivals s)),
           advance_next L (s\<lparr>sd_free := free, sd_flying := (slot, sd_arrivals s) # sd_flying s, sd_arrivals := sd_arrivals s + 1\<rparr>)))"

text \<open>An arrival ends, in any way: its slot goes back to the queue; an exhausted binding stops the scheduler.\<close>

definition sched_finish :: "nat \<Rightarrow> arrival_end \<Rightarrow> 'a sched \<Rightarrow> 'a sched" where
  "sched_finish slot e s = s\<lparr>sd_free := sd_free s @ [slot], sd_flying := filter (\<lambda>(x, _). x \<noteq> slot) (sd_flying s),
     sd_exhausted := sd_exhausted s \<or> e = ArrivalExhausted\<rparr>"

inductive sched_reach :: "'a open_loop \<Rightarrow> nat option \<Rightarrow> stage list option \<Rightarrow> turn list \<Rightarrow> 'a sched \<Rightarrow> bool"
  for L target stages
where
  sched_init: "sched_reach L target stages [] (sched_start L target stages)"
| sched_turned: "sched_reach L target stages ts s \<Longrightarrow> sched_turn L c now s = (t, s') \<Longrightarrow> sched_reach L target stages (ts @ [t]) s'"
| sched_finished: "sched_reach L target stages ts s \<Longrightarrow> (slot, k) \<in> set (sd_flying s) \<Longrightarrow>
    sched_reach L target stages ts (sched_finish slot e s)"

end
