(* ===== verification/Arrivals_Props.thy ===== *)
theory Arrivals_Props
  imports Arrivals
begin

text \<open>
  The slots of the open-loop scheduler are neither leaked nor shared and every attempt is accounted
  for; in exact arithmetic the arrival schedule inverts the integral of the rate curve.
\<close>

subsection \<open>Slots and attempts\<close>

definition starts :: "turn list \<Rightarrow> (nat \<times> nat \<times> nat) list" where
  "starts ts = List.map_filter (\<lambda>t. case t of TurnStart a b c \<Rightarrow> Some (a, b, c) | _ \<Rightarrow> None) ts"

definition drops :: "turn list \<Rightarrow> nat" where
  "drops ts = length (filter (\<lambda>t. t = TurnDrop) ts)"

lemma starts_append [simp]:
  "starts [] = []" "starts (ts @ [TurnStart a b c]) = starts ts @ [(a, b, c)]" "starts (ts @ [TurnDrop]) = starts ts"
  "starts (ts @ [TurnStop]) = starts ts" "starts (ts @ [TurnWait n]) = starts ts"
  by (simp_all add: starts_def List.map_filter_def)

lemma drops_append [simp]: "drops [] = 0" "drops (ts @ [t]) = drops ts + of_bool (t = TurnDrop)"
  by (simp_all add: drops_def)

lemma advance_next_simps [simp]:
  "sd_free (advance_next L s) = sd_free s" "sd_flying (advance_next L s) = sd_flying s"
  "sd_dropped (advance_next L s) = sd_dropped s" "sd_arrivals (advance_next L s) = sd_arrivals s"
  by (simp_all add: advance_next_def split: pace_plan.split prod.split)

definition paced :: "'a open_loop \<Rightarrow> 'a sched \<Rightarrow> bool" where
  "paced L s \<longleftrightarrow> (case sd_pace s of
     FixedPace d \<Rightarrow> sd_next s = ol_start L + (sd_arrivals s + sd_dropped s) * d
   | CurvePace c \<Rightarrow> sd_tick s = sd_arrivals s + sd_dropped s)"

definition slots_ok :: "'a open_loop \<Rightarrow> 'a sched \<Rightarrow> bool" where
  "slots_ok L s \<longleftrightarrow> distinct (sd_free s @ map fst (sd_flying s)) \<and> set (sd_free s) \<union> fst ` set (sd_flying s) = {0..<ol_slots L}"

definition sched_inv :: "'a open_loop \<Rightarrow> turn list \<Rightarrow> 'a sched \<Rightarrow> bool" where
  "sched_inv L ts s \<longleftrightarrow> slots_ok L s \<and> paced L s \<and> sd_dropped s = drops ts
     \<and> map (snd \<circ> snd) (starts ts) = map as_u32 [0..<sd_arrivals s]
     \<and> list_all (\<lambda>(slot, vu, it). slot < ol_slots L \<and> vu = sat_add_u32 (ol_vu_offset L) slot) (starts ts)"

lemma inv_start: "sched_inv L [] (sched_start L target stages)"
proof (cases stages)
  case (Some ss)
  obtain nx c where "curve_time L 0 (schedule_new (ol_num L) ss) = (nx, c)" by fastforce
  with Some show ?thesis by (auto simp: sched_inv_def slots_ok_def paced_def sched_start_def)
qed (auto simp: sched_inv_def slots_ok_def paced_def sched_start_def)

lemma paced_advance:
  assumes "paced L s" "sd_arrivals s' + sd_dropped s' = Suc (sd_arrivals s + sd_dropped s)" "sd_next s' = sd_next s"
    "sd_tick s' = sd_tick s" "sd_pace s' = sd_pace s"
  shows "paced L (advance_next L s')"
  using assms(1)
  by (auto simp: paced_def advance_next_def assms(2-) add.commute add.left_commute split: pace_plan.splits prod.splits)

lemma inv_turn:
  assumes inv: "sched_inv L ts s" and t: "sched_turn L c now s = (t, s')"
  shows "sched_inv L (ts @ [t]) s'"
proof (cases "c \<or> sd_exhausted s \<or> ol_deadline L \<le> now \<or> now < sd_next s")
  case True
  then have "s' = s \<and> (t = TurnStop \<or> (\<exists>n. t = TurnWait n))" using t by (auto simp: sched_turn_def split: if_splits)
  then show ?thesis using inv by (auto simp: sched_inv_def)
next
  case False
  show ?thesis
  proof (cases "sd_free s")
    case Nil
    let ?s = "s\<lparr>sd_dropped := sd_dropped s + 1\<rparr>"
    have eq: "t = TurnDrop" "s' = advance_next L ?s" using t False Nil by (simp_all add: sched_turn_def)
    have "paced L s'" unfolding eq using inv by (intro paced_advance [of L s]) (simp_all add: sched_inv_def)
    then show ?thesis using inv by (simp add: sched_inv_def slots_ok_def eq)
  next
    case (Cons slot free)
    let ?s = "s\<lparr>sd_free := free, sd_flying := (slot, sd_arrivals s) # sd_flying s, sd_arrivals := sd_arrivals s + 1\<rparr>"
    have eq: "t = TurnStart slot (sat_add_u32 (ol_vu_offset L) slot) (as_u32 (sd_arrivals s))" "s' = advance_next L ?s"
      using t False Cons by (simp_all add: sched_turn_def)
    have p: "paced L s'" unfolding eq using inv by (intro paced_advance [of L s]) (simp_all add: sched_inv_def)
    have so: "slots_ok L s" using inv by (simp add: sched_inv_def)
    then have "slot < ol_slots L" and "slots_ok L s'" by (auto simp: slots_ok_def Cons eq)
    then show ?thesis using inv p by (simp add: sched_inv_def eq)
  qed
qed

lemma inv_finish:
  assumes inv: "sched_inv L ts s" and sl: "(slot, k) \<in> set (sd_flying s)"
  shows "sched_inv L ts (sched_finish slot e s)"
proof -
  have d: "distinct (map fst (sd_flying s))" and ok: "slots_ok L s" using inv by (auto simp: sched_inv_def slots_ok_def)
  have keys: "fst ` set (filter (\<lambda>(x, _). x \<noteq> slot) (sd_flying s)) = fst ` set (sd_flying s) - {slot}" by force
  have dist: "distinct (map fst (filter (\<lambda>(x, _). x \<noteq> slot) (sd_flying s)))" using d by (auto simp: distinct_map intro: inj_on_subset)
  have "slot \<in> fst ` set (sd_flying s)" using sl by force
  moreover define fl where "fl = filter (\<lambda>(x, _). x \<noteq> slot) (sd_flying s)"
  ultimately have "slots_ok L (sched_finish slot e s)"
    using ok dist keys unfolding slots_ok_def sched_finish_def fl_def [symmetric] by auto
  then show ?thesis using inv by (cases "sd_pace s") (simp_all add: sched_inv_def paced_def sched_finish_def)
qed

lemma reach_inv: "sched_reach L target stages ts s \<Longrightarrow> sched_inv L ts s"
  by (induction rule: sched_reach.induct) (auto intro: inv_start inv_turn inv_finish)

text \<open>
  C22: The open-loop scheduler keeps its slot pool intact in every reachable state: each of the
  \<open>max_in_flight\<close> slots is either free or carries exactly one arrival, so no two arrivals ever share a
  client and its cookie jar, none is lost, and at most \<open>max_in_flight\<close> are in flight. Every attempt is
  started or counted as dropped: the started ones carry the iteration ids 0, 1, 2, .. in order (modulo
  2^32) and the VU id of their slot, the dropped ones add up to the reported total, and at a fixed rate
  the next attempt is due exactly one interval per attempt after the start, so no delay is ever
  accumulated.
\<close>

theorem open_loop_slots:
  assumes "sched_reach L target stages ts s"
  shows "distinct (sd_free s @ map fst (sd_flying s)) \<and> set (sd_free s) \<union> fst ` set (sd_flying s) = {0..<ol_slots L}
    \<and> length (sd_flying s) \<le> ol_slots L
    \<and> map (snd \<circ> snd) (starts ts) = map as_u32 [0..<sd_arrivals s]
    \<and> list_all (\<lambda>(slot, vu, it). slot < ol_slots L \<and> vu = sat_add_u32 (ol_vu_offset L) slot) (starts ts)
    \<and> sd_dropped s = drops ts
    \<and> (case sd_pace s of FixedPace d \<Rightarrow> sd_next s = ol_start L + (length (starts ts) + drops ts) * d
        | CurvePace c \<Rightarrow> sd_tick s = length (starts ts) + drops ts)"
proof -
  have inv: "sched_inv L ts s" using assms by (rule reach_inv)
  have len: "length (starts ts) = sd_arrivals s"
    using inv arg_cong [of "map (snd \<circ> snd) (starts ts)" _ length] by (simp add: sched_inv_def) (metis length_map length_upt minus_nat.diff_0)
  have "card (set (map fst (sd_flying s))) \<le> card {0..<ol_slots L}"
    using inv by (intro card_mono) (auto simp: sched_inv_def slots_ok_def)
  moreover have "card (set (map fst (sd_flying s))) = length (sd_flying s)"
    using inv distinct_card [of "map fst (sd_flying s)"] by (simp add: sched_inv_def slots_ok_def)
  ultimately show ?thesis using inv len by (auto simp: sched_inv_def slots_ok_def paced_def split: pace_plan.splits)
qed

text \<open>Two slots, five requests per second: the third attempt is dropped, the fourth reuses slot 0.\<close>

definition demo_loop :: "real open_loop" where
  "demo_loop = \<lparr>ol_num = real_ops, ol_half = 1 / 2, ol_secs = (\<lambda>_. None), ol_start = 0, ol_deadline = 1000000000, ol_slots = 2,
     ol_vu_offset = 10\<rparr>"

theorem open_loop_slots_witness:
  "\<exists>s. sched_reach demo_loop (Some 5) None [TurnStart 0 10 0, TurnStart 1 11 1, TurnDrop, TurnStart 0 10 2] s
     \<and> sd_next s = 800000000 \<and> set (sd_free s) \<union> fst ` set (sd_flying s) = {0..<2}"
proof -
  let ?r = "sched_reach demo_loop (Some 5) None"
  define s0 where "s0 = sched_start demo_loop (Some 5) None"
  have s0: "sd_free s0 = [0, 1]" "sd_flying s0 = []" "sd_next s0 = 0" "sd_pace s0 = FixedPace 200000000" "sd_arrivals s0 = 0" "\<not> sd_exhausted s0"
    by (simp_all add: s0_def sched_start_def demo_loop_def fixed_interval_def unwrap_or_def upt_rec)
  note eval = sched_turn_def advance_next_def demo_loop_def sat_add_u32_def as_u32_def
  define s1 where "s1 = snd (sched_turn demo_loop False 0 s0)"
  define s2 where "s2 = snd (sched_turn demo_loop False 200000000 s1)"
  define s3 where "s3 = snd (sched_turn demo_loop False 400000000 s2)"
  define s4 where "s4 = sched_finish 0 ArrivalDone s3"
  define s5 where "s5 = snd (sched_turn demo_loop False 600000000 s4)"
  have s1: "sched_turn demo_loop False 0 s0 = (TurnStart 0 10 0, s1)" "sd_free s1 = [1]" "sd_flying s1 = [(0, 0)]" "sd_next s1 = 200000000"
    "sd_pace s1 = FixedPace 200000000" "sd_arrivals s1 = 1" "\<not> sd_exhausted s1"
    using s0 by (simp_all add: s1_def eval)
  have s2: "sched_turn demo_loop False 200000000 s1 = (TurnStart 1 11 1, s2)" "sd_free s2 = []" "sd_flying s2 = [(1, 1), (0, 0)]"
    "sd_next s2 = 400000000" "sd_pace s2 = FixedPace 200000000" "sd_arrivals s2 = 2" "\<not> sd_exhausted s2"
    using s1 by (simp_all add: s2_def eval)
  have s3: "sched_turn demo_loop False 400000000 s2 = (TurnDrop, s3)" "sd_free s3 = []" "sd_flying s3 = [(1, 1), (0, 0)]"
    "sd_next s3 = 600000000" "sd_pace s3 = FixedPace 200000000" "sd_arrivals s3 = 2" "\<not> sd_exhausted s3"
    using s2 by (simp_all add: s3_def eval)
  have s4: "sd_free s4 = [0]" "sd_flying s4 = [(1, 1)]" "sd_next s4 = 600000000" "sd_pace s4 = FixedPace 200000000" "sd_arrivals s4 = 2" "\<not> sd_exhausted s4"
    using s3 by (simp_all add: s4_def sched_finish_def)
  have s5: "sched_turn demo_loop False 600000000 s4 = (TurnStart 0 10 2, s5)" "sd_next s5 = 800000000"
    using s4 by (simp_all add: s5_def eval)
  have "?r [] s0" unfolding s0_def by (rule sched_init)
  then have "?r [TurnStart 0 10 0] s1" using sched_turned [OF _ s1(1)] by fastforce
  then have "?r [TurnStart 0 10 0, TurnStart 1 11 1] s2" using sched_turned [OF _ s2(1)] by fastforce
  then have "?r [TurnStart 0 10 0, TurnStart 1 11 1, TurnDrop] s3" using sched_turned [OF _ s3(1)] by fastforce
  then have "?r [TurnStart 0 10 0, TurnStart 1 11 1, TurnDrop] s4" unfolding s4_def using s3(3) by (intro sched_finished [of _ _ _ _ _ 0 0]) auto
  then have r: "?r [TurnStart 0 10 0, TurnStart 1 11 1, TurnDrop, TurnStart 0 10 2] s5" using sched_turned [OF _ s5(1)] by fastforce
  have "ol_slots demo_loop = 2" by (simp add: demo_loop_def)
  note all = open_loop_slots [OF r, unfolded this]
  show ?thesis by (rule exI [of _ s5], intro conjI, rule r, rule s5(2), rule all [THEN conjunct2, THEN conjunct1])
qed

subsection \<open>The inverse of the rate curve\<close>

text \<open>The integral of the rate over the first \<open>t\<close> seconds, starting from the rate \<open>r0\<close>.\<close>

fun arrivals_by :: "real \<Rightarrow> stage list \<Rightarrow> real \<Rightarrow> real" where
  "arrivals_by r0 [] t = r0 * t"
| "arrivals_by r0 (s # ss) t =
     (let d = real (sg_duration s); g = real (sg_target s) in
      if t \<le> d then r0 * t + (g - r0) / d * t\<^sup>2 / 2 else (r0 + g) / 2 * d + arrivals_by g ss (t - d))"

lemmas real_simps = real_ops_def nu_max_def nu_min_def

lemma ramp_quadratic:
  fixes r0 g d \<Delta> :: real
  assumes d: "0 < d" and r0: "0 \<le> r0" and g: "0 \<le> g" and \<Delta>: "0 < \<Delta>" "\<Delta> \<le> (r0 + g) / 2 * d"
  defines "s \<equiv> (g - r0) / d"
  defines "q \<equiv> sqrt (max (r0 * r0 + 2 * s * \<Delta>) 0)"
  defines "\<tau> \<equiv> 2 * \<Delta> / (r0 + q)"
  shows "0 < \<tau> \<and> \<tau> \<le> d \<and> r0 * \<tau> + s * \<tau>\<^sup>2 / 2 = \<Delta> \<and> (\<forall>x. 0 \<le> x \<and> x < \<tau> \<longrightarrow> r0 * x + s * x\<^sup>2 / 2 < \<Delta>)"
proof -
  have sd: "s * d = g - r0" using d by (simp add: s_def)
  have disc: "0 \<le> r0 * r0 + 2 * s * \<Delta>"
  proof (cases "0 \<le> s")
    case False
    have "2 * s * ((r0 + g) / 2 * d) \<le> 2 * s * \<Delta>" using False \<Delta>(2) by (simp add: mult_left_mono_neg)
    moreover have "2 * s * ((r0 + g) / 2 * d) = (s * d) * (r0 + g)" by simp
    ultimately have "(s * d) * (r0 + g) \<le> 2 * s * \<Delta>" by metis
    then have "(g - r0) * (r0 + g) \<le> 2 * s * \<Delta>" unfolding sd .
    then have "g * g \<le> r0 * r0 + 2 * s * \<Delta>" by (simp add: algebra_simps)
    then show ?thesis by (rule order_trans [rotated]) simp
  qed (use \<Delta> in simp)
  then have q2: "q * q = r0 * r0 + 2 * s * \<Delta>" and q0: "0 \<le> q" by (simp_all add: q_def)
  have pos: "0 < r0 + q"
  proof (rule ccontr)
    assume "\<not> 0 < r0 + q"
    then have z: "r0 = 0" "q = 0" using r0 q0 by auto
    then have "s = 0" using q2 \<Delta>(1) by simp
    then have "g = 0" using sd z by simp
    then show False using \<Delta> z by simp
  qed
  have t: "\<tau> * (r0 + q) = 2 * \<Delta>" and t0: "0 < \<tau>" using pos \<Delta>(1) by (simp_all add: \<tau>_def)
  have "(q - r0) * (r0 + q) = s * (\<tau> * (r0 + q))" using q2 t by (simp add: algebra_simps)
  then have "(q - r0 - s * \<tau>) * (r0 + q) = 0" by (simp add: algebra_simps)
  then have q: "r0 + s * \<tau> = q" using pos by simp
  have val: "r0 * \<tau> + s * \<tau>\<^sup>2 / 2 = \<Delta>"
  proof -
    have "2 * (r0 * \<tau> + s * \<tau>\<^sup>2 / 2) = \<tau> * (r0 + (r0 + s * \<tau>))" by (simp add: power2_eq_square algebra_simps)
    then show ?thesis using t q by simp
  qed
  have diff: "2 * ((r0 * y + s * y\<^sup>2 / 2) - (r0 * x + s * x\<^sup>2 / 2)) = (y - x) * ((r0 + s * x) + (r0 + s * y))" for x y
    by (simp add: power2_eq_square algebra_simps)
  have td: "\<tau> \<le> d"
  proof (rule ccontr)
    assume n: "\<not> \<tau> \<le> d"
    have "s * d\<^sup>2 = (g - r0) * d" unfolding power2_eq_square by (simp only: sd mult.assoc [symmetric])
    then have "r0 * d + s * d\<^sup>2 / 2 = (r0 + g) / 2 * d" by (simp add: algebra_simps)
    then have le: "\<Delta> \<le> r0 * d + s * d\<^sup>2 / 2" using \<Delta>(2) by simp
    have rd: "r0 + s * d = g" using sd by simp
    have eq: "2 * (\<Delta> - (r0 * d + s * d\<^sup>2 / 2)) = (\<tau> - d) * (g + q)" using diff [of \<tau> d] val q rd by simp
    have nn: "0 \<le> (\<tau> - d) * (g + q)" using n g q0 by simp
    have key: "2 * (D - W) = R \<Longrightarrow> D \<le> W \<Longrightarrow> 0 \<le> R \<Longrightarrow> R = 0" for D W R :: real by simp
    have "(\<tau> - d) * (g + q) = 0" by (rule key [OF eq le nn])
    then have "g = 0" "q = 0" using n g q0 by auto
    then have "s * \<tau> = s * d" using q rd by linarith
    then have "s = 0" using n by simp
    then have "r0 = 0" using rd \<open>g = 0\<close> by simp
    then show False using \<Delta> \<open>g = 0\<close> by simp
  qed
  have lt: "r0 * x + s * x\<^sup>2 / 2 < \<Delta>" if "0 \<le> x" "x < \<tau>" for x
  proof -
    have rx: "0 \<le> r0 + s * x"
    proof (cases "0 \<le> s")
      case False
      then have "s * d \<le> s * x" using that td by (simp add: mult_left_mono_neg)
      then show ?thesis using sd g by simp
    qed (use r0 that in simp)
    have "0 < (\<tau> - x) * ((r0 + s * x) + q)"
    proof (rule ccontr)
      assume n: "\<not> 0 < (\<tau> - x) * ((r0 + s * x) + q)"
      have "0 \<le> (r0 + s * x) + q" using rx q0 by simp
      with n that have "(r0 + s * x) + q = 0" by (metis diff_gt_0_iff_gt mult_pos_pos order_le_less)
      then have z: "r0 + s * x = 0" "q = 0" using rx q0 by auto
      then have "s * \<tau> = s * x" using q by linarith
      then have "s = 0" using that by simp
      then show False using z pos by simp
    qed
    then show ?thesis using diff [of \<tau> x] val q by simp
  qed
  show ?thesis using t0 td val lt by blast
qed

fun inverse_at :: "real \<Rightarrow> real \<Rightarrow> real \<Rightarrow> stage list \<Rightarrow> real \<Rightarrow> real option" where
  "inverse_at t0 c0 r0 [] m = (if 0 < r0 then Some (t0 + max (m - c0) 0 / r0) else None)"
| "inverse_at t0 c0 r0 (s # ss) m =
     (let g = seg_of real_ops t0 c0 r0 s in
      if seg_holds real_ops g m then Some (seg_time real_ops g m)
      else inverse_at (t0 + se_dur g) (c0 + se_area g) (real (sg_target s)) ss m)"

definition all_run :: "stage list \<Rightarrow> bool" where "all_run ss = list_all (\<lambda>s. 0 < sg_duration s) ss"

lemma seg_of_real:
  "0 < sg_duration s \<Longrightarrow> seg_of real_ops t0 c0 r0 s =
     \<lparr>se_t0 = t0, se_dur = real (sg_duration s), se_r0 = r0, se_slope = (real (sg_target s) - r0) / real (sg_duration s),
      se_cum0 = c0, se_area = (r0 + real (sg_target s)) / 2 * real (sg_duration s)\<rparr>"
  by (simp add: seg_of_def real_ops_def Let_def)

lemma ramp_le_area:
  fixes r0 g d x :: real
  assumes "0 < d" "0 \<le> r0" "0 \<le> g" "0 \<le> x" "x \<le> d"
  shows "r0 * x + (g - r0) / d * x\<^sup>2 / 2 \<le> (r0 + g) / 2 * d"
proof -
  have key: "0 \<le> R \<Longrightarrow> 2 * (P - Q) = R \<Longrightarrow> Q \<le> P" for P Q R :: real by simp
  have eq: "2 * ((r0 + g) / 2 * d - (r0 * x + (g - r0) / d * x\<^sup>2 / 2)) = (d - x) * (r0 * ((d - x) / d) + g * (x / d) + g)"
    using assms(1) by (simp add: power2_eq_square field_simps)
  have "0 \<le> (d - x) * (r0 * ((d - x) / d) + g * (x / d) + g)"
    using assms by (intro mult_nonneg_nonneg add_nonneg_nonneg) simp_all
  from key [OF this eq] show ?thesis .
qed

lemma seg_time_real:
  "0 < m - se_cum0 g \<Longrightarrow> seg_time real_ops g m = se_t0 g + min (2 * (m - se_cum0 g)
     / (se_r0 g + sqrt (max (se_r0 g * se_r0 g + 2 * se_slope g * (m - se_cum0 g)) 0))) (se_dur g)"
  by (simp add: seg_time_def real_simps Let_def max_def min_def)

lemma inverse_at_correct:
  "all_run ss \<Longrightarrow> 0 \<le> r0 \<Longrightarrow> c0 < m \<Longrightarrow>
   (case inverse_at t0 c0 r0 ss m of
      Some t \<Rightarrow> t0 < t \<and> c0 + arrivals_by r0 ss (t - t0) = m \<and> (\<forall>x. 0 \<le> x \<and> x < t - t0 \<longrightarrow> c0 + arrivals_by r0 ss x < m)
    | None \<Rightarrow> \<forall>x \<ge> 0. c0 + arrivals_by r0 ss x < m)"
proof (induction ss arbitrary: t0 c0 r0)
  case Nil
  then show ?case by (auto simp: field_simps)
next
  case (Cons s ss)
  let ?d = "real (sg_duration s)" and ?g = "real (sg_target s)"
  have d: "0 < ?d" and ds: "0 < sg_duration s" and rest: "all_run ss" using Cons.prems by (simp_all add: all_run_def)
  let ?A = "(r0 + ?g) / 2 * ?d"
  have A0: "0 \<le> ?A" using d Cons.prems by simp
  note sg = seg_of_real [OF ds, of t0 c0 r0]
  show ?case
  proof (cases "0 < ?A \<and> m \<le> c0 + ?A")
    case True
    let ?\<Delta> = "m - c0"
    have \<Delta>: "0 < ?\<Delta>" "?\<Delta> \<le> ?A" using True Cons.prems by auto
    let ?s = "(?g - r0) / ?d"
    let ?\<tau> = "2 * ?\<Delta> / (r0 + sqrt (max (r0 * r0 + 2 * ?s * ?\<Delta>) 0))"
    note rq = ramp_quadratic [OF d Cons.prems(2) _ \<Delta>]
    have inv: "inverse_at t0 c0 r0 (s # ss) m = Some (t0 + ?\<tau>)"
    proof -
      have "seg_holds real_ops (seg_of real_ops t0 c0 r0 s) m" using True unfolding sg by (simp add: seg_holds_def real_ops_def)
      moreover have "seg_time real_ops (seg_of real_ops t0 c0 r0 s) m = t0 + ?\<tau>"
        using seg_time_real [of m "seg_of real_ops t0 c0 r0 s"] \<Delta>(1) rq unfolding sg rate_seg.simps by (simp only: min_absorb1 of_nat_0_le_iff)
      ultimately show ?thesis by (simp add: Let_def)
    qed
    show ?thesis using rq Cons.prems(3) unfolding inv by (auto simp: Let_def)
  next
    case False
    then have lt: "c0 + ?A < m" using A0 Cons.prems by linarith
    have "\<not> seg_holds real_ops (seg_of real_ops t0 c0 r0 s) m"
      using False unfolding sg by (simp add: seg_holds_def real_ops_def)
    then have inv: "inverse_at t0 c0 r0 (s # ss) m = inverse_at (t0 + ?d) (c0 + ?A) ?g ss m"
      by (simp only: inverse_at.simps Let_def if_False) (simp only: sg rate_seg.simps)
    have below: "c0 + (r0 * x + (?g - r0) / ?d * x\<^sup>2 / 2) < m" if "0 \<le> x" "x \<le> ?d" for x
      using add_le_less_mono [OF ramp_le_area [OF d Cons.prems(2) of_nat_0_le_iff that, of "sg_target s"] lt] 
      by (metis add.commute add_left_mono le_less_trans lt ramp_le_area [OF d Cons.prems(2) of_nat_0_le_iff that, of "sg_target s"])
    note IH = Cons.IH [OF rest _ lt, of ?g "t0 + ?d"]
    have ab: "arrivals_by r0 (s # ss) x = (if x \<le> ?d then r0 * x + (?g - r0) / ?d * x\<^sup>2 / 2
        else ?A + arrivals_by ?g ss (x - ?d))" for x
      by (simp add: Let_def)
    have upto: "c0 + arrivals_by r0 (s # ss) x < m"
      if "0 \<le> x" "?d < x \<Longrightarrow> c0 + ?A + arrivals_by ?g ss (x - ?d) < m" for x
      using below [of x] that unfolding ab by (cases "x \<le> ?d") auto
    show ?thesis
    proof (cases "inverse_at (t0 + ?d) (c0 + ?A) ?g ss m")
      case None
      then show ?thesis using IH upto unfolding inv by simp
    next
      case (Some t)
      have t: "t0 + ?d < t" "c0 + ?A + arrivals_by ?g ss (t - (t0 + ?d)) = m"
        and low: "\<And>x. 0 \<le> x \<Longrightarrow> x < t - (t0 + ?d) \<Longrightarrow> c0 + ?A + arrivals_by ?g ss x < m"
        using IH Some by auto
      have "c0 + arrivals_by r0 (s # ss) (t - t0) = m" using t unfolding ab by (simp add: diff_diff_eq)
      moreover have "c0 + arrivals_by r0 (s # ss) x < m" if "0 \<le> x" "x < t - t0" for x
        using that low [of "x - ?d"] by (intro upto) auto
      ultimately show ?thesis using t(1) d unfolding inv Some by simp
    qed
  qed
qed

text \<open>The schedule with its cursor computes \<open>inverse_at\<close>.\<close>

lemma seek_shift: "seek N (g # gs) (Suc c) m = Suc (seek N gs c m)"
proof (induction "length gs - c" arbitrary: c)
  case 0
  then show ?case by (subst (1 2) seek.simps) simp
next
  case (Suc n)
  show ?case
  proof (cases "seg_holds N (gs ! c) m")
    case True
    then show ?thesis using Suc(2) by (subst (1 2) seek.simps) simp
  next
    case False
    have "seek N (g # gs) (Suc (Suc c)) m = Suc (seek N gs (Suc c) m)" using Suc(2) by (intro Suc(1)) simp
    with False Suc(2) show ?thesis by (subst (1 2) seek.simps) simp
  qed
qed

lemma seek_skip:
  "c \<le> length gs \<Longrightarrow> (\<And>i. i < c \<Longrightarrow> \<not> seg_holds N (gs ! i) m) \<Longrightarrow> seek N gs 0 m = seek N gs c m"
proof (induction c)
  case (Suc c)
  then have "seek N gs 0 m = seek N gs c m" by simp
  also have "\<dots> = seek N gs (Suc c) m" using Suc.prems by (subst seek.simps) simp
  finally show ?case .
qed simp

lemma seek_before: "i < seek N gs c m \<Longrightarrow> c \<le> i \<Longrightarrow> \<not> seg_holds N (gs ! i) m"
proof (induction "length gs - c" arbitrary: c)
  case 0
  then show ?case by (subst (asm) seek.simps) simp
next
  case (Suc n)
  show ?case
  proof (cases "seg_holds N (gs ! c) m")
    case True
    then have "seek N gs c m = c" by (subst seek.simps) simp
    then show ?thesis using Suc(3,4) by simp
  next
    case False
    moreover have "c < length gs" using Suc(2) by linarith
    ultimately have "seek N gs c m = seek N gs (Suc c) m" by (subst seek.simps) simp
    then have "i < seek N gs (Suc c) m" using Suc(3) by simp
    then show ?thesis using Suc(1) [of "Suc c"] Suc(2,4) False by (cases "i = c") (auto simp: Suc_le_eq)
  qed
qed

lemma seek_bound: "c \<le> length gs \<Longrightarrow> seek N gs c m \<le> length gs"
proof (induction "length gs - c" arbitrary: c)
  case (Suc n)
  then show ?case by (subst seek.simps) auto
qed (subst seek.simps, simp)

definition fresh_at :: "'a num_ops \<Rightarrow> 'a \<Rightarrow> 'a rate_seg list \<times> 'a \<times> 'a \<times> 'a \<Rightarrow> 'a option" where
  "fresh_at N m s = (case s of (gs, t, cum, r) \<Rightarrow>
     let c = seek N gs 0 m in
     if c < length gs then Some (seg_time N (gs ! c) m)
     else if nu_lt N (nu_nat N 0) r then Some (nu_add N t (nu_div N (nu_max N (nu_sub N m cum) (nu_nat N 0)) r)) else None)"

lemma fresh_inverse: "fresh_at real_ops m (build_segs real_ops t0 c0 r0 ss) = inverse_at t0 c0 r0 ss m"
proof (induction ss arbitrary: t0 c0 r0)
  case Nil
  have "seek real_ops [] 0 m = 0" by (subst seek.simps) simp
  then show ?case by (simp add: fresh_at_def real_simps max_def)
next
  case (Cons s ss)
  let ?g = "seg_of real_ops t0 c0 r0 s"
  obtain gs t cum r where b: "build_segs real_ops (t0 + se_dur ?g) (c0 + se_area ?g) (real (sg_target s)) ss = (gs, t, cum, r)"
    by (metis prod_cases4)
  have b': "build_segs real_ops t0 c0 r0 (s # ss) = (?g # gs, t, cum, r)"
    using b by (simp add: Let_def) (simp add: real_ops_def)
  show ?case
  proof (cases "seg_holds real_ops ?g m")
    case True
    then have "seek real_ops (?g # gs) 0 m = 0" by (subst seek.simps) simp
    then show ?thesis unfolding b' using True by (simp add: fresh_at_def Let_def)
  next
    case False
    then have "seek real_ops (?g # gs) 0 m = Suc (seek real_ops gs 0 m)" by (subst seek.simps) (simp add: seek_shift)
    then have "fresh_at real_ops m (?g # gs, t, cum, r) = fresh_at real_ops m (gs, t, cum, r)" by (simp add: fresh_at_def Let_def)
    then show ?thesis unfolding b' using Cons [of "t0 + se_dur ?g" "c0 + se_area ?g" "real (sg_target s)"] False
      by (simp add: b Let_def)
  qed
qed

fun times_of :: "'a num_ops \<Rightarrow> 'a arrival_schedule \<Rightarrow> 'a list \<Rightarrow> 'a option list" where
  "times_of N s [] = []"
| "times_of N s (m # ms) = (case time_at N m s of (t, s') \<Rightarrow> t # times_of N s' ms)"

definition behind :: "real arrival_schedule \<Rightarrow> real \<Rightarrow> bool" where
  "behind s m \<longleftrightarrow> as_cursor s \<le> length (as_segs s) \<and> (\<forall>i < as_cursor s. \<not> seg_holds real_ops (as_segs s ! i) m)"

lemma time_at_fresh:
  assumes "behind s m"
  shows "fst (time_at real_ops m s) = fresh_at real_ops m (as_segs s, as_end_t s, as_end_cum s, as_tail_rate s)"
    and "m \<le> m' \<Longrightarrow> behind (snd (time_at real_ops m s)) m'"
proof -
  have sk: "seek real_ops (as_segs s) 0 m = seek real_ops (as_segs s) (as_cursor s) m"
    using assms by (intro seek_skip) (simp_all add: behind_def)
  then show "fst (time_at real_ops m s) = fresh_at real_ops m (as_segs s, as_end_t s, as_end_cum s, as_tail_rate s)"
    by (simp add: time_at_def fresh_at_def Let_def)
  assume le: "m \<le> m'"
  let ?c = "seek real_ops (as_segs s) (as_cursor s) m"
  have "snd (time_at real_ops m s) = s\<lparr>as_cursor := ?c\<rparr>" by (simp add: time_at_def Let_def)
  moreover have "?c \<le> length (as_segs s)" using assms by (intro seek_bound) (simp add: behind_def)
  moreover have "\<not> seg_holds real_ops (as_segs s ! i) m'" if "i < ?c" for i
  proof -
    have "\<not> seg_holds real_ops (as_segs s ! i) m"
      using that assms seek_before [of i real_ops "as_segs s" "as_cursor s" m] by (cases "i < as_cursor s") (auto simp: behind_def)
    then show ?thesis using le by (auto simp: seg_holds_def real_ops_def)
  qed
  ultimately show "behind (snd (time_at real_ops m s)) m'" by (simp add: behind_def)
qed

lemma times_inverse:
  assumes "as_segs s = gs" "as_end_t s = t" "as_end_cum s = cum" "as_tail_rate s = r" "sorted ms" "\<forall>m \<in> set ms. behind s m"
  shows "times_of real_ops s ms = map (\<lambda>m. fresh_at real_ops m (gs, t, cum, r)) ms"
  using assms
proof (induction ms arbitrary: s)
  case (Cons m ms)
  obtain t' s' where ta: "time_at real_ops m s = (t', s')" by fastforce
  have b: "behind s m" using Cons.prems by simp
  have s': "as_segs s' = gs" "as_end_t s' = t" "as_end_cum s' = cum" "as_tail_rate s' = r"
    using ta Cons.prems by (auto simp: time_at_def Let_def split: if_splits)
  have beh: "\<forall>m' \<in> set ms. behind s' m'" using time_at_fresh(2) [OF b] ta Cons.prems(5) by auto
  show ?case using Cons.IH [OF s' _ beh] time_at_fresh(1) [OF b] ta Cons.prems by auto
qed simp

lemma schedule_times:
  "sorted ms \<Longrightarrow> times_of real_ops (schedule_new real_ops stages) ms = map (inverse_at 0 0 0 stages) ms"
proof -
  assume srt: "sorted ms"
  obtain gs t cum r where b: "build_segs real_ops 0 0 0 stages = (gs, t, cum, r)" by (metis prod_cases4)
  have s: "schedule_new real_ops stages = \<lparr>as_segs = gs, as_cursor = 0, as_end_t = t, as_end_cum = cum, as_tail_rate = r\<rparr>"
    using b by (simp add: schedule_new_def real_ops_def)
  have "times_of real_ops (schedule_new real_ops stages) ms = map (\<lambda>m. fresh_at real_ops m (gs, t, cum, r)) ms"
    using srt by (intro times_inverse) (simp_all add: s behind_def)
  then show ?thesis using fresh_inverse [of _ 0 0 0 stages] by (simp add: b)
qed

text \<open>
  C23: In exact arithmetic the arrival schedule is the inverse of the integrated rate curve: asked for
  any non-decreasing sequence of positive amounts, it answers each with the earliest time at which the
  curve has produced that amount, and with \<open>None\<close> exactly when the curve never does. The cursor that
  makes it fast does not change the answers.
\<close>

theorem arrival_schedule_inverse:
  assumes "list_all (\<lambda>s. 0 < sg_duration s) stages" "sorted ms" "list_all (\<lambda>m. 0 < m) ms"
  shows "list_all2 (\<lambda>m t. case t of
        Some t \<Rightarrow> 0 < t \<and> arrivals_by 0 stages t = m \<and> (\<forall>x. 0 \<le> x \<and> x < t \<longrightarrow> arrivals_by 0 stages x < m)
      | None \<Rightarrow> \<forall>x \<ge> 0. arrivals_by 0 stages x < m)
    ms (times_of real_ops (schedule_new real_ops stages) ms)"
  unfolding schedule_times [OF assms(2)] list_all2_map2
proof (rule list_all2I)
  show "length ms = length ms" by simp
  show "\<forall>x \<in> set (zip ms ms). case x of (m, m') \<Rightarrow> (case inverse_at 0 0 0 stages m' of
        Some t \<Rightarrow> 0 < t \<and> arrivals_by 0 stages t = m \<and> (\<forall>x. 0 \<le> x \<and> x < t \<longrightarrow> arrivals_by 0 stages x < m)
      | None \<Rightarrow> \<forall>x \<ge> 0. arrivals_by 0 stages x < m)"
  proof -
    have "case inverse_at 0 0 0 stages m of
        Some t \<Rightarrow> 0 < t \<and> arrivals_by 0 stages t = m \<and> (\<forall>x. 0 \<le> x \<and> x < t \<longrightarrow> arrivals_by 0 stages x < m)
      | None \<Rightarrow> \<forall>x \<ge> 0. arrivals_by 0 stages x < m" if "m \<in> set ms" for m
      using inverse_at_correct [of stages 0 0 m 0] assms(1,3) that
      by (cases "inverse_at 0 0 0 stages m") (simp_all add: all_run_def list_all_iff)
    then show ?thesis by (auto simp: zip_same)
  qed
qed

theorem arrival_schedule_inverse_witness:
  "\<exists>t > 0. times_of real_ops (schedule_new real_ops [\<lparr>sg_target = 8, sg_duration = 4\<rparr>]) [4] = [Some t]
     \<and> arrivals_by 0 [\<lparr>sg_target = 8, sg_duration = 4\<rparr>] t = 4"
proof -
  let ?ss = "[\<lparr>sg_target = 8, sg_duration = 4\<rparr>]"
  obtain a where a: "times_of real_ops (schedule_new real_ops ?ss) [4] = [a]" by (simp add: split_beta)
  have top: "arrivals_by 0 ?ss 4 = 16" by simp
  have spec: "case a of Some t \<Rightarrow> 0 < t \<and> arrivals_by 0 ?ss t = 4 \<and> (\<forall>x. 0 \<le> x \<and> x < t \<longrightarrow> arrivals_by 0 ?ss x < 4)
      | None \<Rightarrow> \<forall>x \<ge> 0. arrivals_by 0 ?ss x < 4"
    using arrival_schedule_inverse [of ?ss "[4]"] unfolding a by (simp del: arrivals_by.simps)
  show ?thesis
  proof (cases a)
    case None
    then have "arrivals_by 0 ?ss 4 < 4" using spec by (simp del: arrivals_by.simps)
    with top show ?thesis by (simp del: arrivals_by.simps)
  next
    case (Some t)
    with spec a show ?thesis by (intro exI [of _ t]) (simp del: arrivals_by.simps times_of.simps)
  qed
qed

lemma arrivals_nonneg: "0 \<le> r0 \<Longrightarrow> 0 \<le> x \<Longrightarrow> all_run ss \<Longrightarrow> 0 \<le> arrivals_by r0 ss x"
  and arrivals_mono: "0 \<le> r0 \<Longrightarrow> 0 \<le> x \<Longrightarrow> x \<le> y \<Longrightarrow> all_run ss \<Longrightarrow> arrivals_by r0 ss x \<le> arrivals_by r0 ss y"
proof -
  have mono: "arrivals_by r0 ss x \<le> arrivals_by r0 ss y" if "0 \<le> r0" "0 \<le> x" "x \<le> y" "all_run ss" for r0 x y ss
    using that
  proof (induction ss arbitrary: r0 x y)
    case Nil
    then show ?case by (simp add: mult_left_mono)
  next
    case (Cons s ss)
    let ?d = "real (sg_duration s)" and ?g = "real (sg_target s)"
    let ?s = "(?g - r0) / ?d"
    have d: "0 < ?d" and rest: "all_run ss" using Cons.prems by (simp_all add: all_run_def)
    have ab: "arrivals_by r0 (s # ss) x = (if x \<le> ?d then r0 * x + ?s * x\<^sup>2 / 2
        else (r0 + ?g) / 2 * ?d + arrivals_by ?g ss (x - ?d))" for x
      by (simp add: Let_def)
    have rate: "0 \<le> r0 + ?s * x" if "0 \<le> x" "x \<le> ?d" for x
    proof -
      have "r0 + ?s * x = r0 * ((?d - x) / ?d) + ?g * (x / ?d)" using d by (simp add: field_simps)
      moreover have "0 \<le> r0 * ((?d - x) / ?d) + ?g * (x / ?d)" using that d Cons.prems(1) by simp
      ultimately show ?thesis by simp
    qed
    have z: "arrivals_by ?g ss 0 = 0" by (cases ss) (simp_all add: Let_def)
    show ?case
    proof (cases "y \<le> ?d")
      case True
      have key: "2 * (Q - P) = R \<Longrightarrow> 0 \<le> R \<Longrightarrow> P \<le> Q" for P Q R :: real by simp
      have eq: "2 * ((r0 * y + k * y\<^sup>2 / 2) - (r0 * x + k * x\<^sup>2 / 2)) = (y - x) * ((r0 + k * x) + (r0 + k * y))" for k
        by (simp add: power2_eq_square algebra_simps)
      have "0 \<le> (y - x) * ((r0 + ?s * x) + (r0 + ?s * y))"
        using rate [of x] rate [of y] Cons.prems True by simp
      from key [OF eq this] show ?thesis unfolding ab using True Cons.prems by simp
    next
      case False
      show ?thesis
      proof (cases "x \<le> ?d")
        case True
        have "arrivals_by ?g ss 0 \<le> arrivals_by ?g ss (y - ?d)" using False rest by (intro Cons.IH) auto
        then have nn: "0 \<le> arrivals_by ?g ss (y - ?d)" by (simp only: z)
        have "r0 * x + ?s * x\<^sup>2 / 2 \<le> (r0 + ?g) / 2 * ?d + arrivals_by ?g ss (y - ?d)"
          by (rule add_increasing2 [OF nn ramp_le_area [OF d Cons.prems(1) of_nat_0_le_iff Cons.prems(2) True]])
        then show ?thesis unfolding ab using True False by (simp only: if_True if_False)
      next
        case x: False
        have "arrivals_by ?g ss (x - ?d) \<le> arrivals_by ?g ss (y - ?d)" using x Cons.prems rest by (intro Cons.IH) auto
        then show ?thesis unfolding ab using x False by simp
      qed
    qed
  qed
  { assume "0 \<le> r0" "0 \<le> x" "all_run ss"
    moreover have "arrivals_by r0 ss 0 = 0" by (cases ss) (simp_all add: Let_def)
    ultimately show "0 \<le> arrivals_by r0 ss x" using mono [of r0 0 x ss] by simp }
  show "0 \<le> r0 \<Longrightarrow> 0 \<le> x \<Longrightarrow> x \<le> y \<Longrightarrow> all_run ss \<Longrightarrow> arrivals_by r0 ss x \<le> arrivals_by r0 ss y" by (rule mono)
qed

definition fires_before :: "real \<Rightarrow> real option \<Rightarrow> bool" where
  "fires_before T t = (case t of Some t \<Rightarrow> t < T | None \<Rightarrow> False)"

lemma downward_cut: "(\<And>j k. j < k \<Longrightarrow> k < K \<Longrightarrow> P k \<Longrightarrow> P j) \<Longrightarrow> \<exists>n \<le> K. \<forall>k < K. P k \<longleftrightarrow> k < n" for K :: nat
proof (induction K)
  case (Suc K)
  then obtain n where n: "n \<le> K" "\<forall>k < K. P k \<longleftrightarrow> k < n" by (meson less_SucI)
  show ?case
  proof (cases "P K")
    case True
    then have "\<forall>k < Suc K. P k" using Suc.prems by (auto simp: less_Suc_eq)
    then show ?thesis by (intro exI [of _ "Suc K"]) simp
  next
    case False
    then show ?thesis using n by (intro exI [of _ n]) (auto simp: less_Suc_eq)
  qed
qed simp

lemma filter_cut: "n \<le> K \<Longrightarrow> \<forall>k < K. P k \<longleftrightarrow> k < n \<Longrightarrow> length (filter P [0..<K]) = n"
proof -
  assume n: "n \<le> K" "\<forall>k < K. P k \<longleftrightarrow> k < n"
  have "length (filter P [0..<K]) = card {k. k < K \<and> P k}" by (simp add: length_filter_conv_card cong: conj_cong)
  also have "{k. k < K \<and> P k} = {0..<n}" using n by auto
  finally show ?thesis by simp
qed

text \<open>
  The number of arrivals before a time \<open>T\<close> is the integral of the rate curve up to \<open>T\<close>, rounded:
  it never differs from it by more than one half, whatever the stages, flat, rising, falling or at rate
  zero. (\<open>K\<close> is any number of attempts that reaches the integral.)
\<close>

theorem arrival_count_rounded:
  assumes "list_all (\<lambda>s. 0 < sg_duration s) stages" "0 \<le> T" "arrivals_by 0 stages T \<le> real K"
  shows "\<bar>real (length (filter (fires_before T)
      (times_of real_ops (schedule_new real_ops stages) (map (\<lambda>k. real k + 1 / 2) [0..<K]))))
    - arrivals_by 0 stages T\<bar> \<le> 1 / 2"
proof -
  let ?L = "arrivals_by 0 stages T"
  have run: "all_run stages" using assms(1) by (simp add: all_run_def)
  have "sorted (map (\<lambda>k. real k + 1 / 2) [0..<K])" by (auto simp: sorted_iff_nth_mono)
  note times = schedule_times [OF this, of stages]
  define P where "P k = fires_before T (inverse_at 0 0 0 stages (real k + 1 / 2))" for k
  have spec: "case inverse_at 0 0 0 stages (real k + 1 / 2) of
      Some t \<Rightarrow> 0 < t \<and> arrivals_by 0 stages t = real k + 1 / 2 \<and> (\<forall>x. 0 \<le> x \<and> x < t \<longrightarrow> arrivals_by 0 stages x < real k + 1 / 2)
    | None \<Rightarrow> \<forall>x \<ge> 0. arrivals_by 0 stages x < real k + 1 / 2" for k
    using inverse_at_correct [OF run, of 0 0 "real k + 1 / 2" 0] by (cases "inverse_at 0 0 0 stages (real k + 1 / 2)") simp_all
  have fired: "real k + 1 / 2 \<le> ?L" if "P k" for k
  proof (cases "inverse_at 0 0 0 stages (real k + 1 / 2)")
    case (Some t)
    then have "t < T" using that by (simp add: P_def fires_before_def)
    then show ?thesis using spec [of k] Some arrivals_mono [of 0 t T stages] run by simp
  qed (use that in \<open>simp add: P_def fires_before_def\<close>)
  have late: "?L \<le> real k + 1 / 2" if "\<not> P k" for k
  proof (cases "inverse_at 0 0 0 stages (real k + 1 / 2)")
    case None
    then show ?thesis using spec [of k] assms(2) by auto
  next
    case (Some t)
    then have "T \<le> t" using that by (simp add: P_def fires_before_def)
    then show ?thesis using spec [of k] Some arrivals_mono [of 0 T t stages] assms(2) run by simp
  qed
  obtain n where n: "n \<le> K" "\<forall>k < K. P k \<longleftrightarrow> k < n"
    using downward_cut [of K P] fired late by (metis add_less_cancel_right less_le_not_le linorder_not_less nat_less_le of_nat_less_iff order_less_le_trans)
  have len: "length (filter (fires_before T) (times_of real_ops (schedule_new real_ops stages) (map (\<lambda>k. real k + 1 / 2) [0..<K]))) = n"
    unfolding times using filter_cut [OF n] by (simp add: filter_map comp_def P_def)
  have "real n \<le> ?L + 1 / 2"
  proof (cases n)
    case 0
    then show ?thesis using arrivals_nonneg [of 0 T stages] assms(2) run by simp
  next
    case (Suc j)
    then have "P j" using n by simp
    then show ?thesis using fired [of j] Suc by simp
  qed
  moreover have "?L \<le> real n + 1 / 2"
  proof (cases "n = K")
    case True
    then show ?thesis using assms(3) by simp
  next
    case False
    then show ?thesis using late [of n] n by simp
  qed
  ultimately show ?thesis unfolding len abs_le_iff by linarith
qed

theorem arrival_count_rounded_witness:
  "\<bar>real (length (filter (fires_before 4) (times_of real_ops (schedule_new real_ops [\<lparr>sg_target = 3, sg_duration = 4\<rparr>])
      (map (\<lambda>k. real k + 1 / 2) [0..<6])))) - 6\<bar> \<le> 1 / 2"
  using arrival_count_rounded [of "[\<lparr>sg_target = 3, sg_duration = 4\<rparr>]" 4 6] by (simp del: times_of.simps upt_Suc)

text \<open>The integral is that of \<open>rate_at\<close>: between two stage boundaries its derivative is the rate.\<close>

fun boundary_at :: "stage list \<Rightarrow> real \<Rightarrow> bool" where
  "boundary_at [] x = False"
| "boundary_at (s # ss) x \<longleftrightarrow> x = real (sg_duration s) \<or> boundary_at ss (x - real (sg_duration s))"

lemma arrivals_rate:
  "all_run ss \<Longrightarrow> 0 < x \<Longrightarrow> \<not> boundary_at ss x \<Longrightarrow>
   (arrivals_by r0 ss has_real_derivative rate_from real_ops t0 r0 ss (t0 + x)) (at x)"
proof (induction ss arbitrary: t0 r0 x)
  case Nil
  have "((\<lambda>t. r0 * t) has_real_derivative r0 * 1) (at x)" by (intro DERIV_cmult DERIV_ident)
  then show ?case by (simp add: ext [of "arrivals_by r0 []"] fun_eq_iff flip: ext)
next
  case (Cons s ss)
  let ?d = "real (sg_duration s)" and ?g = "real (sg_target s)"
  have d: "0 < ?d" and rest: "all_run ss" using Cons.prems by (simp_all add: all_run_def)
  show ?case
  proof (cases "x < ?d")
    case True
    let ?f = "\<lambda>t. r0 * t + (?g - r0) / ?d * t\<^sup>2 / 2"
    have "((\<lambda>t. r0 * t + c * t\<^sup>2 / 2) has_real_derivative (r0 + c * x)) (at x)" for c
      by (auto intro!: derivative_eq_intros)
    from this [of "(?g - r0) / ?d"] have "(?f has_real_derivative (r0 + (?g - r0) / ?d * x)) (at x)" .
    then have "(arrivals_by r0 (s # ss) has_real_derivative (r0 + (?g - r0) / ?d * x)) (at x)"
      by (rule has_field_derivative_transform_within_open [of _ _ _ "{..<?d}"]) (use True in \<open>auto simp: Let_def\<close>)
    moreover have "rate_from real_ops t0 r0 (s # ss) (t0 + x) = r0 + (?g - r0) / ?d * x"
      using True d by (simp add: real_ops_def Let_def)
    ultimately show ?thesis by (simp only:)
  next
    case False
    then have gt: "?d < x" using Cons.prems by simp
    let ?f = "\<lambda>t. (r0 + ?g) / 2 * ?d + arrivals_by ?g ss (t - ?d)"
    have IH: "(arrivals_by ?g ss has_real_derivative rate_from real_ops (t0 + ?d) ?g ss (t0 + ?d + (x - ?d))) (at (x - ?d))"
      using Cons.prems gt rest by (intro Cons.IH) simp_all
    have "((\<lambda>t. arrivals_by ?g ss (t - ?d)) has_real_derivative rate_from real_ops (t0 + ?d) ?g ss (t0 + x)) (at x)"
      using IH DERIV_shift [of "arrivals_by ?g ss" _ x "- ?d"] by simp
    then have "(?f has_real_derivative rate_from real_ops (t0 + ?d) ?g ss (t0 + x)) (at x)"
      using DERIV_add [OF DERIV_const] by fastforce
    then have "(arrivals_by r0 (s # ss) has_real_derivative rate_from real_ops (t0 + ?d) ?g ss (t0 + x)) (at x)"
      by (rule has_field_derivative_transform_within_open [of _ _ _ "{?d<..}"]) (use gt in \<open>auto simp: Let_def\<close>)
    moreover have "rate_from real_ops t0 r0 (s # ss) (t0 + x) = rate_from real_ops (t0 + ?d) ?g ss (t0 + x)"
      using gt by (simp add: Let_def) (simp add: real_ops_def)
    ultimately show ?thesis by (simp only:)
  qed
qed

end
