(* ===== verification/Vu_Curve.thy ===== *)
theory Vu_Curve
  imports Arrivals
begin

text \<open>
  The closed-loop VU curve of \<^verbatim>\<open>engine/src/runner.rs\<close> (\<^verbatim>\<open>run_scenario_vu_curve\<close>, \<^verbatim>\<open>run_vu_curve\<close>,
  \<^verbatim>\<open>retire_expired\<close>, \<^verbatim>\<open>clear_slot\<close>): a supervisor that publishes how many VUs shall be active and
  virtual users that park when they are not. The supervisor and the VUs share the published number,
  the slab of activation tokens and the tokens themselves; every access to one of them is a step of
  its own, so the steps of the tasks interleave freely. Instants are nanoseconds.

  The steps of an iteration run between boundaries (\<^const>\<open>boundary\<close>, \<^const>\<open>pace_step\<close>) that look at the clock and
  the token; \<open>vu_choice\<close> says what the iteration comes to. A panicking task ends where it is.
\<close>

subsection \<open>The curve\<close>

text \<open>The number of VUs of a rounded rate; \<open>rnd\<close> is \<^verbatim>\<open>x.round() as i64\<close>.\<close>

definition clamp_vus :: "nat \<Rightarrow> int \<Rightarrow> nat" where
  "clamp_vus max_vus r = nat (max 0 (min r (int max_vus)))"

definition desired_vus :: "'a num_ops \<Rightarrow> ('a \<Rightarrow> int) \<Rightarrow> stage list \<Rightarrow> 'a \<Rightarrow> nat" where
  "desired_vus N rnd stages elapsed = clamp_vus (max_target 0 (Some stages)) (rnd (rate_at N stages elapsed))"

subsection \<open>Virtual users and supervisor\<close>

text \<open>Where a VU task is. The argument of an active VU is the token of its activation.\<close>

datatype vu_pc =
    PcBuild | PcCancelled | PcDeadline | PcDesired | PcParked | PcRegister
  | PcTop nat | PcToken nat | PcGate nat | PcBegin nat | PcSteps nat | PcAgain nat | PcPace nat
  | PcClear nat vu_end | PcLeave nat | PcLeft
  | PcEnd vu_end

datatype sup_pc = SupTop | SupTime | SupSend nat nat | SupGauge nat nat | SupRetire nat nat | SupWait | SupJoin | SupEnd "unit res"

record curve =
  cu_now :: nat
  cu_cancelled :: bool
  cu_desired :: nat
  cu_slab :: "nat option list"
  cu_tokens :: nat
  cu_dead :: "nat list"
  cu_since :: "nat option list"
  cu_vus :: "vu_pc list"
  cu_iters :: "nat list"
  cu_ends :: "vu_end list"
  cu_sup :: sup_pc
  cu_gauge :: "(nat \<times> nat) list"

record curve_plan =
  cp_deadline :: nat
  cp_max :: nat
  cp_immediate :: bool
  cp_cap :: "nat option"
  cp_pace :: bool
  cp_rate :: "nat \<Rightarrow> int"

definition curve_start :: "curve_plan \<Rightarrow> nat \<Rightarrow> curve" where
  "curve_start P t0 = \<lparr>cu_now = t0, cu_cancelled = False, cu_desired = 0, cu_slab = replicate (cp_max P) None, cu_tokens = 0,
     cu_dead = [], cu_since = replicate (cp_max P) None, cu_vus = [], cu_iters = [], cu_ends = [], cu_sup = SupTop, cu_gauge = []\<rparr>"

text \<open>A child token is cancelled with its own \<^verbatim>\<open>cancel()\<close> or with the run's token.\<close>

definition token_cancelled :: "nat \<Rightarrow> curve \<Rightarrow> bool" where
  "token_cancelled a s \<longleftrightarrow> cu_cancelled s \<or> a \<in> set (cu_dead s)"

text \<open>
  One index of \<^verbatim>\<open>retire_expired\<close>: its new timer and the token to cancel.
\<close>

definition retire_one :: "nat \<Rightarrow> nat \<Rightarrow> nat option \<Rightarrow> nat option \<Rightarrow> nat option \<times> nat list" where
  "retire_one cap now tok since = (case tok of
      None \<Rightarrow> (None, [])
    | Some a \<Rightarrow> (case since of
        None \<Rightarrow> (Some now, [])
      | Some t0 \<Rightarrow> (Some t0, if cap \<le> now - t0 then [a] else [])))"

definition retire_expired ::
  "nat option list \<Rightarrow> nat option list \<Rightarrow> nat \<Rightarrow> nat \<Rightarrow> nat \<Rightarrow> nat \<Rightarrow> nat option list \<times> nat list"
where
  "retire_expired slab since desired spawned cap now =
     (map (\<lambda>i. if i < desired then None
               else if i < spawned then fst (retire_one cap now (slab ! i) (since ! i)) else since ! i) [0..<length since],
      concat (map (\<lambda>i. snd (retire_one cap now (slab ! i) (since ! i))) [desired..<spawned]))"

text \<open>What one iteration's steps come to, as far as the VU's control flow can tell.\<close>

datatype vu_choice =
    ChGo | ChClientError engine_error | ChExhausted | ChPanic | ChBoundary | ChCancelled | ChDeadline | ChFinish | ChFail engine_error

text \<open>What a step of a VU does to its entry of the slab: nothing, register a fresh token, \<^verbatim>\<open>clear_slot\<close>.\<close>

datatype slab_act = SlabKeep | SlabSet | SlabClear

definition slab_after :: "slab_act \<Rightarrow> nat \<Rightarrow> nat option \<Rightarrow> nat option" where
  "slab_after act fresh x = (case act of SlabKeep \<Rightarrow> x | SlabSet \<Rightarrow> Some fresh | SlabClear \<Rightarrow> None)"

text \<open>
  Where VU \<open>i\<close> goes from a place, with its effect on the slab; \<^const>\<open>None\<close> when it cannot go on.
\<close>

fun vu_next :: "curve_plan \<Rightarrow> nat \<Rightarrow> vu_choice \<Rightarrow> curve \<Rightarrow> vu_pc \<Rightarrow> (vu_pc \<times> slab_act) option" where
  "vu_next P i ch s PcBuild = (case ch of
      ChGo \<Rightarrow> Some (PcCancelled, SlabKeep)
    | ChClientError e \<Rightarrow> if e = Aborted then None else Some (PcEnd (VuErr e), SlabKeep)
    | _ \<Rightarrow> None)"
| "vu_next P i ch s PcCancelled = Some (if cu_cancelled s then PcEnd (VuErr Aborted) else PcDeadline, SlabKeep)"
| "vu_next P i ch s PcDeadline = Some (if cp_deadline P \<le> cu_now s then PcEnd VuOk else PcDesired, SlabKeep)"
| "vu_next P i ch s PcDesired = Some (if cu_desired s \<le> i then PcParked else PcRegister, SlabKeep)"
| "vu_next P i ch s PcParked = (case ch of
      ChGo \<Rightarrow> if i < cu_desired s then Some (PcRegister, SlabKeep) else None
    | ChCancelled \<Rightarrow> if cu_cancelled s then Some (PcEnd (VuErr Aborted), SlabKeep) else None
    | ChDeadline \<Rightarrow> if cp_deadline P \<le> cu_now s then Some (PcEnd VuOk, SlabKeep) else None
    | _ \<Rightarrow> None)"
| "vu_next P i ch s PcRegister = Some (PcTop (cu_tokens s), SlabSet)"
| "vu_next P i ch s (PcTop a) = Some (if cp_deadline P \<le> cu_now s then PcClear a VuOk else PcToken a, SlabKeep)"
| "vu_next P i ch s (PcToken a) = Some (if token_cancelled a s then PcLeave a else PcGate a, SlabKeep)"
| "vu_next P i ch s (PcGate a) = Some (if cu_desired s \<le> i then PcLeave a else PcBegin a, SlabKeep)"
| "vu_next P i ch s (PcBegin a) = (case ch of
      ChGo \<Rightarrow> Some (PcSteps a, SlabKeep)
    | ChExhausted \<Rightarrow> Some (PcClear a VuOk, SlabKeep)
    | ChPanic \<Rightarrow> Some (PcEnd VuPanic, SlabKeep)
    | _ \<Rightarrow> None)"
| "vu_next P i ch s (PcSteps a) = (case ch of
      ChBoundary \<Rightarrow> Some (if cp_deadline P \<le> cu_now s then PcClear a VuOk
          else if token_cancelled a s then PcLeave a else PcSteps a, SlabKeep)
    | ChCancelled \<Rightarrow> if token_cancelled a s then Some (PcLeave a, SlabKeep) else None
    | ChDeadline \<Rightarrow> if cp_deadline P \<le> cu_now s then Some (PcClear a VuOk, SlabKeep) else None
    | ChFinish \<Rightarrow> Some (PcAgain a, SlabKeep)
    | ChFail e \<Rightarrow> if e = Aborted then None else Some (PcClear a (VuErr e), SlabKeep)
    | ChPanic \<Rightarrow> Some (PcEnd VuPanic, SlabKeep)
    | _ \<Rightarrow> None)"
| "vu_next P i ch s (PcAgain a) =
     Some (if cu_desired s \<le> i then PcLeave a else if cp_pace P then PcPace a else PcTop a, SlabKeep)"
| "vu_next P i ch s (PcPace a) = (case ch of
      ChCancelled \<Rightarrow> if token_cancelled a s then Some (PcLeave a, SlabKeep) else None
    | ChDeadline \<Rightarrow> if cp_deadline P \<le> cu_now s then Some (PcClear a VuOk, SlabKeep) else None
    | ChGo \<Rightarrow> Some (PcTop a, SlabKeep)
    | _ \<Rightarrow> None)"
| "vu_next P i ch s (PcClear a e) = Some (PcEnd e, SlabClear)"
| "vu_next P i ch s (PcLeave a) = Some (PcLeft, SlabClear)"
| "vu_next P i ch s PcLeft = Some (if cu_cancelled s then PcEnd (VuErr Aborted) else PcCancelled, SlabKeep)"
| "vu_next P i ch s (PcEnd e) = None"

fun ending :: "vu_pc \<Rightarrow> vu_end list" where
  "ending (PcEnd e) = [e]"
| "ending p = []"

text \<open>The iteration counter advances when the steps of an iteration are completed.\<close>

definition vu_step :: "curve_plan \<Rightarrow> nat \<Rightarrow> vu_choice \<Rightarrow> curve \<Rightarrow> curve option" where
  "vu_step P i ch s = (case vu_next P i ch s (cu_vus s ! i) of None \<Rightarrow> None
    | Some (p, act) \<Rightarrow> Some (s\<lparr>cu_vus := (cu_vus s)[i := p],
        cu_slab := (cu_slab s)[i := slab_after act (cu_tokens s) (cu_slab s ! i)],
        cu_tokens := (if act = SlabSet then cu_tokens s + 1 else cu_tokens s),
        cu_iters := (case p of PcAgain _ \<Rightarrow> (cu_iters s)[i := wrapping_add_u32 (cu_iters s ! i) 1] | _ \<Rightarrow> cu_iters s),
        cu_ends := cu_ends s @ ending p\<rparr>))"

definition all_ended :: "curve \<Rightarrow> bool" where
  "all_ended s \<longleftrightarrow> list_all (\<lambda>p. case p of PcEnd _ \<Rightarrow> True | _ \<Rightarrow> False) (cu_vus s)"

text \<open>One step of the supervisor; at the wait it is woken by its ticker or by the run's token.\<close>

definition sup_step :: "curve_plan \<Rightarrow> (string \<Rightarrow> string) \<Rightarrow> curve \<Rightarrow> curve option" where
  "sup_step P dbg s = (case cu_sup s of
      SupTop \<Rightarrow> Some (s\<lparr>cu_sup := (if cu_cancelled s then SupJoin else SupTime)\<rparr>)
    | SupTime \<Rightarrow>
        (if cp_deadline P \<le> cu_now s then Some (s\<lparr>cu_sup := SupJoin\<rparr>)
         else let d = clamp_vus (cp_max P) (cp_rate P (cu_now s)); new = d - length (cu_vus s) in
           Some (s\<lparr>cu_vus := cu_vus s @ replicate new PcBuild, cu_iters := cu_iters s @ replicate new 0, cu_sup := SupSend d (cu_now s)\<rparr>))
    | SupSend d t \<Rightarrow> Some (s\<lparr>cu_desired := d, cu_sup := SupGauge d t\<rparr>)
    | SupGauge d t \<Rightarrow> Some (s\<lparr>cu_gauge := cu_gauge s @ [(d, length (filter (\<lambda>x. x \<noteq> None) (cu_slab s)))], cu_sup := SupRetire d t\<rparr>)
    | SupRetire d t \<Rightarrow>
        (if cp_immediate P then Some (s\<lparr>cu_dead := List.map_filter id (drop d (cu_slab s)) @ cu_dead s, cu_sup := SupWait\<rparr>)
         else case cp_cap P of
           None \<Rightarrow> Some (s\<lparr>cu_sup := SupWait\<rparr>)
         | Some cap \<Rightarrow> (case retire_expired (cu_slab s) (cu_since s) d (length (cu_vus s)) cap t of
             (since, kills) \<Rightarrow> Some (s\<lparr>cu_since := since, cu_dead := kills @ cu_dead s, cu_sup := SupWait\<rparr>)))
    | SupWait \<Rightarrow> Some (s\<lparr>cu_sup := (if cu_cancelled s then SupJoin else SupTop)\<rparr>)
    | SupJoin \<Rightarrow> if all_ended s then Some (s\<lparr>cu_sup := SupEnd (run_outcome dbg (cu_cancelled s) (length (cu_vus s)) (cu_ends s))\<rparr>) else None
    | SupEnd r \<Rightarrow> None)"

text \<open>The steps of the program, by task, and those of its surroundings.\<close>

inductive curve_prog :: "curve_plan \<Rightarrow> (string \<Rightarrow> string) \<Rightarrow> curve \<Rightarrow> curve \<Rightarrow> bool" for P dbg where
  prog_vu: "i < length (cu_vus s) \<Longrightarrow> vu_step P i ch s = Some s' \<Longrightarrow> curve_prog P dbg s s'"
| prog_sup: "sup_step P dbg s = Some s' \<Longrightarrow> curve_prog P dbg s s'"

inductive curve_step :: "curve_plan \<Rightarrow> (string \<Rightarrow> string) \<Rightarrow> curve \<Rightarrow> curve \<Rightarrow> bool" for P dbg where
  step_prog: "curve_prog P dbg s s' \<Longrightarrow> curve_step P dbg s s'"
| step_time: "cu_now s \<le> t \<Longrightarrow> curve_step P dbg s (s\<lparr>cu_now := t\<rparr>)"
| step_cancel: "curve_step P dbg s (s\<lparr>cu_cancelled := True\<rparr>)"

definition curve_reach :: "curve_plan \<Rightarrow> (string \<Rightarrow> string) \<Rightarrow> nat \<Rightarrow> curve \<Rightarrow> bool" where
  "curve_reach P dbg t0 s \<longleftrightarrow> (curve_step P dbg)\<^sup>*\<^sup>* (curve_start P t0) s"

end
