(* ===== verification/Vu_Curve_Props.thy ===== *)
theory Vu_Curve_Props
  imports Vu_Curve Runner_Props Arrivals_Props
begin

text \<open>
  What the VU curve guarantees: the number of VUs follows the curve, retiring a VU parks it without
  counting it as failed and hits only the activation that outlived the curve, and every run ends.
\<close>

subsection \<open>The steps of an iteration never fail with an abort\<close>

text \<open>
  An abort is a \<^const>\<open>FlowAborted\<close> of the interpreter, never one of its errors; so a failing iteration
  (\<^const>\<open>ChFail\<close>) always carries another error.
\<close>

lemma bind_aborted: "bind_res r f = Inl Aborted \<longleftrightarrow> r = Inl Aborted \<or> (\<exists>a. r = Inr a \<and> f a = Inl Aborted)"
  by (cases r) auto

lemma render_not_aborted: "render s ctx \<noteq> Inl Aborted"
proof -
  have out: "add_out v u r = Inl Aborted \<longleftrightarrow> r = Inl Aborted" for v u and r :: "(string \<times> string list) res"
    by (cases r) (auto simp: add_out_def)
  have "eval_segs l ctx xs \<noteq> Inl Aborted" for l ctx xs
    by (induction l ctx xs rule: eval_segs.induct) (auto simp: out split: option.splits sum.splits)
  then show ?thesis by (auto simp: render_def render_inner_segs split: sum.splits)
qed

lemma render_leaf_not_aborted: "render_leaf fj ctx s \<noteq> Inl Aborted"
  by (auto simp: render_leaf_def bind_aborted render_not_aborted split: option.splits)

lemma render_json_not_aborted:
  "render_json_value fj ctx v \<noteq> Inl Aborted"
  "render_json_items fj ctx vs \<noteq> Inl Aborted"
  "render_json_fields fj ctx kvs \<noteq> Inl Aborted"
  by (induction fj ctx v and fj ctx vs and fj ctx kvs rule: render_json_value_render_json_items_render_json_fields.induct)
    (auto simp: bind_aborted render_leaf_not_aborted)

lemma build_request_not_aborted: "build_request fj H st ctx \<noteq> Inl Aborted"
proof -
  have form: "render_form ctx m \<noteq> Inl Aborted" for m
    by (induction ctx m rule: render_form.induct) (auto simp: bind_aborted render_not_aborted)
  have headers: "build_headers H ctx kvs hs \<noteq> Inl Aborted" for kvs hs
    by (induction H ctx kvs hs rule: build_headers.induct) (auto simp: bind_aborted render_not_aborted split: option.splits)
  have body: "build_body fj ctx b \<noteq> Inl Aborted" for b
    by (auto simp: build_body_def bind_aborted render_not_aborted render_json_not_aborted form split: option.splits body.splits)
  show ?thesis by (simp add: build_request_def bind_aborted render_not_aborted headers body)
qed

lemma execute_step_not_aborted: "execute_step fj X dbg H m h ctx w \<noteq> (Inl Aborted, w')"
  using build_request_not_aborted [of fj H h ctx] by (auto simp: execute_step_def split: sum.splits prod.splits)

lemma http_arm_not_aborted: "fst (http_arm E it li dt h st) \<noteq> Inl Aborted"
proof -
  let ?st1 = "case vu_req st of None \<Rightarrow> st
        | Some g \<Rightarrow> (case refresh_vars (en_tz E) (en_rng E) (en_show E) (rt_chrono (en_rt E) (vu_world st)) (hs_id h) g (vu_vars st) of
            (g', vs) \<Rightarrow> st\<lparr>vu_req := Some g', vu_vars := vs\<rparr>)"
  obtain res w where r: "execute_step (en_json E) (en_extract E) (en_dbg E) (en_http E) (en_measure E) h
      (step_ctx E it li (vu_vars ?st1)) (vu_world ?st1) = (res, w)" by fastforce
  then have "res \<noteq> Inl Aborted" by (metis execute_step_not_aborted)
  then show ?thesis
    unfolding http_arm_def Let_def r prod.case by (cases res) (simp_all split: option.split prod.split pace_outcome.split)
qed

lemma loop_arm_not_aborted: "(\<And>k st. fst (f k st) \<noteq> Inl Aborted) \<Longrightarrow> fst (loop_arm E f i n st) \<noteq> Inl Aborted"
proof (induction n arbitrary: i st)
  case (Suc n)
  have "f k st \<noteq> (Inl Aborted, st')" for k st st' using Suc.prems [of k st] by (metis fst_conv)
  with Suc show ?case by (auto split: prod.splits step_flow.splits sum.splits)
qed simp

lemma merge_not_aborted:
  "list_all (\<lambda>(b, flow, _). flow \<noteq> Inl Aborted) rs \<Longrightarrow> fst (merge_branches rs a vg) \<noteq> Inl Aborted"
  by (induction rs a vg rule: merge_branches.induct) (auto split: sum.splits)

lemma parallel_arm_not_aborted:
  assumes "\<And>f st. f \<in> set fs \<Longrightarrow> fst (f st) \<noteq> Inl Aborted"
  shows "fst (parallel_arm E i bs fs st) \<noteq> Inl Aborted"
proof -
  have timed: "fst (timed E f st) \<noteq> Inl Aborted" if "f \<in> set fs" for f st
    using assms [OF that] by (auto simp: timed_def split: prod.splits) (metis fst_conv)
  have "list_all (\<lambda>(b, flow, _). flow \<noteq> Inl Aborted) (zip bs (map2 (timed E) fs sts))" for sts
    unfolding list_all_length using timed by (auto simp: nth_mem split: prod.split) (metis fst_conv nth_mem)
  from merge_not_aborted [OF this] have "merge_branches (zip bs (map2 (timed E) fs sts)) a vg \<noteq> (Inl Aborted, x)" for sts a vg x
    by (metis fst_conv)
  then show ?thesis unfolding parallel_arm_def by (auto simp: Let_def split: prod.splits sum.splits)
qed

lemma run_not_aborted:
  "fst (run_steps E it li dt ss st) \<noteq> Inl Aborted" "fst (run_step E it li dt s st) \<noteq> Inl Aborted"
proof (induction E it li dt ss st and E it li dt s st rule: run_steps_run_step.induct)
  case (2 E it li dt s ss st)
  obtain fl st1 where b: "boundary E st = (fl, st1)" by fastforce
  obtain r st2 where r: "run_step E it li dt s st1 = (r, st2)" by fastforce
  have "fl = FlowContinue \<Longrightarrow> r \<noteq> Inl Aborted" using 2(1) [OF b [symmetric]] r by simp
  moreover have "fl = FlowContinue \<Longrightarrow> r = Inr FlowContinue \<Longrightarrow> fst (run_steps E it li dt ss st2) \<noteq> Inl Aborted"
    using 2(2) [OF b [symmetric] _ r [symmetric]] by simp
  ultimately show ?case by (auto simp: b r split: step_flow.splits sum.splits)
next
  case (3 E it li dt h st)
  then show ?case using http_arm_not_aborted by simp
next
  case (4 E it li dt i nm n body st)
  then have "fst (loop_arm E (\<lambda>k. run_steps E it (Some k) dt body) 0 n st) \<noteq> Inl Aborted" by (rule loop_arm_not_aborted)
  then show ?case by simp
next
  case (5 E it li dt i nm c th els e st)
  obtain taken br where sb: "select_branch (en_regex E) c th els e (step_ctx E it li (vu_vars st)) = (taken, br)" by fastforce
  show ?case using 5 [OF sb [symmetric]] by (simp add: sb)
next
  case (6 E it li dt i nm bs st)
  have "fst (parallel_arm E i bs (map (\<lambda>b st. run_steps E it li None (br_steps b) st) bs) st) \<noteq> Inl Aborted"
    by (rule parallel_arm_not_aborted) (use 6 in auto)
  then show ?case by simp
qed simp

subsection \<open>The steps of a task\<close>

fun held :: "vu_pc \<Rightarrow> nat option" where
  "held (PcTop a) = Some a" | "held (PcToken a) = Some a" | "held (PcGate a) = Some a" | "held (PcBegin a) = Some a"
| "held (PcSteps a) = Some a" | "held (PcAgain a) = Some a" | "held (PcPace a) = Some a" | "held (PcClear a e) = Some a"
| "held (PcLeave a) = Some a" | "held p = None"

definition slab_fits :: "vu_pc \<Rightarrow> nat option \<Rightarrow> bool" where
  "slab_fits p x \<longleftrightarrow> p = PcEnd VuPanic \<or> x = held p"

text \<open>What a VU may end with, given the run's token.\<close>

definition end_ok :: "bool \<Rightarrow> vu_end \<Rightarrow> bool" where "end_ok c e \<longleftrightarrow> (e = VuErr Aborted \<longrightarrow> c)"

fun pc_ok :: "bool \<Rightarrow> vu_pc \<Rightarrow> bool" where
  "pc_ok c (PcClear a e) \<longleftrightarrow> e \<noteq> VuErr Aborted \<and> e \<noteq> VuPanic"
| "pc_ok c (PcEnd e) \<longleftrightarrow> end_ok c e"
| "pc_ok c p \<longleftrightarrow> True"

lemma vu_next_ok:
  assumes "vu_next P i ch s p = Some (p', act)" "slab_fits p x" "pc_ok (cu_cancelled s) p"
  shows "slab_fits p' (slab_after act (cu_tokens s) x)" "pc_ok (cu_cancelled s) p'" "ending p = []"
    "p' = PcRegister \<Longrightarrow> i < cu_desired s" "act = SlabSet \<longleftrightarrow> p = PcRegister"
  using assms
  by (cases p; auto simp: slab_fits_def end_ok_def slab_after_def split: vu_choice.splits if_splits)+

text \<open>The measure of what is left to do once the deadline has passed.\<close>

fun pc_rank :: "vu_pc \<Rightarrow> nat" where
  "pc_rank PcBuild = 3" | "pc_rank PcCancelled = 2" | "pc_rank PcDeadline = 1" | "pc_rank PcDesired = 5"
| "pc_rank PcParked = 4" | "pc_rank PcRegister = 3" | "pc_rank (PcTop a) = 2" | "pc_rank (PcToken a) = 10"
| "pc_rank (PcGate a) = 9" | "pc_rank (PcBegin a) = 8" | "pc_rank (PcSteps a) = 7" | "pc_rank (PcAgain a) = 6"
| "pc_rank (PcPace a) = 5" | "pc_rank (PcClear a e) = 1" | "pc_rank (PcLeave a) = 4" | "pc_rank PcLeft = 3" | "pc_rank (PcEnd e) = 0"

fun sup_rank :: "sup_pc \<Rightarrow> nat" where
  "sup_rank SupTop = 3" | "sup_rank SupTime = 2" | "sup_rank (SupSend d t) = 7" | "sup_rank (SupGauge d t) = 6"
| "sup_rank (SupRetire d t) = 5" | "sup_rank SupWait = 4" | "sup_rank SupJoin = 1" | "sup_rank (SupEnd r) = 0"

definition work_left :: "curve \<Rightarrow> nat" where
  "work_left s = sum_list (map pc_rank (cu_vus s)) + sup_rank (cu_sup s)"

lemma vu_next_rank: "vu_next P i ch s p = Some (p', act) \<Longrightarrow> cp_deadline P \<le> cu_now s \<Longrightarrow> pc_rank p' < pc_rank p"
  by (cases p) (auto split: vu_choice.splits if_splits)

lemma vu_next_exists:
  assumes "cp_deadline P \<le> cu_now s" "\<And>e. p \<noteq> PcEnd e"
  shows "\<exists>ch p' act. vu_next P i ch s p = Some (p', act)"
proof (cases p)
  case PcParked
  then show ?thesis using assms(1) by (intro exI [of _ ChDeadline]) simp
next
  case (PcSteps a)
  then show ?thesis by (intro exI [of _ ChFinish]) simp
next
  case (PcEnd e)
  then show ?thesis using assms(2) by blast
qed (auto intro!: exI [of _ ChGo])
subsection \<open>The invariant\<close>

fun tick_desired :: "sup_pc \<Rightarrow> nat option" where
  "tick_desired (SupGauge d t) = Some d"
| "tick_desired (SupRetire d t) = Some d"
| "tick_desired p = None"

fun tick_time :: "sup_pc \<Rightarrow> nat option" where
  "tick_time (SupSend d t) = Some t"
| "tick_time (SupGauge d t) = Some t"
| "tick_time (SupRetire d t) = Some t"
| "tick_time p = None"

definition curve_ok :: "curve_plan \<Rightarrow> (string \<Rightarrow> string) \<Rightarrow> curve \<Rightarrow> bool" where
  "curve_ok P dbg s \<longleftrightarrow>
     length (cu_slab s) = cp_max P \<and> length (cu_since s) = cp_max P \<and> length (cu_vus s) \<le> cp_max P
     \<and> cu_desired s \<le> length (cu_vus s)
     \<and> (\<forall>i < length (cu_vus s). slab_fits (cu_vus s ! i) (cu_slab s ! i) \<and> pc_ok (cu_cancelled s) (cu_vus s ! i))
     \<and> (\<forall>i. length (cu_vus s) \<le> i \<longrightarrow> i < cp_max P \<longrightarrow> cu_slab s ! i = None)
     \<and> mset (cu_ends s) = mset (concat (map ending (cu_vus s)))
     \<and> (\<forall>d t. cu_sup s = SupSend d t \<longrightarrow> d \<le> length (cu_vus s))
     \<and> (\<forall>d. tick_desired (cu_sup s) = Some d \<longrightarrow> d = cu_desired s)
     \<and> (\<forall>r. cu_sup s = SupEnd r \<longrightarrow> all_ended s \<and>
          (\<exists>c. (c \<longrightarrow> cu_cancelled s) \<and> r = run_outcome dbg c (length (cu_vus s)) (cu_ends s)))"

lemma curve_okD:
  assumes "curve_ok P dbg s"
  shows "length (cu_slab s) = cp_max P" "length (cu_since s) = cp_max P" "length (cu_vus s) \<le> cp_max P"
    "cu_desired s \<le> length (cu_vus s)"
    "i < length (cu_vus s) \<Longrightarrow> slab_fits (cu_vus s ! i) (cu_slab s ! i)"
    "i < length (cu_vus s) \<Longrightarrow> pc_ok (cu_cancelled s) (cu_vus s ! i)"
    "length (cu_vus s) \<le> i \<Longrightarrow> i < cp_max P \<Longrightarrow> cu_slab s ! i = None"
    "mset (cu_ends s) = mset (concat (map ending (cu_vus s)))"
    "tick_desired (cu_sup s) = Some d \<Longrightarrow> d = cu_desired s"
  using assms by (auto simp: curve_ok_def)

lemma pc_ok_mono: "pc_ok c p \<Longrightarrow> pc_ok True p"
  by (cases p) (auto simp: end_ok_def)

lemma ends_update:
  "i < length ps \<Longrightarrow> ending (ps ! i) = [] \<Longrightarrow>
   mset (concat (map ending (ps[i := p]))) = mset (concat (map ending ps)) + mset (ending p)"
proof (induction ps arbitrary: i)
  case (Cons q ps)
  then show ?case by (cases i) (auto simp: ac_simps)
qed simp

lemma all_ended_update: "vu_next P i ch s (cu_vus s ! i) = Some x \<Longrightarrow> i < length (cu_vus s) \<Longrightarrow> \<not> all_ended s"
  by (cases "cu_vus s ! i") (auto simp: all_ended_def list_all_length intro!: exI [of _ i])

lemma vu_step_ok: "curve_ok P dbg s \<Longrightarrow> i < length (cu_vus s) \<Longrightarrow> vu_step P i ch s = Some s' \<Longrightarrow> curve_ok P dbg s'"
proof -
  assume ok: "curve_ok P dbg s" and i: "i < length (cu_vus s)" and st: "vu_step P i ch s = Some s'"
  note o = curve_okD [OF ok]
  obtain p act where n: "vu_next P i ch s (cu_vus s ! i) = Some (p, act)"
    and s': "cu_vus s' = (cu_vus s)[i := p]" "cu_slab s' = (cu_slab s)[i := slab_after act (cu_tokens s) (cu_slab s ! i)]"
      "cu_ends s' = cu_ends s @ ending p" "cu_sup s' = cu_sup s" "cu_cancelled s' = cu_cancelled s"
      "cu_since s' = cu_since s" "cu_desired s' = cu_desired s"
    using st by (auto simp: vu_step_def split: option.splits prod.splits)
  note v = vu_next_ok [OF n o(5) [OF i] o(6) [OF i]]
  have "\<not> all_ended s" by (rule all_ended_update [OF n i])
  then have "cu_sup s \<noteq> SupEnd r" for r using ok by (auto simp: curve_ok_def)
  moreover have "mset (cu_ends s') = mset (concat (map ending (cu_vus s')))"
    using ends_update [OF i v(3), of p] o(8) by (simp add: s')
  moreover have "\<forall>j < length (cu_vus s'). slab_fits (cu_vus s' ! j) (cu_slab s' ! j) \<and> pc_ok (cu_cancelled s') (cu_vus s' ! j)"
    using o(1,3,5,6) v(1,2) i by (auto simp: s' nth_list_update)
  ultimately show ?thesis using ok i by (auto simp: curve_ok_def s' nth_list_update)
qed

lemma retire_lengths: "length (fst (retire_expired slab since d n cap now)) = length since"
  by (simp add: retire_expired_def)

lemma clamp_le: "clamp_vus m r \<le> m" by (simp add: clamp_vus_def)

lemma sup_step_ok: "curve_ok P dbg s \<Longrightarrow> sup_step P dbg s = Some s' \<Longrightarrow> curve_ok P dbg s'"
proof -
  assume ok: "curve_ok P dbg s" and st: "sup_step P dbg s = Some s'"
  show ?thesis
  proof (cases "cu_sup s")
    case SupTime
    let ?d = "clamp_vus (cp_max P) (cp_rate P (cu_now s))"
    let ?n = "?d - length (cu_vus s)"
    show ?thesis
    proof (cases "cp_deadline P \<le> cu_now s")
      case False
      then have s': "s' = s\<lparr>cu_vus := cu_vus s @ replicate ?n PcBuild, cu_iters := cu_iters s @ replicate ?n 0, cu_sup := SupSend ?d (cu_now s)\<rparr>"
        using st SupTime by (simp add: sup_step_def Let_def)
      have "slab_fits PcBuild None" by (simp add: slab_fits_def)
      then show ?thesis
        using ok clamp_le [of "cp_max P" "cp_rate P (cu_now s)"] by (auto simp: s' curve_ok_def nth_append concat_replicate_trivial)
    qed (use ok st SupTime in \<open>auto simp: sup_step_def curve_ok_def all_ended_def\<close>)
  next
    case (SupRetire d t)
    then show ?thesis using ok st retire_lengths [of "cu_slab s" "cu_since s" d "length (cu_vus s)" _ t]
      by (auto simp: sup_step_def curve_ok_def split: if_splits option.splits prod.splits) (metis fst_conv)+
  next
    case SupJoin
    then show ?thesis using ok st by (auto simp: sup_step_def curve_ok_def all_ended_def split: if_splits)
  next
    case SupTop
    then have "s' = s\<lparr>cu_sup := if cu_cancelled s then SupJoin else SupTime\<rparr>" using st by (simp add: sup_step_def)
    then show ?thesis using ok SupTop by (simp add: curve_ok_def)
  next
    case (SupSend d t)
    then have "s' = s\<lparr>cu_desired := d, cu_sup := SupGauge d t\<rparr>" using st by (simp add: sup_step_def)
    then show ?thesis using ok SupSend by (simp add: curve_ok_def)
  next
    case (SupGauge d t)
    then have "s' = s\<lparr>cu_gauge := cu_gauge s @ [(d, length (filter (\<lambda>x. x \<noteq> None) (cu_slab s)))], cu_sup := SupRetire d t\<rparr>"
      using st by (simp add: sup_step_def)
    then show ?thesis using ok SupGauge by (simp add: curve_ok_def)
  next
    case SupWait
    then have "s' = s\<lparr>cu_sup := if cu_cancelled s then SupJoin else SupTop\<rparr>" using st by (simp add: sup_step_def)
    then show ?thesis using ok SupWait by (simp add: curve_ok_def)
  next
    case (SupEnd r)
    then show ?thesis using st by (simp add: sup_step_def)
  qed
qed

lemma curve_step_ok: "curve_step P dbg s s' \<Longrightarrow> curve_ok P dbg s \<Longrightarrow> curve_ok P dbg s'"
proof (induction rule: curve_step.induct)
  case (step_prog s s')
  then show ?case by (auto elim!: curve_prog.cases intro: vu_step_ok sup_step_ok)
next
  case (step_cancel s)
  then show ?case by (auto simp: curve_ok_def all_ended_def dest: pc_ok_mono)
qed (auto simp: curve_ok_def all_ended_def)

lemma curve_start_ok: "curve_ok P dbg (curve_start P t0)"
  by (auto simp: curve_ok_def curve_start_def)

lemma curve_reach_ok: "curve_reach P dbg t0 s \<Longrightarrow> curve_ok P dbg s"
  unfolding curve_reach_def by (induction rule: rtranclp_induct) (auto intro: curve_start_ok curve_step_ok)
subsection \<open>The run ends\<close>

lemma sum_rank_update:
  "i < length ps \<Longrightarrow> f p < f (ps ! i) \<Longrightarrow> sum_list (map f (ps[i := p])) < sum_list (map f ps)" for f :: "'a \<Rightarrow> nat"
proof (induction ps arbitrary: i)
  case (Cons q ps)
  then show ?case by (cases i) auto
qed simp

lemma sup_step_rank: "sup_step P dbg s = Some s' \<Longrightarrow> cp_deadline P \<le> cu_now s \<Longrightarrow>
    sup_rank (cu_sup s') < sup_rank (cu_sup s) \<and> cu_vus s' = cu_vus s"
  by (auto simp: sup_step_def split: sup_pc.splits if_splits option.splits prod.splits)

lemma prog_rank: "curve_prog P dbg s s' \<Longrightarrow> cp_deadline P \<le> cu_now s \<Longrightarrow> work_left s' < work_left s"
proof (induction rule: curve_prog.induct)
  case (prog_vu i s ch s')
  then show ?case
    using sum_rank_update [of i "cu_vus s" pc_rank]
    by (auto simp: vu_step_def work_left_def dest: vu_next_rank split: option.splits prod.splits)
next
  case (prog_sup s s')
  then show ?case by (auto simp: work_left_def dest: sup_step_rank)
qed

lemma prog_keeps: "curve_prog P dbg s s' \<Longrightarrow> cu_now s' = cu_now s \<and> cu_cancelled s' = cu_cancelled s"
  by (induction rule: curve_prog.induct)
    (auto simp: vu_step_def sup_step_def Let_def split: option.splits prod.splits sup_pc.splits if_splits)

lemma sup_step_None: "sup_step P dbg s = None \<Longrightarrow> (\<exists>r. cu_sup s = SupEnd r) \<or> \<not> all_ended s"
  by (cases "cu_sup s") (auto simp: sup_step_def Let_def split: if_splits option.splits prod.splits)

lemma not_all_ended: "\<not> all_ended s \<Longrightarrow> \<exists>i < length (cu_vus s). \<forall>e. cu_vus s ! i \<noteq> PcEnd e"
proof -
  assume "\<not> all_ended s"
  then obtain i where i: "i < length (cu_vus s)" and n: "\<not> (case cu_vus s ! i of PcEnd _ \<Rightarrow> True | _ \<Rightarrow> False)"
    unfolding all_ended_def list_all_length by blast
  from n have "\<forall>e. cu_vus s ! i \<noteq> PcEnd e" by auto
  with i show ?thesis by blast
qed

lemma prog_progress:
  assumes "cp_deadline P \<le> cu_now s" "\<And>r. cu_sup s \<noteq> SupEnd r"
  shows "\<exists>s'. curve_prog P dbg s s'"
proof (cases "sup_step P dbg s")
  case None
  then have "\<not> all_ended s" using sup_step_None assms(2) by blast
  then obtain i where i: "i < length (cu_vus s)" and "\<And>e. cu_vus s ! i \<noteq> PcEnd e" using not_all_ended by blast
  then obtain ch p act where "vu_next P i ch s (cu_vus s ! i) = Some (p, act)"
    using vu_next_exists [OF assms(1), of "cu_vus s ! i" i] by blast
  then have "vu_step P i ch s \<noteq> None" by (simp add: vu_step_def)
  then show ?thesis using prog_vu [OF i] by blast
qed (use prog_sup in blast)

lemma prog_finishes: "cp_deadline P \<le> cu_now s \<Longrightarrow> \<exists>s' r. (curve_prog P dbg)\<^sup>*\<^sup>* s s' \<and> cu_sup s' = SupEnd r"
proof (induction "work_left s" arbitrary: s rule: less_induct)
  case less
  show ?case
  proof (cases "\<exists>r. cu_sup s = SupEnd r")
    case False
    then obtain s1 where s1: "curve_prog P dbg s s1" using prog_progress [OF less.prems] by blast
    have "cp_deadline P \<le> cu_now s1" using prog_keeps [OF s1] less.prems by simp
    from less.hyps [OF prog_rank [OF s1 less.prems] this]
    show ?thesis using converse_rtranclp_into_rtranclp [of "curve_prog P dbg", OF s1] by blast
  qed blast
qed

lemma pc_rank_le: "pc_rank p \<le> 10" by (cases p) auto

lemma work_left_le: "work_left s \<le> 10 * length (cu_vus s) + 7"
proof -
  have "sum_list (map pc_rank ps) \<le> 10 * length ps" for ps
  proof (induction ps)
    case (Cons p ps)
    then show ?case using pc_rank_le [of p] by simp
  qed simp
  moreover have "sup_rank (cu_sup s) \<le> 7" by (cases "cu_sup s") auto
  ultimately show ?thesis by (simp add: work_left_def add_mono)
qed

text \<open>
  C25: a run of the VU curve ends: once the deadline has passed, whatever the interleaving, the
  supervisor and the VUs have at most ten steps per started VU and seven more to take, no passing of
  time and no cancellation adds to them, the program is never stuck before the supervisor has
  returned (a parked VU is woken by the deadline), and it does return.
\<close>

theorem vu_curve_returns:
  assumes "cp_deadline P \<le> cu_now s"
  shows "work_left s \<le> 10 * length (cu_vus s) + 7
    \<and> (\<forall>s'. curve_step P dbg s s' \<longrightarrow> work_left s' \<le> work_left s)
    \<and> (\<forall>s'. curve_prog P dbg s s' \<longrightarrow> work_left s' < work_left s)
    \<and> ((\<exists>s'. curve_prog P dbg s s') \<or> (\<exists>r. cu_sup s = SupEnd r))
    \<and> (\<exists>s' r. (curve_prog P dbg)\<^sup>*\<^sup>* s s' \<and> cu_sup s' = SupEnd r)"
proof (intro conjI allI impI)
  show "work_left s' \<le> work_left s" if "curve_step P dbg s s'" for s'
    using that assms by cases (auto simp: work_left_def dest: prog_rank)
qed (use assms work_left_le prog_rank prog_progress [OF assms] prog_finishes [OF assms] in blast)+
subsection \<open>The outcome of a curve\<close>

lemma ended_pcs: "all_ended s \<Longrightarrow> length (concat (map ending (cu_vus s))) = length (cu_vus s)"
proof -
  have "list_all (\<lambda>p. case p of PcEnd _ \<Rightarrow> True | _ \<Rightarrow> False) ps \<Longrightarrow> length (concat (map ending ps)) = length ps" for ps
  proof (induction ps)
    case (Cons p ps)
    then show ?case by (cases p) auto
  qed simp
  then show "all_ended s \<Longrightarrow> ?thesis" by (simp add: all_ended_def)
qed

lemma ends_ok:
  assumes "curve_ok P dbg s" "e \<in> set (cu_ends s)"
  shows "end_ok (cu_cancelled s) e"
proof -
  have "set (cu_ends s) = set (concat (map ending (cu_vus s)))" using curve_okD(8) [OF assms(1)] by (rule mset_eq_setD)
  with assms(2) obtain p where p: "p \<in> set (cu_vus s)" "e \<in> set (ending p)" by auto
  then obtain i where "i < length (cu_vus s)" "cu_vus s ! i = p" by (auto simp: in_set_conv_nth)
  then have "pc_ok (cu_cancelled s) p" using curve_okD(6) [OF assms(1)] by blast
  with p(2) show ?thesis by (cases p) auto
qed

text \<open>
  C24: the outcome of a VU curve that was not cancelled: every VU that was started has ended, none of
  them with an abort (a VU retired by the supervisor parks, so retiring is never counted as a
  failure), and the run is \<open>AllVusFailed\<close> exactly when VUs were started and each of them failed by an
  engine error or a panic, judged against the VUs started and not against the peak of the curve.
\<close>

theorem vu_curve_outcome:
  assumes "curve_reach P dbg t0 s" "cu_sup s = SupEnd r" "\<not> cu_cancelled s" "cp_max P \<le> u32_max"
  shows "length (cu_ends s) = length (cu_vus s) \<and> VuErr Aborted \<notin> set (cu_ends s)
    \<and> r = (if cu_vus s \<noteq> [] \<and> list_all failing (cu_ends s)
           then Inl (AllVusFailed (length (cu_vus s)) (length (cu_vus s)) (head_opt (List.map_filter (vu_cause dbg) (cu_ends s))))
           else Inr ())"
proof -
  note ok = curve_reach_ok [OF assms(1)]
  have all: "all_ended s" and r: "r = run_outcome dbg False (length (cu_vus s)) (cu_ends s)"
    using ok assms(2,3) by (auto simp: curve_ok_def)
  have len: "length (cu_ends s) = length (cu_vus s)"
    using mset_eq_length [OF curve_okD(8) [OF ok]] ended_pcs [OF all] by simp
  have "length (cu_vus s) \<le> u32_max" using curve_okD(3) [OF ok] assms(4) by simp
  from run_outcome_correct [OF len this, of dbg False]
  have "r = (if cu_vus s \<noteq> [] \<and> list_all failing (cu_ends s)
      then Inl (AllVusFailed (length (cu_vus s)) (length (cu_vus s)) (head_opt (List.map_filter (vu_cause dbg) (cu_ends s))))
      else Inr ())" by (simp add: r)
  moreover have "VuErr Aborted \<notin> set (cu_ends s)" using ends_ok [OF ok] assms(3) by (auto simp: end_ok_def)
  ultimately show ?thesis using len by blast
qed

subsection \<open>Retiring a VU\<close>

text \<open>VU \<open>i\<close> is not wanted, not active and not about to become active.\<close>

definition away :: "curve \<Rightarrow> nat \<Rightarrow> bool" where
  "away s i \<longleftrightarrow> cu_desired s \<le> i \<and> cu_slab s ! i = None \<and> (i < length (cu_vus s) \<longrightarrow> cu_vus s ! i \<noteq> PcRegister)"

definition curve_path :: "curve_plan \<Rightarrow> (string \<Rightarrow> string) \<Rightarrow> nat \<Rightarrow> nat \<Rightarrow> (nat \<Rightarrow> curve) \<Rightarrow> bool" where
  "curve_path P dbg t0 n p \<longleftrightarrow> p 0 = curve_start P t0 \<and> (\<forall>k < n. curve_step P dbg (p k) (p (Suc k)))"

lemma path_ok: "curve_path P dbg t0 n p \<Longrightarrow> k \<le> n \<Longrightarrow> curve_ok P dbg (p k)"
proof (induction k)
  case 0
  then show ?case by (simp add: curve_path_def curve_start_ok)
next
  case (Suc k)
  then have "curve_ok P dbg (p k)" "curve_step P dbg (p k) (p (Suc k))" by (auto simp: curve_path_def)
  then show ?case by (blast intro: curve_step_ok)
qed

text \<open>What one step does to the activation of a VU that is not wanted.\<close>

lemma vu_next_slab: "vu_next P i ch s p = Some (p', act) \<Longrightarrow> act = SlabClear \<Longrightarrow> p' \<noteq> PcRegister"
  by (cases p) (auto split: vu_choice.splits if_splits)

lemma vu_step_active:
  assumes ok: "curve_ok P dbg s" and j: "j < length (cu_vus s)" and st: "vu_step P j ch s = Some s'"
  shows "cu_slab s ! i = Some a \<Longrightarrow> i < cp_max P \<Longrightarrow> cu_desired s \<le> i \<Longrightarrow> cu_slab s' ! i = Some a \<or> away s' i"
    and "away s i \<Longrightarrow> i < cp_max P \<Longrightarrow> away s' i"
proof -
  note o = curve_okD [OF ok]
  obtain q act where n: "vu_next P j ch s (cu_vus s ! j) = Some (q, act)"
    and s': "cu_vus s' = (cu_vus s)[j := q]" "cu_slab s' = (cu_slab s)[j := slab_after act (cu_tokens s) (cu_slab s ! j)]"
      "cu_desired s' = cu_desired s"
    using st by (auto simp: vu_step_def split: option.splits prod.splits)
  note v = vu_next_ok [OF n o(5) [OF j] o(6) [OF j]] and c = vu_next_slab [OF n]
  have fits: "cu_vus s ! j = PcRegister \<Longrightarrow> cu_slab s ! j = None" using o(5) [OF j] by (simp add: slab_fits_def)
  show "cu_slab s' ! i = Some a \<or> away s' i" if "cu_slab s ! i = Some a" "i < cp_max P" "cu_desired s \<le> i"
  proof (cases "i = j")
    case True
    then show ?thesis using that fits v(4,5) c j o(1) by (cases act) (auto simp: s' away_def slab_after_def)
  qed (use that in \<open>simp add: s'\<close>)
  show "away s' i" if "away s i" "i < cp_max P"
  proof (cases "i = j")
    case True
    then show ?thesis using that v(4,5) c j o(1) by (cases act) (auto simp: s' away_def slab_after_def)
  qed (use that in \<open>simp add: s' away_def\<close>)
qed

lemma sup_step_frame:
  "sup_step P dbg s = Some s' \<Longrightarrow> cu_slab s' = cu_slab s \<and> cu_now s' = cu_now s
     \<and> (\<exists>n. cu_vus s' = cu_vus s @ replicate n PcBuild)"
  by (auto simp: sup_step_def Let_def split: sup_pc.splits if_splits option.splits prod.splits intro: exI [of _ 0])

lemma step_active:
  assumes "curve_step P dbg s s'" "curve_ok P dbg s" "cu_desired s' \<le> i" "i < cp_max P" "cu_desired s \<le> i"
  shows "cu_slab s ! i = Some a \<Longrightarrow> cu_slab s' ! i = Some a \<or> away s' i" and "away s i \<Longrightarrow> away s' i"
proof -
  have sup: "away s' i" if st: "sup_step P dbg s = Some s'" and aw: "away s i"
  proof -
    from sup_step_frame [OF st] obtain n where s': "cu_slab s' = cu_slab s" "cu_vus s' = cu_vus s @ replicate n PcBuild" by blast
    with aw assms(3) show ?thesis by (auto simp: away_def nth_append)
  qed
  show "cu_slab s' ! i = Some a \<or> away s' i" if "cu_slab s ! i = Some a"
    using assms(1) that assms(2-5)
    by cases (auto elim!: curve_prog.cases dest: vu_step_active(1) [of P dbg s _ _ s' i a] sup_step_frame)
  show "away s' i" if "away s i"
    using assms(1)
  proof cases
    case step_prog
    then show ?thesis
    proof cases
      case (prog_vu j ch)
      then show ?thesis using vu_step_active(2) [OF assms(2)] that assms(4) by blast
    qed (use sup that in blast)
  qed (use that in \<open>simp_all add: away_def\<close>)
qed

text \<open>Why the timer of VU \<open>i\<close> runs at the end of a path.\<close>

definition lingers :: "(nat \<Rightarrow> curve) \<Rightarrow> nat \<Rightarrow> nat \<Rightarrow> nat \<Rightarrow> bool" where
  "lingers p n i t \<longleftrightarrow> (\<exists>m < n. \<exists>d a. cu_sup (p m) = SupRetire d t \<and> i < length (cu_vus (p m))
     \<and> (\<forall>k. m \<le> k \<longrightarrow> k \<le> n \<longrightarrow> cu_desired (p k) \<le> i \<and> cu_slab (p k) ! i = Some a))"

definition timer_ok :: "(nat \<Rightarrow> curve) \<Rightarrow> nat \<Rightarrow> nat \<Rightarrow> nat \<Rightarrow> bool" where
  "timer_ok p n i t \<longleftrightarrow> lingers p n i t \<or> away (p n) i \<or> i < cu_desired (p n) \<and> tick_desired (cu_sup (p n)) \<noteq> None"

lemma lingers_low: "lingers p n i t \<Longrightarrow> cu_desired (p n) \<le> i"
  unfolding lingers_def using less_imp_le_nat by blast

lemma lingers_extend:
  assumes "lingers p n i t" "cu_desired (p (Suc n)) \<le> i" "\<And>a. cu_slab (p n) ! i = Some a \<Longrightarrow> cu_slab (p (Suc n)) ! i = Some a"
  shows "lingers p (Suc n) i t"
proof -
  obtain m d a where m: "m < n" "cu_sup (p m) = SupRetire d t" "i < length (cu_vus (p m))"
    and all: "\<And>k. m \<le> k \<Longrightarrow> k \<le> n \<Longrightarrow> cu_desired (p k) \<le> i \<and> cu_slab (p k) ! i = Some a"
    using assms(1) unfolding lingers_def by blast
  have "cu_slab (p (Suc n)) ! i = Some a" using assms(3) all [of n] m(1) by simp
  then have "cu_desired (p k) \<le> i \<and> cu_slab (p k) ! i = Some a" if "m \<le> k" "k \<le> Suc n" for k
    using all [of k] assms(2) that by (cases "k = Suc n") auto
  then show ?thesis unfolding lingers_def using m less_SucI [OF m(1)] by blast
qed

lemma timer_ok_step:
  assumes "timer_ok p n i t" "curve_step P dbg (p n) (p (Suc n))" "curve_ok P dbg (p n)" "i < cp_max P"
    "cu_desired (p (Suc n)) \<le> i" "cu_desired (p n) \<le> i"
  shows "timer_ok p (Suc n) i t"
proof -
  note a = step_active [OF assms(2,3,5,4,6)]
  consider "away (p n) i" | "lingers p n i t" using assms(1,6) by (auto simp: timer_ok_def)
  then show ?thesis
  proof cases
    case 1
    then show ?thesis using a(2) by (simp add: timer_ok_def)
  next
    case 2
    show ?thesis
    proof (cases "away (p (Suc n)) i")
      case False
      then have "lingers p (Suc n) i t" using a(1) by (intro lingers_extend [OF 2 assms(5)]) blast
      then show ?thesis by (simp add: timer_ok_def)
    qed (simp add: timer_ok_def)
  qed
qed

lemma retire_expired_nth:
  "i < length since \<Longrightarrow> fst (retire_expired slab since d n cap u) ! i =
     (if i < d then None else if i < n then fst (retire_one cap u (slab ! i) (since ! i)) else since ! i)"
  by (simp add: retire_expired_def)

lemma step_kind: "curve_step P dbg s s' \<Longrightarrow>
    (cu_sup s' = cu_sup s \<and> cu_desired s' = cu_desired s \<and> cu_since s' = cu_since s \<and> cu_now s \<le> cu_now s') \<or> sup_step P dbg s = Some s'"
  by (auto elim!: curve_step.cases curve_prog.cases simp: vu_step_def split: option.splits prod.splits)

text \<open>A step of the supervisor, for the timer of VU \<open>i\<close>.\<close>

lemma sup_since:
  assumes "sup_step P dbg s = Some s'" "curve_ok P dbg s" "i < cp_max P" "\<not> cp_immediate P" "cp_cap P = Some cap"
  shows "(\<exists>u. cu_sup s = SupRetire (cu_desired s) u \<and> cu_sup s' = SupWait \<and> cu_desired s' = cu_desired s
        \<and> cu_since s' ! i = (if i < cu_desired s then None
            else if i < length (cu_vus s) then fst (retire_one cap u (cu_slab s ! i) (cu_since s ! i)) else cu_since s ! i))
    \<or> (\<exists>d u. cu_sup s = SupSend d u \<and> cu_sup s' = SupGauge d u \<and> cu_desired s' = d \<and> cu_since s' = cu_since s)
    \<or> (cu_desired s' = cu_desired s \<and> cu_since s' = cu_since s \<and> (tick_desired (cu_sup s) \<noteq> None \<longrightarrow> tick_desired (cu_sup s') \<noteq> None)
        \<and> (\<forall>u. tick_time (cu_sup s') = Some u \<longrightarrow> tick_time (cu_sup s) = Some u \<or> u = cu_now s))"
proof (cases "cu_sup s")
  case (SupRetire d u)
  have len: "i < length (cu_since s)" using curve_okD(2) [OF assms(2)] assms(3) by simp
  have "d = cu_desired s" using SupRetire curve_okD(9) [OF assms(2), of d] by simp
  with assms(1,4,5) SupRetire show ?thesis
    by (auto simp: sup_step_def retire_expired_nth [OF len, symmetric] split: prod.splits)
next
  case (SupSend d u)
  then show ?thesis using assms(1) by (auto simp: sup_step_def)
next
  case SupTop
  then show ?thesis using assms(1) by (auto simp: sup_step_def split: if_splits)
next
  case SupTime
  then show ?thesis using assms(1) by (auto simp: sup_step_def Let_def split: if_splits)
next
  case (SupGauge d u)
  then show ?thesis using assms(1) by (auto simp: sup_step_def)
next
  case SupWait
  then show ?thesis using assms(1) by (auto simp: sup_step_def split: if_splits)
next
  case SupJoin
  then show ?thesis using assms(1) by (auto simp: sup_step_def split: if_splits)
next
  case (SupEnd r)
  then show ?thesis using assms(1) by (simp add: sup_step_def)
qed

definition timers :: "curve_plan \<Rightarrow> (nat \<Rightarrow> curve) \<Rightarrow> nat \<Rightarrow> bool" where
  "timers P p n \<longleftrightarrow> (\<forall>i < cp_max P. \<forall>t. cu_since (p n) ! i = Some t \<longrightarrow>
     t \<le> cu_now (p n) \<and> (\<forall>u. tick_time (cu_sup (p n)) = Some u \<longrightarrow> t \<le> u) \<and> timer_ok p n i t)"

lemma retire_timer:
  assumes "fst (retire_one cap u x t0) = Some t"
  shows "t0 = Some t \<or> t0 = None \<and> t = u \<and> x \<noteq> None"
  using assms by (auto simp: retire_one_def split: option.splits)

lemma timers_step:
  assumes path: "curve_path P dbg t0 (Suc n) p" and mode: "\<not> cp_immediate P" "cp_cap P = Some cap"
    and IH: "timers P p n" and tn: "\<And>u. tick_time (cu_sup (p n)) = Some u \<Longrightarrow> u \<le> cu_now (p n)"
  shows "timers P p (Suc n)"
  unfolding timers_def
proof (intro allI impI)
  fix i t assume i: "i < cp_max P" and t: "cu_since (p (Suc n)) ! i = Some t"
  let ?s = "p n" and ?s' = "p (Suc n)"
  have st: "curve_step P dbg ?s ?s'" using path by (simp add: curve_path_def)
  have ok: "curve_ok P dbg ?s" using path_ok [OF path, of n] by simp
  let ?R = "\<lambda>t. t \<le> cu_now ?s \<and> (\<forall>u. tick_time (cu_sup ?s) = Some u \<longrightarrow> t \<le> u) \<and> timer_ok p n i t"
  let ?G = "t \<le> cu_now ?s' \<and> (\<forall>u. tick_time (cu_sup ?s') = Some u \<longrightarrow> t \<le> u) \<and> timer_ok p (Suc n) i t"
  have old: "?R t" if "cu_since ?s ! i = Some t" using IH i that by (simp add: timers_def)
  have low: "timer_ok p (Suc n) i t" if "?R t" "cu_desired ?s' \<le> i" "cu_desired ?s \<le> i"
    using timer_ok_step [OF _ st ok i that(2,3)] that(1) by blast
  have high: "tick_desired (cu_sup ?s) \<noteq> None" if "?R t" "i < cu_desired ?s"
    using that lingers_low [of p n i t] by (auto simp: timer_ok_def away_def)
  have keep: ?G if R: "?R t" and d: "cu_desired ?s' = cu_desired ?s" and "cu_now ?s \<le> cu_now ?s'"
    and tt: "\<forall>u. tick_time (cu_sup ?s') = Some u \<longrightarrow> tick_time (cu_sup ?s) = Some u \<or> u = cu_now ?s"
    and td: "tick_desired (cu_sup ?s) \<noteq> None \<longrightarrow> tick_desired (cu_sup ?s') \<noteq> None"
  proof (cases "cu_desired ?s \<le> i")
    case True
    then show ?thesis using low [OF R] that by auto
  next
    case False
    then have "timer_ok p (Suc n) i t" using high [OF R] td d by (simp add: timer_ok_def)
    then show ?thesis using that by auto
  qed
  from step_kind [OF st] show ?G
  proof (elim disjE)
    assume same: "cu_sup ?s' = cu_sup ?s \<and> cu_desired ?s' = cu_desired ?s \<and> cu_since ?s' = cu_since ?s \<and> cu_now ?s \<le> cu_now ?s'"
    then show ?G using keep old t by auto
  next
    assume sup: "sup_step P dbg ?s = Some ?s'"
    note frame = sup_step_frame [OF sup]
    from sup_since [OF sup ok i mode] show ?G
    proof (elim disjE exE conjE)
      fix u assume r: "cu_sup ?s = SupRetire (cu_desired ?s) u" "cu_sup ?s' = SupWait" "cu_desired ?s' = cu_desired ?s"
        "cu_since ?s' ! i = (if i < cu_desired ?s then None
           else if i < length (cu_vus ?s) then fst (retire_one cap u (cu_slab ?s ! i) (cu_since ?s ! i)) else cu_since ?s ! i)"
      have u: "u \<le> cu_now ?s" using tn r(1) by simp
      have ge: "cu_desired ?s \<le> i" using r(4) t by (auto split: if_splits)
      consider "cu_since ?s ! i = Some t"
        | "i < length (cu_vus ?s)" "cu_since ?s ! i = None" "t = u" "cu_slab ?s ! i \<noteq> None"
        using r(4) t ge retire_timer [of cap u "cu_slab ?s ! i" "cu_since ?s ! i" t] by (auto split: if_splits)
      then show ?G
      proof cases
        case 1
        have "timer_ok p (Suc n) i t" using low [OF old [OF 1]] r(3) ge by simp
        then show ?thesis using old [OF 1] r(2) frame by simp
      next
        case 2
        then obtain a where a: "cu_slab ?s ! i = Some a" by blast
        have "\<forall>k. n \<le> k \<longrightarrow> k \<le> Suc n \<longrightarrow> cu_desired (p k) \<le> i \<and> cu_slab (p k) ! i = Some a"
          using ge r(3) a frame by (auto simp: le_Suc_eq)
        then have "lingers p (Suc n) i t" unfolding lingers_def using r(1) 2(1,3) lessI [of n] by blast
        then show ?thesis using u 2 r(2) frame by (simp add: timer_ok_def)
      qed
    next
      fix d u assume r: "cu_sup ?s = SupSend d u" "cu_sup ?s' = SupGauge d u" "cu_desired ?s' = d" "cu_since ?s' = cu_since ?s"
      have R: "?R t" using old r(4) t by simp
      have "cu_desired ?s \<le> i" using high [OF R] r(1) by (cases "i < cu_desired ?s") auto
      then have "timer_ok p (Suc n) i t" using low [OF R] r(2,3) by (cases "d \<le> i") (auto simp: timer_ok_def)
      then show ?G using R r(1,2) frame by auto
    next
      assume r: "cu_desired ?s' = cu_desired ?s" "cu_since ?s' = cu_since ?s"
        "tick_desired (cu_sup ?s) \<noteq> None \<longrightarrow> tick_desired (cu_sup ?s') \<noteq> None"
        "\<forall>u. tick_time (cu_sup ?s') = Some u \<longrightarrow> tick_time (cu_sup ?s) = Some u \<or> u = cu_now ?s"
      have "?R t" using old r(2) t by simp
      from keep [OF this r(1) _ r(4,3)] frame show ?G by simp
    qed
  qed
qed

lemma sup_tick: "sup_step P dbg s = Some s' \<Longrightarrow> tick_time (cu_sup s') = Some u \<Longrightarrow> tick_time (cu_sup s) = Some u \<or> u = cu_now s"
  by (cases "cu_sup s") (auto simp: sup_step_def Let_def split: if_splits option.splits prod.splits)

lemma tick_past: "curve_path P dbg t0 n p \<Longrightarrow> k \<le> n \<Longrightarrow> tick_time (cu_sup (p k)) = Some u \<Longrightarrow> u \<le> cu_now (p k)"
proof (induction k arbitrary: u)
  case 0
  then show ?case by (simp add: curve_path_def curve_start_def)
next
  case (Suc k)
  then have st: "curve_step P dbg (p k) (p (Suc k))" and IH: "\<And>u. tick_time (cu_sup (p k)) = Some u \<Longrightarrow> u \<le> cu_now (p k)"
    by (auto simp: curve_path_def)
  from step_kind [OF st] show ?case
  proof
    assume "sup_step P dbg (p k) = Some (p (Suc k))"
    from sup_tick [OF this Suc.prems(3)] sup_step_frame [OF this] IH show ?thesis by auto
  qed (use IH Suc.prems(3) in fastforce)
qed

lemma timers_path: "curve_path P dbg t0 n p \<Longrightarrow> \<not> cp_immediate P \<Longrightarrow> cp_cap P = Some cap \<Longrightarrow> timers P p n"
proof (induction n)
  case 0
  then show ?case by (simp add: timers_def curve_path_def curve_start_def)
next
  case (Suc n)
  have "curve_path P dbg t0 n p" using Suc.prems(1) by (simp add: curve_path_def)
  from timers_step [OF Suc.prems Suc.IH [OF this Suc.prems(2,3)]] tick_past [OF Suc.prems(1), of n] show ?case by simp
qed

lemma retire_one_kills: "snd (retire_one cap now x t) = (case (x, t) of (Some a, Some t0) \<Rightarrow> if cap \<le> now - t0 then [a] else [] | _ \<Rightarrow> [])"
  by (simp add: retire_one_def split: option.splits)

lemma retire_expired_kills:
  "a \<in> set (snd (retire_expired slab since d n cap now)) \<longleftrightarrow>
     (\<exists>i t0. d \<le> i \<and> i < n \<and> slab ! i = Some a \<and> since ! i = Some t0 \<and> cap \<le> now - t0)"
proof -
  have one: "a \<in> set (snd (retire_one cap now x t)) \<longleftrightarrow> (\<exists>t0. x = Some a \<and> t = Some t0 \<and> cap \<le> now - t0)" for x t
    by (auto simp: retire_one_kills split: option.splits)
  show ?thesis by (simp add: retire_expired_def one) (meson atLeastLessThan_iff)
qed

lemma immediate_kills:
  "i < length xs \<Longrightarrow> d \<le> i \<Longrightarrow> xs ! i = Some a \<Longrightarrow> a \<in> set (List.map_filter id (drop d xs))"
proof -
  assume a: "i < length xs" "d \<le> i" "xs ! i = Some a"
  then have "drop d xs ! (i - d) = Some a" "i - d < length (drop d xs)" by simp_all
  then have "Some a \<in> set (drop d xs)" by (metis nth_mem)
  then show ?thesis by (auto simp: List.map_filter_def intro!: rev_image_eqI)
qed

text \<open>
  the graceful cap of the ramp-down never cuts an activation short that was wanted: whenever a
  tick of the supervisor cancels the token of a VU, then at an earlier tick, at least the cap before
  it, the same activation was registered already, and at every moment since then it stayed
  registered while the VU was not wanted (so a VU that parked and was woken again is never hit by
  the timer of its earlier activation).
\<close>

theorem graceful_cap_lingering:
  assumes "curve_path P dbg t0 n p" "\<not> cp_immediate P" "cp_cap P = Some cap"
    "cu_sup (p n) = SupRetire d t" "sup_step P dbg (p n) = Some s'" "a \<in> set (cu_dead s')" "a \<notin> set (cu_dead (p n))"
  shows "\<exists>i m d' t'. m < n \<and> cu_sup (p m) = SupRetire d' t' \<and> t' + cap \<le> t
    \<and> (\<forall>k. m \<le> k \<longrightarrow> k \<le> n \<longrightarrow> cu_desired (p k) \<le> i \<and> cu_slab (p k) ! i = Some a)"
proof -
  let ?s = "p n"
  have ok: "curve_ok P dbg ?s" by (rule path_ok [OF assms(1) order_refl])
  have d: "d = cu_desired ?s" using curve_okD(9) [OF ok, of d] assms(4) by simp
  have "a \<in> set (snd (retire_expired (cu_slab ?s) (cu_since ?s) d (length (cu_vus ?s)) cap t))"
    using assms(2-7) by (auto simp: sup_step_def split: prod.splits)
  then obtain i t1 where i: "d \<le> i" "i < length (cu_vus ?s)" "cu_slab ?s ! i = Some a" "cu_since ?s ! i = Some t1" "cap \<le> t - t1"
    by (auto simp: retire_expired_kills)
  have "i < cp_max P" using i(2) curve_okD(3) [OF ok] by simp
  then have t1: "t1 \<le> t" "timer_ok p n i t1"
    using timers_path [OF assms(1-3)] i(4) assms(4) by (auto simp: timers_def)
  then have "lingers p n i t1" using i(1,3) d by (auto simp: timer_ok_def away_def)
  then obtain m d' a' where m: "m < n" "cu_sup (p m) = SupRetire d' t1"
    and all: "\<And>k. m \<le> k \<Longrightarrow> k \<le> n \<Longrightarrow> cu_desired (p k) \<le> i \<and> cu_slab (p k) ! i = Some a'"
    unfolding lingers_def by blast
  have "a' = a" using all [of n] m(1) i(3) by simp
  moreover have "t1 + cap \<le> t" using i(5) t1(1) by simp
  ultimately show ?thesis using m all by blast
qed

text \<open>
  In immediate mode every tick cancels the tokens of all active VUs above the wanted number,
  also of one that registered after an earlier tick had passed; a cancelled activation leads its VU
  back to the park, from which it can be woken, unless the run itself is cancelled.
\<close>

theorem immediate_retires_all:
  assumes "curve_reach P dbg t0 s" "cp_immediate P" "cu_sup s = SupRetire d t" "sup_step P dbg s = Some s'"
  shows "\<forall>i a. d \<le> i \<longrightarrow> i < cp_max P \<longrightarrow> cu_slab s' ! i = Some a \<longrightarrow> token_cancelled a s'"
proof -
  have "length (cu_slab s) = cp_max P" by (rule curve_okD(1) [OF curve_reach_ok [OF assms(1)]])
  then show ?thesis using assms(2-4) immediate_kills [of _ "cu_slab s" d]
    by (auto simp: sup_step_def token_cancelled_def)
qed

subsection \<open>Concrete runs\<close>

text \<open>A schedule of steps, and the state it leads to.\<close>

datatype curve_act = ActSup | ActVu nat vu_choice | ActTime nat | ActCancel

definition act_step :: "curve_plan \<Rightarrow> (string \<Rightarrow> string) \<Rightarrow> curve_act \<Rightarrow> curve \<Rightarrow> curve option" where
  "act_step P dbg x s = (case x of
      ActSup \<Rightarrow> sup_step P dbg s
    | ActVu i ch \<Rightarrow> if i < length (cu_vus s) then vu_step P i ch s else None
    | ActTime t \<Rightarrow> if cu_now s \<le> t then Some (s\<lparr>cu_now := t\<rparr>) else None
    | ActCancel \<Rightarrow> Some (s\<lparr>cu_cancelled := True\<rparr>))"

primrec play_curve :: "curve_plan \<Rightarrow> (string \<Rightarrow> string) \<Rightarrow> curve_act list \<Rightarrow> curve \<Rightarrow> curve option" where
  "play_curve P dbg [] s = Some s"
| "play_curve P dbg (x # xs) s = (case act_step P dbg x s of None \<Rightarrow> None | Some s' \<Rightarrow> play_curve P dbg xs s')"

lemma act_step_step: "act_step P dbg x s = Some s' \<Longrightarrow> curve_step P dbg s s'"
  by (auto simp: act_step_def split: curve_act.splits if_splits intro: step_prog prog_sup prog_vu step_time step_cancel)

lemma play_path:
  "play_curve P dbg xs s = Some s' \<Longrightarrow>
   \<exists>p. p 0 = s \<and> p (length xs) = s' \<and> (\<forall>k < length xs. curve_step P dbg (p k) (p (Suc k)))
     \<and> (\<forall>k \<le> length xs. play_curve P dbg (take k xs) s = Some (p k))"
proof (induction xs arbitrary: s)
  case (Cons x xs)
  then obtain s1 where s1: "act_step P dbg x s = Some s1" "play_curve P dbg xs s1 = Some s'" by (auto split: option.splits)
  from Cons.IH [OF s1(2)] obtain p where p: "p 0 = s1" "p (length xs) = s'" "\<forall>k < length xs. curve_step P dbg (p k) (p (Suc k))"
    "\<forall>k \<le> length xs. play_curve P dbg (take k xs) s1 = Some (p k)" by blast
  let ?p = "\<lambda>k. case k of 0 \<Rightarrow> s | Suc j \<Rightarrow> p j"
  have "curve_step P dbg (?p k) (?p (Suc k))" if "k < length (x # xs)" for k
    using that p act_step_step [OF s1(1)] by (cases k) auto
  moreover have "play_curve P dbg (take k (x # xs)) s = Some (?p k)" if "k \<le> length (x # xs)" for k
    using that p s1(1) by (cases k) auto
  ultimately show ?case using p by (intro exI [of _ ?p]) auto
qed auto

lemma path_reach: "p 0 = curve_start P t0 \<Longrightarrow> (\<forall>k < n. curve_step P dbg (p k) (p (Suc k))) \<Longrightarrow> curve_reach P dbg t0 (p n)"
proof (induction n)
  case (Suc n)
  then have "curve_reach P dbg t0 (p n)" "curve_step P dbg (p n) (p (Suc n))" by auto
  then show ?case unfolding curve_reach_def by (rule rtranclp.rtrancl_into_rtrancl)
qed (simp add: curve_reach_def)

lemma play_reach: "play_curve P dbg xs (curve_start P t0) = Some s \<Longrightarrow> curve_reach P dbg t0 s"
  using play_path [of P dbg xs "curve_start P t0" s] path_reach by metis

text \<open>
  One VU is wanted until time 1; it is still in its steps when the ticks at 1 and at 3 find it
  retired, and the cap is 2. Its next boundary parks it, and it sleeps until the deadline.
\<close>

definition demo_curve :: curve_plan where
  "demo_curve = \<lparr>cp_deadline = 10, cp_max = 1, cp_immediate = False, cp_cap = Some 2, cp_pace = False,
     cp_rate = (\<lambda>t. if t < 1 then 1 else 0)\<rparr>"

definition demo_linger :: "curve_act list" where
  "demo_linger = replicate 5 ActSup @ map (ActVu 0) (replicate 9 ChGo) @ ActTime 1 # replicate 6 ActSup @ ActTime 3 # replicate 5 ActSup"

definition demo_park :: "curve_act list" where
  "demo_park = ActSup # map (ActVu 0) (ChBoundary # replicate 5 ChGo) @ ActTime 10 # ActVu 0 ChDeadline # replicate 4 ActSup"

lemmas demo_eval = demo_curve_def act_step_def sup_step_def vu_step_def curve_start_def slab_after_def clamp_vus_def
  token_cancelled_def retire_expired_def retire_one_def all_ended_def

lemma demo_linger_run: "\<exists>s s'. play_curve demo_curve id demo_linger (curve_start demo_curve 0) = Some s
    \<and> cu_sup s = SupRetire 0 3 \<and> sup_step demo_curve id s = Some s' \<and> cu_dead s = [] \<and> cu_dead s' = [0]
    \<and> length demo_linger = 27"
  by (simp add: demo_linger_def eval_nat_numeral demo_eval)

lemma demo_park_run: "\<exists>s. play_curve demo_curve id (demo_linger @ demo_park) (curve_start demo_curve 0) = Some s
    \<and> cu_sup s = SupEnd (Inr ()) \<and> \<not> cu_cancelled s \<and> cu_ends s = [VuOk] \<and> length (cu_vus s) = 1"
  by (simp add: demo_linger_def demo_park_def eval_nat_numeral demo_eval run_outcome_def note_end_def)

theorem vu_curve_returns_witness:
  "\<exists>s' r. (curve_prog demo_curve id)\<^sup>*\<^sup>* (curve_start demo_curve 10) s' \<and> cu_sup s' = SupEnd r"
  using vu_curve_returns [of demo_curve "curve_start demo_curve 10" id] by (simp add: demo_curve_def curve_start_def)

theorem vu_curve_outcome_witness:
  "\<exists>s. curve_reach demo_curve id 0 s \<and> cu_sup s = SupEnd (Inr ()) \<and> cu_ends s = [VuOk] \<and> VuErr Aborted \<notin> set (cu_ends s)"
proof -
  from demo_park_run obtain s where s: "play_curve demo_curve id (demo_linger @ demo_park) (curve_start demo_curve 0) = Some s"
    "cu_sup s = SupEnd (Inr ())" "\<not> cu_cancelled s" "cu_ends s = [VuOk]" by blast
  have "cp_max demo_curve \<le> u32_max" by (simp add: demo_curve_def)
  from vu_curve_outcome [OF play_reach [OF s(1)] s(2,3) this] play_reach [OF s(1)] s(2,4) show ?thesis by blast
qed

theorem graceful_cap_lingering_witness:
  "\<exists>p i m d' t'. curve_path demo_curve id 0 27 p \<and> m < 27 \<and> cu_sup (p m) = SupRetire d' t' \<and> t' + 2 \<le> 3
    \<and> cu_desired (p 27) \<le> i \<and> cu_slab (p 27) ! i = Some 0"
proof -
  from demo_linger_run obtain s s' where s: "play_curve demo_curve id demo_linger (curve_start demo_curve 0) = Some s"
    "cu_sup s = SupRetire 0 3" "sup_step demo_curve id s = Some s'" "cu_dead s = []" "cu_dead s' = [0]" and len: "length demo_linger = 27"
    by blast
  from play_path [OF s(1)] obtain p where p: "p 0 = curve_start demo_curve 0" "p 27 = s"
    "\<forall>k < 27. curve_step demo_curve id (p k) (p (Suc k))" unfolding len by blast
  have path: "curve_path demo_curve id 0 27 p" using p(1,3) by (simp add: curve_path_def)
  have mode: "\<not> cp_immediate demo_curve" "cp_cap demo_curve = Some 2" by (simp_all add: demo_curve_def)
  have dead: "0 \<in> set (cu_dead s')" "0 \<notin> set (cu_dead (p 27))" using s(4,5) p(2) by simp_all
  from graceful_cap_lingering [OF path mode s(2,3) [folded p(2)] dead]
  obtain i m d' t' where m: "m < 27" "cu_sup (p m) = SupRetire d' t'" "t' + 2 \<le> 3"
    "\<forall>k. m \<le> k \<longrightarrow> k \<le> 27 \<longrightarrow> cu_desired (p k) \<le> i \<and> cu_slab (p k) ! i = Some 0" by blast
  have "cu_desired (p 27) \<le> i \<and> cu_slab (p 27) ! i = Some 0" using m(1,4) by simp
  then show ?thesis using path m(1-3) by blast
qed

subsection \<open>The wanted number of VUs\<close>

text \<open>\<^verbatim>\<open>f64::round\<close> of a non-negative number in exact arithmetic: half away from zero.\<close>

definition round_half_up :: "real \<Rightarrow> int" where "round_half_up x = \<lfloor>x + 1 / 2\<rfloor>"

lemma between_mix: "a \<le> p \<Longrightarrow> p \<le> b \<Longrightarrow> a \<le> q \<Longrightarrow> q \<le> b \<Longrightarrow> 0 \<le> u \<Longrightarrow> u \<le> 1 \<Longrightarrow> a \<le> p + u * (q - p) \<and> p + u * (q - p) \<le> b"
  for a b p q u :: real
proof -
  assume a: "a \<le> p" "p \<le> b" "a \<le> q" "q \<le> b" "0 \<le> u" "u \<le> 1"
  have e: "p + u * (q - p) = (1 - u) * p + u * q" by (simp add: algebra_simps)
  have "(1 - u) * a + u * a \<le> (1 - u) * p + u * q" using a by (intro add_mono mult_left_mono) auto
  moreover have "(1 - u) * p + u * q \<le> (1 - u) * b + u * b" using a by (intro add_mono mult_left_mono) auto
  ultimately show ?thesis unfolding e by (simp add: algebra_simps)
qed

lemma rate_from_between:
  "t0 \<le> t \<Longrightarrow> 0 \<le> prev \<Longrightarrow> prev \<le> b \<Longrightarrow> list_all (\<lambda>s. real (sg_target s) \<le> b) ss \<Longrightarrow>
   0 \<le> rate_from real_ops t0 prev ss t \<and> rate_from real_ops t0 prev ss t \<le> b"
proof (induction ss arbitrary: t0 prev)
  case (Cons s ss)
  let ?d = "real (sg_duration s)" and ?g = "real (sg_target s)"
  show ?case
  proof (cases "t \<le> t0 + ?d")
    case True
    have "0 \<le> (t - t0) / ?d" "(t - t0) / ?d \<le> 1" if "0 < ?d" using True Cons.prems(1) that by simp_all
    with True show ?thesis using Cons.prems between_mix [of 0 prev b ?g "(t - t0) / ?d"]
      by (auto simp: real_ops_def Let_def)
  next
    case False
    then show ?thesis using Cons.IH [of "t0 + ?d" ?g] Cons.prems by (simp add: real_ops_def Let_def)
  qed
qed simp

lemma max_target_bound: "list_all (\<lambda>s. real (sg_target s) \<le> real (max_target 0 (Some stages))) stages"
proof -
  have "s \<in> set stages \<Longrightarrow> sg_target s \<le> max_target 0 (Some stages)" for s
    by (cases stages) (auto simp: max_target_def foldl_max)
  then show ?thesis by (simp add: list_all_iff)
qed

text \<open>
  in exact arithmetic the number of VUs the supervisor publishes follows the curve: it is the
  curve's rate rounded to the nearest integer, at most half a VU off, and the clamp to the peak of
  the stages never changes it.
\<close>

theorem desired_follows_curve:
  assumes "0 \<le> t"
  shows "int (desired_vus real_ops round_half_up stages t) = round_half_up (rate_at real_ops stages t)
    \<and> \<bar>real (desired_vus real_ops round_half_up stages t) - rate_at real_ops stages t\<bar> \<le> 1 / 2
    \<and> desired_vus real_ops round_half_up stages t \<le> max_target 0 (Some stages)"
proof -
  let ?r = "rate_at real_ops stages t" and ?m = "max_target 0 (Some stages)"
  have r: "0 \<le> ?r" "?r \<le> real ?m"
    using rate_from_between [of 0 t 0 "real ?m" stages] assms max_target_bound [of stages] by (simp_all add: rate_at_def real_ops_def)
  have lo: "0 \<le> round_half_up ?r" using r(1) by (simp add: round_half_up_def)
  have "?r + 1 / 2 < real ?m + 1" using r(2) by simp
  then have hi: "round_half_up ?r \<le> int ?m" unfolding round_half_up_def by (simp add: floor_le_iff)
  have d: "int (desired_vus real_ops round_half_up stages t) = round_half_up ?r"
    using lo hi by (simp add: desired_vus_def clamp_vus_def)
  then have "real (desired_vus real_ops round_half_up stages t) = real_of_int \<lfloor>?r + 1 / 2\<rfloor>"
    unfolding round_half_up_def by linarith
  then have "\<bar>real (desired_vus real_ops round_half_up stages t) - ?r\<bar> \<le> 1 / 2" by linarith
  moreover have "desired_vus real_ops round_half_up stages t \<le> ?m" using d hi by simp
  ultimately show ?thesis using d by blast
qed

theorem desired_follows_curve_witness:
  "int (desired_vus real_ops round_half_up [\<lparr>sg_target = 10, sg_duration = 4\<rparr>] 1)
     = round_half_up (rate_at real_ops [\<lparr>sg_target = 10, sg_duration = 4\<rparr>] 1)"
  using desired_follows_curve [of 1 "[\<lparr>sg_target = 10, sg_duration = 4\<rparr>]"] by simp

end
