(* ===== verification/Insights.thy ===== *)
theory Insights
  imports Report Arrivals
begin

text \<open>
  \<^verbatim>\<open>controller/src/insights.rs\<close> and \<^verbatim>\<open>controller/src/validity.rs\<close>: the findings derived from a built report
  and the judgement whether its numbers may be relied on. Both are pure functions of the report, the
  run's profile and the scenario, whose YAML reader is a parameter (\<^const>\<open>None\<close> when it does not parse).
  Sums of counts stay within 64 bits.
\<close>

subsection \<open>Insights\<close>

record insight =
  ig_kind :: string
  ig_severity :: string
  ig_step :: "string option"
  ig_metric :: "string option"
  ig_value :: "f64 option"
  ig_pct :: "f64 option"
  ig_count :: "nat option"
  ig_class :: "string option"
  ig_window_seconds :: "int option"
  ig_recommended :: "f64 option"
  ig_cause :: "string option"
  ig_workers :: "f64 option"
  ig_onset :: "int option"
  ig_achieved :: "f64 option"
  ig_target :: "f64 option"
  ig_runner_up :: "f64 option"
  ig_error_kind :: "string option"

definition insight_new :: "string \<Rightarrow> string \<Rightarrow> insight" where
  "insight_new kind severity = \<lparr>ig_kind = kind, ig_severity = severity, ig_step = None, ig_metric = None, ig_value = None,
     ig_pct = None, ig_count = None, ig_class = None, ig_window_seconds = None, ig_recommended = None, ig_cause = None,
     ig_workers = None, ig_onset = None, ig_achieved = None, ig_target = None, ig_runner_up = None, ig_error_kind = None\<rparr>"

definition order_rank :: "insight \<Rightarrow> nat" where
  "order_rank i =
     (let k = ig_kind i; c = ig_class i in
      if k = ''loadgen_port_exhaustion'' then 1
      else if k = ''midrun_error_onset'' then 2
      else if k = ''slo_failure'' then 3
      else if k = ''status_class'' \<and> c = Some ''5xx'' then 4
      else if k = ''load_gen_saturated'' then 5
      else if k = ''no_request_step'' then 6
      else if k = ''error_hotspot'' then 7
      else if k = ''status_class'' \<and> c = Some ''4xx'' then 8
      else if k = ''status_temporal'' then 9
      else if k = ''slowest_step'' then 10
      else if k = ''slo_pass'' then 11
      else 99)"

subsection \<open>The scheduled arrivals\<close>

fun scheduled_from :: "'a num_ops \<Rightarrow> 'a \<Rightarrow> 'a \<Rightarrow> 'a \<Rightarrow> stage list \<Rightarrow> 'a \<Rightarrow> 'a" where
  "scheduled_from N acc seg_start prev [] d =
     (if nu_lt N seg_start d then nu_add N acc (nu_mul N prev (nu_sub N d seg_start)) else acc)"
| "scheduled_from N acc seg_start prev (s # ss) d =
     (let span = nu_nat N (sg_duration s); target = nu_nat N (sg_target s); seg_end = nu_add N seg_start span; two = nu_nat N 2 in
      if nu_le N seg_end d then
        scheduled_from N (nu_add N acc (nu_mul N (nu_div N (nu_add N prev target) two) span)) seg_end target ss d
      else if nu_lt N seg_start d \<and> nu_lt N (nu_nat N 0) span then
        (let t = nu_sub N d seg_start;
             rate_at_t = nu_add N prev (nu_mul N (nu_sub N target prev) (nu_div N t span))
         in nu_add N acc (nu_mul N (nu_div N (nu_add N prev rate_at_t) two) t))
      else acc)"

definition scheduled_arrivals :: "'a num_ops \<Rightarrow> nat option \<Rightarrow> stage list option \<Rightarrow> 'a \<Rightarrow> 'a option" where
  "scheduled_arrivals N target_rps stages d =
     (case stages of
        Some (s # ss) \<Rightarrow> Some (scheduled_from N (nu_nat N 0) (nu_nat N 0) (nu_nat N 0) (s # ss) d)
      | _ \<Rightarrow> map_option (\<lambda>t. nu_mul N (nu_nat N t) d) target_rps)"

subsection \<open>Errors that begin in the middle of a run\<close>

definition f64_of_int :: "int \<Rightarrow> f64" where "f64_of_int i = f64_of_frac i 1"

definition onset_clean_max :: f64 where "onset_clean_max = f64_of_frac 1 100"
definition onset_bad_min :: f64 where "onset_bad_min = f64_of_frac 1 10"
definition f64_half :: f64 where "f64_half = f64_of_frac 1 2"

record onset_second =
  os_ts :: int
  os_count :: nat
  os_bad :: nat
  os_fivexx :: nat

record onset_facts =
  of_second :: int
  of_bad_after :: nat
  of_fivexx_after :: nat

definition fivexx_of :: "report_window \<Rightarrow> nat" where "fivexx_of w = status_class_count (rw_status w) CHR ''5''"

definition bad_of :: "report_window \<Rightarrow> nat" where
  "bad_of w = unwrap_or 0 (bt_get (rw_status w) ''0'') + fivexx_of w"

definition seconds_of :: "report_window list \<Rightarrow> (int, nat \<times> nat \<times> nat) btree_map" where
  "seconds_of ws = fold (\<lambda>w. bt_entry (rw_ts w) (0, 0, 0)
     (\<lambda>(c, b, f). (c + rw_count w, b + bad_of w, f + fivexx_of w))) ws []"

definition onset_seconds :: "report_window list \<Rightarrow> onset_second list" where
  "onset_seconds ws =
     map (\<lambda>(ts, c, b, f). \<lparr>os_ts = ts, os_count = c, os_bad = b, os_fivexx = f\<rparr>) (filter (\<lambda>(_, c, _). 0 < c) (seconds_of ws))"

definition bad_ratio :: "onset_second \<Rightarrow> f64" where "bad_ratio s = f64_div (f64_of_nat (os_bad s)) (f64_of_nat (os_count s))"

definition clean_second :: "onset_second \<Rightarrow> bool" where "clean_second s = f64_lt (bad_ratio s) onset_clean_max"
definition bad_second :: "onset_second \<Rightarrow> bool" where "bad_second s = f64_le onset_bad_min (bad_ratio s)"

definition midrun_onset :: "report_window list \<Rightarrow> onset_facts option" where
  "midrun_onset ws =
     (let secs = onset_seconds ws; m = length secs in
      if m = 0 then None
      else let h = length (takeWhile clean_second secs) in
        if h < 10 then None
        else (case find (\<lambda>i. bad_second (secs ! i)) [h..<m] of
            None \<Rightarrow> None
          | Some t0 \<Rightarrow>
              (let tail = m - t0; bad_secs = length (filter (\<lambda>i. bad_second (secs ! i)) [t0..<m]) in
               if tail < 5 then None
               else if f64_lt (f64_of_nat bad_secs) (f64_mul f64_half (f64_of_nat tail)) then None
               else Some \<lparr>of_second = os_ts (secs ! t0) - os_ts (secs ! 0),
                      of_bad_after = sum_list (map os_bad (drop t0 secs)),
                      of_fivexx_after = sum_list (map os_fivexx (drop t0 secs))\<rparr>)))"

definition dominant_error_kind :: "(string \<times> nat) list \<Rightarrow> string option" where
  "dominant_error_kind kinds =
     (let total = sum_list (map snd kinds) in
      if total = 0 then None
      else case foldl (\<lambda>best (k, c). case best of None \<Rightarrow> Some (k, c)
               | Some (bk, bc) \<Rightarrow> if bc < c \<or> c = bc \<and> k < bk then Some (k, c) else Some (bk, bc)) None kinds of
          None \<Rightarrow> None
        | Some (k, c) \<Rightarrow>
            if f64_lt (f64_of_nat c) (f64_mul f64_half (f64_of_nat total)) then None
            else if k \<in> set [''connection_reset'', ''connect_timeout'', ''timeout'', ''connect_refused''] then Some k else None)"

subsection \<open>The steps that always run\<close>

fun collect_unconditional :: "step list \<Rightarrow> bool \<Rightarrow> string list"
  and unconditional_step :: "bool \<Rightarrow> step \<Rightarrow> string list"
  and unconditional_elifs :: "elif_branch list \<Rightarrow> string list"
  and unconditional_branches :: "bool \<Rightarrow> branch list \<Rightarrow> string list" where
  "collect_unconditional [] c = []"
| "collect_unconditional (s # ss) c = unconditional_step c s @ collect_unconditional ss c"
| "unconditional_step c (StHttp h) = (if c then [] else [hs_id h])"
| "unconditional_step c (StLoop i n r body) = collect_unconditional body (c \<or> r = 0)"
| "unconditional_step c (StIf i n cnd th els e) =
     collect_unconditional th True @ unconditional_elifs els @ collect_unconditional e True"
| "unconditional_step c (StParallel i n bs) = unconditional_branches c bs"
| "unconditional_elifs [] = []"
| "unconditional_elifs (ElifBranch cnd t # els) = collect_unconditional t True @ unconditional_elifs els"
| "unconditional_branches c [] = []"
| "unconditional_branches c (Branch n ss # bs) = collect_unconditional ss c @ unconditional_branches c bs"

fun find_http_step :: "step list \<Rightarrow> string \<Rightarrow> http_step option"
  and find_in_step :: "step \<Rightarrow> string \<Rightarrow> http_step option"
  and find_in_elifs :: "elif_branch list \<Rightarrow> string \<Rightarrow> http_step option"
  and find_in_branches :: "branch list \<Rightarrow> string \<Rightarrow> http_step option" where
  "find_http_step [] x = None"
| "find_http_step (s # ss) x = (case find_in_step s x of Some h \<Rightarrow> Some h | None \<Rightarrow> find_http_step ss x)"
| "find_in_step (StHttp h) x = (if hs_id h = x then Some h else None)"
| "find_in_step (StLoop i n r body) x = find_http_step body x"
| "find_in_step (StIf i n cnd th els e) x = (case find_http_step th x of Some h \<Rightarrow> Some h
     | None \<Rightarrow> (case find_in_elifs els x of Some h \<Rightarrow> Some h | None \<Rightarrow> find_http_step e x))"
| "find_in_step (StParallel i n bs) x = find_in_branches bs x"
| "find_in_elifs [] x = None"
| "find_in_elifs (ElifBranch cnd t # els) x = (case find_http_step t x of Some h \<Rightarrow> Some h | None \<Rightarrow> find_in_elifs els x)"
| "find_in_branches [] x = None"
| "find_in_branches (Branch n ss # bs) x = (case find_http_step ss x of Some h \<Rightarrow> Some h | None \<Rightarrow> find_in_branches bs x)"

definition http_step_has_status_assert :: "step list \<Rightarrow> string \<Rightarrow> bool" where
  "http_step_has_status_assert ss x = (case find_http_step ss x of None \<Rightarrow> False
     | Some h \<Rightarrow> list_ex (\<lambda>a. case a of AStatus _ \<Rightarrow> True) (hs_assert h))"

subsection \<open>The sizing of a saturated load generator\<close>

definition median :: "nat list \<Rightarrow> f64" where
  "median vals = (let v = sort vals; n = length v in
     if n = 0 then 0
     else if n mod 2 = 1 then f64_of_nat (v ! (n div 2))
     else f64_div (f64_of_nat (v ! (n div 2 - 1) + v ! (n div 2))) (f64_of_nat 2))"

definition tau_5xx :: f64 where "tau_5xx = f64_of_frac 1 100"
definition tau_lat :: f64 where "tau_lat = f64_of_frac 3 2"
definition tau_slow_ratio :: f64 where "tau_slow_ratio = f64_of_frac 3 2"

definition count_by_second :: "report_window list \<Rightarrow> (int, nat) btree_map" where
  "count_by_second ws = fold (\<lambda>w. bt_entry (rw_ts w) 0 (\<lambda>c. c + rw_count w)) ws []"

definition latency_rose :: "report_window list \<Rightarrow> bool" where
  "latency_rose ws =
     (let by = fold (\<lambda>w. bt_entry (rw_ts w) 0 (\<lambda>c. max c (pc_p95 (rw_pct w)))) ws []; l = length by; k = l div 3 in
      if k < 1 \<or> fst (last by) - fst (hd by) < 6 then False
      else let em = median (map snd (take k by)) in
        f64_lt 0 em \<and> f64_le (f64_mul tau_lat em) (median (map snd (drop (l - k) by))))"

definition sut_stress :: "(string, nat) btree_map \<Rightarrow> report_window list \<Rightarrow> bool" where
  "sut_stress d ws =
     (let n = http_response_total d in
      (0 < n \<and> f64_le tau_5xx (f64_div (f64_of_nat (status_class_count d CHR ''5'')) (f64_of_nat n))) \<or> latency_rose ws)"

definition saturation_onset :: "(int, nat) btree_map \<Rightarrow> nat \<Rightarrow> int option" where
  "saturation_onset by peak =
     (let l = length by; k = l div 3 in
      if l < 3 \<or> peak = 0 \<or> k < 1 then None
      else if f64_le (f64_mul f64_half (f64_of_nat peak)) (median (map snd (take k by))) then None
      else (case find (\<lambda>(_, c). c = peak) by of None \<Rightarrow> None | Some (t, _) \<Rightarrow> Some (t - fst (hd by))))"

definition f64_ceil :: "f64 \<Rightarrow> f64" where
  "f64_ceil x = f64_of_frac (- ((- f64_num x) div int (f64_den x))) 1"

definition f64_max0 :: "f64 \<Rightarrow> f64" where "f64_max0 x = (if f64_lt x 0 then 0 else x)"

definition f64_clamp :: "f64 \<Rightarrow> f64 \<Rightarrow> f64 \<Rightarrow> f64" where
  "f64_clamp x lo hi = (if f64_lt x lo then lo else if f64_lt hi x then hi else x)"

definition achieved_rate :: "f64 \<Rightarrow> nat \<Rightarrow> int \<Rightarrow> f64" where
  "achieved_rate scheduled dropped secs = f64_max0 (f64_div (f64_sub scheduled (f64_of_nat dropped)) (f64_of_int (max secs 1)))"

definition recommended_slots :: "nat \<Rightarrow> nat \<Rightarrow> f64 \<Rightarrow> f64" where
  "recommended_slots target m achieved =
     f64_clamp (if f64_lt 0 achieved then f64_ceil (f64_div (f64_mul (f64_of_nat target) (f64_of_nat m)) achieved) else f64_of_nat 10000)
       (f64_of_nat 1) (f64_of_nat 10000)"

subsection \<open>Deriving the insights\<close>

definition i64_max :: int where "i64_max = 9223372036854775807"
definition i64_min :: int where "i64_min = - 9223372036854775808"

text \<open>The index of the first step with the largest p95.\<close>

definition top_index :: "report_step list \<Rightarrow> nat option" where
  "top_index steps = foldl (\<lambda>top i. case top of None \<Rightarrow> Some i
     | Some cur \<Rightarrow> if pc_p95 (rs_pct (steps ! cur)) < pc_p95 (rs_pct (steps ! i)) then Some i else top) None [0..<length steps]"

definition nat_max_opt :: "nat list \<Rightarrow> nat option" where
  "nat_max_opt xs = (case xs of [] \<Rightarrow> None | y # ys \<Rightarrow> Some (foldl max y ys))"

definition slowest_step :: "report_step list \<Rightarrow> insight list" where
  "slowest_step steps = (case top_index steps of None \<Rightarrow> []
     | Some ti \<Rightarrow>
         (let p95 = pc_p95 (rs_pct (steps ! ti)) in
          case nat_max_opt (map (\<lambda>i. pc_p95 (rs_pct (steps ! i))) (filter (\<lambda>i. i \<noteq> ti) [0..<length steps])) of
            None \<Rightarrow> []
          | Some ru \<Rightarrow>
              if 20 \<le> p95 - ru \<and> f64_le (f64_mul tau_slow_ratio (f64_of_nat ru)) (f64_of_nat p95)
              then [(insight_new ''slowest_step'' ''info'')\<lparr>ig_step := Some (rs_id (steps ! ti)), ig_metric := Some ''p95_ms'',
                      ig_value := Some (f64_of_nat p95), ig_runner_up := Some (f64_of_nat ru)\<rparr>]
              else []))"

definition slo_insight :: "verdict option \<Rightarrow> insight list" where
  "slo_insight v = (case v of None \<Rightarrow> []
     | Some v \<Rightarrow> if vd_passed v then [insight_new ''slo_pass'' ''info'']
         else [(insight_new ''slo_failure'' ''critical'')\<lparr>ig_count := Some (length (filter (\<lambda>c. \<not> cres_passed c) (vd_criteria v)))\<rparr>])"

definition error_hotspot :: "report_summary \<Rightarrow> report_step list \<Rightarrow> insight list" where
  "error_hotspot sm steps =
     (if sm_errors sm = 0 then []
      else case foldl (\<lambda>top s. if 0 < rs_errors s \<and> (case top of None \<Rightarrow> True | Some cur \<Rightarrow> rs_errors cur < rs_errors s) then Some s else top)
             None steps of
          None \<Rightarrow> []
        | Some s \<Rightarrow> [(insight_new ''error_hotspot'' ''warning'')\<lparr>ig_step := Some (rs_id s),
              ig_pct := Some (f64_div (f64_of_nat (rs_errors s)) (f64_of_nat (sm_errors sm))), ig_count := Some (rs_errors s)\<rparr>])"

definition status_class_insights :: "(string, nat) btree_map \<Rightarrow> insight list" where
  "status_class_insights d =
     (let n = http_response_total d in
      if n = 0 then []
      else concat (map (\<lambda>(cls, c, sev).
        (let k = status_class_count d c in
         if 0 < k then [(insight_new ''status_class'' sev)\<lparr>ig_class := Some cls,
             ig_pct := Some (f64_div (f64_of_nat k) (f64_of_nat n)), ig_count := Some k\<rparr>]
         else []))
        [(''4xx'', CHR ''4'', ''warning''), (''5xx'', CHR ''5'', ''critical'')]))"

definition onset_insight :: "onset_facts option \<Rightarrow> (string \<times> nat) list \<Rightarrow> insight list" where
  "onset_insight f kinds = (case f of None \<Rightarrow> []
     | Some f \<Rightarrow> [(insight_new ''midrun_error_onset'' ''critical'')\<lparr>ig_onset := Some (of_second f), ig_count := Some (of_bad_after f),
           ig_class := (if 10 \<le> of_fivexx_after f then Some ''5xx'' else None), ig_error_kind := dominant_error_kind kinds\<rparr>])"

definition port_exhaustion :: "(string \<times> nat) list \<Rightarrow> insight list" where
  "port_exhaustion kinds = (case find (\<lambda>(k, c). k = ''local_port_exhaustion'' \<and> 1 \<le> c) kinds of None \<Rightarrow> []
     | Some (k, c) \<Rightarrow> [(insight_new ''loadgen_port_exhaustion'' ''critical'')\<lparr>ig_count := Some c,
           ig_error_kind := Some ''local_port_exhaustion''\<rparr>])"

definition status_temporal :: "report_window list \<Rightarrow> insight list" where
  "status_temporal ws =
     (let late = fold (\<lambda>w m. if 0 < fivexx_of w then bt_entry (rw_ts w) 0 (\<lambda>c. c + fivexx_of w) m else m) ws [];
          min_ts = foldl min i64_max (map rw_ts ws); max_ts = foldl max i64_min (map rw_ts ws) in
      case late of
        [] \<Rightarrow> []
      | (t_first, _) # _ \<Rightarrow>
          if min_ts < max_ts
             \<and> f64_lt (f64_add (f64_of_int min_ts) (f64_div (f64_of_int (max_ts - min_ts)) (f64_of_nat 2))) (f64_of_int t_first)
          then [(insight_new ''status_temporal'' ''warning'')\<lparr>ig_class := Some ''5xx'', ig_window_seconds := Some (max_ts - t_first + 1)\<rparr>]
          else [])"

definition no_request_steps :: "step list option \<Rightarrow> report_step list \<Rightarrow> insight list" where
  "no_request_steps sc steps = (case sc of None \<Rightarrow> []
     | Some ss \<Rightarrow> map (\<lambda>i. (insight_new ''no_request_step'' ''warning'')\<lparr>ig_step := Some i\<rparr>)
         (filter (\<lambda>i. i \<notin> set (map rs_id steps)) (remdups_adj (sort (collect_unconditional ss False)))))"

definition saturated_insight ::
  "report_summary \<Rightarrow> report_window list \<Rightarrow> (string, nat) btree_map \<Rightarrow> nat \<Rightarrow> nat option \<Rightarrow> nat option \<Rightarrow> f64 option \<Rightarrow> insight list"
where
  "saturated_insight sm ws d dropped max_in_flight target_rps scheduled =
     (if dropped = 0 then []
      else
        let by = count_by_second ws;
            peak = (case nat_max_opt (map snd by) of Some p \<Rightarrow> p | None \<Rightarrow> f64_round_u64 (sm_rps sm));
            ins = (insight_new ''load_gen_saturated'' ''warning'')\<lparr>ig_value := Some (f64_of_nat peak), ig_count := Some dropped,
                     ig_onset := saturation_onset by peak\<rparr>
        in [case (target_rps, max_in_flight, scheduled) of
              (Some target, Some m, Some sched) \<Rightarrow>
                (let achieved = achieved_rate sched dropped (sm_duration_seconds sm);
                     ins' = ins\<lparr>ig_target := Some (f64_of_nat target), ig_achieved := Some achieved\<rparr>
                 in if sut_stress d ws then ins'\<lparr>ig_cause := Some ''sut''\<rparr>
                    else ins'\<lparr>ig_cause := Some ''slots'', ig_recommended := Some (recommended_slots target m achieved)\<rparr>)
            | _ \<Rightarrow> ins])"

definition derive_insights ::
  "report_summary \<Rightarrow> report_step list \<Rightarrow> report_window list \<Rightarrow> (string, nat) btree_map \<Rightarrow> verdict option \<Rightarrow> step list option
     \<Rightarrow> nat \<Rightarrow> nat option \<Rightarrow> nat option \<Rightarrow> f64 option \<Rightarrow> (string \<times> nat) list \<Rightarrow> insight list"
where
  "derive_insights sm steps ws d v sc dropped max_in_flight target_rps scheduled kinds =
     (let onset = midrun_onset ws in
      sort_key order_rank
        (slowest_step steps @ slo_insight v @ error_hotspot sm steps @ status_class_insights d @ onset_insight onset kinds
         @ port_exhaustion kinds @ (if onset = None then status_temporal ws else []) @ no_request_steps sc steps
         @ saturated_insight sm ws d dropped max_in_flight target_rps scheduled))"

subsection \<open>Validity and narrative\<close>

record validity_reason =
  vr_kind :: string
  vr_severity :: string
  vr_pct :: "f64 option"
  vr_count :: "nat option"
  vr_step :: "string option"
  vr_metric :: "string option"
  vr_value :: "f64 option"

record validity =
  va_level :: string
  va_reasons :: "validity_reason list"

definition reason_base :: "string \<Rightarrow> string \<Rightarrow> validity_reason" where
  "reason_base kind severity = \<lparr>vr_kind = kind, vr_severity = severity, vr_pct = None, vr_count = None, vr_step = None,
     vr_metric = None, vr_value = None\<rparr>"

definition has_reason :: "validity \<Rightarrow> string \<Rightarrow> bool" where
  "has_reason v kind = list_ex (\<lambda>r. vr_kind r = kind) (va_reasons v)"

definition transport_reason :: "(string, nat) btree_map \<Rightarrow> validity_reason list" where
  "transport_reason d =
     (let n0 = unwrap_or 0 (bt_get d ''0''); n = n0 + http_response_total d; pct = f64_div (f64_of_nat n0) (f64_of_nat n) in
      if 0 < n0 \<and> 0 < n \<and> (f64_le (f64_of_frac 1 20) pct \<or> 50 \<le> n0)
      then [(reason_base ''transport_heavy'' (if f64_le f64_half pct then ''critical'' else ''warning''))\<lparr>vr_pct := Some pct, vr_count := Some n0\<rparr>]
      else [])"

definition silent_reason :: "report_summary \<Rightarrow> (string, nat) btree_map \<Rightarrow> validity_reason list" where
  "silent_reason sm d =
     (let n = status_class_count d CHR ''4'' + status_class_count d CHR ''5''; h = http_response_total d in
      if 0 < n \<and> sm_errors sm = 0
      then [(reason_base ''silent_http_errors'' ''warning'')\<lparr>vr_count := Some n,
              vr_pct := (if 0 < h then Some (f64_div (f64_of_nat n) (f64_of_nat h)) else None)\<rparr>]
      else [])"

definition unvalidated_reason :: "step list option \<Rightarrow> bool \<Rightarrow> validity_reason list" where
  "unvalidated_reason sc has_active = (case sc of None \<Rightarrow> []
     | Some ss \<Rightarrow>
         (let ids = collect_unconditional ss False in
          if ids \<noteq> [] \<and> \<not> list_ex (http_step_has_status_assert ss) ids \<and> \<not> has_active
          then [reason_base ''no_response_validation'' ''warning''] else []))"

definition insight_reason :: "string \<Rightarrow> string \<Rightarrow> string \<Rightarrow> insight list \<Rightarrow> validity_reason list" where
  "insight_reason from kind severity ins = (case find (\<lambda>i. ig_kind i = from) ins of None \<Rightarrow> []
     | Some i \<Rightarrow> [(reason_base kind severity)\<lparr>vr_count := ig_count i\<rparr>])"

definition derive_validity ::
  "report_summary \<Rightarrow> (string, nat) btree_map \<Rightarrow> step list option \<Rightarrow> bool \<Rightarrow> insight list \<Rightarrow> validity"
where
  "derive_validity sm d sc has_active ins =
     (let reasons = (if sm_count sm = 0 then [reason_base ''zero_requests'' ''critical''] else [])
          @ transport_reason d @ silent_reason sm d @ unvalidated_reason sc has_active
          @ insight_reason ''load_gen_saturated'' ''load_not_delivered'' ''warning'' ins
          @ insight_reason ''loadgen_port_exhaustion'' ''loadgen_port_exhaustion'' ''critical'' ins
      in \<lparr>va_level = (if list_ex (\<lambda>r. vr_severity r = ''critical'') reasons then ''suspect''
            else if reasons \<noteq> [] then ''limited'' else ''ok''), va_reasons = reasons\<rparr>)"

record narrative =
  na_can :: "string list"
  na_cannot :: "string list"

definition push_unique :: "string \<Rightarrow> string list \<Rightarrow> string list" where
  "push_unique code out = (if code \<in> set out then out else out @ [code])"

definition push_when :: "bool \<Rightarrow> string list \<Rightarrow> string list \<Rightarrow> string list" where
  "push_when b codes out = (if b then fold push_unique codes out else out)"

definition can_claims :: "validity \<Rightarrow> report_summary \<Rightarrow> insight list \<Rightarrow> string list" where
  "can_claims v sm ins =
     fold (\<lambda>(b, codes). push_when b codes)
      [(has_reason v ''transport_heavy'', [''client_reachability_issue'']),
       (has_reason v ''silent_http_errors'', [''http_error_statuses_seen'']),
       (has_reason v ''no_response_validation'' \<and> 0 < sm_count sm, [''throughput_measured'']),
       (has_reason v ''load_not_delivered'', [''delivery_ceiling_observed'']),
       (va_level v = ''ok'' \<and> list_ex (\<lambda>i. ig_kind i = ''slo_pass'') ins, [''slo_held'']),
       (va_level v = ''ok'' \<and> list_ex (\<lambda>i. ig_kind i = ''status_class'' \<and> ig_class i = Some ''5xx'') ins, [''sut_errors_observed'']),
       (va_level v = ''ok'' \<and> list_ex (\<lambda>i. ig_kind i = ''slowest_step'') ins, [''bottleneck_step''])] []"

definition cannot_claims :: "validity \<Rightarrow> bool \<Rightarrow> string list" where
  "cannot_claims v has_active =
     fold (\<lambda>(b, codes). push_when b codes)
      [(has_reason v ''zero_requests'', [''any_performance_claim'']),
       (has_reason v ''transport_heavy'', [''sut_capacity'', ''slo_as_capacity'']),
       (has_reason v ''silent_http_errors'', [''zero_engine_errors_means_ok'']),
       (has_reason v ''no_response_validation'', [''functional_correctness'', ''error_free_service'']),
       (has_reason v ''load_not_delivered'', [''target_load_applied'']),
       (\<not> has_active, [''slo_gate''])] []"

definition derive_narrative :: "validity \<Rightarrow> report_summary \<Rightarrow> bool \<Rightarrow> insight list \<Rightarrow> narrative" where
  "derive_narrative v sm has_active ins =
     (let cannot = take 5 (cannot_claims v has_active) in
      \<lparr>na_can = take 5 (can_claims v sm ins),
       na_cannot = (if ''production_identity'' \<in> set cannot then cannot
         else if length cannot < 5 then cannot @ [''production_identity''] else cannot[4 := ''production_identity''])\<rparr>)"

subsection \<open>The judgement of a report\<close>

text \<open>\<^verbatim>\<open>build_report\<close> after the aggregation: insights, validity and narrative of a run's report.\<close>

record judgement =
  ju_insights :: "insight list"
  ju_validity :: validity
  ju_narrative :: narrative

definition judge_report :: "(f64 \<Rightarrow> f64) \<Rightarrow> (string \<Rightarrow> step list option) \<Rightarrow> run_row \<Rightarrow> report \<Rightarrow> judgement" where
  "judge_report sq yaml run rp =
     (let p = rr_profile run; sc = yaml (rr_scenario_yaml run);
          target = (case pf_target_rps p of Some t \<Rightarrow> Some t
            | None \<Rightarrow> (case pf_stages p of None \<Rightarrow> None | Some ss \<Rightarrow> nat_max_opt (map sg_target ss)));
          ins = derive_insights (rp_summary rp) (rp_steps rp) (rp_windows rp) (rp_status rp) (rp_verdict rp) sc (rp_dropped rp)
            (pf_max_in_flight p) target
            (scheduled_arrivals (f64_ops sq) (pf_target_rps p) (pf_stages p) (f64_of_int (sm_duration_seconds (rp_summary rp))))
            (rp_kinds rp);
          has_active = (case pf_criteria p of None \<Rightarrow> False | Some c \<Rightarrow> has_any c);
          va = derive_validity (rp_summary rp) (rp_status rp) sc has_active ins
      in \<lparr>ju_insights = ins, ju_validity = va, ju_narrative = derive_narrative va (rp_summary rp) has_active ins\<rparr>)"

end
