(* ===== verification/Insights_Props.thy ===== *)
theory Insights_Props
  imports Insights Runner_Props Arrivals_Props Report_Props
begin

text \<open>
  What the insights of a report say of the run: the arrivals the load generator is measured against
  are those the scheduler aims at, a step reported as silent was due in every completed iteration, the
  onset of errors is what its definition says, and the judgement of a report follows from its numbers.
\<close>

subsection \<open>The scheduled arrivals\<close>

lemma arrivals_by_0 [simp]: "arrivals_by r ss 0 = 0"
  by (cases ss) (simp_all add: Let_def)

lemma trapezoid: "0 < d \<Longrightarrow> (r + (r + (g - r) * (t / d))) / 2 * t = r * t + (g - r) / d * t\<^sup>2 / 2" for r g t d :: real
  by (simp add: field_simps power2_eq_square)

lemma scheduled_from_real:
  "t0 \<le> d \<Longrightarrow> scheduled_from real_ops acc t0 r ss d = acc + arrivals_by r ss (d - t0)"
proof (induction ss arbitrary: acc t0 r)
  case (Cons s ss)
  let ?d = "real (sg_duration s)" and ?g = "real (sg_target s)"
  show ?case
  proof (cases "t0 + ?d \<le> d")
    case True
    have "arrivals_by r (s # ss) (d - t0) = (r + ?g) / 2 * ?d + arrivals_by ?g ss (d - (t0 + ?d))"
    proof (cases "d - t0 \<le> ?d")
      case eq: True
      with True have d: "d - t0 = ?d" by simp
      have e: "(r + ?g) / 2 * ?d = r * ?d + (?g - r) / ?d * ?d\<^sup>2 / 2"
        by (cases "sg_duration s = 0") (auto simp: field_simps power2_eq_square)
      have z: "d - (t0 + ?d) = 0" using d by simp
      show ?thesis unfolding arrivals_by.simps Let_def z using d e by simp
    next
      case False
      then show ?thesis by (simp add: Let_def diff_diff_eq)
    qed
    with True Cons.IH [of "t0 + ?d"] show ?thesis by (simp add: real_ops_def Let_def)
  next
    case False
    show ?thesis
    proof (cases "d = t0")
      case False
      then have "t0 < d" "d - t0 \<le> ?d" "0 < ?d" using Cons.prems \<open>\<not> t0 + ?d \<le> d\<close> by auto
      then show ?thesis using \<open>\<not> t0 + ?d \<le> d\<close> trapezoid [of ?d r ?g "d - t0"] by (simp add: real_ops_def Let_def)
    qed (use False in \<open>simp add: real_ops_def Let_def\<close>)
  qed
qed (simp add: real_ops_def)

text \<open>
  C27: the number of arrivals an insight holds against a saturated run is the one the open-loop
  scheduler aims at: in exact arithmetic it is the integral of the rate curve up to the end of the run
  (the peak held after the last stage, a run cut short in the middle of a stage included), and the
  fixed rate times the duration without a curve.
\<close>

theorem scheduled_arrivals_integral:
  assumes "0 \<le> d"
  shows "scheduled_arrivals real_ops target (Some (s # ss)) d = Some (arrivals_by 0 (s # ss) d)
    \<and> scheduled_arrivals real_ops (Some n) None d = Some (real n * d)
    \<and> scheduled_arrivals real_ops target (Some []) d = scheduled_arrivals real_ops target None d"
proof -
  have "nu_nat real_ops 0 = 0" "nu_mul real_ops = (*)" "nu_nat real_ops n = real n" by (simp_all add: real_ops_def)
  then show ?thesis
    unfolding scheduled_arrivals_def using scheduled_from_real [OF assms, of 0 0 "s # ss"]
    by (simp del: scheduled_from.simps arrivals_by.simps)
qed

theorem scheduled_arrivals_integral_witness:
  "scheduled_arrivals real_ops None (Some [\<lparr>sg_target = 10, sg_duration = 4\<rparr>]) 2 = Some 5"
  using scheduled_arrivals_integral [of 2 None "\<lparr>sg_target = 10, sg_duration = 4\<rparr>" "[]" 0] by (simp add: Let_def)

subsection \<open>The steps that always run\<close>

lemma unconditional_True:
  "collect_unconditional ss True = []" "unconditional_step True s = []" "unconditional_branches True bs = []"
proof -
  have "(c \<longrightarrow> collect_unconditional ss c = [])" "(c \<longrightarrow> unconditional_step c s = [])" "unconditional_elifs els = []"
    "(c \<longrightarrow> unconditional_branches c bs = [])" for c els
    by (induction ss c and c s and els and c bs
        rule: collect_unconditional_unconditional_step_unconditional_elifs_unconditional_branches.induct) auto
  then show "collect_unconditional ss True = []" "unconditional_step True s = []" "unconditional_branches True bs = []" by auto
qed

lemma elifs_Nil: "unconditional_elifs els = []"
proof (induction els)
  case (Cons e els)
  then show ?case by (cases e) (simp add: unconditional_True)
qed simp

inductive_cases complete_ConsE: "complete li (s # ss) M"
inductive_cases complete1_HttpE: "complete1 li (StHttp h) M"
inductive_cases complete1_LoopE: "complete1 li (StLoop i nm n body) M"
inductive_cases complete1_ParallelE: "complete1 li (StParallel i nm bs) M"

definition requested :: "string \<Rightarrow> visible multiset \<Rightarrow> bool" where
  "requested x M \<longleftrightarrow> (\<exists>li. VReq x li \<in># M)"

lemma requested_add [simp]: "requested x (M + N) \<longleftrightarrow> requested x M \<or> requested x N"
  by (auto simp: requested_def)

lemma requested_sum: "k < length Ms \<Longrightarrow> requested x (Ms ! k) \<Longrightarrow> requested x (sum_list Ms)"
proof (induction Ms arbitrary: k)
  case (Cons M Ms)
  then show ?case by (cases k) auto
qed simp

lemma unconditional_branches_nth:
  "x \<in> set (unconditional_branches c bs) \<Longrightarrow> \<exists>k < length bs. x \<in> set (collect_unconditional (br_steps (bs ! k)) c)"
proof (induction bs)
  case (Cons b bs)
  obtain n ss where b: "b = Branch n ss" by (cases b)
  from Cons.prems consider "x \<in> set (collect_unconditional ss c)" | "x \<in> set (unconditional_branches c bs)" by (auto simp: b)
  then show ?case
  proof cases
    case 2
    with Cons.IH obtain k where "k < length bs" "x \<in> set (collect_unconditional (br_steps (bs ! k)) c)" by blast
    then show ?thesis by (intro exI [of _ "Suc k"]) simp
  qed (intro exI [of _ 0], simp add: b)
qed simp

lemma always_requested:
  "complete li ss M \<Longrightarrow> x \<in> set (collect_unconditional ss False) \<Longrightarrow> requested x M"
  "complete1 li s M \<Longrightarrow> x \<in> set (unconditional_step False s) \<Longrightarrow> requested x M"
proof (induction rule: complete_complete1.inducts)
  case (complete_Loop Ms n body li i nm)
  then have "n \<noteq> 0" by (auto simp: unconditional_True)
  with complete_Loop have "requested x (Ms ! 0)" by auto
  with \<open>n \<noteq> 0\<close> complete_Loop(1) show ?case by (auto intro: requested_sum [of 0])
next
  case (complete_If taken br th els e li M i nm c)
  then show ?case by (simp add: unconditional_True elifs_Nil)
next
  case (complete_Parallel Ms bs li i nm)
  from complete_Parallel(4) obtain k where k: "k < length bs" "x \<in> set (collect_unconditional (br_steps (bs ! k)) False)"
    using unconditional_branches_nth by fastforce
  then have "requested x (Ms ! k)" using complete_Parallel(3) by blast
  then show ?case using requested_sum [of k Ms x] k(1) complete_Parallel(1) by simp
qed (auto simp: requested_def)

lemma distinct_remdups_adj_sorted: "sorted xs \<Longrightarrow> distinct (remdups_adj xs)" for xs :: "'a :: linorder list"
proof (induction xs rule: remdups_adj.induct)
  case (3 x y xs)
  show ?case
  proof (cases "x = y")
    case True
    then show ?thesis using 3 by simp
  next
    case False
    then have "x \<notin> set (y # xs)" using 3(3) by (auto simp: order_antisym)
    then show ?thesis using False 3 by (simp del: remdups_adj.simps add: remdups_adj.simps(3) [of x y])
  qed
qed simp_all

text \<open>
  a step is reported as silent only when no iteration was completed: if one iteration of any
  virtual user ran to the end and the report has a row for every step that iteration requested, no
  \<open>no_request_step\<close> is derived, whatever branches, loops (with their repeat counts, zero included) and
  parallel nodes the scenario has; and the steps reported are exactly those always run without a row,
  each once.
\<close>

theorem no_request_step_sound:
  assumes "shuffle_ok (en_rt E)" "run_steps E it li dt ss st = (Inr FlowContinue, st')" "vu_log st' = vu_log st @ new"
    "\<forall>x. requested x (visibles new) \<longrightarrow> x \<in> set (map rs_id steps)"
  shows "no_request_steps (Some ss) steps = []
    \<and> set (List.map_filter ig_step (no_request_steps (Some ss) rows)) = set (collect_unconditional ss False) - set (map rs_id rows)
    \<and> distinct (List.map_filter ig_step (no_request_steps (Some ss) rows))"
proof -
  have "complete li ss (visibles new)"
    using spec_run(1) [OF assms(1), of st it li dt ss] assms(2,3) by (auto simp: spec_def)
  then have "set (collect_unconditional ss False) \<subseteq> set (map rs_id steps)"
    using always_requested(1) assms(4) by blast
  moreover have ids: "List.map_filter ig_step (no_request_steps (Some ss) rows)
      = filter (\<lambda>i. i \<notin> set (map rs_id rows)) (remdups_adj (sort (collect_unconditional ss False)))"
    by (simp add: no_request_steps_def List.map_filter_def comp_def)
  moreover have "distinct (remdups_adj (sort (collect_unconditional ss False)))"
    by (intro distinct_remdups_adj_sorted) simp
  ultimately show ?thesis unfolding ids by (auto simp: no_request_steps_def filter_empty_conv)
qed

theorem no_request_step_sound_witness:
  "\<exists>row. rs_id row = ''s1'' \<and> no_request_steps (Some [StHttp demo_step]) [row] = []"
proof -
  have st0: "vu_world demo_state = 3" "vu_req demo_state = None" "vu_log demo_state = []" by (simp_all add: demo_state_def)
  have b: "boundary demo_engine demo_state = (FlowContinue, demo_state)"
    by (simp add: boundary_def demo_engine_def demo_rt_def st0)
  obtain s1 ops where s1: "http_arm demo_engine 0 None None demo_step demo_state = (Inr FlowContinue, s1)"
    "vu_log s1 = vu_log demo_state @ ops" "visibles ops = {#VReq ''s1'' None#}"
    using demo_arm [OF st0(2), of 0 None] by blast
  have run: "run_steps demo_engine 0 None None [StHttp demo_step] demo_state = (Inr FlowContinue, s1)" using s1(1) b by simp
  define row :: report_step where "row = \<lparr>rs_id = ''s1'', rs_count = 2, rs_errors = 0, rs_status = [], rs_pct = percentiles_empty,
    rs_loops = [], rs_download = None, rs_wait = None\<rparr>"
  then have row: "rs_id row = ''s1''" by simp
  have "\<forall>x. requested x (visibles ops) \<longrightarrow> x \<in> set (map rs_id [row])" by (simp add: requested_def s1(3) row)
  from no_request_step_sound [OF demo_shuffle run s1(2) this] row show ?thesis by blast
qed

subsection \<open>The onset of errors\<close>

definition second_sum :: "(report_window \<Rightarrow> nat) \<Rightarrow> report_window list \<Rightarrow> int \<Rightarrow> nat" where
  "second_sum f ws ts = sum_list (map f (filter (\<lambda>w. rw_ts w = ts) ws))"

lemma seconds_fold:
  fixes m ws
  assumes "bt_ok m"
  defines "m' \<equiv> fold (\<lambda>w. bt_entry (rw_ts w) (0, 0, 0) (\<lambda>(c, b, f). (c + rw_count w, b + bad_of w, f + fivexx_of w))) ws m"
  shows "bt_ok m' \<and> unwrap_or (0, 0, 0) (bt_get m' ts) = (case unwrap_or (0, 0, 0) (bt_get m ts) of
     (c, b, f) \<Rightarrow> (c + second_sum rw_count ws ts, b + second_sum bad_of ws ts, f + second_sum fivexx_of ws ts))"
  unfolding m'_def using assms(1)
proof (induction ws arbitrary: m)
  case (Cons w ws)
  let ?m = "bt_entry (rw_ts w) (0, 0, 0) (\<lambda>(c, b, f). (c + rw_count w, b + bad_of w, f + fivexx_of w)) m"
  have "bt_ok ?m" using Cons.prems by simp
  from Cons.IH [OF this] show ?case
    by (auto simp: second_sum_def unwrap_or_def ac_simps split: prod.splits option.splits)
qed (auto simp: second_sum_def split: prod.split)

lemma seconds_of_props:
  "bt_ok (seconds_of ws)"
  "unwrap_or (0, 0, 0) (bt_get (seconds_of ws) ts) = (second_sum rw_count ws ts, second_sum bad_of ws ts, second_sum fivexx_of ws ts)"
proof -
  have ok: "bt_ok ([] :: (int, nat \<times> nat \<times> nat) btree_map)" by simp
  have "bt_get ([] :: (int, nat \<times> nat \<times> nat) btree_map) ts = None" by (simp add: bt_get_def)
  with seconds_fold [OF ok, of ws ts]
  show "bt_ok (seconds_of ws)"
    "unwrap_or (0, 0, 0) (bt_get (seconds_of ws) ts) = (second_sum rw_count ws ts, second_sum bad_of ws ts, second_sum fivexx_of ws ts)"
    by (simp_all add: seconds_of_def unwrap_or_def)
qed

lemma onset_second_sums:
  assumes "s \<in> set (onset_seconds ws)"
  shows "0 < os_count s \<and> os_count s = second_sum rw_count ws (os_ts s) \<and> os_bad s = second_sum bad_of ws (os_ts s)
    \<and> os_fivexx s = second_sum fivexx_of ws (os_ts s)"
proof -
  from assms obtain ts c b f where s: "s = \<lparr>os_ts = ts, os_count = c, os_bad = b, os_fivexx = f\<rparr>" and c: "0 < c"
    and mem: "(ts, c, b, f) \<in> set (seconds_of ws)" by (auto simp: onset_seconds_def)
  have "bt_get (seconds_of ws) ts = Some (c, b, f)"
    using mem seconds_of_props(1) [of ws] by (simp add: bt_get_def bt_ok_def strict_sorted_iff)
  with seconds_of_props(2) [of ws ts] s c show ?thesis by (simp add: unwrap_or_def)
qed

lemma onset_seconds_sorted: "sorted_wrt (<) (map os_ts (onset_seconds ws))"
proof -
  have "sorted_wrt (<) (map fst (filter P (seconds_of ws)))" for P
    using seconds_of_props(1) [of ws] unfolding bt_ok_def by (simp add: sorted_wrt_map sorted_wrt_filter)
  moreover have "map os_ts (onset_seconds ws) = map fst (filter (\<lambda>(_, c, _). 0 < c) (seconds_of ws))"
    by (simp add: onset_seconds_def split_def)
  ultimately show ?thesis by simp
qed

text \<open>The seconds of a run cut into a clean beginning, a transition and the bad rest.\<close>

definition onset_shape :: "onset_second list \<Rightarrow> onset_second list \<Rightarrow> onset_second list \<Rightarrow> onset_second list \<Rightarrow> bool" where
  "onset_shape secs cl mid bd \<longleftrightarrow> secs = cl @ mid @ bd \<and> 10 \<le> length cl \<and> 5 \<le> length bd
     \<and> list_all clean_second cl \<and> \<not> clean_second (hd (mid @ bd)) \<and> list_all (\<lambda>s. \<not> bad_second s) mid \<and> bad_second (hd bd)
     \<and> \<not> f64_lt (f64_of_nat (length (filter bad_second bd))) (f64_mul f64_half (f64_of_nat (length bd)))"

definition facts_of :: "onset_second list \<Rightarrow> onset_second list \<Rightarrow> onset_facts" where
  "facts_of secs bd = \<lparr>of_second = os_ts (hd bd) - os_ts (hd secs), of_bad_after = sum_list (map os_bad bd),
     of_fivexx_after = sum_list (map os_fivexx bd)\<rparr>"

lemma find_upt: "find P [a..<b] = Some t \<longleftrightarrow> a \<le> t \<and> t < b \<and> P t \<and> (\<forall>i. a \<le> i \<longrightarrow> i < t \<longrightarrow> \<not> P i)"
proof (induction "b - a" arbitrary: a)
  case 0
  then show ?case by auto
next
  case (Suc n)
  then have ab: "[a..<b] = a # [Suc a..<b]" by (simp add: upt_conv_Cons)
  show ?case
  proof (cases "P a")
    case True
    then show ?thesis using Suc(2) by (auto simp: ab le_less)
  next
    case False
    have "n = b - Suc a" using Suc(2) by simp
    from Suc(1) [OF this] False show ?thesis
      by (auto simp: ab Suc_le_eq) (metis le_less)+
  qed
qed

lemma upt_drop: "length (filter (\<lambda>i. Q (xs ! i)) [t..<length xs]) = length (filter Q (drop t xs))"
proof -
  have "drop t xs = map ((!) xs) [t..<length xs]" by (metis add_0 drop_map drop_upt map_nth)
  then show ?thesis by (simp add: filter_map comp_def)
qed

lemma takeWhile_split: "list_all P cl \<Longrightarrow> rest = [] \<or> \<not> P (hd rest) \<Longrightarrow> takeWhile P (cl @ rest) = cl"
  by (induction cl) (auto simp: takeWhile_eq_Nil_iff)

lemma midrun_onset_shape:
  "midrun_onset ws = Some f \<longleftrightarrow> (\<exists>cl mid bd. onset_shape (onset_seconds ws) cl mid bd \<and> f = facts_of (onset_seconds ws) bd)"
    (is "?L \<longleftrightarrow> ?R")
proof -
  let ?s = "onset_seconds ws"
  let ?m = "length ?s" and ?h = "length (takeWhile clean_second ?s)"
  let ?P = "\<lambda>i. bad_second (?s ! i)"
  have unfold: "?L \<longleftrightarrow> 10 \<le> ?h \<and> (\<exists>t. find ?P [?h..<?m] = Some t \<and> 5 \<le> ?m - t
      \<and> \<not> f64_lt (f64_of_nat (length (filter bad_second (drop t ?s)))) (f64_mul f64_half (f64_of_nat (?m - t)))
      \<and> f = facts_of ?s (drop t ?s))" (is "_ \<longleftrightarrow> ?U")
  proof -
    have "find ?P [?h..<?m] = Some t \<Longrightarrow> hd (drop t ?s) = ?s ! t \<and> ?s \<noteq> [] \<and> hd ?s = ?s ! 0" for t
      using hd_conv_nth [of ?s] by (cases "?s = []") (auto simp: find_upt hd_drop_conv_nth)
    then show ?thesis
      by (auto simp: midrun_onset_def Let_def upt_drop facts_of_def split: option.splits)
  qed
  show ?thesis
  proof
    assume ?L
    with unfold obtain t where h: "10 \<le> ?h" and t: "?h \<le> t" "t < ?m" "?P t" "\<And>i. ?h \<le> i \<Longrightarrow> i < t \<Longrightarrow> \<not> ?P i"
      and rest: "5 \<le> ?m - t" "\<not> f64_lt (f64_of_nat (length (filter bad_second (drop t ?s)))) (f64_mul f64_half (f64_of_nat (?m - t)))"
        "f = facts_of ?s (drop t ?s)" by (auto simp: find_upt)
    let ?cl = "takeWhile clean_second ?s" and ?mid = "take (t - ?h) (drop ?h ?s)" and ?bd = "drop t ?s"
    have cl: "?cl = take ?h ?s" by (rule takeWhile_eq_take)
    have "?bd = drop (t - ?h) (drop ?h ?s)" using t(1) by simp
    then have mb: "?mid @ ?bd = drop ?h ?s" by (simp only: append_take_drop_id)
    have "?s = ?cl @ ?mid @ ?bd" by (subst mb, subst cl, rule append_take_drop_id [symmetric])
    moreover have "hd (drop ?h ?s) = ?s ! ?h" using t by (simp add: hd_drop_conv_nth)
    moreover have "\<not> clean_second (?s ! ?h)" using t by (intro nth_length_takeWhile) simp
    moreover have "list_all (\<lambda>s. \<not> bad_second s) ?mid" using t by (auto simp: list_all_length)
    moreover have "list_all clean_second ?cl" by (auto simp: list_all_iff dest: set_takeWhileD)
    ultimately have "onset_shape ?s ?cl ?mid ?bd"
      unfolding onset_shape_def mb using h t(2,3) rest(1,2) by (intro conjI) (simp_all add: hd_drop_conv_nth)
    then show ?R using rest(3) by blast
  next
    assume ?R
    then obtain cl mid bd where sh: "onset_shape ?s cl mid bd" and f: "f = facts_of ?s bd" by blast
    note d = sh [unfolded onset_shape_def]
    let ?t = "length cl + length mid"
    have s: "?s = cl @ mid @ bd" and bd: "bd \<noteq> []" using d by auto
    have tw: "takeWhile clean_second ?s = cl" unfolding s using d by (intro takeWhile_split) auto
    have dr: "drop ?t ?s = bd" by (simp add: s)
    have "?s ! ?t = hd bd" using bd by (simp add: s nth_append hd_conv_nth)
    moreover have "\<not> ?P i" if "length cl \<le> i" "i < ?t" for i
    proof -
      have "?s ! i = mid ! (i - length cl)" "i - length cl < length mid" using that by (auto simp: s nth_append)
      then show ?thesis using d by (simp add: list_all_length)
    qed
    ultimately have fnd: "find ?P [length cl..<?m] = Some ?t" using d bd by (simp add: find_upt s)
    have ms: "?m - ?t = length bd" by (simp add: s)
    have "10 \<le> length cl" "5 \<le> length bd" using d by blast+
    moreover have "\<not> f64_lt (f64_of_nat (length (filter bad_second bd))) (f64_mul f64_half (f64_of_nat (length bd)))" using d by blast
    ultimately show ?L unfolding unfold tw using fnd f
      by (intro conjI exI [of _ ?t]) (simp_all only: dr ms not_False_eq_True)
  qed
qed

text \<open>
  an onset of errors is reported exactly when the run has one: cut into its seconds with requests,
  in order of time and each with the sums of the windows of that second, the run begins with at least ten
  seconds below one percent of failures (as many as there are without a gap), then come seconds below
  ten percent, and from the first second at ten percent or more, with which the onset is dated, there
  are at least five seconds, at least half of them as bad; the counts are those of these seconds.
\<close>

theorem midrun_onset_correct:
  "(midrun_onset ws = Some f \<longleftrightarrow> (\<exists>cl mid bd. onset_shape (onset_seconds ws) cl mid bd \<and> f = facts_of (onset_seconds ws) bd))
    \<and> sorted_wrt (<) (map os_ts (onset_seconds ws))
    \<and> (\<forall>s \<in> set (onset_seconds ws). 0 < os_count s \<and> os_count s = second_sum rw_count ws (os_ts s)
         \<and> os_bad s = second_sum bad_of ws (os_ts s) \<and> os_fivexx s = second_sum fivexx_of ws (os_ts s))
    \<and> (\<forall>w \<in> set ws. 0 < rw_count w \<longrightarrow> rw_ts w \<in> os_ts ` set (onset_seconds ws))"
proof (intro conjI ballI impI)
  fix w assume w: "w \<in> set ws" "0 < rw_count w"
  obtain c b f where get: "unwrap_or (0, 0, 0) (bt_get (seconds_of ws) (rw_ts w)) = (c, b, f)" by (metis prod_cases3)
  have "0 < second_sum rw_count ws (rw_ts w)"
    using w by (auto simp: second_sum_def sum_list_nonneg_eq_0_iff simp flip: neq0_conv)
  then have c: "0 < c" using get seconds_of_props(2) [of ws "rw_ts w"] by simp
  then have "bt_get (seconds_of ws) (rw_ts w) = Some (c, b, f)" using get by (auto simp: unwrap_or_def split: option.splits)
  then have "(rw_ts w, c, b, f) \<in> set (seconds_of ws)" by (simp add: bt_get_def map_of_SomeD)
  then show "rw_ts w \<in> os_ts ` set (onset_seconds ws)" using c by (force simp: onset_seconds_def)
qed (use midrun_onset_shape onset_seconds_sorted onset_second_sums in blast)+

text \<open>Ten seconds of one good response each, then five of one server error each.\<close>

definition demo_window :: "string \<Rightarrow> int \<Rightarrow> report_window" where
  "demo_window code ts = \<lparr>rw_ts = ts, rw_step = ''s'', rw_count = 1, rw_error_count = 0, rw_status = [(code, 1)], rw_pct = percentiles_empty\<rparr>"

definition demo_seconds :: "report_window list" where
  "demo_seconds = map (demo_window ''200'') [0, 1, 2, 3, 4, 5, 6, 7, 8, 9] @ map (demo_window ''503'') [10, 11, 12, 13, 14]"

lemmas f64_eval = f64_div_def f64_mul_def f64_of_frac_def f64_of_nat_def round_mag_def frac_exp_def div_half_even_def f64_num_def
  f64_den_def f64_parts_def f64_mag_def f64_neg_def f64_of_mag_def bitlen.simps Let_def f64_inf_mag_def

lemma demo_f64:
  "f64_of_nat 0 = 0" "f64_of_nat (Suc 0) = 0x3FF0000000000000" "f64_of_nat 5 = 0x4014000000000000"
  "onset_clean_max = 0x3F847AE147AE147B" "onset_bad_min = 0x3FB999999999999A" "f64_half = 0x3FE0000000000000"
  "f64_div 0 0x3FF0000000000000 = 0" "f64_div 0x3FF0000000000000 0x3FF0000000000000 = 0x3FF0000000000000"
  "f64_mul 0x3FE0000000000000 0x4014000000000000 = 0x4004000000000000"
  by (simp_all add: f64_eval onset_clean_max_def onset_bad_min_def f64_half_def)

lemma demo_ratio:
  "clean_second \<lparr>os_ts = t, os_count = Suc 0, os_bad = 0, os_fivexx = 0\<rparr>"
  "bad_second \<lparr>os_ts = t, os_count = Suc 0, os_bad = Suc 0, os_fivexx = Suc 0\<rparr>"
  "\<not> clean_second \<lparr>os_ts = t, os_count = Suc 0, os_bad = Suc 0, os_fivexx = Suc 0\<rparr>"
  by (simp_all add: clean_second_def bad_second_def bad_ratio_def demo_f64 f64_lt_def f64_le_def f64_key_def f64_is_nan_def f64_mag_def
      f64_neg_def f64_inf_mag_def)

lemma demo_onset_seconds:
  "onset_seconds demo_seconds =
     map (\<lambda>t. \<lparr>os_ts = t, os_count = Suc 0, os_bad = 0, os_fivexx = 0\<rparr>) [0, 1, 2, 3, 4, 5, 6, 7, 8, 9]
     @ map (\<lambda>t. \<lparr>os_ts = t, os_count = Suc 0, os_bad = Suc 0, os_fivexx = Suc 0\<rparr>) [10, 11, 12, 13, 14]"
  by (simp add: onset_seconds_def seconds_of_def demo_seconds_def demo_window_def bt_entry_def bt_get_def unwrap_or_def bad_of_def
      fivexx_of_def status_class_count_def)

theorem midrun_onset_correct_witness:
  "midrun_onset demo_seconds = Some \<lparr>of_second = 10, of_bad_after = 5, of_fivexx_after = 5\<rparr>"
proof -
  let ?cl = "map (\<lambda>t. \<lparr>os_ts = t, os_count = Suc 0, os_bad = 0, os_fivexx = 0\<rparr>) [0, 1, 2, 3, 4, 5, 6, 7, 8, 9 :: int]"
  let ?bd = "map (\<lambda>t. \<lparr>os_ts = t, os_count = Suc 0, os_bad = Suc 0, os_fivexx = Suc 0\<rparr>) [10, 11, 12, 13, 14 :: int]"
  have half: "\<not> f64_lt (f64_of_nat 5) (f64_mul f64_half (f64_of_nat 5))"
    by (simp add: demo_f64 f64_lt_def f64_key_def f64_is_nan_def f64_mag_def f64_neg_def f64_inf_mag_def)
  have "length (filter bad_second ?bd) = 5" "length ?bd = 5" by (simp_all add: demo_ratio)
  with half have "onset_shape (onset_seconds demo_seconds) ?cl [] ?bd"
    unfolding onset_shape_def demo_onset_seconds by (simp only: append.simps) (simp add: demo_ratio)
  moreover have "facts_of (onset_seconds demo_seconds) ?bd = \<lparr>of_second = 10, of_bad_after = 5, of_fivexx_after = 5\<rparr>"
    unfolding demo_onset_seconds by (simp add: facts_of_def)
  ultimately show ?thesis
    using midrun_onset_correct [of demo_seconds "\<lparr>of_second = 10, of_bad_after = 5, of_fivexx_after = 5\<rparr>"] by metis
qed

subsection \<open>The judgement of a report\<close>

definition of_kind :: "string set \<Rightarrow> insight list \<Rightarrow> bool" where "of_kind K is = (ig_kind ` set is \<subseteq> K)"

lemma kind_new [simp]: "ig_kind (insight_new k s) = k" by (simp add: insight_new_def)

lemma insight_kinds:
  "of_kind {''slowest_step''} (slowest_step steps)" "of_kind {''slo_pass'', ''slo_failure''} (slo_insight v)"
  "of_kind {''error_hotspot''} (error_hotspot sm steps)" "of_kind {''status_class''} (status_class_insights d)"
  "of_kind {''midrun_error_onset''} (onset_insight f kinds)" "of_kind {''loadgen_port_exhaustion''} (port_exhaustion kinds)"
  "of_kind {''status_temporal''} (status_temporal ws)" "of_kind {''no_request_step''} (no_request_steps sc steps)"
  "of_kind {''load_gen_saturated''} (saturated_insight sm ws d n m t sch)"
  by (auto simp: of_kind_def slowest_step_def slo_insight_def error_hotspot_def status_class_insights_def onset_insight_def
      port_exhaustion_def status_temporal_def no_request_steps_def saturated_insight_def Let_def
      split: option.splits list.splits prod.splits if_splits)

lemma kind_absent: "of_kind K is \<Longrightarrow> k \<notin> K \<Longrightarrow> (\<exists>i \<in> set is. ig_kind i = k) = False"
  by (auto simp: of_kind_def)

lemma find_SomeD: "find P xs = Some x \<Longrightarrow> x \<in> set xs \<and> P x"
  by (auto simp: find_Some_iff)

lemma derived_kind:
  "(\<exists>i \<in> set (derive_insights sm steps ws d v sc n m t sch kinds). ig_kind i = ''load_gen_saturated'') \<longleftrightarrow> n \<noteq> 0"
  "(\<exists>i \<in> set (derive_insights sm steps ws d v sc n m t sch kinds). ig_kind i = ''loadgen_port_exhaustion'')
     \<longleftrightarrow> (\<exists>c. (''local_port_exhaustion'', c) \<in> set kinds \<and> 1 \<le> c)"
  "(\<exists>i \<in> set (derive_insights sm steps ws d v sc n m t sch kinds). ig_kind i = ''slo_pass'') \<longleftrightarrow> (\<exists>x. v = Some x \<and> vd_passed x)"
proof -
  have ta: "\<not> (\<exists>i. i \<in> set (status_temporal ws) \<and> ig_kind i = k)" if "k \<noteq> ''status_temporal''" for k
    using insight_kinds(7) [of ws] that by (auto simp: of_kind_def)
  have sat: "(\<exists>i \<in> set (saturated_insight sm ws d n m t sch). ig_kind i = ''load_gen_saturated'') \<longleftrightarrow> n \<noteq> 0"
    by (auto simp: saturated_insight_def Let_def split: option.splits)
  have port: "(\<exists>i \<in> set (port_exhaustion kinds). ig_kind i = ''loadgen_port_exhaustion'')
      \<longleftrightarrow> (\<exists>c. (''local_port_exhaustion'', c) \<in> set kinds \<and> 1 \<le> c)"
  proof (cases "find (\<lambda>(k, c). k = ''local_port_exhaustion'' \<and> 1 \<le> c) kinds")
    case None
    then have "port_exhaustion kinds = []" by (simp only: port_exhaustion_def option.case)
    then show ?thesis using None by (auto simp: find_None_iff)
  next
    case (Some p)
    obtain k c where p: "p = (k, c)" by (cases p)
    have "set (port_exhaustion kinds) = {(insight_new ''loadgen_port_exhaustion'' ''critical'')\<lparr>ig_count := Some c,
        ig_error_kind := Some ''local_port_exhaustion''\<rparr>}"
      using Some by (simp only: port_exhaustion_def p option.case prod.case list.set)
    with find_SomeD [OF Some] show ?thesis by (auto simp: p)
  qed
  have slo: "(\<exists>i \<in> set (slo_insight v). ig_kind i = ''slo_pass'') \<longleftrightarrow> (\<exists>x. v = Some x \<and> vd_passed x)"
    by (auto simp: slo_insight_def split: option.splits)
  show "(\<exists>i \<in> set (derive_insights sm steps ws d v sc n m t sch kinds). ig_kind i = ''load_gen_saturated'') \<longleftrightarrow> n \<noteq> 0"
    "(\<exists>i \<in> set (derive_insights sm steps ws d v sc n m t sch kinds). ig_kind i = ''loadgen_port_exhaustion'')
     \<longleftrightarrow> (\<exists>c. (''local_port_exhaustion'', c) \<in> set kinds \<and> 1 \<le> c)"
    "(\<exists>i \<in> set (derive_insights sm steps ws d v sc n m t sch kinds). ig_kind i = ''slo_pass'') \<longleftrightarrow> (\<exists>x. v = Some x \<and> vd_passed x)"
    unfolding derive_insights_def Let_def set_sort set_append bex_Un
    by (simp_all add: sat port slo kind_absent [OF insight_kinds(1)] kind_absent [OF insight_kinds(2)] kind_absent [OF insight_kinds(3)]
        kind_absent [OF insight_kinds(4)] kind_absent [OF insight_kinds(5)] kind_absent [OF insight_kinds(6)]
        ta kind_absent [OF insight_kinds(8)] kind_absent [OF insight_kinds(9)])
qed

lemma insight_reason_empty: "insight_reason from kind sev is = [] \<longleftrightarrow> (\<forall>i \<in> set is. ig_kind i \<noteq> from)"
  by (auto simp: insight_reason_def find_None_iff dest!: find_SomeD split: option.splits)

lemma reason_kinds [simp]: "vr_kind (reason_base k s) = k" "vr_severity (reason_base k s) = s" by (simp_all add: reason_base_def)

text \<open>What a report is asked for before its numbers may be relied on.\<close>

definition reachable_target :: "(string, nat) btree_map \<Rightarrow> bool" where
  "reachable_target d = (let n0 = unwrap_or 0 (bt_get d ''0'') in
     n0 < 50 \<and> (0 < n0 \<longrightarrow> \<not> f64_le (f64_of_frac 1 20) (f64_div (f64_of_nat n0) (f64_of_nat (n0 + http_response_total d)))))"

definition responses_validated :: "step list option \<Rightarrow> bool \<Rightarrow> bool" where
  "responses_validated sc has_active = (case sc of None \<Rightarrow> True
     | Some ss \<Rightarrow> collect_unconditional ss False = [] \<or> has_active
         \<or> (\<exists>x \<in> set (collect_unconditional ss False). http_step_has_status_assert ss x))"

lemma transport_reason_empty: "transport_reason d = [] \<longleftrightarrow> reachable_target d"
  by (auto simp: transport_reason_def reachable_target_def Let_def)

lemma silent_reason_empty:
  "silent_reason sm d = [] \<longleftrightarrow> status_class_count d CHR ''4'' + status_class_count d CHR ''5'' = 0 \<or> sm_errors sm \<noteq> 0"
  by (auto simp: silent_reason_def Let_def)

lemma unvalidated_reason_empty: "unvalidated_reason sc a = [] \<longleftrightarrow> responses_validated sc a"
  by (auto simp: unvalidated_reason_def responses_validated_def Let_def list_ex_iff split: option.splits)

lemma validity_level:
  "va_level (derive_validity sm d sc a is) = ''ok'' \<longleftrightarrow> va_reasons (derive_validity sm d sc a is) = []"
  by (simp add: derive_validity_def Let_def)

text \<open>
  C26: a report is judged \<open>ok\<close> exactly when its numbers support it: the run made requests, fewer than fifty
  and than five percent of them failed in the transport, no 4xx or 5xx passed without an engine error,
  some step that always runs checks its status (or the run has criteria), not one scheduled arrival was
  dropped and the load generator never ran out of ports. The other levels are \<open>limited\<close> and \<open>suspect\<close>.
\<close>

theorem judgement_ok_iff:
  "(va_level (ju_validity (judge_report sq yaml run rp)) = ''ok'' \<longleftrightarrow>
      0 < sm_count (rp_summary rp) \<and> reachable_target (rp_status rp)
      \<and> (status_class_count (rp_status rp) CHR ''4'' + status_class_count (rp_status rp) CHR ''5'' = 0 \<or> sm_errors (rp_summary rp) \<noteq> 0)
      \<and> responses_validated (yaml (rr_scenario_yaml run)) (case pf_criteria (rr_profile run) of None \<Rightarrow> False | Some c \<Rightarrow> has_any c)
      \<and> rp_dropped rp = 0 \<and> \<not> (\<exists>c. (''local_port_exhaustion'', c) \<in> set (rp_kinds rp) \<and> 1 \<le> c))
    \<and> va_level (ju_validity (judge_report sq yaml run rp)) \<in> {''ok'', ''limited'', ''suspect''}"
proof
  show "va_level (ju_validity (judge_report sq yaml run rp)) \<in> {''ok'', ''limited'', ''suspect''}"
    by (simp add: judge_report_def Let_def derive_validity_def)
  let ?is = "ju_insights (judge_report sq yaml run rp)"
  let ?a = "case pf_criteria (rr_profile run) of None \<Rightarrow> False | Some c \<Rightarrow> has_any c"
  have v: "ju_validity (judge_report sq yaml run rp)
      = derive_validity (rp_summary rp) (rp_status rp) (yaml (rr_scenario_yaml run)) ?a ?is"
    by (simp add: judge_report_def Let_def)
  have "(\<exists>i \<in> set ?is. ig_kind i = ''load_gen_saturated'') \<longleftrightarrow> rp_dropped rp \<noteq> 0"
    "(\<exists>i \<in> set ?is. ig_kind i = ''loadgen_port_exhaustion'') \<longleftrightarrow> (\<exists>c. (''local_port_exhaustion'', c) \<in> set (rp_kinds rp) \<and> 1 \<le> c)"
    unfolding judge_report_def Let_def judgement.select_convs by (rule derived_kind)+
  then have "insight_reason ''load_gen_saturated'' k s ?is = [] \<longleftrightarrow> rp_dropped rp = 0"
    "insight_reason ''loadgen_port_exhaustion'' k s ?is = [] \<longleftrightarrow> \<not> (\<exists>c. (''local_port_exhaustion'', c) \<in> set (rp_kinds rp) \<and> 1 \<le> c)" for k s
    unfolding insight_reason_empty by blast+
  then show "va_level (ju_validity (judge_report sq yaml run rp)) = ''ok'' \<longleftrightarrow>
      0 < sm_count (rp_summary rp) \<and> reachable_target (rp_status rp)
      \<and> (status_class_count (rp_status rp) CHR ''4'' + status_class_count (rp_status rp) CHR ''5'' = 0 \<or> sm_errors (rp_summary rp) \<noteq> 0)
      \<and> responses_validated (yaml (rr_scenario_yaml run)) (case pf_criteria (rr_profile run) of None \<Rightarrow> False | Some c \<Rightarrow> has_any c)
      \<and> rp_dropped rp = 0 \<and> \<not> (\<exists>c. (''local_port_exhaustion'', c) \<in> set (rp_kinds rp) \<and> 1 \<le> c)"
    unfolding v validity_level unfolding derive_validity_def Let_def validity.select_convs append_is_Nil_conv
    by (simp add: transport_reason_empty silent_reason_empty unvalidated_reason_empty)
qed

text \<open>A report of ten answered requests, and the same report with dropped arrivals.\<close>

definition demo_report :: "nat \<Rightarrow> report" where
  "demo_report dropped = \<lparr>rp_summary = \<lparr>sm_count = 10, sm_errors = 0, sm_rps = 0, sm_duration_seconds = 1, sm_mean_ms = 1,
       sm_p50 = 1, sm_p95 = 1, sm_p99 = 1\<rparr>, rp_windows = [], rp_steps = [], rp_status = [(''200'', 10)], rp_if = [],
     rp_kinds = [], rp_verdict = None, rp_dropped = dropped, rp_latency = None, rp_groups = [], rp_active = [],
     rp_active_workers = [], rp_workers = [], rp_connection = None\<rparr>"

theorem judgement_ok_iff_witness:
  "va_level (ju_validity (judge_report (\<lambda>x. x) (\<lambda>_. None) demo_run (demo_report 0))) = ''ok''
   \<and> va_level (ju_validity (judge_report (\<lambda>x. x) (\<lambda>_. None) demo_run (demo_report 3))) \<in> {''limited'', ''suspect''}"
proof -
  note f = demo_report_def reachable_target_def responses_validated_def status_class_count_def bt_get_def unwrap_or_def
  have z: "va_level (ju_validity (judge_report (\<lambda>x. x) (\<lambda>_. None) demo_run (demo_report 0))) = ''ok''"
    unfolding judgement_ok_iff [THEN conjunct1] by (simp add: f)
  have "va_level (ju_validity (judge_report (\<lambda>x. x) (\<lambda>_. None) demo_run (demo_report 3))) \<noteq> ''ok''"
    unfolding judgement_ok_iff [THEN conjunct1] by (simp add: f)
  with z judgement_ok_iff [THEN conjunct2, of "\<lambda>x. x" "\<lambda>_. None" demo_run "demo_report 3"] show ?thesis by blast
qed

lemma push_unique_props: "distinct out \<Longrightarrow> distinct (push_unique c out)" "set (push_unique c out) = insert c (set out)"
  by (auto simp: push_unique_def)

lemma fold_push_props: "distinct out \<Longrightarrow> distinct (fold push_unique cs out)" "set (fold push_unique cs out) = set cs \<union> set out"
  by (induction cs arbitrary: out) (auto simp: push_unique_props)

lemma fold_rows_distinct: "distinct out \<Longrightarrow> distinct (fold (\<lambda>(b, codes). push_when b codes) rows out)"
  by (induction rows arbitrary: out) (auto simp: push_when_def fold_push_props(1))

lemma fold_rows_member:
  "x \<in> set (fold (\<lambda>(b, codes). push_when b codes) rows out) \<longleftrightarrow> x \<in> set out \<or> list_ex (\<lambda>r. fst r \<and> x \<in> set (snd r)) rows"
proof (induction rows arbitrary: out)
  case (Cons r rows)
  obtain b cs where r: "r = (b, cs)" by (cases r)
  have "x \<in> set (push_when b cs out) \<longleftrightarrow> x \<in> set out \<or> b \<and> x \<in> set cs" by (auto simp: push_when_def fold_push_props(2))
  then show ?case using Cons.IH [of "push_when b cs out"] by (auto simp: r)
qed simp

lemma rows_subset: "set (fold (\<lambda>(b, codes). push_when b codes) rows []) \<subseteq> set (concat (map snd rows))"
  by (auto simp: fold_rows_member list_ex_iff)

lemma rows_member: "x \<in> set (fold (\<lambda>(b, codes). push_when b codes) rows []) \<longleftrightarrow> list_ex (\<lambda>r. fst r \<and> x \<in> set (snd r)) rows"
  by (simp add: fold_rows_member)

lemma can_codes: "set (can_claims v sm is) \<subseteq> set [''client_reachability_issue'', ''http_error_statuses_seen'', ''throughput_measured'',
    ''delivery_ceiling_observed'', ''slo_held'', ''sut_errors_observed'', ''bottleneck_step'']"
  unfolding can_claims_def by (rule subset_trans [OF rows_subset]) simp

lemma can_slo: "''slo_held'' \<in> set (can_claims v sm is) \<longleftrightarrow> va_level v = ''ok'' \<and> (\<exists>i \<in> set is. ig_kind i = ''slo_pass'')"
  unfolding can_claims_def rows_member by (simp add: list_ex_iff)

lemma cannot_codes: "set (cannot_claims v a) \<subseteq> set [''any_performance_claim'', ''sut_capacity'', ''slo_as_capacity'', ''zero_engine_errors_means_ok'',
    ''functional_correctness'', ''error_free_service'', ''target_load_applied'', ''slo_gate'']"
  unfolding cannot_claims_def by (rule subset_trans [OF rows_subset]) simp

lemma claims_distinct: "distinct (can_claims v sm is)" "distinct (cannot_claims v a)"
  unfolding can_claims_def by (rule fold_rows_distinct, simp) (unfold cannot_claims_def, rule fold_rows_distinct, simp)

lemma distinct_update: "distinct xs \<Longrightarrow> x \<notin> set xs \<Longrightarrow> distinct (xs[i := x])"
  by (auto simp: distinct_list_update)

lemma narrative_cannot:
  "let c = na_cannot (derive_narrative v sm a is) in
     length c \<le> 5 \<and> distinct c \<and> ''production_identity'' \<in> set c
     \<and> set c \<subseteq> insert ''production_identity'' (set (cannot_claims v a))"
proof -
  let ?c = "take 5 (cannot_claims v a)"
  have d: "distinct ?c" "length ?c \<le> 5" using claims_distinct by (simp_all add: distinct_take)
  have sub: "set ?c \<subseteq> set (cannot_claims v a)" by (rule set_take_subset)
  then have no: "''production_identity'' \<notin> set ?c" using cannot_codes [of v a] by auto
  show ?thesis
  proof (cases "length ?c < 5")
    case True
    then have "na_cannot (derive_narrative v sm a is) = ?c @ [''production_identity'']"
      using no unfolding derive_narrative_def Let_def by (simp only: if_False if_True narrative.select_convs)
    then show ?thesis unfolding Let_def using d True no sub by (auto simp del: take_append length_take)
  next
    case False
    then have "na_cannot (derive_narrative v sm a is) = ?c[4 := ''production_identity'']"
      using no unfolding derive_narrative_def Let_def by (simp only: if_False if_True narrative.select_convs)
    moreover have "''production_identity'' \<in> set (?c[4 := ''production_identity''])" using False by (intro set_update_memI) simp
    ultimately show ?thesis unfolding Let_def using d no sub distinct_update [of ?c "''production_identity''" 4] set_update_subset_insert [of ?c 4 "''production_identity''"]
      by (auto simp del: length_take)
  qed
qed

text \<open>
  the narrative of a report never contradicts itself: no code is both claimable and not, each list
  has at most five distinct codes, that the target is the production system can never be claimed, and a
  held SLO is claimed only with a passed verdict in a report judged \<open>ok\<close>.
\<close>

theorem narrative_consistent:
  "set (na_can (ju_narrative (judge_report sq yaml run rp))) \<inter> set (na_cannot (ju_narrative (judge_report sq yaml run rp))) = {}
    \<and> length (na_can (ju_narrative (judge_report sq yaml run rp))) \<le> 5 \<and> distinct (na_can (ju_narrative (judge_report sq yaml run rp)))
    \<and> length (na_cannot (ju_narrative (judge_report sq yaml run rp))) \<le> 5 \<and> distinct (na_cannot (ju_narrative (judge_report sq yaml run rp)))
    \<and> ''production_identity'' \<in> set (na_cannot (ju_narrative (judge_report sq yaml run rp)))
    \<and> \<not> (''slo_held'' \<in> set (na_can (ju_narrative (judge_report sq yaml run rp)))
         \<and> \<not> (va_level (ju_validity (judge_report sq yaml run rp)) = ''ok'' \<and> (\<exists>v. rp_verdict rp = Some v \<and> vd_passed v)))"
proof -
  let ?j = "judge_report sq yaml run rp"
  let ?a = "case pf_criteria (rr_profile run) of None \<Rightarrow> False | Some c \<Rightarrow> has_any c"
  have n: "ju_narrative ?j = derive_narrative (ju_validity ?j) (rp_summary rp) ?a (ju_insights ?j)"
    by (simp add: judge_report_def Let_def)
  have can: "na_can (ju_narrative ?j) = take 5 (can_claims (ju_validity ?j) (rp_summary rp) (ju_insights ?j))"
    unfolding n by (simp add: derive_narrative_def Let_def)
  have slo: "(\<exists>i \<in> set (ju_insights ?j). ig_kind i = ''slo_pass'') \<longleftrightarrow> (\<exists>v. rp_verdict rp = Some v \<and> vd_passed v)"
    unfolding judge_report_def Let_def judgement.select_convs by (rule derived_kind)
  have sub: "set (na_can (ju_narrative ?j)) \<subseteq> set (can_claims (ju_validity ?j) (rp_summary rp) (ju_insights ?j))"
    unfolding can by (rule set_take_subset)
  note cannot = narrative_cannot [of "ju_validity ?j" "rp_summary rp" ?a "ju_insights ?j", folded n, unfolded Let_def]
  have "set (na_can (ju_narrative ?j)) \<inter> set (na_cannot (ju_narrative ?j)) = {}"
    using sub can_codes [of "ju_validity ?j" "rp_summary rp" "ju_insights ?j"] cannot cannot_codes [of "ju_validity ?j" ?a] by fastforce
  moreover have "distinct (na_can (ju_narrative ?j))" "length (na_can (ju_narrative ?j)) \<le> 5"
    unfolding can using claims_distinct by (simp_all add: distinct_take)
  ultimately show ?thesis using cannot sub can_slo [of "ju_validity ?j" "rp_summary rp" "ju_insights ?j"] slo by blast
qed

end
