(* ===== verification/Trace.thy ===== *)
theory Trace
  imports Runner
begin

text \<open>
  The test run of the editor: \<^verbatim>\<open>execute_step_traced\<close> of \<^verbatim>\<open>engine/src/executor.rs\<close> and \<^verbatim>\<open>engine/src/trace.rs\<close>,
  one virtual user doing a single pass (or one pass per data row) under a budget of requests and time,
  with a row per request and per branch decision. The surroundings are those of the load interpreter; the
  deadline, the environment and the ids are the test run's own. An instant is in nanoseconds.
\<close>

subsection \<open>Data\<close>

record traced_request =
  tq_method :: string
  tq_url :: string
  tq_headers :: "(string, string) btree_map"
  tq_body :: "string option"

record traced_response =
  tp_status :: nat
  tp_latency_ms :: nat
  tp_download_ms :: "nat option"
  tp_headers :: "(string, string) btree_map"
  tp_set_cookies :: "string list"
  tp_body :: string
  tp_body_truncated :: bool

record http_trace =
  ht_request :: traced_request
  ht_response :: "traced_response option"
  ht_extracted :: "(string, string) btree_map"
  ht_unbound :: "string list"
  ht_error :: "string option"
  ht_timed_out :: bool

datatype step_kind = KindHttp | KindIf

record step_trace =
  sr_step_id :: string
  sr_kind :: step_kind
  sr_loop_index :: "nat option"
  sr_branch :: "string option"
  sr_request :: "traced_request option"
  sr_response :: "traced_response option"
  sr_extracted :: "(string, string) btree_map"
  sr_unbound :: "string list"
  sr_error :: "string option"
  sr_branch_eval :: "branch_eval list"
  sr_timed_out :: bool

record scenario_trace =
  sn_ok :: bool
  sn_total_ms :: nat
  sn_steps :: "step_trace list"
  sn_final_vars :: "(string, string) btree_map"
  sn_truncated :: bool
  sn_error :: "string option"

record row_trace =
  rt_row_index :: nat
  rt_trace :: scenario_trace

record rows_trace =
  rs_ok :: bool
  rs_truncated :: bool
  rs_total_ms :: nat
  rs_rows :: "row_trace list"

record trace_options =
  to_env :: "(string, string) btree_map"
  to_max_requests :: nat
  to_max_wall :: nat
  to_apply_think :: bool

text \<open>
  What the test run needs beyond the load interpreter's surroundings: the lossy UTF-8 decoding, whether the
  failed read of a body was a timeout, and the entropy of the generators of the \<open>i\<close>-th pass.
\<close>

record 'r trace_ops =
  tx_lossy :: "string \<Rightarrow> string"
  tx_body_timeout :: "http_response \<Rightarrow> bool"
  tx_entropy :: "nat \<Rightarrow> 'r"

subsection \<open>One request, leniently rendered\<close>

definition max_trace_body_bytes :: nat where "max_trace_body_bytes = 1024 * 1024"

definition method_str :: "http_method \<Rightarrow> string" where
  "method_str m = (case m of GET \<Rightarrow> ''GET'' | POST \<Rightarrow> ''POST'' | PUT \<Rightarrow> ''PUT'' | PATCH \<Rightarrow> ''PATCH''
     | DELETE \<Rightarrow> ''DELETE'' | HEAD \<Rightarrow> ''HEAD'' | OPTIONS \<Rightarrow> ''OPTIONS'')"

text \<open>\<^verbatim>\<open>retain(|name| seen.insert(name))\<close>: the first occurrence stays.\<close>

fun retain_new :: "'a list \<Rightarrow> 'a list \<Rightarrow> 'a list" where
  "retain_new seen [] = []"
| "retain_new seen (x # xs) = (if x \<in> set seen then retain_new seen xs else x # retain_new (x # seen) xs)"

record header_acc =
  ha_display :: "(string, string) btree_map"
  ha_headers :: "(string, string) hash_map"
  ha_error :: "string option"
  ha_unbound :: "string list"

fun trace_headers :: "'w http_ops \<Rightarrow> tctx \<Rightarrow> (string \<times> string) list \<Rightarrow> header_acc \<Rightarrow> header_acc" where
  "trace_headers H ctx [] a = a"
| "trace_headers H ctx ((k, v) # kvs) a =
     (case render_collecting v ctx (ha_unbound a) of (rv, u) \<Rightarrow>
        let a1 = a\<lparr>ha_unbound := u, ha_display := bt_insert k rv (ha_display a)\<rparr> in
        trace_headers H ctx kvs
          (case (ho_header_name_err H k, ho_header_value_err H rv) of
             (None, None) \<Rightarrow> a1\<lparr>ha_headers := hm_put (ascii_lower k) rv (ha_headers a)\<rparr>
           | _ \<Rightarrow> if ha_error a = None then a1\<lparr>ha_error := Some (''invalid header '' @ k)\<rparr> else a1))"

fun trace_form :: "tctx \<Rightarrow> (string \<times> string) list \<Rightarrow> string list \<Rightarrow> (string \<times> string) list \<times> string list" where
  "trace_form ctx [] u = ([], u)"
| "trace_form ctx ((k, v) # kvs) u = (case render_collecting v ctx u of (r, u1) \<Rightarrow> apfst ((#) (k, r)) (trace_form ctx kvs u1))"

fun join_with :: "string \<Rightarrow> string list \<Rightarrow> string" where
  "join_with sep [] = []"
| "join_with sep [x] = x"
| "join_with sep (x # xs) = x @ sep @ join_with sep xs"

text \<open>The body sent, the text shown for it and the names collected so far.\<close>

definition trace_body ::
  "json_reader \<Rightarrow> (json \<Rightarrow> string) \<Rightarrow> tctx \<Rightarrow> body option \<Rightarrow> string list
     \<Rightarrow> sent_body option \<times> string option \<times> string list"
where
  "trace_body fj sh ctx b u = (case b of
     None \<Rightarrow> (None, None, u)
   | Some (BodyJson v) \<Rightarrow> (case render_json_collecting fj ctx v u of (x, u1) \<Rightarrow> (Some (SentJson x), Some (sh x), u1))
   | Some (BodyForm m) \<Rightarrow> (case trace_form ctx m u of (x, u1) \<Rightarrow>
       (Some (SentForm x), Some (join_with ''&'' (map (\<lambda>(k, v). k @ ''='' @ v) x)), u1))
   | Some (BodyRaw s) \<Rightarrow> (case render_collecting s ctx u of (x, u1) \<Rightarrow> (Some (SentRaw x), Some x, u1)))"

record built_trace =
  bl_sent :: built_request
  bl_shown :: traced_request
  bl_error :: "string option"
  bl_unbound :: "string list"

definition build_trace ::
  "json_reader \<Rightarrow> (json \<Rightarrow> string) \<Rightarrow> 'w http_ops \<Rightarrow> http_step \<Rightarrow> tctx \<Rightarrow> built_trace"
where
  "build_trace fj sh H st ctx =
     (case render_collecting (rq_url (hs_request st)) ctx [] of (url, u1) \<Rightarrow>
      let a = trace_headers H ctx (rq_headers (hs_request st)) \<lparr>ha_display = [], ha_headers = [], ha_error = None, ha_unbound = u1\<rparr>
      in case trace_body fj sh ctx (rq_body (hs_request st)) (ha_unbound a) of (sent, shown, u3) \<Rightarrow>
        \<lparr>bl_sent = \<lparr>bq_method = rq_method (hs_request st), bq_url = url, bq_headers = ha_headers a,
           bq_timeout = (case hs_timeout st of Some secs \<Rightarrow> if secs > 0 then Some secs else None | None \<Rightarrow> None),
           bq_body = sent\<rparr>,
         bl_shown = \<lparr>tq_method = method_str (rq_method (hs_request st)), tq_url = url, tq_headers = ha_display a, tq_body = shown\<rparr>,
         bl_error = ha_error a, bl_unbound = retain_new [] u3\<rparr>)"

definition as_millis :: "nat \<Rightarrow> nat" where "as_millis us = min (us div 1000) u64_max"

definition traced_of :: "http_response \<Rightarrow> timing \<Rightarrow> nat option \<Rightarrow> string \<Rightarrow> bool \<Rightarrow> traced_response" where
  "traced_of resp tm download body truncated =
     \<lparr>tp_status = hr_status resp, tp_latency_ms = as_millis (tm_latency tm), tp_download_ms = download,
      tp_headers = bt_extend (text_headers resp) [], tp_set_cookies = set_cookies_of resp, tp_body = body,
      tp_body_truncated = truncated\<rparr>"

definition execute_step_traced ::
  "json_reader \<Rightarrow> (json \<Rightarrow> string) \<Rightarrow> extract_ops \<Rightarrow> (string \<Rightarrow> string) \<Rightarrow> 'w http_ops \<Rightarrow> 'r trace_ops
     \<Rightarrow> http_step \<Rightarrow> tctx \<Rightarrow> 'w \<Rightarrow> http_trace \<times> 'w"
where
  "execute_step_traced fj sh X dbg H T st ctx w =
     (let b = build_trace fj sh H st ctx;
          base = \<lparr>ht_request = bl_shown b, ht_response = None, ht_extracted = [], ht_unbound = bl_unbound b,
                  ht_error = bl_error b, ht_timed_out = False\<rparr>
      in case ho_send H (bl_sent b) w of (outcome, tm, w') \<Rightarrow>
        ((case outcome of
            Inl (e, msg) \<Rightarrow> base\<lparr>ht_error := Some (case bl_error b of Some x \<Rightarrow> x | None \<Rightarrow> msg), ht_timed_out := se_is_timeout e\<rparr>
          | Inr resp \<Rightarrow> (case hr_body resp of
              Inl e \<Rightarrow> base\<lparr>ht_response := Some (traced_of resp tm None [] False), ht_error := Some (''read body: '' @ e),
                            ht_timed_out := tx_body_timeout T resp\<rparr>
            | Inr body \<Rightarrow>
                (case (if bl_error b = None then judge_response X dbg st resp body else (bl_error b, [])) of (error, extracted) \<Rightarrow>
                   base\<lparr>ht_response := Some (traced_of resp tm (Some (as_millis (tm_download tm)))
                            (tx_lossy T (take max_trace_body_bytes body)) (max_trace_body_bytes < length body)),
                        ht_extracted := extracted, ht_error := error\<rparr>))), w'))"

subsection \<open>The conditions of an if\<close>

fun collect_cond_unbound :: "condition \<Rightarrow> tctx \<Rightarrow> string list \<Rightarrow> string list" where
  "collect_cond_unbound (All cs) ctx u = fold (\<lambda>c. collect_cond_unbound c ctx) cs u"
| "collect_cond_unbound (Any cs) ctx u = fold (\<lambda>c. collect_cond_unbound c ctx) cs u"
| "collect_cond_unbound (Compare left p right) ctx u =
     (let u1 = snd (render_collecting left ctx u) in
      if p \<noteq> OpExists \<and> p \<noteq> OpEmpty
      then (case right of Some r \<Rightarrow> snd (render_collecting r ctx u1) | None \<Rightarrow> u1) else u1)"

definition collect_if_condition_unbound :: "condition \<Rightarrow> elif_branch list \<Rightarrow> tctx \<Rightarrow> string list" where
  "collect_if_condition_unbound c els ctx =
     retain_new [] (fold (\<lambda>e. collect_cond_unbound (elif_cond e) ctx) els (collect_cond_unbound c ctx []))"

subsection \<open>The pass\<close>

record ('w, 'tz, 'r) trace_state =
  ts_world :: 'w
  ts_vars :: "(string, string) btree_map"
  ts_rng :: 'r
  ts_req :: "('tz, 'r) req_gen option"
  ts_steps :: "step_trace list"
  ts_requests :: nat
  ts_truncated :: bool

text \<open>The clock is read only while requests are left.\<close>

definition budget_spent ::
  "('w, 'now, 'tz, 'r) engine \<Rightarrow> trace_options \<Rightarrow> nat \<Rightarrow> ('w, 'tz, 'r) trace_state \<Rightarrow> bool \<times> ('w, 'tz, 'r) trace_state"
where
  "budget_spent E P dl st =
     (if to_max_requests P \<le> ts_requests st then (True, st)
      else case rt_now (en_rt E) (ts_world st) of (t, w) \<Rightarrow> (dl \<le> t, st\<lparr>ts_world := w\<rparr>))"

definition cut :: "('w, 'tz, 'r) trace_state \<Rightarrow> ('w, 'tz, 'r) trace_state" where "cut st = st\<lparr>ts_truncated := True\<rparr>"

definition trace_ctx :: "trace_options \<Rightarrow> nat \<Rightarrow> nat option \<Rightarrow> (string, string) btree_map \<Rightarrow> tctx" where
  "trace_ctx P it li vs = \<lparr>vars = vs, env = to_env P, vu_id = 0, iter_id = it, loop_index = li\<rparr>"

definition trace_think ::
  "('w, 'now, 'tz, 'r) engine \<Rightarrow> nat \<Rightarrow> think_time \<Rightarrow> ('w, 'tz, 'r) trace_state \<Rightarrow> ('w, 'tz, 'r) trace_state"
where
  "trace_think E dl tt st =
     (case rt_now (en_rt E) (ts_world st) of (t, w) \<Rightarrow>
      let st1 = (if t < dl
            then (case think_sample (en_rng E) tt (ts_rng st) of (ms, r) \<Rightarrow>
              st\<lparr>ts_rng := r, ts_world := snd (rt_sleep (en_rt E) w (min (ms * 1000000) (dl - t)))\<rparr>)
            else st\<lparr>ts_world := w\<rparr>)
      in case rt_now (en_rt E) (ts_world st1) of (t1, w1) \<Rightarrow>
        (if dl \<le> t1 then cut (st1\<lparr>ts_world := w1\<rparr>) else st1\<lparr>ts_world := w1\<rparr>))"

definition http_row :: "http_step \<Rightarrow> nat option \<Rightarrow> http_trace \<Rightarrow> step_trace" where
  "http_row h li t = \<lparr>sr_step_id = hs_id h, sr_kind = KindHttp, sr_loop_index = li, sr_branch = None,
     sr_request = Some (ht_request t), sr_response = ht_response t, sr_extracted = ht_extracted t,
     sr_unbound = ht_unbound t, sr_error = ht_error t, sr_branch_eval = [], sr_timed_out = ht_timed_out t\<rparr>"

definition trace_http ::
  "('w, 'now, 'tz, 'r) engine \<Rightarrow> 'r trace_ops \<Rightarrow> trace_options \<Rightarrow> nat \<Rightarrow> nat \<Rightarrow> nat option \<Rightarrow> think_time option
     \<Rightarrow> http_step \<Rightarrow> ('w, 'tz, 'r) trace_state \<Rightarrow> ('w, 'tz, 'r) trace_state"
where
  "trace_http E T P dl it li default_think h st =
     (let st1 = (case ts_req st of None \<Rightarrow> st
        | Some g \<Rightarrow> (case refresh_vars (en_tz E) (en_rng E) (en_show E) (rt_chrono (en_rt E) (ts_world st)) (hs_id h) g (ts_vars st) of
            (g', vs) \<Rightarrow> st\<lparr>ts_req := Some g', ts_vars := vs\<rparr>))
      in case execute_step_traced (en_json E) (en_show E) (en_extract E) (en_dbg E) (en_http E) T h
                (trace_ctx P it li (ts_vars st1)) (ts_world st1) of
           (t, w) \<Rightarrow>
             (let st2 = st1\<lparr>ts_world := w,
                    ts_req := map_option (mark_written (map fst (ht_extracted t))) (ts_req st1),
                    ts_vars := bt_extend (ht_extracted t) (ts_vars st1),
                    ts_requests := ts_requests st1 + 1,
                    ts_steps := ts_steps st1 @ [http_row h li t]\<rparr>
              in if to_apply_think P
                 then (case (case hs_think h of None \<Rightarrow> default_think | Some tt \<Rightarrow> Some tt) of
                     None \<Rightarrow> st2 | Some tt \<Rightarrow> trace_think E dl tt st2)
                 else st2))"

primrec trace_loop ::
  "('w, 'now, 'tz, 'r) engine \<Rightarrow> trace_options \<Rightarrow> nat \<Rightarrow> (nat \<Rightarrow> ('w, 'tz, 'r) trace_state \<Rightarrow> ('w, 'tz, 'r) trace_state)
     \<Rightarrow> nat \<Rightarrow> nat \<Rightarrow> ('w, 'tz, 'r) trace_state \<Rightarrow> ('w, 'tz, 'r) trace_state"
where
  "trace_loop E P dl body i 0 st = st"
| "trace_loop E P dl body i (Suc n) st =
     (if ts_truncated st then cut st
      else case budget_spent E P dl st of
        (True, st1) \<Rightarrow> cut st1
      | (False, st1) \<Rightarrow> (let st2 = body i st1 in
          if ts_truncated st2 then st2 else trace_loop E P dl body (i + 1) n st2))"

fun trace_branches ::
  "(branch \<times> (('w, 'tz, 'r) trace_state \<Rightarrow> ('w, 'tz, 'r) trace_state) \<times> ('tz, 'r) req_gen option) list
     \<Rightarrow> (string, string) btree_map \<Rightarrow> ('w, 'tz, 'r) trace_state \<Rightarrow> ('w, 'tz, 'r) trace_state"
where
  "trace_branches [] entry st = st"
| "trace_branches ((b, run, g) # rest) entry st =
     (if ts_truncated st then st
      else let st1 = run (st\<lparr>ts_vars := entry, ts_req := g\<rparr>) in
        case export_vars b (ts_vars st1) (ts_vars st, ts_req st) of
          (vs, rq) \<Rightarrow> trace_branches rest entry (st1\<lparr>ts_vars := vs, ts_req := rq\<rparr>))"

definition trace_parallel ::
  "('w, 'now, 'tz, 'r) engine \<Rightarrow> branch list \<Rightarrow> (('w, 'tz, 'r) trace_state \<Rightarrow> ('w, 'tz, 'r) trace_state) list
     \<Rightarrow> ('w, 'tz, 'r) trace_state \<Rightarrow> ('w, 'tz, 'r) trace_state"
where
  "trace_parallel E bs runs st =
     (case fork_reqs E (length bs) (ts_req st) of (reqs, g) \<Rightarrow>
        trace_branches (zip bs (zip runs reqs)) (ts_vars st) (st\<lparr>ts_req := g\<rparr>))"

definition if_row :: "string \<Rightarrow> nat option \<Rightarrow> string \<Rightarrow> string list \<Rightarrow> branch_eval list \<Rightarrow> step_trace" where
  "if_row i li br unbound ev = \<lparr>sr_step_id = i, sr_kind = KindIf, sr_loop_index = li, sr_branch = Some br,
     sr_request = None, sr_response = None, sr_extracted = [], sr_unbound = unbound, sr_error = None,
     sr_branch_eval = ev, sr_timed_out = False\<rparr>"

lemma trace_loop_cong [fundef_cong]:
  "E = E' \<Longrightarrow> P = P' \<Longrightarrow> dl = dl' \<Longrightarrow> i = i' \<Longrightarrow> n = n' \<Longrightarrow> st = st' \<Longrightarrow> (\<And>i st. f i st = g i st)
   \<Longrightarrow> trace_loop E P dl f i n st = trace_loop E' P' dl' g i' n' st'"
proof -
  assume a: "E = E'" "P = P'" "dl = dl'" "i = i'" "n = n'" "st = st'" "\<And>i st. f i st = g i st"
  then have "f = g" by blast
  with a show ?thesis by simp
qed

function trace_steps ::
    "('w, 'now, 'tz, 'r) engine \<Rightarrow> 'r trace_ops \<Rightarrow> trace_options \<Rightarrow> nat \<Rightarrow> nat \<Rightarrow> nat option \<Rightarrow> think_time option
       \<Rightarrow> step list \<Rightarrow> ('w, 'tz, 'r) trace_state \<Rightarrow> ('w, 'tz, 'r) trace_state"
  and trace_step ::
    "('w, 'now, 'tz, 'r) engine \<Rightarrow> 'r trace_ops \<Rightarrow> trace_options \<Rightarrow> nat \<Rightarrow> nat \<Rightarrow> nat option \<Rightarrow> think_time option
       \<Rightarrow> step \<Rightarrow> ('w, 'tz, 'r) trace_state \<Rightarrow> ('w, 'tz, 'r) trace_state"
where
  "trace_steps E T P dl it li dt [] st = st"
| "trace_steps E T P dl it li dt (s # ss) st =
     (if ts_truncated st then st
      else case budget_spent E P dl st of
        (True, st1) \<Rightarrow> cut st1
      | (False, st1) \<Rightarrow> trace_steps E T P dl it li dt ss (trace_step E T P dl it li dt s st1))"
| "trace_step E T P dl it li dt (StHttp h) st = trace_http E T P dl it li dt h st"
| "trace_step E T P dl it li dt (StLoop i nm n body) st =
     trace_loop E P dl (\<lambda>k st. trace_steps E T P dl it (Some k) dt body st) 0 n st"
| "trace_step E T P dl it li dt (StIf i nm c th els e) st =
     (let ctx = trace_ctx P it li (ts_vars st) in
      case select_branch (en_regex E) c th els e ctx of (taken, br) \<Rightarrow>
        trace_steps E T P dl it li dt taken
          (st\<lparr>ts_steps := ts_steps st @ [if_row i li br (collect_if_condition_unbound c els ctx)
                 (explain_branches (en_regex E) c els ctx)]\<rparr>))"
| "trace_step E T P dl it li dt (StParallel i nm bs) st =
     trace_parallel E bs (map (\<lambda>b st. trace_steps E T P dl it li None (br_steps b) st) bs) st"
  by pat_completeness auto

termination
  by (relation "measure (\<lambda>x. case x of Inl (E, T, P, dl, it, li, dt, ss, st) \<Rightarrow> 2 * size_list size ss
        | Inr (E, T, P, dl, it, li, dt, s, st) \<Rightarrow> 2 * size s + 1)")
    (auto dest!: branch_size taken_size)

text \<open>One pass: the steps, the truncation flag and the iteration id start afresh, the requests go on.\<close>

definition trace_once ::
  "('w, 'now, 'tz, 'r) engine \<Rightarrow> 'r trace_ops \<Rightarrow> trace_options \<Rightarrow> 'tz request_gen_plan option \<Rightarrow> 'tz scenario
     \<Rightarrow> (string, string) btree_map \<Rightarrow> nat \<Rightarrow> nat \<Rightarrow> ('w, 'tz, 'r) trace_state \<Rightarrow> scenario_trace \<times> ('w, 'tz, 'r) trace_state"
where
  "trace_once E T P plan sc seed it dl st =
     (case rt_now (en_rt E) (ts_world st) of (started, w) \<Rightarrow>
      case seed_iter_vars (en_tz E) (en_rng E) (en_show E) (rt_chrono (en_rt E) w) (sc_variables sc) (tx_entropy T it) of
        (vs, gen1) \<Rightarrow>
      let req = (case plan of None \<Rightarrow> None | Some p \<Rightarrow> Some (fst (req_gen_new (en_gen_fork E) p gen1)));
          st1 = st\<lparr>ts_world := w, ts_steps := [], ts_truncated := False, ts_vars := bt_extend seed vs,
                   ts_req := map_option (mark_written (map fst seed)) req\<rparr>;
          st2 = trace_steps E T P dl it None (sc_default_think sc) (sc_steps sc) st1
      in case rt_now (en_rt E) (ts_world st2) of (t1, w2) \<Rightarrow>
        (\<lparr>sn_ok = list_all (\<lambda>s. sr_error s = None) (ts_steps st2),
          sn_total_ms = min ((t1 - started) div 1000000) u64_max, sn_steps = ts_steps st2,
          sn_final_vars = ts_vars st2, sn_truncated = ts_truncated st2, sn_error = None\<rparr>,
         st2\<lparr>ts_world := w2, ts_steps := []\<rparr>))"

definition fresh_state :: "'w \<Rightarrow> 'r \<Rightarrow> ('w, 'tz, 'r) trace_state" where
  "fresh_state w r = \<lparr>ts_world = w, ts_vars = [], ts_rng = r, ts_req = None, ts_steps = [], ts_requests = 0, ts_truncated = False\<rparr>"

text \<open>\<open>client\<close> is the error of building the HTTP client, if it fails.\<close>

definition trace_scenario_with_seed ::
  "('w, 'now, 'tz, 'r) engine \<Rightarrow> 'r trace_ops \<Rightarrow> engine_error option \<Rightarrow> trace_options \<Rightarrow> 'tz scenario
     \<Rightarrow> (string, string) btree_map \<Rightarrow> 'r \<Rightarrow> 'w \<Rightarrow> scenario_trace \<times> 'w"
where
  "trace_scenario_with_seed E T client P sc seed r w =
     (case rt_now (en_rt E) w of (started, w1) \<Rightarrow>
      case client of
        Some e \<Rightarrow> (\<lparr>sn_ok = False, sn_total_ms = 0, sn_steps = [], sn_final_vars = [], sn_truncated = False,
                   sn_error = Some (''http client build: '' @ display_error (en_dbg E) e)\<rparr>, w1)
      | None \<Rightarrow> (case trace_once E T P (build_plan (en_json E) sc) sc seed 0 (started + to_max_wall P) (fresh_state w1 r) of
          (t, st) \<Rightarrow> (t, ts_world st)))"

definition trace_scenario ::
  "('w, 'now, 'tz, 'r) engine \<Rightarrow> 'r trace_ops \<Rightarrow> engine_error option \<Rightarrow> trace_options \<Rightarrow> 'tz scenario \<Rightarrow> 'r \<Rightarrow> 'w
     \<Rightarrow> scenario_trace \<times> 'w"
where
  "trace_scenario E T client P sc r w = trace_scenario_with_seed E T client P sc [] r w"

text \<open>The loop over the seeded rows, and whether a row was cut or never run.\<close>

fun trace_rows ::
  "('w, 'now, 'tz, 'r) engine \<Rightarrow> 'r trace_ops \<Rightarrow> trace_options \<Rightarrow> 'tz request_gen_plan option \<Rightarrow> 'tz scenario \<Rightarrow> nat
     \<Rightarrow> nat \<Rightarrow> (nat \<times> (string, string) btree_map) list \<Rightarrow> ('w, 'tz, 'r) trace_state
     \<Rightarrow> row_trace list \<times> bool \<times> ('w, 'tz, 'r) trace_state"
where
  "trace_rows E T P plan sc dl i [] st = ([], False, st)"
| "trace_rows E T P plan sc dl i ((row, seed) # rest) st =
     (case budget_spent E P dl st of
        (True, st1) \<Rightarrow> ([], True, st1)
      | (False, st1) \<Rightarrow>
          (case trace_once E T P plan sc seed (as_u32 i) dl st1 of (t, st2) \<Rightarrow>
             let r = \<lparr>rt_row_index = row, rt_trace = t\<rparr> in
             if sn_truncated t then ([r], True, st2)
             else apfst ((#) r) (trace_rows E T P plan sc dl (i + 1) rest st2)))"

definition trace_scenario_rows ::
  "('w, 'now, 'tz, 'r) engine \<Rightarrow> 'r trace_ops \<Rightarrow> engine_error option \<Rightarrow> trace_options \<Rightarrow> 'tz scenario
     \<Rightarrow> (nat \<times> (string, string) btree_map) list \<Rightarrow> 'r \<Rightarrow> 'w \<Rightarrow> rows_trace \<times> 'w"
where
  "trace_scenario_rows E T client P sc seeded r w =
     (case rt_now (en_rt E) w of (started, w1) \<Rightarrow>
      case client of
        Some _ \<Rightarrow> (\<lparr>rs_ok = False, rs_truncated = False, rs_total_ms = 0, rs_rows = []\<rparr>, w1)
      | None \<Rightarrow>
          (case trace_rows E T P (build_plan (en_json E) sc) sc (started + to_max_wall P) 0 seeded (fresh_state w1 r) of
             (rows, truncated, st) \<Rightarrow>
           case rt_now (en_rt E) (ts_world st) of (t1, w2) \<Rightarrow>
             (\<lparr>rs_ok = (\<not> truncated \<and> list_all (\<lambda>r. sn_ok (rt_trace r)) rows), rs_truncated = truncated,
               rs_total_ms = min ((t1 - started) div 1000000) u64_max, rs_rows = rows\<rparr>, w2)))"

end
