(* ===== verification/Trace_Props.thy ===== *)
theory Trace_Props
  imports Trace Runner_Props
begin

text \<open>
  What a test run promises: a request that the load run can build is the one the test run sends, and is
  judged alike; the rows of a pass are an execution of the scenario in the sense of the load interpreter's
  specification; the budget of requests bounds all passes together.
\<close>

subsection \<open>The traced request is the load request\<close>

lemma collecting_strict: "render s ctx = Inr v \<Longrightarrow> render_collecting s ctx u = (v, u)"
  using render_lenient_agrees_strict [of ctx s u] by blast

lemma collect_leaf_strict: "render_leaf fj ctx s = Inr v \<Longrightarrow> collect_leaf fj ctx s u = (v, u)"
  by (auto simp: render_leaf_def collect_leaf_def bind_res_Inr collecting_strict split: option.splits)

lemma render_json_strict:
  "render_json_value fj ctx v = Inr x \<Longrightarrow> render_json_collecting fj ctx v u = (x, u)"
  "render_json_items fj ctx vs = Inr xs \<Longrightarrow> collect_items fj ctx vs u = (xs, u)"
  "render_json_fields fj ctx kvs = Inr m \<Longrightarrow> collect_fields fj ctx kvs u = (m, u)"
proof (induction fj ctx v and fj ctx vs and fj ctx kvs arbitrary: x u and xs u and m u
    rule: render_json_value_render_json_items_render_json_fields.induct)
qed (auto simp: bind_res_Inr collect_leaf_strict)

lemma trace_form_strict: "render_form ctx kvs = Inr m \<Longrightarrow> trace_form ctx kvs u = (m, u)"
  by (induction ctx kvs arbitrary: m rule: render_form.induct) (auto simp: bind_res_Inr collecting_strict)

lemma trace_body_strict: "build_body fj ctx b = Inr x \<Longrightarrow> \<exists>shown. trace_body fj sh ctx b u = (x, shown, u)"
  by (auto simp: build_body_def trace_body_def bind_res_Inr render_json_strict trace_form_strict collecting_strict
      split: option.splits body.splits)

lemma trace_headers_strict:
  "build_headers H ctx kvs (ha_headers a) = Inr hs \<Longrightarrow> ha_error a = None \<Longrightarrow>
   ha_headers (trace_headers H ctx kvs a) = hs \<and> ha_error (trace_headers H ctx kvs a) = None
   \<and> ha_unbound (trace_headers H ctx kvs a) = ha_unbound a"
proof (induction H ctx kvs a rule: trace_headers.induct)
  case (2 H ctx k v kvs a)
  from 2(2) obtain r where r: "render v ctx = Inr r" "ho_header_name_err H k = None" "ho_header_value_err H r = None"
    and rest: "build_headers H ctx kvs (hm_put (ascii_lower k) r (ha_headers a)) = Inr hs"
    by (auto simp: bind_res_Inr split: option.splits)
  show ?case
    using 2(1) [OF collecting_strict [OF r(1), symmetric] refl] rest 2(3) by (simp add: collecting_strict [OF r(1)] r Let_def)
qed simp

lemma build_trace_strict:
  assumes "build_request fj H st ctx = Inr req"
  shows "bl_sent (build_trace fj sh H st ctx) = req" "bl_error (build_trace fj sh H st ctx) = None"
    "bl_unbound (build_trace fj sh H st ctx) = []"
proof -
  from assms obtain url hs b where u: "render (rq_url (hs_request st)) ctx = Inr url"
    "build_headers H ctx (rq_headers (hs_request st)) [] = Inr hs" "build_body fj ctx (rq_body (hs_request st)) = Inr b"
    and req: "req = \<lparr>bq_method = rq_method (hs_request st), bq_url = url, bq_headers = hs,
            bq_timeout = (case hs_timeout st of Some secs \<Rightarrow> if secs > 0 then Some secs else None | None \<Rightarrow> None), bq_body = b\<rparr>"
    by (auto simp: build_request_def bind_res_Inr)
  let ?a = "trace_headers H ctx (rq_headers (hs_request st)) \<lparr>ha_display = [], ha_headers = [], ha_error = None, ha_unbound = []\<rparr>"
  have a: "ha_headers ?a = hs" "ha_error ?a = None" "ha_unbound ?a = []"
    using trace_headers_strict [of H ctx "rq_headers (hs_request st)" "\<lparr>ha_display = [], ha_headers = [], ha_error = None, ha_unbound = []\<rparr>" hs] u(2)
    by simp_all
  obtain shown where "trace_body fj sh ctx (rq_body (hs_request st)) [] = (b, shown, [])" using trace_body_strict [OF u(3)] by blast
  then show "bl_sent (build_trace fj sh H st ctx) = req" "bl_error (build_trace fj sh H st ctx) = None"
    "bl_unbound (build_trace fj sh H st ctx) = []"
    by (simp_all add: build_trace_def collecting_strict [OF u(1)] Let_def a req)
qed

text \<open>
  C28: a test run previews the load run. Whenever the load run executes a step (its request renders and
  builds), the test run sends the same request, so the world goes on alike; it reports no unbound name, the
  same error and the same extracted variables, and a response with the status the load run records exactly
  when one arrived.
\<close>

theorem trace_previews_load:
  assumes "execute_step fj X dbg H measuring st ctx w = (Inr out, w')"
  shows "\<exists>t. execute_step_traced fj sh X dbg H T st ctx w = (t, w') \<and> ht_unbound t = [] \<and> ht_error t = eo_error out
    \<and> ht_extracted t = eo_extracted out \<and> (ht_response t = None \<longleftrightarrow> eo_error_kind out \<noteq> None)
    \<and> (\<forall>r. ht_response t = Some r \<longrightarrow> tp_status r = eo_status out \<and> tp_latency_ms r = as_millis (eo_latency out))"
proof -
  from assms obtain req where req: "build_request fj H st ctx = Inr req" by (auto simp: execute_step_def split: sum.splits)
  note b = build_trace_strict [OF req, of sh]
  obtain outcome tm w1 where s: "ho_send H req w = (outcome, tm, w1)" by (metis prod_cases3)
  show ?thesis
  proof (cases outcome)
    case (Inl em)
    then show ?thesis using assms req s b by (cases em) (auto simp: execute_step_def execute_step_traced_def)
  next
    case resp: (Inr resp)
    obtain dns con wt where ph: "phases measuring tm = (dns, con, wt)" by (metis prod_cases3)
    show ?thesis
    proof (cases "hr_body resp")
      case (Inl e)
      then show ?thesis using assms req s resp ph b by (auto simp: execute_step_def execute_step_traced_def traced_of_def)
    next
      case body: (Inr body)
      obtain error ex where j: "judge_response X dbg st resp body = (error, ex)" by fastforce
      show ?thesis using assms req s resp ph b body j by (auto simp: execute_step_def execute_step_traced_def traced_of_def)
    qed
  qed
qed

subsection \<open>The pass refines the specification of an iteration\<close>

text \<open>A row as an event of the specification; a test run takes no page samples.\<close>

definition row_visible :: "step_trace \<Rightarrow> visible" where
  "row_visible r = (case sr_kind r of KindHttp \<Rightarrow> VReq (sr_step_id r) (sr_loop_index r)
     | KindIf \<Rightarrow> VBranch (sr_step_id r) (case sr_branch r of Some b \<Rightarrow> b | None \<Rightarrow> []))"

definition rows_visible :: "step_trace list \<Rightarrow> visible multiset" where
  "rows_visible rs = mset (map row_visible rs)"

definition no_group :: "visible multiset \<Rightarrow> visible multiset" where
  "no_group M = filter_mset (\<lambda>v. case v of VGroup _ _ \<Rightarrow> False | _ \<Rightarrow> True) M"

lemma no_group_simps [simp]:
  "no_group {#} = {#}" "no_group (M + N) = no_group M + no_group N" "no_group (page_samples i bs) = {#}"
  "no_group (add_mset (VReq a li) M) = add_mset (VReq a li) (no_group M)"
  "no_group (add_mset (VBranch a b) M) = add_mset (VBranch a b) (no_group M)"
  by (simp_all add: no_group_def page_samples_def filter_mset_eq_conv)

lemma rows_visible_simps [simp]:
  "rows_visible [] = {#}" "rows_visible (xs @ ys) = rows_visible xs + rows_visible ys"
  "rows_visible (x # xs) = add_mset (row_visible x) (rows_visible xs)"
  by (simp_all add: rows_visible_def)

lemma complete_partial: "complete li ss M \<Longrightarrow> partial li ss M" "complete1 li s M \<Longrightarrow> partial1 li s M"
proof (induction rule: complete_complete1.inducts)
qed (blast intro: partial_stop partial_Cons partial_whole complete_complete1.intros)+

definition tspec ::
  "('w, 'tz, 'r) trace_state \<Rightarrow> ('w, 'tz, 'r) trace_state \<Rightarrow> (visible multiset \<Rightarrow> bool) \<Rightarrow> (visible multiset \<Rightarrow> bool) \<Rightarrow> bool"
where
  "tspec st st' P C \<longleftrightarrow> (\<exists>new M. ts_steps st' = ts_steps st @ new \<and> rows_visible new = no_group M \<and> P M
     \<and> (\<not> ts_truncated st' \<longrightarrow> C M))"

lemma tspec_stop: "ts_steps st' = ts_steps st \<Longrightarrow> P {#} \<Longrightarrow> ts_truncated st' \<or> C {#} \<Longrightarrow> tspec st st' P C"
  unfolding tspec_def by (intro exI [of _ "[]"] exI [of _ "{#}"]) auto

lemma tspec_mono: "tspec st st' P C \<Longrightarrow> (\<And>M. P M \<Longrightarrow> P' M) \<Longrightarrow> (\<And>M. C M \<Longrightarrow> C' M) \<Longrightarrow> tspec st st' P' C'"
  unfolding tspec_def by blast

lemma tspec_then:
  assumes "tspec st st1 P1 C1" "\<not> ts_truncated st1"
    and "\<And>M. C1 M \<Longrightarrow> tspec st1 st2 (\<lambda>N. P (M + N)) (\<lambda>N. C (M + N))"
  shows "tspec st st2 P C"
proof -
  from assms(1,2) obtain a M where a: "ts_steps st1 = ts_steps st @ a" "rows_visible a = no_group M" "C1 M"
    by (auto simp: tspec_def)
  from assms(3) [OF a(3)] obtain b N where b: "ts_steps st2 = ts_steps st1 @ b" "rows_visible b = no_group N" "P (M + N)"
    "\<not> ts_truncated st2 \<longrightarrow> C (M + N)" by (auto simp: tspec_def)
  show ?thesis unfolding tspec_def using a b by (intro exI [of _ "a @ b"] exI [of _ "M + N"]) simp
qed

lemma budget_spent_steps: "budget_spent E P dl st = (b, st1) \<Longrightarrow> ts_steps st1 = ts_steps st \<and> ts_truncated st1 = ts_truncated st
   \<and> ts_requests st1 = ts_requests st \<and> ts_vars st1 = ts_vars st"
  by (auto simp: budget_spent_def split: if_splits prod.splits)

lemma cut_simps [simp]: "ts_truncated (cut st)" "ts_steps (cut st) = ts_steps st" "ts_requests (cut st) = ts_requests st"
  by (simp_all add: cut_def)

lemma trace_think_steps: "ts_steps (trace_think E dl tt st) = ts_steps st \<and> ts_requests (trace_think E dl tt st) = ts_requests st"
  by (auto simp: trace_think_def Let_def split: prod.splits if_splits)

lemma trace_http_rows:
  "\<exists>t. ts_steps (trace_http E T P dl it li dt h st) = ts_steps st @ [http_row h li t]
     \<and> ts_requests (trace_http E T P dl it li dt h st) = ts_requests st + 1"
proof -
  let ?st1 = "case ts_req st of None \<Rightarrow> st
        | Some g \<Rightarrow> (case refresh_vars (en_tz E) (en_rng E) (en_show E) (rt_chrono (en_rt E) (ts_world st)) (hs_id h) g (ts_vars st) of
            (g', vs) \<Rightarrow> st\<lparr>ts_req := Some g', ts_vars := vs\<rparr>)"
  have st1: "ts_steps ?st1 = ts_steps st" "ts_requests ?st1 = ts_requests st" by (auto split: option.split prod.split)
  obtain t w where "execute_step_traced (en_json E) (en_show E) (en_extract E) (en_dbg E) (en_http E) T h
      (trace_ctx P it li (ts_vars ?st1)) (ts_world ?st1) = (t, w)" by fastforce
  then show ?thesis
    using st1 by (intro exI [of _ t]) (simp add: trace_http_def Let_def trace_think_steps split: option.split)
qed

lemma tspec_http: "tspec st (trace_http E T P dl it li dt h st) (partial1 li (StHttp h)) (complete1 li (StHttp h))"
proof -
  obtain t where "ts_steps (trace_http E T P dl it li dt h st) = ts_steps st @ [http_row h li t]"
    using trace_http_rows [of E T P dl it li dt h st] by blast
  then show ?thesis
    unfolding tspec_def using complete_Http [of li h] partial_whole
    by (intro exI [of _ "[http_row h li t]"] exI [of _ "{#VReq (hs_id h) li#}"])
      (simp add: row_visible_def http_row_def)
qed

lemma tspec_loop:
  assumes body: "\<And>k st. \<not> ts_truncated st \<Longrightarrow> tspec st (f k st) (partial (Some k) body) (complete (Some k) body)"
    and Ms: "length Ms = i" "\<And>j. j < i \<Longrightarrow> complete (Some j) body (Ms ! j)" and n: "i + m = n" and st: "\<not> ts_truncated st"
  shows "tspec st (trace_loop E P dl f i m st) (\<lambda>M. partial1 li (StLoop a b n body) (sum_list Ms + M))
    (\<lambda>M. complete1 li (StLoop a b n body) (sum_list Ms + M))"
  using Ms n st
proof (induction m arbitrary: i st Ms)
  case 0
  then have "complete1 li (StLoop a b n body) (sum_list Ms)" by (intro complete_Loop) auto
  then show ?case using partial_whole by (auto intro: tspec_stop)
next
  case (Suc m)
  have part: "partial1 li (StLoop a b n body) (sum_list Ms + N)" if "partial (Some i) body N" for N
    using Suc.prems that by (intro partial_Loop [of i]) auto
  obtain bs st1 where b: "budget_spent E P dl st = (bs, st1)" by fastforce
  note st1 = budget_spent_steps [OF b]
  show ?case
  proof (cases bs)
    case True
    then show ?thesis using Suc.prems(4) b st1 part [OF partial_stop] by (auto intro!: tspec_stop)
  next
    case False
    let ?st2 = "f i st1"
    have s2: "tspec st ?st2 (partial (Some i) body) (complete (Some i) body)"
      using body [of st1 i] Suc.prems(4) st1 by (simp add: tspec_def)
    show ?thesis
    proof (cases "ts_truncated ?st2")
      case True
      then have "trace_loop E P dl f i (Suc m) st = ?st2" using Suc.prems(4) b False by (simp add: Let_def)
      then show ?thesis using s2 True part unfolding tspec_def by auto
    next
      case nt: False
      have "trace_loop E P dl f i (Suc m) st = trace_loop E P dl f (i + 1) m ?st2"
        using Suc.prems(4) b False nt by (simp add: Let_def)
      moreover have "tspec ?st2 (trace_loop E P dl f (i + 1) m ?st2)
          (\<lambda>N. partial1 li (StLoop a b n body) (sum_list Ms + (K + N))) (\<lambda>N. complete1 li (StLoop a b n body) (sum_list Ms + (K + N)))"
        if K: "complete (Some i) body K" for K
      proof -
        have "complete (Some j) body ((Ms @ [K]) ! j)" if "j < i + 1" for j
          using that K Suc.prems(1,2) by (cases "j = i") (simp_all add: nth_append)
        then show ?thesis using Suc.IH [of "Ms @ [K]" "i + 1" ?st2] Suc.prems(1,3) nt by (simp add: add.assoc)
      qed
      ultimately show ?thesis using tspec_then [OF s2 nt] by simp
    qed
  qed
qed

lemma fork_reqs_length: "length (fst (fork_reqs E n g)) = n"
  by (induction E n g rule: fork_reqs.induct) (auto split: prod.splits)

lemma trace_branches_rows:
  assumes "length reqs = length bs"
    and "\<And>b st. b \<in> set bs \<Longrightarrow> \<not> ts_truncated st \<Longrightarrow> tspec st (f b st) (partial li (br_steps b)) (complete li (br_steps b))"
  shows "\<exists>new Ms. ts_steps (trace_branches (zip bs (zip (map f bs) reqs)) entry st) = ts_steps st @ new
    \<and> length Ms = length bs \<and> rows_visible new = no_group (sum_list Ms)
    \<and> (\<forall>k < length bs. partial li (br_steps (bs ! k)) (Ms ! k))
    \<and> (\<not> ts_truncated (trace_branches (zip bs (zip (map f bs) reqs)) entry st) \<longrightarrow>
         (\<forall>k < length bs. complete li (br_steps (bs ! k)) (Ms ! k)))"
  using assms
proof (induction bs arbitrary: reqs st)
  case Nil
  then show ?case by simp
next
  case (Cons b bs)
  obtain g reqs' where reqs: "reqs = g # reqs'" using Cons.prems(1) by (cases reqs) auto
  show ?case
  proof (cases "ts_truncated st")
    case True
    have "sum_list (replicate n {#}) = ({#} :: visible multiset)" for n by (induction n) simp_all
    then show ?thesis
      using True partial_stop
      by (intro exI [of _ "[]"] exI [of _ "replicate (Suc (length bs)) {#}"]) (simp add: reqs del: replicate_Suc)
  next
    case False
    let ?st1 = "f b (st\<lparr>ts_vars := entry, ts_req := g\<rparr>)"
    obtain vs rq where ex: "export_vars b (ts_vars ?st1) (ts_vars st, ts_req st) = (vs, rq)" by fastforce
    let ?st2 = "?st1\<lparr>ts_vars := vs, ts_req := rq\<rparr>"
    let ?fin = "trace_branches (zip bs (zip (map f bs) reqs')) entry ?st2"
    have run: "trace_branches (zip (b # bs) (zip (map f (b # bs)) reqs)) entry st = ?fin"
      using False ex by (simp add: reqs Let_def)
    have "tspec (st\<lparr>ts_vars := entry, ts_req := g\<rparr>) ?st1 (partial li (br_steps b)) (complete li (br_steps b))"
      using Cons.prems(2) [of b "st\<lparr>ts_vars := entry, ts_req := g\<rparr>"] False by simp
    then obtain a M where a: "ts_steps ?st1 = ts_steps st @ a" "rows_visible a = no_group M" "partial li (br_steps b) M"
      "\<not> ts_truncated ?st1 \<longrightarrow> complete li (br_steps b) M" by (auto simp: tspec_def)
    obtain new Ms where n: "ts_steps ?fin = ts_steps ?st2 @ new" "length Ms = length bs" "rows_visible new = no_group (sum_list Ms)"
      "\<forall>k < length bs. partial li (br_steps (bs ! k)) (Ms ! k)"
      "\<not> ts_truncated ?fin \<longrightarrow> (\<forall>k < length bs. complete li (br_steps (bs ! k)) (Ms ! k))"
      using Cons.IH [of reqs' ?st2] Cons.prems reqs by auto
    have tr: "ts_truncated ?st1 \<longrightarrow> ts_truncated ?fin" by (cases bs; cases reqs') auto
    show ?thesis
      unfolding run using a n tr
      by (intro exI [of _ "a @ new"] exI [of _ "M # Ms"]) (auto simp: nth_Cons split: nat.split)
  qed
qed

lemma tspec_parallel:
  assumes "\<And>b st. b \<in> set bs \<Longrightarrow> \<not> ts_truncated st \<Longrightarrow> tspec st (f b st) (partial li (br_steps b)) (complete li (br_steps b))"
  shows "tspec st (trace_parallel E bs (map f bs) st) (partial1 li (StParallel i nm bs)) (complete1 li (StParallel i nm bs))"
proof -
  obtain reqs g where fk: "fork_reqs E (length bs) (ts_req st) = (reqs, g)" by fastforce
  have len: "length reqs = length bs" using fork_reqs_length [of E "length bs" "ts_req st"] fk by simp
  let ?fin = "trace_branches (zip bs (zip (map f bs) reqs)) (ts_vars st) (st\<lparr>ts_req := g\<rparr>)"
  obtain new Ms where n: "ts_steps ?fin = ts_steps st @ new" "length Ms = length bs" "rows_visible new = no_group (sum_list Ms)"
    "\<forall>k < length bs. partial li (br_steps (bs ! k)) (Ms ! k)"
    "\<not> ts_truncated ?fin \<longrightarrow> (\<forall>k < length bs. complete li (br_steps (bs ! k)) (Ms ! k))"
    using trace_branches_rows [OF len, of f li "ts_vars st" "st\<lparr>ts_req := g\<rparr>"] assms by auto
  have fin: "trace_parallel E bs (map f bs) st = ?fin" by (simp add: trace_parallel_def fk)
  show ?thesis
  proof (cases "ts_truncated ?fin")
    case True
    have "partial1 li (StParallel i nm bs) (sum_list Ms)" using n by (intro partial_Parallel) auto
    then show ?thesis unfolding fin tspec_def using n True by blast
  next
    case False
    then have "complete1 li (StParallel i nm bs) (sum_list Ms + page_samples i bs)" using n by (intro complete_Parallel) auto
    moreover from this have "partial1 li (StParallel i nm bs) (sum_list Ms + page_samples i bs)" by (rule partial_whole)
    ultimately show ?thesis unfolding fin tspec_def using n
      by (intro exI [of _ new] exI [of _ "sum_list Ms + page_samples i bs"]) simp
  qed
qed

lemma tspec_pre: "ts_steps st1 = ts_steps st \<Longrightarrow> tspec st1 st' P C \<Longrightarrow> tspec st st' P C"
  by (simp add: tspec_def)

lemma trace_spec:
  "\<not> ts_truncated st \<Longrightarrow> tspec st (trace_steps E T P dl it li dt ss st) (partial li ss) (complete li ss)"
  "\<not> ts_truncated st \<Longrightarrow> tspec st (trace_step E T P dl it li dt s st) (partial1 li s) (complete1 li s)"
proof (induction E T P dl it li dt ss st and E T P dl it li dt s st rule: trace_steps_trace_step.induct)
  case (1 E T P dl it li dt st)
  then show ?case using complete_Nil partial_stop by (auto intro!: tspec_stop)
next
  case (2 E T P dl it li dt s ss st)
  obtain bs st1 where b: "budget_spent E P dl st = (bs, st1)" by fastforce
  note st1 = budget_spent_steps [OF b]
  show ?case
  proof (cases bs)
    case True
    then show ?thesis using 2(3) b st1 partial_stop by (auto intro!: tspec_stop)
  next
    case False
    let ?st2 = "trace_step E T P dl it li dt s st1"
    have nt1: "\<not> ts_truncated st1" using st1 2(3) by simp
    have s2: "tspec st ?st2 (partial1 li s) (complete1 li s)"
      using 2(1) [OF 2(3) b [symmetric] _ nt1] False st1 by (auto intro: tspec_pre)
    have run: "trace_steps E T P dl it li dt (s # ss) st = trace_steps E T P dl it li dt ss ?st2"
      using 2(3) b False by simp
    show ?thesis
    proof (cases "ts_truncated ?st2")
      case True
      then have "trace_steps E T P dl it li dt ss ?st2 = ?st2" by (cases ss) simp_all
      then show ?thesis using s2 True partial_cut unfolding run tspec_def by (simp only: not_True_eq_False) blast
    next
      case nt: False
      have "tspec ?st2 (trace_steps E T P dl it li dt ss ?st2) (partial li ss) (complete li ss)"
        using 2(2) [OF 2(3) b [symmetric] _ nt] False by simp
      then show ?thesis unfolding run
        by (intro tspec_then [OF s2 nt]) (erule tspec_mono; blast intro: partial_Cons complete_Cons)
    qed
  qed
next
  case (3 E T P dl it li dt h st)
  then show ?case using tspec_http by simp
next
  case (4 E T P dl it li dt i nm n body st)
  then show ?case
    using tspec_loop [of "\<lambda>k st. trace_steps E T P dl it (Some k) dt body st" body "[]" 0 n n st E P dl li i nm] by simp
next
  case (5 E T P dl it li dt i nm c th els e st)
  let ?ctx = "trace_ctx P it li (ts_vars st)"
  obtain taken br where sb: "select_branch (en_regex E) c th els e ?ctx = (taken, br)" by fastforce
  let ?row = "if_row i li br (collect_if_condition_unbound c els ?ctx) (explain_branches (en_regex E) c els ?ctx)"
  let ?st1 = "st\<lparr>ts_steps := ts_steps st @ [?row]\<rparr>"
  have ch: "(taken, br) \<in> set (if_choices th els e)" using select_branch_choice [of "en_regex E" c th els e ?ctx] sb by simp
  have s: "tspec ?st1 (trace_steps E T P dl it li dt taken ?st1) (partial li taken) (complete li taken)"
    using 5(1) [OF refl sb [symmetric]] 5(2) by simp
  have run: "trace_step E T P dl it li dt (StIf i nm c th els e) st = trace_steps E T P dl it li dt taken ?st1"
    by (simp add: sb Let_def)
  obtain new M where n: "ts_steps (trace_steps E T P dl it li dt taken ?st1) = ts_steps st @ ?row # new"
    "rows_visible new = no_group M" "partial li taken M"
    "\<not> ts_truncated (trace_steps E T P dl it li dt taken ?st1) \<longrightarrow> complete li taken M"
    using s by (auto simp: tspec_def)
  have "row_visible ?row = VBranch i br" by (simp add: row_visible_def if_row_def)
  then show ?case
    unfolding run tspec_def using n partial_If [OF ch] complete_If [OF ch]
    by (intro exI [of _ "?row # new"] exI [of _ "add_mset (VBranch i br) M"]) auto
next
  case (6 E T P dl it li dt i nm bs st)
  then show ?case using tspec_parallel [of bs "\<lambda>b st. trace_steps E T P dl it li None (br_steps b) st" li st E i nm] by auto
qed

text \<open>
  C29: a test run is an execution of the scenario in the sense the load interpreter implements
  (\<open>run_steps_refines\<close>): the rows it appends are the requests and branch decisions of a cut execution of
  the steps, and of a complete one unless the pass is marked as truncated: every step once, every loop body
  once per repetition with its index, every branch of a parallel node, one arm of every if.
\<close>

theorem trace_steps_refines:
  assumes "\<not> ts_truncated st" "trace_steps E T P dl it li dt ss st = st'"
  shows "\<exists>new M. ts_steps st' = ts_steps st @ new \<and> rows_visible new = no_group M \<and> partial li ss M
    \<and> (\<not> ts_truncated st' \<longrightarrow> complete li ss M)"
  using trace_spec(1) [OF assms(1), of E T P dl it li dt ss] unfolding assms(2) tspec_def .

subsection \<open>The budget\<close>

definition http_rows :: "step_trace list \<Rightarrow> nat" where
  "http_rows rs = length (filter (\<lambda>r. sr_kind r = KindHttp) rs)"

lemma http_rows_simps [simp]: "http_rows [] = 0" "http_rows (xs @ ys) = http_rows xs + http_rows ys"
  "http_rows [http_row h li t] = 1" "http_rows [if_row i li br u ev] = 0"
  by (simp_all add: http_rows_def http_row_def if_row_def)

text \<open>Every row of a request is counted, and the count stays within the budget.\<close>

definition counted :: "trace_options \<Rightarrow> ('w, 'tz, 'r) trace_state \<Rightarrow> ('w, 'tz, 'r) trace_state \<Rightarrow> bool" where
  "counted P st st' \<longleftrightarrow> ts_requests st \<le> ts_requests st' \<and> (\<exists>new. ts_steps st' = ts_steps st @ new \<and> ts_requests st' = ts_requests st + http_rows new)
     \<and> (ts_requests st \<le> to_max_requests P \<longrightarrow> ts_requests st' \<le> to_max_requests P)"

lemma counted_refl: "ts_steps st' = ts_steps st \<Longrightarrow> ts_requests st' = ts_requests st \<Longrightarrow> counted P st st'"
  by (simp add: counted_def)

lemma counted_trans: "counted P st st1 \<Longrightarrow> counted P st1 st2 \<Longrightarrow> counted P st st2"
proof -
  assume a: "counted P st st1" "counted P st1 st2"
  from a(1) obtain x where x: "ts_steps st1 = ts_steps st @ x" "ts_requests st1 = ts_requests st + http_rows x" by (auto simp: counted_def)
  from a(2) obtain y where y: "ts_steps st2 = ts_steps st1 @ y" "ts_requests st2 = ts_requests st1 + http_rows y" by (auto simp: counted_def)
  have "ts_steps st2 = ts_steps st @ (x @ y) \<and> ts_requests st2 = ts_requests st + http_rows (x @ y)" using x y by simp
  then show ?thesis using a unfolding counted_def by (auto simp del: append_assoc)
qed

lemma counted_step: "counted P st st1 \<Longrightarrow> counted P st1 st2 \<Longrightarrow> counted P st (if b then st1 else st2)"
  using counted_trans by auto

lemma budget_counted: "budget_spent E P dl st = (b, st1) \<Longrightarrow> counted P st st1 \<and> (\<not> b \<longrightarrow> ts_requests st1 < to_max_requests P)"
  by (auto simp: budget_spent_def counted_def split: if_splits prod.splits)

lemma cut_counted: "counted P st st1 \<Longrightarrow> counted P st (cut st1)"
  by (auto simp: counted_def)

lemma http_counted: "ts_requests st < to_max_requests P \<Longrightarrow> counted P st (trace_http E T P dl it li dt h st)"
  using trace_http_rows [of E T P dl it li dt h st] by (auto simp: counted_def)

lemma loop_counted:
  assumes "\<And>k st. counted P st (f k st)"
  shows "counted P st (trace_loop E P dl f i n st)"
proof (induction n arbitrary: i st)
  case 0
  then show ?case by (simp add: counted_refl)
next
  case (Suc n)
  obtain b st1 where b: "budget_spent E P dl st = (b, st1)" by fastforce
  have c1: "counted P st st1" using budget_counted [OF b] by blast
  have c2: "counted P st (f i st1)" using counted_trans [OF c1 assms] .
  have c3: "counted P st (trace_loop E P dl f (i + 1) n (f i st1))" using counted_trans [OF c2 Suc.IH] .
  show ?case using b c1 c2 c3 cut_counted [OF counted_refl [of st st]] by (auto simp: Let_def cut_counted split: bool.split)
qed

lemma branches_counted:
  assumes "\<And>r st. r \<in> set rs \<Longrightarrow> counted P st (fst (snd r) st)"
  shows "counted P st (trace_branches rs entry st)"
  using assms
proof (induction rs entry st rule: trace_branches.induct)
  case (1 entry st)
  then show ?case by (simp add: counted_refl)
next
  case (2 b run g rest entry st)
  let ?st1 = "run (st\<lparr>ts_vars := entry, ts_req := g\<rparr>)"
  obtain vs rq where ex: "export_vars b (ts_vars ?st1) (ts_vars st, ts_req st) = (vs, rq)" by fastforce
  have "counted P st (st\<lparr>ts_vars := entry, ts_req := g\<rparr>)" by (simp add: counted_refl)
  from counted_trans [OF this] have "counted P st ?st1" using 2(2) [of "(b, run, g)"] by simp
  moreover have "counted P ?st1 (?st1\<lparr>ts_vars := vs, ts_req := rq\<rparr>)" by (simp add: counted_refl)
  ultimately have c: "counted P st (?st1\<lparr>ts_vars := vs, ts_req := rq\<rparr>)" by (rule counted_trans)
  show ?case
  proof (cases "ts_truncated st")
    case False
    have "counted P (?st1\<lparr>ts_vars := vs, ts_req := rq\<rparr>) (trace_branches rest entry (?st1\<lparr>ts_vars := vs, ts_req := rq\<rparr>))"
      using 2(1) [OF False refl ex [symmetric]] 2(2) by simp
    then show ?thesis using counted_trans [OF c] False ex by (simp add: Let_def)
  qed (simp add: counted_refl)
qed

lemma trace_counted:
  "counted P st (trace_steps E T P dl it li dt ss st)"
  "ts_requests st < to_max_requests P \<Longrightarrow> counted P st (trace_step E T P dl it li dt s st)"
proof (induction E T P dl it li dt ss st and E T P dl it li dt s st rule: trace_steps_trace_step.induct)
  case (1 E T P dl it li dt st)
  then show ?case by (simp add: counted_refl)
next
  case (2 E T P dl it li dt s ss st)
  obtain b st1 where b: "budget_spent E P dl st = (b, st1)" by fastforce
  note c = budget_counted [OF b]
  show ?case
  proof (cases "ts_truncated st \<or> b")
    case True
    then show ?thesis using b c by (auto simp: counted_refl cut_counted)
  next
    case False
    then have "counted P st1 (trace_step E T P dl it li dt s st1)" using 2(1) [OF _ b [symmetric]] c by simp
    then have "counted P st (trace_step E T P dl it li dt s st1)" using counted_trans c by blast
    moreover have "counted P (trace_step E T P dl it li dt s st1) (trace_steps E T P dl it li dt ss (trace_step E T P dl it li dt s st1))"
      using 2(2) [OF _ b [symmetric]] False by simp
    ultimately show ?thesis using counted_trans False b by (auto)
  qed
next
  case (3 E T P dl it li dt h st)
  then show ?case using http_counted by simp
next
  case (4 E T P dl it li dt i nm n body st)
  then show ?case using loop_counted [of P "\<lambda>k st. trace_steps E T P dl it (Some k) dt body st"] by simp
next
  case (5 E T P dl it li dt i nm c th els e st)
  let ?ctx = "trace_ctx P it li (ts_vars st)"
  obtain taken br where sb: "select_branch (en_regex E) c th els e ?ctx = (taken, br)" by fastforce
  let ?row = "if_row i li br (collect_if_condition_unbound c els ?ctx) (explain_branches (en_regex E) c els ?ctx)"
  let ?st1 = "st\<lparr>ts_steps := ts_steps st @ [?row]\<rparr>"
  have "counted P st ?st1" by (simp add: counted_def)
  moreover have "counted P ?st1 (trace_steps E T P dl it li dt taken ?st1)" using 5(1) [OF refl sb [symmetric]] .
  ultimately show ?case using counted_trans by (simp add: sb Let_def)
next
  case (6 E T P dl it li dt i nm bs st)
  obtain reqs g where fk: "fork_reqs E (length bs) (ts_req st) = (reqs, g)" by fastforce
  have "counted P st (st\<lparr>ts_req := g\<rparr>)" by (simp add: counted_refl)
  moreover have "counted P (st\<lparr>ts_req := g\<rparr>) (trace_branches (zip bs (zip (map (\<lambda>b st. trace_steps E T P dl it li None (br_steps b) st) bs) reqs))
      (ts_vars st) (st\<lparr>ts_req := g\<rparr>))"
  proof (rule branches_counted)
    fix r st' assume "r \<in> set (zip bs (zip (map (\<lambda>b st. trace_steps E T P dl it li None (br_steps b) st) bs) reqs))"
    then have "snd r \<in> set (zip (map (\<lambda>b st. trace_steps E T P dl it li None (br_steps b) st) bs) reqs)"
      by (metis prod.collapse set_zip_rightD)
    then have "fst (snd r) \<in> set (map (\<lambda>b st. trace_steps E T P dl it li None (br_steps b) st) bs)"
      by (metis prod.collapse set_zip_leftD)
    then show "counted P st' (fst (snd r) st')" using 6(1) by auto
  qed
  ultimately show ?case using counted_trans by (simp add: trace_parallel_def fk)
qed


lemma trace_once_counted:
  assumes "trace_once E T P plan sc seed it dl st = (t, st')"
  shows "ts_requests st' = ts_requests st + http_rows (sn_steps t)"
    and "ts_requests st \<le> to_max_requests P \<Longrightarrow> ts_requests st' \<le> to_max_requests P"
    and "sn_ok t \<longleftrightarrow> list_all (\<lambda>s. sr_error s = None) (sn_steps t)"
proof -
  obtain started w where n: "rt_now (en_rt E) (ts_world st) = (started, w)" by fastforce
  obtain vs gen1 where v: "seed_iter_vars (en_tz E) (en_rng E) (en_show E) (rt_chrono (en_rt E) w) (sc_variables sc) (tx_entropy T it)
      = (vs, gen1)" by fastforce
  define st1 where "st1 = st\<lparr>ts_world := w, ts_steps := [], ts_truncated := False, ts_vars := bt_extend seed vs,
     ts_req := map_option (mark_written (map fst seed))
       (case plan of None \<Rightarrow> None | Some p \<Rightarrow> Some (fst (req_gen_new (en_gen_fork E) p gen1)))\<rparr>"
  let ?st2 = "trace_steps E T P dl it None (sc_default_think sc) (sc_steps sc) st1"
  have c: "counted P st1 ?st2" by (rule trace_counted)
  have s1: "ts_requests st1 = ts_requests st" "ts_steps st1 = []" by (simp_all add: st1_def)
  have r: "sn_steps t = ts_steps ?st2" "ts_requests st' = ts_requests ?st2"
    "sn_ok t \<longleftrightarrow> list_all (\<lambda>s. sr_error s = None) (ts_steps ?st2)"
    using assms by (auto simp: trace_once_def n v Let_def st1_def [symmetric] split: prod.splits)
  show "ts_requests st' = ts_requests st + http_rows (sn_steps t)"
    "ts_requests st \<le> to_max_requests P \<Longrightarrow> ts_requests st' \<le> to_max_requests P"
    "sn_ok t \<longleftrightarrow> list_all (\<lambda>s. sr_error s = None) (sn_steps t)"
    using c s1 r by (auto simp: counted_def)
qed

lemma trace_rows_props:
  "trace_rows E T P plan sc dl i seeded st = (rows, truncated, st') \<Longrightarrow> ts_requests st \<le> to_max_requests P \<Longrightarrow>
   ts_requests st + (\<Sum>x\<leftarrow>rows. http_rows (sn_steps (rt_trace x))) \<le> to_max_requests P
   \<and> map rt_row_index rows = take (length rows) (map fst seeded)
   \<and> (truncated \<longleftrightarrow> length rows < length seeded \<or> list_ex (\<lambda>x. sn_truncated (rt_trace x)) rows)
   \<and> length rows \<le> length seeded
   \<and> list_all (\<lambda>x. sn_ok (rt_trace x) \<longleftrightarrow> list_all (\<lambda>s. sr_error s = None) (sn_steps (rt_trace x))) rows"
proof (induction E T P plan sc dl i seeded st arbitrary: rows truncated st' rule: trace_rows.induct)
  case (1 E T P plan sc dl i st)
  then show ?case by simp
next
  case (2 E T P plan sc dl i row seed rest st)
  obtain b st1 where b: "budget_spent E P dl st = (b, st1)" by fastforce
  note st1 = budget_spent_steps [OF b]
  show ?case
  proof (cases b)
    case True
    then show ?thesis using 2(2,3) b by auto
  next
    case False
    obtain t st2 where t: "trace_once E T P plan sc seed (as_u32 i) dl st1 = (t, st2)" by fastforce
    note c = trace_once_counted [OF t]
    show ?thesis
    proof (cases "sn_truncated t")
      case True
      then show ?thesis using 2(2,3) b False t c st1 by auto
    next
      case nt: False
      obtain rows' tr st3 where rec: "trace_rows E T P plan sc dl (i + 1) rest st2 = (rows', tr, st3)" by (metis prod_cases3)
      have out: "rows = \<lparr>rt_row_index = row, rt_trace = t\<rparr> # rows'" "truncated = tr"
        using 2(2) b False t nt rec by (auto simp: Let_def)
      have le: "ts_requests st2 \<le> to_max_requests P" using c(2) st1 2(3) by simp
      show ?thesis using 2(1) [OF b [symmetric] _ t [symmetric] refl nt rec le] False c(1,3) st1 nt by (auto simp: out)
    qed
  qed
qed

text \<open>
  C30: a test run over several data rows shares one budget: all its requests together never exceed the
  limit; the rows reported are the leading rows in order, with their numbers; it is marked as truncated
  exactly when a row is missing or was cut; it is ok exactly when it is complete and no row has an error.
\<close>

theorem test_run_rows_budget:
  assumes "trace_scenario_rows E T None P sc seeded r w = (R, w')"
  shows "(\<Sum>x\<leftarrow>rs_rows R. http_rows (sn_steps (rt_trace x))) \<le> to_max_requests P
    \<and> map rt_row_index (rs_rows R) = take (length (rs_rows R)) (map fst seeded)
    \<and> (rs_truncated R \<longleftrightarrow> length (rs_rows R) < length seeded \<or> list_ex (\<lambda>x. sn_truncated (rt_trace x)) (rs_rows R))
    \<and> (rs_ok R \<longleftrightarrow> \<not> rs_truncated R \<and> list_all (\<lambda>x. list_all (\<lambda>s. sr_error s = None) (sn_steps (rt_trace x))) (rs_rows R))"
proof -
  obtain started w1 where n: "rt_now (en_rt E) w = (started, w1)" by fastforce
  obtain rows tr st where rows: "trace_rows E T P (build_plan (en_json E) sc) sc (started + to_max_wall P) 0 seeded
      (fresh_state w1 r) = (rows, tr, st)" by (metis prod_cases3)
  have R: "rs_rows R = rows" "rs_truncated R = tr" "rs_ok R \<longleftrightarrow> \<not> tr \<and> list_all (\<lambda>r. sn_ok (rt_trace r)) rows"
    using assms by (auto simp: trace_scenario_rows_def n rows split: prod.splits)
  have le: "ts_requests (fresh_state w1 r) \<le> to_max_requests P" by (simp add: fresh_state_def)
  note p = trace_rows_props [OF rows le]
  then show ?thesis unfolding R by (auto simp: fresh_state_def list_all_iff)
qed

subsection \<open>Witnesses\<close>

definition demo_trace_ops :: "nat trace_ops" where
  "demo_trace_ops = \<lparr>tx_lossy = (\<lambda>s. s), tx_body_timeout = (\<lambda>_. False), tx_entropy = (\<lambda>i. i)\<rparr>"

definition demo_options :: trace_options where
  "demo_options = \<lparr>to_env = [], to_max_requests = 1, to_max_wall = 100, to_apply_think = False\<rparr>"

theorem trace_previews_load_witness:
  "\<exists>out t. execute_step (\<lambda>_. None) demo_extract (\<lambda>s. s) demo_http False demo_step demo_ctx 3 = (Inr out, 4)
     \<and> execute_step_traced (\<lambda>_. None) (\<lambda>_. []) demo_extract (\<lambda>s. s) demo_http demo_trace_ops demo_step demo_ctx 3 = (t, 4)
     \<and> ht_error t = None"
proof -
  have r: "render ''/'' demo_ctx = Inr ''/''" by code_simp
  obtain out where o: "execute_step (\<lambda>_. None) demo_extract (\<lambda>s. s) demo_http False demo_step demo_ctx 3 = (Inr out, 4)"
    "eo_error out = None"
    using r by (simp add: execute_step_def build_request_def build_body_def demo_step_def demo_http_def
        phases_def judge_response_def evaluate_def extract_one_def)
  then show ?thesis using trace_previews_load [OF o(1), of "\<lambda>_. []" demo_trace_ops] by auto
qed

definition demo_pass :: "unit scenario" where
  "demo_pass = \<lparr>sc_version = 1, sc_name = ''n'', sc_variables = [], sc_cookie_jar = JarOff, sc_default_think = None,
     sc_notes = None, sc_steps = [StHttp demo_step]\<rparr>"

lemma demo_trace_http:
  "\<exists>t. trace_http demo_engine demo_trace_ops demo_options dl it li None demo_step st
     = st\<lparr>ts_world := ts_world st + 1, ts_req := map_option (mark_written [''st'']) (ts_req st),
          ts_vars := bt_extend [(''st'', ''200'')] (ts_vars st), ts_requests := ts_requests st + 1,
          ts_steps := ts_steps st @ [http_row demo_step li t]\<rparr>"
  if "ts_req st = None"
proof -
  have r: "render_collecting ''/'' ctx [] = (''/'', [])" for ctx
    using render_lenient_agrees_strict [of ctx "''/''" "[]"] by (simp add: collecting_strict)
  have n: "nat_str 200 = ''200''" by code_simp
  show ?thesis
    using that r n by (intro exI [of _ "fst (execute_step_traced (\<lambda>_. None) (\<lambda>_. []) demo_extract (\<lambda>s. s) demo_http demo_trace_ops
        demo_step (trace_ctx demo_options it li (ts_vars st)) (ts_world st))"])
      (simp add: trace_http_def demo_engine_def execute_step_traced_def build_trace_def trace_body_def demo_step_def demo_http_def
        demo_options_def demo_trace_ops_def judge_response_def evaluate_def extract_one_def extract_var_def Let_def)
qed

theorem trace_steps_refines_witness:
  "\<exists>st'. trace_steps demo_engine demo_trace_ops demo_options 100 0 None None [StHttp demo_step, StHttp demo_step]
       (fresh_state 3 0) = st' \<and> ts_truncated st' \<and> rows_visible (ts_steps st') = {#VReq ''s1'' None#}
     \<and> (\<exists>M. partial None [StHttp demo_step, StHttp demo_step] M \<and> no_group M = {#VReq ''s1'' None#})"
proof -
  define st' where "st' = trace_steps demo_engine demo_trace_ops demo_options 100 0 None None [StHttp demo_step, StHttp demo_step]
       (fresh_state 3 0 :: (nat, unit, nat) trace_state)"
  have f: "ts_req (fresh_state 3 0 :: (nat, unit, nat) trace_state) = None" by (simp add: fresh_state_def)
  obtain t where t: "trace_http demo_engine demo_trace_ops demo_options 100 0 None None demo_step (fresh_state 3 0)
     = (fresh_state 3 0 :: (nat, unit, nat) trace_state)\<lparr>ts_world := 4, ts_vars := [(''st'', ''200'')], ts_requests := 1,
          ts_steps := [http_row demo_step None t]\<rparr>"
    using demo_trace_http [OF f, of 100 0 None] by (auto simp: fresh_state_def bt_extend_def)
  have b: "budget_spent demo_engine demo_options 100 (fresh_state 3 0 :: (nat, unit, nat) trace_state) = (False, fresh_state 3 0)"
    by (simp add: budget_spent_def demo_engine_def demo_rt_def demo_options_def fresh_state_def)
  have s: "st' = cut ((fresh_state 3 0)\<lparr>ts_world := 4, ts_vars := [(''st'', ''200'')], ts_requests := 1,
          ts_steps := [http_row demo_step None t]\<rparr>)"
    unfolding st'_def by (simp add: b t, simp add: fresh_state_def budget_spent_def demo_options_def)
  have v: "ts_truncated st'" "rows_visible (ts_steps st') = {#VReq ''s1'' None#}" "ts_steps (fresh_state 3 0) = []"
    unfolding s by (simp_all add: row_visible_def http_row_def demo_step_def fresh_state_def)
  have nt: "\<not> ts_truncated (fresh_state 3 0 :: (nat, unit, nat) trace_state)" by (simp add: fresh_state_def)
  show ?thesis using trace_steps_refines [OF nt st'_def [symmetric]] v unfolding st'_def [symmetric]
    by (auto simp: fresh_state_def)
qed

theorem test_run_rows_budget_witness:
  "\<exists>R w'. trace_scenario_rows demo_engine demo_trace_ops None demo_options demo_pass [(7, []), (8, [])] 0 3 = (R, w')
     \<and> map rt_row_index (rs_rows R) = [7] \<and> rs_truncated R"
proof -
  obtain R w' where R: "trace_scenario_rows demo_engine demo_trace_ops None demo_options demo_pass [(7, []), (8, [])] 0 3 = (R, w')"
    by fastforce
  let ?st = "(fresh_state 3 0 :: (nat, unit, nat) trace_state)\<lparr>ts_vars := []\<rparr>"
  obtain t where t: "trace_http demo_engine demo_trace_ops demo_options 103 0 None None demo_step (fresh_state 3 0)
     = (fresh_state 3 0 :: (nat, unit, nat) trace_state)\<lparr>ts_world := 4, ts_vars := [(''st'', ''200'')], ts_requests := 1,
          ts_steps := [http_row demo_step None t]\<rparr>"
    using demo_trace_http [of "fresh_state 3 0" 103 0 None] by (auto simp: fresh_state_def bt_extend_def)
  have "length (rs_rows R) = 1"
    using R t by (auto simp: trace_scenario_rows_def demo_pass_def build_plan_def demo_engine_def demo_rt_def demo_options_def
        budget_spent_def trace_once_def Let_def fresh_state_def bt_extend_def demo_trace_ops_def)
  then show ?thesis using test_run_rows_budget [OF R] R by auto
qed

end
