(* ===== verification/Monitor_Config.thy ===== *)
theory Monitor_Config
  imports Extract Values
begin

text \<open>
  \<^verbatim>\<open>controller/src/monitor/config.rs\<close>: the configuration of a monitor board and the validation every board
  passes before it is stored. The validation normalizes in place; here it returns the normalized value, or
  an error with one constructor per message. Parsing an ULID and drawing a fresh one are parameters.
\<close>

subsection \<open>Data\<close>

definition max_panels :: nat where "max_panels = 9"
definition max_thresholds :: nat where "max_thresholds = 5"
definition max_conditions :: nat where "max_conditions = 10"
definition max_display_items :: nat where "max_display_items = 2"
definition name_max_chars :: nat where "name_max_chars = 40"

datatype font_scale = FontSmall | FontMedium | FontLarge | FontXlarge
datatype blink = BlinkOff | BlinkFail | BlinkSlowAndFail
datatype display_style = StyleFill | StyleBorder | StyleFocus
datatype condition_source = SrcBody | SrcHeader | SrcStatus | SrcBodyText
datatype condition_op = CoExists | CoNotEmpty | CoEq | CoNe | CoContains | CoGt | CoLt | CoGte | CoLte | CoOneOf

definition one_of_candidates :: "string \<Rightarrow> string list" where
  "one_of_candidates v = filter (\<lambda>s. s \<noteq> []) (map trim (split_on CHR '','' v))"

definition needs_value :: "condition_op \<Rightarrow> bool" where
  "needs_value p \<longleftrightarrow> p \<in> {CoEq, CoNe, CoContains, CoGt, CoLt, CoGte, CoLte, CoOneOf}"

definition has_flags :: "condition_op \<Rightarrow> bool" where
  "has_flags p \<longleftrightarrow> p \<in> {CoEq, CoNe, CoContains, CoOneOf}"

definition source_allows :: "condition_source \<Rightarrow> condition_op \<Rightarrow> bool" where
  "source_allows s p = (case s of
     SrcBody \<Rightarrow> True | SrcHeader \<Rightarrow> True
   | SrcStatus \<Rightarrow> p \<in> {CoEq, CoNe, CoGt, CoLt, CoGte, CoLte, CoOneOf}
   | SrcBodyText \<Rightarrow> p \<in> {CoContains, CoNotEmpty})"

definition parse_finite :: "string \<Rightarrow> f64 option" where
  "parse_finite s = (case parse_f64 (trim s) of Some v \<Rightarrow> if f64_finite v then Some v else None | None \<Rightarrow> None)"

record success_condition =
  wc_step_id :: string
  wc_source :: condition_source
  wc_path :: string
  wc_op :: condition_op
  wc_value :: string
  wc_ignore_case :: bool
  wc_trim :: bool

datatype display_source = DisBody | DisHeader | DisStatus

record display_item =
  di_step_id :: string
  di_source :: display_source
  di_path :: string

datatype latency_source = LatTotal | LatStep string

record threshold =
  th_ms :: nat
  th_color :: string

record panel_config =
  pn_id :: string
  pn_title :: string
  pn_scenario :: string
  pn_environment :: "string option"
  pn_interval :: nat
  pn_timeout :: nat
  pn_latency :: latency_source
  pn_thresholds :: "threshold list"
  pn_bars :: nat
  pn_graph_max :: nat
  pn_conditions :: "success_condition list"
  pn_display :: "display_item list"
  pn_group :: "string option"
  pn_step :: "string option"

record check_group =
  cg_id :: string
  cg_scenario :: string
  cg_environment :: "string option"
  cg_interval :: nat

record board_config =
  bd_font :: font_scale
  bd_blink :: blink
  bd_style :: display_style
  bd_panels :: "panel_config list"
  bd_stats :: bool
  bd_record_kb :: nat
  bd_groups :: "check_group list"

subsection \<open>Groups and step panels\<close>

text \<open>The lookup table: inserting in reverse lets the first group of an id win.\<close>

definition groups_by_id :: "check_group list \<Rightarrow> (string, check_group) hash_map" where
  "groups_by_id gs = fold (\<lambda>g. hm_put (cg_id g) g) (rev gs) []"

definition mirror_panel :: "(string, check_group) hash_map \<Rightarrow> panel_config \<Rightarrow> panel_config" where
  "mirror_panel by_id p = (case pn_group p of None \<Rightarrow> p
     | Some gid \<Rightarrow> (case hm_get by_id gid of None \<Rightarrow> p
       | Some g \<Rightarrow> p\<lparr>pn_scenario := cg_scenario g, pn_environment := cg_environment g, pn_interval := cg_interval g\<rparr>))"

definition apply_group_mirror :: "board_config \<Rightarrow> board_config" where
  "apply_group_mirror c = c\<lparr>bd_panels := map (mirror_panel (groups_by_id (bd_groups c))) (bd_panels c)\<rparr>"

definition normalize_step_panel :: "panel_config \<Rightarrow> panel_config" where
  "normalize_step_panel p = (case pn_step p of None \<Rightarrow> p
     | Some sid \<Rightarrow> p\<lparr>pn_latency := LatStep sid,
         pn_conditions := map (\<lambda>c. c\<lparr>wc_step_id := sid\<rparr>) (pn_conditions p),
         pn_display := map (\<lambda>d. d\<lparr>di_step_id := sid\<rparr>) (pn_display p)\<rparr>)"

subsection \<open>Errors\<close>

datatype board_error =
    EName | EPanelCount | EGroupCount
  | EGroupId nat | EGroupDuplicate nat | EGroupScenario nat | EGroupInterval nat | EGroupEmpty nat
  | ENoSuchGroup nat | ENotContiguous nat | EGroupNeedsStep nat
  | EPanel nat board_error
  | EStepId | ETitle | EPanelId | EScenario | EInterval | ETimeout
  | EThresholdCount | EThresholdRange | EThresholdOrder | EThresholdColor | EBars | EGraph
  | EConditionCount | EConditionStep | EConditionOp | EBodyPathLength | EBodyPath | EHeaderLength
  | EValueLength | EContainsEmpty | ENotANumber | ENoCandidate
  | EDisplayCount | EDisplayStep | EDisplayPathLength | EDisplayPath | EDisplayHeaderLength | EAuthHeader
  | EDuplicatePanel | ERecordLimit

type_synonym 'a checked = "board_error + 'a"

text \<open>The libraries: ULID syntax and the engine's JSONPath.\<close>

record board_ops =
  bo_ulid :: "string \<Rightarrow> bool"
  bo_extract :: extract_ops

subsection \<open>Groups\<close>

definition check_step_id :: "board_ops \<Rightarrow> panel_config \<Rightarrow> unit checked" where
  "check_step_id B p = (case pn_step p of Some s \<Rightarrow> if bo_ulid B s then Inr () else Inl EStepId | None \<Rightarrow> Inr ())"

definition in_range :: "nat \<Rightarrow> nat \<Rightarrow> nat \<Rightarrow> bool" where
  "in_range v lo hi \<longleftrightarrow> lo \<le> v \<and> v \<le> hi"

text \<open>The position of the first panel of a group, and one past every position without any.\<close>

fun first_panel :: "panel_config list \<Rightarrow> string \<Rightarrow> nat option" where
  "first_panel [] gid = None"
| "first_panel (p # ps) gid = (if pn_group p = Some gid then Some 0 else map_option Suc (first_panel ps gid))"

definition group_key :: "panel_config list \<Rightarrow> check_group \<Rightarrow> nat" where
  "group_key ps g = (case first_panel ps (cg_id g) of Some i \<Rightarrow> i | None \<Rightarrow> u64_max)"

fun check_groups :: "board_ops \<Rightarrow> panel_config list \<Rightarrow> nat \<Rightarrow> string set \<Rightarrow> check_group list \<Rightarrow> unit checked" where
  "check_groups B ps n seen [] = Inr ()"
| "check_groups B ps n seen (g # gs) =
     (if \<not> bo_ulid B (cg_id g) then Inl (EGroupId n)
      else if cg_id g \<in> seen then Inl (EGroupDuplicate n)
      else if trim (cg_scenario g) = [] then Inl (EGroupScenario n)
      else if \<not> in_range (cg_interval g) 1 3600 then Inl (EGroupInterval n)
      else if \<not> list_ex (\<lambda>p. pn_group p = Some (cg_id g)) ps then Inl (EGroupEmpty n)
      else check_groups B ps (n + 1) (insert (cg_id g) seen) gs)"

fun check_placement ::
  "check_group list \<Rightarrow> nat \<Rightarrow> string set \<Rightarrow> string option \<Rightarrow> panel_config list \<Rightarrow> unit checked"
where
  "check_placement gs n closed prev [] = Inr ()"
| "check_placement gs n closed prev (p # ps) =
     (let cur = pn_group p;
          rest = check_placement gs (n + 1)
            (if prev \<noteq> cur then (case prev of Some pg \<Rightarrow> insert pg closed | None \<Rightarrow> closed) else closed) cur ps
      in case cur of
        None \<Rightarrow> rest
      | Some gid \<Rightarrow>
          if \<not> list_ex (\<lambda>g. cg_id g = gid) gs then Inl (ENoSuchGroup n)
          else if prev \<noteq> Some gid \<and> gid \<in> closed then Inl (ENotContiguous n)
          else if pn_step p = None then Inl (EGroupNeedsStep n)
          else rest)"

definition validate_groups :: "board_ops \<Rightarrow> board_config \<Rightarrow> board_config checked" where
  "validate_groups B c =
     (let gs = sort_key (group_key (bd_panels c)) (bd_groups c) in
      bind_res (check_groups B (bd_panels c) 1 {} gs) (\<lambda>_.
      bind_res (check_placement gs 1 {} None (bd_panels c)) (\<lambda>_. Inr (c\<lparr>bd_groups := gs\<rparr>))))"

subsection \<open>Panels\<close>

definition is_hex_digit :: "char \<Rightarrow> bool" where
  "is_hex_digit c = (let n = byte c in (48 \<le> n \<and> n \<le> 57) \<or> (65 \<le> n \<and> n \<le> 70) \<or> (97 \<le> n \<and> n \<le> 102))"

definition is_hex_color :: "string \<Rightarrow> bool" where
  "is_hex_color s \<longleftrightarrow> length s = 7 \<and> starts_with ''#'' s \<and> list_all is_hex_digit (tl s)"

definition name_ok :: "string \<Rightarrow> bool" where
  "name_ok s \<longleftrightarrow> in_range (char_count s) 1 name_max_chars"

fun check_thresholds :: "nat \<Rightarrow> threshold list \<Rightarrow> unit checked" where
  "check_thresholds prev [] = Inr ()"
| "check_thresholds prev (t # ts) =
     (if \<not> in_range (th_ms t) 1 600000 then Inl EThresholdRange
      else if th_ms t \<le> prev then Inl EThresholdOrder
      else if \<not> is_hex_color (th_color t) then Inl EThresholdColor
      else check_thresholds (th_ms t) ts)"

definition checked_path :: "board_ops \<Rightarrow> success_condition \<Rightarrow> success_condition checked" where
  "checked_path B c = (case wc_source c of
     SrcBody \<Rightarrow>
       if \<not> in_range (char_count (wc_path c)) 1 500 then Inl EBodyPathLength
       else if \<not> jsonpath_is_valid (bo_extract B) (wc_path c) then Inl EBodyPath
       else if \<not> jsonpath_is_simple (wc_path c) then Inl EBodyPath
       else Inr c
   | SrcHeader \<Rightarrow>
       (let path = trim (wc_path c) in
        if \<not> in_range (char_count path) 1 200 then Inl EHeaderLength else Inr (c\<lparr>wc_path := path\<rparr>))
   | _ \<Rightarrow> Inr (c\<lparr>wc_path := []\<rparr>))"

definition clear_unused :: "success_condition \<Rightarrow> success_condition" where
  "clear_unused c =
     (let c1 = (if needs_value (wc_op c) then c else c\<lparr>wc_value := []\<rparr>) in
      if has_flags (wc_op c) then c1 else c1\<lparr>wc_ignore_case := False, wc_trim := False\<rparr>)"

definition is_order :: "condition_op \<Rightarrow> bool" where "is_order p \<longleftrightarrow> p \<in> {CoGt, CoLt, CoGte, CoLte}"

definition checked_value :: "success_condition \<Rightarrow> success_condition checked" where
  "checked_value c =
     (if 200 < char_count (wc_value c) then Inl EValueLength
      else if wc_op c = CoContains \<and> wc_value c = [] then Inl EContainsEmpty
      else if is_order (wc_op c) \<and> parse_finite (wc_value c) = None then Inl ENotANumber
      else if wc_op c = CoOneOf \<and> one_of_candidates (wc_value c) = [] then Inl ENoCandidate
      else Inr c)"

definition validate_condition :: "board_ops \<Rightarrow> success_condition \<Rightarrow> success_condition checked" where
  "validate_condition B c =
     (if \<not> bo_ulid B (wc_step_id c) then Inl EConditionStep
      else if \<not> source_allows (wc_source c) (wc_op c) then Inl EConditionOp
      else bind_res (checked_path B c) (\<lambda>c1. checked_value (clear_unused c1)))"

fun checked_map :: "('a \<Rightarrow> 'b checked) \<Rightarrow> 'a list \<Rightarrow> 'b list checked" where
  "checked_map f [] = Inr []"
| "checked_map f (x # xs) = bind_res (f x) (\<lambda>y. bind_res (checked_map f xs) (\<lambda>ys. Inr (y # ys)))"

definition validate_conditions :: "board_ops \<Rightarrow> success_condition list \<Rightarrow> success_condition list checked" where
  "validate_conditions B cs =
     (if max_conditions < length cs then Inl EConditionCount else checked_map (validate_condition B) cs)"

definition auth_headers :: "string list" where
  "auth_headers = [''set-cookie'', ''cookie'', ''authorization'', ''proxy-authorization'']"

definition validate_display_item :: "board_ops \<Rightarrow> display_item \<Rightarrow> display_item checked" where
  "validate_display_item B d =
     (if \<not> bo_ulid B (di_step_id d) then Inl EDisplayStep
      else case di_source d of
        DisBody \<Rightarrow>
          if \<not> in_range (char_count (di_path d)) 1 500 then Inl EDisplayPathLength
          else if \<not> jsonpath_is_valid (bo_extract B) (di_path d) \<or> \<not> jsonpath_is_simple (di_path d) then Inl EDisplayPath
          else Inr d
      | DisHeader \<Rightarrow>
          (let path = trim (di_path d) in
           if \<not> in_range (char_count path) 1 200 then Inl EDisplayHeaderLength
           else if list_ex (eq_ignore_ascii_case path) auth_headers then Inl EAuthHeader
           else Inr (d\<lparr>di_path := path\<rparr>))
      | DisStatus \<Rightarrow> Inr (d\<lparr>di_path := []\<rparr>))"

definition validate_display_items :: "board_ops \<Rightarrow> display_item list \<Rightarrow> display_item list checked" where
  "validate_display_items B ds =
     (if max_display_items < length ds then Inl EDisplayCount else checked_map (validate_display_item B) ds)"

text \<open>\<open>fresh\<close> is the ULID drawn when the panel has none.\<close>

definition validate_panel :: "board_ops \<Rightarrow> string \<Rightarrow> panel_config \<Rightarrow> panel_config checked" where
  "validate_panel B fresh p =
     (let title = trim (pn_title p); pid = (if pn_id p = [] then fresh else pn_id p) in
      if \<not> name_ok title then Inl ETitle
      else if pn_id p \<noteq> [] \<and> \<not> bo_ulid B (pn_id p) then Inl EPanelId
      else if trim (pn_scenario p) = [] then Inl EScenario
      else if \<not> in_range (pn_interval p) 1 3600 then Inl EInterval
      else if \<not> in_range (pn_timeout p) 1 30 then Inl ETimeout
      else if max_thresholds < length (pn_thresholds p) then Inl EThresholdCount
      else bind_res (check_thresholds 0 (pn_thresholds p)) (\<lambda>_.
        if \<not> in_range (pn_bars p) 10 300 then Inl EBars
        else if \<not> in_range (pn_graph_max p) 100 600000 then Inl EGraph
        else bind_res (validate_conditions B (pn_conditions p)) (\<lambda>cs.
          bind_res (validate_display_items B (pn_display p)) (\<lambda>ds.
            Inr (p\<lparr>pn_title := title, pn_id := pid, pn_conditions := cs, pn_display := ds\<rparr>)))))"

subsection \<open>The board\<close>

definition check_counts :: "board_config \<Rightarrow> unit checked" where
  "check_counts c =
     (if \<not> in_range (length (bd_panels c)) 1 max_panels then Inl EPanelCount
      else if max_panels < length (bd_groups c) then Inl EGroupCount else Inr ())"

text \<open>A panel's error is reported with its number.\<close>

fun number_errors :: "(nat \<Rightarrow> 'a \<Rightarrow> 'b checked) \<Rightarrow> nat \<Rightarrow> 'a list \<Rightarrow> 'b list checked" where
  "number_errors f n [] = Inr []"
| "number_errors f n (x # xs) = (case f n x of
     Inl e \<Rightarrow> Inl (EPanel (n + 1) e)
   | Inr y \<Rightarrow> bind_res (number_errors f (n + 1) xs) (\<lambda>ys. Inr (y # ys)))"

definition record_limit_ok :: "nat \<Rightarrow> bool" where "record_limit_ok kb = in_range kb 16 1024"

definition validate_and_normalize ::
  "board_ops \<Rightarrow> (nat \<Rightarrow> string) \<Rightarrow> string \<Rightarrow> board_config \<Rightarrow> (string \<times> board_config) checked"
where
  "validate_and_normalize B fresh name c =
     (let nm = trim name in
      if \<not> name_ok nm then Inl EName
      else bind_res (check_counts c) (\<lambda>_.
      bind_res (validate_groups B c) (\<lambda>c1.
      bind_res (number_errors (\<lambda>_. check_step_id B) 0 (bd_panels c1)) (\<lambda>_.
      let c2 = apply_group_mirror c1; ps2 = map normalize_step_panel (bd_panels c2) in
      bind_res (number_errors (\<lambda>i. validate_panel B (fresh i)) 0 ps2) (\<lambda>ps3.
        if \<not> distinct (map pn_id ps3) then Inl EDuplicatePanel
        else if \<not> record_limit_ok (bd_record_kb c2) then Inl ERecordLimit
        else Inr (nm, c2\<lparr>bd_panels := ps3\<rparr>))))))"

end
