(* ===== verification/Monitor_Config_Props.thy ===== *)
theory Monitor_Config_Props
  imports Monitor_Config
begin

text \<open>
  The well-formed boards are exactly the fixed points of the validation: whatever it accepts is well-formed
  afterwards, and a well-formed board passes unchanged.
\<close>

subsection \<open>Trimming twice\<close>

lemma trim_start_idem [simp]: "trim_start (trim_start s) = trim_start s"
  by (induction s rule: trim_start.induct) auto

lemma trim_end_rev_idem [simp]: "trim_end_rev (trim_end_rev s) = trim_end_rev s"
  by (induction s rule: trim_end_rev.induct) auto

definition starts_ws :: "string \<Rightarrow> bool" where
  "starts_ws s \<longleftrightarrow> (\<exists>a r. s = a # r \<and> ws1 a) \<or> (\<exists>a b r. s = a # b # r \<and> ws2 a b) \<or> (\<exists>a b c r. s = a # b # c # r \<and> ws3 a b c)"

lemma trim_start_fixed: "trim_start s = s \<longleftrightarrow> \<not> starts_ws s"
proof (induction s rule: trim_start.induct)
  case (4 a b c s)
  have "length (trim_start t) < length (a # b # c # s)" if "length t < 3 + length s" for t
    using length_trim_start [of t] that by simp
  then have n: "trim_start t \<noteq> a # b # c # s" if "length t < 3 + length s" for t
    using that by (metis less_irrefl)
  show ?case using n [of "b # c # s"] n [of "c # s"] n [of s] by (auto simp: starts_ws_def)
next
  case (3 a b)
  have "trim_start [b] \<noteq> [a, b]" by simp
  then show ?case by (auto simp: starts_ws_def simp del: trim_start.simps(2))
qed (auto simp: starts_ws_def)

lemma starts_ws_append: "starts_ws s \<Longrightarrow> starts_ws (s @ t)"
  unfolding starts_ws_def by auto

lemma trim_idem [simp]: "trim (trim s) = trim s"
proof -
  let ?t = "trim_start s"
  have "trim_end (trim_end ?t) = trim_end ?t" by (simp add: trim_end_def)
  moreover have "trim_start (trim_end ?t) = trim_end ?t"
  proof -
    obtain p where "rev ?t = p @ trim_end_rev (rev ?t)" using trim_end_rev_suffix by blast
    then have "?t = trim_end ?t @ rev p" unfolding trim_end_def by (metis rev_append rev_rev_ident)
    moreover have "\<not> starts_ws ?t" using trim_start_fixed [of ?t] by simp
    ultimately show ?thesis using starts_ws_append trim_start_fixed by metis
  qed
  ultimately show ?thesis by (simp add: trim_def)
qed

subsection \<open>Validators and their fixed points\<close>

text \<open>A validator that normalizes: its results are well-formed, and the well-formed pass unchanged.\<close>

locale normalizer =
  fixes v :: "'a \<Rightarrow> 'a checked" and ok :: "'a \<Rightarrow> bool"
  assumes sound: "v x = Inr y \<Longrightarrow> ok y"
    and fixed: "ok x \<Longrightarrow> v x = Inr x"
begin

lemma idempotent: "v x = Inr y \<Longrightarrow> v y = Inr y"
  using sound fixed by blast

lemma map_sound: "checked_map v xs = Inr ys \<Longrightarrow> list_all ok ys"
  by (induction xs arbitrary: ys) (auto simp: bind_res_Inr intro: sound)

lemma map_fixed: "list_all ok xs \<Longrightarrow> checked_map v xs = Inr xs"
  by (induction xs) (auto simp: fixed)

end

lemma checked_map_keeps:
  assumes "\<And>x y. v x = Inr y \<Longrightarrow> k y = k x"
  shows "checked_map v xs = Inr ys \<Longrightarrow> map k ys = map k xs"
  by (induction xs arbitrary: ys) (auto simp: bind_res_Inr assms)

definition path_ok :: "board_ops \<Rightarrow> success_condition \<Rightarrow> bool" where
  "path_ok B c \<longleftrightarrow> (case wc_source c of
     SrcBody \<Rightarrow> in_range (char_count (wc_path c)) 1 500 \<and> jsonpath_is_valid (bo_extract B) (wc_path c) \<and> jsonpath_is_simple (wc_path c)
   | SrcHeader \<Rightarrow> in_range (char_count (wc_path c)) 1 200 \<and> trim (wc_path c) = wc_path c
   | _ \<Rightarrow> wc_path c = [])"

definition unused_clear :: "success_condition \<Rightarrow> bool" where
  "unused_clear c \<longleftrightarrow> (needs_value (wc_op c) \<or> wc_value c = []) \<and> (has_flags (wc_op c) \<or> \<not> wc_ignore_case c \<and> \<not> wc_trim c)"

definition value_ok :: "success_condition \<Rightarrow> bool" where
  "value_ok c \<longleftrightarrow> char_count (wc_value c) \<le> 200 \<and> (wc_op c = CoContains \<longrightarrow> wc_value c \<noteq> [])
     \<and> (is_order (wc_op c) \<longrightarrow> parse_finite (wc_value c) \<noteq> None) \<and> (wc_op c = CoOneOf \<longrightarrow> one_of_candidates (wc_value c) \<noteq> [])"

definition condition_ok :: "board_ops \<Rightarrow> success_condition \<Rightarrow> bool" where
  "condition_ok B c \<longleftrightarrow> bo_ulid B (wc_step_id c) \<and> source_allows (wc_source c) (wc_op c) \<and> path_ok B c \<and> unused_clear c \<and> value_ok c"

lemma checked_path_cases:
  "checked_path B c = Inr c' \<Longrightarrow> path_ok B c' \<and> wc_step_id c' = wc_step_id c \<and> wc_source c' = wc_source c \<and> wc_op c' = wc_op c"
  by (auto simp: checked_path_def path_ok_def Let_def split: if_splits condition_source.splits)

lemma checked_path_ok: "path_ok B c \<Longrightarrow> checked_path B c = Inr c"
  by (auto simp: checked_path_def path_ok_def split: condition_source.splits)

lemma clear_unused_keeps: "wc_step_id (clear_unused c) = wc_step_id c" "wc_source (clear_unused c) = wc_source c"
    "wc_op (clear_unused c) = wc_op c" "wc_path (clear_unused c) = wc_path c" "unused_clear (clear_unused c)"
  by (simp_all add: clear_unused_def unused_clear_def Let_def)

lemma clear_unused_ok: "unused_clear c \<Longrightarrow> clear_unused c = c"
  by (auto simp: clear_unused_def unused_clear_def Let_def)

lemma checked_value_iff: "checked_value c = Inr c' \<longleftrightarrow> c' = c \<and> value_ok c"
  by (auto simp: checked_value_def value_ok_def)

lemma validate_condition_keeps: "validate_condition B c = Inr c' \<Longrightarrow> wc_step_id c' = wc_step_id c"
  by (auto simp: validate_condition_def bind_res_Inr checked_value_iff clear_unused_keeps dest!: checked_path_cases split: if_splits)

interpretation wall_condition: normalizer "validate_condition B" "condition_ok B" for B
proof
  fix c c' assume v: "validate_condition B c = Inr c'"
  then obtain c1 where c1: "bo_ulid B (wc_step_id c)" "source_allows (wc_source c) (wc_op c)" "checked_path B c = Inr c1"
    "c' = clear_unused c1" "value_ok c'"
    by (auto simp: validate_condition_def bind_res_Inr checked_value_iff split: if_splits)
  note p = checked_path_cases [OF c1(3)]
  have "path_ok B c'" using p unfolding c1(4) path_ok_def clear_unused_keeps by blast
  then show "condition_ok B c'" using c1 p by (simp add: condition_ok_def clear_unused_keeps)
next
  show "condition_ok B c \<Longrightarrow> validate_condition B c = Inr c" for c
    by (simp add: validate_condition_def condition_ok_def checked_path_ok clear_unused_ok checked_value_iff)
qed

definition item_ok :: "board_ops \<Rightarrow> display_item \<Rightarrow> bool" where
  "item_ok B d \<longleftrightarrow> bo_ulid B (di_step_id d)
     \<and> (case di_source d of
          DisBody \<Rightarrow> in_range (char_count (di_path d)) 1 500 \<and> jsonpath_is_valid (bo_extract B) (di_path d) \<and> jsonpath_is_simple (di_path d)
        | DisHeader \<Rightarrow> in_range (char_count (di_path d)) 1 200 \<and> trim (di_path d) = di_path d
            \<and> \<not> list_ex (eq_ignore_ascii_case (di_path d)) auth_headers
        | DisStatus \<Rightarrow> di_path d = [])"

lemma validate_item_keeps: "validate_display_item B d = Inr d' \<Longrightarrow> di_step_id d' = di_step_id d"
  by (auto simp: validate_display_item_def Let_def split: if_splits display_source.splits)

interpretation wall_item: normalizer "validate_display_item B" "item_ok B" for B
proof
  show "validate_display_item B d = Inr d' \<Longrightarrow> item_ok B d'" for d d'
    by (auto simp: validate_display_item_def item_ok_def Let_def split: if_splits display_source.splits)
  show "item_ok B d \<Longrightarrow> validate_display_item B d = Inr d" for d
    by (auto simp: validate_display_item_def item_ok_def split: display_source.splits)
qed


subsection \<open>Panels\<close>

fun thresholds_ok :: "nat \<Rightarrow> threshold list \<Rightarrow> bool" where
  "thresholds_ok prev [] = True"
| "thresholds_ok prev (t # ts) \<longleftrightarrow> prev < th_ms t \<and> th_ms t \<le> 600000 \<and> is_hex_color (th_color t) \<and> thresholds_ok (th_ms t) ts"

lemma check_thresholds_iff: "check_thresholds prev ts = Inr u \<longleftrightarrow> thresholds_ok prev ts"
  by (induction prev ts rule: check_thresholds.induct) (auto simp: in_range_def)

text \<open>What holds of a stored panel: its ranges and names, its conditions and items, and, for a step
  panel, that everything in it looks at that step.\<close>

definition panel_fields_ok :: "board_ops \<Rightarrow> panel_config \<Rightarrow> bool" where
  "panel_fields_ok B p \<longleftrightarrow> name_ok (pn_title p) \<and> trim (pn_title p) = pn_title p \<and> pn_id p \<noteq> [] \<and> bo_ulid B (pn_id p)
     \<and> trim (pn_scenario p) \<noteq> [] \<and> in_range (pn_interval p) 1 3600 \<and> in_range (pn_timeout p) 1 30
     \<and> length (pn_thresholds p) \<le> max_thresholds \<and> thresholds_ok 0 (pn_thresholds p)
     \<and> in_range (pn_bars p) 10 300 \<and> in_range (pn_graph_max p) 100 600000
     \<and> length (pn_conditions p) \<le> max_conditions \<and> list_all (condition_ok B) (pn_conditions p)
     \<and> length (pn_display p) \<le> max_display_items \<and> list_all (item_ok B) (pn_display p)"

definition step_panel_ok :: "panel_config \<Rightarrow> bool" where
  "step_panel_ok p \<longleftrightarrow> (\<forall>sid. pn_step p = Some sid \<longrightarrow> pn_latency p = LatStep sid
     \<and> list_all (\<lambda>c. wc_step_id c = sid) (pn_conditions p) \<and> list_all (\<lambda>d. di_step_id d = sid) (pn_display p))"

lemma checked_map_length: "checked_map v xs = Inr ys \<Longrightarrow> length ys = length xs"
  by (induction xs arbitrary: ys) (auto simp: bind_res_Inr)

lemma validate_panel_sound:
  assumes v: "validate_panel B fresh p = Inr q" and fresh: "fresh \<noteq> []" "bo_ulid B fresh"
  shows "panel_fields_ok B q" "pn_group q = pn_group p" "pn_step q = pn_step p" "pn_latency q = pn_latency p"
    "pn_scenario q = pn_scenario p" "pn_environment q = pn_environment p" "pn_interval q = pn_interval p"
    "map wc_step_id (pn_conditions q) = map wc_step_id (pn_conditions p)"
    "map di_step_id (pn_display q) = map di_step_id (pn_display p)"
proof -
  let ?q = "\<lambda>cs ds. p\<lparr>pn_title := trim (pn_title p), pn_id := (if pn_id p = [] then fresh else pn_id p),
     pn_conditions := cs, pn_display := ds\<rparr>"
  from v obtain cs ds where g: "name_ok (trim (pn_title p))" "pn_id p \<noteq> [] \<longrightarrow> bo_ulid B (pn_id p)" "trim (pn_scenario p) \<noteq> []"
    "in_range (pn_interval p) 1 3600" "in_range (pn_timeout p) 1 30" "length (pn_thresholds p) \<le> max_thresholds"
    "thresholds_ok 0 (pn_thresholds p)" "in_range (pn_bars p) 10 300" "in_range (pn_graph_max p) 100 600000"
    and cs: "validate_conditions B (pn_conditions p) = Inr cs" and ds: "validate_display_items B (pn_display p) = Inr ds"
    and q: "q = ?q cs ds"
    by (auto simp: validate_panel_def Let_def bind_res_Inr check_thresholds_iff split: if_splits)
  from cs have c: "length (pn_conditions p) \<le> max_conditions" "checked_map (validate_condition B) (pn_conditions p) = Inr cs"
    by (auto simp: validate_conditions_def split: if_splits)
  from ds have d: "length (pn_display p) \<le> max_display_items" "checked_map (validate_display_item B) (pn_display p) = Inr ds"
    by (auto simp: validate_display_items_def split: if_splits)
  show "panel_fields_ok B q"
    using g c(1) d(1) fresh checked_map_length [OF c(2)] checked_map_length [OF d(2)] wall_condition.map_sound [OF c(2)]
      wall_item.map_sound [OF d(2)]
    by (auto simp: q panel_fields_ok_def)
  show "pn_group q = pn_group p" "pn_step q = pn_step p" "pn_latency q = pn_latency p"
    "pn_scenario q = pn_scenario p" "pn_environment q = pn_environment p" "pn_interval q = pn_interval p"
    by (simp_all add: q)
  show "map wc_step_id (pn_conditions q) = map wc_step_id (pn_conditions p)"
    using checked_map_keeps [OF validate_condition_keeps c(2)] by (simp add: q)
  show "map di_step_id (pn_display q) = map di_step_id (pn_display p)"
    using checked_map_keeps [OF validate_item_keeps d(2)] by (simp add: q)
qed

lemma validate_panel_fixed: "panel_fields_ok B p \<Longrightarrow> validate_panel B fresh p = Inr p"
  by (auto simp: panel_fields_ok_def validate_panel_def Let_def check_thresholds_iff [where u = "()", THEN iffD2] validate_conditions_def
      validate_display_items_def wall_condition.map_fixed wall_item.map_fixed)

lemma normalize_step_ok: "step_panel_ok (normalize_step_panel p)"
  by (auto simp: step_panel_ok_def normalize_step_panel_def list_all_iff split: option.splits)

lemma map_const_id: "(\<And>x. x \<in> set xs \<Longrightarrow> f x = x) \<Longrightarrow> map f xs = xs"
  by (induction xs) auto

lemma normalize_step_fixed: "step_panel_ok p \<Longrightarrow> normalize_step_panel p = p"
  by (auto simp: step_panel_ok_def normalize_step_panel_def list_all_iff map_const_id split: option.splits)

lemma list_all_via_map: "map k ys = map k xs \<Longrightarrow> list_all (\<lambda>x. k x = a) xs \<Longrightarrow> list_all (\<lambda>x. k x = a) ys"
  by (metis (mono_tags, lifting) list_all_length length_map nth_map)

lemma step_ok_validated:
  assumes "validate_panel B fresh p = Inr q" "fresh \<noteq> []" "bo_ulid B fresh" "step_panel_ok p"
  shows "step_panel_ok q"
proof -
  note k = validate_panel_sound [OF assms(1-3)]
  show ?thesis using assms(4) list_all_via_map [OF k(8)] list_all_via_map [OF k(9)] unfolding step_panel_ok_def k(3,4) by blast
qed

subsection \<open>Groups\<close>

text \<open>A group does not come back once another panel followed it.\<close>

fun contiguous :: "string option list \<Rightarrow> bool" where
  "contiguous [] = True"
| "contiguous (x # xs) \<longleftrightarrow> (x = None \<or> x \<notin> set (dropWhile (\<lambda>y. y = x) xs)) \<and> contiguous xs"

definition groups_ok :: "board_ops \<Rightarrow> panel_config list \<Rightarrow> check_group list \<Rightarrow> bool" where
  "groups_ok B ps gs \<longleftrightarrow> distinct (map cg_id gs) \<and> sorted (map (group_key ps) gs)
     \<and> (\<forall>g \<in> set gs. bo_ulid B (cg_id g) \<and> trim (cg_scenario g) \<noteq> [] \<and> in_range (cg_interval g) 1 3600
          \<and> Some (cg_id g) \<in> pn_group ` set ps)
     \<and> contiguous (map pn_group ps)
     \<and> (\<forall>p \<in> set ps. \<forall>gid. pn_group p = Some gid \<longrightarrow> gid \<in> cg_id ` set gs \<and> pn_step p \<noteq> None)"

lemma check_groups_iff:
  "check_groups B ps n seen gs = Inr u \<longleftrightarrow> distinct (map cg_id gs) \<and> cg_id ` set gs \<inter> seen = {}
     \<and> (\<forall>g \<in> set gs. bo_ulid B (cg_id g) \<and> trim (cg_scenario g) \<noteq> [] \<and> in_range (cg_interval g) 1 3600
          \<and> Some (cg_id g) \<in> pn_group ` set ps)"
proof (induction B ps n seen gs rule: check_groups.induct)
  case (2 B ps n seen g gs)
  have ex: "list_ex (\<lambda>p. pn_group p = Some (cg_id g)) ps \<longleftrightarrow> Some (cg_id g) \<in> pn_group ` set ps"
    by (auto simp: list_ex_iff image_iff) (metis)
  show ?case
  proof (cases "bo_ulid B (cg_id g) \<and> cg_id g \<notin> seen \<and> trim (cg_scenario g) \<noteq> [] \<and> in_range (cg_interval g) 1 3600
      \<and> Some (cg_id g) \<in> pn_group ` set ps")
    case True
    then show ?thesis using 2 ex by (auto simp del: One_nat_def)
  next
    case False
    then show ?thesis using ex by auto
  qed
qed simp

definition placed :: "check_group list \<Rightarrow> panel_config \<Rightarrow> bool" where
  "placed gs p \<longleftrightarrow> (\<forall>gid. pn_group p = Some gid \<longrightarrow> gid \<in> cg_id ` set gs \<and> pn_step p \<noteq> None)"

lemma check_placement_iff:
  "(\<And>g. prev = Some g \<Longrightarrow> g \<notin> closed) \<Longrightarrow>
   check_placement gs n closed prev ps = Inr u \<longleftrightarrow>
     list_all (placed gs) ps \<and> contiguous (map pn_group ps) \<and> Some ` closed \<inter> pn_group ` set ps = {}
     \<and> (prev = None \<or> prev \<notin> set (dropWhile (\<lambda>y. y = prev) (map pn_group ps)))"
proof (induction gs n closed prev ps rule: check_placement.induct)
  case (2 gs n closed prev p ps)
  let ?cur = "pn_group p"
  let ?closed = "if prev \<noteq> ?cur then (case prev of Some pg \<Rightarrow> insert pg closed | None \<Rightarrow> closed) else closed"
  have inv: "\<And>g. ?cur = Some g \<Longrightarrow> \<not> (prev \<noteq> Some g \<and> g \<in> closed) \<Longrightarrow> g \<notin> ?closed"
    using 2(2) by (auto split: option.splits if_splits)
  show ?case
  proof (cases ?cur)
    case None
    have IH: "check_placement gs (n + 1) ?closed ?cur ps = Inr u \<longleftrightarrow> list_all (placed gs) ps \<and> contiguous (map pn_group ps)
        \<and> Some ` ?closed \<inter> pn_group ` set ps = {} \<and> (?cur = None \<or> ?cur \<notin> set (dropWhile (\<lambda>y. y = ?cur) (map pn_group ps)))"
      using None by (intro 2(1)) auto
    have "placed gs p" using None by (simp add: placed_def)
    then show ?thesis using IH None 2(2) by (auto simp: Let_def split: option.splits if_splits)
  next
    case (Some gid)
    have ex: "list_ex (\<lambda>g. cg_id g = gid) gs \<longleftrightarrow> gid \<in> cg_id ` set gs" by (auto simp: list_ex_iff image_iff)
    show ?thesis
    proof (cases "gid \<in> cg_id ` set gs \<and> \<not> (prev \<noteq> Some gid \<and> gid \<in> closed) \<and> pn_step p \<noteq> None")
      case True
      have IH: "check_placement gs (n + 1) ?closed ?cur ps = Inr u \<longleftrightarrow> list_all (placed gs) ps \<and> contiguous (map pn_group ps)
        \<and> Some ` ?closed \<inter> pn_group ` set ps = {} \<and> (?cur = None \<or> ?cur \<notin> set (dropWhile (\<lambda>y. y = ?cur) (map pn_group ps)))"
        using inv True Some by (intro 2(1)) auto
      have run: "check_placement gs n closed prev (p # ps) = check_placement gs (n + 1) ?closed ?cur ps"
        using True Some ex by (auto simp: Let_def)
      have "placed gs p" using True Some by (simp add: placed_def)
      then show ?thesis unfolding run IH using True Some 2(2) by (auto split: option.splits if_splits)
    next
      case False
      have "check_placement gs n closed prev (p # ps) \<noteq> Inr u" using False Some ex by (auto simp: Let_def)
      moreover have "\<not> (list_all (placed gs) (p # ps) \<and> Some ` closed \<inter> pn_group ` set (p # ps) = {})"
        using False Some by (auto simp: placed_def)
      ultimately show ?thesis by blast
    qed
  qed
qed simp

lemma validate_groups_iff:
  "validate_groups B c = Inr c' \<longleftrightarrow>
     c' = c\<lparr>bd_groups := sort_key (group_key (bd_panels c)) (bd_groups c)\<rparr> \<and> groups_ok B (bd_panels c) (bd_groups c')"
proof -
  have p: "check_placement gs 1 {} None ps = Inr u \<longleftrightarrow> list_all (placed gs) ps \<and> contiguous (map pn_group ps)" for gs ps u
    by (subst check_placement_iff) auto
  show ?thesis
    unfolding validate_groups_def Let_def bind_res_Inr check_groups_iff p
    by (auto simp: groups_ok_def placed_def list_all_iff)
qed


subsection \<open>The board\<close>

lemma first_panel_groups: "map pn_group ps = map pn_group qs \<Longrightarrow> first_panel ps gid = first_panel qs gid"
proof (induction ps arbitrary: qs)
  case (Cons p ps)
  then obtain q qs' where "qs = q # qs'" "pn_group p = pn_group q" "map pn_group ps = map pn_group qs'" by (cases qs) auto
  then show ?case using Cons.IH by simp
qed simp

lemma group_key_groups: "map pn_group ps = map pn_group qs \<Longrightarrow> group_key ps = group_key qs"
proof -
  assume a: "map pn_group ps = map pn_group qs"
  show ?thesis by (rule ext) (simp only: group_key_def first_panel_groups [OF a])
qed

text \<open>The group of an id, and the panels that show it: a panel of a group carries the group's scenario,
  environment and interval.\<close>

definition mirrored :: "check_group list \<Rightarrow> panel_config \<Rightarrow> bool" where
  "mirrored gs p \<longleftrightarrow> (\<forall>g \<in> set gs. pn_group p = Some (cg_id g) \<longrightarrow>
     pn_scenario p = cg_scenario g \<and> pn_environment p = cg_environment g \<and> pn_interval p = cg_interval g)"

lemma groups_by_id_get: "distinct (map cg_id gs) \<Longrightarrow> hm_get (groups_by_id gs) gid = find (\<lambda>g. cg_id g = gid) gs"
proof -
  have get: "hm_get (fold (\<lambda>g. hm_put (cg_id g) g) hs m) gid = (case find (\<lambda>g. cg_id g = gid) (rev hs) of Some g \<Rightarrow> Some g | None \<Rightarrow> hm_get m gid)"
    for hs and m :: "(string, check_group) hash_map"
    by (induction hs rule: rev_induct) (auto simp: hm_get_put)
  have "hm_get ([] :: (string, check_group) hash_map) gid = None" by (simp add: hm_get_def)
  then show ?thesis by (simp add: groups_by_id_def get split: option.split)
qed

lemma find_group: "distinct (map cg_id gs) \<Longrightarrow> g \<in> set gs \<Longrightarrow> find (\<lambda>h. cg_id h = cg_id g) gs = Some g"
  by (induction gs) (auto simp: image_iff)

lemma mirror_panel_keeps: "pn_group (mirror_panel m p) = pn_group p" "pn_step (mirror_panel m p) = pn_step p"
  "pn_id (mirror_panel m p) = pn_id p"
  by (auto simp: mirror_panel_def split: option.split)

lemma mirror_panel_mirrored: "distinct (map cg_id gs) \<Longrightarrow> mirrored gs (mirror_panel (groups_by_id gs) p)"
  by (auto simp: mirrored_def mirror_panel_keeps) (auto simp: mirror_panel_def groups_by_id_get find_group)

lemma mirror_panel_fixed: "distinct (map cg_id gs) \<Longrightarrow> mirrored gs p \<Longrightarrow> mirror_panel (groups_by_id gs) p = p"
proof -
  assume d: "distinct (map cg_id gs)" and m: "mirrored gs p"
  show ?thesis
  proof (cases "\<exists>g \<in> set gs. pn_group p = Some (cg_id g)")
    case True
    then obtain g where g: "g \<in> set gs" "pn_group p = Some (cg_id g)" by blast
    then have "cg_scenario g = pn_scenario p" "cg_environment g = pn_environment p" "cg_interval g = pn_interval p"
      using m by (auto simp: mirrored_def)
    then show ?thesis using g d by (simp add: mirror_panel_def groups_by_id_get find_group)
  next
    case False
    then have "find (\<lambda>g. cg_id g = gid) gs = None" if "pn_group p = Some gid" for gid
      using that by (auto simp: find_None_iff)
    then show ?thesis using d by (simp add: mirror_panel_def groups_by_id_get split: option.split)
  qed
qed

lemma normalize_step_keeps: "pn_group (normalize_step_panel p) = pn_group p" "pn_step (normalize_step_panel p) = pn_step p"
  "pn_scenario (normalize_step_panel p) = pn_scenario p" "pn_environment (normalize_step_panel p) = pn_environment p"
  "pn_interval (normalize_step_panel p) = pn_interval p"
  by (auto simp: normalize_step_panel_def split: option.split)

lemma number_errors_Inr:
  "number_errors f n xs = Inr ys \<Longrightarrow> length ys = length xs \<and> (\<forall>k < length xs. f (n + k) (xs ! k) = Inr (ys ! k))"
proof (induction f n xs arbitrary: ys rule: number_errors.induct)
  case (2 f n x xs)
  then obtain y ys' where y: "f n x = Inr y" "number_errors f (n + 1) xs = Inr ys'" "ys = y # ys'"
    by (auto simp: bind_res_Inr split: sum.splits)
  have IH: "length ys' = length xs \<and> (\<forall>k < length xs. f (n + 1 + k) (xs ! k) = Inr (ys' ! k))" using 2(1) [OF y(1,2)] .
  show ?case
  proof (intro conjI allI impI)
    show "length ys = length (x # xs)" using IH y(3) by simp
    fix k assume "k < length (x # xs)"
    then show "f (n + k) ((x # xs) ! k) = Inr (ys ! k)" using IH y by (cases k) auto
  qed
qed simp

lemma number_errors_fixed: "(\<And>k. k < length xs \<Longrightarrow> f (n + k) (xs ! k) = Inr (ys ! k)) \<Longrightarrow> length ys = length xs \<Longrightarrow> number_errors f n xs = Inr ys"
proof (induction f n xs arbitrary: ys rule: number_errors.induct)
  case (2 f n x xs)
  obtain y ys' where ys: "ys = y # ys'" using 2(3) by (cases ys) auto
  have y: "f n x = Inr y" using 2(2) [of 0] ys by simp
  have "number_errors f (n + 1) xs = Inr ys'"
  proof (rule 2(1) [OF y])
    show "f (n + 1 + k) (xs ! k) = Inr (ys' ! k)" if "k < length xs" for k using 2(2) [of "Suc k"] that ys by simp
    show "length ys' = length xs" using 2(3) ys by simp
  qed
  then show ?case using y ys by simp
qed simp

definition board_ok :: "board_ops \<Rightarrow> board_config \<Rightarrow> bool" where
  "board_ok B c \<longleftrightarrow> in_range (length (bd_panels c)) 1 max_panels \<and> length (bd_groups c) \<le> max_panels
     \<and> groups_ok B (bd_panels c) (bd_groups c)
     \<and> list_all (\<lambda>p. panel_fields_ok B p \<and> step_panel_ok p \<and> mirrored (bd_groups c) p
           \<and> (\<forall>sid. pn_step p = Some sid \<longrightarrow> bo_ulid B sid)) (bd_panels c)
     \<and> distinct (map pn_id (bd_panels c)) \<and> record_limit_ok (bd_record_kb c)"

lemma groups_ok_groups:
  "map pn_group ps = map pn_group qs \<Longrightarrow> map pn_step ps = map pn_step qs \<Longrightarrow> groups_ok B ps gs \<Longrightarrow> groups_ok B qs gs"
proof -
  assume a: "map pn_group ps = map pn_group qs" "map pn_step ps = map pn_step qs" and ok: "groups_ok B ps gs"
  have len: "length qs = length ps" using a(1) by (metis length_map)
  have k: "pn_group (qs ! i) = pn_group (ps ! i) \<and> pn_step (qs ! i) = pn_step (ps ! i)" if "i < length ps" for i
    using a that len by (metis nth_map)
  have im: "pn_group ` set qs = pn_group ` set ps" using a(1) by (metis set_map)
  have pl: "list_all (placed gs) qs"
    using ok k len unfolding list_all_length placed_def groups_ok_def by (metis nth_mem)
  show ?thesis
    using ok pl unfolding groups_ok_def im [symmetric] a(1) [symmetric] group_key_groups [OF a(1), symmetric]
    by (auto simp: im list_all_iff placed_def)
qed

lemma check_step_id_iff: "check_step_id B p = Inr u \<longleftrightarrow> (\<forall>sid. pn_step p = Some sid \<longrightarrow> bo_ulid B sid)"
  by (auto simp: check_step_id_def split: option.splits)

lemma validated_board:
  assumes v: "validate_and_normalize B fresh name c = Inr (nm, c')"
    and fresh: "\<And>i. bo_ulid B (fresh i)" and empty: "\<not> bo_ulid B []"
  shows "board_ok B c'" "name_ok nm" "trim nm = nm" "length (bd_panels c') = length (bd_panels c)"
    "map pn_group (bd_panels c') = map pn_group (bd_panels c)" "map pn_step (bd_panels c') = map pn_step (bd_panels c)"
    "bd_groups c' = sort_key (group_key (bd_panels c)) (bd_groups c)"
proof -
  define gs where "gs = sort_key (group_key (bd_panels c)) (bd_groups c)"
  define ps2 where "ps2 = map normalize_step_panel (map (mirror_panel (groups_by_id gs)) (bd_panels c))"
  have fr: "fresh i \<noteq> [] \<and> bo_ulid B (fresh i)" for i using fresh [of i] empty by metis
  from v obtain us ps3 where n: "nm = trim name" "name_ok nm" and cnt: "check_counts c = Inr ()"
    and gr: "groups_ok B (bd_panels c) gs" and st: "number_errors (\<lambda>_. check_step_id B) 0 (bd_panels c) = Inr us"
    and p3: "number_errors (\<lambda>i. validate_panel B (fresh i)) 0 ps2 = Inr ps3"
    and d: "distinct (map pn_id ps3)" "record_limit_ok (bd_record_kb c)"
    and c': "c' = c\<lparr>bd_groups := gs, bd_panels := ps3\<rparr>"
    by (auto simp: validate_and_normalize_def Let_def bind_res_Inr validate_groups_iff gs_def ps2_def apply_group_mirror_def split: if_splits)
  note p3 = number_errors_Inr [OF p3] and st = number_errors_Inr [OF st]
  have len: "length ps2 = length (bd_panels c)" "length ps3 = length (bd_panels c)" using p3 by (simp_all add: ps2_def)
  have dist: "distinct (map cg_id gs)" using gr by (simp add: groups_ok_def)
  have one: "panel_fields_ok B (ps3 ! k) \<and> step_panel_ok (ps3 ! k) \<and> mirrored gs (ps3 ! k)
      \<and> pn_group (ps3 ! k) = pn_group (bd_panels c ! k) \<and> pn_step (ps3 ! k) = pn_step (bd_panels c ! k)
      \<and> (\<forall>sid. pn_step (ps3 ! k) = Some sid \<longrightarrow> bo_ulid B sid)" if k: "k < length (bd_panels c)" for k
  proof -
    let ?p = "mirror_panel (groups_by_id gs) (bd_panels c ! k)"
    have p2: "ps2 ! k = normalize_step_panel ?p" using k by (simp add: ps2_def)
    have vp: "validate_panel B (fresh (0 + k)) (ps2 ! k) = Inr (ps3 ! k)" using p3 k len by simp
    note s = validate_panel_sound [OF vp fr [THEN conjunct1] fr [THEN conjunct2]]
    have "step_panel_ok (ps3 ! k)" using step_ok_validated [OF vp fr [THEN conjunct1] fr [THEN conjunct2]] normalize_step_ok p2 by simp
    moreover have "mirrored gs (ps3 ! k)"
      using mirror_panel_mirrored [OF dist, of "bd_panels c ! k"] unfolding mirrored_def s(2,5,6,7) p2 normalize_step_keeps .
    moreover have "pn_group (ps3 ! k) = pn_group (bd_panels c ! k)" "pn_step (ps3 ! k) = pn_step (bd_panels c ! k)"
      unfolding s(2,3) p2 normalize_step_keeps mirror_panel_keeps by simp_all
    moreover have "check_step_id B (bd_panels c ! k) = Inr (us ! k)" using st k by simp
    ultimately show ?thesis using s(1) by (auto simp: check_step_id_iff)
  qed
  show g: "map pn_group (bd_panels c') = map pn_group (bd_panels c)" "map pn_step (bd_panels c') = map pn_step (bd_panels c)"
    using one len by (auto simp: c' intro!: nth_equalityI)
  have "groups_ok B ps3 gs" using groups_ok_groups [OF _ _ gr] g by (simp add: c')
  moreover have "in_range (length (bd_panels c)) 1 max_panels \<and> length (bd_groups c) \<le> max_panels"
    using cnt by (auto simp: check_counts_def split: if_splits)
  moreover have "length gs = length (bd_groups c)" by (simp add: gs_def)
  ultimately show "board_ok B c'" using one len d unfolding board_ok_def list_all_length by (simp add: c')
  show "name_ok nm" "trim nm = nm" "length (bd_panels c') = length (bd_panels c)" "bd_groups c' = sort_key (group_key (bd_panels c)) (bd_groups c)"
    using n len by (simp_all add: c' gs_def)
qed

lemma board_ok_fixed:
  assumes ok: "board_ok B c" and nm: "name_ok nm" "trim nm = nm"
  shows "validate_and_normalize B fresh nm c = Inr (nm, c)"
proof -
  have g: "groups_ok B (bd_panels c) (bd_groups c)" using ok by (simp add: board_ok_def)
  have srt: "sort_key (group_key (bd_panels c)) (bd_groups c) = bd_groups c"
    using g by (intro sort_key_id_if_sorted) (simp add: groups_ok_def)
  have vg: "validate_groups B c = Inr c" using g by (simp add: validate_groups_iff srt)
  have each: "panel_fields_ok B p \<and> step_panel_ok p \<and> mirrored (bd_groups c) p \<and> (\<forall>sid. pn_step p = Some sid \<longrightarrow> bo_ulid B sid)"
    if "p \<in> set (bd_panels c)" for p using ok that by (auto simp: board_ok_def list_all_iff)
  have dist: "distinct (map cg_id (bd_groups c))" using g by (simp add: groups_ok_def)
  have mir: "apply_group_mirror c = c"
    using each mirror_panel_fixed [OF dist] by (simp add: apply_group_mirror_def map_const_id)
  have nrm: "map normalize_step_panel (bd_panels c) = bd_panels c" using each normalize_step_fixed by (intro map_const_id) blast
  have sid: "number_errors (\<lambda>_. check_step_id B) 0 (bd_panels c) = Inr (replicate (length (bd_panels c)) ())"
  proof (rule number_errors_fixed)
    fix k assume k: "k < length (bd_panels c)"
    show "check_step_id B (bd_panels c ! k) = Inr (replicate (length (bd_panels c)) () ! k)"
      using each [OF nth_mem [OF k]] k by (simp add: check_step_id_iff)
  qed simp
  have vp: "number_errors (\<lambda>i. validate_panel B (fresh i)) 0 (bd_panels c) = Inr (bd_panels c)"
    using each validate_panel_fixed by (intro number_errors_fixed) auto
  show ?thesis
    using ok nm vg by (simp add: validate_and_normalize_def Let_def check_counts_def board_ok_def mir nrm sid vp)
qed

text \<open>
  C31: the validation of a board is a normalization: every board it accepts is well-formed (bounded,
  ascending thresholds, distinct ids, admissible conditions without leftovers, no authentication header on
  display, every panel of a group in one block with the scenario, environment and interval of the group,
  every step panel looking at its own step only), is accepted again unchanged, and keeps the panels in place
  with their groups and steps; the groups come in the order of their panels.
\<close>

theorem validated_board_ok:
  assumes "validate_and_normalize B fresh name c = Inr (nm, c')" "\<And>i. bo_ulid B (fresh i)" "\<not> bo_ulid B []"
  shows "board_ok B c' \<and> validate_and_normalize B fresh' nm c' = Inr (nm, c')
    \<and> map pn_group (bd_panels c') = map pn_group (bd_panels c) \<and> map pn_step (bd_panels c') = map pn_step (bd_panels c)
    \<and> mset (bd_groups c') = mset (bd_groups c) \<and> sorted (map (group_key (bd_panels c)) (bd_groups c'))"
proof -
  note v = validated_board [OF assms]
  show ?thesis using v board_ok_fixed [OF v(1-3)] by simp
qed


definition demo_board_ops :: board_ops where
  "demo_board_ops = \<lparr>bo_ulid = (\<lambda>s. s \<noteq> []), bo_extract = demo_extract\<rparr>"

definition demo_panel :: "string option \<Rightarrow> string \<Rightarrow> panel_config" where
  "demo_panel g sid = \<lparr>pn_id = [], pn_title = '' t '', pn_scenario = ''x'', pn_environment = None, pn_interval = 10, pn_timeout = 5,
     pn_latency = LatTotal, pn_thresholds = [], pn_bars = 60, pn_graph_max = 2000, pn_conditions = [], pn_display = [],
     pn_group = g, pn_step = Some sid\<rparr>"

definition demo_board :: board_config where
  "demo_board = \<lparr>bd_font = FontLarge, bd_blink = BlinkFail, bd_style = StyleBorder,
     bd_panels = [demo_panel (Some ''g'') ''a'', demo_panel (Some ''g'') ''b''], bd_stats = True, bd_record_kb = 128,
     bd_groups = [\<lparr>cg_id = ''g'', cg_scenario = ''s'', cg_environment = None, cg_interval = 20\<rparr>]\<rparr>"

lemma demo_board_accepted:
  "\<exists>c'. validate_and_normalize demo_board_ops (\<lambda>i. CHR ''u'' # replicate i CHR ''u'') '' n '' demo_board = Inr (''n'', c')
     \<and> map pn_interval (bd_panels c') = [20, 20]"
proof -
  have t: "trim '' t '' = ''t''" "trim '' n '' = ''n''" "trim ''x'' = ''x''" "trim ''s'' = ''s''"
    "char_count ''t'' = 1" "char_count ''n'' = 1" by code_simp+
  let ?g = "\<lparr>cg_id = ''g'', cg_scenario = ''s'', cg_environment = None, cg_interval = 20\<rparr>"
  let ?fresh = "\<lambda>i. CHR ''u'' # replicate i CHR ''u''"
  let ?q = "\<lambda>sid. normalize_step_panel (mirror_panel (groups_by_id [?g]) (demo_panel (Some ''g'') sid))"
  have gr: "validate_groups demo_board_ops demo_board = Inr demo_board"
    unfolding validate_groups_def Let_def demo_board_def board_config.select_convs by (simp add: demo_panel_def t demo_board_ops_def in_range_def)
  have m: "?q sid = (demo_panel (Some ''g'') sid)\<lparr>pn_scenario := ''s'', pn_interval := 20, pn_latency := LatStep sid\<rparr>" for sid
    by (simp add: mirror_panel_def groups_by_id_def hm_get_def normalize_step_panel_def demo_panel_def)
  have v: "validate_panel demo_board_ops f (?q sid) = Inr ((?q sid)\<lparr>pn_id := f, pn_title := ''t''\<rparr>)" for f sid
    unfolding m validate_panel_def Let_def
    by (simp add: demo_panel_def t name_ok_def in_range_def name_max_chars_def max_thresholds_def
        validate_conditions_def max_conditions_def validate_display_items_def max_display_items_def)
  have ps: "map normalize_step_panel (bd_panels (apply_group_mirror demo_board)) = [?q ''a'', ?q ''b'']"
    by (simp add: apply_group_mirror_def demo_board_def)
  have ids: "number_errors (\<lambda>_. check_step_id demo_board_ops) 0 (bd_panels demo_board) = Inr [(), ()]"
    by (simp add: demo_board_def demo_panel_def check_step_id_def demo_board_ops_def)
  have cnt: "check_counts demo_board = Inr ()" by (simp add: check_counts_def demo_board_def in_range_def max_panels_def)
  have pv: "number_errors (\<lambda>i. validate_panel demo_board_ops (?fresh i)) 0 [?q ''a'', ?q ''b'']
      = Inr [(?q ''a'')\<lparr>pn_id := ?fresh 0, pn_title := ''t''\<rparr>, (?q ''b'')\<lparr>pn_id := ?fresh 1, pn_title := ''t''\<rparr>]"
    by (simp only: number_errors.simps v sum.case bind_res_simps One_nat_def add_0)
  have nm: "name_ok ''n''" by (simp add: name_ok_def t in_range_def name_max_chars_def)
  have kb: "record_limit_ok (bd_record_kb (apply_group_mirror demo_board))"
    by (simp add: apply_group_mirror_def demo_board_def record_limit_ok_def in_range_def)
  show ?thesis
    unfolding validate_and_normalize_def Let_def t gr cnt ids ps bind_res_simps pv using nm kb by (simp add: m)
qed

theorem validated_board_ok_witness:
  "\<exists>c'. validate_and_normalize demo_board_ops (\<lambda>i. CHR ''u'' # replicate i CHR ''u'') '' n '' demo_board = Inr (''n'', c')
     \<and> map pn_interval (bd_panels c') = [20, 20] \<and> board_ok demo_board_ops c'"
proof -
  obtain c' where c': "validate_and_normalize demo_board_ops (\<lambda>i. CHR ''u'' # replicate i CHR ''u'') '' n '' demo_board = Inr (''n'', c')"
     "map pn_interval (bd_panels c') = [20, 20]" using demo_board_accepted by (elim exE conjE)
  have f: "bo_ulid demo_board_ops ((CHR ''u'' # replicate i CHR ''u''))" for i by (simp add: demo_board_ops_def)
  have e: "\<not> bo_ulid demo_board_ops []" by (simp add: demo_board_ops_def)
  from validated_board_ok [OF c'(1) f e] have "board_ok demo_board_ops c'" by (rule conjunct1)
  with c' show ?thesis by (intro exI [of _ c'] conjI)
qed

end
