(* ===== verification/Monitor_Check.thy ===== *)
theory Monitor_Check
  imports Monitor_Config Trace F64_Arith
begin

text \<open>
  \<^verbatim>\<open>controller/src/monitor/check.rs\<close>: one check of a monitor panel. The judgement of a trace is a pure
  function; what is shown on the wall is normalized and cut. The texts of the code are written as their
  UTF-8 bytes. JSON, JSONPath and the lower-casing of arbitrary text are parameters.
\<close>

subsection \<open>Characters\<close>

definition utf8 :: "nat list \<Rightarrow> string" where "utf8 bs = map char_of bs"

text \<open>The characters of a string, each as the bytes of its encoding, and the code point of one.\<close>

function utf8_chars :: "string \<Rightarrow> string list" where
  "utf8_chars [] = []"
| "utf8_chars (c # s) = (c # takeWhile cont_byte s) # utf8_chars (dropWhile cont_byte s)"
  by pat_completeness auto
termination
  by (relation "measure length") (auto simp: le_imp_less_Suc length_dropWhile_le)

definition code_point :: "string \<Rightarrow> nat" where
  "code_point ch = (case map byte ch of
     [a] \<Rightarrow> a
   | [a, b] \<Rightarrow> (a - 0xC0) * 64 + (b - 0x80)
   | [a, b, c] \<Rightarrow> (a - 0xE0) * 4096 + (b - 0x80) * 64 + (c - 0x80)
   | [a, b, c, d] \<Rightarrow> (a - 0xF0) * 262144 + (b - 0x80) * 4096 + (c - 0x80) * 64 + (d - 0x80)
   | _ \<Rightarrow> 0)"

definition format_ranges :: "(nat \<times> nat) list" where
  "format_ranges = [(0xAD, 0xAD), (0x600, 0x605), (0x61C, 0x61C), (0x6DD, 0x6DD), (0x70F, 0x70F), (0x890, 0x891),
     (0x8E2, 0x8E2), (0x180E, 0x180E), (0x200B, 0x200F), (0x202A, 0x202E), (0x2060, 0x2064), (0x2066, 0x206F),
     (0xFEFF, 0xFEFF), (0xFFF9, 0xFFFB), (0x110BD, 0x110BD), (0x110CD, 0x110CD), (0x13430, 0x1343F),
     (0x1BCA0, 0x1BCA3), (0x1D173, 0x1D17A), (0xE0001, 0xE0001), (0xE0020, 0xE007F)]"

definition is_format_char :: "nat \<Rightarrow> bool" where
  "is_format_char n = list_ex (\<lambda>(lo, hi). lo \<le> n \<and> n \<le> hi) format_ranges"

definition is_control :: "nat \<Rightarrow> bool" where
  "is_control n \<longleftrightarrow> n < 0x20 \<or> (0x7F \<le> n \<and> n < 0xA0)"

definition hidden_char :: "string \<Rightarrow> bool" where
  "hidden_char ch = (let n = code_point ch in is_control n \<or> n = 0x2028 \<or> n = 0x2029 \<or> is_format_char n)"

definition normalize_chars :: "string \<Rightarrow> string" where
  "normalize_chars s = concat (map (\<lambda>ch. if hidden_char ch then '' '' else ch) (utf8_chars s))"

definition shown_max_chars :: nat where "shown_max_chars = 200"
definition ellipsis :: string where "ellipsis = utf8 [226, 128, 166]"

definition shown :: "string \<Rightarrow> string" where
  "shown s =
     (let n = normalize_chars (take_chars (shown_max_chars + 1) s) in
      if char_count n \<le> shown_max_chars then n else take_chars (shown_max_chars - 1) n @ ellipsis)"

subsection \<open>Texts\<close>

definition reason_scenario_missing :: string where
  "reason_scenario_missing = utf8 [236, 139, 156, 235, 130, 152, 235, 166, 172, 236, 152, 164, 235, 165, 188, 32, 236, 176, 190, 236, 157, 132, 32, 236, 136, 152, 32, 236, 151, 134, 236, 157, 140]"
definition reason_env_missing :: string where
  "reason_env_missing = utf8 [237, 153, 152, 234, 178, 189, 236, 157, 132, 32, 236, 176, 190, 236, 157, 132, 32, 236, 136, 152, 32, 236, 151, 134, 236, 157, 140]"
definition reason_scenario_invalid :: string where
  "reason_scenario_invalid = utf8 [236, 139, 156, 235, 130, 152, 235, 166, 172, 236, 152, 164, 32, 236, 152, 164, 235, 165, 152]"
definition reason_latency_step_missing :: string where
  "reason_latency_step_missing = utf8 [236, 157, 145, 235, 139, 181, 32, 236, 139, 156, 234, 176, 132, 32, 234, 184, 176, 236, 164, 128, 32, 236, 138, 164, 237, 133, 157, 32, 236, 151, 134, 236, 157, 140]"
definition reason_request_cap :: string where
  "reason_request_cap = utf8 [236, 154, 148, 236, 178, 173, 32, 236, 136, 152, 32, 236, 131, 129, 237, 149, 156, 40, 53, 48, 41, 32, 236, 180, 136, 234, 179, 188]"
definition reason_trace_error :: string where
  "reason_trace_error = utf8 [236, 139, 156, 235, 130, 152, 235, 166, 172, 236, 152, 164, 32, 236, 139, 164, 237, 150, 137, 32, 236, 152, 164, 235, 165, 152]"
definition reason_bad_request_build :: string where
  "reason_bad_request_build = utf8 [236, 154, 148, 236, 178, 173, 32, 234, 181, 172, 236, 132, 177, 32, 236, 152, 164, 235, 165, 152]"
definition reason_read_body :: string where
  "reason_read_body = utf8 [236, 157, 145, 235, 139, 181, 32, 235, 179, 184, 235, 172, 184, 32, 236, 157, 189, 234, 184, 176, 32, 236, 139, 164, 237, 140, 168]"
definition reason_extract :: string where
  "reason_extract = utf8 [234, 176, 146, 32, 236, 182, 148, 236, 182, 156, 32, 236, 139, 164, 237, 140, 168]"
definition reason_request_failed :: string where
  "reason_request_failed = utf8 [236, 154, 148, 236, 178, 173, 32, 236, 139, 164, 237, 140, 168]"
definition reason_unbound_var :: string where
  "reason_unbound_var = utf8 [235, 179, 128, 236, 136, 152, 32, 235, 175, 184, 236, 132, 164, 236, 160, 149]"
definition reason_cond_step_missing :: string where
  "reason_cond_step_missing = utf8 [236, 161, 176, 234, 177, 180, 32, 234, 184, 176, 236, 164, 128, 32, 236, 138, 164, 237, 133, 157, 32, 236, 151, 134, 236, 157, 140]"
definition reason_cond_step_not_run :: string where
  "reason_cond_step_not_run = utf8 [236, 161, 176, 234, 177, 180, 32, 236, 138, 164, 237, 133, 157, 32, 235, 175, 184, 236, 139, 164, 237, 150, 137]"
definition reason_body_not_json :: string where
  "reason_body_not_json = utf8 [235, 179, 184, 235, 172, 184, 236, 157, 180, 32, 74, 83, 79, 78, 32, 236, 149, 132, 235, 139, 152]"
definition reason_body_too_large :: string where
  "reason_body_too_large = utf8 [236, 157, 145, 235, 139, 181, 32, 235, 179, 184, 235, 172, 184, 236, 157, 180, 32, 235, 132, 136, 235, 172, 180, 32, 237, 129, 188]"
definition reason_no_value :: string where
  "reason_no_value = utf8 [234, 176, 146, 32, 236, 151, 134, 236, 157, 140]"
definition reason_empty :: string where
  "reason_empty = utf8 [235, 185, 132, 236, 150, 180, 32, 236, 158, 136, 236, 157, 140]"
definition reason_value_differs :: string where
  "reason_value_differs = utf8 [234, 176, 146, 32, 235, 139, 164, 235, 166, 132]"
definition reason_not_contained_tail :: string where
  "reason_not_contained_tail = utf8 [34, 32, 237, 143, 172, 237, 149, 168, 32, 236, 149, 136, 32, 235, 144, 168]"
definition reason_upstream :: string where
  "reason_upstream = utf8 [236, 149, 158, 32, 235, 139, 168, 234, 179, 132, 32, 236, 139, 164, 237, 140, 168]"
definition reason_branch_value_missing :: string where
  "reason_branch_value_missing = utf8 [235, 182, 132, 234, 184, 176, 32, 234, 176, 146, 32, 236, 151, 134, 236, 157, 140]"

definition reason_not_contained :: "string \<Rightarrow> string" where
  "reason_not_contained needle =
     (let n = normalize_chars needle;
          m = shown_max_chars - (1 + char_count reason_not_contained_tail);
          body = (if m < char_count n then take_chars (m - 1) n @ ellipsis else n)
      in CHR 0x22 # body @ reason_not_contained_tail)"

definition reason_timeout :: "nat \<Rightarrow> string" where
  "reason_timeout secs =
     utf8 [236, 139, 156, 234, 176, 132, 32, 236, 180, 136, 234, 179, 188, 40] @ nat_str secs @ utf8 [236, 180, 136, 41]"

definition reason_http :: "nat \<Rightarrow> string" where "reason_http status = ''HTTP '' @ nat_str status"

definition sep_dot :: string where "sep_dot = utf8 [32, 194, 183, 32]"

subsection \<open>Results\<close>

definition monitor_max_requests :: nat where "monitor_max_requests = 50"

datatype wall_verdict = WallOk | WallFail | WallConfigError | WallUpstreamFailed | WallBranchSkipped

record check_result =
  ck_at :: int
  ck_verdict :: wall_verdict
  ck_latency :: "nat option"
  ck_reason :: "string option"
  ck_detail :: "string option"
  ck_display :: "string option list"

definition with_reason :: "int \<Rightarrow> wall_verdict \<Rightarrow> string \<Rightarrow> check_result" where
  "with_reason at v reason = \<lparr>ck_at = at, ck_verdict = v, ck_latency = None, ck_reason = Some reason, ck_detail = None, ck_display = []\<rparr>"

definition cond_result :: "int \<Rightarrow> wall_verdict \<Rightarrow> string \<Rightarrow> string \<Rightarrow> check_result" where
  "cond_result at v reason detail =
     \<lparr>ck_at = at, ck_verdict = v, ck_latency = None, ck_reason = Some (shown reason), ck_detail = Some (shown detail), ck_display = []\<rparr>"

subsection \<open>Labels of a condition\<close>

definition target_label :: "success_condition \<Rightarrow> string" where
  "target_label c = (case wc_source c of
     SrcBody \<Rightarrow>
       if wc_path c = ''$'' then utf8 [235, 179, 184, 235, 172, 184]
       else (case strip_prefix ''$.'' (wc_path c) of Some rest \<Rightarrow> rest
         | None \<Rightarrow> if starts_with ''$['' (wc_path c) then drop 1 (wc_path c) else wc_path c)
   | SrcHeader \<Rightarrow> utf8 [237, 151, 164, 235, 141, 148, 32] @ wc_path c
   | SrcStatus \<Rightarrow> utf8 [236, 131, 129, 237, 131, 156, 236, 189, 148, 235, 147, 156]
   | SrcBodyText \<Rightarrow> utf8 [235, 179, 184, 235, 172, 184, 32, 236, 160, 132, 236, 178, 180])"

definition rule_label :: "condition_op \<Rightarrow> string" where
  "rule_label p = (case p of
     CoExists \<Rightarrow> utf8 [237, 130, 164, 32, 236, 158, 136, 236, 157, 140]
   | CoNotEmpty \<Rightarrow> utf8 [234, 176, 146, 32, 236, 158, 136, 236, 157, 140]
   | CoEq \<Rightarrow> ''='' | CoNe \<Rightarrow> utf8 [226, 137, 160]
   | CoContains \<Rightarrow> utf8 [234, 184, 128, 236, 158, 144, 32, 237, 143, 172, 237, 149, 168]
   | CoGt \<Rightarrow> ''>'' | CoLt \<Rightarrow> ''<'' | CoGte \<Rightarrow> utf8 [226, 137, 165] | CoLte \<Rightarrow> utf8 [226, 137, 164]
   | CoOneOf \<Rightarrow> utf8 [226, 136, 136])"

definition condition_detail :: "success_condition \<Rightarrow> string option \<Rightarrow> string" where
  "condition_detail c name =
     target_label c @ '' '' @ rule_label (wc_op c)
     @ (if needs_value (wc_op c) then
          '' '' @ (if wc_op c = CoOneOf then ''{'' @ join_with '', '' (one_of_candidates (wc_value c)) @ ''}''
                   else if wc_value c = [] then [CHR 0x22, CHR 0x22] else wc_value c)
        else [])
     @ (case name of Some n \<Rightarrow> sep_dot @ n | None \<Rightarrow> [])"

text \<open>The first condition whose step is not an HTTP step of the scenario.\<close>

definition condition_step_missing :: "step list \<Rightarrow> panel_config \<Rightarrow> int \<Rightarrow> check_result option" where
  "condition_step_missing steps p at =
     (let hs = collect_http steps in
      map_option (\<lambda>c. cond_result at WallConfigError reason_cond_step_missing (condition_detail c None))
        (find (\<lambda>c. \<not> list_ex (\<lambda>h. hs_id h = wc_step_id c) hs) (pn_conditions p)))"

subsection \<open>The value a condition looks at\<close>

record wall_ops =
  wo_extract :: extract_ops
  wo_lower :: "string \<Rightarrow> string"

definition max_json_unwrap :: nat where "max_json_unwrap = 3"

fun unwrap_json :: "extract_ops \<Rightarrow> nat \<Rightarrow> string \<Rightarrow> json \<Rightarrow> json" where
  "unwrap_json X 0 cur whole = whole"
| "unwrap_json X (Suc n) cur whole = (case xo_parse_json X cur of
     Inr (JObj m) \<Rightarrow> JObj m
   | Inr (JArr xs) \<Rightarrow> JArr xs
   | Inr (JStr s) \<Rightarrow> unwrap_json X n s whole
   | _ \<Rightarrow> whole)"

definition parse_body_json :: "extract_ops \<Rightarrow> string \<Rightarrow> json option" where
  "parse_body_json X body = (case xo_parse_json X body of
     Inl _ \<Rightarrow> None
   | Inr (JStr s) \<Rightarrow> Some (unwrap_json X max_json_unwrap s (JStr s))
   | Inr v \<Rightarrow> Some v)"

datatype actual = ActFixed string | ActMissing | ActVal string "f64 option" bool

definition num_f64 :: "jnum \<Rightarrow> f64" where
  "num_f64 n = (case n of NPos k \<Rightarrow> f64_of_nat k | NNeg i \<Rightarrow> f64_of_frac i 1 | NFloat f \<Rightarrow> f)"

definition empty_container :: "json \<Rightarrow> bool" where
  "empty_container v = (case v of JArr a \<Rightarrow> a = [] | JObj m \<Rightarrow> m = [] | _ \<Rightarrow> False)"

definition find_wall_header :: "string \<Rightarrow> (string, string) btree_map \<Rightarrow> string option" where
  "find_wall_header name hs = map_option snd (find (\<lambda>(k, _). eq_ignore_ascii_case k name) hs)"

definition actual_value :: "extract_ops \<Rightarrow> success_condition \<Rightarrow> traced_response \<Rightarrow> actual" where
  "actual_value X c r = (case wc_source c of
     SrcBody \<Rightarrow>
       if tp_body_truncated r then ActFixed reason_body_too_large
       else (case parse_body_json X (tp_body r) of
           None \<Rightarrow> ActFixed reason_body_not_json
         | Some j \<Rightarrow> (case jsonpath_first X j (wc_path c) of
             None \<Rightarrow> ActMissing
           | Some v \<Rightarrow> ActVal (stringify X v) (case v of JNum n \<Rightarrow> Some (num_f64 n) | _ \<Rightarrow> None) (empty_container v)))
   | SrcHeader \<Rightarrow> (case find_wall_header (trim (wc_path c)) (tp_headers r) of Some v \<Rightarrow> ActVal v None False | None \<Rightarrow> ActMissing)
   | SrcStatus \<Rightarrow> ActVal (nat_str (tp_status r)) None False
   | SrcBodyText \<Rightarrow> if tp_body_truncated r then ActFixed reason_body_too_large else ActVal (tp_body r) None False)"

definition normalize_cmp :: "wall_ops \<Rightarrow> string \<Rightarrow> success_condition \<Rightarrow> string" where
  "normalize_cmp W s c = (let s1 = (if wc_trim c then trim s else s) in if wc_ignore_case c then wo_lower W s1 else s1)"

text \<open>\<^verbatim>\<open>==\<close> of two finite numbers.\<close>

definition f64_same :: "f64 \<Rightarrow> f64 \<Rightarrow> bool" where "f64_same a b \<longleftrightarrow> f64_le a b \<and> f64_le b a"

definition equal_values :: "wall_ops \<Rightarrow> success_condition \<Rightarrow> string \<Rightarrow> f64 option \<Rightarrow> string \<Rightarrow> bool" where
  "equal_values W c text num want = (case (num, parse_finite want) of
     (Some n, Some v) \<Rightarrow> f64_same n v
   | _ \<Rightarrow> normalize_cmp W text c = normalize_cmp W want c)"

definition order_passes :: "condition_op \<Rightarrow> f64 \<Rightarrow> f64 \<Rightarrow> bool" where
  "order_passes p a b = (case p of
     CoGt \<Rightarrow> f64_lt b a | CoLt \<Rightarrow> f64_lt a b | CoGte \<Rightarrow> f64_le b a | CoLte \<Rightarrow> f64_le a b | _ \<Rightarrow> False)"

definition op_passes :: "wall_ops \<Rightarrow> success_condition \<Rightarrow> string \<Rightarrow> f64 option \<Rightarrow> bool \<Rightarrow> bool" where
  "op_passes W c text num bare = (case wc_op c of
     CoExists \<Rightarrow> True
   | CoNotEmpty \<Rightarrow> text \<noteq> [] \<and> \<not> bare
   | CoEq \<Rightarrow> equal_values W c text num (wc_value c)
   | CoNe \<Rightarrow> \<not> equal_values W c text num (wc_value c)
   | CoContains \<Rightarrow> contains_sub (normalize_cmp W (wc_value c) c) (normalize_cmp W text c)
   | CoOneOf \<Rightarrow> list_ex (equal_values W c text num) (one_of_candidates (wc_value c))
   | p \<Rightarrow> (case (parse_finite text, parse_finite (wc_value c)) of
       (Some a, Some b) \<Rightarrow> order_passes p a b | _ \<Rightarrow> False))"

subsection \<open>Conditions\<close>

text \<open>The last element that satisfies \<open>P\<close>.\<close>

definition rfind :: "('a \<Rightarrow> bool) \<Rightarrow> 'a list \<Rightarrow> 'a option" where
  "rfind P xs = find P (rev xs)"

definition last_row :: "string \<Rightarrow> step_trace list \<Rightarrow> step_trace option" where
  "last_row sid rows = rfind (\<lambda>s. sr_kind s = KindHttp \<and> sr_step_id s = sid) rows"

definition last_response :: "string \<Rightarrow> step_trace list \<Rightarrow> traced_response option" where
  "last_response sid rows = Option.bind (last_row sid rows) sr_response"

definition is_auth_header :: "string \<Rightarrow> bool" where
  "is_auth_header name = list_ex (eq_ignore_ascii_case name) auth_headers"

text \<open>\<^const>\<open>None\<close> when the condition holds, else the text of its failure.\<close>

definition condition_failure :: "wall_ops \<Rightarrow> step_trace list \<Rightarrow> success_condition \<Rightarrow> string option" where
  "condition_failure W rows c = (case last_response (wc_step_id c) rows of
     None \<Rightarrow> Some reason_cond_step_not_run
   | Some r \<Rightarrow> (case actual_value (wo_extract W) c r of
       ActFixed x \<Rightarrow> Some x
     | ActMissing \<Rightarrow> Some reason_no_value
     | ActVal text num bare \<Rightarrow>
         if op_passes W c text num bare then None
         else if wc_source c = SrcBodyText \<and> wc_op c = CoContains then Some (reason_not_contained (wc_value c))
         else if text = [] \<or> bare then Some reason_empty
         else if wc_source c = SrcHeader \<and> is_auth_header (trim (wc_path c)) then Some reason_value_differs
         else Some text))"

definition detail_name :: "http_step list \<Rightarrow> success_condition \<Rightarrow> string option" where
  "detail_name hs c = (if 2 \<le> length hs then map_option hs_name (find (\<lambda>h. hs_id h = wc_step_id c) hs) else None)"

fun eval_conditions :: "wall_ops \<Rightarrow> http_step list \<Rightarrow> step_trace list \<Rightarrow> int \<Rightarrow> success_condition list \<Rightarrow> check_result option" where
  "eval_conditions W hs rows at [] = None"
| "eval_conditions W hs rows at (c # cs) = (case condition_failure W rows c of
     None \<Rightarrow> eval_conditions W hs rows at cs
   | Some reason \<Rightarrow> Some (cond_result at WallFail reason (condition_detail c (detail_name hs c))))"

subsection \<open>The judgement\<close>

definition latency_step_exists :: "step list \<Rightarrow> panel_config \<Rightarrow> bool" where
  "latency_step_exists steps p = (case pn_latency p of LatTotal \<Rightarrow> True
     | LatStep sid \<Rightarrow> list_ex (\<lambda>h. hs_id h = sid) (collect_http steps))"

definition status_mismatch :: "http_step option \<Rightarrow> traced_response \<Rightarrow> bool" where
  "status_mismatch http r = (case http of None \<Rightarrow> False
     | Some h \<Rightarrow> list_ex (\<lambda>a. case a of AStatus c \<Rightarrow> c \<noteq> tp_status r) (hs_assert h))"

definition classify :: "http_step option \<Rightarrow> step_trace \<Rightarrow> string \<Rightarrow> string" where
  "classify http st err =
     (if starts_with ''invalid header'' err then reason_bad_request_build
      else case sr_response st of
        None \<Rightarrow> reason_request_failed
      | Some r \<Rightarrow>
          if status_mismatch http r then reason_http (tp_status r)
          else if starts_with ''read body:'' err then reason_read_body
          else reason_extract)"

definition http_row_count :: "step_trace list \<Rightarrow> nat" where
  "http_row_count rows = length (filter (\<lambda>s. sr_kind s = KindHttp) rows)"

text \<open>The first row of a request with an error.\<close>

definition failed_row :: "step_trace list \<Rightarrow> (step_trace \<times> string) option" where
  "failed_row rows = (case find (\<lambda>s. sr_kind s = KindHttp \<and> sr_error s \<noteq> None) rows of
     None \<Rightarrow> None | Some s \<Rightarrow> map_option (\<lambda>e. (s, e)) (sr_error s))"

definition judge_failure :: "http_step list \<Rightarrow> int \<Rightarrow> step_trace \<Rightarrow> string \<Rightarrow> check_result" where
  "judge_failure hs at st err =
     (let http = find (\<lambda>h. hs_id h = sr_step_id st) hs;
          (v, reason) = (if sr_unbound st = [] then (WallFail, classify http st err) else (WallConfigError, reason_unbound_var))
      in with_reason at v
        (case http of Some h \<Rightarrow> if 2 \<le> length hs then reason @ sep_dot @ hs_name h else reason | None \<Rightarrow> reason))"

definition judge :: "wall_ops \<Rightarrow> step list \<Rightarrow> panel_config \<Rightarrow> scenario_trace \<Rightarrow> int \<Rightarrow> check_result" where
  "judge W steps p tr at =
     (if \<not> latency_step_exists steps p then with_reason at WallConfigError reason_latency_step_missing
      else case condition_step_missing steps p at of
        Some r \<Rightarrow> r
      | None \<Rightarrow>
        if sn_truncated tr then
          with_reason at WallFail (if monitor_max_requests \<le> http_row_count (sn_steps tr) then reason_request_cap
            else reason_timeout (pn_timeout p))
        else if sn_error tr \<noteq> None then with_reason at WallFail reason_trace_error
        else let hs = collect_http steps in
          case failed_row (sn_steps tr) of
            Some (st, err) \<Rightarrow> judge_failure hs at st err
          | None \<Rightarrow> (case eval_conditions W hs (sn_steps tr) at (pn_conditions p) of
              Some r \<Rightarrow> r
            | None \<Rightarrow> \<lparr>ck_at = at, ck_verdict = WallOk,
                ck_latency = (case pn_latency p of LatTotal \<Rightarrow> Some (sn_total_ms tr)
                  | LatStep sid \<Rightarrow> map_option tp_latency_ms (last_response sid (sn_steps tr))),
                ck_reason = None, ck_detail = None, ck_display = []\<rparr>))"

definition display_value :: "extract_ops \<Rightarrow> step_trace list \<Rightarrow> display_item \<Rightarrow> string option" where
  "display_value X rows d = (case last_response (di_step_id d) rows of
     None \<Rightarrow> None
   | Some r \<Rightarrow> (case di_source d of
       DisBody \<Rightarrow>
         if tp_body_truncated r then None
         else (case parse_body_json X (tp_body r) of None \<Rightarrow> None
           | Some j \<Rightarrow> map_option (\<lambda>v. shown (stringify X v)) (jsonpath_first X j (di_path d)))
     | DisHeader \<Rightarrow> map_option shown (find_wall_header (trim (di_path d)) (tp_headers r))
     | DisStatus \<Rightarrow> Some (nat_str (tp_status r))))"

definition display_values :: "extract_ops \<Rightarrow> panel_config \<Rightarrow> step_trace list \<Rightarrow> string option list" where
  "display_values X p rows = map (display_value X rows) (pn_display p)"

subsection \<open>One check\<close>

text \<open>
  The stored scenarios (their YAML text) and the variables of the environments; \<^const>\<open>None\<close> is a row that
  is missing or unreadable. \<open>yaml\<close> reads a scenario.
\<close>

definition load_scenario_env ::
  "(string \<Rightarrow> string option) \<Rightarrow> (string \<Rightarrow> (string, string) btree_map option) \<Rightarrow> (string \<Rightarrow> 'tz scenario option)
     \<Rightarrow> string \<Rightarrow> string option \<Rightarrow> string + 'tz scenario \<times> (string, string) btree_map"
where
  "load_scenario_env scens envs yaml sid eid = (case scens sid of
     None \<Rightarrow> Inl reason_scenario_missing
   | Some y \<Rightarrow> (case yaml y of
       None \<Rightarrow> Inl reason_scenario_invalid
     | Some sc \<Rightarrow> (case eid of
         None \<Rightarrow> Inr (sc, [])
       | Some i \<Rightarrow> (case envs i of Some vs \<Rightarrow> Inr (sc, vs) | None \<Rightarrow> Inl reason_env_missing))))"

text \<open>\<open>run\<close> is \<^verbatim>\<open>trace_scenario\<close> under the outer timeout, which may yield nothing.\<close>

definition run_check ::
  "wall_ops \<Rightarrow> (string \<Rightarrow> string option) \<Rightarrow> (string \<Rightarrow> (string, string) btree_map option) \<Rightarrow> (string \<Rightarrow> 'tz scenario option)
     \<Rightarrow> ('tz scenario \<Rightarrow> trace_options \<Rightarrow> scenario_trace option) \<Rightarrow> panel_config \<Rightarrow> int \<Rightarrow> scenario_trace option \<times> check_result"
where
  "run_check W scens envs yaml run p at = (case load_scenario_env scens envs yaml (pn_scenario p) (pn_environment p) of
     Inl reason \<Rightarrow> (None, with_reason at WallConfigError reason)
   | Inr (sc, vs) \<Rightarrow>
       if \<not> latency_step_exists (sc_steps sc) p then (None, with_reason at WallConfigError reason_latency_step_missing)
       else (case condition_step_missing (sc_steps sc) p at of
           Some r \<Rightarrow> (None, r)
         | None \<Rightarrow> (case run sc \<lparr>to_env = vs, to_max_requests = monitor_max_requests,
               to_max_wall = pn_timeout p * 1000000000, to_apply_think = False\<rparr> of
             None \<Rightarrow> (None, with_reason at WallFail (reason_timeout (pn_timeout p)))
           | Some tr \<Rightarrow> (Some tr, (judge W (sc_steps sc) p tr at)\<lparr>ck_display := display_values (wo_extract W) p (sn_steps tr)\<rparr>))))"

end
