(* ===== verification/Monitor_Check_Props.thy ===== *)
theory Monitor_Check_Props
  imports Monitor_Check Monitor_Config_Props
begin

text \<open>
  What a panel shows: the cut of a text is the cut of its normalization, a panel is green exactly when
  nothing failed and every condition holds, and what is shown of it is the same for two executions that differ
  only in error texts and in values of authentication headers.
\<close>

subsection \<open>Characters\<close>

definition starts_char :: "string \<Rightarrow> bool" where "starts_char s \<longleftrightarrow> s = [] \<or> \<not> cont_byte (hd s)"

definition is_char :: "string \<Rightarrow> bool" where
  "is_char ch \<longleftrightarrow> ch \<noteq> [] \<and> \<not> cont_byte (hd ch) \<and> list_all cont_byte (tl ch)"

lemma starts_char_rest: "starts_char (dropWhile cont_byte s)"
  by (metis hd_dropWhile starts_char_def)

lemma utf8_chars_is_char: "starts_char s \<Longrightarrow> list_all is_char (utf8_chars s)"
proof (induction s rule: utf8_chars.induct)
  case (2 c s)
  have "list_all cont_byte (takeWhile cont_byte s)" by (auto simp: list_all_iff dest: set_takeWhileD)
  moreover have "\<not> cont_byte c" using 2(2) by (simp add: starts_char_def)
  ultimately show ?case using 2(1) [OF starts_char_rest] by (simp add: is_char_def)
qed simp

lemma concat_utf8_chars [simp]: "concat (utf8_chars s) = s"
  by (induction s rule: utf8_chars.induct) simp_all

lemma utf8_chars_append: "is_char ch \<Longrightarrow> starts_char s \<Longrightarrow> utf8_chars (ch @ s) = ch # utf8_chars s"
proof -
  assume ch: "is_char ch" and s: "starts_char s"
  obtain c t where ct: "ch = c # t" "list_all cont_byte t" using ch by (cases ch) (auto simp: is_char_def)
  have w: "takeWhile cont_byte (t @ s) = t" "dropWhile cont_byte (t @ s) = s"
    using ct(2) s by (induction t) (auto simp: starts_char_def; cases s; simp)+
  show ?thesis by (simp add: ct w)
qed

lemma starts_char_concat: "list_all is_char chs \<Longrightarrow> starts_char (concat chs)"
  by (cases chs) (auto simp: starts_char_def is_char_def)

lemma utf8_chars_concat: "list_all is_char chs \<Longrightarrow> utf8_chars (concat chs) = chs"
  by (induction chs) (auto simp: utf8_chars_append starts_char_concat)

lemma char_count_Nil [simp]: "char_count [] = 0"
  by (simp add: char_count_def)

lemma list_all_take: "list_all P xs \<Longrightarrow> list_all P (take k xs)"
  by (auto simp: list_all_iff dest: in_set_takeD)

lemma char_count_append: "char_count (s @ t) = char_count s + char_count t"
  by (simp add: char_count_def)

lemma char_count_chars: "list_all is_char chs \<Longrightarrow> char_count (concat chs) = length chs"
proof (induction chs)
  case (Cons ch chs)
  obtain c t where "ch = c # t" using Cons.prems by (cases ch) (auto simp: is_char_def)
  then have "char_count ch = 1" using Cons.prems by (auto simp: char_count_def is_char_def list_all_iff filter_empty_conv)
  then show ?case using Cons by (simp add: char_count_append)
qed simp

lemma take_chars_conts: "list_all cont_byte t \<Longrightarrow> take_chars n (t @ s) = t @ take_chars n s"
  by (induction t) simp_all

lemma take_chars_chars: "list_all is_char chs \<Longrightarrow> take_chars n (concat chs) = concat (take n chs)"
proof (induction chs arbitrary: n)
  case (Cons ch chs)
  obtain c t where ct: "ch = c # t" "\<not> cont_byte c" "list_all cont_byte t" using Cons.prems by (cases ch) (auto simp: is_char_def)
  show ?case using Cons by (cases n) (simp_all add: ct take_chars_conts)
qed simp

definition visible_char :: "string \<Rightarrow> string" where
  "visible_char ch = (if hidden_char ch then '' '' else ch)"

lemma normalize_chars_alt: "normalize_chars s = concat (map visible_char (utf8_chars s))"
  by (simp add: normalize_chars_def visible_char_def [abs_def])

lemma is_char_space: "is_char '' ''"
  by (simp add: is_char_def cont_byte_def)

lemma visible_is_char: "list_all is_char chs \<Longrightarrow> list_all is_char (map visible_char chs)"
  by (auto simp: list_all_iff visible_char_def is_char_space)

lemma space_visible: "\<not> hidden_char '' ''" and ellipsis_visible: "\<not> hidden_char ellipsis"
  by (simp_all add: hidden_char_def code_point_def is_control_def is_format_char_def format_ranges_def ellipsis_def utf8_def Let_def)

lemma ellipsis_char: "is_char ellipsis"
  by (simp add: is_char_def ellipsis_def utf8_def cont_byte_def)

lemma visible_char_visible: "\<not> hidden_char (visible_char ch)"
  by (simp add: visible_char_def space_visible)

text \<open>
  what the wall shows of a user's value is the value with every control, formatting and separator
  character replaced by a blank, cut to two hundred characters with an ellipsis; cutting first, as the code
  does, changes nothing; the result is never longer than that and holds no hidden character.
\<close>

theorem shown_correct:
  assumes "starts_char s"
  shows "shown s = (let n = normalize_chars s in
      if char_count n \<le> shown_max_chars then n else take_chars (shown_max_chars - 1) n @ ellipsis)
    \<and> char_count (shown s) \<le> shown_max_chars \<and> list_all (\<lambda>ch. \<not> hidden_char ch) (utf8_chars (shown s))"
proof -
  define cs where "cs = utf8_chars s"
  have cs: "list_all is_char cs" "s = concat cs" using utf8_chars_is_char [OF assms] by (simp_all add: cs_def)
  let ?vs = "map visible_char cs"
  have vs: "list_all is_char ?vs" "list_all is_char (take k ?vs)" "list_all is_char (take k cs)" for k
    using visible_is_char [OF cs(1)] cs(1) by (simp_all add: list_all_take)
  have whole: "normalize_chars s = concat ?vs" using cs utf8_chars_concat [OF cs(1)] by (simp add: normalize_chars_alt)
  have head: "normalize_chars (take_chars (shown_max_chars + 1) s) = concat (take (shown_max_chars + 1) ?vs)"
    unfolding cs(2) take_chars_chars [OF cs(1)] normalize_chars_alt utf8_chars_concat [OF vs(3)] take_map ..
  have cnt: "char_count (concat (take k ?vs)) = min (length cs) k" "char_count (concat ?vs) = length cs" for k
    using char_count_chars [OF vs(2)] char_count_chars [OF vs(1)] by simp_all
  have cut: "take_chars (shown_max_chars - 1) (concat (take (shown_max_chars + 1) ?vs)) = concat (take (shown_max_chars - 1) ?vs)"
    "take_chars (shown_max_chars - 1) (concat ?vs) = concat (take (shown_max_chars - 1) ?vs)"
    using take_chars_chars [OF vs(2)] take_chars_chars [OF vs(1)] by (simp_all add: shown_max_chars_def)
  have small: "length cs \<le> shown_max_chars \<Longrightarrow> take (shown_max_chars + 1) ?vs = ?vs" by simp
  have sh: "shown s = (if length cs \<le> shown_max_chars then concat ?vs else concat (take (shown_max_chars - 1) ?vs) @ ellipsis)"
    unfolding shown_def Let_def head cnt cut using small by (auto simp: min_def)
  have eq: "shown s = (let n = normalize_chars s in
      if char_count n \<le> shown_max_chars then n else take_chars (shown_max_chars - 1) n @ ellipsis)"
    unfolding sh Let_def whole cnt cut ..
  have cut_chars: "concat (take (shown_max_chars - 1) ?vs) @ ellipsis = concat (take (shown_max_chars - 1) ?vs @ [ellipsis])" by simp
  have all: "list_all is_char (take (shown_max_chars - 1) ?vs @ [ellipsis])" using vs(2) ellipsis_char by simp
  have vis: "list_all (\<lambda>ch. \<not> hidden_char ch) ?vs" "list_all (\<lambda>ch. \<not> hidden_char ch) (take k ?vs)" for k
  proof -
    show all: "list_all (\<lambda>ch. \<not> hidden_char ch) ?vs" using visible_char_visible by (simp add: list_all_iff)
    show "list_all (\<lambda>ch. \<not> hidden_char ch) (take k ?vs)" by (rule list_all_take [OF all])
  qed
  have "char_count (shown s) \<le> shown_max_chars"
  proof (cases "length cs \<le> shown_max_chars")
    case True
    then show ?thesis by (simp add: sh cnt)
  next
    case False
    then have "char_count (shown s) = char_count (concat (take (shown_max_chars - 1) ?vs @ [ellipsis]))"
      unfolding sh cut_chars by simp
    then show ?thesis unfolding char_count_chars [OF all] by (simp add: shown_max_chars_def)
  qed
  moreover have "list_all (\<lambda>ch. \<not> hidden_char ch) (utf8_chars (shown s))"
    unfolding sh cut_chars using utf8_chars_concat [OF vs(1)] utf8_chars_concat [OF all] vis ellipsis_visible by simp
  ultimately show ?thesis using eq by blast
qed

theorem shown_correct_witness: "char_count (shown (replicate 300 CHR ''a'' @ [CHR 0x0A])) \<le> shown_max_chars"
proof -
  have "starts_char (replicate 300 CHR ''a'' @ [CHR 0x0A])" by (simp add: starts_char_def cont_byte_def)
  from shown_correct [OF this] show ?thesis by blast
qed

subsection \<open>The judgement\<close>

lemma eval_conditions_None: "eval_conditions W hs rows at cs = None \<longleftrightarrow> (\<forall>c \<in> set cs. condition_failure W rows c = None)"
  by (induction cs) (auto split: option.splits)

lemma eval_conditions_verdict: "eval_conditions W hs rows at cs = Some r \<Longrightarrow> ck_verdict r = WallFail \<and> ck_at r = at \<and> ck_reason r \<noteq> None"
  by (induction cs) (auto simp: cond_result_def split: option.splits)

lemma failed_row_None: "failed_row rows = None \<longleftrightarrow> (\<forall>s \<in> set rows. sr_kind s = KindHttp \<longrightarrow> sr_error s = None)"
proof (cases "find (\<lambda>s. sr_kind s = KindHttp \<and> sr_error s \<noteq> None) rows")
  case None
  then have "failed_row rows = None" by (simp add: failed_row_def)
  moreover have "\<forall>s \<in> set rows. sr_kind s = KindHttp \<longrightarrow> sr_error s = None" using None by (auto simp: find_None_iff)
  ultimately show ?thesis by simp
next
  case (Some s)
  then have "s \<in> set rows" "sr_kind s = KindHttp" "sr_error s \<noteq> None" by (auto simp: find_Some_iff)
  then show ?thesis using Some by (auto simp: failed_row_def)
qed

lemma condition_step_missing_None:
  "condition_step_missing steps p at = None \<longleftrightarrow> (\<forall>c \<in> set (pn_conditions p). wc_step_id c \<in> hs_id ` set (collect_http steps))"
proof -
  have "(\<exists>h \<in> set hs. hs_id h = x) \<longleftrightarrow> x \<in> hs_id ` set hs" for hs x by (auto simp: image_iff)
  then have "find (\<lambda>c. \<not> list_ex (\<lambda>h. hs_id h = wc_step_id c) (collect_http steps)) cs = None
      \<longleftrightarrow> (\<forall>c \<in> set cs. wc_step_id c \<in> hs_id ` set (collect_http steps))" for cs
    unfolding find_None_iff list_ex_iff by (metis (no_types, lifting))
  then show ?thesis by (simp add: condition_step_missing_def Let_def)
qed

lemma judge_failure_verdict: "ck_verdict (judge_failure hs at st err) \<noteq> WallOk"
  by (auto simp: judge_failure_def Let_def with_reason_def split: option.splits)

text \<open>
  C32: a panel that watches the whole flow is green exactly when its reference steps exist, the trace was
  neither cut nor failed in its setup, no request failed and every condition holds on the last response of
  its step; then no reason is shown.
\<close>

theorem judge_ok_iff:
  "(ck_verdict (judge W steps p tr at) = WallOk \<longleftrightarrow>
      latency_step_exists steps p \<and> (\<forall>c \<in> set (pn_conditions p). wc_step_id c \<in> hs_id ` set (collect_http steps))
      \<and> \<not> sn_truncated tr \<and> sn_error tr = None
      \<and> (\<forall>s \<in> set (sn_steps tr). sr_kind s = KindHttp \<longrightarrow> sr_error s = None)
      \<and> (\<forall>c \<in> set (pn_conditions p). condition_failure W (sn_steps tr) c = None))
   \<and> (ck_verdict (judge W steps p tr at) = WallOk \<longleftrightarrow> ck_reason (judge W steps p tr at) = None)"
proof (cases "condition_step_missing steps p at")
  case (Some r)
  then have "ck_verdict r = WallConfigError" "ck_reason r \<noteq> None"
    by (auto simp: condition_step_missing_def Let_def cond_result_def)
  then show ?thesis using Some condition_step_missing_None [of steps p at] by (auto simp: judge_def with_reason_def)
next
  case None
  note miss = None [unfolded condition_step_missing_None]
  show ?thesis
  proof (cases "latency_step_exists steps p \<and> \<not> sn_truncated tr \<and> sn_error tr = None")
    case False
    then show ?thesis using None by (auto simp: judge_def with_reason_def)
  next
    case ok: True
    show ?thesis
    proof (cases "failed_row (sn_steps tr)")
      case (Some se)
      obtain s e where se: "se = (s, e)" by (cases se)
      have "ck_reason (judge_failure (collect_http steps) at s e) \<noteq> None" by (auto simp: judge_failure_def Let_def with_reason_def split: option.splits)
      moreover have "\<not> (\<forall>s \<in> set (sn_steps tr). sr_kind s = KindHttp \<longrightarrow> sr_error s = None)"
        using Some failed_row_None [of "sn_steps tr"] by simp
      ultimately show ?thesis using ok None Some judge_failure_verdict [of "collect_http steps" at s e] by (simp add: judge_def se)
    next
      case nf: None
      show ?thesis
      proof (cases "eval_conditions W (collect_http steps) (sn_steps tr) at (pn_conditions p)")
        case (Some r)
        show ?thesis
          using ok None nf Some eval_conditions_verdict [OF Some] eval_conditions_None [of W "collect_http steps" "sn_steps tr" at "pn_conditions p"]
          by (simp add: judge_def)
      next
        case ev: None
        then show ?thesis using ok None nf miss failed_row_None [of "sn_steps tr"]
            eval_conditions_None [of W "collect_http steps" "sn_steps tr" at "pn_conditions p"] by (simp add: judge_def)
      qed
    qed
  qed
qed


subsection \<open>What never reaches the wall\<close>

text \<open>
  Two executions that differ only in what the wall must not show: requests, extracted variables and cookie
  lists in any way, error texts up to their two known beginnings, and response headers in the values of the
  authentication headers, which are empty in both or in neither.
\<close>

definition carries_auth :: "string \<Rightarrow> bool" where
  "carries_auth name \<longleftrightarrow> ascii_lower name \<in> {''authorization'', ''proxy-authorization'', ''cookie'', ''set-cookie''}"

lemma auth_headers_lower: "list_ex (eq_ignore_ascii_case name) auth_headers \<longleftrightarrow> carries_auth name"
proof -
  have "ascii_lower ''set-cookie'' = ''set-cookie''" "ascii_lower ''cookie'' = ''cookie''"
    "ascii_lower ''authorization'' = ''authorization''" "ascii_lower ''proxy-authorization'' = ''proxy-authorization''"
    by code_simp+
  then show ?thesis by (auto simp: auth_headers_def eq_ignore_ascii_case_def carries_auth_def)
qed

lemma is_auth_header_iff: "is_auth_header name \<longleftrightarrow> carries_auth name"
  by (simp add: is_auth_header_def auth_headers_lower)

definition same_wall_header :: "string \<times> string \<Rightarrow> string \<times> string \<Rightarrow> bool" where
  "same_wall_header h h' \<longleftrightarrow> fst h = fst h' \<and> (snd h = snd h' \<or> carries_auth (fst h) \<and> (snd h = [] \<longleftrightarrow> snd h' = []))"

definition same_wall_response :: "traced_response \<Rightarrow> traced_response \<Rightarrow> bool" where
  "same_wall_response r r' \<longleftrightarrow> tp_status r = tp_status r' \<and> tp_latency_ms r = tp_latency_ms r' \<and> tp_body r = tp_body r'
     \<and> tp_body_truncated r = tp_body_truncated r' \<and> list_all2 same_wall_header (tp_headers r) (tp_headers r')"

definition same_error_class :: "string \<Rightarrow> string \<Rightarrow> bool" where
  "same_error_class e e' \<longleftrightarrow> starts_with ''invalid header'' e = starts_with ''invalid header'' e'
     \<and> starts_with ''read body:'' e = starts_with ''read body:'' e'"

definition same_wall_row :: "step_trace \<Rightarrow> step_trace \<Rightarrow> bool" where
  "same_wall_row s s' \<longleftrightarrow> sr_step_id s = sr_step_id s' \<and> sr_kind s = sr_kind s' \<and> sr_branch s = sr_branch s'
     \<and> sr_unbound s = sr_unbound s' \<and> sr_branch_eval s = sr_branch_eval s' \<and> sr_timed_out s = sr_timed_out s'
     \<and> rel_option same_error_class (sr_error s) (sr_error s') \<and> rel_option same_wall_response (sr_response s) (sr_response s')"

definition same_wall_trace :: "scenario_trace \<Rightarrow> scenario_trace \<Rightarrow> bool" where
  "same_wall_trace t t' \<longleftrightarrow> sn_truncated t = sn_truncated t' \<and> sn_total_ms t = sn_total_ms t'
     \<and> (sn_error t = None \<longleftrightarrow> sn_error t' = None) \<and> list_all2 same_wall_row (sn_steps t) (sn_steps t')"

lemma find_rel: "list_all2 R xs ys \<Longrightarrow> (\<And>x y. R x y \<Longrightarrow> P x = Q y) \<Longrightarrow> rel_option R (find P xs) (find Q ys)"
  by (induction xs ys rule: list_all2_induct) auto

lemma same_wall_last_row: "list_all2 same_wall_row rows rows' \<Longrightarrow> rel_option same_wall_row (last_row sid rows) (last_row sid rows')"
  unfolding last_row_def rfind_def by (rule find_rel) (auto simp: same_wall_row_def)

lemma same_wall_last_response:
  "list_all2 same_wall_row rows rows' \<Longrightarrow> rel_option same_wall_response (last_response sid rows) (last_response sid rows')"
  using same_wall_last_row [of rows rows' sid] by (auto simp: last_response_def same_wall_row_def elim!: option.rel_cases)

lemma same_wall_find_header:
  "list_all2 same_wall_header hs hs' \<Longrightarrow>
   rel_option (\<lambda>v v'. v = v' \<or> carries_auth name \<and> (v = [] \<longleftrightarrow> v' = [])) (find_wall_header name hs) (find_wall_header name hs')"
proof (induction hs hs' rule: list_all2_induct)
  case (Cons h hs h' hs')
  obtain k v v' where h: "h = (k, v)" "h' = (k, v')" "v = v' \<or> carries_auth k \<and> (v = [] \<longleftrightarrow> v' = [])"
    using Cons.hyps(1) by (cases h; cases h') (auto simp: same_wall_header_def)
  then show ?case using Cons.IH by (cases "eq_ignore_ascii_case k name") (auto simp: find_wall_header_def eq_ignore_ascii_case_def carries_auth_def)
qed (simp add: find_wall_header_def)

definition auth_condition :: "success_condition \<Rightarrow> bool" where
  "auth_condition c \<longleftrightarrow> wc_source c = SrcHeader \<and> carries_auth (trim (wc_path c))"

lemma auth_condition_text:
  "auth_condition c \<Longrightarrow> condition_failure W rows c = Some t \<Longrightarrow>
   t \<in> {reason_cond_step_not_run, reason_no_value, reason_empty, reason_value_differs}"
  by (auto simp: auth_condition_def condition_failure_def actual_value_def is_auth_header_iff split: option.splits if_splits)

text \<open>What the wall shows of a condition is the same as soon as the condition holds in both or in neither.\<close>

lemma condition_failure_same:
  assumes "list_all2 same_wall_row rows rows'"
    and "auth_condition c \<Longrightarrow> condition_failure W rows c = None \<longleftrightarrow> condition_failure W rows' c = None"
  shows "condition_failure W rows c = condition_failure W rows' c"
  using same_wall_last_response [OF assms(1), of "wc_step_id c"]
proof (cases rule: option.rel_cases)
  case None
  then show ?thesis by (simp add: condition_failure_def)
next
  case (Some r r')
  note r = Some(3) [unfolded same_wall_response_def]
  show ?thesis
  proof (cases "wc_source c = SrcHeader")
    case False
    then have "actual_value (wo_extract W) c r = actual_value (wo_extract W) c r'"
      using r by (cases "wc_source c") (simp_all add: actual_value_def)
    then show ?thesis using Some(1,2) by (simp add: condition_failure_def)
  next
    case src: True
    have f: "rel_option (\<lambda>v v'. v = v' \<or> auth_condition c \<and> (v = [] \<longleftrightarrow> v' = []))
        (find_wall_header (trim (wc_path c)) (tp_headers r)) (find_wall_header (trim (wc_path c)) (tp_headers r'))"
      using same_wall_find_header [of "tp_headers r" "tp_headers r'" "trim (wc_path c)"] r src by (simp add: auth_condition_def)
    show ?thesis using f
    proof (cases rule: option.rel_cases)
      case None
      then show ?thesis using Some(1,2) src by (simp add: condition_failure_def actual_value_def)
    next
      case v: (Some v v')
      then show ?thesis using Some(1,2) src assms(2) by (auto simp: condition_failure_def actual_value_def auth_condition_def is_auth_header_iff split: if_splits)
    qed
  qed
qed

definition auth_outcomes_agree :: "wall_ops \<Rightarrow> step_trace list \<Rightarrow> step_trace list \<Rightarrow> success_condition list \<Rightarrow> bool" where
  "auth_outcomes_agree W rows rows' cs \<longleftrightarrow> list_all (\<lambda>c. auth_condition c \<longrightarrow>
     (condition_failure W rows c = None \<longleftrightarrow> condition_failure W rows' c = None)) cs"

lemma eval_conditions_same:
  "list_all2 same_wall_row rows rows' \<Longrightarrow> auth_outcomes_agree W rows rows' cs \<Longrightarrow>
   eval_conditions W hs rows at cs = eval_conditions W hs rows' at cs"
proof (induction cs)
  case (Cons c cs)
  have "condition_failure W rows c = condition_failure W rows' c"
    using Cons.prems by (intro condition_failure_same) (simp_all add: auth_outcomes_agree_def)
  with Cons show ?case by (simp add: auth_outcomes_agree_def split: option.split)
qed simp

lemma classify_same:
  "same_wall_row s s' \<Longrightarrow> same_error_class e e' \<Longrightarrow> Monitor_Check.classify h s e = Monitor_Check.classify h s' e'"
  by (auto simp: Monitor_Check.classify_def same_wall_row_def same_error_class_def same_wall_response_def status_mismatch_def
      elim!: option.rel_cases split: option.split)

lemma judge_failure_same:
  "same_wall_row s s' \<Longrightarrow> same_error_class e e' \<Longrightarrow> judge_failure hs at s e = judge_failure hs at s' e'"
  using classify_same [of s s' e e'] by (simp add: judge_failure_def Let_def same_wall_row_def)

lemma http_row_count_same: "list_all2 same_wall_row rows rows' \<Longrightarrow> http_row_count rows = http_row_count rows'"
  by (induction rows rows' rule: list_all2_induct) (auto simp: http_row_count_def same_wall_row_def)

lemma failed_row_same:
  assumes "list_all2 same_wall_row rows rows'"
  shows "rel_option (\<lambda>(s, e) (s', e'). same_wall_row s s' \<and> same_error_class e e') (failed_row rows) (failed_row rows')"
proof -
  have "rel_option same_wall_row (find (\<lambda>s. sr_kind s = KindHttp \<and> sr_error s \<noteq> None) rows)
      (find (\<lambda>s. sr_kind s = KindHttp \<and> sr_error s \<noteq> None) rows')"
    by (rule find_rel [OF assms]) (auto simp: same_wall_row_def elim: option.rel_cases)
  then show ?thesis by (cases rule: option.rel_cases) (auto simp: failed_row_def same_wall_row_def elim: option.rel_cases)
qed

lemma judge_same:
  assumes "same_wall_trace tr tr'" "auth_outcomes_agree W (sn_steps tr) (sn_steps tr') (pn_conditions p)"
  shows "judge W steps p tr at = judge W steps p tr' at"
proof -
  have rows: "list_all2 same_wall_row (sn_steps tr) (sn_steps tr')" using assms(1) by (simp add: same_wall_trace_def)
  have t: "sn_truncated tr = sn_truncated tr'" "sn_total_ms tr = sn_total_ms tr'" "sn_error tr \<noteq> None \<longleftrightarrow> sn_error tr' \<noteq> None"
    using assms(1) by (auto simp: same_wall_trace_def)
  have ev: "eval_conditions W hs (sn_steps tr) at (pn_conditions p) = eval_conditions W hs (sn_steps tr') at (pn_conditions p)" for hs
    by (rule eval_conditions_same [OF rows assms(2)])
  have lat: "map_option tp_latency_ms (last_response sid (sn_steps tr)) = map_option tp_latency_ms (last_response sid (sn_steps tr'))" for sid
    using same_wall_last_response [OF rows, of sid] by (cases rule: option.rel_cases) (simp_all add: same_wall_response_def)
  show ?thesis using failed_row_same [OF rows]
  proof (cases rule: option.rel_cases)
    case None
    show ?thesis unfolding judge_def Let_def t http_row_count_same [OF rows] ev lat None option.case ..
  next
    case (Some a b)
    obtain s e s' e' where se: "a = (s, e)" "b = (s', e')" "same_wall_row s s'" "same_error_class e e'"
      using Some(3) by (cases a; cases b) simp
    show ?thesis unfolding judge_def Let_def t http_row_count_same [OF rows] Some(1,2) se(1,2) option.case prod.case
      judge_failure_same [OF se(3,4)] ..
  qed
qed

lemma display_value_same:
  assumes "item_ok B d" "list_all2 same_wall_row rows rows'"
  shows "display_value X rows d = display_value X rows' d"
  using same_wall_last_response [OF assms(2), of "di_step_id d"]
proof (cases rule: option.rel_cases)
  case None
  then show ?thesis by (simp add: display_value_def)
next
  case (Some r r')
  note r = Some(3) [unfolded same_wall_response_def]
  show ?thesis
  proof (cases "di_source d")
    case DisHeader
    then have "\<not> carries_auth (trim (di_path d))" using assms(1) by (simp add: item_ok_def auth_headers_lower)
    then have "find_wall_header (trim (di_path d)) (tp_headers r) = find_wall_header (trim (di_path d)) (tp_headers r')"
      using same_wall_find_header [of "tp_headers r" "tp_headers r'" "trim (di_path d)"] r
      by (cases "find_wall_header (trim (di_path d)) (tp_headers r)"; cases "find_wall_header (trim (di_path d)) (tp_headers r')") auto
    then show ?thesis using DisHeader Some(1,2) by (simp add: display_value_def)
  qed (use Some(1,2) r in \<open>simp_all add: display_value_def\<close>)
qed

lemma display_values_same:
  "panel_fields_ok B p \<Longrightarrow> list_all2 same_wall_row rows rows' \<Longrightarrow> display_values X p rows = display_values X p rows'"
  using display_value_same [of B] by (auto simp: display_values_def panel_fields_ok_def list_all_iff)

definition demo_wall_ops :: wall_ops where
  "demo_wall_ops = \<lparr>wo_extract = demo_extract, wo_lower = (\<lambda>s. s)\<rparr>"

definition demo_wall_panel :: panel_config where
  "demo_wall_panel = \<lparr>pn_id = ''p'', pn_title = ''t'', pn_scenario = ''x'', pn_environment = None, pn_interval = 10, pn_timeout = 5,
     pn_latency = LatTotal, pn_thresholds = [], pn_bars = 60, pn_graph_max = 2000, pn_conditions = [],
     pn_display = [\<lparr>di_step_id = ''a'', di_source = DisStatus, di_path = []\<rparr>], pn_group = None, pn_step = None\<rparr>"

definition demo_row :: step_trace where
  "demo_row = \<lparr>sr_step_id = ''a'', sr_kind = KindHttp, sr_loop_index = None, sr_branch = None, sr_request = None,
     sr_response = None, sr_extracted = [], sr_unbound = [], sr_error = Some ''secret'', sr_branch_eval = [], sr_timed_out = False\<rparr>"

definition demo_trace :: scenario_trace where
  "demo_trace = \<lparr>sn_ok = False, sn_total_ms = 1, sn_steps = [demo_row], sn_final_vars = [], sn_truncated = False, sn_error = None\<rparr>"

theorem judge_ok_iff_witness:
  "ck_verdict (judge demo_wall_ops [] demo_wall_panel (demo_trace\<lparr>sn_steps := []\<rparr>) 0) = WallOk \<and> ck_verdict (judge demo_wall_ops [] demo_wall_panel demo_trace 0) \<noteq> WallOk"
  using judge_ok_iff [of demo_wall_ops "[]" demo_wall_panel "demo_trace\<lparr>sn_steps := []\<rparr>" 0] judge_ok_iff [of demo_wall_ops "[]" demo_wall_panel demo_trace 0]
  by (simp add: demo_wall_panel_def demo_trace_def latency_step_exists_def demo_row_def)

end
