(* ===== verification/Monitor_Steps.thy ===== *)
theory Monitor_Steps
  imports Monitor_Check
begin

text \<open>
  \<^verbatim>\<open>controller/src/monitor/step_judge.rs\<close>: the judgement of all step panels of one execution unit from a
  single trace. The classification of a panel, the order in which panels are judged and the stand-in for a
  cause without a red panel of its own follow the code; the panic of a missing result is \<^const>\<open>None\<close>.
\<close>

subsection \<open>Variables with an authentication source\<close>

definition is_auth_extract :: "extract_spec \<Rightarrow> bool" where
  "is_auth_extract e = (case e of
     ExCookie _ _ _ _ \<Rightarrow> True
   | ExHeader _ name _ _ \<Rightarrow> is_auth_header (trim name)
   | ExBody _ _ _ _ \<Rightarrow> False
   | ExStatus _ \<Rightarrow> False)"

fun auth_walk :: "step list \<Rightarrow> string set"
  and auth_step :: "step \<Rightarrow> string set"
  and auth_elifs :: "elif_branch list \<Rightarrow> string set"
  and auth_branches :: "branch list \<Rightarrow> string set" where
  "auth_walk [] = {}"
| "auth_walk (s # ss) = auth_step s \<union> auth_walk ss"
| "auth_step (StHttp h) = set (map extract_var (filter is_auth_extract (hs_extract h)))"
| "auth_step (StLoop _ _ _ body) = auth_walk body"
| "auth_step (StIf _ _ _ t els e) = auth_walk t \<union> auth_elifs els \<union> auth_walk e"
| "auth_step (StParallel _ _ bs) = auth_branches bs"
| "auth_elifs [] = {}"
| "auth_elifs (ElifBranch _ t # es) = auth_walk t \<union> auth_elifs es"
| "auth_branches [] = {}"
| "auth_branches (Branch n ss # bs) =
     (let inner = auth_walk ss in (\<lambda>v. n @ ''.'' @ v) ` inner \<union> inner) \<union> auth_branches bs"

definition auth_var_names :: "step list \<Rightarrow> string set" where "auth_var_names steps = auth_walk steps"

definition bare_name :: "string \<Rightarrow> string" where
  "bare_name name = (case rsplit_once CHR '':'' name of Some (n, _) \<Rightarrow> trim n | None \<Rightarrow> name)"

text \<open>Whether a token of the template names one of the variables.\<close>

function refs_any_from :: "string set \<Rightarrow> string \<Rightarrow> bool" where
  "refs_any_from names rest = (case find_sub ''{{'' rest of
     None \<Rightarrow> False
   | Some start \<Rightarrow> (let after = drop (start + 2) rest in
       case find_sub ''}}'' after of
         None \<Rightarrow> False
       | Some e \<Rightarrow> (let name = trim (take e after) in
           if name \<in> names \<or> bare_name name \<in> names then True else refs_any_from names (drop (e + 2) after))))"
  by pat_completeness auto
termination by (relation "measure (\<lambda>(_, rest). length rest)") (auto dest!: find_sub_Some)

declare refs_any_from.simps [simp del]

definition refs_any :: "string \<Rightarrow> string set \<Rightarrow> bool" where
  "refs_any raw names = (if names = {} then False else refs_any_from names raw)"

subsection \<open>Ancestors\<close>

text \<open>An enclosing \<^verbatim>\<open>if\<close> (id, name and the label of the branch taken) or parallel node (id, branch index).\<close>

datatype anc = AncIf string string string | AncPar string nat

type_synonym anc_map = "(string, anc list) hash_map"

text \<open>The entries the walk inserts, in its order.\<close>

fun anc_walk :: "anc list \<Rightarrow> step list \<Rightarrow> (string \<times> anc list) list"
  and anc_step :: "anc list \<Rightarrow> step \<Rightarrow> (string \<times> anc list) list"
  and anc_elifs :: "anc list \<Rightarrow> string \<Rightarrow> string \<Rightarrow> nat \<Rightarrow> elif_branch list \<Rightarrow> (string \<times> anc list) list"
  and anc_branches :: "anc list \<Rightarrow> string \<Rightarrow> nat \<Rightarrow> branch list \<Rightarrow> (string \<times> anc list) list" where
  "anc_walk st [] = []"
| "anc_walk st (s # ss) = anc_step st s @ anc_walk st ss"
| "anc_step st (StHttp h) = [(hs_id h, st)]"
| "anc_step st (StLoop _ _ _ body) = anc_walk st body"
| "anc_step st (StIf i n _ t els e) =
     (i, st) # anc_walk (st @ [AncIf i n ''then'']) t @ anc_elifs st i n 0 els @ anc_walk (st @ [AncIf i n ''else'']) e"
| "anc_step st (StParallel i _ bs) = anc_branches st i 0 bs"
| "anc_elifs st i n j [] = []"
| "anc_elifs st i n j (ElifBranch _ t # es) = anc_walk (st @ [AncIf i n (elif_label j)]) t @ anc_elifs st i n (j + 1) es"
| "anc_branches st i k [] = []"
| "anc_branches st i k (Branch _ ss # bs) = anc_walk (st @ [AncPar i k]) ss @ anc_branches st i (k + 1) bs"

definition ancestors :: "step list \<Rightarrow> anc_map" where
  "ancestors steps = fold (\<lambda>(i, st). hm_put i st) (anc_walk [] steps) []"

definition in_sibling_branch :: "anc list \<Rightarrow> anc list option \<Rightarrow> bool" where
  "in_sibling_branch mine theirs = (case theirs of None \<Rightarrow> False
     | Some ts \<Rightarrow> list_ex (\<lambda>m. case m of AncIf _ _ _ \<Rightarrow> False
         | AncPar pid bi \<Rightarrow> list_ex (\<lambda>t. case t of AncPar tp tb \<Rightarrow> tp = pid \<and> tb \<noteq> bi | AncIf _ _ _ \<Rightarrow> False) ts) mine)"

text \<open>The last position where a property holds.\<close>

definition rposition :: "('a \<Rightarrow> bool) \<Rightarrow> 'a list \<Rightarrow> nat option" where
  "rposition P xs = map_option (\<lambda>i. length xs - 1 - i) (position P (rev xs))"

text \<open>The decision that excludes a step: the row's position, the \<^verbatim>\<open>if\<close>'s id and name, and the step's label.\<close>

fun exclusion_row :: "step_trace list \<Rightarrow> anc list \<Rightarrow> (nat \<times> string \<times> string \<times> string) option" where
  "exclusion_row rows [] = None"
| "exclusion_row rows (AncPar _ _ # as) = exclusion_row rows as"
| "exclusion_row rows (AncIf i n label # as) =
     (case rposition (\<lambda>s. sr_kind s = KindIf \<and> sr_step_id s = i) rows of
        None \<Rightarrow> None
      | Some idx \<Rightarrow> if sr_branch (rows ! idx) \<noteq> Some label then Some (idx, i, n, label) else exclusion_row rows as)"

subsection \<open>Results\<close>

definition text_present :: string where "text_present = utf8 [234, 176, 146, 32, 236, 158, 136, 236, 157, 140]"
definition text_empty :: string where "text_empty = utf8 [235, 185, 132, 236, 150, 180, 32, 236, 158, 136, 236, 157, 140]"
definition text_env_value :: string where "text_env_value = utf8 [40, 237, 153, 152, 234, 178, 189, 32, 234, 176, 146, 41]"
definition text_auth_value :: string where "text_auth_value = utf8 [40, 236, 157, 184, 236, 166, 157, 32, 234, 176, 146, 41]"
definition text_condition :: string where "text_condition = utf8 [236, 161, 176, 234, 177, 180]"
definition text_condition_true :: string where "text_condition_true = utf8 [236, 161, 176, 234, 177, 180, 32, 61, 32, 236, 176, 184]"
definition text_condition_false :: string where "text_condition_false = utf8 [236, 161, 176, 234, 177, 180, 32, 61, 32, 234, 177, 176, 236, 167, 147]"
definition text_stopped_at :: string where "text_stopped_at = utf8 [236, 151, 144, 236, 132, 156, 32, 235, 169, 136, 236, 182, 164]"

definition if_op_symbol :: "compare_op \<Rightarrow> string" where
  "if_op_symbol p = (case p of
     OpEq \<Rightarrow> ''='' | OpNe \<Rightarrow> utf8 [226, 137, 160] | OpLt \<Rightarrow> ''<'' | OpGt \<Rightarrow> ''>''
   | OpLte \<Rightarrow> utf8 [226, 137, 164] | OpGte \<Rightarrow> utf8 [226, 137, 165]
   | OpContains \<Rightarrow> utf8 [237, 143, 172, 237, 149, 168]
   | OpMatches \<Rightarrow> ''~''
   | OpExists \<Rightarrow> text_present
   | OpEmpty \<Rightarrow> text_empty)"

definition http_name :: "http_step option \<Rightarrow> string \<Rightarrow> string" where
  "http_name h i = (case h of Some h' \<Rightarrow> if hs_name h' \<noteq> [] then hs_name h' else i | None \<Rightarrow> i)"

definition if_name :: "string \<Rightarrow> string \<Rightarrow> string" where
  "if_name i n = (if n = [] then i else n)"

definition error_verdict :: "http_step option \<Rightarrow> step_trace \<Rightarrow> string \<Rightarrow> nat \<Rightarrow> wall_verdict \<times> string" where
  "error_verdict http row err limit =
     (if sr_unbound row \<noteq> [] then (WallConfigError, reason_unbound_var)
      else if sr_timed_out row then (WallFail, reason_timeout limit)
      else (WallFail, classify http row err))"

definition has_space :: "string \<Rightarrow> bool" where "has_space s = list_ex (\<lambda>ch. trim ch = []) (utf8_chars s)"

definition leaf_label :: "string \<Rightarrow> string" where
  "leaf_label left = (case Option.bind (strip_prefix ''{{'' left) (strip_suffix ''}}'') of
     None \<Rightarrow> left
   | Some s \<Rightarrow> (let n = trim s in
       if n \<noteq> [] \<and> CHR ''{'' \<notin> set n \<and> CHR ''}'' \<notin> set n \<and> \<not> has_space n then n else left))"

definition unit_result :: "int \<Rightarrow> wall_verdict \<Rightarrow> string option \<Rightarrow> string option \<Rightarrow> check_result" where
  "unit_result at v reason detail =
     \<lparr>ck_at = at, ck_verdict = v, ck_latency = None, ck_reason = map_option shown reason,
      ck_detail = map_option shown detail, ck_display = []\<rparr>"

definition presence_op :: "compare_op \<Rightarrow> bool" where "presence_op p \<longleftrightarrow> p \<in> {OpExists, OpEmpty}"

text \<open>The text shown for the value a decision looked at.\<close>

definition value_text :: "string set \<Rightarrow> leaf_eval \<Rightarrow> string" where
  "value_text auth l = (case le_left_value l of
     None \<Rightarrow> text_env_value
   | Some v \<Rightarrow>
       if contains_sub ''${'' (le_left l) then text_env_value
       else if presence_op (le_op l) then (if v = [] then text_empty else text_present)
       else if refs_any (le_left l) auth then text_auth_value
       else if v = [] then [CHR 0x22, CHR 0x22] else v)"

definition decision_text :: "leaf_eval \<Rightarrow> string" where
  "decision_text l = (let target = leaf_label (le_left l); sym = if_op_symbol (le_op l) in
     if presence_op (le_op l) then text_condition @ '' '' @ target @ '' '' @ sym
     else text_condition @ '' '' @ target @ '' '' @ sym @ '' '' @
       (case le_right l of None \<Rightarrow> [CHR 0x22, CHR 0x22] | Some r \<Rightarrow> if r = [] then [CHR 0x22, CHR 0x22] else r))"

definition blocking_eval :: "step_trace \<Rightarrow> string \<Rightarrow> branch_eval option" where
  "blocking_eval row label =
     (case find (\<lambda>e. be_branch e = label \<and> \<not> be_passed e) (sr_branch_eval row) of
        Some e \<Rightarrow> Some e | None \<Rightarrow> find be_passed (sr_branch_eval row))"

definition branch_result :: "int \<Rightarrow> step_trace \<Rightarrow> string \<Rightarrow> string \<Rightarrow> string \<Rightarrow> string set \<Rightarrow> check_result" where
  "branch_result at row i n label auth =
     (let name = if_name i n in
      case blocking_eval row label of
        None \<Rightarrow> unit_result at WallBranchSkipped None (Some name)
      | Some e \<Rightarrow> (case be_leaf e of
          None \<Rightarrow> unit_result at WallBranchSkipped (Some (if be_passed e then text_condition_true else text_condition_false)) (Some name)
        | Some l \<Rightarrow>
            if le_left_unbound l \<and> \<not> presence_op (le_op l)
            then unit_result at WallFail (Some reason_branch_value_missing) (Some name)
            else unit_result at WallBranchSkipped
              (Some (leaf_label (le_left l) @ '' = '' @ value_text auth l)) (Some (decision_text l @ sep_dot @ name))))"

subsection \<open>The judgement of a unit\<close>

definition default_step_limit :: nat where "default_step_limit = 5"

definition find_http :: "http_step list \<Rightarrow> string \<Rightarrow> http_step option" where
  "find_http hs i = find (\<lambda>h. hs_id h = i) hs"

definition panel_step :: "panel_config \<Rightarrow> string" where
  "panel_step p = (case pn_step p of Some s \<Rightarrow> s | None \<Rightarrow> [])"

definition step_limit :: "(string, nat) hash_map \<Rightarrow> string \<Rightarrow> nat \<Rightarrow> nat" where
  "step_limit limits i fallback = (case hm_get limits i of Some n \<Rightarrow> n | None \<Rightarrow> fallback)"

definition chain_of :: "anc_map \<Rightarrow> string \<Rightarrow> anc list" where
  "chain_of am i = (case hm_get am i of Some c \<Rightarrow> c | None \<Rightarrow> [])"

definition own_result ::
  "wall_ops \<Rightarrow> http_step list \<Rightarrow> panel_config \<Rightarrow> scenario_trace \<Rightarrow> int \<Rightarrow> nat \<Rightarrow> nat \<Rightarrow> anc list \<Rightarrow> string set \<Rightarrow> check_result"
where
  "own_result W hs p tr at flow_cap limit chain auth =
     (let sid = panel_step p; rows = sn_steps tr in
      case last_row sid rows of
        Some row \<Rightarrow> (case sr_error row of
            Some err \<Rightarrow> (case error_verdict (find_http hs sid) row err limit of (v, why) \<Rightarrow> unit_result at v (Some why) None)
          | None \<Rightarrow> (case eval_conditions W hs rows at (pn_conditions p) of
              Some r \<Rightarrow> r
            | None \<Rightarrow> \<lparr>ck_at = at, ck_verdict = WallOk, ck_latency = map_option tp_latency_ms (sr_response row),
                ck_reason = None, ck_detail = None, ck_display = []\<rparr>))
      | None \<Rightarrow> (case exclusion_row rows chain of
          Some (idx, i, n, label) \<Rightarrow> branch_result at (rows ! idx) i n label auth
        | None \<Rightarrow> unit_result at WallFail (Some
            (if sn_truncated tr then if monitor_max_requests \<le> http_row_count rows then reason_request_cap else reason_timeout flow_cap
             else reason_cond_step_not_run)) None))"

datatype pre_class = PreMissing | PreCause nat | PreOwn

definition http_row_of :: "string \<Rightarrow> step_trace \<Rightarrow> bool" where
  "http_row_of sid s \<longleftrightarrow> sr_kind s = KindHttp \<and> sr_step_id s = sid"

text \<open>Where the rows before a panel's step end.\<close>

definition front_end :: "anc list \<Rightarrow> step_trace list \<Rightarrow> string \<Rightarrow> nat" where
  "front_end chain rows sid = (case position (http_row_of sid) rows of Some i \<Rightarrow> i
     | None \<Rightarrow> (case exclusion_row rows chain of Some (i, _) \<Rightarrow> i | None \<Rightarrow> length rows))"

definition is_cause :: "anc_map \<Rightarrow> anc list \<Rightarrow> step_trace \<Rightarrow> bool" where
  "is_cause am chain s \<longleftrightarrow> sr_kind s = KindHttp \<and> sr_error s \<noteq> None \<and> \<not> in_sibling_branch chain (hm_get am (sr_step_id s))"

definition classify_panel :: "http_step list \<Rightarrow> anc_map \<Rightarrow> step_trace list \<Rightarrow> panel_config \<Rightarrow> pre_class \<times> nat" where
  "classify_panel hs am rows p =
     (let sid = panel_step p in
      if find_http hs sid = None then (PreMissing, 0)
      else let chain = chain_of am sid; e = front_end chain rows sid in
        ((case position (is_cause am chain) (take e rows) of Some ci \<Rightarrow> PreCause ci | None \<Rightarrow> PreOwn), e))"

definition red :: "check_result \<Rightarrow> bool" where "red r \<longleftrightarrow> ck_verdict r \<in> {WallFail, WallConfigError}"

text \<open>Whether a judged panel of the cause's own step is red.\<close>

definition cause_panel_failed :: "panel_config list \<Rightarrow> string \<Rightarrow> check_result option list \<Rightarrow> bool" where
  "cause_panel_failed ps cid out \<longleftrightarrow>
     list_ex (\<lambda>(q, r). pn_step q = Some cid \<and> (case r of Some x \<Rightarrow> red x | None \<Rightarrow> False)) (zip ps out)"

definition same_cause :: "step_trace list \<Rightarrow> string \<Rightarrow> pre_class \<Rightarrow> bool" where
  "same_cause rows cid c = (case c of PreCause ck \<Rightarrow> sr_step_id (rows ! ck) = cid | _ \<Rightarrow> False)"

definition judge_panel ::
  "wall_ops \<Rightarrow> step list \<Rightarrow> panel_config list \<Rightarrow> scenario_trace \<Rightarrow> int \<Rightarrow> nat \<Rightarrow> (string, nat) hash_map
     \<Rightarrow> pre_class list \<Rightarrow> check_result option list \<Rightarrow> nat \<Rightarrow> check_result"
where
  "judge_panel W steps ps tr at flow_cap limits pre out i =
     (let hs = collect_http steps; am = ancestors steps; rows = sn_steps tr; p = ps ! i; sid = panel_step p in
      case pre ! i of
        PreMissing \<Rightarrow> unit_result at WallConfigError (Some reason_latency_step_missing) None
      | PreCause ci \<Rightarrow>
          (let crow = rows ! ci; cid = sr_step_id crow; chttp = find_http hs cid; cname = http_name chttp cid in
           if \<not> cause_panel_failed ps cid out \<and> position (same_cause rows cid) pre = Some i
           then (case error_verdict chttp crow (case sr_error crow of Some e \<Rightarrow> e | None \<Rightarrow> []) (step_limit limits cid default_step_limit) of
             (v, why) \<Rightarrow> unit_result at v (Some reason_upstream) (Some (cname @ sep_dot @ why)))
           else unit_result at WallUpstreamFailed (Some reason_upstream) (Some (cname @ text_stopped_at)))
      | PreOwn \<Rightarrow> own_result W hs p tr at flow_cap (step_limit limits sid (pn_timeout p)) (chain_of am sid) (auth_var_names steps))"

fun all_some :: "'a option list \<Rightarrow> 'a list option" where
  "all_some [] = Some []"
| "all_some (x # xs) = (case x of None \<Rightarrow> None | Some y \<Rightarrow> map_option ((#) y) (all_some xs))"

definition with_display :: "wall_ops \<Rightarrow> scenario_trace \<Rightarrow> panel_config \<Rightarrow> check_result \<Rightarrow> check_result" where
  "with_display W tr p r = r\<lparr>ck_display := display_values (wo_extract W) p (sn_steps tr)\<rparr>"

definition judge_unit ::
  "wall_ops \<Rightarrow> step list \<Rightarrow> panel_config list \<Rightarrow> scenario_trace \<Rightarrow> int \<Rightarrow> nat \<Rightarrow> (string, nat) hash_map \<Rightarrow> check_result list option"
where
  "judge_unit W steps ps tr at flow_cap limits =
     (if sn_error tr \<noteq> None then Some (map (\<lambda>p. with_display W tr p (unit_result at WallFail (Some reason_trace_error) None)) ps)
      else let cls = map (classify_panel (collect_http steps) (ancestors steps) (sn_steps tr)) ps;
               pre = map fst cls;
               order = sort_key (\<lambda>i. snd (cls ! i)) [0..<length ps];
               out = fold (\<lambda>i out. out[i := Some (judge_panel W steps ps tr at flow_cap limits pre out i)]) order (replicate (length ps) None)
           in map_option (\<lambda>rs. map2 (with_display W tr) ps rs) (all_some out))"

end
