(* ===== verification/Monitor_Steps_Props.thy ===== *)
theory Monitor_Steps_Props
  imports Monitor_Steps Monitor_Check_Props
begin

text \<open>
  The judgement of a unit: a table filled in the order of the panels' fronts equals the one in which every
  panel is judged against the final results of the others, so an upstream failure is always red somewhere;
  and neither a value of an authentication source nor the wording of an error reaches the wall.
\<close>

subsection \<open>Tables\<close>

lemma position_iff: "position P xs = Some i \<longleftrightarrow> i < length xs \<and> P (xs ! i) \<and> (\<forall>j < i. \<not> P (xs ! j))"
proof (induction xs arbitrary: i)
  case (Cons x xs)
  show ?case
  proof (cases i)
    case (Suc k)
    then show ?thesis using Cons.IH [of k] by (auto simp: less_Suc_eq_0_disj)
  qed auto
qed simp

lemma position_None: "position P xs = None \<longleftrightarrow> (\<forall>x \<in> set xs. \<not> P x)"
  by (induction xs) auto

lemma position_le: "i < length xs \<Longrightarrow> P (xs ! i) \<Longrightarrow> \<exists>k \<le> i. position P xs = Some k"
proof (cases "position P xs")
  case (Some k)
  moreover assume "i < length xs" "P (xs ! i)"
  ultimately show ?thesis by (metis position_iff not_less)
qed (auto simp: position_None)

definition fill :: "('a option list \<Rightarrow> nat \<Rightarrow> 'a) \<Rightarrow> nat list \<Rightarrow> 'a option list \<Rightarrow> 'a option list" where
  "fill J xs t = fold (\<lambda>i out. out[i := Some (J out i)]) xs t"

lemma fill_simps [simp]: "fill J [] t = t" "fill J (i # xs) t = fill J xs (t[i := Some (J t i)])"
  by (simp_all add: fill_def)

lemma fill_append: "fill J (xs @ ys) t = fill J ys (fill J xs t)"
  by (simp add: fill_def)

lemma fill_length [simp]: "length (fill J xs t) = length t"
  by (induction xs arbitrary: t) auto

lemma fill_other: "i \<notin> set xs \<Longrightarrow> fill J xs t ! i = t ! i"
  by (induction xs arbitrary: t) auto

lemma fill_at:
  assumes "distinct (ys @ i # zs)" "i < length t"
  shows "fill J (ys @ i # zs) t ! i = Some (J (fill J ys t) i)"
  using assms by (simp add: fill_append fill_other)

lemma fill_before: "distinct (ys @ zs) \<Longrightarrow> j \<in> set ys \<Longrightarrow> fill J (ys @ zs) t ! j = fill J ys t ! j"
  by (auto simp: fill_append intro: fill_other)

lemma sort_key_before:
  assumes "sort_key f xs = ys @ i # zs" "j \<in> set xs" "f j < f i"
  shows "j \<in> set ys"
proof -
  have "j \<in> set (ys @ i # zs)" "sorted (map f (ys @ i # zs))" using assms by (metis set_sort, metis sorted_sort_key)
  then show ?thesis using assms(3) by (auto simp: sorted_append)
qed

lemma all_some_map [simp]: "all_some (map Some xs) = Some xs"
  by (induction xs) auto

lemma all_some_iff: "all_some xs = Some ys \<longleftrightarrow> xs = map Some ys"
  by (induction xs arbitrary: ys) (auto split: option.splits)

text \<open>A table filled in the order of a key, where an entry depends only on those of a smaller key.\<close>

lemma fill_fixpoint:
  assumes "t = fill J (sort_key f [0..<n]) (replicate n None)"
    and "\<And>i out. i < n \<Longrightarrow> length out = n \<Longrightarrow> (\<And>j. j < n \<Longrightarrow> f j < f i \<Longrightarrow> out ! j = t ! j) \<Longrightarrow> J out i = J t i"
  shows "\<exists>rs. t = map Some rs \<and> length rs = n \<and> (\<forall>i < n. rs ! i = J (map Some rs) i)"
proof -
  let ?o = "sort_key f [0..<n]"
  have e: "t ! i = Some (J t i)" if i: "i < n" for i
  proof -
    have d: "distinct ?o" "i \<in> set ?o" using i by auto
    then obtain ys zs where o: "?o = ys @ i # zs" by (meson split_list)
    have "J (fill J ys (replicate n None)) i = J t i"
    proof (rule assms(2) [OF i])
      fix j assume "j < n" "f j < f i"
      then have "j \<in> set ys" using sort_key_before [OF o, of j] by simp
      then show "fill J ys (replicate n None) ! j = t ! j" using d unfolding assms(1) o by (simp add: fill_before)
    qed simp
    then show ?thesis using d(1) i unfolding assms(1) o by (simp add: fill_at)
  qed
  have l: "length t = n" using assms(1) by simp
  have m: "t = map Some (map (J t) [0..<n])" using e l by (intro nth_equalityI) auto
  show ?thesis
    by (rule exI [of _ "map (J t) [0..<n]"]) (use m in \<open>auto simp flip: m\<close>)
qed
subsection \<open>The order of judgement\<close>

definition unit_classes :: "step list \<Rightarrow> scenario_trace \<Rightarrow> panel_config list \<Rightarrow> (pre_class \<times> nat) list" where
  "unit_classes steps tr ps = map (classify_panel (collect_http steps) (ancestors steps) (sn_steps tr)) ps"

lemma classify_cause:
  assumes "classify_panel hs am rows p = (PreCause ci, e)"
  shows "ci < e \<and> ci < length rows \<and> sr_kind (rows ! ci) = KindHttp \<and> sr_error (rows ! ci) \<noteq> None"
  using assms by (auto simp: classify_panel_def Let_def position_iff is_cause_def split: if_splits option.splits)

lemma front_end_le:
  assumes "i < length rows" "http_row_of sid (rows ! i)" "pn_step p = Some sid"
  shows "snd (classify_panel hs am rows p) \<le> i"
  using position_le [of i rows "http_row_of sid"] assms by (auto simp: classify_panel_def panel_step_def front_end_def Let_def)

lemma cause_before:
  assumes "i < length ps" "j < length ps" "fst (unit_classes steps tr ps ! i) = PreCause ci"
    and "pn_step (ps ! j) = Some (sr_step_id (sn_steps tr ! ci))"
  shows "snd (unit_classes steps tr ps ! j) < snd (unit_classes steps tr ps ! i)"
proof -
  let ?c = "classify_panel (collect_http steps) (ancestors steps) (sn_steps tr)"
  obtain e where e: "?c (ps ! i) = (PreCause ci, e)" using assms(1,3) by (cases "?c (ps ! i)") (auto simp: unit_classes_def)
  note c = classify_cause [OF e]
  have "snd (?c (ps ! j)) \<le> ci"
    using front_end_le [of ci "sn_steps tr" _ "ps ! j"] c assms(4) by (simp add: http_row_of_def)
  then show ?thesis using c e assms(1,2) by (simp add: unit_classes_def)
qed

lemma cause_failed_iff:
  "length out = length ps \<Longrightarrow> cause_panel_failed ps cid out
    \<longleftrightarrow> (\<exists>j < length ps. pn_step (ps ! j) = Some cid \<and> (case out ! j of Some x \<Rightarrow> red x | None \<Rightarrow> False))"
  by (auto simp: cause_panel_failed_def list_ex_iff set_zip)

lemma cause_failed_cong:
  assumes "length out = length ps" "length out' = length ps"
    and "\<And>j. j < length ps \<Longrightarrow> pn_step (ps ! j) = Some cid \<Longrightarrow> out ! j = out' ! j"
  shows "cause_panel_failed ps cid out = cause_panel_failed ps cid out'"
  using assms by (auto simp: cause_failed_iff)

lemma judge_panel_cong:
  assumes "\<And>ci. pre ! i = PreCause ci \<Longrightarrow>
    cause_panel_failed ps (sr_step_id (sn_steps tr ! ci)) out = cause_panel_failed ps (sr_step_id (sn_steps tr ! ci)) out'"
  shows "judge_panel W steps ps tr at fc lim pre out i = judge_panel W steps ps tr at fc lim pre out' i"
  using assms by (cases "pre ! i") (simp_all add: judge_panel_def Let_def)

text \<open>The panels of a unit are judged as if every other result were known.\<close>

lemma judge_unit_fixpoint:
  assumes "sn_error tr = None"
  shows "\<exists>rs. judge_unit W steps ps tr at fc lim = Some (map2 (with_display W tr) ps rs) \<and> length rs = length ps
    \<and> (\<forall>i < length ps. rs ! i = judge_panel W steps ps tr at fc lim (map fst (unit_classes steps tr ps)) (map Some rs) i)"
proof -
  let ?cls = "unit_classes steps tr ps" and ?pre = "map fst (unit_classes steps tr ps)"
  let ?J = "judge_panel W steps ps tr at fc lim ?pre"
  define t where "t = fill ?J (sort_key (\<lambda>i. snd (?cls ! i)) [0..<length ps]) (replicate (length ps) None)"
  have l: "length t = length ps" by (simp add: t_def)
  have "\<exists>rs. t = map Some rs \<and> length rs = length ps \<and> (\<forall>i < length ps. rs ! i = ?J (map Some rs) i)"
  proof (rule fill_fixpoint [OF t_def])
    fix i out assume i: "i < length ps" and o: "length out = length ps"
      and p: "\<And>j. j < length ps \<Longrightarrow> snd (?cls ! j) < snd (?cls ! i) \<Longrightarrow> out ! j = t ! j"
    show "?J out i = ?J t i"
    proof (rule judge_panel_cong, rule cause_failed_cong [OF o l])
      fix ci j assume "?pre ! i = PreCause ci" "j < length ps" "pn_step (ps ! j) = Some (sr_step_id (sn_steps tr ! ci))"
      then show "out ! j = t ! j" using p cause_before [of i ps j steps tr ci] i by (simp add: unit_classes_def)
    qed
  qed
  then obtain rs where rs: "t = map Some rs" "length rs = length ps" "\<forall>i < length ps. rs ! i = ?J (map Some rs) i" by blast
  have "judge_unit W steps ps tr at fc lim = map_option (\<lambda>rs. map2 (with_display W tr) ps rs) (all_some t)"
    using assms by (simp add: judge_unit_def t_def fill_def unit_classes_def Let_def)
  then show ?thesis using rs by auto
qed
subsection \<open>Verdicts\<close>

lemma error_verdict_red: "error_verdict h row e n = (v, why) \<Longrightarrow> v \<in> {WallFail, WallConfigError}"
  by (auto simp: error_verdict_def split: if_splits)

lemma unit_result_simps [simp]:
  "ck_verdict (unit_result at v r d) = v" "ck_reason (unit_result at v r d) = map_option shown r"
  by (simp_all add: unit_result_def)

lemma with_display_simps [simp]:
  "ck_verdict (with_display W tr p r) = ck_verdict r" "ck_reason (with_display W tr p r) = ck_reason r"
  by (simp_all add: with_display_def)

lemma red_display [simp]: "red (with_display W tr p r) = red r"
  by (simp add: red_def)

lemma branch_result_verdict: "ck_verdict (branch_result at row i n label auth) \<in> {WallBranchSkipped, WallFail}"
  by (auto simp: branch_result_def Let_def split: option.splits)

lemma own_result_verdict: "ck_verdict (own_result W hs p tr at fc lim chain auth) \<noteq> WallUpstreamFailed"
  using branch_result_verdict
  by (auto simp: own_result_def Let_def split: option.splits prod.splits dest: error_verdict_red eval_conditions_verdict)
    (metis insertE singletonD wall_verdict.distinct)+

lemma judge_panel_cause:
  assumes "pre ! i = PreCause ci" "cid = sr_step_id (sn_steps tr ! ci)"
  shows "ck_reason (judge_panel W steps ps tr at fc lim pre out i) = Some (shown reason_upstream)
    \<and> (ck_verdict (judge_panel W steps ps tr at fc lim pre out i) = WallUpstreamFailed
        \<longleftrightarrow> cause_panel_failed ps cid out \<or> position (same_cause (sn_steps tr) cid) pre \<noteq> Some i)
    \<and> (\<not> red (judge_panel W steps ps tr at fc lim pre out i)
        \<longleftrightarrow> cause_panel_failed ps cid out \<or> position (same_cause (sn_steps tr) cid) pre \<noteq> Some i)"
  using assms by (auto simp: judge_panel_def Let_def red_def split: prod.splits dest: error_verdict_red)

lemma judge_panel_upstream:
  assumes "ck_verdict (judge_panel W steps ps tr at fc lim pre out i) = WallUpstreamFailed"
  shows "\<exists>ci. pre ! i = PreCause ci"
  using assms own_result_verdict by (cases "pre ! i") (auto simp: judge_panel_def Let_def)

lemma cause_panel_failed_full:
  "length rs = length ps \<Longrightarrow> cause_panel_failed ps cid (map Some rs) \<longleftrightarrow> (\<exists>j < length ps. pn_step (ps ! j) = Some cid \<and> red (rs ! j))"
  by (auto simp: cause_failed_iff)
text \<open>The failed row that stops a panel, when there is one.\<close>

definition unit_cause :: "step list \<Rightarrow> scenario_trace \<Rightarrow> panel_config \<Rightarrow> nat option" where
  "unit_cause steps tr p = (case fst (classify_panel (collect_http steps) (ancestors steps) (sn_steps tr) p) of
     PreCause ci \<Rightarrow> Some ci | _ \<Rightarrow> None)"

lemma unit_cause_row:
  "unit_cause steps tr p = Some ci \<Longrightarrow> ci < length (sn_steps tr) \<and> sr_kind (sn_steps tr ! ci) = KindHttp \<and> sr_error (sn_steps tr ! ci) \<noteq> None"
  using classify_cause [of "collect_http steps" "ancestors steps" "sn_steps tr" p ci]
  by (cases "classify_panel (collect_http steps) (ancestors steps) (sn_steps tr) p")
    (auto simp: unit_cause_def split: pre_class.splits)

lemma classes_cause: "i < length ps \<Longrightarrow> fst (unit_classes steps tr ps ! i) = PreCause ci \<longleftrightarrow> unit_cause steps tr (ps ! i) = Some ci"
  by (auto simp: unit_classes_def unit_cause_def split: pre_class.splits)

lemma classes_length [simp]: "length (unit_classes steps tr ps) = length ps"
  by (simp add: unit_classes_def)

text \<open>Whether a panel is stopped by the step \<open>cid\<close>.\<close>

definition stopped_by :: "step list \<Rightarrow> scenario_trace \<Rightarrow> string \<Rightarrow> panel_config \<Rightarrow> bool" where
  "stopped_by steps tr cid p \<longleftrightarrow> (\<exists>ci. unit_cause steps tr p = Some ci \<and> sr_step_id (sn_steps tr ! ci) = cid)"

lemma same_cause_iff:
  "i < length ps \<Longrightarrow> same_cause (sn_steps tr) cid (fst (unit_classes steps tr ps ! i)) \<longleftrightarrow> stopped_by steps tr cid (ps ! i)"
  by (auto simp: stopped_by_def same_cause_def unit_classes_def unit_cause_def split: pre_class.splits)

lemma stand_in_iff:
  assumes "i < length ps" "stopped_by steps tr cid (ps ! i)"
  shows "position (same_cause (sn_steps tr) cid) (map fst (unit_classes steps tr ps)) = Some i
    \<longleftrightarrow> (\<forall>k < i. \<not> stopped_by steps tr cid (ps ! k))"
  using assms by (simp add: position_iff same_cause_iff)

text \<open>Whether a panel turns red in place of the failed step.\<close>

definition stands_in :: "step list \<Rightarrow> scenario_trace \<Rightarrow> panel_config list \<Rightarrow> check_result list \<Rightarrow> string \<Rightarrow> nat \<Rightarrow> bool" where
  "stands_in steps tr ps rs cid i \<longleftrightarrow> \<not> (\<exists>j < length ps. pn_step (ps ! j) = Some cid \<and> red (rs ! j))
     \<and> (\<forall>k < i. \<not> stopped_by steps tr cid (ps ! k))"

lemma judge_unit_cause:
  assumes "judge_unit W steps ps tr at fc lim = Some rs" "sn_error tr = None" "i < length ps"
    and c: "unit_cause steps tr (ps ! i) = Some ci" and cid: "cid = sr_step_id (sn_steps tr ! ci)"
  shows "(red (rs ! i) \<longleftrightarrow> stands_in steps tr ps rs cid i) \<and> (ck_verdict (rs ! i) = WallUpstreamFailed \<longleftrightarrow> \<not> stands_in steps tr ps rs cid i)
    \<and> ck_reason (rs ! i) = Some (shown reason_upstream)"
proof -
  let ?pre = "map fst (unit_classes steps tr ps)"
  obtain rs' where rs: "rs = map2 (with_display W tr) ps rs'" and l: "length rs' = length ps"
    and r: "\<forall>i < length ps. rs' ! i = judge_panel W steps ps tr at fc lim ?pre (map Some rs') i"
    using judge_unit_fixpoint [OF assms(2), of W steps ps at fc lim] assms(1) by auto
  have k: "\<And>j. j < length ps \<Longrightarrow> rs ! j = with_display W tr (ps ! j) (rs' ! j)" using rs l by simp
  have "?pre ! i = PreCause ci" using classes_cause [of i ps steps tr ci] assms(3) c by simp
  note p = judge_panel_cause [OF this cid, of W steps ps at fc lim "map Some rs'"]
  have "stopped_by steps tr cid (ps ! i)" using c cid by (auto simp: stopped_by_def)
  then have s: "stands_in steps tr ps rs cid i \<longleftrightarrow> \<not> (cause_panel_failed ps cid (map Some rs')
      \<or> position (same_cause (sn_steps tr) cid) ?pre \<noteq> Some i)"
    using stand_in_iff [OF assms(3)] l k by (auto simp: stands_in_def cause_panel_failed_full)
  show ?thesis using p r assms(3) k [OF assms(3)] unfolding s by auto
qed

lemma judge_unit_length: "judge_unit W steps ps tr at fc lim = Some rs \<Longrightarrow> length rs = length ps"
  using judge_unit_fixpoint [of tr W steps ps at fc lim] by (cases "sn_error tr") (auto simp: judge_unit_def)

lemma judge_unit_upstream:
  assumes "judge_unit W steps ps tr at fc lim = Some rs" "i < length ps" "ck_verdict (rs ! i) = WallUpstreamFailed"
  shows "sn_error tr = None \<and> unit_cause steps tr (ps ! i) \<noteq> None"
proof (cases "sn_error tr")
  case None
  obtain rs' where rs: "rs = map2 (with_display W tr) ps rs'" and l: "length rs' = length ps"
    and r: "\<forall>i < length ps. rs' ! i = judge_panel W steps ps tr at fc lim (map fst (unit_classes steps tr ps)) (map Some rs') i"
    using judge_unit_fixpoint [OF None, of W steps ps at fc lim] assms(1) by auto
  have "ck_verdict (rs' ! i) = WallUpstreamFailed" using rs l assms(2,3) by simp
  then obtain ci where "map fst (unit_classes steps tr ps) ! i = PreCause ci"
    using judge_panel_upstream r assms(2) by metis
  then show ?thesis using None assms(2) classes_cause [of i ps steps tr ci] by simp
next
  case (Some e)
  then show ?thesis using assms by (auto simp: judge_unit_def)
qed

text \<open>
  C34: one failure turns one panel red. A panel stopped by a failed request is judged against the final
  results of the whole unit, in whatever order the panels are configured: it is red exactly when no panel of
  the failed step itself is red and it is the first panel stopped by that step, and shows as not checked
  otherwise; either way it names the upstream failure. Every panel has a result.
\<close>

theorem upstream_failure_shown_once:
  assumes "sn_error tr = None"
  shows "\<exists>rs. judge_unit W steps ps tr at fc lim = Some rs \<and> length rs = length ps
    \<and> (\<forall>i ci. i < length ps \<longrightarrow> unit_cause steps tr (ps ! i) = Some ci \<longrightarrow>
        (red (rs ! i) \<longleftrightarrow> stands_in steps tr ps rs (sr_step_id (sn_steps tr ! ci)) i)
        \<and> (ck_verdict (rs ! i) = WallUpstreamFailed \<longleftrightarrow> \<not> stands_in steps tr ps rs (sr_step_id (sn_steps tr ! ci)) i)
        \<and> ck_reason (rs ! i) = Some (shown reason_upstream))"
proof -
  obtain rs where rs: "judge_unit W steps ps tr at fc lim = Some rs" using judge_unit_fixpoint [OF assms] by blast
  show ?thesis using judge_unit_cause [OF rs assms _ _ refl] judge_unit_length [OF rs] rs by blast
qed

lemma judge_unit_nth:
  assumes "judge_unit W steps ps tr at fc lim = Some rs" "sn_error tr = None" "i < length ps"
  shows "\<exists>out. rs ! i = with_display W tr (ps ! i)
    (judge_panel W steps ps tr at fc lim (map fst (unit_classes steps tr ps)) out i)"
  using judge_unit_fixpoint [OF assms(2), of W steps ps at fc lim] assms(1,3) by auto

lemma least_stopped:
  assumes "stopped_by steps tr cid (ps ! i)" "i < length ps"
  shows "\<exists>k < length ps. stopped_by steps tr cid (ps ! k) \<and> (\<forall>m < k. \<not> stopped_by steps tr cid (ps ! m))"
proof -
  obtain k where k: "stopped_by steps tr cid (ps ! k)" "\<forall>m < k. \<not> stopped_by steps tr cid (ps ! m)"
    using exists_least_iff [of "\<lambda>k. stopped_by steps tr cid (ps ! k)"] assms(1) by blast
  have "k \<le> i" using k(2) assms(1) not_less by blast
  then have "k < length ps" using assms(2) by (rule le_less_trans)
  with k show ?thesis by blast
qed

text \<open>The name under which a failed step is shown.\<close>

definition cause_name :: "step list \<Rightarrow> step_trace \<Rightarrow> string" where
  "cause_name steps row = http_name (find_http (collect_http steps) (sr_step_id row)) (sr_step_id row)"

lemma judge_panel_detail:
  assumes "pre ! i = PreCause ci"
  shows "ck_verdict (judge_panel W steps ps tr at fc lim pre out i) = WallUpstreamFailed \<Longrightarrow>
     ck_detail (judge_panel W steps ps tr at fc lim pre out i) = Some (shown (cause_name steps (sn_steps tr ! ci) @ text_stopped_at))"
    and "red (judge_panel W steps ps tr at fc lim pre out i) \<Longrightarrow>
     \<exists>why. ck_detail (judge_panel W steps ps tr at fc lim pre out i) = Some (shown (cause_name steps (sn_steps tr ! ci) @ sep_dot @ why))"
proof -
  let ?row = "sn_steps tr ! ci" and ?cid = "sr_step_id (sn_steps tr ! ci)"
  obtain v why where e: "error_verdict (find_http (collect_http steps) ?cid) ?row (case sr_error ?row of Some e \<Rightarrow> e | None \<Rightarrow> [])
      (step_limit lim ?cid default_step_limit) = (v, why)" by (cases "error_verdict (find_http (collect_http steps) ?cid) ?row
        (case sr_error ?row of Some e \<Rightarrow> e | None \<Rightarrow> []) (step_limit lim ?cid default_step_limit)")
  define stand where "stand \<longleftrightarrow> \<not> cause_panel_failed ps ?cid out \<and> position (same_cause (sn_steps tr) ?cid) pre = Some i"
  have j: "judge_panel W steps ps tr at fc lim pre out i = (if stand
      then unit_result at v (Some reason_upstream) (Some (cause_name steps ?row @ sep_dot @ why))
      else unit_result at WallUpstreamFailed (Some reason_upstream) (Some (cause_name steps ?row @ text_stopped_at)))"
    unfolding judge_panel_def Let_def assms pre_class.case e prod.case stand_def cause_name_def ..
  have v: "v \<noteq> WallUpstreamFailed" using error_verdict_red [OF e] by auto
  show "ck_verdict (judge_panel W steps ps tr at fc lim pre out i) = WallUpstreamFailed \<Longrightarrow>
     ck_detail (judge_panel W steps ps tr at fc lim pre out i) = Some (shown (cause_name steps ?row @ text_stopped_at))"
    using v by (simp add: j unit_result_def split: if_splits)
  show "red (judge_panel W steps ps tr at fc lim pre out i) \<Longrightarrow>
     \<exists>why. ck_detail (judge_panel W steps ps tr at fc lim pre out i) = Some (shown (cause_name steps ?row @ sep_dot @ why))"
    by (auto simp: j unit_result_def red_def split: if_splits)
qed

lemma cause_front:
  assumes "unit_cause steps tr p = Some ci" "k < length (sn_steps tr)" "http_row_of (panel_step p) (sn_steps tr ! k)"
  shows "ci < k"
proof -
  let ?c = "classify_panel (collect_http steps) (ancestors steps) (sn_steps tr) p"
  obtain e where e: "?c = (PreCause ci, e)" using assms(1) by (cases ?c) (auto simp: unit_cause_def split: pre_class.splits)
  have "snd ?c \<le> k"
    using position_le [of k "sn_steps tr" "http_row_of (panel_step p)"] assms(2,3) by (auto simp: classify_panel_def front_end_def Let_def)
  then show ?thesis using classify_cause [OF e] e by simp
qed

text \<open>
  C35: a unit never hides a failure. When a panel is shown as not checked, a request failed in the trace
  before the panel's own step was executed, and the panel names that request's step; and some panel of the
  unit is red for that failure: a panel of the failed step itself, or one that is stopped by the same step and
  names it together with the upstream failure.
\<close>

theorem upstream_failure_visible:
  assumes "judge_unit W steps ps tr at fc lim = Some rs" "i < length ps" "ck_verdict (rs ! i) = WallUpstreamFailed"
  shows "\<exists>ci < length (sn_steps tr). \<exists>row. row = sn_steps tr ! ci \<and> unit_cause steps tr (ps ! i) = Some ci
    \<and> sr_kind row = KindHttp \<and> sr_error row \<noteq> None
    \<and> (\<forall>k < length (sn_steps tr). http_row_of (panel_step (ps ! i)) (sn_steps tr ! k) \<longrightarrow> ci < k)
    \<and> ck_detail (rs ! i) = Some (shown (cause_name steps row @ text_stopped_at))
    \<and> (\<exists>j < length ps. red (rs ! j) \<and> (pn_step (ps ! j) = Some (sr_step_id row)
         \<or> stopped_by steps tr (sr_step_id row) (ps ! j) \<and> ck_reason (rs ! j) = Some (shown reason_upstream)
           \<and> (\<exists>why. ck_detail (rs ! j) = Some (shown (cause_name steps row @ sep_dot @ why)))))"
proof -
  obtain ci where none: "sn_error tr = None" and ci: "unit_cause steps tr (ps ! i) = Some ci"
    using judge_unit_upstream [OF assms] by blast
  let ?row = "sn_steps tr ! ci"
  have stand: "\<exists>j < length ps. red (rs ! j) \<and> (pn_step (ps ! j) = Some (sr_step_id ?row)
         \<or> stopped_by steps tr (sr_step_id ?row) (ps ! j) \<and> ck_reason (rs ! j) = Some (shown reason_upstream)
           \<and> (\<exists>why. ck_detail (rs ! j) = Some (shown (cause_name steps ?row @ sep_dot @ why))))"
  proof (cases "\<exists>j < length ps. pn_step (ps ! j) = Some (sr_step_id ?row) \<and> red (rs ! j)")
    case False
    have s: "stopped_by steps tr (sr_step_id ?row) (ps ! i)" using ci by (auto simp: stopped_by_def)
    obtain k where k: "stopped_by steps tr (sr_step_id ?row) (ps ! k)" "k < length ps"
      and least: "\<forall>m < k. \<not> stopped_by steps tr (sr_step_id ?row) (ps ! m)"
      using least_stopped [OF s assms(2)] by blast
    obtain ck where ck: "unit_cause steps tr (ps ! k) = Some ck" "sr_step_id (sn_steps tr ! ck) = sr_step_id ?row"
      using k(1) by (auto simp: stopped_by_def)
    have "stands_in steps tr ps rs (sr_step_id ?row) k" using False least by (auto simp: stands_in_def)
    then have red: "red (rs ! k)" "ck_reason (rs ! k) = Some (shown reason_upstream)"
      using judge_unit_cause [OF assms(1) none k(2) ck(1) refl] ck(2) by auto
    obtain out where out: "rs ! k = with_display W tr (ps ! k) (judge_panel W steps ps tr at fc lim (map fst (unit_classes steps tr ps)) out k)"
      using judge_unit_nth [OF assms(1) none k(2)] by blast
    have "map fst (unit_classes steps tr ps) ! k = PreCause ck" using classes_cause [of k ps steps tr ck] k(2) ck(1) by simp
    from judge_panel_detail(2) [OF this, of W steps ps tr at fc lim out] red(1)
    have "\<exists>why. ck_detail (rs ! k) = Some (shown (cause_name steps ?row @ sep_dot @ why))"
      using ck(2) by (auto simp: out with_display_def red_def cause_name_def)
    then show ?thesis using k red by blast
  qed blast
  obtain out where out: "rs ! i = with_display W tr (ps ! i) (judge_panel W steps ps tr at fc lim (map fst (unit_classes steps tr ps)) out i)"
    using judge_unit_nth [OF assms(1) none assms(2)] by blast
  have "map fst (unit_classes steps tr ps) ! i = PreCause ci" using classes_cause [of i ps steps tr ci] assms(2) ci by simp
  from judge_panel_detail(1) [OF this, of W steps ps tr at fc lim out] assms(3)
  have detail: "ck_detail (rs ! i) = Some (shown (cause_name steps ?row @ text_stopped_at))" by (simp add: out with_display_def)
  show ?thesis using unit_cause_row [OF ci] cause_front [OF ci] ci detail stand by blast
qed
subsection \<open>A green panel\<close>

lemma position_takeWhile: "position P xs = Some e \<Longrightarrow> take e xs = takeWhile (\<lambda>x. \<not> P x) xs"
  by (induction xs arbitrary: e) (auto split: if_splits)

lemma rfind_mem: "rfind P xs = Some x \<Longrightarrow> x \<in> set xs \<and> P x"
proof -
  have "find P ys = Some x \<Longrightarrow> x \<in> set ys \<and> P x" for ys by (induction ys) (auto split: if_splits)
  from this [of "rev xs"] show "rfind P xs = Some x \<Longrightarrow> x \<in> set xs \<and> P x" by (simp add: rfind_def)
qed

lemma last_row_position:
  assumes "last_row sid rows = Some row"
  shows "\<exists>e. position (http_row_of sid) rows = Some e"
proof -
  have "row \<in> set rows" "http_row_of sid row" using rfind_mem [OF assms [unfolded last_row_def]] by (auto simp: http_row_of_def)
  then show ?thesis using position_None [of "http_row_of sid" rows] by blast
qed

lemma error_verdict_not_ok: "ck_verdict (case error_verdict h row e n of (v, why) \<Rightarrow> unit_result at v (f why) (g why)) \<noteq> WallOk"
  using error_verdict_red [of h row e n] by (cases "error_verdict h row e n") auto

lemma own_result_ok:
  "ck_verdict (own_result W hs p tr at fc lim chain auth) = WallOk \<longleftrightarrow>
     (\<exists>row. last_row (panel_step p) (sn_steps tr) = Some row \<and> sr_error row = None)
     \<and> (\<forall>c \<in> set (pn_conditions p). condition_failure W (sn_steps tr) c = None)"
proof (cases "last_row (panel_step p) (sn_steps tr)")
  case None
  have b: "ck_verdict (branch_result at row i n label auth) \<noteq> WallOk" for row i n label
    using branch_result_verdict [of at row i n label auth] by auto
  show ?thesis using None b by (simp add: own_result_def Let_def split: option.split)
next
  case (Some row)
  show ?thesis
  proof (cases "sr_error row")
    case None
    then show ?thesis using Some eval_conditions_verdict [of W hs "sn_steps tr" at "pn_conditions p"]
      by (cases "eval_conditions W hs (sn_steps tr) at (pn_conditions p)")
        (simp_all add: own_result_def Let_def eval_conditions_None [of W hs "sn_steps tr" at, symmetric])
  next
    case (Some err)
    then show ?thesis using \<open>last_row _ _ = Some row\<close> error_verdict_not_ok [where f = Some and g = "\<lambda>_. None"]
      by (simp add: own_result_def Let_def)
  qed
qed

lemma judge_panel_ok:
  "ck_verdict (judge_panel W steps ps tr at fc lim pre out i) = WallOk \<longleftrightarrow>
     pre ! i = PreOwn \<and> (\<exists>row. last_row (panel_step (ps ! i)) (sn_steps tr) = Some row \<and> sr_error row = None)
     \<and> (\<forall>c \<in> set (pn_conditions (ps ! i)). condition_failure W (sn_steps tr) c = None)"
proof (cases "pre ! i")
  case (PreCause ci)
  then show ?thesis using error_verdict_not_ok [where f = "\<lambda>_. Some reason_upstream" and g = "\<lambda>why. Some (n @ sep_dot @ why)" for n]
    by (simp add: judge_panel_def Let_def)
qed (simp_all add: judge_panel_def Let_def own_result_ok)

lemma classify_own:
  assumes "position (http_row_of sid) rows = Some e" "panel_step p = sid"
  shows "fst (classify_panel hs am rows p) = PreOwn \<longleftrightarrow> find_http hs sid \<noteq> None
    \<and> (\<forall>s \<in> set (takeWhile (\<lambda>s. \<not> http_row_of sid s) rows). \<not> is_cause am (chain_of am sid) s)"
  using assms position_takeWhile [OF assms(1)] position_None [of "is_cause am (chain_of am sid)" "take e rows"]
  by (auto simp: classify_panel_def Let_def front_end_def split: option.splits)

lemma find_http_None: "find_http hs sid = None \<longleftrightarrow> sid \<notin> hs_id ` set hs"
  by (auto simp: find_http_def find_None_iff)

text \<open>
  C36: a step panel is green exactly when the flow was set up, its step exists and was executed, the last
  execution succeeded, no request before the first one failed (outside the parallel branches beside it), and
  every condition holds.
\<close>

theorem unit_ok_iff:
  assumes "judge_unit W steps ps tr at fc lim = Some rs" "i < length ps" "pn_step (ps ! i) = Some sid"
  shows "ck_verdict (rs ! i) = WallOk \<longleftrightarrow> sn_error tr = None \<and> sid \<in> hs_id ` set (collect_http steps)
    \<and> (\<exists>row. last_row sid (sn_steps tr) = Some row \<and> sr_error row = None)
    \<and> (\<forall>s \<in> set (takeWhile (\<lambda>s. \<not> http_row_of sid s) (sn_steps tr)). \<not> is_cause (ancestors steps) (chain_of (ancestors steps) sid) s)
    \<and> (\<forall>c \<in> set (pn_conditions (ps ! i)). condition_failure W (sn_steps tr) c = None)"
proof (cases "sn_error tr")
  case (Some e)
  then show ?thesis using assms by (auto simp: judge_unit_def)
next
  case None
  obtain rs' where rs: "rs = map2 (with_display W tr) ps rs'" and l: "length rs' = length ps"
    and r: "\<forall>i < length ps. rs' ! i = judge_panel W steps ps tr at fc lim (map fst (unit_classes steps tr ps)) (map Some rs') i"
    using judge_unit_fixpoint [OF None, of W steps ps at fc lim] assms(1) by auto
  have p: "panel_step (ps ! i) = sid" using assms(3) by (simp add: panel_step_def)
  have v: "ck_verdict (rs ! i) = ck_verdict (rs' ! i)" using rs l assms(2) by simp
  have c: "map fst (unit_classes steps tr ps) ! i = fst (classify_panel (collect_http steps) (ancestors steps) (sn_steps tr) (ps ! i))"
    using assms(2) by (simp add: unit_classes_def)
  show ?thesis
  proof (cases "last_row sid (sn_steps tr)")
    case (Some row)
    then obtain e where "position (http_row_of sid) (sn_steps tr) = Some e" using last_row_position by blast
    from classify_own [OF this p] show ?thesis
      using None r assms(2) by (auto simp: v judge_panel_ok p c find_http_None)
  qed (use r assms(2) in \<open>simp add: v judge_panel_ok p\<close>)
qed
subsection \<open>Values with an authentication source\<close>

text \<open>
  The extracts of a scenario, each with the names of the parallel branches around it, outermost first. When
  the branches join, the variable \<open>v\<close> of a branch \<open>b\<close> becomes \<open>b.v\<close>, once for every enclosing parallel node.
\<close>

fun extract_paths :: "step list \<Rightarrow> (string list \<times> extract_spec) list"
  and step_paths :: "step \<Rightarrow> (string list \<times> extract_spec) list"
  and elif_paths :: "elif_branch list \<Rightarrow> (string list \<times> extract_spec) list"
  and branch_paths :: "branch list \<Rightarrow> (string list \<times> extract_spec) list" where
  "extract_paths [] = []"
| "extract_paths (s # ss) = step_paths s @ extract_paths ss"
| "step_paths (StHttp h) = map (Pair []) (hs_extract h)"
| "step_paths (StLoop _ _ _ body) = extract_paths body"
| "step_paths (StIf _ _ _ t els e) = extract_paths t @ elif_paths els @ extract_paths e"
| "step_paths (StParallel _ _ bs) = branch_paths bs"
| "elif_paths [] = []"
| "elif_paths (ElifBranch _ t # es) = extract_paths t @ elif_paths es"
| "branch_paths [] = []"
| "branch_paths (Branch n ss # bs) = map (apfst ((#) n)) (extract_paths ss) @ branch_paths bs"

definition merged_name :: "string list \<Rightarrow> string \<Rightarrow> string" where
  "merged_name bs v = concat (map (\<lambda>b. b @ ''.'') bs) @ v"

text \<open>An extract from a cookie or from a header that carries authentication.\<close>

definition auth_source :: "extract_spec \<Rightarrow> bool" where
  "auth_source e = (case e of ExCookie _ _ _ _ \<Rightarrow> True | ExHeader _ name _ _ \<Rightarrow> carries_auth (trim name) | _ \<Rightarrow> False)"

lemma auth_source_iff: "auth_source e \<longleftrightarrow> is_auth_extract e"
  by (cases e) (simp_all add: auth_source_def is_auth_extract_def is_auth_header_iff)

text \<open>The names a value of an authentication source has in the course of a run: inside its branch, and after each join.\<close>

definition secret_names :: "step list \<Rightarrow> string set" where
  "secret_names steps = {merged_name (drop k path) (extract_var e) | k path e. (path, e) \<in> set (extract_paths steps) \<and> auth_source e}"

lemma merged_name_simps [simp]: "merged_name [] v = v" "merged_name (b # bs) v = b @ ''.'' @ merged_name bs v"
  by (simp_all add: merged_name_def)

lemma auth_walk_merged:
  "(path, e) \<in> set (extract_paths ss) \<Longrightarrow> is_auth_extract e \<Longrightarrow> merged_name (drop k path) (extract_var e) \<in> auth_walk ss"
  "(path, e) \<in> set (step_paths s) \<Longrightarrow> is_auth_extract e \<Longrightarrow> merged_name (drop k path) (extract_var e) \<in> auth_step s"
  "(path, e) \<in> set (elif_paths es) \<Longrightarrow> is_auth_extract e \<Longrightarrow> merged_name (drop k path) (extract_var e) \<in> auth_elifs es"
  "(path, e) \<in> set (branch_paths bs) \<Longrightarrow> is_auth_extract e \<Longrightarrow> merged_name (drop k path) (extract_var e) \<in> auth_branches bs"
proof (induction ss and s and es and bs arbitrary: path k and path k and path k and path k
    rule: auth_walk_auth_step_auth_elifs_auth_branches.induct)
  case (10 n ss bs)
  from "10.prems"(1) consider "(path, e) \<in> set (branch_paths bs)"
    | p where "(p, e) \<in> set (extract_paths ss)" "path = n # p" by auto
  then show ?case
  proof cases
    case 1
    then show ?thesis using "10.IH"(2) "10.prems"(2) by simp
  next
    case (2 p)
    have "merged_name (drop j p) (extract_var e) \<in> auth_walk ss" for j using "10.IH"(1) [OF 2(1) "10.prems"(2)] .
    from this [of 0] this [of "k - 1"] show ?thesis unfolding 2(2) by (cases k) (auto simp: Let_def)
  qed
qed auto

lemma secret_names_auth: "secret_names steps \<subseteq> auth_var_names steps"
  using auth_walk_merged(1) by (auto simp: secret_names_def auth_var_names_def auth_source_iff)

lemma extract_paths_cover:
  "h \<in> set (collect_http ss) \<Longrightarrow> e \<in> set (hs_extract h) \<Longrightarrow> \<exists>path. (path, e) \<in> set (extract_paths ss)"
  "h \<in> set (collect_http_step s) \<Longrightarrow> e \<in> set (hs_extract h) \<Longrightarrow> \<exists>path. (path, e) \<in> set (step_paths s)"
  "h \<in> set (collect_http_elifs es) \<Longrightarrow> e \<in> set (hs_extract h) \<Longrightarrow> \<exists>path. (path, e) \<in> set (elif_paths es)"
  "h \<in> set (collect_http_branches bs) \<Longrightarrow> e \<in> set (hs_extract h) \<Longrightarrow> \<exists>path. (path, e) \<in> set (branch_paths bs)"
  by (induction ss and s and es and bs rule: auth_walk_auth_step_auth_elifs_auth_branches.induct) (auto, force+)

lemma extract_secret:
  assumes "h \<in> set (collect_http ss)" "e \<in> set (hs_extract h)" "auth_source e"
  shows "extract_var e \<in> secret_names ss"
proof -
  obtain path where "(path, e) \<in> set (extract_paths ss)" using extract_paths_cover(1) [OF assms(1,2)] by blast
  then have "merged_name (drop (length path) path) (extract_var e) \<in> secret_names ss"
    using assms(3) unfolding secret_names_def by blast
  then show ?thesis by simp
qed

lemma eval_segs_vars:
  "list_all (\<lambda>x. \<not> sys_seg x) sg \<Longrightarrow> (\<And>n. SVar n \<in> set sg \<Longrightarrow> bt_get (vars c) n = bt_get (vars c') n) \<Longrightarrow>
   eval_segs l c sg = eval_segs l c' sg"
proof (induction sg)
  case (Cons x sg)
  then have "eval_segs l c sg = eval_segs l c' sg" by simp
  with Cons.prems show ?case by (cases x) (auto simp: sys_seg_def split: option.splits)
qed simp

lemma refs_any_skip: "\<not> starts_with ''{{'' (c # s) \<Longrightarrow> refs_any_from A (c # s) = refs_any_from A s"
proof -
  assume "\<not> starts_with ''{{'' (c # s)"
  then have f: "find_sub ''{{'' (c # s) = map_option Suc (find_sub ''{{'' s)" by (simp only: find_sub.simps if_False)
  show "refs_any_from A (c # s) = refs_any_from A s"
    unfolding refs_any_from.simps [of A "c # s"] refs_any_from.simps [of A s] f by (cases "find_sub ''{{'' s") (simp_all add: Let_def)
qed

text \<open>Without \<^verbatim>\<open>${\<close> the scan sees every variable token of the template.\<close>

lemma segs_vars_refs: "find_sub ''${'' s = None \<Longrightarrow> SVar n \<in> set (segs i s) \<Longrightarrow> n \<in> A \<Longrightarrow> refs_any_from A s"
proof (induction i s rule: segs.induct)
  case (1 i s)
  show ?case
  proof (cases s rule: remdups_adj.cases)
    case (3 c d r)
    have sub: "find_sub ''${'' (drop k r) = None" "find_sub ''${'' (d # r) = None" for k
      using find_sub_None_drop [OF "1.prems"(1), of "Suc (Suc k)"] find_sub_None_drop [OF "1.prems"(1), of 1] by (simp_all add: 3)
    have nd: "\<not> (c = dollar \<and> d = brace_o)" using "1.prems"(1) 3 by auto
    show ?thesis
    proof (cases "c = brace_o \<and> d = brace_o")
      case True
      show ?thesis
      proof (cases "find_sub ''}}'' r")
        case None
        then show ?thesis using "1.prems"(2) True by (simp add: 3 segs.simps [of i "brace_o # brace_o # r"])
      next
        case (Some p)
        have "trim (take p r) \<in> A \<or> refs_any_from A (drop (p + 2) r)"
          using "1.prems"(2,3) "1.IH"(1) [OF 3 refl True Some] sub(1) True Some
          by (auto simp: 3 segs.simps [of i "brace_o # brace_o # r"] split: if_splits)
        then show ?thesis using True Some by (auto simp: 3 refs_any_from.simps [of A "brace_o # brace_o # r"] Let_def)
      qed
    next
      case False
      have "SVar n \<in> set (segs (i + 1) (d # r))" using "1.prems"(2) False nd by (auto simp: 3 segs.simps [of i "c # d # r"])
      then have "refs_any_from A (d # r)" by (rule "1.IH"(3) [OF 3 refl False nd sub(2) _ "1.prems"(3)])
      moreover have "\<not> starts_with ''{{'' (c # d # r)" using False by auto
      ultimately show ?thesis using refs_any_skip [of c "d # r" A] by (simp add: 3)
    qed
  qed (use "1.prems"(2) in \<open>simp_all add: segs.simps [of i "[]"] segs.simps [of i "[x]" for x]\<close>)
qed

text \<open>Contexts that differ only in such variables render a template that names none of them alike.\<close>

definition agree_outside :: "string set \<Rightarrow> tctx \<Rightarrow> tctx \<Rightarrow> bool" where
  "agree_outside A c c' \<longleftrightarrow> (\<forall>n. n \<notin> A \<longrightarrow> bt_get (vars c) n = bt_get (vars c') n)"

lemma captured_outside:
  assumes "agree_outside A c c'" "\<not> refs_any raw A"
  shows "captured raw c = captured raw c'"
proof (cases "contains_sub ''${'' raw")
  case False
  then have n: "find_sub ''${'' raw = None" by (simp add: contains_sub_def)
  have "eval_segs True c (segs 0 raw) = eval_segs True c' (segs 0 raw)"
  proof (rule eval_segs_vars [OF segs_no_sys [OF n]])
    fix v assume "SVar v \<in> set (segs 0 raw)"
    then have "v \<notin> A" using segs_vars_refs [OF n, of v 0 A] assms(2) by (auto simp: refs_any_def split: if_splits)
    then show "bt_get (vars c) v = bt_get (vars c') v" using assms(1) by (simp add: agree_outside_def)
  qed
  then show ?thesis by (simp add: captured_def render_lenient_def render_inner_segs)
qed (simp add: captured_def)
text \<open>
  Two evaluations of the same decision in contexts \<open>c\<close> and \<open>c'\<close>, with the same outcome, the same presence of
  the variables and, for the two operators that ask for it, the same emptiness.
\<close>

definition same_leaf :: "tctx \<Rightarrow> tctx \<Rightarrow> leaf_eval \<Rightarrow> leaf_eval \<Rightarrow> bool" where
  "same_leaf c c' l l' \<longleftrightarrow> l = leaf_eval_of (le_left l) (le_op l) (le_right l) c
     \<and> l' = leaf_eval_of (le_left l) (le_op l) (le_right l) c' \<and> le_left_unbound l = le_left_unbound l'
     \<and> (presence_op (le_op l) \<longrightarrow> (le_left_value l = Some []) = (le_left_value l' = Some []))"

definition same_decision :: "tctx \<Rightarrow> tctx \<Rightarrow> branch_eval \<Rightarrow> branch_eval \<Rightarrow> bool" where
  "same_decision c c' e e' \<longleftrightarrow> be_branch e = be_branch e' \<and> be_passed e = be_passed e'
     \<and> rel_option (same_leaf c c') (be_leaf e) (be_leaf e')"

lemma same_leaf_static:
  "same_leaf c c' l l' \<Longrightarrow> le_left l' = le_left l \<and> le_op l' = le_op l \<and> le_right l' = le_right l
    \<and> le_left_value l = captured (le_left l) c \<and> le_left_value l' = captured (le_left l) c' \<and> le_left_unbound l' = le_left_unbound l"
  unfolding same_leaf_def by (metis leaf_eval_of_def leaf_eval.select_convs)

lemma value_text_same:
  assumes "same_leaf c c' l l'" "agree_outside A c c'"
  shows "value_text A l = value_text A l'"
proof -
  note st = same_leaf_static [OF assms(1)]
  have pr: "presence_op (le_op l) \<Longrightarrow> (le_left_value l = Some []) = (le_left_value l' = Some [])" using assms(1) by (simp add: same_leaf_def)
  show ?thesis
  proof (cases "contains_sub ''${'' (le_left l)")
    case True
    then show ?thesis using st by (simp add: value_text_def captured_def)
  next
    case False
    then obtain v v' where v: "le_left_value l = Some v" "le_left_value l' = Some v'" using st by (simp add: captured_def)
    have "v = v'" if "\<not> refs_any (le_left l) A" using captured_outside [OF assms(2) that] st v by (metis option.inject)
    moreover have "le_left l' = le_left l" "le_op l' = le_op l" using st by simp_all
    ultimately show ?thesis using False pr by (auto simp: value_text_def v)
  qed
qed

lemma find_related:
  "list_all2 R xs ys \<Longrightarrow> (\<And>x y. R x y \<Longrightarrow> P x = P y) \<Longrightarrow> rel_option R (find P xs) (find P ys)"
  by (induction xs ys rule: list_all2_induct) auto

lemma blocking_same:
  assumes "list_all2 (same_decision c c') (sr_branch_eval row) (sr_branch_eval row')"
  shows "rel_option (same_decision c c') (blocking_eval row label) (blocking_eval row' label)"
proof -
  have "rel_option (same_decision c c') (find (\<lambda>e. be_branch e = label \<and> \<not> be_passed e) (sr_branch_eval row))
      (find (\<lambda>e. be_branch e = label \<and> \<not> be_passed e) (sr_branch_eval row'))"
    "rel_option (same_decision c c') (find be_passed (sr_branch_eval row)) (find be_passed (sr_branch_eval row'))"
    by (rule find_related [OF assms], simp add: same_decision_def)+
  then show ?thesis by (auto simp: blocking_eval_def elim!: option.rel_cases split: option.splits)
qed

text \<open>
  C37: the value of a variable extracted from a cookie or an authentication header never reaches the wall
  through the text that explains an excluded branch, and neither does an environment value. The variable is
  known under its own name inside its branch and, when parallel branches join, under the name merged with
  the branch's, at every nesting depth; all these names are recognized, and two executions that decided alike
  and differ only in the values under such names, of the environment and of the counters show the same result.
\<close>

theorem branch_text_hides_auth:
  assumes "agree_outside (secret_names steps) c c'"
    and "list_all2 (same_decision c c') (sr_branch_eval row) (sr_branch_eval row')"
  shows "branch_result at row i n label (auth_var_names steps) = branch_result at row' i n label (auth_var_names steps)
    \<and> secret_names steps \<subseteq> auth_var_names steps
    \<and> (\<forall>h \<in> set (collect_http steps). \<forall>e \<in> set (hs_extract h). auth_source e \<longrightarrow> extract_var e \<in> secret_names steps)"
proof (intro conjI ballI impI)
  let ?A = "auth_var_names steps"
  have agree: "agree_outside ?A c c'" using assms(1) secret_names_auth by (auto simp: agree_outside_def)
  have leaf: "decision_text l = decision_text l'" "value_text ?A l = value_text ?A l'" "le_left l' = le_left l" "le_op l' = le_op l"
    "le_left_unbound l' = le_left_unbound l" if "same_leaf c c' l l'" for l l'
    using same_leaf_static [OF that] value_text_same [OF that agree] by (simp_all add: decision_text_def cong: if_cong)
  have d: "(case be_leaf e of None \<Rightarrow> f (be_passed e) | Some l \<Rightarrow> g l) = (case be_leaf e' of None \<Rightarrow> f (be_passed e') | Some l \<Rightarrow> g l)"
    if "same_decision c c' e e'" "\<And>l l'. same_leaf c c' l l' \<Longrightarrow> g l = g l'" for e e' and f :: "bool \<Rightarrow> check_result" and g
    using that by (cases "be_leaf e"; cases "be_leaf e'") (auto simp: same_decision_def)
  show "branch_result at row i n label ?A = branch_result at row' i n label ?A"
  proof (cases "blocking_eval row label")
    case None
    then show ?thesis using blocking_same [OF assms(2), of label] by (auto simp: branch_result_def Let_def)
  next
    case (Some e)
    then obtain e' where e': "blocking_eval row' label = Some e'" "same_decision c c' e e'"
      using blocking_same [OF assms(2), of label] by (auto simp: option_rel_Some1)
    show ?thesis unfolding branch_result_def Let_def Some e'(1) option.case by (rule d [OF e'(2)]) (simp add: leaf)
  qed
qed (rule secret_names_auth, rule extract_secret)

subsection \<open>What never reaches the wall\<close>

lemma position_same: "list_all2 R xs ys \<Longrightarrow> (\<And>x y. R x y \<Longrightarrow> P x = Q y) \<Longrightarrow> position P xs = position Q ys"
  by (induction xs ys rule: list_all2_induct) auto

lemma position_cong: "(\<And>x. x \<in> set xs \<Longrightarrow> P x = Q x) \<Longrightarrow> position P xs = position Q xs"
  by (induction xs) auto

lemma rposition_same: "list_all2 R xs ys \<Longrightarrow> (\<And>x y. R x y \<Longrightarrow> P x = Q y) \<Longrightarrow> rposition P xs = rposition Q ys"
  using position_same [of R "rev xs" "rev ys" P Q] list_all2_lengthD [of R xs ys] by (simp add: rposition_def)

lemma rposition_less: "rposition P xs = Some i \<Longrightarrow> i < length xs"
  by (auto simp: rposition_def position_iff)

lemma same_wall_nth: "list_all2 same_wall_row rows rows' \<Longrightarrow> i < length rows \<Longrightarrow> same_wall_row (rows ! i) (rows' ! i)"
  by (rule list_all2_nthD)

lemma exclusion_row_same:
  assumes "list_all2 same_wall_row rows rows'"
  shows "exclusion_row rows as = exclusion_row rows' as"
proof (induction as)
  case (Cons a as)
  show ?case
  proof (cases a)
    case (AncIf i n label)
    have p: "rposition (\<lambda>s. sr_kind s = KindIf \<and> sr_step_id s = i) rows = rposition (\<lambda>s. sr_kind s = KindIf \<and> sr_step_id s = i) rows'"
      by (rule rposition_same [OF assms]) (simp add: same_wall_row_def)
    show ?thesis
    proof (cases "rposition (\<lambda>s. sr_kind s = KindIf \<and> sr_step_id s = i) rows'")
      case None
      then show ?thesis using AncIf p by simp
    next
      case (Some idx)
      then have "sr_branch (rows ! idx) = sr_branch (rows' ! idx)"
        using same_wall_nth [OF assms, of idx] rposition_less p by (auto simp: same_wall_row_def)
      then show ?thesis using AncIf p Some Cons.IH by simp
    qed
  qed (simp add: Cons.IH)
qed simp

lemma exclusion_row_less: "exclusion_row rows as = Some (idx, i, n, label) \<Longrightarrow> idx < length rows"
  by (induction as rule: exclusion_row.induct [of _ rows]) (auto split: option.splits if_splits dest: rposition_less)

lemma classify_panel_same:
  assumes "list_all2 same_wall_row rows rows'"
  shows "classify_panel hs am rows p = classify_panel hs am rows' p"
proof -
  have "position (http_row_of sid) rows = position (http_row_of sid) rows'" for sid
    by (rule position_same [OF assms]) (simp add: same_wall_row_def http_row_of_def)
  then have f: "front_end c rows sid = front_end c rows' sid" for c sid
    unfolding front_end_def list_all2_lengthD [OF assms] exclusion_row_same [OF assms] by simp
  have pc: "position (is_cause am c) (take e rows) = position (is_cause am c) (take e rows')" for c e
    by (rule position_same [of same_wall_row], simp add: assms)
      (auto simp: is_cause_def same_wall_row_def elim: option.rel_cases)
  show ?thesis unfolding classify_panel_def f pc ..
qed

lemma error_verdict_same:
  "same_wall_row s s' \<Longrightarrow> same_error_class e e' \<Longrightarrow> error_verdict h s e n = error_verdict h s' e' n"
  using classify_same [of s s' e e'] by (simp add: error_verdict_def same_wall_row_def)

lemma branch_result_same:
  "same_wall_row s s' \<Longrightarrow> branch_result at s i n label auth = branch_result at s' i n label auth"
proof -
  assume "same_wall_row s s'"
  then have "sr_branch_eval s = sr_branch_eval s'" by (simp add: same_wall_row_def)
  then have e: "blocking_eval s label = blocking_eval s' label" unfolding blocking_eval_def by (rule arg_cong)
  show "branch_result at s i n label auth = branch_result at s' i n label auth" unfolding branch_result_def e ..
qed

lemma own_result_same:
  assumes "same_wall_trace tr tr'" "auth_outcomes_agree W (sn_steps tr) (sn_steps tr') (pn_conditions p)"
  shows "own_result W hs p tr at fc lim chain auth = own_result W hs p tr' at fc lim chain auth"
proof -
  let ?rows = "sn_steps tr" and ?rows' = "sn_steps tr'" and ?sid = "panel_step p"
  have rows: "list_all2 same_wall_row ?rows ?rows'" and t: "sn_truncated tr = sn_truncated tr'"
    using assms(1) by (simp_all add: same_wall_trace_def)
  note ev = eval_conditions_same [OF rows assms(2)]
  show ?thesis using same_wall_last_row [OF rows, of ?sid]
  proof (cases rule: option.rel_cases)
    case (Some row row')
    have e: "rel_option same_error_class (sr_error row) (sr_error row')"
      and l: "map_option tp_latency_ms (sr_response row) = map_option tp_latency_ms (sr_response row')"
      using Some(3) by (auto simp: same_wall_row_def same_wall_response_def elim: option.rel_cases)
    show ?thesis using e
    proof (cases rule: option.rel_cases)
      case None
      show ?thesis unfolding own_result_def Let_def Some(1,2) option.case None ev l ..
    next
      case err: (Some e e')
      show ?thesis unfolding own_result_def Let_def Some(1,2) option.case err(1,2) error_verdict_same [OF Some(3) err(3)] ..
    qed
  next
    case none: None
    show ?thesis
    proof (cases "exclusion_row ?rows' chain")
      case None
      show ?thesis
        unfolding own_result_def Let_def none option.case exclusion_row_same [OF rows] None t http_row_count_same [OF rows] ..
    next
      case (Some x)
      obtain idx i n label where x: "x = (idx, i, n, label)" by (cases x)
      have "idx < length ?rows'" using exclusion_row_less [of ?rows' chain] Some x by simp
      then have "same_wall_row (?rows ! idx) (?rows' ! idx)"
        using same_wall_nth [OF rows] list_all2_lengthD [OF rows] by simp
      from branch_result_same [OF this] show ?thesis
        unfolding own_result_def Let_def none option.case exclusion_row_same [OF rows] Some x prod.case by simp
    qed
  qed
qed

lemma judge_panel_same:
  assumes "same_wall_trace tr tr'" "auth_outcomes_agree W (sn_steps tr) (sn_steps tr') (pn_conditions (ps ! i))"
    and "\<And>ck. PreCause ck \<in> set pre \<Longrightarrow> ck < length (sn_steps tr)
          \<and> sr_error (sn_steps tr ! ck) \<noteq> None" and "i < length pre"
  shows "judge_panel W steps ps tr at fc lim pre out i = judge_panel W steps ps tr' at fc lim pre out i"
proof (cases "pre ! i")
  case PreMissing
  then show ?thesis by (simp add: judge_panel_def)
next
  case PreOwn
  then show ?thesis using own_result_same [OF assms(1,2)] by (simp add: judge_panel_def Let_def)
next
  case (PreCause ci)
  let ?row = "sn_steps tr ! ci" and ?row' = "sn_steps tr' ! ci"
  have rows: "list_all2 same_wall_row (sn_steps tr) (sn_steps tr')" using assms(1) by (simp add: same_wall_trace_def)
  have ci: "ci < length (sn_steps tr)" "sr_error ?row \<noteq> None" using assms(3) [of ci] PreCause nth_mem [OF assms(4)] by simp_all
  note row = same_wall_nth [OF rows ci(1)]
  have ids: "sr_step_id ?row = sr_step_id ?row'" using row by (simp add: same_wall_row_def)
  have "same_cause (sn_steps tr) cid x = same_cause (sn_steps tr') cid x" if "x \<in> set pre" for cid x
  proof (cases x)
    case (PreCause ck)
    then have "same_wall_row (sn_steps tr ! ck) (sn_steps tr' ! ck)" using that assms(3) [of ck] same_wall_nth [OF rows] by simp
    then show ?thesis unfolding same_cause_def PreCause same_wall_row_def by simp
  qed (simp_all add: same_cause_def)
  then have pos: "position (same_cause (sn_steps tr) cid) pre = position (same_cause (sn_steps tr') cid) pre" for cid
    by (rule position_cong)
  obtain e e' where e: "sr_error ?row = Some e" "sr_error ?row' = Some e'" "same_error_class e e'"
    using row ci(2) by (auto simp: same_wall_row_def elim: option.rel_cases)
  show ?thesis
    unfolding judge_panel_def Let_def PreCause pre_class.case ids pos e(1,2) option.case error_verdict_same [OF row e(3)] ..
qed

lemma with_display_same:
  "panel_fields_ok B p \<Longrightarrow> list_all2 same_wall_row (sn_steps tr) (sn_steps tr') \<Longrightarrow> with_display W tr p r = with_display W tr' p r"
  using display_values_same [of B] by (simp add: with_display_def)

lemma fill_cong: "(\<And>i out. i \<in> set xs \<Longrightarrow> J out i = J' out i) \<Longrightarrow> fill J xs t = fill J' xs t"
  by (induction xs arbitrary: t) simp_all

lemma judge_unit_same:
  assumes "same_wall_trace tr tr'"
    and "\<forall>p \<in> set ps. panel_fields_ok B p \<and> auth_outcomes_agree W (sn_steps tr) (sn_steps tr') (pn_conditions p)"
  shows "judge_unit W steps ps tr at fc lim = judge_unit W steps ps tr' at fc lim"
proof -
  have rows: "list_all2 same_wall_row (sn_steps tr) (sn_steps tr')"
    and err: "sn_error tr \<noteq> None \<longleftrightarrow> sn_error tr' \<noteq> None" using assms(1) by (auto simp: same_wall_trace_def)
  let ?hs = "collect_http steps" and ?am = "ancestors steps"
  let ?pre = "map fst (map (classify_panel ?hs ?am (sn_steps tr')) ps)"
  have cls: "map (classify_panel ?hs ?am (sn_steps tr)) ps = map (classify_panel ?hs ?am (sn_steps tr')) ps"
    using classify_panel_same [OF rows] by simp
  have causes: "ck < length (sn_steps tr) \<and> sr_error (sn_steps tr ! ck) \<noteq> None" if "PreCause ck \<in> set ?pre" for ck
    using that classify_cause [of ?hs ?am "sn_steps tr" _ ck] unfolding cls [symmetric]
    by (auto simp: image_iff) (metis prod.collapse)+
  have panel: "judge_panel W steps ps tr at fc lim ?pre out i = judge_panel W steps ps tr' at fc lim ?pre out i"
    if "i < length ps" for out i
    by (rule judge_panel_same [OF assms(1) _ causes]) (use assms(2) that in simp_all)
  have table: "fill (judge_panel W steps ps tr at fc lim ?pre) xs t = fill (judge_panel W steps ps tr' at fc lim ?pre) xs t"
    if "set xs \<subseteq> {..<length ps}" for xs t
    by (rule fill_cong) (use that panel in auto)
  have map: "map2 (with_display W tr) ps rs = map2 (with_display W tr') ps rs" for rs
    using assms(2) with_display_same [OF _ rows, of B] by (auto dest: set_zip_leftD)
  have all: "map (\<lambda>p. with_display W tr p r) ps = map (\<lambda>p. with_display W tr' p r) ps" for r
    using assms(2) with_display_same [OF _ rows, of B] by auto
  show ?thesis unfolding judge_unit_def Let_def err cls map all fill_def [symmetric] by (subst table) auto
qed

text \<open>
  C33: no secret reaches the wall. Take two executions that differ in any way in the requests, the extracted
  variables and the lists of cookies set, in the wording of the engine's errors beyond their two known
  beginnings, and in the values of the response headers that carry authentication, where only being empty
  counts. When the conditions on such headers hold in both or in neither, everything the wall shows of a
  panel that watches the flow and of all step panels of a unit is the same: verdicts, reasons, details,
  latencies and displayed values. Such a condition may turn a panel green or red, as it is meant to, but a
  failed one shows one of four fixed texts, never the value.
\<close>

theorem wall_shows_no_secret:
  assumes "same_wall_trace tr tr'"
  shows "(\<forall>p. panel_fields_ok B p \<and> auth_outcomes_agree W (sn_steps tr) (sn_steps tr') (pn_conditions p) \<longrightarrow>
        judge W steps p tr at = judge W steps p tr' at
        \<and> display_values (wo_extract W) p (sn_steps tr) = display_values (wo_extract W) p (sn_steps tr'))
    \<and> ((\<forall>p \<in> set ps. panel_fields_ok B p \<and> auth_outcomes_agree W (sn_steps tr) (sn_steps tr') (pn_conditions p)) \<longrightarrow>
        judge_unit W steps ps tr at fc lim = judge_unit W steps ps tr' at fc lim)
    \<and> (\<forall>c t. auth_condition c \<longrightarrow> condition_failure W (sn_steps tr) c = Some t \<longrightarrow>
         t \<in> {reason_cond_step_not_run, reason_no_value, reason_empty, reason_value_differs})"
proof (intro conjI allI impI; (elim conjE)?)
  have rows: "list_all2 same_wall_row (sn_steps tr) (sn_steps tr')" using assms by (simp add: same_wall_trace_def)
  show "judge W steps p tr at = judge W steps p tr' at"
    if "auth_outcomes_agree W (sn_steps tr) (sn_steps tr') (pn_conditions p)" for p by (rule judge_same [OF assms that])
  show "display_values (wo_extract W) p (sn_steps tr) = display_values (wo_extract W) p (sn_steps tr')"
    if "panel_fields_ok B p" for p by (rule display_values_same [OF that rows])
  show "judge_unit W steps ps tr at fc lim = judge_unit W steps ps tr' at fc lim"
    if "\<forall>p \<in> set ps. panel_fields_ok B p \<and> auth_outcomes_agree W (sn_steps tr) (sn_steps tr') (pn_conditions p)"
    by (rule judge_unit_same [OF assms that])
qed (rule auth_condition_text)

subsection \<open>Witnesses\<close>

definition demo_unit_steps :: "step list" where
  "demo_unit_steps = [StHttp (demo_step\<lparr>hs_id := ''a'', hs_extract := [ExCookie ''tok'' ''sid'' None None]\<rparr>), StHttp (demo_step\<lparr>hs_id := ''b''\<rparr>)]"

definition demo_unit_panel :: "string \<Rightarrow> panel_config" where
  "demo_unit_panel sid = demo_wall_panel\<lparr>pn_step := Some sid\<rparr>"

lemma demo_unit_classify:
  "classify_panel (collect_http demo_unit_steps) (ancestors demo_unit_steps) (sn_steps demo_trace) (demo_unit_panel ''b'') = (PreCause 0, 1)"
  by (simp add: classify_panel_def demo_unit_steps_def demo_unit_panel_def panel_step_def find_http_def demo_step_def Let_def front_end_def
      demo_trace_def demo_row_def http_row_of_def ancestors_def chain_of_def hm_get_def is_cause_def in_sibling_branch_def)

lemma demo_unit_cause: "unit_cause demo_unit_steps demo_trace (demo_unit_panel ''b'') = Some 0"
  by (simp add: unit_cause_def demo_unit_classify)

lemma demo_stands_in:
  "stands_in demo_unit_steps demo_trace [demo_unit_panel ''b'', demo_unit_panel ''b''] rs ''a'' i \<longleftrightarrow> i = 0"
  by (auto simp: stands_in_def stopped_by_def demo_unit_cause less_Suc_eq nth_Cons')
    (auto simp: demo_unit_panel_def demo_unit_cause [unfolded demo_unit_panel_def] demo_trace_def demo_row_def)

theorem upstream_failure_shown_once_witness:
  "\<exists>rs. judge_unit demo_wall_ops demo_unit_steps [demo_unit_panel ''b'', demo_unit_panel ''b''] demo_trace 0 20 [] = Some rs
    \<and> red (rs ! 0) \<and> ck_verdict (rs ! 1) = WallUpstreamFailed"
proof -
  have "sn_error demo_trace = None" by (simp add: demo_trace_def)
  from upstream_failure_shown_once [OF this, of demo_wall_ops demo_unit_steps "[demo_unit_panel ''b'', demo_unit_panel ''b'']" 0 20 "[]"]
  obtain rs where rs: "judge_unit demo_wall_ops demo_unit_steps [demo_unit_panel ''b'', demo_unit_panel ''b''] demo_trace 0 20 [] = Some rs"
    and c: "\<And>i ci. i < 2 \<Longrightarrow> unit_cause demo_unit_steps demo_trace ([demo_unit_panel ''b'', demo_unit_panel ''b''] ! i) = Some ci \<Longrightarrow>
      (red (rs ! i) \<longleftrightarrow> stands_in demo_unit_steps demo_trace [demo_unit_panel ''b'', demo_unit_panel ''b''] rs (sr_step_id (sn_steps demo_trace ! ci)) i)
      \<and> (ck_verdict (rs ! i) = WallUpstreamFailed \<longleftrightarrow> \<not> stands_in demo_unit_steps demo_trace [demo_unit_panel ''b'', demo_unit_panel ''b''] rs (sr_step_id (sn_steps demo_trace ! ci)) i)"
    by auto
  have "sr_step_id (sn_steps demo_trace ! 0) = ''a''" by (simp add: demo_trace_def demo_row_def)
  then show ?thesis using rs c [of 0 0] c [of 1 0] by (auto simp: demo_unit_cause demo_stands_in)
qed

theorem upstream_failure_visible_witness:
  "\<exists>row \<in> set (sn_steps demo_trace). sr_kind row = KindHttp \<and> sr_error row \<noteq> None"
proof -
  let ?ps = "[demo_unit_panel ''b'', demo_unit_panel ''b'']"
  have n: "sn_error demo_trace = None" and a: "sr_step_id (sn_steps demo_trace ! 0) = ''a''" by (simp_all add: demo_trace_def demo_row_def)
  obtain rs where rs: "judge_unit demo_wall_ops demo_unit_steps ?ps demo_trace 0 20 [] = Some rs"
    using judge_unit_fixpoint [OF n] by blast
  have "ck_verdict (rs ! 1) = WallUpstreamFailed"
    using judge_unit_cause [OF rs n _ _ refl, of 1 0] by (simp add: demo_unit_cause demo_stands_in a)
  from upstream_failure_visible [OF rs _ this] show ?thesis by auto
qed

theorem unit_ok_iff_witness:
  "\<exists>rs. judge_unit demo_wall_ops demo_unit_steps [demo_unit_panel ''a''] (demo_trace\<lparr>sn_steps := [demo_row\<lparr>sr_error := None\<rparr>]\<rparr>) 0 20 [] = Some rs
    \<and> ck_verdict (rs ! 0) = WallOk"
proof -
  let ?tr = "demo_trace\<lparr>sn_steps := [demo_row\<lparr>sr_error := None\<rparr>]\<rparr>"
  have n: "sn_error ?tr = None" by (simp add: demo_trace_def)
  obtain rs where rs: "judge_unit demo_wall_ops demo_unit_steps [demo_unit_panel ''a''] ?tr 0 20 [] = Some rs"
    using judge_unit_fixpoint [OF n] by blast
  have "ck_verdict (rs ! 0) = WallOk"
    using unit_ok_iff [OF rs, of 0 "''a''"]
    by (simp add: demo_unit_panel_def demo_wall_panel_def demo_trace_def demo_unit_steps_def demo_step_def last_row_def rfind_def demo_row_def
        http_row_of_def)
  then show ?thesis using rs by blast
qed

definition demo_wall_ctx :: "string \<Rightarrow> tctx" where
  "demo_wall_ctx v = \<lparr>vars = [(''tok'', v)], env = [], vu_id = 0, iter_id = 0, loop_index = None\<rparr>"

definition demo_decision :: "string \<Rightarrow> branch_eval" where
  "demo_decision v = \<lparr>be_branch = ''then'', be_passed = False, be_leaf = Some (leaf_eval_of ''{{tok}}'' OpEq (Some ''x'') (demo_wall_ctx v))\<rparr>"

theorem branch_text_hides_auth_witness:
  "branch_result 0 (demo_row\<lparr>sr_branch_eval := [demo_decision ''s3cret'']\<rparr>) ''i'' ''n'' ''then'' (auth_var_names demo_unit_steps)
   = branch_result 0 (demo_row\<lparr>sr_branch_eval := [demo_decision ''other'']\<rparr>) ''i'' ''n'' ''then'' (auth_var_names demo_unit_steps)"
proof -
  have "auth_var_names demo_unit_steps = {''tok''}"
    by (simp add: auth_var_names_def demo_unit_steps_def is_auth_extract_def extract_var_def demo_step_def)
  moreover have "''tok'' \<in> secret_names demo_unit_steps"
    by (rule extract_secret [of "demo_step\<lparr>hs_id := ''a'', hs_extract := [ExCookie ''tok'' ''sid'' None None]\<rparr>" _ "ExCookie ''tok'' ''sid'' None None",
        unfolded extract_var_def extract_spec.case])
      (simp_all add: demo_unit_steps_def auth_source_def)
  ultimately have a: "agree_outside (secret_names demo_unit_steps) (demo_wall_ctx ''s3cret'') (demo_wall_ctx ''other'')"
    by (auto simp: agree_outside_def demo_wall_ctx_def bt_get_def)
  have "le_left_unbound (leaf_eval_of ''{{tok}}'' OpEq (Some ''x'') (demo_wall_ctx ''s3cret''))
      = le_left_unbound (leaf_eval_of ''{{tok}}'' OpEq (Some ''x'') (demo_wall_ctx ''other''))" by code_simp
  then have "list_all2 (same_decision (demo_wall_ctx ''s3cret'') (demo_wall_ctx ''other''))
      (sr_branch_eval (demo_row\<lparr>sr_branch_eval := [demo_decision ''s3cret'']\<rparr>)) (sr_branch_eval (demo_row\<lparr>sr_branch_eval := [demo_decision ''other'']\<rparr>))"
    by (simp add: same_decision_def demo_decision_def same_leaf_def leaf_eval_of_def Let_def presence_op_def)
  from branch_text_hides_auth [OF a this, THEN conjunct1] show ?thesis .
qed

definition demo_auth_trace :: "string \<Rightarrow> scenario_trace" where
  "demo_auth_trace v = demo_trace\<lparr>sn_steps := [demo_row\<lparr>sr_error := Some (''s3cret '' @ v), sr_response := Some
     \<lparr>tp_status = 401, tp_latency_ms = 5, tp_download_ms = None, tp_headers = [(''set-cookie'', ''sid='' @ v)],
      tp_set_cookies = [''sid='' @ v], tp_body = [], tp_body_truncated = False\<rparr>\<rparr>]\<rparr>"

theorem wall_shows_no_secret_witness:
  "judge demo_wall_ops [] demo_wall_panel (demo_auth_trace ''1'') 0 = judge demo_wall_ops [] demo_wall_panel (demo_auth_trace ''22'') 0
   \<and> judge_unit demo_wall_ops demo_unit_steps [demo_unit_panel ''a''] (demo_auth_trace ''1'') 0 20 []
     = judge_unit demo_wall_ops demo_unit_steps [demo_unit_panel ''a''] (demo_auth_trace ''22'') 0 20 []"
proof -
  have t: "trim ''t'' = ''t''" "trim ''x'' = ''x''" "char_count ''t'' = 1" by code_simp+
  have p: "panel_fields_ok demo_board_ops demo_wall_panel"
    by (simp add: panel_fields_ok_def demo_wall_panel_def t name_ok_def in_range_def name_max_chars_def demo_board_ops_def
        max_thresholds_def max_conditions_def max_display_items_def item_ok_def)
  then have u: "panel_fields_ok demo_board_ops (demo_unit_panel ''a'')" by (simp add: panel_fields_ok_def demo_unit_panel_def)
  have h: "carries_auth ''set-cookie''" by code_simp
  have same: "same_wall_trace (demo_auth_trace ''1'') (demo_auth_trace ''22'')"
    by (simp add: same_wall_trace_def demo_auth_trace_def demo_trace_def demo_row_def same_wall_row_def same_wall_response_def
        same_wall_header_def same_error_class_def h)
  have a: "auth_outcomes_agree demo_wall_ops rows rows' (pn_conditions demo_wall_panel)"
    "auth_outcomes_agree demo_wall_ops rows rows' (pn_conditions (demo_unit_panel ''a''))" for rows rows'
    by (simp_all add: auth_outcomes_agree_def demo_wall_panel_def demo_unit_panel_def)
  show ?thesis
    using wall_shows_no_secret [OF same, of demo_board_ops demo_wall_ops "[]" 0 "[]" 20 "[]", THEN conjunct1, rule_format, OF conjI [OF p a(1)]]
      wall_shows_no_secret [OF same, of demo_board_ops demo_wall_ops demo_unit_steps 0 "[demo_unit_panel ''a'']" 20 "[]",
        THEN conjunct2, THEN conjunct1, THEN mp] u a(2)
    by simp
qed

end
