(* ===== verification/Monitor_Unit.thy ===== *)
theory Monitor_Unit
  imports Monitor_Steps
begin

text \<open>
  \<^verbatim>\<open>controller/src/monitor/unit.rs\<close>: the execution units of a board, the request limits of a unit and one
  check of a unit. Running a trace under the outer timeout is a parameter that may yield nothing; a panic is
  \<^const>\<open>None\<close>.
\<close>

definition unpaneled_step_timeout :: nat where "unpaneled_step_timeout = 5"
definition step_timeout_max :: nat where "step_timeout_max = 30"
definition flow_cap_max :: nat where "flow_cap_max = 120"
definition outer_grace :: nat where "outer_grace = 32"
definition initial_step_budget :: nat where "initial_step_budget = flow_cap_max + outer_grace"

record check_unit =
  cu_scenario :: string
  cu_environment :: "string option"
  cu_interval :: nat
  cu_panels :: "panel_config list"

datatype unit_plan = UnitWhole panel_config | UnitSteps check_unit

subsection \<open>The units of a board\<close>

definition group_of :: "check_group list \<Rightarrow> panel_config \<Rightarrow> check_group option" where
  "group_of gs p = Option.bind (pn_group p) (\<lambda>gid. find (\<lambda>g. cg_id g = gid) gs)"

definition group_unit :: "board_config \<Rightarrow> check_group \<Rightarrow> check_unit" where
  "group_unit c g = \<lparr>cu_scenario = cg_scenario g, cu_environment = cg_environment g, cu_interval = cg_interval g,
     cu_panels = filter (\<lambda>q. pn_group q = Some (cg_id g)) (bd_panels c)\<rparr>"

definition solo_unit :: "panel_config \<Rightarrow> unit_plan" where
  "solo_unit p = (if pn_step p \<noteq> None
     then UnitSteps \<lparr>cu_scenario = pn_scenario p, cu_environment = pn_environment p, cu_interval = pn_interval p, cu_panels = [p]\<rparr>
     else UnitWhole p)"

fun plan_panels :: "board_config \<Rightarrow> string set \<Rightarrow> panel_config list \<Rightarrow> unit_plan list" where
  "plan_panels c seen [] = []"
| "plan_panels c seen (p # ps) = (case group_of (bd_groups c) p of
     Some g \<Rightarrow> if cg_id g \<in> seen then plan_panels c seen ps
       else UnitSteps (group_unit c g) # plan_panels c (insert (cg_id g) seen) ps
   | None \<Rightarrow> solo_unit p # plan_panels c seen ps)"

definition plan_units :: "board_config \<Rightarrow> unit_plan list" where
  "plan_units c = plan_panels c {} (bd_panels c)"

subsection \<open>The limits of a unit\<close>

fun map_http :: "(http_step \<Rightarrow> http_step) \<Rightarrow> step list \<Rightarrow> step list"
  and map_http_step :: "(http_step \<Rightarrow> http_step) \<Rightarrow> step \<Rightarrow> step"
  and map_http_elifs :: "(http_step \<Rightarrow> http_step) \<Rightarrow> elif_branch list \<Rightarrow> elif_branch list"
  and map_http_branches :: "(http_step \<Rightarrow> http_step) \<Rightarrow> branch list \<Rightarrow> branch list" where
  "map_http f [] = []"
| "map_http f (s # ss) = map_http_step f s # map_http f ss"
| "map_http_step f (StHttp h) = StHttp (f h)"
| "map_http_step f (StLoop i n r body) = StLoop i n r (map_http f body)"
| "map_http_step f (StIf i n c t els e) = StIf i n c (map_http f t) (map_http_elifs f els) (map_http f e)"
| "map_http_step f (StParallel i n bs) = StParallel i n (map_http_branches f bs)"
| "map_http_elifs f [] = []"
| "map_http_elifs f (ElifBranch c t # es) = ElifBranch c (map_http f t) # map_http_elifs f es"
| "map_http_branches f [] = []"
| "map_http_branches f (Branch n ss # bs) = Branch n (map_http f ss) # map_http_branches f bs"

text \<open>The largest capped timeout of the panels of a step.\<close>

definition panel_limits :: "panel_config list \<Rightarrow> (string, nat) hash_map" where
  "panel_limits ps = fold (\<lambda>p m. case pn_step p of None \<Rightarrow> m
     | Some i \<Rightarrow> hm_put i (max (step_limit m i 0) (min (pn_timeout p) step_timeout_max)) m) ps []"

definition http_limit :: "(string, nat) hash_map \<Rightarrow> http_step \<Rightarrow> nat" where
  "http_limit pl h = (case hm_get pl (hs_id h) of Some t \<Rightarrow> t
     | None \<Rightarrow> (case hs_timeout h of Some v \<Rightarrow> if 0 < v then min v step_timeout_max else unpaneled_step_timeout
       | None \<Rightarrow> unpaneled_step_timeout))"

definition limits_of :: "(string, nat) hash_map \<Rightarrow> step list \<Rightarrow> (string, nat) hash_map" where
  "limits_of pl steps = fold (\<lambda>h. hm_put (hs_id h) (http_limit pl h)) (collect_http steps) []"

definition apply_step_limits :: "step list \<Rightarrow> panel_config list \<Rightarrow> step list \<times> nat \<times> (string, nat) hash_map" where
  "apply_step_limits steps ps =
     (let pl = panel_limits ps; limits = limits_of pl steps in
      (map_http (\<lambda>h. h\<lparr>hs_timeout := Some (http_limit pl h)\<rparr>) steps, min (sum_list (map snd limits)) flow_cap_max, limits))"

subsection \<open>One check\<close>

definition outer_timeout_results :: "nat \<Rightarrow> int \<Rightarrow> nat \<Rightarrow> check_result list" where
  "outer_timeout_results n at flow_cap = replicate n (with_reason at WallFail (reason_timeout flow_cap))"

record unit_outcome =
  uo_trace :: "scenario_trace option"
  uo_results :: "check_result list"
  uo_budget :: nat

definition config_error_outcome :: "panel_config list \<Rightarrow> int \<Rightarrow> string \<Rightarrow> unit_outcome" where
  "config_error_outcome ps at reason =
     \<lparr>uo_trace = None, uo_results = map (\<lambda>_. with_reason at WallConfigError reason) ps, uo_budget = initial_step_budget\<rparr>"

definition panel_missing :: "step list \<Rightarrow> panel_config \<Rightarrow> bool" where
  "panel_missing steps p \<longleftrightarrow> \<not> list_ex (\<lambda>h. hs_id h = panel_step p) (collect_http steps)"

text \<open>\<open>run\<close> is \<^verbatim>\<open>trace_scenario\<close> under an outer timeout, here in nanoseconds.\<close>

definition run_unit_check ::
  "wall_ops \<Rightarrow> (string \<Rightarrow> string option) \<Rightarrow> (string \<Rightarrow> (string, string) btree_map option) \<Rightarrow> (string \<Rightarrow> 'tz scenario option)
     \<Rightarrow> ('tz scenario \<Rightarrow> trace_options \<Rightarrow> nat \<Rightarrow> scenario_trace option) \<Rightarrow> check_unit \<Rightarrow> int \<Rightarrow> unit_outcome option"
where
  "run_unit_check W scens envs yaml run u at = (case load_scenario_env scens envs yaml (cu_scenario u) (cu_environment u) of
     Inl reason \<Rightarrow> Some (config_error_outcome (cu_panels u) at reason)
   | Inr (sc, vs) \<Rightarrow>
       if cu_panels u \<noteq> [] \<and> list_all (panel_missing (sc_steps sc)) (cu_panels u)
       then Some (config_error_outcome (cu_panels u) at reason_latency_step_missing)
       else (case apply_step_limits (sc_steps sc) (cu_panels u) of (steps, flow_cap, limits) \<Rightarrow>
         let opts = \<lparr>to_env = vs, to_max_requests = monitor_max_requests, to_max_wall = flow_cap * 1000000000, to_apply_think = False\<rparr>;
             budget = flow_cap + outer_grace
         in case run (sc\<lparr>sc_steps := steps\<rparr>) opts (budget * 1000000000) of
           None \<Rightarrow> Some \<lparr>uo_trace = None, uo_results = outer_timeout_results (length (cu_panels u)) at flow_cap, uo_budget = budget\<rparr>
         | Some tr \<Rightarrow> map_option (\<lambda>rs. \<lparr>uo_trace = Some tr, uo_results = rs, uo_budget = budget\<rparr>)
             (judge_unit W steps (cu_panels u) tr at flow_cap limits)))"

end
