(* ===== verification/Monitor_Unit_Props.thy ===== *)
theory Monitor_Unit_Props
  imports Monitor_Unit Monitor_Config_Props Monitor_Steps_Props
begin

text \<open>
  The units of a validated board are its panels, block by block; the limits of a unit bound every request
  and the flow; a check of a unit always yields one result per panel.
\<close>

subsection \<open>The units of a board\<close>

fun unit_members :: "unit_plan \<Rightarrow> panel_config list" where
  "unit_members (UnitWhole p) = [p]"
| "unit_members (UnitSteps u) = cu_panels u"

lemma solo_members [simp]: "unit_members (solo_unit p) = [p]"
  by (simp add: solo_unit_def)

lemma group_of_None: "group_of gs p = None \<longleftrightarrow> (\<forall>gid. pn_group p = Some gid \<longrightarrow> gid \<notin> cg_id ` set gs)"
  by (cases "pn_group p") (auto simp: group_of_def find_None_iff)

lemma group_of_Some: "group_of gs p = Some g \<Longrightarrow> g \<in> set gs \<and> pn_group p = Some (cg_id g)"
  by (cases "pn_group p") (auto simp: group_of_def find_Some_iff)

lemma contiguous_block:
  assumes "contiguous (map f (p # ps))" "f p = Some gid"
  shows "filter (\<lambda>q. f q \<notin> Some ` S) (p # ps) =
    (if gid \<in> S then filter (\<lambda>q. f q \<notin> Some ` S) ps
     else filter (\<lambda>q. f q = Some gid) (p # ps) @ filter (\<lambda>q. f q \<notin> Some ` insert gid S) ps)"
proof (cases "gid \<in> S")
  case False
  let ?A = "takeWhile (\<lambda>q. f q = Some gid) ps" and ?D = "dropWhile (\<lambda>q. f q = Some gid) ps"
  define A where "A = ?A"
  define D where "D = ?D"
  note AD = A_def D_def
  have split: "ps = A @ D" by (simp add: AD)
  have "Some gid \<notin> set (dropWhile (\<lambda>y. y = Some gid) (map f ps))" using assms by simp
  then have "Some gid \<notin> f ` set ?D" by (simp add: dropWhile_map comp_def)
  then have d: "\<forall>q \<in> set D. f q \<noteq> Some gid" unfolding AD by force
  have a: "\<forall>q \<in> set A. f q = Some gid" unfolding AD by (auto dest: set_takeWhileD)
  have "filter (\<lambda>q. f q = Some gid) ps = A" "filter (\<lambda>q. f q \<notin> Some ` insert gid S) ps = filter (\<lambda>q. f q \<notin> Some ` S) D"
    "filter (\<lambda>q. f q \<notin> Some ` S) ps = A @ filter (\<lambda>q. f q \<notin> Some ` S) D"
    unfolding split using a d False by (auto simp: filter_empty_conv filter_id_conv intro: filter_cong)
  then show ?thesis using assms(2) False by auto
qed (use assms(2) in auto)

lemma plan_panels_members:
  assumes "contiguous (map pn_group ps)" "bd_panels c = qs @ ps" "Some ` seen = pn_group ` set qs - {None}"
    and "\<forall>p \<in> set ps. group_of (bd_groups c) p = None \<longrightarrow> pn_group p = None"
  shows "concat (map unit_members (plan_panels c seen ps)) = filter (\<lambda>p. pn_group p \<notin> Some ` seen) ps"
  using assms
proof (induction ps arbitrary: seen qs)
  case (Cons p ps)
  have c: "contiguous (map pn_group ps)" and q: "bd_panels c = (qs @ [p]) @ ps"
    and k: "\<forall>p \<in> set ps. group_of (bd_groups c) p = None \<longrightarrow> pn_group p = None" using Cons.prems(1,2,4) by simp_all
  show ?case
  proof (cases "group_of (bd_groups c) p")
    case None
    then have n: "pn_group p = None" using Cons.prems(4) by simp
    then have "Some ` seen = pn_group ` set (qs @ [p]) - {None}" using Cons.prems(3) by auto
    from Cons.IH [OF c q this k] show ?thesis using None n by auto
  next
    case (Some g)
    note g = group_of_Some [OF Some]
    note block = contiguous_block [OF Cons.prems(1) g [THEN conjunct2], of seen]
    show ?thesis
    proof (cases "cg_id g \<in> seen")
      case True
      then have "Some ` seen = pn_group ` set (qs @ [p]) - {None}" using Cons.prems(3) g by auto
      from Cons.IH [OF c q this k] show ?thesis using Some True block by simp
    next
      case False
      then have "Some (cg_id g) \<notin> pn_group ` set qs" using Cons.prems(3) by blast
      then have "filter (\<lambda>x. pn_group x = Some (cg_id g)) qs = []" unfolding filter_empty_conv by (metis image_eqI)
      then have u: "cu_panels (group_unit c g) = filter (\<lambda>x. pn_group x = Some (cg_id g)) (p # ps)"
        using Cons.prems(2) by (simp add: group_unit_def)
      have "Some ` insert (cg_id g) seen = pn_group ` set (qs @ [p]) - {None}" using Cons.prems(3) g by auto
      from Cons.IH [OF c q this k] show ?thesis using Some False u block by simp
    qed
  qed
qed simp

lemma plan_panels_units:
  "UnitSteps u \<in> set (plan_panels c seen ps) \<Longrightarrow>
    (\<exists>p \<in> set ps. \<exists>g. group_of (bd_groups c) p = Some g \<and> u = group_unit c g)
    \<or> (\<exists>p \<in> set ps. pn_step p \<noteq> None \<and> cu_panels u = [p] \<and> cu_scenario u = pn_scenario p \<and> cu_environment u = pn_environment p \<and> cu_interval u = pn_interval p)"
  by (induction c seen ps rule: plan_panels.induct) (auto simp: solo_unit_def split: option.splits if_splits)

lemma plan_panels_whole:
  "UnitWhole p \<in> set (plan_panels c seen ps) \<Longrightarrow> p \<in> set ps \<and> group_of (bd_groups c) p = None \<and> pn_step p = None"
  by (induction c seen ps rule: plan_panels.induct) (auto simp: solo_unit_def split: option.splits if_splits)

text \<open>
  C38: a validated board is checked completely and without duplication: its units, in order, hold exactly its
  panels, in order; the panels of a unit are step panels that agree with the unit on the scenario, the
  environment and the interval, and a panel checked alone as a whole flow watches no step and is in no group.
\<close>

theorem units_cover_board:
  assumes "validate_and_normalize B fresh name c0 = Inr (nm, c)" "\<And>i. bo_ulid B (fresh i)" "\<not> bo_ulid B []"
  shows "concat (map unit_members (plan_units c)) = bd_panels c
    \<and> (\<forall>u. UnitSteps u \<in> set (plan_units c) \<longrightarrow> cu_panels u \<noteq> [] \<and> (\<forall>p \<in> set (cu_panels u). pn_step p \<noteq> None
        \<and> pn_scenario p = cu_scenario u \<and> pn_environment p = cu_environment u \<and> pn_interval p = cu_interval u))
    \<and> (\<forall>p. UnitWhole p \<in> set (plan_units c) \<longrightarrow> pn_step p = None \<and> pn_group p = None)"
proof -
  have "board_ok B c" by (rule validated_board(1) [OF assms])
  then have gr: "groups_ok B (bd_panels c) (bd_groups c)" and mir: "\<forall>p \<in> set (bd_panels c). mirrored (bd_groups c) p"
    by (simp_all add: board_ok_def list_all_iff)
  have known: "\<And>p gid. p \<in> set (bd_panels c) \<Longrightarrow> pn_group p = Some gid \<Longrightarrow> gid \<in> cg_id ` set (bd_groups c) \<and> pn_step p \<noteq> None"
    using gr by (auto simp: groups_ok_def)
  have all: "concat (map unit_members (plan_units c)) = bd_panels c"
  proof -
    have "\<forall>p \<in> set (bd_panels c). group_of (bd_groups c) p = None \<longrightarrow> pn_group p = None"
      using known by (auto simp: group_of_None)
    then show ?thesis using plan_panels_members [of "bd_panels c" c "[]" "{}"] gr by (simp add: plan_units_def groups_ok_def)
  qed
  have steps: "cu_panels u \<noteq> [] \<and> (\<forall>p \<in> set (cu_panels u). pn_step p \<noteq> None
      \<and> pn_scenario p = cu_scenario u \<and> pn_environment p = cu_environment u \<and> pn_interval p = cu_interval u)"
    if "UnitSteps u \<in> set (plan_units c)" for u
    using plan_panels_units [OF that [unfolded plan_units_def]]
  proof (elim disjE bexE exE conjE)
    fix p g assume p: "p \<in> set (bd_panels c)" "group_of (bd_groups c) p = Some g" and u: "u = group_unit c g"
    note g = group_of_Some [OF p(2)]
    have "p \<in> set (cu_panels u)" using p(1) g u by (simp add: group_unit_def)
    then have "cu_panels u \<noteq> []" by auto
    moreover have "pn_step q \<noteq> None \<and> pn_scenario q = cg_scenario g \<and> pn_environment q = cg_environment g \<and> pn_interval q = cg_interval g"
      if "q \<in> set (bd_panels c)" "pn_group q = Some (cg_id g)" for q
      using known [OF that] mir that g by (simp add: mirrored_def)
    ultimately show ?thesis using u by (simp add: group_unit_def)
  qed auto
  have "pn_step p = None \<and> pn_group p = None" if "UnitWhole p \<in> set (plan_units c)" for p
    using plan_panels_whole [OF that [unfolded plan_units_def]] known by (auto simp: group_of_None)
  then show ?thesis using all steps by blast
qed
subsection \<open>The limits of a unit\<close>

lemma collect_map_http:
  "collect_http (map_http f ss) = map f (collect_http ss)"
  "collect_http_step (map_http_step f s) = map f (collect_http_step s)"
  "collect_http_elifs (map_http_elifs f es) = map f (collect_http_elifs es)"
  "collect_http_branches (map_http_branches f bs) = map f (collect_http_branches bs)"
  by (induction f ss and f s and f es and f bs rule: map_http_map_http_step_map_http_elifs_map_http_branches.induct) simp_all

lemma panel_limits_get:
  assumes "\<forall>p \<in> set ps. 1 \<le> pn_timeout p"
  shows "(\<forall>n. hm_get (panel_limits ps) i = Some n \<longrightarrow> 1 \<le> n \<and> n \<le> step_timeout_max)
    \<and> (\<forall>p \<in> set ps. pn_step p = Some i \<longrightarrow> (\<exists>n. hm_get (panel_limits ps) i = Some n \<and> min (pn_timeout p) step_timeout_max \<le> n))"
  using assms
proof (induction ps rule: rev_induct)
  case (snoc p ps)
  have r: "panel_limits (ps @ [p]) = (case pn_step p of None \<Rightarrow> panel_limits ps
      | Some i \<Rightarrow> hm_put i (max (step_limit (panel_limits ps) i 0) (min (pn_timeout p) step_timeout_max)) (panel_limits ps))"
    by (simp add: panel_limits_def split: option.split)
  have IH: "\<And>n. hm_get (panel_limits ps) i = Some n \<Longrightarrow> 1 \<le> n \<and> n \<le> step_timeout_max"
    "\<And>q. q \<in> set ps \<Longrightarrow> pn_step q = Some i \<Longrightarrow> \<exists>n. hm_get (panel_limits ps) i = Some n \<and> min (pn_timeout q) step_timeout_max \<le> n"
    using snoc by auto
  have p: "1 \<le> pn_timeout p" using snoc.prems by simp
  show ?case
  proof (cases "pn_step p = Some i")
    case True
    let ?n = "max (step_limit (panel_limits ps) i 0) (min (pn_timeout p) step_timeout_max)"
    have g: "hm_get (panel_limits (ps @ [p])) i = Some ?n" using True by (simp add: r hm_get_put)
    have "step_limit (panel_limits ps) i 0 \<le> step_timeout_max" using IH(1) by (auto simp: step_limit_def split: option.splits)
    moreover have "1 \<le> ?n" using p by (simp add: step_timeout_max_def le_max_iff_disj)
    ultimately have "1 \<le> ?n" "?n \<le> step_timeout_max" by simp_all
    moreover have "min (pn_timeout q) step_timeout_max \<le> ?n" if "q \<in> set (ps @ [p])" "pn_step q = Some i" for q
      using IH(2) [of q] that by (auto simp: step_limit_def)
    ultimately show ?thesis using g by (metis option.inject)
  next
    case False
    then have "hm_get (panel_limits (ps @ [p])) i = hm_get (panel_limits ps) i" by (auto simp: r hm_get_put split: option.splits)
    then show ?thesis using IH False by auto
  qed
qed (simp add: panel_limits_def hm_get_def)

lemma http_limit_range:
  assumes "\<forall>p \<in> set ps. 1 \<le> pn_timeout p"
  shows "1 \<le> http_limit (panel_limits ps) h \<and> http_limit (panel_limits ps) h \<le> step_timeout_max
    \<and> (\<forall>p \<in> set ps. pn_step p = Some (hs_id h) \<longrightarrow> min (pn_timeout p) step_timeout_max \<le> http_limit (panel_limits ps) h)"
  using panel_limits_get [OF assms, of "hs_id h"]
  by (auto simp: http_limit_def step_timeout_max_def unpaneled_step_timeout_def split: option.splits)

lemma fold_put_other: "k \<notin> f ` set xs \<Longrightarrow> hm_get (fold (\<lambda>x. hm_put (f x) (v x)) xs m) k = hm_get m k"
  by (induction xs arbitrary: m) (auto simp: hm_get_put)

lemma fold_put_get: "distinct (map f xs) \<Longrightarrow> x \<in> set xs \<Longrightarrow> hm_get (fold (\<lambda>x. hm_put (f x) (v x)) xs m) (f x) = Some (v x)"
  by (induction xs arbitrary: m) (auto simp: fold_put_other hm_get_put)

lemma hm_get_le_sum: "hm_get m k = Some (n::nat) \<Longrightarrow> n \<le> sum_list (map snd m)"
proof -
  assume "hm_get m k = Some n"
  then have "(k, n) \<in> set m" unfolding hm_get_def by (rule map_of_SomeD)
  then have "n \<in> set (map snd m)" by force
  then show "n \<le> sum_list (map snd m)" using member_le_sum_list [of n "map snd m"] by simp
qed

text \<open>
  the limits of a unit bound it: the flow may take at most two minutes, every request gets a limit of
  one to thirty seconds that is no smaller than any panel of its step asks for (up to thirty), nothing else of
  the scenario changes, and, step ids being distinct, the table holds the limit of every request and no
  request may take longer than the flow.
\<close>

theorem unit_limits_bounded:
  assumes "apply_step_limits steps ps = (steps', cap, limits)" "\<forall>p \<in> set ps. 1 \<le> pn_timeout p"
  shows "cap \<le> flow_cap_max
    \<and> map (\<lambda>h. h\<lparr>hs_timeout := None\<rparr>) (collect_http steps') = map (\<lambda>h. h\<lparr>hs_timeout := None\<rparr>) (collect_http steps)
    \<and> (\<forall>h \<in> set (collect_http steps'). \<exists>n. hs_timeout h = Some n \<and> 1 \<le> n \<and> n \<le> step_timeout_max
        \<and> (\<forall>p \<in> set ps. pn_step p = Some (hs_id h) \<longrightarrow> min (pn_timeout p) step_timeout_max \<le> n)
        \<and> (distinct (map hs_id (collect_http steps)) \<longrightarrow> hm_get limits (hs_id h) = Some n \<and> n \<le> cap))"
proof -
  let ?pl = "panel_limits ps"
  let ?f = "\<lambda>h. h\<lparr>hs_timeout := Some (http_limit ?pl h)\<rparr>"
  have d: "steps' = map_http ?f steps" "cap = min (sum_list (map snd limits)) flow_cap_max" "limits = limits_of ?pl steps"
    using assms(1) by (auto simp: apply_step_limits_def Let_def)
  have c: "collect_http steps' = map ?f (collect_http steps)" by (simp add: d collect_map_http)
  have "\<exists>n. hs_timeout h = Some n \<and> 1 \<le> n \<and> n \<le> step_timeout_max
        \<and> (\<forall>p \<in> set ps. pn_step p = Some (hs_id h) \<longrightarrow> min (pn_timeout p) step_timeout_max \<le> n)
        \<and> (distinct (map hs_id (collect_http steps)) \<longrightarrow> hm_get limits (hs_id h) = Some n \<and> n \<le> cap)"
    if h: "h \<in> set (collect_http steps')" for h
  proof -
    from h c obtain h0 where h0: "h0 \<in> set (collect_http steps)" "h = ?f h0" by auto
    have g: "hm_get limits (hs_id h0) = Some (http_limit ?pl h0)" if "distinct (map hs_id (collect_http steps))"
      unfolding d(3) limits_of_def by (rule fold_put_get [OF that h0(1)])
    have "http_limit ?pl h0 \<le> cap" if "distinct (map hs_id (collect_http steps))"
      using hm_get_le_sum [OF g [OF that]] http_limit_range [OF assms(2), of h0] by (simp add: d(2) step_timeout_max_def flow_cap_max_def)
    then show ?thesis using http_limit_range [OF assms(2), of h0] g h0(2) by simp
  qed
  then show ?thesis using d(2) c by (simp add: comp_def)
qed

subsection \<open>One check\<close>

lemma judge_unit_total: "\<exists>rs. judge_unit W steps ps tr at fc lim = Some rs \<and> length rs = length ps"
  using judge_unit_fixpoint [of tr W steps ps at fc lim] by (cases "sn_error tr") (auto simp: judge_unit_def)

lemma config_error_outcome_simps [simp]:
  "uo_trace (config_error_outcome ps at reason) = None" "length (uo_results (config_error_outcome ps at reason)) = length ps"
  "uo_budget (config_error_outcome ps at reason) = flow_cap_max + outer_grace"
  "\<forall>r \<in> set (uo_results (config_error_outcome ps at reason)). red r \<and> ck_at r = at"
  by (auto simp: config_error_outcome_def with_reason_def red_def initial_step_budget_def)

text \<open>
  a check of a unit always returns: whatever the stored rows, the scenario and the trace are, there is
  one result per panel, in a budget of at most two minutes and the grace; without a trace every panel is red.
\<close>

theorem unit_check_total:
  "\<exists>out. run_unit_check W scens envs yaml run u at = Some out \<and> length (uo_results out) = length (cu_panels u)
    \<and> uo_budget out \<le> initial_step_budget \<and> outer_grace \<le> uo_budget out
    \<and> (uo_trace out = None \<longrightarrow> (\<forall>r \<in> set (uo_results out). red r \<and> ck_at r = at))"
proof (cases "load_scenario_env scens envs yaml (cu_scenario u) (cu_environment u)")
  case (Inl reason)
  then have "run_unit_check W scens envs yaml run u at = Some (config_error_outcome (cu_panels u) at reason)"
    by (simp add: run_unit_check_def)
  then show ?thesis by (simp add: initial_step_budget_def)
next
  case (Inr sv)
  obtain sc vs where sv: "sv = (sc, vs)" by (cases sv)
  obtain steps cap limits where a: "apply_step_limits (sc_steps sc) (cu_panels u) = (steps, cap, limits)"
    by (cases "apply_step_limits (sc_steps sc) (cu_panels u)")
  then have cap: "cap \<le> flow_cap_max" by (auto simp: apply_step_limits_def Let_def)
  show ?thesis
  proof (cases "cu_panels u \<noteq> [] \<and> list_all (panel_missing (sc_steps sc)) (cu_panels u)")
    case True
    then have "run_unit_check W scens envs yaml run u at = Some (config_error_outcome (cu_panels u) at reason_latency_step_missing)"
      using Inr sv by (simp add: run_unit_check_def)
    then show ?thesis by (simp add: initial_step_budget_def)
  next
    case False
    let ?run = "run (sc\<lparr>sc_steps := steps\<rparr>) \<lparr>to_env = vs, to_max_requests = monitor_max_requests,
        to_max_wall = cap * 1000000000, to_apply_think = False\<rparr> ((cap + outer_grace) * 1000000000)"
    show ?thesis
    proof (cases ?run)
      case None
      then have "run_unit_check W scens envs yaml run u at = Some \<lparr>uo_trace = None,
          uo_results = outer_timeout_results (length (cu_panels u)) at cap, uo_budget = cap + outer_grace\<rparr>"
        using Inr sv a False by (auto simp: run_unit_check_def)
      then show ?thesis using cap by (simp add: outer_timeout_results_def with_reason_def red_def initial_step_budget_def)
    next
      case (Some tr)
      then show ?thesis using Inr sv a False cap judge_unit_total [of W steps "cu_panels u" tr at cap limits]
        by (auto simp: run_unit_check_def initial_step_budget_def)
    qed
  qed
qed
subsection \<open>Witnesses\<close>

theorem units_cover_board_witness:
  "\<exists>c. validate_and_normalize demo_board_ops (\<lambda>i. CHR ''u'' # replicate i CHR ''u'') '' n '' demo_board = Inr (''n'', c)
     \<and> concat (map unit_members (plan_units c)) = bd_panels c"
proof -
  obtain c where "validate_and_normalize demo_board_ops (\<lambda>i. CHR ''u'' # replicate i CHR ''u'') '' n '' demo_board = Inr (''n'', c)
      \<and> map pn_interval (bd_panels c) = [20, 20]" using demo_board_accepted by (rule exE)
  then have c: "validate_and_normalize demo_board_ops (\<lambda>i. CHR ''u'' # replicate i CHR ''u'') '' n '' demo_board = Inr (''n'', c)"
    by (rule conjunct1)
  have f: "bo_ulid demo_board_ops (CHR ''u'' # replicate i CHR ''u'')" for i by (simp add: demo_board_ops_def)
  have e: "\<not> bo_ulid demo_board_ops []" by (simp add: demo_board_ops_def)
  from units_cover_board [OF c f e] have "concat (map unit_members (plan_units c)) = bd_panels c" by (rule conjunct1)
  with c show ?thesis by (intro exI [of _ c] conjI)
qed

theorem unit_limits_bounded_witness:
  "\<exists>steps' cap limits. apply_step_limits demo_unit_steps [demo_unit_panel ''b''] = (steps', cap, limits) \<and> cap \<le> flow_cap_max
     \<and> hm_get limits ''b'' = Some 5"
proof -
  obtain steps' cap limits where a: "apply_step_limits demo_unit_steps [demo_unit_panel ''b''] = (steps', cap, limits)"
    by (cases "apply_step_limits demo_unit_steps [demo_unit_panel ''b'']")
  have "\<forall>p \<in> set [demo_unit_panel ''b'']. 1 \<le> pn_timeout p" by (simp add: demo_unit_panel_def demo_wall_panel_def)
  from unit_limits_bounded [OF a this] have "cap \<le> flow_cap_max" by blast
  moreover have "hm_get limits ''b'' = Some 5"
    using a by (auto simp: apply_step_limits_def Let_def limits_of_def demo_unit_steps_def demo_step_def hm_get_def http_limit_def
        panel_limits_def demo_unit_panel_def demo_wall_panel_def step_limit_def step_timeout_max_def)
  ultimately show ?thesis using a by blast
qed

definition demo_unit :: check_unit where
  "demo_unit = \<lparr>cu_scenario = ''s'', cu_environment = None, cu_interval = 10, cu_panels = [demo_unit_panel ''b'']\<rparr>"

theorem unit_check_total_witness:
  "\<exists>out. run_unit_check demo_wall_ops (\<lambda>_. None) (\<lambda>_. None) (\<lambda>_. None :: unit scenario option) (\<lambda>_ _ _. None) demo_unit 7 = Some out
     \<and> length (uo_results out) = 1 \<and> (\<forall>r \<in> set (uo_results out). red r)"
proof -
  let ?run = "run_unit_check demo_wall_ops (\<lambda>_. None) (\<lambda>_. None) (\<lambda>_. None :: unit scenario option) (\<lambda>_ _ _. None) demo_unit 7"
  have e: "?run = Some (config_error_outcome (cu_panels demo_unit) 7 reason_scenario_missing)"
    by (simp only: run_unit_check_def load_scenario_env_def option.case sum.case)
  obtain out where "?run = Some out \<and> length (uo_results out) = length (cu_panels demo_unit)
      \<and> uo_budget out \<le> initial_step_budget \<and> outer_grace \<le> uo_budget out
      \<and> (uo_trace out = None \<longrightarrow> (\<forall>r \<in> set (uo_results out). red r \<and> ck_at r = 7))"
    using unit_check_total [of demo_wall_ops "\<lambda>_. None" "\<lambda>_. None" "\<lambda>_. None :: unit scenario option" "\<lambda>_ _ _. None" demo_unit 7] by (rule exE)
  then show ?thesis using e by (intro exI [of _ out]) (simp add: demo_unit_def)
qed

end
