(* ===== verification/Monitor_Record.thy ===== *)
theory Monitor_Record
  imports Monitor_Check
begin

text \<open>
  \<^verbatim>\<open>controller/src/monitor/record.rs\<close>: the record of a check that is kept in memory and served without
  authentication. Authentication values are masked, variables are dropped and the bodies are cut to a common
  budget. Parsing an URL is a parameter.
\<close>

definition mask :: string where
  "mask = utf8 [226, 128, 162, 226, 128, 162, 226, 128, 162, 226, 128, 162]"

definition mask_url_encoded :: string where "mask_url_encoded = ''%E2%80%A2%E2%80%A2%E2%80%A2%E2%80%A2''"

datatype clip_side = SideRequest | SideResponse

record clipped =
  cl_step :: nat
  cl_side :: clip_side

record record_body =
  rb_limit_kb :: nat
  rb_trace :: "scenario_trace option"
  rb_clipped :: "clipped list"

record check_record =
  cr_at :: int
  cr_result :: check_result
  cr_body :: record_body

subsection \<open>Masking header values\<close>

definition blank :: "string \<Rightarrow> bool" where "blank s \<longleftrightarrow> trim s = []"

definition mask_authorization :: "string \<Rightarrow> string" where
  "mask_authorization v = (case position (\<lambda>c. c = CHR '' '') v of
     Some sp \<Rightarrow> if blank (drop (sp + 1) v) then v else take (sp + 1) v @ mask
   | None \<Rightarrow> if blank v then v else mask)"

definition mask_pair :: "string \<Rightarrow> string" where
  "mask_pair pair = (case position (\<lambda>c. c = CHR ''='') pair of
     Some e \<Rightarrow> if blank (drop (e + 1) pair) then pair else take (e + 1) pair @ mask
   | None \<Rightarrow> if blank pair then pair else take (length pair - length (trim_start pair)) pair @ mask)"

definition mask_cookie :: "string \<Rightarrow> string" where
  "mask_cookie v = join_with '';'' (map mask_pair (split_on CHR '';'' v))"

definition mask_set_cookie :: "string \<Rightarrow> string" where
  "mask_set_cookie v = (let hd1 = hd (split_on CHR '';'' v) in
     case position (\<lambda>c. c = CHR ''='') hd1 of
       Some e \<Rightarrow> if blank (drop (e + 1) hd1) then take (e + 1) hd1 else take (e + 1) hd1 @ mask
     | None \<Rightarrow> if blank v then v else if blank hd1 then hd1 else mask)"

definition mask_header :: "string \<Rightarrow> string \<Rightarrow> string" where
  "mask_header name v = (case find (eq_ignore_ascii_case (trim name)) auth_headers of
     None \<Rightarrow> v
   | Some h \<Rightarrow> if h = ''cookie'' then mask_cookie v
       else if h = ''set-cookie'' then mask_set_cookie v
       else mask_authorization v)"

definition mask_headers :: "(string, string) btree_map \<Rightarrow> (string, string) btree_map" where
  "mask_headers hs = map (\<lambda>(k, v). (k, mask_header k v)) hs"

subsection \<open>Masking URLs\<close>

text \<open>The position of the last \<open>x\<close>.\<close>

definition last_at :: "char \<Rightarrow> string \<Rightarrow> nat option" where
  "last_at x s = map_option (\<lambda>i. length s - 1 - i) (position (\<lambda>c. c = x) (rev s))"

definition splice_userinfo :: "string \<Rightarrow> string option" where
  "splice_userinfo u = (case position (\<lambda>c. c = CHR '':'') u of
     Some c \<Rightarrow> if c + 1 < length u then Some (take (c + 1) u @ mask) else if c = 0 then None else Some (mask @ '':'')
   | None \<Rightarrow> if u = [] then None else Some mask)"

definition splice_url_userinfo :: "string \<Rightarrow> string" where
  "splice_url_userinfo url = (case find_sub ''://'' url of
     None \<Rightarrow> url
   | Some sep \<Rightarrow> (let start = sep + 3; rest = drop start url;
         auth_end = (case position (\<lambda>c. c \<in> {CHR ''/'', CHR ''?'', CHR ''#''}) rest of Some e \<Rightarrow> e | None \<Rightarrow> length rest)
       in case last_at CHR ''@'' (take auth_end rest) of
         None \<Rightarrow> url
       | Some a \<Rightarrow> (case splice_userinfo (take a rest) of None \<Rightarrow> url
           | Some masked \<Rightarrow> take start url @ masked @ drop a rest)))"

record parsed_url =
  pu_text :: string
  pu_username :: string
  pu_password :: "string option"

definition has_live_credentials :: "parsed_url \<Rightarrow> bool" where
  "has_live_credentials u = (case pu_password u of
     Some p \<Rightarrow> if p \<noteq> [] then p \<noteq> mask_url_encoded else pu_username u \<noteq> [] \<and> pu_username u \<noteq> mask_url_encoded
   | None \<Rightarrow> pu_username u \<noteq> [] \<and> pu_username u \<noteq> mask_url_encoded)"

definition mask_url_userinfo :: "(string \<Rightarrow> parsed_url option) \<Rightarrow> string \<Rightarrow> string" where
  "mask_url_userinfo parse url = (let spliced = splice_url_userinfo url in
     case parse spliced of
       None \<Rightarrow> spliced
     | Some u \<Rightarrow>
         if \<not> has_live_credentials u then spliced
         else (let again = splice_url_userinfo (pu_text u) in
           case parse again of
             Some u2 \<Rightarrow> if \<not> has_live_credentials u2 then again else mask
           | None \<Rightarrow> mask))"

subsection \<open>Cutting bodies\<close>

definition char_boundary :: "string \<Rightarrow> nat \<Rightarrow> bool" where
  "char_boundary s n \<longleftrightarrow> n = 0 \<or> n = length s \<or> (n < length s \<and> \<not> cont_byte (s ! n))"

fun cut_point :: "string \<Rightarrow> nat \<Rightarrow> nat" where
  "cut_point s 0 = 0"
| "cut_point s (Suc n) = (if char_boundary s (Suc n) then Suc n else cut_point s n)"

text \<open>The kept body, the budget left, and whether the body was cut.\<close>

definition clip_body :: "string \<Rightarrow> nat \<Rightarrow> string \<times> nat \<times> bool" where
  "clip_body body budget =
     (if length body \<le> budget then (body, budget - length body, False)
      else let n = cut_point body budget in (take n body, budget - n, True))"

subsection \<open>The record\<close>

definition mask_request :: "(string \<Rightarrow> parsed_url option) \<Rightarrow> traced_request \<Rightarrow> traced_request" where
  "mask_request parse r = r\<lparr>tq_headers := mask_headers (tq_headers r), tq_url := mask_url_userinfo parse (tq_url r)\<rparr>"

definition mask_response :: "traced_response \<Rightarrow> traced_response" where
  "mask_response r = r\<lparr>tp_headers := mask_headers (tp_headers r), tp_set_cookies := map mask_set_cookie (tp_set_cookies r)\<rparr>"

definition clip_request :: "(string \<Rightarrow> parsed_url option) \<Rightarrow> nat \<Rightarrow> traced_request option \<Rightarrow> nat \<Rightarrow> traced_request option \<times> nat \<times> clipped list" where
  "clip_request parse i r b = (case r of None \<Rightarrow> (None, b, [])
     | Some q \<Rightarrow> (let q1 = mask_request parse q in
         case tq_body q1 of None \<Rightarrow> (Some q1, b, [])
         | Some body \<Rightarrow> (case clip_body body b of (body', b', was_cut) \<Rightarrow>
             (Some (q1\<lparr>tq_body := Some body'\<rparr>), b', if was_cut then [\<lparr>cl_step = i, cl_side = SideRequest\<rparr>] else []))))"

definition clip_response :: "nat \<Rightarrow> traced_response option \<Rightarrow> nat \<Rightarrow> traced_response option \<times> nat \<times> clipped list" where
  "clip_response i r b = (case r of None \<Rightarrow> (None, b, [])
     | Some q \<Rightarrow> (let q1 = mask_response q in
         case clip_body (tp_body q1) b of (body', b', was_cut) \<Rightarrow>
           (Some (q1\<lparr>tp_body := body'\<rparr>), b', if was_cut then [\<lparr>cl_step = i, cl_side = SideResponse\<rparr>] else [])))"

fun clip_rows :: "(string \<Rightarrow> parsed_url option) \<Rightarrow> nat \<Rightarrow> nat \<Rightarrow> step_trace list \<Rightarrow> step_trace list \<times> clipped list" where
  "clip_rows parse i b [] = ([], [])"
| "clip_rows parse i b (s # ss) =
     (case clip_request parse (min i u32_max) (sr_request s) b of (q, b1, c1) \<Rightarrow>
      case clip_response (min i u32_max) (sr_response s) b1 of (r, b2, c2) \<Rightarrow>
      case clip_rows parse (i + 1) b2 ss of (ss', cs) \<Rightarrow>
        (s\<lparr>sr_extracted := [], sr_branch_eval := [], sr_request := q, sr_response := r\<rparr> # ss', c1 @ c2 @ cs))"

definition build_record_body :: "(string \<Rightarrow> parsed_url option) \<Rightarrow> scenario_trace option \<Rightarrow> nat \<Rightarrow> record_body" where
  "build_record_body parse tr limit_kb = (case tr of
     None \<Rightarrow> \<lparr>rb_limit_kb = limit_kb, rb_trace = None, rb_clipped = []\<rparr>
   | Some t \<Rightarrow> (case clip_rows parse 0 (limit_kb * 1024) (sn_steps t) of (ss, cs) \<Rightarrow>
       \<lparr>rb_limit_kb = limit_kb, rb_trace = Some (t\<lparr>sn_final_vars := [], sn_steps := ss\<rparr>), rb_clipped = cs\<rparr>))"

definition build_record :: "(string \<Rightarrow> parsed_url option) \<Rightarrow> check_result \<Rightarrow> scenario_trace option \<Rightarrow> nat \<Rightarrow> check_record" where
  "build_record parse result tr limit_kb =
     \<lparr>cr_at = ck_at result, cr_result = result, cr_body = build_record_body parse tr limit_kb\<rparr>"

end
