(* ===== verification/Monitor_Record_Props.thy ===== *)
theory Monitor_Record_Props
  imports Monitor_Record Monitor_Check_Props
begin

text \<open>
  What a record may hold: bodies within the budget, cut between characters, and nothing of an authentication
  value beyond its scheme or its name.
\<close>

subsection \<open>Cutting\<close>

lemma cut_point_le: "cut_point s n \<le> n"
  by (induction n) auto

lemma cut_point_boundary: "char_boundary s (cut_point s n)"
  by (induction n) (auto simp: char_boundary_def)

lemma cut_point_greatest: "k \<le> n \<Longrightarrow> char_boundary s k \<Longrightarrow> k \<le> cut_point s n"
  by (induction n) (auto simp: le_Suc_eq)

lemma is_utf8_cut: "is_utf8 s \<Longrightarrow> char_boundary s n \<Longrightarrow> is_utf8 (take n s)"
proof (induction s arbitrary: n rule: is_utf8.induct)
  case (2 a s)
  show ?case
  proof (cases n)
    case (Suc k)
    consider "byte a < 128" | b t where "\<not> byte a < 128" "s = b # t" "0xC2 \<le> byte a \<and> byte a \<le> 0xDF"
      | b c t where "\<not> byte a < 128" "s = b # c # t" "0xE0 \<le> byte a \<and> byte a \<le> 0xEF"
      | b c d t where "\<not> byte a < 128" "s = b # c # d # t" "0xF0 \<le> byte a"
      using "2.prems"(1) by (auto simp: Let_def split: list.splits if_splits)
    then show ?thesis
    proof cases
      case 1
      have "is_utf8 (take k s)" using "2.IH"(1) [OF refl 1] "2.prems" Suc 1 by (auto simp: char_boundary_def Let_def)
      then show ?thesis using Suc 1 by (simp add: Let_def)
    next
      case (2 b t)
      have n: "k \<noteq> 0" using "2.prems" 2 Suc by (intro notI; auto simp: char_boundary_def Let_def)+
      then obtain m where k: "k = Suc m" by (cases k) auto
      have "is_utf8 t" "char_boundary t m" using "2.prems" 2 Suc k by (auto simp: char_boundary_def Let_def)
      with "2.IH"(2) [OF refl 2(1,2) _] 2(3) have "is_utf8 (take m t)" by auto
      then show ?thesis using "2.prems"(1) 2 Suc k by (simp add: Let_def)
    next
      case (3 b c t)
      have n: "k \<noteq> 0" "k \<noteq> 1" using "2.prems" 3 Suc by (intro notI; auto simp: char_boundary_def Let_def)+
      then obtain m where k: "k = Suc (Suc m)" by (metis One_nat_def not0_implies_Suc)
      have "is_utf8 t" "char_boundary t m" using "2.prems" 3 Suc k by (auto simp: char_boundary_def Let_def)
      with "2.IH"(3) [OF refl 3(1,2) _ refl] 3(3) have "is_utf8 (take m t)" by auto
      then show ?thesis using "2.prems"(1) 3 Suc k by (simp add: Let_def)
    next
      case (4 b c d t)
      have n: "k \<noteq> 0" "k \<noteq> 1" "k \<noteq> 2" using "2.prems" 4 Suc by (intro notI; auto simp: char_boundary_def Let_def)+
      then obtain m where k: "k = Suc (Suc (Suc m))" by (metis One_nat_def Suc_1 not0_implies_Suc)
      have "is_utf8 t" "char_boundary t m" using "2.prems" 4 Suc k by (auto simp: char_boundary_def Let_def)
      with "2.IH"(4) [OF refl 4(1,2) _ refl _ refl] 4(3) have "is_utf8 (take m t)" by auto
      then show ?thesis using "2.prems"(1) 4 Suc k by (simp add: Let_def)
    qed
  qed simp
qed simp
definition request_body :: "step_trace \<Rightarrow> string option" where "request_body s = Option.bind (sr_request s) tq_body"
definition response_body :: "step_trace \<Rightarrow> string option" where "response_body s = map_option tp_body (sr_response s)"

fun opt_length :: "string option \<Rightarrow> nat" where
  "opt_length None = 0"
| "opt_length (Some x) = length x"

definition body_bytes :: "step_trace list \<Rightarrow> nat" where
  "body_bytes ss = (\<Sum>s\<leftarrow>ss. opt_length (request_body s) + opt_length (response_body s))"

text \<open>A kept body is the beginning of the original, valid UTF-8 if that is, and differs from it exactly when it was cut.\<close>

fun kept :: "string option \<Rightarrow> string option \<Rightarrow> bool \<Rightarrow> bool" where
  "kept None None c \<longleftrightarrow> \<not> c"
| "kept (Some x) (Some y) c \<longleftrightarrow> (\<exists>n. y = take n x) \<and> (is_utf8 x \<longrightarrow> is_utf8 y) \<and> (c \<longleftrightarrow> y \<noteq> x)"
| "kept _ _ c \<longleftrightarrow> False"

lemma clip_body_kept:
  assumes "clip_body x b = (y, b', c)"
  shows "kept (Some x) (Some y) c \<and> length y + b' = b"
proof (cases "length x \<le> b")
  case False
  have le: "cut_point x b \<le> b" and u: "is_utf8 x \<longrightarrow> is_utf8 (take (cut_point x b) x)"
    using cut_point_le is_utf8_cut cut_point_boundary by blast+
  have y: "y = take (cut_point x b) x" "b' = b - cut_point x b" "c" using assms False by (auto simp: clip_body_def Let_def)
  have "length y < length x" using False le y(1) by simp
  then have "y \<noteq> x" by auto
  then show ?thesis using y u le False by auto
qed (use assms in \<open>auto simp: clip_body_def intro: exI [of _ "length x"]\<close>)

lemma clip_request_kept:
  assumes "clip_request parse i r b = (r', b', cs)"
  shows "\<exists>c. kept (Option.bind r tq_body) (Option.bind r' tq_body) c
     \<and> cs = (if c then [\<lparr>cl_step = i, cl_side = SideRequest\<rparr>] else []) \<and> opt_length (Option.bind r' tq_body) + b' = b"
proof (cases "Option.bind r tq_body")
  case None
  then show ?thesis using assms
    by (intro exI [of _ False]) (auto simp: clip_request_def mask_request_def split: option.splits)
next
  case (Some x)
  obtain y b1 c where k: "clip_body x b = (y, b1, c)" by (cases "clip_body x b")
  show ?thesis using assms Some k clip_body_kept [OF k]
    by (intro exI [of _ c]) (auto simp: clip_request_def mask_request_def simp del: kept.simps(2) split: option.splits)
qed

lemma clip_response_kept:
  assumes "clip_response i r b = (r', b', cs)"
  shows "\<exists>c. kept (map_option tp_body r) (map_option tp_body r') c
     \<and> cs = (if c then [\<lparr>cl_step = i, cl_side = SideResponse\<rparr>] else []) \<and> opt_length (map_option tp_body r') + b' = b"
proof (cases r)
  case None
  then show ?thesis using assms by (intro exI [of _ False]) (auto simp: clip_response_def)
next
  case (Some q)
  obtain y b1 c where k: "clip_body (tp_body q) b = (y, b1, c)" by (cases "clip_body (tp_body q) b")
  show ?thesis using assms Some k clip_body_kept [OF k]
    by (intro exI [of _ c]) (auto simp: clip_response_def mask_response_def simp del: kept.simps(2))
qed

lemma clip_rows_kept:
  assumes "clip_rows parse i b ss = (ss', cs)" "i + length ss \<le> u32_max"
  shows "length ss' = length ss \<and> body_bytes ss' \<le> b \<and> (\<forall>c \<in> set cs. i \<le> cl_step c)
    \<and> (\<forall>k < length ss. kept (request_body (ss ! k)) (request_body (ss' ! k)) (\<lparr>cl_step = i + k, cl_side = SideRequest\<rparr> \<in> set cs)
        \<and> kept (response_body (ss ! k)) (response_body (ss' ! k)) (\<lparr>cl_step = i + k, cl_side = SideResponse\<rparr> \<in> set cs))"
  using assms
proof (induction ss arbitrary: i b ss' cs)
  case (Cons s ss)
  have i: "min i u32_max = i" using Cons.prems(2) by simp
  obtain q b1 c1 where q: "clip_request parse i (sr_request s) b = (q, b1, c1)" by (cases "clip_request parse i (sr_request s) b")
  obtain r b2 c2 where r: "clip_response i (sr_response s) b1 = (r, b2, c2)" by (cases "clip_response i (sr_response s) b1")
  obtain ss1 cs1 where rest: "clip_rows parse (i + 1) b2 ss = (ss1, cs1)" by (cases "clip_rows parse (i + 1) b2 ss")
  let ?s = "s\<lparr>sr_extracted := [], sr_branch_eval := [], sr_request := q, sr_response := r\<rparr>"
  have e: "ss' = ?s # ss1" "cs = c1 @ c2 @ cs1" using Cons.prems(1) unfolding clip_rows.simps i q r prod.case rest by auto
  have IH: "length ss1 = length ss" "body_bytes ss1 \<le> b2" "\<And>c. c \<in> set cs1 \<Longrightarrow> i + 1 \<le> cl_step c"
    "\<And>k. k < length ss \<Longrightarrow> kept (request_body (ss ! k)) (request_body (ss1 ! k)) (\<lparr>cl_step = i + 1 + k, cl_side = SideRequest\<rparr> \<in> set cs1)"
    "\<And>k. k < length ss \<Longrightarrow> kept (response_body (ss ! k)) (response_body (ss1 ! k)) (\<lparr>cl_step = i + 1 + k, cl_side = SideResponse\<rparr> \<in> set cs1)"
    using Cons.IH [OF rest] Cons.prems(2) by simp_all
  obtain k1 where k1: "kept (request_body s) (request_body ?s) k1" "c1 = (if k1 then [\<lparr>cl_step = i, cl_side = SideRequest\<rparr>] else [])"
      "opt_length (request_body ?s) + b1 = b"
    using clip_request_kept [OF q] by (auto simp: request_body_def)
  obtain k2 where k2: "kept (response_body s) (response_body ?s) k2" "c2 = (if k2 then [\<lparr>cl_step = i, cl_side = SideResponse\<rparr>] else [])"
      "opt_length (response_body ?s) + b2 = b1"
    using clip_response_kept [OF r] by (auto simp: response_body_def)
  have n: "\<lparr>cl_step = i, cl_side = x\<rparr> \<notin> set cs1" for x using IH(3) [of "\<lparr>cl_step = i, cl_side = x\<rparr>"] by auto
  have "body_bytes ss' \<le> b" using IH(2) k1(3) k2(3) by (simp add: e body_bytes_def)
  moreover have "i \<le> cl_step c" if "c \<in> set cs" for c using that IH(3) [of c] k1(2) k2(2) by (auto simp: e split: if_splits)
  moreover have "kept (request_body ((s # ss) ! k)) (request_body (ss' ! k)) (\<lparr>cl_step = i + k, cl_side = SideRequest\<rparr> \<in> set cs)
      \<and> kept (response_body ((s # ss) ! k)) (response_body (ss' ! k)) (\<lparr>cl_step = i + k, cl_side = SideResponse\<rparr> \<in> set cs)"
    if "k < length (s # ss)" for k
  proof (cases k)
    case 0
    have "(\<lparr>cl_step = i, cl_side = SideRequest\<rparr> \<in> set cs) = k1" "(\<lparr>cl_step = i, cl_side = SideResponse\<rparr> \<in> set cs) = k2"
      using n k1(2) k2(2) by (auto simp: e)
    then show ?thesis using 0 k1(1) k2(1) e(1) by simp
  next
    case (Suc m)
    have "(\<lparr>cl_step = i + k, cl_side = x\<rparr> \<in> set cs) = (\<lparr>cl_step = i + 1 + m, cl_side = x\<rparr> \<in> set cs1)" for x
      using k1(2) k2(2) Suc by (auto simp: e)
    then show ?thesis using IH(4,5) [of m] Suc that e(1) by simp
  qed
  ultimately show ?case using IH(1) e(1) by simp
qed (simp add: body_bytes_def)

text \<open>
  C39: the record of a check holds no more body bytes than its limit, whatever the responses were; every kept
  body is the beginning of the one received, still valid UTF-8, and the bodies reported as clipped are
  exactly those that are not complete. The variables and the decisions of the trace are dropped.
\<close>

theorem record_within_budget:
  assumes "build_record_body parse (Some t) kb = r" "length (sn_steps t) \<le> u32_max"
  shows "\<exists>t'. rb_trace r = Some t' \<and> length (sn_steps t') = length (sn_steps t) \<and> body_bytes (sn_steps t') \<le> kb * 1024
    \<and> sn_final_vars t' = [] \<and> (\<forall>s \<in> set (sn_steps t'). sr_extracted s = [] \<and> sr_branch_eval s = [])
    \<and> (\<forall>k < length (sn_steps t).
         kept (request_body (sn_steps t ! k)) (request_body (sn_steps t' ! k)) (\<lparr>cl_step = k, cl_side = SideRequest\<rparr> \<in> set (rb_clipped r))
         \<and> kept (response_body (sn_steps t ! k)) (response_body (sn_steps t' ! k)) (\<lparr>cl_step = k, cl_side = SideResponse\<rparr> \<in> set (rb_clipped r)))"
proof -
  obtain ss cs where c: "clip_rows parse 0 (kb * 1024) (sn_steps t) = (ss, cs)" by (cases "clip_rows parse 0 (kb * 1024) (sn_steps t)")
  have "\<forall>s \<in> set ss'. sr_extracted s = [] \<and> sr_branch_eval s = []" if "clip_rows parse i b rows = (ss', cs')" for i b rows ss' cs'
    using that by (induction rows arbitrary: i b ss' cs') (auto split: prod.splits)
  from this [OF c] show ?thesis using clip_rows_kept [OF c] assms c
    by (intro exI [of _ "t\<lparr>sn_final_vars := [], sn_steps := ss\<rparr>"]) (auto simp: build_record_body_def)
qed
subsection \<open>Masking\<close>

lemma position_first: "x \<notin> set s \<Longrightarrow> position (\<lambda>c. c = x) (s @ x # r) = Some (length s)"
  by (induction s) auto

lemma position_absent: "x \<notin> set s \<Longrightarrow> position (\<lambda>c. c = x) s = None"
  by (induction s) auto

text \<open>Two values with the same public part: everything up to the first \<open>x\<close>, the rest not blank.\<close>

definition same_before :: "char \<Rightarrow> string \<Rightarrow> string \<Rightarrow> bool" where
  "same_before x v v' \<longleftrightarrow> (\<exists>s r r'. v = s @ x # r \<and> v' = s @ x # r' \<and> x \<notin> set s \<and> \<not> blank r \<and> \<not> blank r')"

definition all_secret :: "char \<Rightarrow> string \<Rightarrow> string \<Rightarrow> bool" where
  "all_secret x v v' \<longleftrightarrow> x \<notin> set v \<and> x \<notin> set v' \<and> \<not> blank v \<and> \<not> blank v'"

definition same_authorization :: "string \<Rightarrow> string \<Rightarrow> bool" where
  "same_authorization v v' \<longleftrightarrow> v = v' \<or> same_before CHR '' '' v v' \<or> all_secret CHR '' '' v v'"

definition same_pair :: "string \<Rightarrow> string \<Rightarrow> bool" where
  "same_pair p p' \<longleftrightarrow> p = p' \<or> same_before CHR ''='' p p' \<or> all_secret CHR ''='' p p'
     \<and> take (length p - length (trim_start p)) p = take (length p' - length (trim_start p')) p'"

definition same_cookie :: "string \<Rightarrow> string \<Rightarrow> bool" where
  "same_cookie v v' \<longleftrightarrow> list_all2 same_pair (split_on CHR '';'' v) (split_on CHR '';'' v')"

definition same_set_cookie :: "string \<Rightarrow> string \<Rightarrow> bool" where
  "same_set_cookie v v' \<longleftrightarrow> v = v' \<or> \<not> blank v \<and> \<not> blank v' \<and>
     (let h = hd (split_on CHR '';'' v); h' = hd (split_on CHR '';'' v') in same_before CHR ''='' h h' \<or> all_secret CHR ''='' h h')"

definition same_header :: "string \<Rightarrow> string \<Rightarrow> string \<Rightarrow> bool" where
  "same_header name v v' \<longleftrightarrow> v = v' \<or> (let h = ascii_lower (trim name) in
     h = ''cookie'' \<and> same_cookie v v' \<or> h = ''set-cookie'' \<and> same_set_cookie v v'
     \<or> h \<in> {''authorization'', ''proxy-authorization''} \<and> same_authorization v v')"

lemma mask_authorization_same: "same_authorization v v' \<Longrightarrow> mask_authorization v = mask_authorization v'"
  by (auto simp: same_authorization_def same_before_def all_secret_def mask_authorization_def position_first position_absent)

lemma mask_pair_same: "same_pair p p' \<Longrightarrow> mask_pair p = mask_pair p'"
  by (auto simp: same_pair_def same_before_def all_secret_def mask_pair_def position_first position_absent)

lemma mask_cookie_same:
  assumes "same_cookie v v'"
  shows "mask_cookie v = mask_cookie v'"
proof -
  have "map mask_pair ps = map mask_pair ps'" if "list_all2 same_pair ps ps'" for ps ps'
    using that by (induction rule: list_all2_induct) (auto simp: mask_pair_same)
  then show ?thesis using assms by (simp add: mask_cookie_def same_cookie_def)
qed

lemma mask_set_cookie_same:
  assumes "same_set_cookie v v'"
  shows "mask_set_cookie v = mask_set_cookie v'"
proof (cases "v = v'")
  case False
  define h where "h = hd (split_on CHR '';'' v)"
  define h' where "h' = hd (split_on CHR '';'' v')"
  have "\<not> blank v" "\<not> blank v'" "same_before CHR ''='' h h' \<or> all_secret CHR ''='' h h'"
    using assms False by (simp_all add: same_set_cookie_def Let_def h_def h'_def)
  then show ?thesis unfolding mask_set_cookie_def Let_def h_def [symmetric] h'_def [symmetric]
    by (auto simp: same_before_def all_secret_def position_first position_absent)
qed simp

lemma mask_header_same: "same_header name v v' \<Longrightarrow> mask_header name v = mask_header name v'"
proof -
  assume same: "same_header name v v'"
  have l: "ascii_lower ''set-cookie'' = ''set-cookie''" "ascii_lower ''cookie'' = ''cookie''"
    "ascii_lower ''authorization'' = ''authorization''" "ascii_lower ''proxy-authorization'' = ''proxy-authorization''"
    by code_simp+
  show "mask_header name v = mask_header name v'"
    using same mask_authorization_same [of v v'] mask_cookie_same [of v v'] mask_set_cookie_same [of v v']
    by (auto simp: same_header_def Let_def mask_header_def auth_headers_def eq_ignore_ascii_case_def l)
qed

text \<open>Rows that differ only in what a record must not show.\<close>

definition same_headers :: "(string, string) btree_map \<Rightarrow> (string, string) btree_map \<Rightarrow> bool" where
  "same_headers hs hs' \<longleftrightarrow> list_all2 (\<lambda>x y. fst x = fst y \<and> same_header (fst x) (snd x) (snd y)) hs hs'"

text \<open>
  Two URLs that differ only in the secret part of their userinfo: the password of a user, or a token that is
  the whole userinfo.
\<close>

definition same_userinfo :: "string \<Rightarrow> string \<Rightarrow> bool" where
  "same_userinfo a a' \<longleftrightarrow>
     (\<exists>u p p'. a = u @ '':'' @ p \<and> a' = u @ '':'' @ p' \<and> CHR '':'' \<notin> set u \<and> p \<noteq> [] \<and> p' \<noteq> [])
     \<or> CHR '':'' \<notin> set a \<and> CHR '':'' \<notin> set a' \<and> a \<noteq> [] \<and> a' \<noteq> []"

definition authority_end :: "char \<Rightarrow> bool" where
  "authority_end c \<longleftrightarrow> c \<in> {CHR ''/'', CHR ''?'', CHR ''#''}"

definition same_url :: "string \<Rightarrow> string \<Rightarrow> bool" where
  "same_url x x' \<longleftrightarrow> x = x' \<or> (\<exists>s a a' r. x = s @ ''://'' @ a @ ''@'' @ r \<and> x' = s @ ''://'' @ a' @ ''@'' @ r
     \<and> find_sub ''://'' x = Some (length s) \<and> find_sub ''://'' x' = Some (length s) \<and> same_userinfo a a'
     \<and> list_all (\<lambda>c. \<not> authority_end c) a \<and> list_all (\<lambda>c. \<not> authority_end c) a'
     \<and> CHR ''@'' \<notin> set (takeWhile (\<lambda>c. \<not> authority_end c) r))"

lemma splice_userinfo_same: "same_userinfo a a' \<Longrightarrow> \<exists>m. splice_userinfo a = Some m \<and> splice_userinfo a' = Some m"
  by (auto simp: same_userinfo_def splice_userinfo_def position_first position_absent)

lemma position_or_length: "(case position P xs of Some e \<Rightarrow> e | None \<Rightarrow> length xs) = length (takeWhile (\<lambda>c. \<not> P c) xs)"
  by (induction xs) (auto split: option.splits)

lemma last_at_append: "x \<notin> set b \<Longrightarrow> last_at x (a @ x # b) = Some (length a)"
  using position_first [of x "rev b" "rev a"] by (simp add: last_at_def)

lemma splice_url_at:
  assumes "x = s @ ''://'' @ a @ ''@'' @ r" "find_sub ''://'' x = Some (length s)"
    and "list_all (\<lambda>c. \<not> authority_end c) a" "CHR ''@'' \<notin> set (takeWhile (\<lambda>c. \<not> authority_end c) r)" "splice_userinfo a = Some m"
  shows "splice_url_userinfo x = s @ ''://'' @ m @ ''@'' @ r"
proof -
  let ?b = "takeWhile (\<lambda>c. \<not> authority_end c) r"
  have rest: "drop (length s + 3) x = a @ CHR ''@'' # r" and start: "take (length s + 3) x = s @ ''://''" by (simp_all add: assms(1))
  have tw: "takeWhile (\<lambda>c. \<not> authority_end c) (a @ CHR ''@'' # r) = a @ CHR ''@'' # ?b"
    using assms(3) by (simp add: takeWhile_append2 list_all_iff authority_end_def)
  have e: "(case position (\<lambda>c. c \<in> {CHR ''/'', CHR ''?'', CHR ''#''}) (a @ CHR ''@'' # r) of Some e \<Rightarrow> e | None \<Rightarrow> length (a @ CHR ''@'' # r))
      = length (a @ CHR ''@'' # ?b)"
    using position_or_length [of "a @ CHR ''@'' # r" authority_end, unfolded tw] unfolding authority_end_def .
  have t: "take (length (a @ CHR ''@'' # ?b)) (a @ CHR ''@'' # r) = a @ CHR ''@'' # ?b"
    using takeWhile_eq_take [of "\<lambda>c. \<not> authority_end c" r] by simp
  show ?thesis
    unfolding splice_url_userinfo_def assms(2) option.case Let_def rest e t last_at_append [OF assms(4)]
    using assms(5) start by simp
qed

lemma mask_url_same: "same_url x x' \<Longrightarrow> mask_url_userinfo parse x = mask_url_userinfo parse x'"
proof -
  assume "same_url x x'"
  then consider "x = x'" | s a a' r m where "x = s @ ''://'' @ a @ ''@'' @ r" "x' = s @ ''://'' @ a' @ ''@'' @ r"
    "find_sub ''://'' x = Some (length s)" "find_sub ''://'' x' = Some (length s)"
    "list_all (\<lambda>c. \<not> authority_end c) a" "list_all (\<lambda>c. \<not> authority_end c) a'"
    "CHR ''@'' \<notin> set (takeWhile (\<lambda>c. \<not> authority_end c) r)" "splice_userinfo a = Some m" "splice_userinfo a' = Some m"
    unfolding same_url_def using splice_userinfo_same by blast
  then have "splice_url_userinfo x = splice_url_userinfo x'"
  proof cases
    case (2 s a a' r m)
    show ?thesis using splice_url_at [OF 2(1,3,5,7,8)] splice_url_at [OF 2(2,4,6,7,9)] by simp
  qed simp
  then show ?thesis by (simp add: mask_url_userinfo_def)
qed

text \<open>What an URL may still show of its userinfo: a user name next to a masked password, or the mask.\<close>

definition masked_url :: "parsed_url \<Rightarrow> bool" where
  "masked_url u \<longleftrightarrow> pu_password u = Some mask_url_encoded
     \<or> pu_password u \<in> {None, Some []} \<and> pu_username u \<in> {[], mask_url_encoded}"

lemma mask_url_masked: "parse mask = None \<Longrightarrow> parse (mask_url_userinfo parse x) = Some u \<Longrightarrow> masked_url u"
proof -
  have live: "\<not> has_live_credentials u \<Longrightarrow> masked_url u" for u
    by (auto simp: has_live_credentials_def masked_url_def mask_url_encoded_def split: option.splits if_splits)
  show "parse mask = None \<Longrightarrow> parse (mask_url_userinfo parse x) = Some u \<Longrightarrow> masked_url u"
    using live by (auto simp: mask_url_userinfo_def Let_def split: option.splits if_splits)
qed

definition same_request :: "traced_request \<Rightarrow> traced_request \<Rightarrow> bool" where
  "same_request q q' \<longleftrightarrow> q' = q\<lparr>tq_headers := tq_headers q', tq_url := tq_url q'\<rparr> \<and> same_headers (tq_headers q) (tq_headers q')
     \<and> same_url (tq_url q) (tq_url q')"

definition same_response :: "traced_response \<Rightarrow> traced_response \<Rightarrow> bool" where
  "same_response r r' \<longleftrightarrow> r' = r\<lparr>tp_headers := tp_headers r', tp_set_cookies := tp_set_cookies r'\<rparr>
     \<and> same_headers (tp_headers r) (tp_headers r') \<and> list_all2 same_set_cookie (tp_set_cookies r) (tp_set_cookies r')"

definition same_public :: "step_trace \<Rightarrow> step_trace \<Rightarrow> bool" where
  "same_public s s' \<longleftrightarrow> s' = s\<lparr>sr_extracted := sr_extracted s', sr_branch_eval := sr_branch_eval s', sr_request := sr_request s',
       sr_response := sr_response s'\<rparr>
     \<and> rel_option same_request (sr_request s) (sr_request s') \<and> rel_option same_response (sr_response s) (sr_response s')"

lemma mask_headers_same: "same_headers hs hs' \<Longrightarrow> mask_headers hs = mask_headers hs'"
  unfolding same_headers_def by (induction rule: list_all2_induct) (auto simp: mask_headers_def mask_header_same)

lemma mask_request_same: "same_request q q' \<Longrightarrow> mask_request parse q = mask_request parse q'"
  by (cases q; cases q') (auto simp: same_request_def mask_request_def mask_headers_same mask_url_same)

lemma mask_response_same:
  assumes "same_response r r'"
  shows "mask_response r = mask_response r'"
proof -
  have "map mask_set_cookie cs = map mask_set_cookie cs'" if "list_all2 same_set_cookie cs cs'" for cs cs'
    using that by (induction rule: list_all2_induct) (auto simp: mask_set_cookie_same)
  then show ?thesis using assms by (cases r; cases r') (auto simp: same_response_def mask_response_def mask_headers_same)
qed

lemma clip_rows_same: "list_all2 same_public ss ss' \<Longrightarrow> clip_rows parse i b ss = clip_rows parse i b ss'"
proof (induction ss arbitrary: i b ss')
  case (Cons s ss)
  then obtain s' rest where ss': "ss' = s' # rest" "same_public s s'" "list_all2 same_public ss rest" by (auto simp: list_all2_Cons1)
  have q: "clip_request parse n (sr_request s) m = clip_request parse n (sr_request s') m" for n m
    using ss'(2) by (auto simp: same_public_def clip_request_def elim!: option.rel_cases dest!: mask_request_same [of _ _ parse])
  have r: "clip_response n (sr_response s) m = clip_response n (sr_response s') m" for n m
    using ss'(2) by (auto simp: same_public_def clip_response_def elim!: option.rel_cases dest!: mask_response_same)
  have s: "s'\<lparr>sr_extracted := [], sr_branch_eval := [], sr_request := x, sr_response := y\<rparr>
      = s\<lparr>sr_extracted := [], sr_branch_eval := [], sr_request := x, sr_response := y\<rparr>" for x y
    using ss'(2) by (cases s; cases s') (auto simp: same_public_def)
  show ?case unfolding ss'(1) clip_rows.simps q r s using Cons.IH [OF ss'(3)] by simp
qed simp

lemma clip_request_url:
  "clip_request parse i r b = (Some q', b', cs) \<Longrightarrow> \<exists>q. r = Some q \<and> tq_url q' = mask_url_userinfo parse (tq_url q)"
  by (auto simp: clip_request_def mask_request_def Let_def split: option.splits prod.splits)

lemma clip_rows_length: "clip_rows parse i b ss = (ss', cs) \<Longrightarrow> length ss' = length ss"
  by (induction ss arbitrary: i b ss' cs) (auto split: prod.splits)

lemma clip_rows_urls:
  "clip_rows parse i b ss = (ss', cs) \<Longrightarrow> s \<in> set ss' \<Longrightarrow> sr_request s = Some q \<Longrightarrow> \<exists>x. tq_url q = mask_url_userinfo parse x"
proof (induction ss arbitrary: i b ss' cs)
  case (Cons s0 ss)
  then show ?case using clip_request_url by (fastforce split: prod.splits)
qed simp

text \<open>
  C40: a record shows nothing of an authentication value. Two traces that differ only in the variables, the
  decisions, and the secret parts of the four authentication headers, of the cookies set and of the
  credentials in the requests' URLs, whatever their length, give the same record; and whatever the trace,
  when the HTTP client reads the URL of a request of its record, it finds a masked password, or no password
  and no user but the mask, as the mask alone is not an URL.
\<close>

theorem record_hides_secrets:
  assumes "parse mask = None"
  shows "(t' = t\<lparr>sn_steps := sn_steps t', sn_final_vars := sn_final_vars t'\<rparr> \<and> list_all2 same_public (sn_steps t) (sn_steps t')
        \<longrightarrow> build_record_body parse (Some t) kb = build_record_body parse (Some t') kb)
    \<and> (\<exists>tr. rb_trace (build_record_body parse (Some t) kb) = Some tr \<and> length (sn_steps tr) = length (sn_steps t)
        \<and> (\<forall>s \<in> set (sn_steps tr). \<forall>q. sr_request s = Some q \<longrightarrow>
             (\<forall>u. parse (tq_url q) = Some u \<longrightarrow> pu_password u = Some mask_url_encoded
                \<or> pu_password u \<in> {None, Some []} \<and> pu_username u \<in> {[], mask_url_encoded})))"
proof (intro conjI impI; (elim conjE)?)
  assume same: "t' = t\<lparr>sn_steps := sn_steps t', sn_final_vars := sn_final_vars t'\<rparr>" "list_all2 same_public (sn_steps t) (sn_steps t')"
  have "t'\<lparr>sn_final_vars := [], sn_steps := x\<rparr> = t\<lparr>sn_final_vars := [], sn_steps := x\<rparr>" for x
    using same(1) by (cases t; cases t') auto
  then show "build_record_body parse (Some t) kb = build_record_body parse (Some t') kb"
    using clip_rows_same [OF same(2), of parse] by (simp add: build_record_body_def)
next
  obtain ss cs where c: "clip_rows parse 0 (kb * 1024) (sn_steps t) = (ss, cs)" by fastforce
  let ?tr = "t\<lparr>sn_final_vars := [], sn_steps := ss\<rparr>"
  show "\<exists>tr. rb_trace (build_record_body parse (Some t) kb) = Some tr \<and> length (sn_steps tr) = length (sn_steps t)
      \<and> (\<forall>s \<in> set (sn_steps tr). \<forall>q. sr_request s = Some q \<longrightarrow>
           (\<forall>u. parse (tq_url q) = Some u \<longrightarrow> pu_password u = Some mask_url_encoded
              \<or> pu_password u \<in> {None, Some []} \<and> pu_username u \<in> {[], mask_url_encoded}))"
  proof (intro exI [of _ ?tr] conjI ballI allI impI)
    show "rb_trace (build_record_body parse (Some t) kb) = Some ?tr" by (simp add: build_record_body_def c)
    show "length (sn_steps ?tr) = length (sn_steps t)" using clip_rows_length [OF c] by simp
    fix s q u assume q: "s \<in> set (sn_steps ?tr)" "sr_request s = Some q" and u: "parse (tq_url q) = Some u"
    obtain x where "tq_url q = mask_url_userinfo parse x" using clip_rows_urls [OF c, of s q] q by auto
    then have "masked_url u" using mask_url_masked [of parse x u] assms u by simp
    then show "pu_password u = Some mask_url_encoded \<or> pu_password u \<in> {None, Some []} \<and> pu_username u \<in> {[], mask_url_encoded}"
      by (simp add: masked_url_def)
  qed
qed

definition demo_request :: "string \<Rightarrow> traced_request" where
  "demo_request v = \<lparr>tq_method = ''GET'', tq_url = ''http://u:'' @ v @ ''@h/'', tq_headers = [(''Authorization'', v)], tq_body = Some ''body''\<rparr>"

definition demo_secret_trace :: "string \<Rightarrow> scenario_trace" where
  "demo_secret_trace v = demo_trace\<lparr>sn_steps := [demo_row\<lparr>sr_request := Some (demo_request v)\<rparr>], sn_final_vars := [(''tok'', v)]\<rparr>"

theorem record_within_budget_witness:
  "body_bytes (sn_steps (the (rb_trace (build_record_body (\<lambda>_. None) (Some (demo_secret_trace ''Bearer x'')) 0)))) = 0
   \<and> \<lparr>cl_step = 0, cl_side = SideRequest\<rparr> \<in> set (rb_clipped (build_record_body (\<lambda>_. None) (Some (demo_secret_trace ''Bearer x'')) 0))"
proof -
  let ?t = "demo_secret_trace ''Bearer x''"
  have s: "sn_steps ?t = [demo_row\<lparr>sr_request := Some (demo_request ''Bearer x'')\<rparr>]" by (simp add: demo_secret_trace_def)
  have b: "request_body (demo_row\<lparr>sr_request := Some (demo_request ''Bearer x'')\<rparr>) = Some ''body''" by (simp add: request_body_def demo_request_def)
  obtain t' where t': "rb_trace (build_record_body (\<lambda>_. None) (Some ?t) 0) = Some t'" "length (sn_steps t') = 1" "body_bytes (sn_steps t') = 0"
    and k: "kept (Some ''body'') (request_body (sn_steps t' ! 0)) (\<lparr>cl_step = 0, cl_side = SideRequest\<rparr> \<in> set (rb_clipped (build_record_body (\<lambda>_. None) (Some ?t) 0)))"
    using record_within_budget [of "\<lambda>_. None" ?t 0, OF refl] by (auto simp: s b)
  have "opt_length (request_body (sn_steps t' ! 0)) = 0"
    using t'(2,3) by (cases "sn_steps t'") (auto simp: body_bytes_def)
  then show ?thesis using t' k by (cases "request_body (sn_steps t' ! 0)") auto
qed

theorem record_hides_secrets_witness:
  "build_record_body (\<lambda>_. None) (Some (demo_secret_trace ''Bearer s3cret'')) 1 = build_record_body (\<lambda>_. None) (Some (demo_secret_trace ''Bearer other-token'')) 1"
proof -
  let ?t = "demo_secret_trace ''Bearer s3cret''" and ?t' = "demo_secret_trace ''Bearer other-token''"
  have f: "ascii_lower (trim ''Authorization'') = ''authorization''" by code_simp
  have b: "\<not> blank ''s3cret''" "\<not> blank ''other-token''" by code_simp+
  have "same_before CHR '' '' ''Bearer s3cret'' ''Bearer other-token''" unfolding same_before_def
    by (intro exI [of _ "''Bearer''"] exI [of _ "''s3cret''"] exI [of _ "''other-token''"]) (simp add: b)
  then have "same_header ''Authorization'' ''Bearer s3cret'' ''Bearer other-token''"
    by (simp add: same_header_def f same_authorization_def)
  moreover have "same_url (''http://u:'' @ ''Bearer s3cret'' @ ''@h/'') (''http://u:'' @ ''Bearer other-token'' @ ''@h/'')"
    unfolding same_url_def
  proof (rule disjI2, intro exI conjI)
    show "''http://u:'' @ ''Bearer s3cret'' @ ''@h/'' = ''http'' @ ''://'' @ (''u:Bearer s3cret'') @ ''@'' @ ''h/''"
      "''http://u:'' @ ''Bearer other-token'' @ ''@h/'' = ''http'' @ ''://'' @ (''u:Bearer other-token'') @ ''@'' @ ''h/''"
      "find_sub ''://'' (''http://u:'' @ ''Bearer s3cret'' @ ''@h/'') = Some (length ''http'')"
      "find_sub ''://'' (''http://u:'' @ ''Bearer other-token'' @ ''@h/'') = Some (length ''http'')"
      "list_all (\<lambda>c. \<not> authority_end c) ''u:Bearer s3cret''" "list_all (\<lambda>c. \<not> authority_end c) ''u:Bearer other-token''"
      "CHR ''@'' \<notin> set (takeWhile (\<lambda>c. \<not> authority_end c) ''h/'')"
      by (simp_all add: authority_end_def)
    show "same_userinfo ''u:Bearer s3cret'' ''u:Bearer other-token''"
      unfolding same_userinfo_def
      by (rule disjI1, intro exI [of _ "''u''"] exI [of _ "''Bearer s3cret''"] exI [of _ "''Bearer other-token''"]) simp
  qed
  ultimately have "list_all2 same_public (sn_steps ?t) (sn_steps ?t')"
    by (simp add: demo_secret_trace_def same_public_def demo_row_def same_request_def same_headers_def demo_request_def)
  moreover have "?t' = ?t\<lparr>sn_steps := sn_steps ?t', sn_final_vars := sn_final_vars ?t'\<rparr>" by (simp add: demo_secret_trace_def)
  ultimately show ?thesis using record_hides_secrets [of "\<lambda>_. None" ?t' ?t 1, OF refl, THEN conjunct1] by blast
qed

end
