(* ===== verification/Spec2Isabelle.thy ===== *)
theory Spec2Isabelle
  imports Prelude Std_Map Shard Engine_Error Template F64 Values Genvars Scenario Condition Cast Extract
    Executor ReqGen Aggregator Dataset Run_Config Assignment Store_Runs Coordinator Coordinator_Inv Run_Watch Report_Props
    Runner_Props Arrivals_Props Vu_Curve_Props Insights_Props Trace_Props Monitor_Config_Props Monitor_Check_Props Monitor_Steps_Props Monitor_Unit_Props
    Monitor_Record_Props
begin

text \<open>
  A model of \<^verbatim>\<open>handicap\<close>, a load-testing service: a controller stores scenarios and runs, splits a run
  over workers and keeps its results; a worker drives virtual users (VUs) through the engine; the UI
  previews scenarios and shows live boards. The development follows the Rust crates \<^verbatim>\<open>engine\<close>,
  \<^verbatim>\<open>worker-core\<close> and \<^verbatim>\<open>controller\<close> under \<^verbatim>\<open>src/crates/\<close>. One theory models one source file or one
  component; a theory ending in \<^verbatim>\<open>_Props\<close>, \<^verbatim>\<open>_Inv\<close>, \<^verbatim>\<open>_Watch\<close> or \<^verbatim>\<open>_Lifecycle\<close> holds the lemmas over
  the model it imports.

  \<^bold>\<open>How the parts interact.\<close> The API validates a run (\<^verbatim>\<open>Run_Config\<close>), the coordinator splits it over
  workers (\<^verbatim>\<open>Shard\<close>, \<^verbatim>\<open>Assignment\<close>, \<^verbatim>\<open>Coordinator\<close>) and records its outcome in the run table
  (\<^verbatim>\<open>Store_Runs\<close>). A worker executes its share with one of three schedulers (closed loop in \<^verbatim>\<open>Runner\<close>, open
  loop in \<^verbatim>\<open>Arrivals\<close>, VU curve in \<^verbatim>\<open>Vu_Curve\<close>), each running the recursive interpreter of \<^verbatim>\<open>Runner\<close>, which
  evaluates conditions (\<^verbatim>\<open>Condition\<close>), refreshes generated variables (\<^verbatim>\<open>ReqGen\<close>, \<^verbatim>\<open>Genvars\<close>), renders and
  executes requests (\<^verbatim>\<open>Template\<close>, \<^verbatim>\<open>Cast\<close>, \<^verbatim>\<open>Executor\<close>, \<^verbatim>\<open>Extract\<close>, \<^verbatim>\<open>Engine_Error\<close>) and counts what happened
  (\<^verbatim>\<open>Aggregator\<close>). The batches of the aggregator arrive in the metric tables (\<^verbatim>\<open>Store_Metrics\<close>), from which
  the report, its verdict, its insights and its validity are built (\<^verbatim>\<open>Report\<close>, \<^verbatim>\<open>Insights\<close>). The test run of
  the editor (\<^verbatim>\<open>Trace\<close>) executes the same scenario once, under a budget.

  \<^bold>\<open>Foundations.\<close>
  \<^item> \<^verbatim>\<open>Prelude\<close>: fixed-width unsigned arithmetic on \<^typ>\<open>nat\<close> with its wrap-around and saturation written
    out, Rust's string operations on UTF-8 bytes (a string is its byte list, which is also Rust's order).
  \<^item> \<^verbatim>\<open>Std_Map\<close>: \<^verbatim>\<open>BTreeMap\<close> as its ascending entry list and \<^verbatim>\<open>HashMap\<close> as an entry list without duplicate
    keys, both interpreting the locales \<open>kv_map\<close> and \<open>kv_map_del\<close> of their shared laws.
  \<^item> \<^verbatim>\<open>F64\<close>, \<^verbatim>\<open>F64_Arith\<close>: \<^verbatim>\<open>f64\<close> as 64 bits with IEEE comparisons and correctly rounded arithmetic; the
    square root is a parameter. \<^verbatim>\<open>Values\<close>: JSON values, serde content, the random generator's interface.

  \<^bold>\<open>Engine.\<close>
  \<^item> \<^verbatim>\<open>Engine_Error\<close> (\<^verbatim>\<open>error.rs\<close>, \<^verbatim>\<open>error_kind.rs\<close>): errors, their value-free cause, the classification of send errors.
  \<^item> \<^verbatim>\<open>Template\<close> (\<^verbatim>\<open>template.rs\<close>): the byte scanner in its strict, lenient and collecting mode, refined to a
    declarative list of segments. \<^verbatim>\<open>Cast\<close> (\<^verbatim>\<open>cast.rs\<close>): typed JSON leaves.
  \<^item> \<^verbatim>\<open>Genvars\<close> (\<^verbatim>\<open>genvars.rs\<close>): declared variables, their wire format and their generators; \<^verbatim>\<open>ReqGen\<close> (\<^verbatim>\<open>reqgen.rs\<close>):
    re-evaluation before each request. \<^verbatim>\<open>Dataset\<close> (\<^verbatim>\<open>dataset.rs\<close> and the data sets of the controller): row
    selection, injection and mapping.
  \<^item> \<^verbatim>\<open>Scenario\<close>, \<^verbatim>\<open>Condition\<close>, \<^verbatim>\<open>Extract\<close>, \<^verbatim>\<open>Executor\<close>: the files of the same names; think time is from \<^verbatim>\<open>pacing.rs\<close>.
  \<^item> \<^verbatim>\<open>Runner\<close>, \<^verbatim>\<open>Arrivals\<close>, \<^verbatim>\<open>Vu_Curve\<close> (\<^verbatim>\<open>runner.rs\<close>): the interpreter and the three schedulers. The interpreter
    refines an inductive specification of complete and cut executions (\<^verbatim>\<open>Runner_Props\<close>); the open-loop
    scheduler and the VU curve are machines whose steps interleave with the VUs.
  \<^item> \<^verbatim>\<open>Trace\<close> (\<^verbatim>\<open>trace.rs\<close>, \<^verbatim>\<open>execute_step_traced\<close>): the test run, refining the same specification.
  \<^item> \<^verbatim>\<open>Aggregator\<close> (\<^verbatim>\<open>aggregator.rs\<close>): windows and delta counters; the locale \<open>delta_counter\<close> is interpreted for
    every counter, and gives conservation between recording and draining.

  \<^bold>\<open>Controller.\<close>
  \<^item> \<^verbatim>\<open>Shard\<close> (\<^verbatim>\<open>grpc/shard.rs\<close>), \<^verbatim>\<open>Run_Config\<close> (\<^verbatim>\<open>store/runs.rs\<close>, \<^verbatim>\<open>api/runs.rs\<close>), \<^verbatim>\<open>Assignment\<close> (\<^verbatim>\<open>grpc/profile.rs\<close>
    and the slicing in \<^verbatim>\<open>grpc/coordinator.rs\<close>): fan-out, the gate of a run and what each worker is sent.
  \<^item> \<^verbatim>\<open>Coordinator\<close> (the state and critical sections of \<^verbatim>\<open>grpc/coordinator.rs\<close>), \<^verbatim>\<open>Coordinator_Inv\<close> (its machine and
    invariant), \<^verbatim>\<open>Run_Machine\<close> (the handlers as interleaved tasks of commands over the world),
    \<^verbatim>\<open>Run_Lifecycle\<close>, \<^verbatim>\<open>Run_Watch\<close> (what holds of every interleaving). The locales \<open>one_shot\<close> and
    \<open>status_writer\<close> are the contracts of a run's finalization and of a status statement.
  \<^item> \<^verbatim>\<open>Store_Runs\<close>, \<^verbatim>\<open>Store_Metrics\<close> (\<^verbatim>\<open>store/runs.rs\<close>, \<^verbatim>\<open>store/metrics.rs\<close>): SQL statements as functions on the
    tables; the locale \<open>accumulating\<close> is the contract of an adding upsert.
  \<^item> \<^verbatim>\<open>Report\<close> (\<^verbatim>\<open>report.rs\<close>), \<^verbatim>\<open>Insights\<close> (\<^verbatim>\<open>insights.rs\<close>, \<^verbatim>\<open>validity.rs\<close>).

  \<^bold>\<open>Monitor.\<close>
  \<^item> \<^verbatim>\<open>Monitor_Config\<close> (\<^verbatim>\<open>monitor/config.rs\<close>): a board and the validation it passes before it is stored; a validated
    board is well formed and a fixed point of validation (\<^verbatim>\<open>Monitor_Config_Props\<close>, whose locale \<open>normalizer\<close> is the
    contract of a checked normalization).
  \<^item> \<^verbatim>\<open>Monitor_Check\<close> (\<^verbatim>\<open>monitor/check.rs\<close>): one check of a panel, its judgement and what is shown of it;
    \<^verbatim>\<open>Monitor_Check_Props\<close> characterizes the verdict and relates the results of two executions that differ
    only in error texts and in the values of authentication headers.
  \<^item> \<^verbatim>\<open>Monitor_Steps\<close> (\<^verbatim>\<open>monitor/step_judge.rs\<close>): the judgement of all step panels of a unit. The table filled in the
    order of the code is the one in which each panel is judged against the final results of the others; from
    this follow where a failure turns red and that it is never hidden; two executions that differ only in
    secrets show the same wall as long as the conditions on authentication headers agree (\<^verbatim>\<open>Monitor_Steps_Props\<close>).
  \<^item> \<^verbatim>\<open>Monitor_Unit\<close> (\<^verbatim>\<open>monitor/unit.rs\<close>): the units of a board, their limits, and one check of a unit.
  \<^item> \<^verbatim>\<open>Monitor_Record\<close> (\<^verbatim>\<open>monitor/record.rs\<close>): what is kept of a check, masked and cut.

  \<^bold>\<open>Parameters.\<close> Code that is not in the repository is an argument: the HTTP client (\<open>http_ops\<close>), the clock,
  cancellation, sleeping and the scheduling of concurrent branches (\<open>rt_ops\<close>), random numbers (\<open>rng_ops\<close>), time
  zones (\<open>chrono_ops\<close>), regular expressions, JSON and JSONPath (\<open>extract_ops\<close>, \<open>json_reader\<close>), HDR histograms
  (\<open>hist_api\<close>), the YAML reader. A hypothesis about one of them states its documented behaviour, e.g.
  \<open>shuffle_ok\<close>: a mutex-protected log of concurrent branches is some interleaving of their logs.

  \<^bold>\<open>Bounds and termination.\<close> Recursive functions are total: structural, or with a measure on the size of the
  scenario. A virtual user's loop is \<^verbatim>\<open>partial_function (option)\<close>, and its return is a theorem under a clock
  that advances. The schedulers and the controller are step relations; that a curve run ends is proved by
  a bound on the number of steps left after its deadline. No fuel is used for code that can run forever.

  \<^bold>\<open>Not modelled.\<close> The network loops of the workers (\<^verbatim>\<open>worker\<close>, \<^verbatim>\<open>worker-core\<close>), connection timing, Kubernetes and
  the desktop shell are I/O around the modelled handlers; the remaining REST handlers and stores are plain
  create, read, update and delete over SQLite; the HTML, CSV and JSON exports and the spreadsheet reader are
  formatting through libraries; the UI is TypeScript. Three simplifications are deliberate: a status write of the
  controller always reaches the store (the code logs a failing one and goes on), the sums of a report are
  unbounded naturals, and that building an HTTP client can fail is an argument of the traced scenario. \<^verbatim>\<open>PROJECT.json\<close> lists each with its reason.
\<close>

end
